(* ===== verification/Prelude.thy ===== *)
theory Prelude
  imports "HOL-Library.Word" "HOL-Library.List_Lexorder" "HOL-Library.Sublist"
begin

section \<open>Shared vocabulary of the voytty development\<close>

text \<open>
  The prelude fixes how the Rust vocabulary of the sources is read in HOL.

    \<^item> \<open>result\<close> is Rust's \<open>Result<T, E>\<close>; \<open>res_bind\<close> is the \<open>?\<close> operator.
    \<^item> Unsigned integers that are only counted, compared and added are natural
      numbers; every checked or saturating operation of the source is written out
      with the width's maximum.  Signed 64-bit integers are \<open>int\<close> with the range
      test written out.  Bytes and bit sets are machine words.  The pointer
      width is 64 bits, so \<open>usize\<close> and \<open>u64\<close> have the same range.
    \<^item> A Rust \<open>char\<close> is its Unicode scalar value and a \<open>str\<close> the list of its
      scalars; \<open>utf8\<close> gives the bytes \<open>str::as_bytes\<close> returns, so byte limits are
      limits on \<open>str_len\<close>.

  The collections \<open>arith_defs\<close> and \<open>str_defs\<close> gather the definitions that the
  component proofs unfold together.
\<close>

named_theorems arith_defs \<open>definitions of checked and saturating arithmetic\<close>
named_theorems str_defs \<open>definitions of the string predicates\<close>

subsection \<open>Results\<close>

datatype ('a, 'e) result = Ok 'a | Err 'e

primrec res_bind :: "('a, 'e) result \<Rightarrow> ('a \<Rightarrow> ('b, 'e) result) \<Rightarrow> ('b, 'e) result" where
  "res_bind (Ok x) f = f x"
| "res_bind (Err e) f = Err e"

primrec map_err :: "('e \<Rightarrow> 'f) \<Rightarrow> ('a, 'e) result \<Rightarrow> ('a, 'f) result" where
  "map_err f (Ok x) = Ok x"
| "map_err f (Err e) = Err (f e)"

primrec ok_or :: "'a option \<Rightarrow> 'e \<Rightarrow> ('a, 'e) result" where
  "ok_or None e = Err e"
| "ok_or (Some x) e = Ok x"

primrec is_ok :: "('a, 'e) result \<Rightarrow> bool" where
  "is_ok (Ok x) = True"
| "is_ok (Err e) = False"

definition ensure :: "bool \<Rightarrow> 'e \<Rightarrow> (unit, 'e) result" where
  "ensure b e = (if b then Ok () else Err e)"

lemma res_bind_Ok_iff [simp]:
  "res_bind r f = Ok y \<longleftrightarrow> (\<exists>x. r = Ok x \<and> f x = Ok y)"
  by (cases r) auto

lemma res_bind_Err_iff:
  "res_bind r f = Err e \<longleftrightarrow> r = Err e \<or> (\<exists>x. r = Ok x \<and> f x = Err e)"
  by (cases r) auto

lemma res_bind_assoc: "res_bind (res_bind r f) g = res_bind r (\<lambda>x. res_bind (f x) g)"
  by (cases r) auto

lemma map_err_Ok_iff [simp]: "map_err f r = Ok y \<longleftrightarrow> r = Ok y"
  by (cases r) auto

lemma ok_or_Ok_iff [simp]: "ok_or opt e = Ok y \<longleftrightarrow> opt = Some y"
  by (cases opt) auto

lemma ok_or_Err_iff: "ok_or opt e = Err e' \<longleftrightarrow> opt = None \<and> e = e'"
  by (cases opt) auto

lemma ensure_Ok_iff [simp]: "ensure b e = Ok u \<longleftrightarrow> b"
  by (auto simp: ensure_def)

lemma ensure_Err_iff: "ensure b e = Err e' \<longleftrightarrow> \<not> b \<and> e = e'"
  by (auto simp: ensure_def)

lemma is_ok_iff: "is_ok r \<longleftrightarrow> (\<exists>x. r = Ok x)"
  by (cases r) auto

text \<open>A loop that validates the elements in order and stops at the first error.\<close>

primrec try_each :: "('a \<Rightarrow> (unit, 'e) result) \<Rightarrow> 'a list \<Rightarrow> (unit, 'e) result" where
  "try_each f [] = Ok ()"
| "try_each f (x # xs) = res_bind (f x) (\<lambda>_. try_each f xs)"

text \<open>\<open>map(..).collect::<Result<Vec<_>, _>>()\<close>: the first error wins.\<close>

primrec try_map :: "('a \<Rightarrow> ('b, 'e) result) \<Rightarrow> 'a list \<Rightarrow> ('b list, 'e) result" where
  "try_map f [] = Ok []"
| "try_map f (x # xs) = res_bind (f x) (\<lambda>y. res_bind (try_map f xs) (\<lambda>ys. Ok (y # ys)))"

lemma try_map_id: "\<forall>x \<in> set xs. f x = Ok x \<Longrightarrow> try_map f xs = Ok xs"
  by (induction xs) auto

lemma try_map_map_id: "\<forall>x \<in> set xs. f (g x) = Ok x \<Longrightarrow> try_map f (map g xs) = Ok xs"
  by (induction xs) auto

lemma try_map_Ok_iff: "try_map f xs = Ok ys \<longleftrightarrow> list_all2 (\<lambda>x y. f x = Ok y) xs ys"
  by (induction xs arbitrary: ys) (auto simp: list_all2_Cons1)

lemma try_each_Ok_iff [simp]:
  "try_each f xs = Ok u \<longleftrightarrow> (\<forall>x \<in> set xs. f x = Ok ())"
  by (induction xs) auto

subsection \<open>Machine integers\<close>

abbreviation U8_MAX :: nat where "U8_MAX \<equiv> 255"
abbreviation U16_MAX :: nat where "U16_MAX \<equiv> 65535"
abbreviation U32_MAX :: nat where "U32_MAX \<equiv> 4294967295"
abbreviation U64_MAX :: nat where "U64_MAX \<equiv> 18446744073709551615"
abbreviation I64_MAX :: nat where "I64_MAX \<equiv> 9223372036854775807"

definition checked_add :: "nat \<Rightarrow> nat \<Rightarrow> nat \<Rightarrow> nat option" where
  [arith_defs]: "checked_add limit a b = (if a + b \<le> limit then Some (a + b) else None)"

definition checked_mul :: "nat \<Rightarrow> nat \<Rightarrow> nat \<Rightarrow> nat option" where
  [arith_defs]: "checked_mul limit a b = (if a * b \<le> limit then Some (a * b) else None)"

definition checked_sub :: "nat \<Rightarrow> nat \<Rightarrow> nat option" where
  [arith_defs]: "checked_sub a b = (if b \<le> a then Some (a - b) else None)"

definition saturating_add :: "nat \<Rightarrow> nat \<Rightarrow> nat \<Rightarrow> nat" where
  [arith_defs]: "saturating_add limit a b = min limit (a + b)"

definition saturating_mul :: "nat \<Rightarrow> nat \<Rightarrow> nat \<Rightarrow> nat" where
  [arith_defs]: "saturating_mul limit a b = min limit (a * b)"

text \<open>\<open>saturating_sub\<close> of unsigned integers is the truncated subtraction of \<open>nat\<close>.\<close>

definition i64_try_from :: "nat \<Rightarrow> int option" where
  [arith_defs]: "i64_try_from n = (if n \<le> I64_MAX then Some (int n) else None)"

definition u64_try_from :: "int \<Rightarrow> nat option" where
  [arith_defs]: "u64_try_from i = (if 0 \<le> i \<and> i \<le> int U64_MAX then Some (nat i) else None)"

definition in_i64 :: "int \<Rightarrow> bool" where
  [arith_defs]: "in_i64 i \<longleftrightarrow> - 9223372036854775808 \<le> i \<and> i \<le> int I64_MAX"

definition i64_checked :: "int \<Rightarrow> int option" where
  [arith_defs]: "i64_checked i = (if in_i64 i then Some i else None)"

definition i64_saturating :: "int \<Rightarrow> int" where
  [arith_defs]: "i64_saturating i = max (- 9223372036854775808) (min (int I64_MAX) i)"

lemma checked_add_Some_iff [simp]:
  "checked_add limit a b = Some c \<longleftrightarrow> a + b \<le> limit \<and> c = a + b"
  by (auto simp: checked_add_def)

lemma checked_add_None_iff: "checked_add limit a b = None \<longleftrightarrow> limit < a + b"
  by (auto simp: checked_add_def)

lemma checked_mul_Some_iff [simp]:
  "checked_mul limit a b = Some c \<longleftrightarrow> a * b \<le> limit \<and> c = a * b"
  by (auto simp: checked_mul_def)

lemma checked_sub_Some_iff [simp]:
  "checked_sub a b = Some c \<longleftrightarrow> b \<le> a \<and> c = a - b"
  by (auto simp: checked_sub_def)

lemma saturating_add_le [simp]: "saturating_add limit a b \<le> limit"
  by (simp add: saturating_add_def)

lemma i64_try_from_Some_iff [simp]:
  "i64_try_from n = Some i \<longleftrightarrow> n \<le> I64_MAX \<and> i = int n"
  by (auto simp: i64_try_from_def)

lemma u64_try_from_Some_iff:
  "u64_try_from i = Some n \<longleftrightarrow> n \<le> U64_MAX \<and> i = int n"
  by (auto simp: u64_try_from_def)

lemma i64_checked_Some_iff [simp]: "i64_checked i = Some j \<longleftrightarrow> in_i64 i \<and> j = i"
  by (auto simp: i64_checked_def)

subsection \<open>Bytes\<close>

type_synonym byte = "8 word"

text \<open>\<open>be_bytes n v\<close> is the big-endian encoding of \<open>v\<close> on \<open>n\<close> bytes
  (\<open>to_be_bytes\<close> of the unsigned type of that width).\<close>

primrec be_bytes :: "nat \<Rightarrow> nat \<Rightarrow> byte list" where
  "be_bytes 0 v = []"
| "be_bytes (Suc n) v = be_bytes n (v div 256) @ [word_of_nat v]"

lemma length_be_bytes [simp]: "length (be_bytes n v) = n"
  by (induction n arbitrary: v) auto

lemma byte_of_nat_eq_iff:
  "(word_of_nat v :: byte) = word_of_nat w \<longleftrightarrow> v mod 256 = w mod 256"
  by (simp add: word_of_nat_eq_iff take_bit_eq_mod)

lemma be_bytes_inject:
  assumes "be_bytes n v = be_bytes n w" "v < 256 ^ n" "w < 256 ^ n"
  shows "v = w"
  using assms
proof (induction n arbitrary: v w)
  case 0
  then show ?case by simp
next
  case (Suc n)
  from Suc.prems(1) have head: "be_bytes n (v div 256) = be_bytes n (w div 256)"
    and last: "v mod 256 = w mod 256"
    by (simp_all add: byte_of_nat_eq_iff)
  have "v div 256 < 256 ^ n" "w div 256 < 256 ^ n"
    using Suc.prems(2,3) by (simp_all add: div_less_iff_less_mult mult.commute)
  with head have "v div 256 = w div 256" by (rule Suc.IH)
  with last show ?case by (metis div_mult_mod_eq)
qed

subsection \<open>Characters and strings\<close>

type_synonym scalar = nat
type_synonym rust_str = "scalar list"

definition lit :: "string \<Rightarrow> rust_str" where
  [simp]: "lit s = map of_char s"

definition is_scalar :: "scalar \<Rightarrow> bool" where
  "is_scalar c \<longleftrightarrow> c < 55296 \<or> (57344 \<le> c \<and> c < 1114112)"

definition is_str :: "rust_str \<Rightarrow> bool" where
  "is_str s \<longleftrightarrow> list_all is_scalar s"

definition utf8_char :: "scalar \<Rightarrow> byte list" where
  "utf8_char c =
    (if c < 128 then [word_of_nat c]
     else if c < 2048 then [word_of_nat (192 + c div 64), word_of_nat (128 + c mod 64)]
     else if c < 65536 then
       [word_of_nat (224 + c div 4096), word_of_nat (128 + c div 64 mod 64),
        word_of_nat (128 + c mod 64)]
     else
       [word_of_nat (240 + c div 262144), word_of_nat (128 + c div 4096 mod 64),
        word_of_nat (128 + c div 64 mod 64), word_of_nat (128 + c mod 64)])"

definition len_utf8 :: "scalar \<Rightarrow> nat" where
  "len_utf8 c = (if c < 128 then 1 else if c < 2048 then 2 else if c < 65536 then 3 else 4)"

definition utf8 :: "rust_str \<Rightarrow> byte list" where
  "utf8 s = concat (map utf8_char s)"

definition str_len :: "rust_str \<Rightarrow> nat" where
  "str_len s = sum_list (map len_utf8 s)"

text \<open>\<open>char::is_control\<close> is the general category Cc, \<open>char::is_whitespace\<close> the
  property White\_Space; both sets are fixed by the Unicode standard.\<close>

definition is_control :: "scalar \<Rightarrow> bool" where
  [str_defs]: "is_control c \<longleftrightarrow> c \<le> 31 \<or> (127 \<le> c \<and> c \<le> 159)"

definition is_whitespace :: "scalar \<Rightarrow> bool" where
  [str_defs]: "is_whitespace c \<longleftrightarrow>
    (9 \<le> c \<and> c \<le> 13) \<or> c = 32 \<or> c = 133 \<or> c = 160 \<or> c = 5760 \<or>
    (8192 \<le> c \<and> c \<le> 8202) \<or> c = 8232 \<or> c = 8233 \<or> c = 8239 \<or> c = 8287 \<or> c = 12288"

definition is_ascii_digit :: "scalar \<Rightarrow> bool" where
  [str_defs]: "is_ascii_digit c \<longleftrightarrow> 48 \<le> c \<and> c \<le> 57"

definition is_ascii_lowercase :: "scalar \<Rightarrow> bool" where
  [str_defs]: "is_ascii_lowercase c \<longleftrightarrow> 97 \<le> c \<and> c \<le> 122"

definition is_ascii_uppercase :: "scalar \<Rightarrow> bool" where
  [str_defs]: "is_ascii_uppercase c \<longleftrightarrow> 65 \<le> c \<and> c \<le> 90"

definition trim_end :: "rust_str \<Rightarrow> rust_str" where
  "trim_end s = rev (dropWhile is_whitespace (rev s))"

definition trim :: "rust_str \<Rightarrow> rust_str" where
  "trim s = trim_end (dropWhile is_whitespace s)"

lemma length_utf8_char [simp]: "length (utf8_char c) = len_utf8 c"
  by (simp add: utf8_char_def len_utf8_def)

lemma length_utf8 [simp]: "length (utf8 s) = str_len s"
  by (induction s) (simp_all add: utf8_def str_len_def)

lemma str_len_simps [simp]:
  "str_len [] = 0"
  "str_len (c # s) = len_utf8 c + str_len s"
  "str_len (s @ t) = str_len s + str_len t"
  by (simp_all add: str_len_def)

lemma utf8_simps [simp]:
  "utf8 [] = []"
  "utf8 (c # s) = utf8_char c @ utf8 s"
  "utf8 (s @ t) = utf8 s @ utf8 t"
  by (simp_all add: utf8_def)

lemma len_utf8_pos [simp]: "0 < len_utf8 c" "len_utf8 c \<le> 4"
  by (simp_all add: len_utf8_def)

lemma str_len_eq_0_iff [simp]: "str_len s = 0 \<longleftrightarrow> s = []"
  by (cases s) auto

lemma len_utf8_ascii [simp]: "c < 128 \<Longrightarrow> len_utf8 c = 1"
  by (simp add: len_utf8_def)

lemma str_len_ascii: "\<forall>c \<in> set s. c < 128 \<Longrightarrow> str_len s = length s"
  by (induction s) auto

lemma utf8_ascii: "\<forall>c \<in> set s. c < 128 \<Longrightarrow> utf8 s = map word_of_nat s"
  by (induction s) (simp_all add: utf8_char_def)

text \<open>A string equals its trimmed form exactly when it neither starts nor ends
  with white space.\<close>

lemma trim_end_id_iff: "trim_end s = s \<longleftrightarrow> s = [] \<or> \<not> is_whitespace (last s)"
proof (cases s rule: rev_cases)
  case Nil
  then show ?thesis by (simp add: trim_end_def)
next
  case (snoc t c)
  have "length (dropWhile is_whitespace (rev t)) \<le> length t"
    using length_dropWhile_le[of is_whitespace "rev t"] by simp
  then have "length (rev (dropWhile is_whitespace (rev t))) < length (t @ [c])"
    by simp
  then have "rev (dropWhile is_whitespace (rev t)) \<noteq> t @ [c]"
    by (rule contrapos_pn) (erule ssubst, rule less_irrefl)
  with snoc show ?thesis by (simp add: trim_end_def)
qed

lemma length_trim_end_le: "length (trim_end s) \<le> length s"
  using length_dropWhile_le[of is_whitespace "rev s"] by (simp add: trim_end_def)

lemma trim_id_iff:
  "trim s = s \<longleftrightarrow> s = [] \<or> (\<not> is_whitespace (hd s) \<and> \<not> is_whitespace (last s))"
proof (cases s)
  case Nil
  then show ?thesis by (simp add: trim_def trim_end_def)
next
  case (Cons c t)
  show ?thesis
  proof (cases "is_whitespace c")
    case True
    have "length (trim s) \<le> length t"
      using True Cons length_trim_end_le[of "dropWhile is_whitespace t"]
        length_dropWhile_le[of is_whitespace t]
      by (simp add: trim_def)
    then have "trim s \<noteq> s" using Cons by auto
    with True Cons show ?thesis by simp
  next
    case False
    then have "trim s = trim_end s" using Cons by (simp add: trim_def)
    with False Cons show ?thesis by (simp add: trim_end_id_iff)
  qed
qed

lemma trim_end_prefix: "\<exists>w. s = trim_end s @ w \<and> (\<forall>c \<in> set w. is_whitespace c)"
proof -
  have "s = rev (dropWhile is_whitespace (rev s)) @ rev (takeWhile is_whitespace (rev s))"
    by (simp flip: rev_append)
  moreover have "\<forall>c \<in> set (rev (takeWhile is_whitespace (rev s))). is_whitespace c"
    by (auto dest: set_takeWhileD)
  ultimately show ?thesis unfolding trim_end_def by blast
qed

lemma trim_end_last: "trim_end s \<noteq> [] \<Longrightarrow> \<not> is_whitespace (last (trim_end s))"
  by (simp add: trim_end_def last_rev hd_dropWhile)

text \<open>UTF-8 is injective on Rust strings: two strings with the same bytes are the
  same string.\<close>

lemma byte_of_nat_eq_small:
  "a < 256 \<Longrightarrow> b < 256 \<Longrightarrow> (word_of_nat a :: byte) = word_of_nat b \<longleftrightarrow> a = b"
  by (simp add: byte_of_nat_eq_iff)

lemma div_mod_64_eqD:
  fixes c d :: nat
  assumes "c div 64 = d div 64" "c mod 64 = d mod 64"
  shows "c = d"
  using assms by (metis div_mult_mod_eq)

lemma div_mod_4096_eqD:
  fixes c d :: nat
  assumes "c div 4096 = d div 4096" "c div 64 mod 64 = d div 64 mod 64" "c mod 64 = d mod 64"
  shows "c = d"
proof -
  have "c div 64 div 64 = d div 64 div 64"
    using assms(1) by (simp only: div_mult2_eq [symmetric]) simp
  then have "c div 64 = d div 64" using assms(2) by (rule div_mod_64_eqD)
  then show ?thesis using assms(3) by (rule div_mod_64_eqD)
qed

lemma div_mod_262144_eqD:
  fixes c d :: nat
  assumes "c div 262144 = d div 262144" "c div 4096 mod 64 = d div 4096 mod 64"
    "c div 64 mod 64 = d div 64 mod 64" "c mod 64 = d mod 64"
  shows "c = d"
proof -
  have "c div 4096 div 64 = d div 4096 div 64"
    using assms(1) by (simp only: div_mult2_eq [symmetric]) simp
  then have "c div 4096 = d div 4096" using assms(2) by (rule div_mod_64_eqD)
  then show ?thesis using assms(3,4) by (rule div_mod_4096_eqD)
qed

definition utf8_lead :: "scalar \<Rightarrow> nat" where
  "utf8_lead c = (if c < 128 then c else if c < 2048 then 192 + c div 64
     else if c < 65536 then 224 + c div 4096 else 240 + c div 262144)"

lemma hd_utf8_char: "hd (utf8_char c) = word_of_nat (utf8_lead c)"
  by (simp add: utf8_char_def utf8_lead_def)

lemma utf8_lead_less: "is_scalar c \<Longrightarrow> utf8_lead c < 256"
  by (auto simp: utf8_lead_def is_scalar_def div_less_iff_less_mult intro: less_le_trans)

lemma len_utf8_lead:
  "len_utf8 c = (if utf8_lead c < 128 then 1 else if utf8_lead c < 224 then 2
     else if utf8_lead c < 240 then 3 else 4)"
proof -
  have "c < 2048 \<Longrightarrow> 192 + c div 64 < 224" "c < 65536 \<Longrightarrow> 224 + c div 4096 < 240"
    using div_less_iff_less_mult[of 64 c 32] div_less_iff_less_mult[of 4096 c 16] by simp_all
  then show ?thesis by (auto simp: len_utf8_def utf8_lead_def)
qed

lemma utf8_char_nonempty [simp]: "utf8_char c \<noteq> []"
  by (simp add: utf8_char_def)

lemma cont_byte_eq_iff:
  "(word_of_nat (128 + x mod 64) :: byte) = word_of_nat (128 + y mod 64) \<longleftrightarrow> x mod 64 = y mod 64"
proof -
  have "x mod 64 < 64" "y mod 64 < 64" by simp_all
  then have "128 + x mod 64 < 256" "128 + y mod 64 < 256" by linarith+
  then show ?thesis by (simp only: byte_of_nat_eq_small add_left_cancel)
qed

lemma lead_byte_eq_iff:
  "k + x < 256 \<Longrightarrow> k + y < 256 \<Longrightarrow> (word_of_nat (k + x) :: byte) = word_of_nat (k + y) \<longleftrightarrow> x = y"
  by (simp only: byte_of_nat_eq_small add_left_cancel)

lemma div_bounds:
  fixes c :: nat
  shows "c < 2048 \<Longrightarrow> 192 + c div 64 < 256" "c < 65536 \<Longrightarrow> 224 + c div 4096 < 256"
    "c < 1114112 \<Longrightarrow> 240 + c div 262144 < 256"
  using div_less_iff_less_mult[of 64 c 32] div_less_iff_less_mult[of 4096 c 16]
    div_less_iff_less_mult[of 262144 c 16]
  by simp_all

lemma utf8_char_inject:
  assumes "is_scalar c" "is_scalar d" "utf8_char c = utf8_char d"
  shows "c = d"
proof -
  have len: "len_utf8 c = len_utf8 d" using assms(3) by (metis length_utf8_char)
  have bounds: "c < 1114112" "d < 1114112" using assms(1,2) by (auto simp: is_scalar_def)
  consider "c < 128" "d < 128" | "128 \<le> c" "c < 2048" "128 \<le> d" "d < 2048"
    | "2048 \<le> c" "c < 65536" "2048 \<le> d" "d < 65536" | "65536 \<le> c" "65536 \<le> d"
    using len by (auto simp: len_utf8_def split: if_splits)
  then show ?thesis
  proof cases
    case 1
    then show ?thesis using assms(3) by (simp add: utf8_char_def byte_of_nat_eq_small)
  next
    case 2
    then have "\<not> c < 128" "\<not> d < 128" by simp_all
    then show ?thesis
      using assms(3) 2 div_mod_64_eqD[of c d]
      by (simp only: utf8_char_def list.inject cont_byte_eq_iff lead_byte_eq_iff div_bounds
          if_False if_True)
  next
    case 3
    then have "\<not> c < 128" "\<not> c < 2048" "\<not> d < 128" "\<not> d < 2048" by simp_all
    then show ?thesis
      using assms(3) 3 div_mod_4096_eqD[of c d]
      by (simp only: utf8_char_def list.inject cont_byte_eq_iff lead_byte_eq_iff div_bounds
          if_False if_True)
  next
    case 4
    then have "\<not> c < 128" "\<not> c < 2048" "\<not> d < 128" "\<not> d < 2048" "\<not> c < 65536" "\<not> d < 65536"
      by simp_all
    then show ?thesis
      using assms(3) bounds div_mod_262144_eqD[of c d]
      by (simp only: utf8_char_def list.inject cont_byte_eq_iff lead_byte_eq_iff div_bounds
          if_False if_True)
  qed
qed

lemma utf8_inject:
  assumes "is_str s" "is_str t" "utf8 s = utf8 t"
  shows "s = t"
  using assms
proof (induction s arbitrary: t)
  case Nil
  then show ?case by (cases t) auto
next
  case (Cons c s)
  from Cons.prems(3) obtain d t' where t: "t = d # t'"
    by (cases t) auto
  have sc: "is_scalar c" "is_scalar d" "is_str s" "is_str t'"
    using Cons.prems(1,2) t by (auto simp: is_str_def)
  have eq: "utf8_char c @ utf8 s = utf8_char d @ utf8 t'" using Cons.prems(3) t by simp
  then have "hd (utf8_char c) = hd (utf8_char d)"
    by (metis hd_append utf8_char_nonempty)
  then have "utf8_lead c = utf8_lead d"
    using sc(1,2) by (simp add: hd_utf8_char byte_of_nat_eq_small utf8_lead_less)
  then have "len_utf8 c = len_utf8 d" by (simp add: len_utf8_lead)
  with eq have "utf8_char c = utf8_char d" "utf8 s = utf8 t'" by auto
  then show ?case using utf8_char_inject sc Cons.IH t by blast
qed

end
