(* ===== verification/Domain.thy ===== *)
theory Domain
  imports Prelude
begin

section \<open>Identifiers, names and limits\<close>

text \<open>
  The value types of \<open>core/src/domain.rs\<close>: fixed-width identifiers with their
  canonical lowercase hexadecimal text, session names, revisions, principals,
  capability sets and the default resource limits.

  An identifier is the list of its bytes; \<open>from_bytes\<close> enforces the width of the
  \<open>fixed_id!\<close> type it builds.  \<open>DeviceId\<close> and \<open>SessionId\<close> have the same text codec
  at different widths; the locale \<open>hex_identifier\<close> states that contract and both
  parsers are instances of it.
\<close>

unbundle bit_operations_syntax

subsection \<open>Fixed-width identifiers\<close>

record id_length_error =
  id_name :: string
  id_expected :: nat
  id_actual :: nat

definition from_bytes :: "string \<Rightarrow> nat \<Rightarrow> byte list \<Rightarrow> (byte list, id_length_error) result" where
  "from_bytes name width bytes =
    (if length bytes = width then Ok bytes
     else Err \<lparr>id_name = name, id_expected = width, id_actual = length bytes\<rparr>)"

type_synonym device_id = "byte list"
type_synonym session_id = "byte list"
type_synonym attachment_id = "byte list"
type_synonym daemon_incarnation = "byte list"
type_synonym resume_view_id = "byte list"
type_synonym pair_offer_id = "byte list"
type_synonym pair_nonce = "byte list"
type_synonym connection_attempt_id = "byte list"
type_synonym connection_incarnation = "byte list"
type_synonym ephemeral_operation_id = "byte list"
type_synonym transfer_id = "byte list"

definition DEVICE_ID_LENGTH :: nat where [simp]: "DEVICE_ID_LENGTH = 32"
definition SESSION_ID_LENGTH :: nat where [simp]: "SESSION_ID_LENGTH = 16"

subsection \<open>Hexadecimal text\<close>

definition hex_digit :: "nat \<Rightarrow> scalar" where
  "hex_digit n = (if n < 10 then 48 + n else 87 + n)"

text \<open>The formatting directive \<open>{byte:02x}\<close>: two lowercase hexadecimal digits.\<close>

definition fmt_02x :: "byte \<Rightarrow> rust_str" where
  "fmt_02x b = [hex_digit (unat b div 16), hex_digit (unat b mod 16)]"

definition device_id_display :: "device_id \<Rightarrow> rust_str" where
  "device_id_display bytes = concat (map fmt_02x bytes)"

definition session_id_display :: "session_id \<Rightarrow> rust_str" where
  "session_id_display bytes = concat (map fmt_02x bytes)"

definition attachment_id_display :: "attachment_id \<Rightarrow> rust_str" where
  "attachment_id_display bytes = concat (map fmt_02x bytes)"

definition lowercase_hex_nibble :: "byte \<Rightarrow> byte option" where
  "lowercase_hex_nibble b =
    (if 48 \<le> b \<and> b \<le> 57 then Some (b - 48)
     else if 97 \<le> b \<and> b \<le> 102 then Some (b - 97 + 10)
     else None)"

text \<open>The loop over the two-byte chunks; \<open>index\<close> is the index of the pair, and
  \<open>bad_char\<close> builds the error that carries the offending byte's offset.\<close>

fun hex_pairs :: "(nat \<Rightarrow> 'e) \<Rightarrow> nat \<Rightarrow> byte list \<Rightarrow> (byte list, 'e) result" where
  "hex_pairs bad_char index (hi # lo # rest) =
    res_bind (ok_or (lowercase_hex_nibble hi) (bad_char (index * 2))) (\<lambda>high.
    res_bind (ok_or (lowercase_hex_nibble lo) (bad_char (index * 2 + 1))) (\<lambda>low.
    res_bind (hex_pairs bad_char (Suc index) rest) (\<lambda>bytes.
    Ok ((push_bit 4 high OR low) # bytes))))"
| "hex_pairs bad_char index _ = Ok []"

datatype device_id_text_error =
    DeviceIdInvalidLength nat
  | DeviceIdInvalidCharacter nat

datatype session_id_text_error =
    SessionIdInvalidLength nat
  | SessionIdInvalidCharacter nat

definition device_id_from_str :: "rust_str \<Rightarrow> (device_id, device_id_text_error) result" where
  "device_id_from_str value =
    (if str_len value \<noteq> DEVICE_ID_LENGTH * 2 then Err (DeviceIdInvalidLength (str_len value))
     else hex_pairs DeviceIdInvalidCharacter 0 (utf8 value))"

definition session_id_from_str :: "rust_str \<Rightarrow> (session_id, session_id_text_error) result" where
  "session_id_from_str value =
    (if str_len value \<noteq> SESSION_ID_LENGTH * 2 then Err (SessionIdInvalidLength (str_len value))
     else hex_pairs SessionIdInvalidCharacter 0 (utf8 value))"

subsection \<open>Session names\<close>

definition DEFAULT_SESSION_NAME :: rust_str where
  "DEFAULT_SESSION_NAME = lit ''main''"

definition MAX_SESSION_NAME_BYTES :: nat where
  "MAX_SESSION_NAME_BYTES = 64"

datatype session_name_error =
    SessionNameEmpty
  | SessionNameTooLong nat nat
  | SessionNameSurroundingWhitespace
  | SessionNameControlCharacter

type_synonym session_name = rust_str

definition session_name_new :: "rust_str \<Rightarrow> (session_name, session_name_error) result" where
  "session_name_new value =
    (if value = [] then Err SessionNameEmpty
     else if str_len value > MAX_SESSION_NAME_BYTES
       then Err (SessionNameTooLong (str_len value) MAX_SESSION_NAME_BYTES)
     else if trim value \<noteq> value then Err SessionNameSurroundingWhitespace
     else if list_ex is_control value then Err SessionNameControlCharacter
     else Ok value)"

definition session_name_main :: session_name where
  "session_name_main = DEFAULT_SESSION_NAME"

definition session_name_is_main :: "session_name \<Rightarrow> bool" where
  "session_name_is_main name \<longleftrightarrow> name = DEFAULT_SESSION_NAME"

datatype session_selector =
    SelectId session_id
  | SelectName session_name

datatype session_end_reason =
    NaturalExit nat "rust_str option"
  | ExplicitClose
  | DaemonStop
  | DriverFailure

subsection \<open>Revisions, principals and leases\<close>

type_synonym revision = nat

definition revision_checked_next :: "revision \<Rightarrow> revision option" where
  "revision_checked_next r = checked_add U64_MAX r 1"

datatype attachment_principal =
    RemoteEndpoint device_id nat
  | LocalSameUid device_id attachment_id

record controller_lease =
  lease_attachment_id :: attachment_id
  lease_generation :: nat

subsection \<open>Capabilities and limits\<close>

type_synonym capabilities = "64 word"

definition LOCAL_LIFECYCLE :: "64 word" where "LOCAL_LIFECYCLE = push_bit 0 1"
definition SESSION_SERVICE :: "64 word" where "SESSION_SERVICE = push_bit 1 1"
definition TERMINAL_SERVICE :: "64 word" where "TERMINAL_SERVICE = push_bit 2 1"
definition FILE_UPLOAD_SERVICE :: "64 word" where "FILE_UPLOAD_SERVICE = push_bit 3 1"
definition DEVICE_EVENTS :: "64 word" where "DEVICE_EVENTS = push_bit 16 1"
definition AGENT_EVENTS :: "64 word" where "AGENT_EVENTS = push_bit 18 1"

definition capabilities_contains :: "capabilities \<Rightarrow> 64 word \<Rightarrow> bool" where
  "capabilities_contains self bits \<longleftrightarrow> self AND bits = bits"

record resource_limits =
  max_live_sessions :: nat
  recent_history_rows :: nat
  no_controller_rows :: nat
  no_controller_columns :: nat
  max_viewport_rows :: nat
  max_viewport_columns :: nat
  max_local_connections :: nat
  max_local_deadline_seconds :: nat

definition default_limits :: resource_limits where
  "default_limits = \<lparr>
     max_live_sessions = 8,
     recent_history_rows = 2000,
     no_controller_rows = 40,
     no_controller_columns = 120,
     max_viewport_rows = 80,
     max_viewport_columns = 240,
     max_local_connections = 32,
     max_local_deadline_seconds = 30\<rparr>"

lemma default_limits_simps [simp]:
  "max_live_sessions default_limits = 8"
  "recent_history_rows default_limits = 2000"
  "no_controller_rows default_limits = 40"
  "no_controller_columns default_limits = 120"
  "max_viewport_rows default_limits = 80"
  "max_viewport_columns default_limits = 240"
  "max_local_connections default_limits = 32"
  "max_local_deadline_seconds default_limits = 30"
  by (simp_all add: default_limits_def)

subsection \<open>The hexadecimal codec\<close>

lemma hex_digit_ascii: "n < 16 \<Longrightarrow> hex_digit n < 128"
  by (simp add: hex_digit_def)

lemma nibble_of_digit:
  "n < 16 \<Longrightarrow> lowercase_hex_nibble (word_of_nat (hex_digit n)) = Some (word_of_nat n)"
proof -
  have "list_all (\<lambda>n. lowercase_hex_nibble (word_of_nat (hex_digit n)) = Some (word_of_nat n))
    [0,1,2,3,4,5,6,7,8,9,10,11,12,13,14,15]"
    by (simp add: lowercase_hex_nibble_def hex_digit_def)
  moreover have "n < 16 \<Longrightarrow> n \<in> set [0,1,2,3,4,5,6,7,8,9,10,11,12,13,14,15]"
    by simp arith
  ultimately show "n < 16 \<Longrightarrow> ?thesis" by (simp only: list_all_iff)
qed

lemma digit_of_nibble:
  assumes "lowercase_hex_nibble b = Some h"
  shows "unat h < 16 \<and> b = word_of_nat (hex_digit (unat h))"
proof (cases "48 \<le> b \<and> b \<le> 57")
  case True
  then have h: "h = b - 48" using assms by (simp add: lowercase_hex_nibble_def)
  have nat: "48 \<le> unat b" "unat b \<le> 57" using True by (simp_all add: word_le_nat_alt)
  have "unat h = unat b - 48" using True h by (simp add: unat_sub)
  then have "unat h < 10" "hex_digit (unat h) = unat b" using nat by (simp_all add: hex_digit_def)
  then show ?thesis by simp
next
  case False
  then have b: "97 \<le> b" "b \<le> 102" and h: "h = b - 97 + 10"
    using assms by (auto simp: lowercase_hex_nibble_def split: if_splits)
  have nat: "97 \<le> unat b" "unat b \<le> 102" using b by (simp_all add: word_le_nat_alt)
  have "(87 :: byte) \<le> b" using nat by (simp add: word_le_nat_alt)
  then have "unat h = unat b - 87" using h by (simp add: unat_sub)
  then have "\<not> unat h < 10" "unat h < 16" "hex_digit (unat h) = unat b"
    using nat by (simp_all add: hex_digit_def)
  then show ?thesis by simp
qed

lemma bit_small_byte: "unat (w :: byte) < 16 \<Longrightarrow> bit w n \<Longrightarrow> n < 4"
proof (rule ccontr)
  assume "unat w < 16" "bit w n" "\<not> n < 4"
  then have "(2::nat) ^ 4 \<le> 2 ^ n" by (intro power_increasing) auto
  moreover have "bit (unat w) n" using \<open>bit w n\<close> by (simp add: bit_unsigned_iff)
  then have "2 ^ n \<le> unat w" by (rule contrapos_pp) (simp add: bit_iff_odd)
  ultimately show False using \<open>unat w < 16\<close> by simp
qed

lemma nibbles_value:
  assumes "unat (h :: byte) < 16" "unat l < 16"
  shows "unat (push_bit 4 h OR l) = 16 * unat h + unat l"
proof -
  have "push_bit 4 h OR l = push_bit 4 h + l"
  proof (rule disjunctive_add [symmetric])
    fix n
    show "\<not> bit (push_bit 4 h) n \<or> \<not> bit l n"
      using bit_small_byte[OF assms(2), of n] by (auto simp: bit_simps)
  qed
  moreover have "unat (push_bit 4 h) = 16 * unat h"
    using assms(1) by (simp add: push_bit_eq_mult unat_word_ariths)
  ultimately show ?thesis using assms by (simp add: unat_word_ariths)
qed

lemma unat_byte_less [simp]: "unat (b :: byte) < 256"
  using unsigned_less[of b, where ?'a = nat] by simp

lemma unat_byte_div16 [simp]: "unat (b :: byte) div 16 < 16"
  by (simp add: div_less_iff_less_mult)

lemma fmt_02x_nibbles:
  assumes "unat (h :: byte) < 16" "unat l < 16"
  shows "fmt_02x (push_bit 4 h OR l) = [hex_digit (unat h), hex_digit (unat l)]"
  using assms by (simp add: fmt_02x_def nibbles_value)

lemma utf8_fmt_02x:
  "utf8 (fmt_02x b) = [word_of_nat (hex_digit (unat b div 16)), word_of_nat (hex_digit (unat b mod 16))]"
  using hex_digit_ascii by (simp add: fmt_02x_def utf8_char_def)

lemma hex_pairs_print: "hex_pairs e i (utf8 (concat (map fmt_02x bytes))) = Ok bytes"
proof (induction bytes arbitrary: i)
  case (Cons b bytes)
  have hi: "unat b div 16 < 16" and lo: "unat b mod 16 < 16" by simp_all
  have "unat (push_bit 4 (word_of_nat (unat b div 16)) OR word_of_nat (unat b mod 16) :: byte) = unat b"
  proof -
    have "unat (word_of_nat n :: byte) = n" if "n < 16" for n
      using that by (simp add: unat_of_nat)
    then have "unat (word_of_nat (unat b div 16) :: byte) = unat b div 16"
      "unat (word_of_nat (unat b mod 16) :: byte) = unat b mod 16"
      using hi lo by blast+
    then show ?thesis using hi lo by (simp add: nibbles_value)
  qed
  then have "push_bit 4 (word_of_nat (unat b div 16)) OR word_of_nat (unat b mod 16) = b"
    by (simp only: word_unat_eq_iff)
  then show ?case using Cons.IH hi lo by (simp add: utf8_fmt_02x nibble_of_digit)
qed simp

lemma str_len_fmt_02x [simp]: "str_len (fmt_02x b) = 2"
  unfolding length_utf8 [symmetric] utf8_fmt_02x by simp

lemma str_len_print: "str_len (concat (map fmt_02x bytes)) = 2 * length bytes"
  by (induction bytes) simp_all

lemma hex_pairs_inverse:
  "even (length bs) \<Longrightarrow> hex_pairs e i bs = Ok bytes \<Longrightarrow>
    2 * length bytes = length bs \<and> utf8 (concat (map fmt_02x bytes)) = bs"
proof (induction e i bs arbitrary: bytes rule: hex_pairs.induct)
  case (1 e i hi lo rest)
  from "1.prems"(2) obtain h l bytes' where
    parts: "lowercase_hex_nibble hi = Some h" "lowercase_hex_nibble lo = Some l"
      "hex_pairs e (Suc i) rest = Ok bytes'" "bytes = (push_bit 4 h OR l) # bytes'"
    by auto
  note h = digit_of_nibble[OF parts(1)] and l = digit_of_nibble[OF parts(2)]
  have "utf8 (fmt_02x (push_bit 4 h OR l)) = [hi, lo]"
    using h l hex_digit_ascii by (simp add: fmt_02x_nibbles utf8_char_def)
  then show ?case using 1 parts by auto
qed auto

lemma is_str_print: "is_str (concat (map fmt_02x bytes))"
proof -
  have "is_scalar (hex_digit n)" if "n < 16" for n
    using that by (simp add: is_scalar_def hex_digit_def)
  then show ?thesis by (auto simp: is_str_def list_all_iff fmt_02x_def)
qed

locale hex_identifier =
  fixes width :: nat
    and parse :: "rust_str \<Rightarrow> (byte list, 'e) result"
    and bad_length :: "nat \<Rightarrow> 'e"
    and bad_char :: "nat \<Rightarrow> 'e"
  assumes parse_wrong_length: "str_len s \<noteq> width * 2 \<Longrightarrow> parse s = Err (bad_length (str_len s))"
    and parse_pairs: "str_len s = width * 2 \<Longrightarrow> parse s = hex_pairs bad_char 0 (utf8 s)"
begin

lemma parse_print: "length bytes = width \<Longrightarrow> parse (concat (map fmt_02x bytes)) = Ok bytes"
  by (simp add: parse_pairs str_len_print hex_pairs_print)

lemma parse_canonical:
  assumes "is_str s"
  shows "parse s = Ok bytes \<longleftrightarrow> length bytes = width \<and> s = concat (map fmt_02x bytes)"
proof
  assume ok: "parse s = Ok bytes"
  then have len: "str_len s = width * 2"
    using parse_wrong_length[of s] by (cases "str_len s = width * 2") auto
  with ok have "hex_pairs bad_char 0 (utf8 s) = Ok bytes" by (simp add: parse_pairs)
  then have "2 * length bytes = length (utf8 s)" "utf8 (concat (map fmt_02x bytes)) = utf8 s"
    using hex_pairs_inverse[of "utf8 s" bad_char 0 bytes] len by simp_all
  then show "length bytes = width \<and> s = concat (map fmt_02x bytes)"
    using len utf8_inject[OF is_str_print assms, of bytes] by simp
qed (simp add: parse_print)

end

interpretation device_hex: hex_identifier DEVICE_ID_LENGTH device_id_from_str
  DeviceIdInvalidLength DeviceIdInvalidCharacter
  by unfold_locales (simp_all add: device_id_from_str_def)

interpretation session_hex: hex_identifier SESSION_ID_LENGTH session_id_from_str
  SessionIdInvalidLength SessionIdInvalidCharacter
  by unfold_locales (simp_all add: session_id_from_str_def)

text \<open>The text codec of device identifiers is a bijection between 32-byte
  identifiers and their canonical text.  A string parses exactly when it is the
  lowercase hexadecimal print of a 32-byte identifier, and then it parses to that
  identifier; upper case, short, long and non-ASCII texts are all refused.\<close>

theorem device_id_text_bijective:
  assumes "is_str s"
  shows "device_id_from_str s = Ok bytes \<longleftrightarrow>
    length bytes = DEVICE_ID_LENGTH \<and> s = device_id_display bytes"
  using device_hex.parse_canonical[OF assms] by (simp only: device_id_display_def)

theorem device_id_text_bijective_witness:
  "device_id_from_str (device_id_display (replicate 32 0xAB)) = Ok (replicate 32 0xAB)"
  using device_id_text_bijective[of "device_id_display (replicate 32 0xAB)" "replicate 32 0xAB"]
    is_str_print[of "replicate 32 0xAB"]
  by (simp only: device_id_display_def[symmetric] length_replicate DEVICE_ID_LENGTH_def simp_thms)

text \<open>The same bijection for the 16-byte session identifiers.\<close>

lemma session_id_text_bijective:
  assumes "is_str s"
  shows "session_id_from_str s = Ok bytes \<longleftrightarrow>
    length bytes = SESSION_ID_LENGTH \<and> s = session_id_display bytes"
  using session_hex.parse_canonical[OF assms] by (simp only: session_id_display_def)

end
