(* ===== verification/Ordered_Map.thy ===== *)
theory Ordered_Map
  imports Prelude
begin

section \<open>Ordered maps\<close>

text \<open>
  Rust's \<open>BTreeMap\<close> as an association list whose keys increase strictly
  (\<open>bt_wf\<close>).  The list order is the iteration order of the Rust map, so
  \<open>pop_first\<close> and \<open>last_key_value\<close> are the head and the last element.  The
  \<open>HashMap\<close>s of the sources, whose iteration order is never relied on, use the
  same representation.
\<close>

type_synonym ('k, 'v) bmap = "('k \<times> 'v) list"

named_theorems bt_simps \<open>look-up laws of ordered maps\<close>

definition bt_wf :: "('k::linorder, 'v) bmap \<Rightarrow> bool" where
  "bt_wf m \<longleftrightarrow> sorted_wrt (<) (map fst m)"

definition bt_keys :: "('k, 'v) bmap \<Rightarrow> 'k set" where
  "bt_keys m = fst ` set m"

abbreviation bt_get :: "('k, 'v) bmap \<Rightarrow> 'k \<Rightarrow> 'v option" where
  "bt_get m k \<equiv> map_of m k"

abbreviation bt_contains :: "('k, 'v) bmap \<Rightarrow> 'k \<Rightarrow> bool" where
  "bt_contains m k \<equiv> map_of m k \<noteq> None"

primrec bt_insert :: "'k::linorder \<Rightarrow> 'v \<Rightarrow> ('k, 'v) bmap \<Rightarrow> ('k, 'v) bmap" where
  "bt_insert k v [] = [(k, v)]"
| "bt_insert k v (p # m) =
    (if k < fst p then (k, v) # p # m
     else if k = fst p then (k, v) # m
     else p # bt_insert k v m)"

definition bt_remove :: "'k \<Rightarrow> ('k, 'v) bmap \<Rightarrow> ('k, 'v) bmap" where
  "bt_remove k m = filter (\<lambda>p. fst p \<noteq> k) m"

definition bt_retain :: "('k \<Rightarrow> 'v \<Rightarrow> bool) \<Rightarrow> ('k, 'v) bmap \<Rightarrow> ('k, 'v) bmap" where
  "bt_retain P m = filter (\<lambda>p. P (fst p) (snd p)) m"

lemma bt_wf_Nil [simp]: "bt_wf []"
  by (simp add: bt_wf_def)

lemma bt_wf_Cons [simp]: "bt_wf (p # m) \<longleftrightarrow> (\<forall>k \<in> bt_keys m. fst p < k) \<and> bt_wf m"
  by (auto simp: bt_wf_def bt_keys_def)

lemma bt_keys_simps [simp]:
  "bt_keys [] = {}"
  "bt_keys (p # m) = insert (fst p) (bt_keys m)"
  by (simp_all add: bt_keys_def)

lemma finite_bt_keys [simp]: "finite (bt_keys m)"
  by (simp add: bt_keys_def)

lemma bt_keys_dom: "bt_keys m = dom (map_of m)"
  by (simp add: bt_keys_def dom_map_of_conv_image_fst)

lemma bt_get_None_iff: "bt_get m k = None \<longleftrightarrow> k \<notin> bt_keys m"
  by (auto simp: bt_keys_dom domIff)

lemma bt_get_SomeD: "bt_get m k = Some v \<Longrightarrow> k \<in> bt_keys m"
  by (auto simp: bt_keys_dom)

lemma bt_keys_insert [simp]: "bt_keys (bt_insert k v m) = insert k (bt_keys m)"
  by (induction m) auto

lemma bt_get_insert [simp, bt_simps]: "map_of (bt_insert k v m) = (map_of m)(k \<mapsto> v)"
  by (induction m) (auto simp: fun_eq_iff)

lemma bt_wf_insert [simp]: "bt_wf m \<Longrightarrow> bt_wf (bt_insert k v m)"
  by (induction m) (auto intro: less_trans)

lemma bt_insert_nonempty [simp]: "bt_insert k v m \<noteq> []"
  by (cases m) auto

lemma length_bt_insert_new: "k \<notin> bt_keys m \<Longrightarrow> length (bt_insert k v m) = Suc (length m)"
  by (induction m) auto

lemma length_bt_insert_old:
  "bt_wf m \<Longrightarrow> k \<in> bt_keys m \<Longrightarrow> length (bt_insert k v m) = length m"
  by (induction m) force+

lemma length_bt_insert_le: "length (bt_insert k v m) \<le> Suc (length m)"
  by (induction m) auto

lemma bt_keys_remove [simp]: "bt_keys (bt_remove k m) = bt_keys m - {k}"
  by (auto simp: bt_remove_def bt_keys_def)

lemma bt_get_remove [simp, bt_simps]: "map_of (bt_remove k m) = (map_of m)(k := None)"
  by (induction m) (auto simp: bt_remove_def fun_eq_iff)

lemma bt_wf_filter [simp]: "bt_wf m \<Longrightarrow> bt_wf (filter P m)"
  by (induction m) (auto simp: bt_keys_def)

lemma bt_wf_remove [simp]: "bt_wf m \<Longrightarrow> bt_wf (bt_remove k m)"
  by (simp add: bt_remove_def)

lemma length_bt_remove_le: "length (bt_remove k m) \<le> length m"
  by (simp add: bt_remove_def)

lemma bt_remove_absent: "k \<notin> bt_keys m \<Longrightarrow> bt_remove k m = m"
  by (auto simp: bt_remove_def bt_keys_def intro: filter_True)

lemma length_bt_remove:
  "bt_wf m \<Longrightarrow> k \<in> bt_keys m \<Longrightarrow> Suc (length (bt_remove k m)) = length m"
proof (induction m)
  case (Cons p m)
  then show ?case
    by (cases "k = fst p") (auto simp: bt_remove_absent[unfolded bt_remove_def] bt_remove_def)
qed simp

lemma bt_wf_distinct: "bt_wf m \<Longrightarrow> distinct (map fst m)"
  by (induction m) (auto simp: bt_keys_def)

lemma card_bt_keys: "bt_wf m \<Longrightarrow> card (bt_keys m) = length m"
  using bt_wf_distinct[of m] by (metis bt_keys_def distinct_card length_map set_map)

lemma bt_get_in_set: "bt_wf m \<Longrightarrow> (k, v) \<in> set m \<longleftrightarrow> bt_get m k = Some v"
  using bt_wf_distinct[of m] by (metis map_of_eq_Some_iff)

text \<open>Two well-formed maps with the same look-ups are equal: the list
  representation adds nothing the Rust map does not have.\<close>

lemma bt_wf_tl: "bt_wf m \<Longrightarrow> bt_wf (tl m)"
  by (cases m) auto

lemma bt_ext:
  assumes "bt_wf m" "bt_wf n" "map_of m = map_of n"
  shows "m = n"
proof -
  have "set m = set n"
    using assms bt_get_in_set by (metis (no_types, opaque_lifting) subrelI subset_antisym)
  moreover have "sorted_wrt (\<lambda>p q. fst p < fst q) m" "sorted_wrt (\<lambda>p q. fst p < fst q) n"
    using assms(1,2) by (simp_all add: bt_wf_def sorted_wrt_map)
  ultimately show ?thesis
  proof (induction m arbitrary: n)
    case (Cons p m)
    then obtain q n' where n: "n = q # n'" by (cases n) auto
    have "p = q"
      using Cons.prems n by (metis insert_iff list.simps(15) order.asym sorted_wrt.simps(2))
    moreover have "set m = set n'"
      using Cons.prems n \<open>p = q\<close>
      by (metis insert_absorb insert_ident less_irrefl list.simps(15) sorted_wrt.simps(2))
    ultimately show ?case using Cons n by simp
  qed simp
qed

end
