(* ===== verification/Traces.thy ===== *)
theory Traces
  imports Prelude
begin

section \<open>Runs of stateful components\<close>

text \<open>
  A component of the program is a step function from a state and a request to
  the next state and an answer.  \<open>trace_run\<close> serves a list of requests in order.
  The locales state the contracts several components share; their lemmas are
  proved here once and used through interpretations on the components' own
  definitions.

    \<^item> \<open>invariant_machine\<close>: an invariant every step keeps holds after every run.
    \<^item> \<open>exactly_once\<close>: a key that ran, or was given up, never runs again.

  \<open>feed_all\<close> drives a decoder that consumes one byte at a time;
  \<open>feed_all_append\<close> says that its output does not depend on how the input is cut
  into chunks.
\<close>

primrec trace_run :: "('s \<Rightarrow> 'i \<Rightarrow> 's \<times> 'o) \<Rightarrow> 's \<Rightarrow> 'i list \<Rightarrow> 's \<times> 'o list" where
  "trace_run step s [] = (s, [])"
| "trace_run step s (i # is) =
    (let (s', out) = step s i; (s'', outs) = trace_run step s' is in (s'', out # outs))"

lemma trace_run_Cons [simp]:
  "trace_run step s (i # is) =
    (fst (trace_run step (fst (step s i)) is),
     snd (step s i) # snd (trace_run step (fst (step s i)) is))"
  by (simp add: split_beta)

declare trace_run.simps(2) [simp del]

lemma trace_run_append:
  "trace_run step s (is @ js) =
    (let (s', outs) = trace_run step s is; (s'', outs') = trace_run step s' js
     in (s'', outs @ outs'))"
  by (induction "is" arbitrary: s) (auto simp: Let_def split_beta)

lemma length_trace_run [simp]: "length (snd (trace_run step s is)) = length is"
  by (induction "is" arbitrary: s) auto

text \<open>The keys of the requests whose answer says that the operation ran, in the
  order in which they ran.\<close>

definition ran_keys :: "('s \<Rightarrow> 'i \<Rightarrow> 's \<times> 'o) \<Rightarrow> ('i \<Rightarrow> 'k) \<Rightarrow> ('o \<Rightarrow> bool) \<Rightarrow> 's \<Rightarrow> 'i list \<Rightarrow> 'k list" where
  "ran_keys step key did_run s is =
    map (key \<circ> fst) (filter (did_run \<circ> snd) (zip is (snd (trace_run step s is))))"

lemma ran_keys_Nil [simp]: "ran_keys step key did_run s [] = []"
  by (simp add: ran_keys_def)

lemma ran_keys_Cons:
  "ran_keys step key did_run s (i # is) =
    (if did_run (snd (step s i)) then [key i] else []) @ ran_keys step key did_run (fst (step s i)) is"
  by (auto simp: ran_keys_def Let_def split_beta)

locale invariant_machine =
  fixes step :: "'s \<Rightarrow> 'i \<Rightarrow> 's \<times> 'o"
    and inv :: "'s \<Rightarrow> bool"
    and valid :: "'i \<Rightarrow> bool"
  assumes inv_step: "inv s \<Longrightarrow> valid i \<Longrightarrow> inv (fst (step s i))"
begin

lemma inv_trace: "inv s \<Longrightarrow> list_all valid is \<Longrightarrow> inv (fst (trace_run step s is))"
  by (induction "is" arbitrary: s) (auto simp: inv_step)

end

locale exactly_once = invariant_machine step inv valid
  for step :: "'s \<Rightarrow> 'i \<Rightarrow> 's \<times> 'o" and inv :: "'s \<Rightarrow> bool" and valid :: "'i \<Rightarrow> bool" +
  fixes key :: "'i \<Rightarrow> 'k"
    and did_run :: "'o \<Rightarrow> bool"
    and settled :: "'s \<Rightarrow> 'k \<Rightarrow> bool"
  assumes settled_step:
      "inv s \<Longrightarrow> valid i \<Longrightarrow> settled s k \<Longrightarrow> settled (fst (step s i)) k"
    and ran_settles:
      "inv s \<Longrightarrow> valid i \<Longrightarrow> did_run (snd (step s i)) \<Longrightarrow> settled (fst (step s i)) (key i)"
    and settled_not_ran:
      "inv s \<Longrightarrow> valid i \<Longrightarrow> settled s (key i) \<Longrightarrow> \<not> did_run (snd (step s i))"
begin

lemma settled_not_in_ran_keys:
  "inv s \<Longrightarrow> list_all valid is \<Longrightarrow> settled s k \<Longrightarrow> k \<notin> set (ran_keys step key did_run s is)"
proof (induction "is" arbitrary: s)
  case (Cons i "is")
  then have "k \<notin> set (ran_keys step key did_run (fst (step s i)) is)"
    by (simp add: settled_step inv_step)
  moreover have "\<not> (did_run (snd (step s i)) \<and> key i = k)"
    using Cons.prems settled_not_ran by auto
  ultimately show ?case by (auto simp: ran_keys_Cons)
qed simp

theorem ran_keys_distinct:
  "inv s \<Longrightarrow> list_all valid is \<Longrightarrow> distinct (ran_keys step key did_run s is)"
proof (induction "is" arbitrary: s)
  case (Cons i "is")
  then have "distinct (ran_keys step key did_run (fst (step s i)) is)"
    by (simp add: inv_step)
  moreover have "did_run (snd (step s i)) \<Longrightarrow> key i \<notin> set (ran_keys step key did_run (fst (step s i)) is)"
    using Cons.prems by (simp add: ran_settles inv_step settled_not_in_ran_keys)
  ultimately show ?case by (simp add: ran_keys_Cons)
qed simp

end

text \<open>
  A decoder reads one byte at a time and either goes on with some output or stops
  with an error.  \<open>feed_all\<close> is the driver loop over one chunk: it returns what
  was produced up to the end of the chunk, or the error.
\<close>

primrec feed_all :: "('s \<Rightarrow> 'b \<Rightarrow> ('s \<times> 'o list, 'e) result) \<Rightarrow> 's \<Rightarrow> 'b list \<Rightarrow>
    ('s \<times> 'o list, 'e) result" where
  "feed_all step s [] = Ok (s, [])"
| "feed_all step s (b # bs) =
    res_bind (step s b) (\<lambda>(s', out). res_bind (feed_all step s' bs) (\<lambda>(s'', outs). Ok (s'', out @ outs)))"

lemma feed_all_append:
  "feed_all step s (bs @ cs) =
    res_bind (feed_all step s bs) (\<lambda>(s', out).
      res_bind (feed_all step s' cs) (\<lambda>(s'', outs). Ok (s'', out @ outs)))"
proof (induction bs arbitrary: s)
  case Nil
  show ?case by (cases "feed_all step s cs") auto
next
  case (Cons b bs)
  show ?case by (cases "step s b") (auto simp: Cons.IH res_bind_assoc split_beta)
qed

end
