(* ===== verification/Operation_Window.thy ===== *)
theory Operation_Window
  imports Domain Ordered_Map Traces
begin

section \<open>The operation replay window\<close>

text \<open>
  \<open>OperationWindow\<close> of \<open>core/src/domain.rs\<close>: bounded exact-result replay for the
  operations of one daemon-issued lease.  The operation a caller passes is a
  closure with effects; the model passes the world it acts on explicitly, so that
  running it, or not running it, is visible.  \<open>evict\<close> is the \<open>while\<close> loop that
  drops the lowest retained results and raises the low-water mark.
\<close>

record operation_lease =
  daemon_incarnation :: daemon_incarnation
  ordinal :: nat

record operation_id =
  lease :: operation_lease
  sequence :: nat

datatype 'r operation_outcome = Executed 'r | Replayed 'r

datatype operation_window_error = InvalidCapacity | OutcomeUnknown

record 'r operation_window =
  win_lease :: operation_lease
  capacity :: nat
  low_water :: nat
  results :: "(nat, 'r) bmap"

definition operation_window_new ::
    "operation_lease \<Rightarrow> nat \<Rightarrow> ('r operation_window, operation_window_error) result" where
  "operation_window_new lease0 cap =
    (if cap = 0 then Err InvalidCapacity
     else Ok \<lparr>win_lease = lease0, capacity = cap, low_water = 0, results = []\<rparr>)"

function evict :: "'r operation_window \<Rightarrow> 'r operation_window" where
  "evict w =
    (if length (results w) > capacity w then
       (case results w of
          [] \<Rightarrow> w
        | (evicted, _) # rest \<Rightarrow>
            evict (w\<lparr>results := rest,
                     low_water := max (low_water w) (saturating_add U64_MAX evicted 1)\<rparr>))
     else w)"
  by pat_completeness auto
termination
  by (relation "measure (\<lambda>w. length (results w))") auto

declare evict.simps [simp del]

definition execute :: "'r operation_window \<Rightarrow> operation_id \<Rightarrow> ('w \<Rightarrow> 'r \<times> 'w) \<Rightarrow> 'w \<Rightarrow>
    ('r operation_window \<times> 'w) \<times> ('r operation_outcome, operation_window_error) result" where
  "execute w oid op world =
    (if lease oid \<noteq> win_lease w \<or> sequence oid = 0 then ((w, world), Err OutcomeUnknown)
     else case bt_get (results w) (sequence oid) of
       Some r \<Rightarrow> ((w, world), Ok (Replayed r))
     | None \<Rightarrow>
         if sequence oid < low_water w then ((w, world), Err OutcomeUnknown)
         else
           let (r, world') = op world;
               w' = evict (w\<lparr>results := bt_insert (sequence oid) r (results w)\<rparr>)
           in ((w', world'), Ok (Executed r)))"

subsection \<open>Invariant\<close>

text \<open>Retained sequence numbers are non-zero 64-bit values, and the capacity is
  never exceeded.\<close>

definition window_inv :: "'r operation_window \<Rightarrow> bool" where
  "window_inv w \<longleftrightarrow> 0 < capacity w \<and> bt_wf (results w) \<and> length (results w) \<le> capacity w \<and>
     (\<forall>k \<in> bt_keys (results w). 0 < k \<and> k \<le> U64_MAX)"

text \<open>A sequence is settled when it is retained or lies below the low-water mark:
  its operation will not run again.\<close>

definition window_settled :: "'r operation_window \<Rightarrow> nat \<Rightarrow> bool" where
  "window_settled w k \<longleftrightarrow> k \<in> bt_keys (results w) \<or> k < low_water w"

lemma evict_same [simp]: "length (results w) \<le> capacity w \<Longrightarrow> evict w = w"
  by (subst evict.simps) simp

lemma evict_frame [simp]: "win_lease (evict w) = win_lease w" "capacity (evict w) = capacity w"
  by (induction w rule: evict.induct; subst evict.simps; simp split: list.split prod.split)+

lemma evict_one:
  assumes "length (results w) = Suc (capacity w)" "results w = (k, r) # rest"
  shows "evict w = w\<lparr>results := rest, low_water := max (low_water w) (saturating_add U64_MAX k 1)\<rparr>"
  using assms by (subst evict.simps) simp

text \<open>Inserting a new sequence into a full window evicts exactly the smallest key;
  the largest 64-bit sequence is never the smallest of two, so the saturating
  increment never stops at the evicted key itself.\<close>

lemma insert_evict:
  fixes w :: "'r operation_window" and r :: 'r
  assumes "window_inv w" "k \<notin> bt_keys (results w)" "0 < k" "k \<le> U64_MAX"
  defines "w' \<equiv> evict (w\<lparr>results := bt_insert k r (results w)\<rparr>)"
  shows "window_inv w'"
    and "window_settled w j \<or> j = k \<Longrightarrow> window_settled w' j"
    and "bt_get (results w') j = Some x \<Longrightarrow> ((bt_get (results w))(k \<mapsto> r)) j = Some x"
proof -
  let ?m = "bt_insert k r (results w)"
  have len: "length ?m = Suc (length (results w))"
    using assms(2) by (rule length_bt_insert_new)
  have wf: "bt_wf ?m" and cap: "0 < capacity w" using assms(1) by (simp_all add: window_inv_def)
  have keys: "\<forall>j \<in> bt_keys ?m. 0 < j \<and> j \<le> U64_MAX"
    using assms(1,3,4) by (auto simp: window_inv_def)
  have "window_inv w' \<and> (\<forall>j. window_settled w j \<or> j = k \<longrightarrow> window_settled w' j) \<and>
    (\<forall>j x. bt_get (results w') j = Some x \<longrightarrow> ((bt_get (results w))(k \<mapsto> r)) j = Some x)"
  proof (cases "length ?m \<le> capacity w")
    case True
    then have "w' = w\<lparr>results := ?m\<rparr>" by (simp add: w'_def)
    then show ?thesis using True wf keys cap by (auto simp: window_inv_def window_settled_def)
  next
    case False
    then have full: "length ?m = Suc (capacity w)"
      using len assms(1) by (simp add: window_inv_def)
    obtain e v rest where m: "?m = (e, v) # rest" by (cases ?m) auto
    have w': "w' = w\<lparr>results := rest, low_water := max (low_water w) (saturating_add U64_MAX e 1)\<rparr>"
      unfolding w'_def using full m by (subst evict_one) auto
    have wf_m: "bt_wf ((e, v) # rest)" and keys_m: "bt_keys ?m = insert e (bt_keys rest)"
      using wf by (simp_all only: m bt_keys_simps fst_conv)
    have "rest \<noteq> []" using full m cap by auto
    then obtain p where "p \<in> set rest" by (cases rest) auto
    then have "fst p \<in> bt_keys rest" by (simp add: bt_keys_def)
    moreover from this have "e < fst p" using wf_m by simp
    moreover have "fst p \<le> U64_MAX" using keys keys_m calculation(1) by blast
    ultimately have "e < U64_MAX" by linarith
    then have low: "low_water w' = max (low_water w) (Suc e)"
      by (simp add: w' saturating_add_def)
    have get: "((bt_get (results w))(k \<mapsto> r)) j = Some x" if "bt_get rest j = Some x" for j x
    proof -
      have "j \<noteq> e" using bt_get_SomeD[OF that] wf_m by auto
      then have "bt_get ?m j = Some x" using that by (simp only: m) simp
      then show ?thesis by simp
    qed
    have same: "insert k (bt_keys (results w)) = insert e (bt_keys rest)"
      using keys_m by (simp only: bt_keys_insert)
    have rest_keys: "\<forall>j \<in> bt_keys rest. 0 < j \<and> j \<le> U64_MAX"
      using keys unfolding keys_m by blast
    have "length rest = capacity w"
      using full unfolding m by simp
    then have "window_inv w'"
      using wf_m cap rest_keys by (simp add: w' window_inv_def)
    moreover have "window_settled w' j" if "window_settled w j \<or> j = k" for j
    proof -
      have "j \<in> insert e (bt_keys rest) \<or> j < low_water w"
        using that unfolding window_settled_def same [symmetric] by blast
      then show ?thesis unfolding window_settled_def low by (auto simp: w')
    qed
    moreover have "results w' = rest" by (simp add: w')
    ultimately show ?thesis using get by simp
  qed
  then show "window_inv w'" "window_settled w j \<or> j = k \<Longrightarrow> window_settled w' j"
    "bt_get (results w') j = Some x \<Longrightarrow> ((bt_get (results w))(k \<mapsto> r)) j = Some x"
    by blast+
qed

subsection \<open>Exactly once\<close>

text \<open>A request is an identifier with the closure to run for it.  \<open>serve\<close> is one call
  of \<open>execute\<close> on the window and the world, as \<open>trace_run\<close> wants it.\<close>

type_synonym ('r, 'w) op_request = "operation_id \<times> ('w \<Rightarrow> 'r \<times> 'w)"

definition serve :: "'r operation_window \<times> 'w \<Rightarrow> ('r, 'w) op_request \<Rightarrow>
    ('r operation_window \<times> 'w) \<times> ('r operation_outcome, operation_window_error) result" where
  "serve s q = execute (fst s) (fst q) (snd q) (snd s)"

fun was_executed :: "('r operation_outcome, operation_window_error) result \<Rightarrow> bool" where
  "was_executed (Ok (Executed r)) = True"
| "was_executed _ = False"

text \<open>Sequence numbers are 64-bit values, as the type of the field says.\<close>

definition is_request :: "('r, 'w) op_request \<Rightarrow> bool" where
  "is_request q \<longleftrightarrow> sequence (fst q) \<le> U64_MAX"

lemma execute_cases:
  obtains (refused) "execute w oid op world = ((w, world), Err OutcomeUnknown)"
  | (replayed) r where "bt_get (results w) (sequence oid) = Some r" "lease oid = win_lease w"
      "execute w oid op world = ((w, world), Ok (Replayed r))"
  | (executed) r world' where "bt_get (results w) (sequence oid) = None" "0 < sequence oid"
      "\<not> sequence oid < low_water w" "op world = (r, world')" "lease oid = win_lease w"
      "execute w oid op world =
        ((evict (w\<lparr>results := bt_insert (sequence oid) r (results w)\<rparr>), world'), Ok (Executed r))"
proof -
  consider "lease oid \<noteq> win_lease w \<or> sequence oid = 0" | "lease oid = win_lease w" "0 < sequence oid"
    by blast
  then show thesis
  proof cases
    case 1
    then show thesis by (intro refused) (simp add: execute_def)
  next
    case 2
    then show thesis
      using refused replayed executed
      by (cases "op world"; cases "bt_get (results w) (sequence oid)"; cases "sequence oid < low_water w")
        (simp_all add: execute_def)
  qed
qed

lemmas serve_cases = execute_cases[where w = "fst s" and oid = "fst q" and op = "snd q"
    and world = "snd s" for s q]

lemma serve_inv: "window_inv (fst s) \<Longrightarrow> is_request q \<Longrightarrow> window_inv (fst (fst (serve s q)))"
  unfolding serve_def is_request_def
  by (rule serve_cases[where s = s and q = q])
    (auto simp: bt_get_None_iff intro: insert_evict(1))

lemma serve_settled:
  "window_inv (fst s) \<Longrightarrow> is_request q \<Longrightarrow> window_settled (fst s) k \<Longrightarrow>
    window_settled (fst (fst (serve s q))) k"
  unfolding serve_def is_request_def
  by (rule serve_cases[where s = s and q = q])
    (auto simp: bt_get_None_iff intro: insert_evict(2))

lemma serve_runs:
  "window_inv (fst s) \<Longrightarrow> is_request q \<Longrightarrow> was_executed (snd (serve s q)) \<Longrightarrow>
    window_settled (fst (fst (serve s q))) (sequence (fst q))"
  unfolding serve_def is_request_def
  by (rule serve_cases[where s = s and q = q])
    (auto simp: bt_get_None_iff intro: insert_evict(2))

lemma serve_settled_not_run:
  "window_settled (fst s) (sequence (fst q)) \<Longrightarrow> \<not> was_executed (snd (serve s q))"
  unfolding serve_def
  by (rule serve_cases[where s = s and q = q])
    (auto simp: window_settled_def bt_get_None_iff)

interpretation window: exactly_once serve "\<lambda>s. window_inv (fst s)" is_request
  "\<lambda>q. sequence (fst q)" was_executed "\<lambda>s. window_settled (fst s)"
  by unfold_locales (simp_all add: serve_inv serve_settled serve_runs serve_settled_not_run)

subsection \<open>What a run does\<close>

text \<open>The requests of a run whose closure ran, in order.\<close>

definition executed_requests :: "'r operation_window \<times> 'w \<Rightarrow> ('r, 'w) op_request list \<Rightarrow>
    ('r, 'w) op_request list" where
  "executed_requests s qs =
    map fst (filter (was_executed \<circ> snd) (zip qs (snd (trace_run serve s qs))))"

lemma executed_requests_simps [simp]:
  "executed_requests s [] = []"
  "executed_requests s (q # qs) =
    (if was_executed (snd (serve s q)) then [q] else []) @ executed_requests (fst (serve s q)) qs"
  by (auto simp: executed_requests_def)

lemma executed_sequences:
  "map (sequence \<circ> fst) (executed_requests s qs) =
    ran_keys serve (\<lambda>q. sequence (fst q)) was_executed s qs"
  by (simp add: executed_requests_def ran_keys_def o_def)

lemma serve_world:
  "snd (fst (serve s q)) = (if was_executed (snd (serve s q)) then snd (snd q (snd s)) else snd s)"
  unfolding serve_def
  by (rule serve_cases[where s = s and q = q]) auto

lemma serve_capacity: "capacity (fst (fst (serve s q))) = capacity (fst s)"
  unfolding serve_def
  by (rule serve_cases[where s = s and q = q]) auto

lemma trace_world:
  "snd (fst (trace_run serve s qs)) =
    fold (\<lambda>q world. snd (snd q world)) (executed_requests s qs) (snd s)"
  by (induction qs arbitrary: s) (auto simp: serve_world)

lemma trace_capacity: "capacity (fst (fst (trace_run serve s qs))) = capacity (fst s)"
  by (induction qs arbitrary: s) (auto simp: serve_capacity)

lemma new_window:
  "operation_window_new l c = Ok w \<Longrightarrow> window_inv w \<and> capacity w = c \<and> results w = []"
  by (auto simp: operation_window_new_def window_inv_def split: if_splits)

text \<open>C1: exactly-once execution.  Whatever requests a client sends, retries
  included, the effect on the world is that of running the executed closures once
  each, and no sequence number is executed twice, also after its result was
  evicted from the bounded window.  The window never holds more results than its
  capacity.\<close>

theorem execute_exactly_once:
  assumes "operation_window_new l c = Ok w" "list_all is_request qs"
  shows "snd (fst (trace_run serve (w, world) qs)) =
      fold (\<lambda>q wd. snd (snd q wd)) (executed_requests (w, world) qs) world \<and>
    distinct (map (sequence \<circ> fst) (executed_requests (w, world) qs)) \<and>
    length (results (fst (fst (trace_run serve (w, world) qs)))) \<le> c"
proof (intro conjI)
  have inv: "window_inv (fst (w, world))" and cap: "capacity w = c"
    using new_window[OF assms(1)] by simp_all
  show "distinct (map (sequence \<circ> fst) (executed_requests (w, world) qs))"
    using window.ran_keys_distinct[OF inv assms(2)] by (simp only: executed_sequences)
  show "length (results (fst (fst (trace_run serve (w, world) qs)))) \<le> c"
    using window.inv_trace[OF inv assms(2)] cap trace_capacity[of "(w, world)" qs]
    by (simp add: window_inv_def)
qed (simp add: trace_world)

text \<open>The witness: capacity two, three new operations that log themselves, then the
  first one again, whose result was evicted by then, and the second one, which is
  replayed.\<close>

definition log_op :: "nat \<Rightarrow> nat list \<Rightarrow> nat \<times> nat list" where
  "log_op n world = (10 * n, world @ [n])"

definition demo_lease :: operation_lease where
  "demo_lease = \<lparr>daemon_incarnation = [], ordinal = 1\<rparr>"

definition demo_request :: "nat \<Rightarrow> (nat, nat list) op_request" where
  "demo_request n = (\<lparr>lease = demo_lease, sequence = n\<rparr>, log_op n)"

definition demo_window :: "nat operation_window" where
  "demo_window = \<lparr>win_lease = demo_lease, capacity = 2, low_water = 0, results = []\<rparr>"

lemma demo_valid: "operation_window_new demo_lease 2 = Ok demo_window"
  "list_all is_request (map demo_request [1, 2, 3, 1, 2])"
  by (simp_all add: operation_window_new_def demo_window_def is_request_def demo_request_def)

lemmas demo_defs = serve_def execute_def demo_request_def demo_window_def log_op_def
  evict_one saturating_add_def

theorem execute_exactly_once_witness:
  "snd (fst (trace_run serve (demo_window, []) (map demo_request [1, 2, 3, 1, 2]))) = [1, 2, 3]"
proof -
  have "fold (\<lambda>q wd. snd (snd q wd))
    (executed_requests (demo_window, []) (map demo_request [1, 2, 3, 1, 2])) [] = [1, 2, 3]"
    by (simp add: demo_defs)
  with execute_exactly_once[OF demo_valid, of "[]"] show ?thesis by simp
qed

subsection \<open>Replays are exact\<close>

lemma serve_retained:
  assumes "window_inv (fst s)" "is_request q" "bt_get (results (fst (fst (serve s q)))) k = Some r"
  shows "bt_get (results (fst s)) k = Some r \<or>
    (k = sequence (fst q) \<and> snd (serve s q) = Ok (Executed r))"
  using assms unfolding serve_def is_request_def
  by - (rule serve_cases[where s = s and q = q],
    auto simp: bt_get_None_iff dest!: insert_evict(3) split: if_splits)

lemma serve_replay:
  "snd (serve s q) = Ok (Replayed r) \<Longrightarrow> bt_get (results (fst s)) (sequence (fst q)) = Some r"
  unfolding serve_def
  by (rule serve_cases[where s = s and q = q]) auto

lemma replay_source:
  assumes "window_inv (fst s)" "list_all is_request qs" "i < length qs"
    "snd (trace_run serve s qs) ! i = Ok (Replayed r)"
  shows "bt_get (results (fst s)) (sequence (fst (qs ! i))) = Some r \<or>
    (\<exists>j < i. sequence (fst (qs ! j)) = sequence (fst (qs ! i)) \<and>
      snd (trace_run serve s qs) ! j = Ok (Executed r))"
  using assms
proof (induction qs arbitrary: s i)
  case (Cons q qs)
  show ?case
  proof (cases i)
    case 0
    then show ?thesis
      using Cons.prems(4) serve_replay[of s q r] by simp
  next
    case (Suc n)
    let ?s = "fst (serve s q)"
    have "window_inv (fst ?s)" using Cons.prems serve_inv[of s q] by simp
    then have "bt_get (results (fst ?s)) (sequence (fst (qs ! n))) = Some r \<or>
      (\<exists>j < n. sequence (fst (qs ! j)) = sequence (fst (qs ! n)) \<and>
        snd (trace_run serve ?s qs) ! j = Ok (Executed r))"
      using Cons.prems Suc by (intro Cons.IH) auto
    then consider "bt_get (results (fst ?s)) (sequence (fst (qs ! n))) = Some r"
      | j where "j < n" "sequence (fst (qs ! j)) = sequence (fst (qs ! n))"
          "snd (trace_run serve ?s qs) ! j = Ok (Executed r)"
      by blast
    then show ?thesis
    proof cases
      case 1
      have "is_request q" using Cons.prems(2) by simp
      from serve_retained[OF Cons.prems(1) this 1] show ?thesis
        using Suc by (auto intro!: exI[of _ 0])
    next
      case 2
      then show ?thesis using Suc by (intro disjI2 exI[of _ "Suc j"]) simp
    qed
  qed
qed simp

text \<open>Replays are exact.  A replayed answer carries the result of an earlier
  request of the same run that executed with the same sequence number.\<close>

theorem replay_exact:
  assumes "operation_window_new l c = Ok w" "list_all is_request qs" "i < length qs"
    "snd (trace_run serve (w, world) qs) ! i = Ok (Replayed r)"
  shows "\<exists>j < i. sequence (fst (qs ! j)) = sequence (fst (qs ! i)) \<and>
    snd (trace_run serve (w, world) qs) ! j = Ok (Executed r)"
  using replay_source[of "(w, world)" qs i r] new_window[OF assms(1)] assms(2-4) by simp

theorem replay_exact_witness:
  "\<exists>j < 4. sequence (fst (map demo_request [1, 2, 3, 1, 2] ! j)) = 2 \<and>
    snd (trace_run serve (demo_window, []) (map demo_request [1, 2, 3, 1, 2])) ! j = Ok (Executed 20)"
proof -
  have "4 < length (map demo_request [1, 2, 3, 1, 2])" by simp
  moreover have "snd (trace_run serve (demo_window, []) (map demo_request [1, 2, 3, 1, 2])) ! 4 =
    Ok (Replayed 20)"
    by (simp add: demo_defs)
  moreover have "sequence (fst (map demo_request [1, 2, 3, 1, 2] ! 4)) = 2"
    by (simp add: demo_request_def)
  ultimately show ?thesis using replay_exact[OF demo_valid, of 4 "[]" 20] by simp
qed

end
