(* ===== verification/Domain_Errors.thy ===== *)
theory Domain_Errors
  imports Prelude
begin

section \<open>Stable error codes\<close>

text \<open>
  \<open>DomainErrorKind\<close> of \<open>core/src/domain.rs\<close>: the failure categories shared by the
  services and the clients, their stable snake-case codes (\<open>code\<close>) and the parser
  of those codes (\<open>from_code\<close>).  The code travels on the wire and in JSON output,
  so the two tables must be inverse to each other.
\<close>

datatype (plugins only: code size) domain_error_kind =
    NotSetup
  | AlreadyConfiguredConflict
  | PathUnsafe
  | PermissionMismatch
  | UnsupportedPlatform
  | IdentityInvalid
  | IdentityStateMismatch
  | ConfigSyntax
  | ConfigVersion
  | ConfigProfile
  | SchemaTooNew
  | MigrationFailed
  | StoreUnavailable
  | DaemonStopped
  | DaemonAlreadyRunning
  | DaemonStartTimeout
  | PeerUidMismatch
  | DeadlineExceeded
  | Cancelled
  | WireMajorMismatch
  | UnknownKind
  | FrameTooLarge
  | ControlPayloadTooLarge
  | MalformedFrame
  | OperationOutcomeUnknown
  | InvalidSessionName
  | InvalidWorkingDirectory
  | ReleaseManifestInvalid
  | ReleaseSignatureInvalid
  | ReleaseArtifactInvalid
  | ReleaseUnavailable
  | UpdateRejected
  | ReservedSessionName
  | SessionAlreadyExists
  | SessionNotFound
  | SessionOccupied
  | NotSynchronized
  | LeaseLost
  | ResourceExhausted
  | ServiceNotImplemented
  | AddressUnavailable
  | TransportUnavailable
  | Unauthorized
  | AuthorizationRevoked
  | PairTicketInvalid
  | PairTicketExpired
  | PairTicketConsumed
  | PairOutcomeUnknown
  | InvalidDeviceAlias
  | DeviceAliasConflict
  | InvalidTargetSelector
  | OutboundDirectionDenied
  | DeviceNotFound
  | UploadTooLarge
  | UploadSourceInvalid
  | UploadStorageFailed
  | UploadOutcomeUnknown

primrec code :: "domain_error_kind \<Rightarrow> string" where
  "code NotSetup = ''not_setup''"
| "code AlreadyConfiguredConflict = ''already_configured_conflict''"
| "code PathUnsafe = ''path_unsafe''"
| "code PermissionMismatch = ''permission_mismatch''"
| "code UnsupportedPlatform = ''unsupported_platform''"
| "code IdentityInvalid = ''identity_invalid''"
| "code IdentityStateMismatch = ''identity_state_mismatch''"
| "code ConfigSyntax = ''config_syntax''"
| "code ConfigVersion = ''config_version''"
| "code ConfigProfile = ''config_profile''"
| "code SchemaTooNew = ''schema_too_new''"
| "code MigrationFailed = ''migration_failed''"
| "code StoreUnavailable = ''store_unavailable''"
| "code DaemonStopped = ''daemon_stopped''"
| "code DaemonAlreadyRunning = ''daemon_already_running''"
| "code DaemonStartTimeout = ''daemon_start_timeout''"
| "code PeerUidMismatch = ''peer_uid_mismatch''"
| "code DeadlineExceeded = ''deadline_exceeded''"
| "code Cancelled = ''cancelled''"
| "code WireMajorMismatch = ''wire_major_mismatch''"
| "code UnknownKind = ''unknown_kind''"
| "code FrameTooLarge = ''frame_too_large''"
| "code ControlPayloadTooLarge = ''control_payload_too_large''"
| "code MalformedFrame = ''malformed_frame''"
| "code OperationOutcomeUnknown = ''operation_outcome_unknown''"
| "code InvalidSessionName = ''invalid_session_name''"
| "code InvalidWorkingDirectory = ''invalid_working_directory''"
| "code ReleaseManifestInvalid = ''release_manifest_invalid''"
| "code ReleaseSignatureInvalid = ''release_signature_invalid''"
| "code ReleaseArtifactInvalid = ''release_artifact_invalid''"
| "code ReleaseUnavailable = ''release_unavailable''"
| "code UpdateRejected = ''update_rejected''"
| "code ReservedSessionName = ''reserved_session_name''"
| "code SessionAlreadyExists = ''session_already_exists''"
| "code SessionNotFound = ''session_not_found''"
| "code SessionOccupied = ''session_occupied''"
| "code NotSynchronized = ''not_synchronized''"
| "code LeaseLost = ''lease_lost''"
| "code ResourceExhausted = ''resource_exhausted''"
| "code ServiceNotImplemented = ''service_not_implemented''"
| "code AddressUnavailable = ''address_unavailable''"
| "code TransportUnavailable = ''transport_unavailable''"
| "code Unauthorized = ''unauthorized''"
| "code AuthorizationRevoked = ''authorization_revoked''"
| "code PairTicketInvalid = ''pair_ticket_invalid''"
| "code PairTicketExpired = ''pair_ticket_expired''"
| "code PairTicketConsumed = ''pair_ticket_consumed''"
| "code PairOutcomeUnknown = ''pair_outcome_unknown''"
| "code InvalidDeviceAlias = ''invalid_device_alias''"
| "code DeviceAliasConflict = ''device_alias_conflict''"
| "code InvalidTargetSelector = ''invalid_target_selector''"
| "code OutboundDirectionDenied = ''outbound_direction_denied''"
| "code DeviceNotFound = ''device_not_found''"
| "code UploadTooLarge = ''upload_too_large''"
| "code UploadSourceInvalid = ''upload_source_invalid''"
| "code UploadStorageFailed = ''upload_storage_failed''"
| "code UploadOutcomeUnknown = ''upload_outcome_unknown''"

definition code_table :: "(string \<times> domain_error_kind) list" where
  "code_table = [
    (''not_setup'', NotSetup),
    (''already_configured_conflict'', AlreadyConfiguredConflict),
    (''path_unsafe'', PathUnsafe),
    (''permission_mismatch'', PermissionMismatch),
    (''unsupported_platform'', UnsupportedPlatform),
    (''identity_invalid'', IdentityInvalid),
    (''identity_state_mismatch'', IdentityStateMismatch),
    (''config_syntax'', ConfigSyntax),
    (''config_version'', ConfigVersion),
    (''config_profile'', ConfigProfile),
    (''schema_too_new'', SchemaTooNew),
    (''migration_failed'', MigrationFailed),
    (''store_unavailable'', StoreUnavailable),
    (''daemon_stopped'', DaemonStopped),
    (''daemon_already_running'', DaemonAlreadyRunning),
    (''daemon_start_timeout'', DaemonStartTimeout),
    (''peer_uid_mismatch'', PeerUidMismatch),
    (''deadline_exceeded'', DeadlineExceeded),
    (''cancelled'', Cancelled),
    (''wire_major_mismatch'', WireMajorMismatch),
    (''unknown_kind'', UnknownKind),
    (''frame_too_large'', FrameTooLarge),
    (''control_payload_too_large'', ControlPayloadTooLarge),
    (''malformed_frame'', MalformedFrame),
    (''operation_outcome_unknown'', OperationOutcomeUnknown),
    (''invalid_session_name'', InvalidSessionName),
    (''invalid_working_directory'', InvalidWorkingDirectory),
    (''release_manifest_invalid'', ReleaseManifestInvalid),
    (''release_signature_invalid'', ReleaseSignatureInvalid),
    (''release_artifact_invalid'', ReleaseArtifactInvalid),
    (''release_unavailable'', ReleaseUnavailable),
    (''update_rejected'', UpdateRejected),
    (''reserved_session_name'', ReservedSessionName),
    (''session_already_exists'', SessionAlreadyExists),
    (''session_not_found'', SessionNotFound),
    (''session_occupied'', SessionOccupied),
    (''not_synchronized'', NotSynchronized),
    (''lease_lost'', LeaseLost),
    (''resource_exhausted'', ResourceExhausted),
    (''service_not_implemented'', ServiceNotImplemented),
    (''address_unavailable'', AddressUnavailable),
    (''transport_unavailable'', TransportUnavailable),
    (''unauthorized'', Unauthorized),
    (''authorization_revoked'', AuthorizationRevoked),
    (''pair_ticket_invalid'', PairTicketInvalid),
    (''pair_ticket_expired'', PairTicketExpired),
    (''pair_ticket_consumed'', PairTicketConsumed),
    (''pair_outcome_unknown'', PairOutcomeUnknown),
    (''invalid_device_alias'', InvalidDeviceAlias),
    (''device_alias_conflict'', DeviceAliasConflict),
    (''invalid_target_selector'', InvalidTargetSelector),
    (''outbound_direction_denied'', OutboundDirectionDenied),
    (''device_not_found'', DeviceNotFound),
    (''upload_too_large'', UploadTooLarge),
    (''upload_source_invalid'', UploadSourceInvalid),
    (''upload_storage_failed'', UploadStorageFailed),
    (''upload_outcome_unknown'', UploadOutcomeUnknown)]"

definition from_code :: "string \<Rightarrow> domain_error_kind option" where
  "from_code s = map_of code_table s"

lemma code_table_sound: "(s, k) \<in> set code_table \<Longrightarrow> s = code k"
proof -
  have "list_all (\<lambda>p. fst p = code (snd p)) code_table"
    by (simp add: code_table_def)
  then show "(s, k) \<in> set code_table \<Longrightarrow> s = code k"
    by (auto simp: list_all_iff)
qed

lemma from_code_code: "from_code (code k) = Some k"
  by (cases k) (simp_all only: code.simps, code_simp+)

text \<open>The stable error codes round-trip.  Parsing a code yields the kind that
  prints it and nothing else: \<open>from_code\<close> is exactly the partial inverse of
  \<open>code\<close>, so no two kinds share a code and no other text is accepted.\<close>

theorem error_code_roundtrip: "from_code s = Some k \<longleftrightarrow> s = code k"
  using from_code_code code_table_sound by (auto simp: from_code_def dest: map_of_SomeD)

end
