(* ===== verification/Authorization.thy ===== *)
theory Authorization
  imports Domain Domain_Errors Ordered_Map
begin

section \<open>Inbound authorization\<close>

text \<open>
  The generation and snapshot values of \<open>core/src/authorization.rs\<close> and the
  in-memory registry of \<open>daemon/src/authorization.rs\<close>.

  The registry holds, per device, a fair read/write lock around the current
  snapshot and a watch channel that publishes the same snapshot to readers that
  do not take the lock.  The model makes the lock explicit: \<open>readers\<close> is the
  number of read permits that are out, \<open>writer\<close> says whether the write permit is
  out and whether it is between the two stores of \<open>publish\<close>.  Waiting for a permit
  is a step that is not enabled yet.  A \<open>DaemonError\<close> is represented by its kind;
  its message text is left out.
\<close>

subsection \<open>Generations and snapshots\<close>

type_synonym auth_generation = nat

definition SQLITE_MAX :: nat where
  "SQLITE_MAX = I64_MAX"

definition auth_generation_new :: "nat \<Rightarrow> auth_generation option" where
  "auth_generation_new value = (if value > SQLITE_MAX then None else Some value)"

definition auth_generation_checked_next :: "auth_generation \<Rightarrow> auth_generation option" where
  "auth_generation_checked_next g =
    (case checked_add U64_MAX g 1 of
       Some next' \<Rightarrow> if next' \<le> SQLITE_MAX then Some next' else None
     | None \<Rightarrow> None)"

text \<open>The cast \<open>as i64\<close> reinterprets the bits: values above \<open>i64::MAX\<close> would wrap.\<close>

definition auth_generation_to_i64 :: "auth_generation \<Rightarrow> int" where
  "auth_generation_to_i64 g =
    (if g \<le> I64_MAX then int g else int g - 18446744073709551616)"

definition auth_generation_from_i64 :: "int \<Rightarrow> auth_generation option" where
  "auth_generation_from_i64 value =
    (if value < 0 then None else auth_generation_new (nat value))"

datatype authorization_status = AuthNone | Authorized | Revoked

record authorization_snapshot =
  status :: authorization_status
  generation :: auth_generation

definition snapshot_none :: authorization_snapshot where
  "snapshot_none = \<lparr>status = AuthNone, generation = 0\<rparr>"

definition is_authorized :: "authorization_snapshot \<Rightarrow> bool" where
  "is_authorized s \<longleftrightarrow> status s = Authorized"

definition validate_snapshot :: "authorization_snapshot \<Rightarrow> (unit, domain_error_kind) result" where
  "validate_snapshot s =
    (if (case status s of
           AuthNone \<Rightarrow> generation s = 0
         | Authorized \<Rightarrow> generation s \<noteq> 0
         | Revoked \<Rightarrow> generation s \<noteq> 0)
     then Ok () else Err StoreUnavailable)"

text \<open>Generations survive their trip through SQLite's signed column.  Every
  generation that can be built is written and read back unchanged, the cast never
  wraps, every non-negative column value is a generation, and the successor of a
  generation is again one unless the ceiling is reached.\<close>

theorem auth_generation_roundtrip:
  "auth_generation_new v = Some g \<Longrightarrow>
    auth_generation_from_i64 (auth_generation_to_i64 g) = Some g \<and>
    0 \<le> auth_generation_to_i64 g \<and>
    auth_generation_checked_next g =
      (if g = SQLITE_MAX then None else auth_generation_new (g + 1))"
  by (auto simp: auth_generation_new_def auth_generation_from_i64_def auth_generation_to_i64_def
      auth_generation_checked_next_def checked_add_def SQLITE_MAX_def split: if_splits)

theorem auth_generation_roundtrip_witness:
  "auth_generation_from_i64 (auth_generation_to_i64 I64_MAX) = Some I64_MAX \<and>
    auth_generation_checked_next I64_MAX = None"
  using auth_generation_roundtrip[of I64_MAX I64_MAX]
  by (simp add: auth_generation_new_def SQLITE_MAX_def)

subsection \<open>The registry\<close>

datatype writer_state = NoWriter | Writing | Publishing authorization_snapshot

record auth_entry =
  locked :: authorization_snapshot
  watched :: authorization_snapshot
  readers :: nat
  writer :: writer_state

definition auth_entry_new :: "authorization_snapshot \<Rightarrow> auth_entry" where
  "auth_entry_new s = \<lparr>locked = s, watched = s, readers = 0, writer = NoWriter\<rparr>"

type_synonym auth_entries = "(device_id, auth_entry) bmap"

record device_authorization =
  row_device_id :: device_id
  row_status :: authorization_status
  row_generation :: auth_generation

text \<open>The rows are inserted one by one; the first invalid or duplicate row ends the
  loop with an error, after the earlier rows were inserted.\<close>

primrec preload :: "auth_entries \<Rightarrow> device_authorization list \<Rightarrow>
    auth_entries \<times> (unit, domain_error_kind) result" where
  "preload entries [] = (entries, Ok ())"
| "preload entries (row # rows) =
    (let snapshot = \<lparr>status = row_status row, generation = row_generation row\<rparr> in
     case validate_snapshot snapshot of
       Err e \<Rightarrow> (entries, Err e)
     | Ok _ \<Rightarrow>
         let entries' = bt_insert (row_device_id row) (auth_entry_new snapshot) entries in
         if bt_contains entries (row_device_id row) then (entries', Err StoreUnavailable)
         else preload entries' rows)"

definition registry_snapshot :: "auth_entries \<Rightarrow> device_id \<Rightarrow> authorization_snapshot" where
  "registry_snapshot entries d =
    (case bt_get entries d of Some e \<Rightarrow> watched e | None \<Rightarrow> snapshot_none)"

definition admit :: "auth_entries \<Rightarrow> device_id \<Rightarrow> (authorization_snapshot, domain_error_kind) result" where
  "admit entries d =
    (case bt_get entries d of
       None \<Rightarrow> Err Unauthorized
     | Some e \<Rightarrow>
         if status (watched e) \<noteq> Authorized then Err Unauthorized else Ok (watched e))"

text \<open>\<open>acquire_commit\<close> once the read permit is granted: the permit is kept only when
  the snapshot under the lock is authorized at the expected generation.\<close>

definition acquire_commit :: "auth_entries \<Rightarrow> device_id \<Rightarrow> auth_generation \<Rightarrow>
    auth_entries \<times> (unit, domain_error_kind) result" where
  "acquire_commit entries d expected_generation =
    (case bt_get entries d of
       None \<Rightarrow> (entries, Err Unauthorized)
     | Some e \<Rightarrow>
         if status (locked e) \<noteq> Authorized then (entries, Err Unauthorized)
         else if generation (locked e) \<noteq> expected_generation then (entries, Err AuthorizationRevoked)
         else (bt_insert d (e\<lparr>readers := readers e + 1\<rparr>) entries, Ok ()))"

definition entry_or_insert :: "auth_entries \<Rightarrow> device_id \<Rightarrow> auth_entries" where
  "entry_or_insert entries d =
    (if bt_contains entries d then entries else bt_insert d (auth_entry_new snapshot_none) entries)"

definition set_writer :: "auth_entries \<Rightarrow> device_id \<Rightarrow> auth_entry \<Rightarrow> writer_state \<Rightarrow> auth_entries" where
  "set_writer entries d e w = bt_insert d (e\<lparr>writer := w\<rparr>) entries"

text \<open>The first store of \<open>publish\<close> replaces the locked snapshot, the second one the
  watched one.\<close>

definition publish_locked :: "auth_entries \<Rightarrow> device_id \<Rightarrow> auth_entry \<Rightarrow> authorization_snapshot \<Rightarrow>
    auth_entries \<times> (unit, domain_error_kind) result" where
  "publish_locked entries d e snapshot =
    (case validate_snapshot snapshot of
       Err k \<Rightarrow> (entries, Err k)
     | Ok _ \<Rightarrow> (bt_insert d (e\<lparr>locked := snapshot, writer := Publishing snapshot\<rparr>) entries, Ok ()))"

definition publish_watched :: "auth_entries \<Rightarrow> device_id \<Rightarrow> auth_entry \<Rightarrow> authorization_snapshot \<Rightarrow> auth_entries" where
  "publish_watched entries d e snapshot =
    bt_insert d (e\<lparr>watched := snapshot, writer := Writing\<rparr>) entries"

subsection \<open>Interleavings\<close>

text \<open>
  \<open>contexts\<close> are the live \<open>AuthorizedCommitContext\<close>s with the generation each was
  acquired for.  Any of the following may happen next: a permit is granted when
  the lock allows it, a write permit publishes, a permit is returned.
\<close>

record auth_world =
  entries :: auth_entries
  contexts :: "(device_id \<times> auth_generation) list"

inductive auth_step :: "auth_world \<Rightarrow> auth_world \<Rightarrow> bool" where
  commit_begin:
    "bt_get (entries s) d = Some e \<Longrightarrow> writer e = NoWriter \<Longrightarrow>
     acquire_commit (entries s) d g = (es, Ok ()) \<Longrightarrow>
     auth_step s (s\<lparr>entries := es, contexts := (d, g) # contexts s\<rparr>)"
| commit_end:
    "(d, g) \<in> set (contexts s) \<Longrightarrow> bt_get (entries s) d = Some e \<Longrightarrow>
     auth_step s (s\<lparr>entries := bt_insert d (e\<lparr>readers := readers e - 1\<rparr>) (entries s),
                    contexts := remove1 (d, g) (contexts s)\<rparr>)"
| authorize_begin:
    "es = entry_or_insert (entries s) d \<Longrightarrow> bt_get es d = Some e \<Longrightarrow>
     readers e = 0 \<Longrightarrow> writer e = NoWriter \<Longrightarrow>
     auth_step s (s\<lparr>entries := set_writer es d e Writing\<rparr>)"
| authorize_wait:
    "auth_step s (s\<lparr>entries := entry_or_insert (entries s) d\<rparr>)"
| revoke_begin:
    "bt_get (entries s) d = Some e \<Longrightarrow> readers e = 0 \<Longrightarrow> writer e = NoWriter \<Longrightarrow>
     auth_step s (s\<lparr>entries := set_writer (entries s) d e Writing\<rparr>)"
| publish_first:
    "bt_get (entries s) d = Some e \<Longrightarrow> writer e = Writing \<Longrightarrow>
     publish_locked (entries s) d e snapshot = (es, Ok ()) \<Longrightarrow>
     auth_step s (s\<lparr>entries := es\<rparr>)"
| publish_second:
    "bt_get (entries s) d = Some e \<Longrightarrow> writer e = Publishing snapshot \<Longrightarrow>
     auth_step s (s\<lparr>entries := publish_watched (entries s) d e snapshot\<rparr>)"
| write_end:
    "bt_get (entries s) d = Some e \<Longrightarrow> writer e = Writing \<Longrightarrow>
     auth_step s (s\<lparr>entries := set_writer (entries s) d e NoWriter\<rparr>)"

inductive auth_reachable :: "auth_world \<Rightarrow> bool" where
  loaded:
    "preload [] rows = (es, Ok ()) \<Longrightarrow> auth_reachable \<lparr>entries = es, contexts = []\<rparr>"
| step: "auth_reachable s \<Longrightarrow> auth_step s s' \<Longrightarrow> auth_reachable s'"

definition ctx_count :: "auth_world \<Rightarrow> device_id \<Rightarrow> nat" where
  "ctx_count s d = length (filter (\<lambda>c. fst c = d) (contexts s))"

text \<open>The invariant, one clause per entry: the reader count is the number of live
  contexts, readers exclude the writer, the locked snapshot is consistent, outside
  a write the watch shows the locked snapshot, and every live context was acquired
  for the generation the lock still protects.\<close>

definition entry_ok :: "nat \<Rightarrow> auth_entry \<Rightarrow> bool" where
  "entry_ok n e \<longleftrightarrow> readers e = n \<and> (readers e = 0 \<or> writer e = NoWriter) \<and>
     validate_snapshot (locked e) = Ok () \<and>
     (case writer e of
        NoWriter \<Rightarrow> watched e = locked e
      | Writing \<Rightarrow> watched e = locked e
      | Publishing s \<Rightarrow> locked e = s)"

definition auth_inv :: "auth_world \<Rightarrow> bool" where
  "auth_inv s \<longleftrightarrow>
    (\<forall>d e. bt_get (entries s) d = Some e \<longrightarrow> entry_ok (ctx_count s d) e) \<and>
    (\<forall>d g. (d, g) \<in> set (contexts s) \<longrightarrow>
       (\<exists>e. bt_get (entries s) d = Some e \<and> status (locked e) = Authorized \<and>
         generation (locked e) = g))"

lemma ctx_count_0: "(d, g) \<in> set (contexts s) \<Longrightarrow> ctx_count s d \<noteq> 0"
  by (force simp: ctx_count_def filter_empty_conv)

lemma ctx_count_remove1:
  "(d, g) \<in> set cs \<Longrightarrow>
    length (filter (\<lambda>c. fst c = d') (remove1 (d, g) cs)) =
      length (filter (\<lambda>c. fst c = d') cs) - (if d = d' then 1 else 0)"
  by (simp add: filter_remove1 length_remove1)

lemma auth_invI:
  assumes "\<And>d e. bt_get (entries s) d = Some e \<Longrightarrow> entry_ok (ctx_count s d) e"
    "\<And>d g. (d, g) \<in> set (contexts s) \<Longrightarrow> \<exists>e. bt_get (entries s) d = Some e \<and>
       status (locked e) = Authorized \<and> generation (locked e) = g"
  shows "auth_inv s"
  using assms by (auto simp: auth_inv_def)

lemma auth_inv_entry: "auth_inv s \<Longrightarrow> bt_get (entries s) d = Some e \<Longrightarrow> entry_ok (ctx_count s d) e"
  by (auto simp: auth_inv_def)

lemma auth_inv_context:
  "auth_inv s \<Longrightarrow> (d, g) \<in> set (contexts s) \<Longrightarrow>
    \<exists>e. bt_get (entries s) d = Some e \<and> status (locked e) = Authorized \<and> generation (locked e) = g"
  by (auto simp: auth_inv_def)

text \<open>Replacing the entry of one device, and changing only contexts of that device,
  keeps the invariant when the new entry is fine and agrees with the contexts.\<close>

lemma auth_inv_change:
  assumes inv: "auth_inv s"
    and entry: "entry_ok (length (filter (\<lambda>c. fst c = d) cs)) e'"
    and count: "\<And>d'. d' \<noteq> d \<Longrightarrow> length (filter (\<lambda>c. fst c = d') cs) = ctx_count s d'"
    and others: "\<And>d' g. d' \<noteq> d \<Longrightarrow> (d', g) \<in> set cs \<Longrightarrow> (d', g) \<in> set (contexts s)"
    and own: "\<And>g. (d, g) \<in> set cs \<Longrightarrow> status (locked e') = Authorized \<and> generation (locked e') = g"
  shows "auth_inv (s\<lparr>entries := bt_insert d e' (entries s), contexts := cs\<rparr>)"
proof (rule auth_invI)
  fix d' f
  assume "bt_get (entries (s\<lparr>entries := bt_insert d e' (entries s), contexts := cs\<rparr>)) d' = Some f"
  then show "entry_ok (ctx_count (s\<lparr>entries := bt_insert d e' (entries s), contexts := cs\<rparr>) d') f"
    using entry auth_inv_entry[OF inv, of d' f] count[of d']
    by (cases "d' = d") (simp_all add: ctx_count_def)
next
  fix d' g
  assume "(d', g) \<in> set (contexts (s\<lparr>entries := bt_insert d e' (entries s), contexts := cs\<rparr>))"
  then show "\<exists>f. bt_get (entries (s\<lparr>entries := bt_insert d e' (entries s), contexts := cs\<rparr>)) d' = Some f \<and>
      status (locked f) = Authorized \<and> generation (locked f) = g"
    using own[of g] others[of d' g] auth_inv_context[OF inv, of d' g] by (cases "d' = d") auto
qed

lemma auth_inv_update:
  assumes "auth_inv s" "entry_ok (ctx_count s d) e'"
    "\<And>g. (d, g) \<in> set (contexts s) \<Longrightarrow> status (locked e') = Authorized \<and> generation (locked e') = g"
  shows "auth_inv (s\<lparr>entries := bt_insert d e' (entries s)\<rparr>)"
  using auth_inv_change[OF assms(1), of d "contexts s" e'] assms(2,3) by (simp add: ctx_count_def)

lemma entry_or_insert_inv:
  assumes "auth_inv s"
  shows "auth_inv (s\<lparr>entries := entry_or_insert (entries s) d\<rparr>)"
proof (cases "bt_get (entries s) d")
  case None
  then have "ctx_count s d = 0"
    using assms auth_inv_context[of s d] by (auto simp: ctx_count_def filter_empty_conv)
  moreover have "validate_snapshot snapshot_none = Ok ()"
    by (simp add: validate_snapshot_def snapshot_none_def)
  ultimately show ?thesis
    using None assms auth_inv_context[OF assms, of d]
    by (auto simp: entry_or_insert_def entry_ok_def auth_entry_new_def intro!: auth_inv_update)
next
  case (Some e)
  then show ?thesis using assms by (simp add: entry_or_insert_def)
qed

lemma auth_step_inv: "auth_step s s' \<Longrightarrow> auth_inv s \<Longrightarrow> auth_inv s'"
proof (induction rule: auth_step.induct)
  case (commit_begin s d e g es)
  then have e: "entry_ok (ctx_count s d) e" "status (locked e) = Authorized"
    "generation (locked e) = g" "es = bt_insert d (e\<lparr>readers := readers e + 1\<rparr>) (entries s)"
    by (auto simp: acquire_commit_def auth_inv_entry split: if_splits)
  have "g' = g" if "(d, g') \<in> set (contexts s)" for g'
    using auth_inv_context[OF commit_begin(4) that] commit_begin(1) e(3) by simp
  moreover have "entry_ok (length (filter (\<lambda>c. fst c = d) ((d, g) # contexts s))) (e\<lparr>readers := readers e + 1\<rparr>)"
    using e(1) commit_begin(2) by (simp add: entry_ok_def ctx_count_def)
  ultimately show ?case
    unfolding e(4) using e(2,3) commit_begin(4)
    by (intro auth_inv_change) (auto simp: ctx_count_def)
next
  case (commit_end d g s e)
  have e: "entry_ok (ctx_count s d) e" using commit_end auth_inv_entry by blast
  have "readers e \<noteq> 0" using e ctx_count_0[OF commit_end(1)] by (simp add: entry_ok_def)
  then have "entry_ok (length (filter (\<lambda>c. fst c = d) (remove1 (d, g) (contexts s))))
      (e\<lparr>readers := readers e - 1\<rparr>)"
    using e commit_end(1) by (auto simp: entry_ok_def ctx_count_remove1 ctx_count_def)
  moreover have "status (locked e) = Authorized \<and> generation (locked e) = g'"
    if "(d, g') \<in> set (contexts s)" for g'
    using auth_inv_context[OF commit_end(3) that] commit_end(2) by auto
  ultimately show ?case
    using commit_end(1,3)
    by (intro auth_inv_change) (auto simp: ctx_count_def ctx_count_remove1 dest: notin_set_remove1)
next
  case (authorize_begin es s d e)
  let ?s = "s\<lparr>entries := es\<rparr>"
  have "auth_inv ?s" using authorize_begin entry_or_insert_inv by simp
  moreover from this have "entry_ok (ctx_count ?s d) e"
    using authorize_begin auth_inv_entry[of ?s d e] by simp
  ultimately show ?case
    using authorize_begin auth_inv_update[of ?s d "e\<lparr>writer := Writing\<rparr>"] auth_inv_context[of ?s d]
    by (auto simp: set_writer_def entry_ok_def)
next
  case (authorize_wait s d)
  then show ?case by (rule entry_or_insert_inv)
next
  case (revoke_begin s d e)
  then show ?case
    using auth_inv_entry[of s d e] auth_inv_context[of s d]
    by (auto simp: set_writer_def entry_ok_def intro!: auth_inv_update)
next
  case (publish_first s d e snapshot es)
  then have "entry_ok (ctx_count s d) e" using auth_inv_entry by blast
  then have none: "ctx_count s d = 0" using publish_first by (auto simp: entry_ok_def)
  then show ?case
    using publish_first ctx_count_0[of d _ s] \<open>entry_ok _ e\<close>
    by (auto simp: publish_locked_def entry_ok_def split: result.splits intro!: auth_inv_update)
next
  case (publish_second s d e snapshot)
  then have "entry_ok (ctx_count s d) e" using auth_inv_entry by blast
  then show ?case
    using publish_second ctx_count_0[of d _ s]
    by (auto simp: publish_watched_def entry_ok_def intro!: auth_inv_update)
next
  case (write_end s d e)
  then have "entry_ok (ctx_count s d) e" using auth_inv_entry by blast
  then show ?case
    using write_end ctx_count_0[of d _ s]
    by (auto simp: set_writer_def entry_ok_def intro!: auth_inv_update)
qed

lemma preload_Cons_Ok:
  assumes "preload es (row # rows) = (es', Ok ())"
  defines "snap \<equiv> \<lparr>status = row_status row, generation = row_generation row\<rparr>"
  shows "validate_snapshot snap = Ok ()"
    and "preload (bt_insert (row_device_id row) (auth_entry_new snap) es) rows = (es', Ok ())"
  using assms by (simp_all add: Let_def split: result.splits if_splits)

lemma preload_ok:
  assumes "preload es rows = (es', Ok ())" "\<And>d e. bt_get es d = Some e \<Longrightarrow> entry_ok 0 e"
    "bt_get es' d = Some e"
  shows "entry_ok 0 e"
  using assms
proof (induction rows arbitrary: es)
  case (Cons row rows)
  let ?snap = "\<lparr>status = row_status row, generation = row_generation row\<rparr>"
  show ?case
  proof (rule Cons.IH[OF preload_Cons_Ok(2)[OF Cons.prems(1)] _ Cons.prems(3)])
    have "entry_ok 0 (auth_entry_new ?snap)"
      using preload_Cons_Ok(1)[OF Cons.prems(1)] by (simp add: entry_ok_def auth_entry_new_def)
    then show "entry_ok 0 f"
      if "bt_get (bt_insert (row_device_id row) (auth_entry_new ?snap) es) d' = Some f" for d' f
      using that Cons.prems(2)[of d' f] by (simp split: if_splits)
  qed
qed simp

lemma auth_reachable_inv: "auth_reachable s \<Longrightarrow> auth_inv s"
proof (induction rule: auth_reachable.induct)
  case (loaded rows es)
  then show ?case by (intro auth_invI) (auto simp: ctx_count_def dest: preload_ok)
next
  case (step s s')
  then show ?case by (blast intro: auth_step_inv)
qed

text \<open>C2: no side effect under a revoked authorization.  In every interleaving of
  commits, authorizations and revocations, a live commit context implies that the
  device is authorized at exactly the generation the context was acquired for, that
  no write permit is out, and that an admission check at that moment agrees.\<close>

theorem commit_context_authorized:
  assumes "auth_reachable s" "(d, g) \<in> set (contexts s)"
  shows "\<exists>e. bt_get (entries s) d = Some e \<and> writer e = NoWriter \<and>
    locked e = \<lparr>status = Authorized, generation = g\<rparr> \<and> g \<noteq> 0 \<and>
    admit (entries s) d = Ok \<lparr>status = Authorized, generation = g\<rparr>"
proof -
  have inv: "auth_inv s" using assms(1) by (rule auth_reachable_inv)
  from auth_inv_context[OF this assms(2)] obtain e where
    e: "bt_get (entries s) d = Some e" "status (locked e) = Authorized" "generation (locked e) = g"
    by blast
  then have "entry_ok (ctx_count s d) e" using inv auth_inv_entry by blast
  then have ok: "writer e = NoWriter" "watched e = locked e" "validate_snapshot (locked e) = Ok ()"
    using ctx_count_0[OF assms(2)] by (auto simp: entry_ok_def split: writer_state.splits)
  have "locked e = \<lparr>status = Authorized, generation = g\<rparr>" using e by (cases "locked e") simp
  with e ok show ?thesis
    by (auto simp: admit_def validate_snapshot_def split: if_splits)
qed

definition demo_device :: device_id where
  "demo_device = replicate 32 7"

definition demo_loaded :: auth_world where
  "demo_loaded = \<lparr>entries = [(demo_device, auth_entry_new \<lparr>status = Authorized, generation = 1\<rparr>)],
     contexts = []\<rparr>"

definition demo_committing :: auth_world where
  "demo_committing = \<lparr>entries = fst (acquire_commit (entries demo_loaded) demo_device 1),
     contexts = [(demo_device, 1)]\<rparr>"

lemma demo_committing_reachable: "auth_reachable demo_committing"
proof -
  have "preload [] [\<lparr>row_device_id = demo_device, row_status = Authorized, row_generation = 1\<rparr>] =
      (entries demo_loaded, Ok ())"
    by (simp add: demo_loaded_def validate_snapshot_def Let_def)
  from auth_reachable.loaded[OF this] have "auth_reachable demo_loaded"
    by (simp add: demo_loaded_def)
  moreover have "auth_step demo_loaded demo_committing"
    using auth_step.commit_begin[of demo_loaded demo_device
        "auth_entry_new \<lparr>status = Authorized, generation = 1\<rparr>" 1]
    by (simp add: demo_loaded_def demo_committing_def acquire_commit_def auth_entry_new_def)
  ultimately show ?thesis by (rule auth_reachable.step)
qed

theorem commit_context_authorized_witness:
  "admit (entries demo_committing) demo_device = Ok \<lparr>status = Authorized, generation = 1\<rparr>"
proof -
  have "(demo_device, 1) \<in> set (contexts demo_committing)" by (simp add: demo_committing_def)
  from commit_context_authorized[OF demo_committing_reachable this] show ?thesis by blast
qed

end
