(* ===== verification/Device.thy ===== *)
theory Device
  imports Authorization
begin

section \<open>Device names, aliases and summaries\<close>

text \<open>
  \<open>core/src/device.rs\<close>: display names, local aliases with their deterministic
  fallback, relay hints and the directional device summary.  The validators return
  the accepted string, as the constructors of the Rust newtypes do.
\<close>

subsection \<open>Display names\<close>

definition MAX_DEVICE_ALIAS_BYTES :: nat where "MAX_DEVICE_ALIAS_BYTES = 128"
definition MAX_DEVICE_DISPLAY_NAME_BYTES :: nat where "MAX_DEVICE_DISPLAY_NAME_BYTES = 128"
definition RESERVED_DEVICE_ALIAS :: rust_str where "RESERVED_DEVICE_ALIAS = lit ''local''"
definition MAX_RELAY_URL_BYTES :: nat where "MAX_RELAY_URL_BYTES = 2048"
definition ALIAS_SUFFIX_ID_BYTES :: nat where "ALIAS_SUFFIX_ID_BYTES = 4"

datatype device_display_name_error =
    DisplayNameEmpty
  | DisplayNameTooLong nat nat
  | DisplayNameControlCharacter

definition device_display_name_new :: "rust_str \<Rightarrow> (rust_str, device_display_name_error) result" where
  "device_display_name_new value =
    (if value = [] then Err DisplayNameEmpty
     else if str_len value > MAX_DEVICE_DISPLAY_NAME_BYTES
       then Err (DisplayNameTooLong (str_len value) MAX_DEVICE_DISPLAY_NAME_BYTES)
     else if list_ex is_control value then Err DisplayNameControlCharacter
     else Ok value)"

subsection \<open>Aliases\<close>

datatype device_alias_error =
    AliasEmpty
  | AliasTooLong nat nat
  | AliasSurroundingWhitespace
  | AliasControlCharacter
  | AliasReserved

definition validate_alias :: "rust_str \<Rightarrow> (unit, device_alias_error) result" where
  "validate_alias value =
    (if value = [] then Err AliasEmpty
     else if str_len value > MAX_DEVICE_ALIAS_BYTES
       then Err (AliasTooLong (str_len value) MAX_DEVICE_ALIAS_BYTES)
     else if trim value \<noteq> value then Err AliasSurroundingWhitespace
     else if list_ex is_control value then Err AliasControlCharacter
     else if value = RESERVED_DEVICE_ALIAS then Err AliasReserved
     else Ok ())"

definition device_alias_new :: "rust_str \<Rightarrow> (rust_str, device_alias_error) result" where
  "device_alias_new value = res_bind (validate_alias value) (\<lambda>_. Ok value)"

definition from_remote_name :: "rust_str \<Rightarrow> rust_str option" where
  "from_remote_name remote_name =
    (case validate_alias remote_name of Ok _ \<Rightarrow> Some remote_name | Err _ \<Rightarrow> None)"

definition short_endpoint_id :: "device_id \<Rightarrow> rust_str" where
  "short_endpoint_id d = concat (map fmt_02x (take ALIAS_SUFFIX_ID_BYTES d))"

definition short_id_suffix :: "device_id \<Rightarrow> rust_str" where
  "short_id_suffix d = lit ''-'' @ short_endpoint_id d"

text \<open>The loop over the characters of the trimmed name; both tests leave the loop.\<close>

primrec alias_prefix :: "nat \<Rightarrow> rust_str \<Rightarrow> rust_str \<Rightarrow> rust_str" where
  "alias_prefix budget acc [] = acc"
| "alias_prefix budget acc (c # cs) =
    (if is_control c then acc
     else if str_len acc + len_utf8 c > budget then acc
     else alias_prefix budget (acc @ [c]) cs)"

definition disambiguated :: "rust_str \<Rightarrow> device_id \<Rightarrow> rust_str" where
  "disambiguated remote_name d =
    (let suffix = short_id_suffix d;
         budget = MAX_DEVICE_ALIAS_BYTES - str_len suffix
     in alias_prefix budget [] (trim remote_name) @ suffix)"

subsection \<open>Relay hints\<close>

datatype relay_hint_error =
    RelayEmpty
  | RelayTooLong nat nat
  | RelayNotHttps
  | RelayControlCharacter

definition byte_is_ascii_whitespace :: "byte \<Rightarrow> bool" where
  "byte_is_ascii_whitespace b \<longleftrightarrow> b = 9 \<or> b = 10 \<or> b = 12 \<or> b = 13 \<or> b = 32"

definition byte_is_ascii_control :: "byte \<Rightarrow> bool" where
  "byte_is_ascii_control b \<longleftrightarrow> b \<le> 31 \<or> b = 127"

definition relay_hint_new :: "rust_str \<Rightarrow> (rust_str, relay_hint_error) result" where
  "relay_hint_new value =
    (if value = [] then Err RelayEmpty
     else if str_len value > MAX_RELAY_URL_BYTES
       then Err (RelayTooLong (str_len value) MAX_RELAY_URL_BYTES)
     else if \<not> prefix (lit ''https://'') value then Err RelayNotHttps
     else if list_ex (\<lambda>b. byte_is_ascii_whitespace b \<or> byte_is_ascii_control b) (utf8 value)
       then Err RelayControlCharacter
     else Ok value)"

subsection \<open>Device summaries\<close>

datatype device_summary_error =
    OutboundWithoutKnown
  | InvalidRemoteName device_display_name_error
  | AuthWithZeroGeneration
  | NoAuthWithGeneration
  | AuthWithoutPairedTimestamp
  | NoAuthWithPairedTimestamp

record device_summary =
  sum_device_id :: device_id
  outbound_known :: bool
  sum_alias :: "rust_str option"
  remote_name :: rust_str
  route_verified :: bool
  auth_status :: authorization_status
  sum_generation :: auth_generation
  paired_at_unix :: nat
  last_seen_at_unix :: nat
  online :: bool
  active_stream_count :: nat
  remote_attachment_count :: nat

definition device_summary_new :: "device_summary \<Rightarrow> (device_summary, device_summary_error) result" where
  "device_summary_new s =
    (if \<not> outbound_known s \<and> (sum_alias s \<noteq> None \<or> remote_name s \<noteq> [] \<or> route_verified s)
     then Err OutboundWithoutKnown
     else res_bind
       (if outbound_known s
        then res_bind (map_err InvalidRemoteName (device_display_name_new (remote_name s))) (\<lambda>_. Ok ())
        else Ok ())
       (\<lambda>_. case auth_status s of
          AuthNone \<Rightarrow>
            if sum_generation s \<noteq> 0 then Err NoAuthWithGeneration
            else if paired_at_unix s \<noteq> 0 then Err NoAuthWithPairedTimestamp
            else Ok s
        | Authorized \<Rightarrow>
            if sum_generation s = 0 then Err AuthWithZeroGeneration
            else if paired_at_unix s = 0 then Err AuthWithoutPairedTimestamp
            else Ok s
        | Revoked \<Rightarrow>
            if sum_generation s = 0 then Err AuthWithZeroGeneration
            else if paired_at_unix s = 0 then Err AuthWithoutPairedTimestamp
            else Ok s))"

subsection \<open>The fallback alias is always valid\<close>

text \<open>The characters before the first control character.\<close>

definition printable :: "rust_str \<Rightarrow> rust_str" where
  "printable cs = takeWhile (\<lambda>c. \<not> is_control c) cs"

lemma printable_simps [simp]:
  "printable [] = []" "printable (c # cs) = (if is_control c then [] else c # printable cs)"
  by (simp_all add: printable_def)

lemma prefix_printable: "prefix ext (printable cs) \<Longrightarrow> prefix ext cs \<and> \<not> list_ex is_control ext"
  by (induction cs arbitrary: ext) (auto simp: prefix_Cons split: if_splits)

text \<open>The loop keeps the longest prefix without a control character that fits the budget.\<close>

lemma alias_prefix_longest:
  "\<exists>ext. alias_prefix budget p cs = p @ ext \<and> prefix ext (printable cs) \<and>
     (ext = printable cs \<or>
      (\<exists>c. prefix (ext @ [c]) (printable cs) \<and> budget < str_len (p @ ext @ [c])))"
proof (induction cs arbitrary: p)
  case (Cons c cs)
  show ?case
  proof (cases "is_control c \<or> str_len p + len_utf8 c > budget")
    case True
    then show ?thesis by (intro exI[of _ "[]"]) auto
  next
    case False
    from Cons.IH[of "p @ [c]"] obtain ext where
      "alias_prefix budget (p @ [c]) cs = p @ [c] @ ext" "prefix ext (printable cs)"
      "ext = printable cs \<or>
       (\<exists>e. prefix (ext @ [e]) (printable cs) \<and> budget < str_len (p @ [c] @ ext @ [e]))"
      by auto
    with False show ?thesis by (intro exI[of _ "c # ext"]) auto
  qed
qed auto

lemma alias_prefix_len:
  "str_len p \<le> budget \<Longrightarrow> str_len (alias_prefix budget p cs) \<le> budget"
  by (induction cs arbitrary: p) auto

lemma hex_char_props:
  "n < 16 \<Longrightarrow> \<not> is_whitespace (hex_digit n) \<and> \<not> is_control (hex_digit n)"
  by (auto simp: hex_digit_def is_whitespace_def is_control_def)

lemma fmt_02x_props: "\<forall>c \<in> set (fmt_02x b). \<not> is_whitespace c \<and> \<not> is_control c"
  using hex_char_props by (simp add: fmt_02x_def)

lemma suffix_props:
  assumes "length d = DEVICE_ID_LENGTH"
  shows "str_len (short_id_suffix d) = 9"
    and "\<forall>c \<in> set (short_id_suffix d). \<not> is_whitespace c \<and> \<not> is_control c"
    and "hd (short_id_suffix d) = 45" "short_id_suffix d \<noteq> []"
proof -
  have "length (take 4 d) = 4" using assms by simp
  then show "str_len (short_id_suffix d) = 9"
    by (simp add: short_id_suffix_def short_endpoint_id_def ALIAS_SUFFIX_ID_BYTES_def str_len_print)
  show "\<forall>c \<in> set (short_id_suffix d). \<not> is_whitespace c \<and> \<not> is_control c"
    using fmt_02x_props
    by (auto simp: short_id_suffix_def short_endpoint_id_def is_whitespace_def is_control_def)
qed (simp_all add: short_id_suffix_def)

lemma trim_hd: "trim s \<noteq> [] \<Longrightarrow> \<not> is_whitespace (hd (trim s))"
proof -
  assume ne: "trim s \<noteq> []"
  let ?t = "dropWhile is_whitespace s"
  obtain w where "?t = trim s @ w" using trim_end_prefix[of ?t] by (auto simp: trim_def)
  then have "hd ?t = hd (trim s)" "?t \<noteq> []" using ne by (auto simp: hd_append)
  then show ?thesis by (metis hd_dropWhile)
qed

lemma disambiguated_validates:
  assumes "length d = DEVICE_ID_LENGTH"
  shows "validate_alias (disambiguated name d) = Ok ()"
proof -
  let ?suffix = "short_id_suffix d"
  note suffix = suffix_props[OF assms]
  obtain ext where ext: "alias_prefix 119 [] (trim name) = ext" "prefix ext (trim name)"
    "\<not> list_ex is_control ext"
    using alias_prefix_longest[of 119 "[]" "trim name"] prefix_printable by fastforce
  have al: "disambiguated name d = ext @ ?suffix"
    using ext(1) suffix(1) by (simp add: disambiguated_def MAX_DEVICE_ALIAS_BYTES_def)
  have len: "str_len (ext @ ?suffix) \<le> MAX_DEVICE_ALIAS_BYTES"
    using alias_prefix_len[of "[]" 119 "trim name"] ext(1) suffix(1)
    by (simp add: MAX_DEVICE_ALIAS_BYTES_def)
  have "\<not> is_whitespace (hd (ext @ ?suffix))"
  proof (cases "ext = []")
    case True
    then show ?thesis using suffix(2,4) by simp
  next
    case False
    then have "hd ext = hd (trim name)" "trim name \<noteq> []"
      using ext(2) by (auto simp: prefix_def)
    then show ?thesis using trim_hd False by simp
  qed
  then have trim: "trim (ext @ ?suffix) = ext @ ?suffix"
    using suffix(2,4) by (simp add: trim_id_iff)
  have ctrl: "\<not> list_ex is_control (ext @ ?suffix)"
    using ext(3) suffix(2) by (auto simp: list_ex_iff)
  have "45 \<in> set (ext @ ?suffix)" using suffix(3,4) by (metis UnCI hd_in_set set_append)
  moreover have "45 \<notin> set RESERVED_DEVICE_ALIAS" by (simp add: RESERVED_DEVICE_ALIAS_def)
  ultimately have "ext @ ?suffix \<noteq> RESERVED_DEVICE_ALIAS" by metis
  then show ?thesis
    using len trim ctrl suffix(4) by (simp add: validate_alias_def al)
qed

text \<open>C31: the fallback alias is always a valid alias.  For every remote name, empty,
  over-long, padded or full of control characters, and every device identifier, the
  disambiguated alias passes the validator that guards explicit aliases, so the
  constructor that skips the check cannot create an invalid one.\<close>

theorem disambiguated_valid:
  assumes "length d = DEVICE_ID_LENGTH"
  shows "device_alias_new (disambiguated name d) = Ok (disambiguated name d)"
  using disambiguated_validates[OF assms] by (simp add: device_alias_new_def)

definition demo_endpoint :: device_id where
  "demo_endpoint = [171, 171, 171, 171] @ replicate 28 0"

theorem disambiguated_valid_witness:
  "device_alias_new (disambiguated (lit ''  my host  '') demo_endpoint) =
    Ok (lit ''my host-abababab'')"
proof -
  have "length demo_endpoint = DEVICE_ID_LENGTH" by (simp add: demo_endpoint_def)
  moreover have "disambiguated (lit ''  my host  '') demo_endpoint = lit ''my host-abababab''"
    by (simp add: disambiguated_def short_id_suffix_def short_endpoint_id_def fmt_02x_def
        hex_digit_def ALIAS_SUFFIX_ID_BYTES_def MAX_DEVICE_ALIAS_BYTES_def trim_def trim_end_def
        is_whitespace_def is_control_def demo_endpoint_def)
  ultimately show ?thesis using disambiguated_valid[of demo_endpoint "lit ''  my host  ''"] by simp
qed

text \<open>C32: what the fallback alias consists of.  It is the longest prefix of the trimmed remote
  name that has no control character and leaves room for the suffix within the 128 bytes,
  followed by the suffix of the device identifier.  So everything from the first control
  character on is lost, where the documentation says that control characters are dropped; and
  the result is itself accepted as a remote name, where the documentation says that it is
  distinct from every bare remote name.\<close>

theorem disambiguated_truncates:
  assumes "length d = DEVICE_ID_LENGTH"
  shows "(\<exists>ext. disambiguated name d = ext @ short_id_suffix d \<and> prefix ext (printable (trim name)) \<and>
      str_len ext + str_len (short_id_suffix d) \<le> MAX_DEVICE_ALIAS_BYTES \<and>
      (ext = printable (trim name) \<or>
       (\<exists>c. prefix (ext @ [c]) (printable (trim name)) \<and>
          MAX_DEVICE_ALIAS_BYTES < str_len (ext @ [c]) + str_len (short_id_suffix d)))) \<and>
    from_remote_name (disambiguated name d) = Some (disambiguated name d)"
proof -
  have suffix: "str_len (short_id_suffix d) = 9" using suffix_props[OF assms] by simp
  have "disambiguated name d = alias_prefix 119 [] (trim name) @ short_id_suffix d"
    using suffix by (simp add: disambiguated_def MAX_DEVICE_ALIAS_BYTES_def)
  moreover have "from_remote_name (disambiguated name d) = Some (disambiguated name d)"
    using disambiguated_validates[OF assms, of name] by (simp add: from_remote_name_def)
  ultimately show ?thesis
    using alias_prefix_longest[of 119 "[]" "trim name"] alias_prefix_len[of "[]" 119 "trim name"] suffix
    by (auto simp: MAX_DEVICE_ALIAS_BYTES_def)
qed

theorem disambiguated_truncates_witness:
  "\<exists>ext. disambiguated (lit ''ab'' @ [7] @ lit ''cd'') demo_endpoint = ext @ short_id_suffix demo_endpoint \<and> prefix ext (lit ''ab'')"
proof -
  have "printable (trim (lit ''ab'' @ [7] @ lit ''cd'')) = lit ''ab''"
    by (simp add: trim_def trim_end_def is_whitespace_def is_control_def)
  moreover have "length demo_endpoint = DEVICE_ID_LENGTH" by (simp add: demo_endpoint_def)
  ultimately show ?thesis
    using disambiguated_truncates[of demo_endpoint "lit ''ab'' @ [7] @ lit ''cd''"] by metis
qed

end
