(* ===== verification/Pair_Ticket.thy ===== *)
theory Pair_Ticket
  imports Device
begin

section \<open>Pairing tickets, transcripts and proofs\<close>

text \<open>
  \<open>core/src/pairing.rs\<close>: the validated fields of a one-time ticket, the transcript
  that binds one handshake, their canonical bytes and the proofs computed over
  them, the local operation fingerprints, the four handshake messages and the byte
  budget of a handshake.

  SHA-256 and HMAC-SHA-256 come from the \<open>ring\<close> crate.  They are the fields of the
  record \<open>crypto\<close>, an argument of every definition that hashes or authenticates.
  What is assumed of them is named: \<open>mac_verifies\<close> (verification accepts exactly
  the tag that signing computes) and \<open>mac_binding\<close>, \<open>digest_binding\<close> (no collisions,
  the idealisation under which a tag or digest identifies its input).
\<close>

subsection \<open>Limits and errors\<close>

definition MAX_TICKET_TEXT_BYTES :: nat where "MAX_TICKET_TEXT_BYTES = 16 * 1024"
definition MAX_RELAY_HINTS :: nat where "MAX_RELAY_HINTS = 4"
definition MAX_PAIR_HELLO_FRAME_BYTES :: nat where "MAX_PAIR_HELLO_FRAME_BYTES = 16 * 1024"
definition MAX_PAIR_HANDSHAKE_BYTES :: nat where "MAX_PAIR_HANDSHAKE_BYTES = 64 * 1024"

definition PAIR_TICKET_FORMAT_VERSION :: nat where "PAIR_TICKET_FORMAT_VERSION = 1"
definition PAIR_PROTOCOL_VERSION :: nat where "PAIR_PROTOCOL_VERSION = 1"
definition PAIR_SECRET_BYTES :: nat where "PAIR_SECRET_BYTES = 32"
definition PAIR_FINGERPRINT_BYTES :: nat where "PAIR_FINGERPRINT_BYTES = 32"
definition DEFAULT_PAIR_TTL_SECONDS :: nat where "DEFAULT_PAIR_TTL_SECONDS = 600"
definition MIN_PAIR_TTL_SECONDS :: nat where "MIN_PAIR_TTL_SECONDS = 60"
definition MAX_PAIR_TTL_SECONDS :: nat where "MAX_PAIR_TTL_SECONDS = 3600"

definition domain_tag :: "string \<Rightarrow> byte list" where
  "domain_tag s = utf8 (lit s) @ [0]"

definition TICKET_DOMAIN :: "byte list" where
  "TICKET_DOMAIN = domain_tag ''voytty-pair-ticket-v1''"
definition OFFER_KEY_DOMAIN :: "byte list" where
  "OFFER_KEY_DOMAIN = domain_tag ''voytty-pair-offer-key-v1''"
definition TRANSCRIPT_DOMAIN :: "byte list" where
  "TRANSCRIPT_DOMAIN = domain_tag ''voytty-pair-transcript-v1''"
definition CONTROLLER_PROOF_DOMAIN :: "byte list" where
  "CONTROLLER_PROOF_DOMAIN = domain_tag ''voytty-pair-controller-proof-v1''"
definition HOST_ACCEPTED_DOMAIN :: "byte list" where
  "HOST_ACCEPTED_DOMAIN = domain_tag ''voytty-pair-host-accepted-v1''"
definition CREATE_FINGERPRINT_DOMAIN :: "byte list" where
  "CREATE_FINGERPRINT_DOMAIN = domain_tag ''voytty-local-pair-create-fingerprint-v1''"
definition ACCEPT_FINGERPRINT_DOMAIN :: "byte list" where
  "ACCEPT_FINGERPRINT_DOMAIN = domain_tag ''voytty-local-pair-accept-fingerprint-v1''"

datatype pair_ticket_error =
    UnsupportedFormatVersion nat
  | UnsupportedProtocolVersion nat
  | EmptyDeviceName
  | DeviceNameTooLong nat
  | DeviceNameControl
  | MissingRelayHint
  | TooManyRelayHints nat
  | DuplicateRelayHint
  | TtlOutOfRange nat
  | ZeroAuthorizationGeneration
  | CanonicalLengthOverflow

datatype pair_secret_error = PairSecretInvalidLength nat

definition pair_secret_from_slice :: "byte list \<Rightarrow> (byte list, pair_secret_error) result" where
  "pair_secret_from_slice bytes =
    (if length bytes = PAIR_SECRET_BYTES then Ok bytes
     else Err (PairSecretInvalidLength (length bytes)))"

definition validate_pair_ttl :: "nat \<Rightarrow> (unit, pair_ticket_error) result" where
  "validate_pair_ttl seconds =
    (if MIN_PAIR_TTL_SECONDS \<le> seconds \<and> seconds \<le> MAX_PAIR_TTL_SECONDS then Ok ()
     else Err (TtlOutOfRange seconds))"

definition validate_protocol_version :: "nat \<Rightarrow> (unit, pair_ticket_error) result" where
  "validate_protocol_version version =
    (if version \<noteq> PAIR_PROTOCOL_VERSION then Err (UnsupportedProtocolVersion version) else Ok ())"

primrec device_name_error :: "device_display_name_error \<Rightarrow> pair_ticket_error" where
  "device_name_error DisplayNameEmpty = EmptyDeviceName"
| "device_name_error (DisplayNameTooLong actual limit) = DeviceNameTooLong actual"
| "device_name_error DisplayNameControlCharacter = DeviceNameControl"

definition parse_device_name :: "rust_str \<Rightarrow> (rust_str, pair_ticket_error) result" where
  "parse_device_name name = map_err device_name_error (device_display_name_new name)"

definition validate_device_name :: "rust_str \<Rightarrow> (unit, pair_ticket_error) result" where
  "validate_device_name name = res_bind (parse_device_name name) (\<lambda>_. Ok ())"

text \<open>The duplicate test of the loop looks at the hints before the current one.\<close>

primrec no_duplicate_hint :: "rust_str list \<Rightarrow> rust_str list \<Rightarrow> (unit, pair_ticket_error) result" where
  "no_duplicate_hint before [] = Ok ()"
| "no_duplicate_hint before (hint # rest) =
    (if hint \<in> set before then Err DuplicateRelayHint
     else no_duplicate_hint (before @ [hint]) rest)"

definition validate_relay_hints :: "rust_str list \<Rightarrow> (unit, pair_ticket_error) result" where
  "validate_relay_hints hints =
    (if hints = [] then Err MissingRelayHint
     else if length hints > MAX_RELAY_HINTS then Err (TooManyRelayHints (length hints))
     else no_duplicate_hint [] hints)"

subsection \<open>Canonical bytes\<close>

definition push_u8 :: "byte list \<Rightarrow> nat \<Rightarrow> byte list" where
  "push_u8 out value = out @ [word_of_nat value]"

definition push_u16be :: "byte list \<Rightarrow> nat \<Rightarrow> byte list" where
  "push_u16be out value = out @ be_bytes 2 value"

definition push_u32be :: "byte list \<Rightarrow> nat \<Rightarrow> byte list" where
  "push_u32be out value = out @ be_bytes 4 value"

definition push_u64be :: "byte list \<Rightarrow> nat \<Rightarrow> byte list" where
  "push_u64be out value = out @ be_bytes 8 value"

definition push_len_prefixed_utf8 :: "byte list \<Rightarrow> rust_str \<Rightarrow> (byte list, pair_ticket_error) result" where
  "push_len_prefixed_utf8 out text =
    (let bytes = utf8 text in
     if length bytes > U16_MAX then Err CanonicalLengthOverflow
     else Ok (push_u16be out (length bytes) @ bytes))"

primrec push_hints :: "byte list \<Rightarrow> rust_str list \<Rightarrow> (byte list, pair_ticket_error) result" where
  "push_hints out [] = Ok out"
| "push_hints out (hint # hints) =
    res_bind (push_len_prefixed_utf8 out hint) (\<lambda>out. push_hints out hints)"

definition canonical_ticket_bytes ::
    "nat \<Rightarrow> device_id \<Rightarrow> rust_str \<Rightarrow> rust_str list \<Rightarrow> pair_offer_id \<Rightarrow> nat \<Rightarrow>
     (byte list, pair_ticket_error) result" where
  "canonical_ticket_bytes format_version host_device_id host_name relay_hints offer_id expires_at_unix =
    (let out = push_u32be TICKET_DOMAIN format_version @ host_device_id in
     res_bind (push_len_prefixed_utf8 out host_name) (\<lambda>out.
     res_bind (ensure (length relay_hints \<le> U8_MAX) CanonicalLengthOverflow) (\<lambda>_.
     res_bind (push_hints (push_u8 out (length relay_hints)) relay_hints) (\<lambda>out.
     Ok (push_u64be (out @ offer_id) expires_at_unix)))))"

definition canonical_transcript_bytes ::
    "byte list \<Rightarrow> device_id \<Rightarrow> device_id \<Rightarrow> pair_offer_id \<Rightarrow> pair_nonce \<Rightarrow> pair_nonce \<Rightarrow>
     rust_str \<Rightarrow> nat \<Rightarrow> nat \<Rightarrow> nat \<Rightarrow> (byte list, pair_ticket_error) result" where
  "canonical_transcript_bytes ticket_digest host_device_id controller_device_id offer_id
      controller_nonce host_nonce controller_name ticket_format_version pair_protocol_version
      expires_at_unix =
    (let out = TRANSCRIPT_DOMAIN @ ticket_digest @ host_device_id @ controller_device_id @
           offer_id @ controller_nonce @ host_nonce in
     res_bind (push_len_prefixed_utf8 out controller_name) (\<lambda>out.
     Ok (push_u64be (push_u32be (push_u32be out ticket_format_version) pair_protocol_version)
           expires_at_unix)))"

subsection \<open>Primitives from ring\<close>

record crypto =
  sha256 :: "byte list \<Rightarrow> byte list"
  hmac_sha256 :: "byte list \<Rightarrow> byte list \<Rightarrow> byte list"
  verify_hmac_sha256 :: "byte list \<Rightarrow> byte list \<Rightarrow> byte list \<Rightarrow> bool"

definition mac_verifies :: "crypto \<Rightarrow> bool" where
  "mac_verifies cr \<longleftrightarrow>
    (\<forall>key data proof. verify_hmac_sha256 cr key data proof \<longleftrightarrow> proof = hmac_sha256 cr key data)"

definition mac_binding :: "crypto \<Rightarrow> bool" where
  "mac_binding cr \<longleftrightarrow>
    (\<forall>key data data'. hmac_sha256 cr key data = hmac_sha256 cr key data' \<longrightarrow> data = data')"

definition digest_binding :: "crypto \<Rightarrow> bool" where
  "digest_binding cr \<longleftrightarrow> (\<forall>data data'. sha256 cr data = sha256 cr data' \<longrightarrow> data = data')"

subsection \<open>Fingerprints\<close>

definition for_create_input :: "nat \<Rightarrow> byte list" where
  "for_create_input effective_ttl_seconds =
    CREATE_FINGERPRINT_DOMAIN @ be_bytes 8 effective_ttl_seconds"

definition for_accept_input :: "byte list \<Rightarrow> rust_str option \<Rightarrow> byte list" where
  "for_accept_input ticket_text explicit_alias =
    ACCEPT_FINGERPRINT_DOMAIN @ be_bytes 8 (length ticket_text) @ ticket_text @
    (case explicit_alias of
       None \<Rightarrow> [0]
     | Some a \<Rightarrow> [1] @ be_bytes 2 (length (utf8 a)) @ utf8 a)"

definition for_create :: "crypto \<Rightarrow> nat \<Rightarrow> byte list" where
  "for_create cr ttl = sha256 cr (for_create_input ttl)"

definition for_accept :: "crypto \<Rightarrow> byte list \<Rightarrow> rust_str option \<Rightarrow> byte list" where
  "for_accept cr ticket_text explicit_alias = sha256 cr (for_accept_input ticket_text explicit_alias)"

datatype pair_fingerprint_error = PairFingerprintInvalidLength nat

definition pair_fingerprint_from_slice :: "byte list \<Rightarrow> (byte list, pair_fingerprint_error) result" where
  "pair_fingerprint_from_slice bytes =
    (if length bytes = PAIR_FINGERPRINT_BYTES then Ok bytes
     else Err (PairFingerprintInvalidLength (length bytes)))"

subsection \<open>Ticket fields and transcripts\<close>

record pair_ticket_fields =
  format_version :: nat
  host_device_id :: device_id
  host_name :: rust_str
  relay_hints :: "rust_str list"
  tk_offer_id :: pair_offer_id
  tk_expires_at_unix :: nat
  tk_canonical :: "byte list"

definition pair_ticket_fields_new ::
    "nat \<Rightarrow> device_id \<Rightarrow> rust_str \<Rightarrow> rust_str list \<Rightarrow> pair_offer_id \<Rightarrow> nat \<Rightarrow>
     (pair_ticket_fields, pair_ticket_error) result" where
  "pair_ticket_fields_new version host name hints offer expires =
    (if version \<noteq> PAIR_TICKET_FORMAT_VERSION then Err (UnsupportedFormatVersion version)
     else res_bind (parse_device_name name) (\<lambda>name.
       res_bind (validate_relay_hints hints) (\<lambda>_.
       res_bind (canonical_ticket_bytes version host name hints offer expires) (\<lambda>canonical.
       Ok \<lparr>format_version = version, host_device_id = host, host_name = name,
           relay_hints = hints, tk_offer_id = offer, tk_expires_at_unix = expires,
           tk_canonical = canonical\<rparr>))))"

definition ticket_is_expired :: "pair_ticket_fields \<Rightarrow> nat \<Rightarrow> bool" where
  "ticket_is_expired t now_unix \<longleftrightarrow> now_unix \<ge> tk_expires_at_unix t"

definition ticket_digest :: "crypto \<Rightarrow> pair_ticket_fields \<Rightarrow> byte list" where
  "ticket_digest cr t = sha256 cr (tk_canonical t)"

definition offer_key :: "crypto \<Rightarrow> pair_ticket_fields \<Rightarrow> byte list \<Rightarrow> byte list" where
  "offer_key cr t secret = hmac_sha256 cr secret (OFFER_KEY_DOMAIN @ tk_canonical t)"

record pair_transcript =
  tr_ticket_digest :: "byte list"
  tr_host_device_id :: device_id
  tr_controller_device_id :: device_id
  tr_offer_id :: pair_offer_id
  tr_controller_nonce :: pair_nonce
  tr_host_nonce :: pair_nonce
  tr_controller_name :: rust_str
  tr_ticket_format_version :: nat
  tr_pair_protocol_version :: nat
  tr_expires_at_unix :: nat
  tr_canonical :: "byte list"

definition pair_transcript_new ::
    "crypto \<Rightarrow> pair_ticket_fields \<Rightarrow> device_id \<Rightarrow> rust_str \<Rightarrow> pair_nonce \<Rightarrow> pair_nonce \<Rightarrow> nat \<Rightarrow>
     (pair_transcript, pair_ticket_error) result" where
  "pair_transcript_new cr ticket controller name controller_nonce host_nonce version =
    res_bind (validate_protocol_version version) (\<lambda>_.
    res_bind (parse_device_name name) (\<lambda>name.
    let digest = ticket_digest cr ticket in
    res_bind (canonical_transcript_bytes digest (host_device_id ticket) controller
        (tk_offer_id ticket) controller_nonce host_nonce name (format_version ticket) version
        (tk_expires_at_unix ticket)) (\<lambda>canonical.
    Ok \<lparr>tr_ticket_digest = digest, tr_host_device_id = host_device_id ticket,
        tr_controller_device_id = controller, tr_offer_id = tk_offer_id ticket,
        tr_controller_nonce = controller_nonce, tr_host_nonce = host_nonce,
        tr_controller_name = name, tr_ticket_format_version = format_version ticket,
        tr_pair_protocol_version = version, tr_expires_at_unix = tk_expires_at_unix ticket,
        tr_canonical = canonical\<rparr>)))"

definition controller_proof_data :: "pair_transcript \<Rightarrow> byte list" where
  "controller_proof_data t = CONTROLLER_PROOF_DOMAIN @ tr_canonical t"

definition host_confirmation_data :: "pair_transcript \<Rightarrow> nat \<Rightarrow> byte list" where
  "host_confirmation_data t gen = push_u64be (HOST_ACCEPTED_DOMAIN @ tr_canonical t) gen"

definition controller_proof :: "crypto \<Rightarrow> pair_transcript \<Rightarrow> byte list \<Rightarrow> byte list" where
  "controller_proof cr t key = hmac_sha256 cr key (controller_proof_data t)"

definition verify_controller_proof :: "crypto \<Rightarrow> pair_transcript \<Rightarrow> byte list \<Rightarrow> byte list \<Rightarrow> bool" where
  "verify_controller_proof cr t key proof = verify_hmac_sha256 cr key (controller_proof_data t) proof"

definition host_confirmation :: "crypto \<Rightarrow> pair_transcript \<Rightarrow> byte list \<Rightarrow> nat \<Rightarrow> byte list" where
  "host_confirmation cr t key gen = hmac_sha256 cr key (host_confirmation_data t gen)"

definition verify_host_confirmation ::
    "crypto \<Rightarrow> pair_transcript \<Rightarrow> byte list \<Rightarrow> nat \<Rightarrow> byte list \<Rightarrow> bool" where
  "verify_host_confirmation cr t key gen proof =
    verify_hmac_sha256 cr key (host_confirmation_data t gen) proof"

subsection \<open>Handshake messages\<close>

record pair_begin =
  pb_offer_id :: pair_offer_id
  pb_controller_name :: rust_str
  pb_controller_nonce :: pair_nonce
  pb_pair_protocol_version :: nat

definition pair_begin_new :: "pair_offer_id \<Rightarrow> rust_str \<Rightarrow> pair_nonce \<Rightarrow> nat \<Rightarrow>
    (pair_begin, pair_ticket_error) result" where
  "pair_begin_new offer name nonce version =
    res_bind (parse_device_name name) (\<lambda>name.
    res_bind (validate_protocol_version version) (\<lambda>_.
    Ok \<lparr>pb_offer_id = offer, pb_controller_name = name, pb_controller_nonce = nonce,
        pb_pair_protocol_version = version\<rparr>))"

record pair_challenge =
  pc_host_nonce :: pair_nonce
  pc_selected_version :: nat
  pc_ticket_expiry_unix :: nat

definition pair_challenge_new :: "pair_nonce \<Rightarrow> nat \<Rightarrow> nat \<Rightarrow> (pair_challenge, pair_ticket_error) result" where
  "pair_challenge_new nonce version expiry =
    res_bind (validate_protocol_version version) (\<lambda>_.
    Ok \<lparr>pc_host_nonce = nonce, pc_selected_version = version, pc_ticket_expiry_unix = expiry\<rparr>)"

definition pair_proof_from_slice :: "byte list \<Rightarrow> (byte list, id_length_error) result" where
  "pair_proof_from_slice bytes = from_bytes ''PairProof'' PAIR_SECRET_BYTES bytes"

record pair_accepted =
  pa_authorization_generation :: auth_generation
  pa_host_confirmation_proof :: "byte list"
  pa_host_diagnostic_version :: rust_str

definition pair_accepted_from_proof :: "auth_generation \<Rightarrow> byte list \<Rightarrow> rust_str \<Rightarrow>
    (pair_accepted, pair_ticket_error) result" where
  "pair_accepted_from_proof gen proof version =
    (if gen = 0 then Err ZeroAuthorizationGeneration
     else res_bind (validate_device_name version) (\<lambda>_.
       Ok \<lparr>pa_authorization_generation = gen, pa_host_confirmation_proof = proof,
           pa_host_diagnostic_version = version\<rparr>))"

subsection \<open>The handshake budget\<close>

record pair_handshake_budget =
  budget_used :: nat
  budget_maximum :: nat

datatype pair_handshake_budget_error =
    BudgetInvalidMaximum
  | BudgetOverflow
  | BudgetExceeded nat nat

definition budget_new :: pair_handshake_budget where
  "budget_new = \<lparr>budget_used = 0, budget_maximum = MAX_PAIR_HANDSHAKE_BYTES\<rparr>"

definition budget_with_maximum :: "nat \<Rightarrow> (pair_handshake_budget, pair_handshake_budget_error) result" where
  "budget_with_maximum m = (if m = 0 then Err BudgetInvalidMaximum else Ok \<lparr>budget_used = 0, budget_maximum = m\<rparr>)"

definition budget_remaining :: "pair_handshake_budget \<Rightarrow> nat" where
  "budget_remaining b = budget_maximum b - budget_used b"

definition budget_record :: "pair_handshake_budget \<Rightarrow> nat \<Rightarrow>
    pair_handshake_budget \<times> (unit, pair_handshake_budget_error) result" where
  "budget_record b bytes =
    (case checked_add U64_MAX (budget_used b) bytes of
       None \<Rightarrow> (b, Err BudgetOverflow)
     | Some budget_sum' \<Rightarrow>
         if budget_sum' > budget_maximum b then (b, Err (BudgetExceeded budget_sum' (budget_maximum b)))
         else (b\<lparr>budget_used := budget_sum'\<rparr>, Ok ()))"

subsection \<open>The canonical encodings are unambiguous\<close>

named_theorems encoding_inject \<open>equality of two encodings, field by field\<close>

lemma fixed_prefix_iff [encoding_inject]:
  "length xs = length ys \<Longrightarrow> xs @ rest = ys @ rest' \<longleftrightarrow> xs = ys \<and> rest = rest'"
  by (simp add: append_eq_append_conv)

lemma be_bytes_iff:
  "v < 256 ^ n \<Longrightarrow> w < 256 ^ n \<Longrightarrow> be_bytes n v = be_bytes n w \<longleftrightarrow> v = w"
  using be_bytes_inject by blast

lemma be_bytes_widths [encoding_inject]:
  "v \<le> U8_MAX \<Longrightarrow> w \<le> U8_MAX \<Longrightarrow> (word_of_nat v :: byte) = word_of_nat w \<longleftrightarrow> v = w"
  "v \<le> U16_MAX \<Longrightarrow> w \<le> U16_MAX \<Longrightarrow> be_bytes 2 v = be_bytes 2 w \<longleftrightarrow> v = w"
  "v \<le> U32_MAX \<Longrightarrow> w \<le> U32_MAX \<Longrightarrow> be_bytes 4 v = be_bytes 4 w \<longleftrightarrow> v = w"
  "v \<le> U64_MAX \<Longrightarrow> w \<le> U64_MAX \<Longrightarrow> be_bytes 8 v = be_bytes 8 w \<longleftrightarrow> v = w"
  by (simp_all add: be_bytes_iff power2_eq_square byte_of_nat_eq_small)

lemma utf8_iff [encoding_inject]: "is_str s \<Longrightarrow> is_str t \<Longrightarrow> utf8 s = utf8 t \<longleftrightarrow> s = t"
  using utf8_inject by blast

lemma push_len_prefixed_Ok:
  "push_len_prefixed_utf8 out text = Ok out' \<longleftrightarrow>
    str_len text \<le> U16_MAX \<and> out' = out @ be_bytes 2 (length (utf8 text)) @ utf8 text"
  by (auto simp: push_len_prefixed_utf8_def Let_def push_u16be_def)

text \<open>The bytes the hint loop appends, and that they determine the hints.\<close>

primrec hint_bytes :: "rust_str list \<Rightarrow> byte list" where
  "hint_bytes [] = []"
| "hint_bytes (h # hs) = be_bytes 2 (length (utf8 h)) @ utf8 h @ hint_bytes hs"

lemma push_hints_Ok:
  "push_hints out hs = Ok out' \<longleftrightarrow>
    (\<forall>h \<in> set hs. str_len h \<le> U16_MAX) \<and> out' = out @ hint_bytes hs"
  by (induction hs arbitrary: out) (auto simp: push_len_prefixed_Ok)

lemma hint_bytes_iff [encoding_inject]:
  "length hs = length ks \<Longrightarrow> \<forall>h \<in> set hs. str_len h \<le> U16_MAX \<Longrightarrow> \<forall>k \<in> set ks. str_len k \<le> U16_MAX \<Longrightarrow>
    list_all is_str hs \<Longrightarrow> list_all is_str ks \<Longrightarrow>
    hint_bytes hs @ rest = hint_bytes ks @ rest' \<longleftrightarrow> hs = ks \<and> rest = rest'"
  by (induction hs ks rule: list_induct2) (auto simp: encoding_inject)

text \<open>The Rust types guarantee these widths for the fields of a ticket.\<close>

definition ticket_typed :: "pair_ticket_fields \<Rightarrow> bool" where
  "ticket_typed t \<longleftrightarrow> length (host_device_id t) = 32 \<and> length (tk_offer_id t) = 16 \<and>
     is_str (host_name t) \<and> list_all is_str (relay_hints t) \<and>
     format_version t \<le> U32_MAX \<and> tk_expires_at_unix t \<le> U64_MAX"

definition built_ticket :: "pair_ticket_fields \<Rightarrow> bool" where
  "built_ticket t \<longleftrightarrow> ticket_typed t \<and>
     pair_ticket_fields_new (format_version t) (host_device_id t) (host_name t) (relay_hints t)
       (tk_offer_id t) (tk_expires_at_unix t) = Ok t"

lemma canonical_ticket_bytes_Ok:
  "canonical_ticket_bytes v host name hints offer expires = Ok out \<longleftrightarrow>
    str_len name \<le> U16_MAX \<and> length hints \<le> U8_MAX \<and> (\<forall>h \<in> set hints. str_len h \<le> U16_MAX) \<and>
    out = TICKET_DOMAIN @ be_bytes 4 v @ host @ be_bytes 2 (length (utf8 name)) @ utf8 name @
      word_of_nat (length hints) # hint_bytes hints @ offer @ be_bytes 8 expires"
  by (auto simp: canonical_ticket_bytes_def Let_def push_len_prefixed_Ok push_hints_Ok
      push_u8_def push_u32be_def push_u64be_def)

lemma built_ticket_canonical:
  assumes "built_ticket t"
  shows "canonical_ticket_bytes (format_version t) (host_device_id t) (host_name t)
      (relay_hints t) (tk_offer_id t) (tk_expires_at_unix t) = Ok (tk_canonical t)"
  using assms
  by (cases t) (auto simp: built_ticket_def pair_ticket_fields_new_def parse_device_name_def
      device_display_name_new_def split: if_splits)

text \<open>Canonical ticket bytes are unambiguous.  Two constructed tickets with the
  same canonical bytes, hence the same digest input and the same offer-key input,
  agree in every field: host, name, each relay hint in order, offer and expiry.\<close>

theorem canonical_ticket_injective:
  assumes "built_ticket t" "built_ticket u" "tk_canonical t = tk_canonical u"
  shows "t = u"
proof -
  have typed: "ticket_typed t" "ticket_typed u" using assms(1,2) by (simp_all add: built_ticket_def)
  note t = built_ticket_canonical[OF assms(1), unfolded canonical_ticket_bytes_Ok]
  note u = built_ticket_canonical[OF assms(2), unfolded canonical_ticket_bytes_Ok]
  have same_head: "format_version t = format_version u" "host_device_id t = host_device_id u"
    "host_name t = host_name u" "length (relay_hints t) = length (relay_hints u)"
    and same_tail: "hint_bytes (relay_hints t) @ tk_offer_id t @ be_bytes 8 (tk_expires_at_unix t) =
      hint_bytes (relay_hints u) @ tk_offer_id u @ be_bytes 8 (tk_expires_at_unix u)"
    using t u assms(3) typed by (simp_all add: encoding_inject ticket_typed_def cong: conj_cong)
  have "relay_hints t = relay_hints u \<and>
    tk_offer_id t @ be_bytes 8 (tk_expires_at_unix t) =
      tk_offer_id u @ be_bytes 8 (tk_expires_at_unix u)"
    by (rule hint_bytes_iff[OF same_head(4), THEN iffD1, OF _ _ _ _ same_tail])
      (use t u typed in \<open>simp_all add: ticket_typed_def\<close>)
  then have "relay_hints t = relay_hints u" "tk_offer_id t = tk_offer_id u"
    "tk_expires_at_unix t = tk_expires_at_unix u"
    using typed by (simp_all add: encoding_inject ticket_typed_def)
  with same_head assms(3) show ?thesis by (cases t; cases u) simp
qed

text \<open>A ticket of the witnesses, and one more that differs in the expiry.\<close>

definition demo_ticket :: "nat \<Rightarrow> pair_ticket_fields" where
  "demo_ticket expires = \<lparr>format_version = 1, host_device_id = replicate 32 1,
     host_name = lit ''host'', relay_hints = [lit ''https://r''], tk_offer_id = replicate 16 2,
     tk_expires_at_unix = expires,
     tk_canonical = TICKET_DOMAIN @ be_bytes 4 1 @ replicate 32 1 @
       be_bytes 2 (str_len (lit ''host'')) @ utf8 (lit ''host'') @
       [1] @ be_bytes 2 (str_len (lit ''https://r'')) @ utf8 (lit ''https://r'') @ replicate 16 2 @ be_bytes 8 expires\<rparr>"

lemma demo_ticket_built: "expires \<le> U64_MAX \<Longrightarrow> built_ticket (demo_ticket expires)"
proof -
  assume bound: "expires \<le> U64_MAX"
  have name: "parse_device_name (lit ''host'') = Ok (lit ''host'')"
    by (simp add: parse_device_name_def device_display_name_new_def
        MAX_DEVICE_DISPLAY_NAME_BYTES_def is_control_def)
  have hints: "validate_relay_hints [lit ''https://r''] = Ok ()"
    by (simp add: validate_relay_hints_def MAX_RELAY_HINTS_def)
  have "ticket_typed (demo_ticket expires)"
    using bound by (simp add: ticket_typed_def demo_ticket_def is_str_def is_scalar_def)
  moreover have "canonical_ticket_bytes 1 (replicate 32 1) (lit ''host'') [lit ''https://r'']
      (replicate 16 2) expires = Ok (tk_canonical (demo_ticket expires))"
    by (subst canonical_ticket_bytes_Ok) (simp add: demo_ticket_def)
  ultimately show ?thesis
    using name hints
    by (simp add: built_ticket_def pair_ticket_fields_new_def PAIR_TICKET_FORMAT_VERSION_def
        demo_ticket_def)
qed

theorem canonical_ticket_injective_witness:
  "tk_canonical (demo_ticket 100) \<noteq> tk_canonical (demo_ticket 101)"
proof
  assume "tk_canonical (demo_ticket 100) = tk_canonical (demo_ticket 101)"
  then have "demo_ticket 100 = demo_ticket 101"
    by (intro canonical_ticket_injective demo_ticket_built) simp_all
  then show False by (simp add: demo_ticket_def)
qed

subsection \<open>Proofs are bound to their handshake\<close>

definition transcript_typed :: "pair_transcript \<Rightarrow> bool" where
  "transcript_typed t \<longleftrightarrow> length (tr_ticket_digest t) = 32 \<and> length (tr_host_device_id t) = 32 \<and>
     length (tr_controller_device_id t) = 32 \<and> length (tr_offer_id t) = 16 \<and>
     length (tr_controller_nonce t) = 32 \<and> length (tr_host_nonce t) = 32 \<and>
     is_str (tr_controller_name t) \<and> tr_ticket_format_version t \<le> U32_MAX \<and>
     tr_pair_protocol_version t \<le> U32_MAX \<and> tr_expires_at_unix t \<le> U64_MAX"

definition built_transcript :: "crypto \<Rightarrow> pair_transcript \<Rightarrow> bool" where
  "built_transcript cr t \<longleftrightarrow> transcript_typed t \<and>
     (\<exists>ticket name. pair_transcript_new cr ticket (tr_controller_device_id t) name
        (tr_controller_nonce t) (tr_host_nonce t) (tr_pair_protocol_version t) = Ok t)"

lemma built_transcript_canonical:
  assumes "built_transcript cr t"
  shows "str_len (tr_controller_name t) \<le> U16_MAX \<and>
    tr_canonical t = TRANSCRIPT_DOMAIN @ tr_ticket_digest t @ tr_host_device_id t @
      tr_controller_device_id t @ tr_offer_id t @ tr_controller_nonce t @ tr_host_nonce t @
      be_bytes 2 (length (utf8 (tr_controller_name t))) @ utf8 (tr_controller_name t) @
      be_bytes 4 (tr_ticket_format_version t) @ be_bytes 4 (tr_pair_protocol_version t) @
      be_bytes 8 (tr_expires_at_unix t)"
  using assms
  by (cases t) (auto simp: built_transcript_def pair_transcript_new_def Let_def
      canonical_transcript_bytes_def push_len_prefixed_Ok push_u32be_def push_u64be_def)

lemma canonical_transcript_injective:
  assumes "built_transcript cr t" "built_transcript cr u" "tr_canonical t = tr_canonical u"
  shows "t = u"
proof -
  have typed: "transcript_typed t" "transcript_typed u"
    using assms(1,2) by (simp_all add: built_transcript_def)
  show ?thesis
    using assms(3) typed built_transcript_canonical[OF assms(1)] built_transcript_canonical[OF assms(2)]
    by (cases t; cases u) (simp add: encoding_inject transcript_typed_def cong: conj_cong)
qed

text \<open>No controller proof input is ever a host confirmation input: the two domains
  differ before either ends.\<close>

lemma proof_domains_disjoint: "controller_proof_data t \<noteq> host_confirmation_data u g"
  by (simp add: controller_proof_data_def host_confirmation_data_def CONTROLLER_PROOF_DOMAIN_def
      HOST_ACCEPTED_DOMAIN_def domain_tag_def push_u64be_def utf8_char_def)

lemma host_confirmation_data_inject:
  assumes "built_transcript cr t" "built_transcript cr u" "g \<le> U64_MAX" "h \<le> U64_MAX"
    "host_confirmation_data t g = host_confirmation_data u h"
  shows "t = u \<and> g = h"
proof -
  have "be_bytes 8 g = be_bytes 8 h" "tr_canonical t = tr_canonical u"
    using assms(5) by (simp_all add: host_confirmation_data_def push_u64be_def)
  then show ?thesis
    using assms(3,4) canonical_transcript_injective[OF assms(1,2)] by (simp add: be_bytes_widths)
qed

text \<open>C3: proofs are bound to their handshake and their direction.  With a
  verification that accepts exactly the computed tag and a tag without collisions,
  the proof a controller computes for one transcript is accepted for that transcript
  and for no other, a host confirmation is accepted for its transcript and
  generation only, and neither is ever accepted as the other.\<close>

theorem proofs_bind_transcript:
  assumes "mac_verifies cr" "mac_binding cr" "built_transcript cr t" "built_transcript cr u"
    "g \<le> U64_MAX" "h \<le> U64_MAX"
  shows "(verify_controller_proof cr u key (controller_proof cr t key) \<longleftrightarrow> t = u) \<and>
    (verify_host_confirmation cr u key h (host_confirmation cr t key g) \<longleftrightarrow> t = u \<and> g = h) \<and>
    \<not> verify_controller_proof cr u key (host_confirmation cr t key g) \<and>
    \<not> verify_host_confirmation cr u key h (controller_proof cr t key)"
proof -
  have tag: "verify_hmac_sha256 cr key d (hmac_sha256 cr key d') \<longleftrightarrow> d' = d" for d d'
    using assms(1,2) by (auto simp: mac_verifies_def mac_binding_def)
  have "controller_proof_data t = controller_proof_data u \<longleftrightarrow> t = u"
    using canonical_transcript_injective[OF assms(3,4)] by (auto simp: controller_proof_data_def)
  moreover have "host_confirmation_data t g = host_confirmation_data u h \<longleftrightarrow> t = u \<and> g = h"
    using host_confirmation_data_inject[OF assms(3-6)] by auto
  ultimately show ?thesis
    using proof_domains_disjoint proof_domains_disjoint[symmetric]
    by (simp add: verify_controller_proof_def verify_host_confirmation_def controller_proof_def
        host_confirmation_def tag)
qed

text \<open>The hypotheses on the authentication code hold of the function that returns
  its input as the tag.\<close>

definition demo_crypto :: crypto where
  "demo_crypto = \<lparr>sha256 = (\<lambda>d. replicate 32 0),
     hmac_sha256 = (\<lambda>k d. d), verify_hmac_sha256 = (\<lambda>k d p. p = d)\<rparr>"

definition demo_transcript :: "byte \<Rightarrow> pair_transcript" where
  "demo_transcript n = \<lparr>tr_ticket_digest = replicate 32 0, tr_host_device_id = replicate 32 1,
     tr_controller_device_id = replicate 32 3, tr_offer_id = replicate 16 2,
     tr_controller_nonce = replicate 32 n, tr_host_nonce = replicate 32 5,
     tr_controller_name = lit ''ctl'', tr_ticket_format_version = 1, tr_pair_protocol_version = 1,
     tr_expires_at_unix = 100,
     tr_canonical = TRANSCRIPT_DOMAIN @ replicate 32 0 @ replicate 32 1 @ replicate 32 3 @
       replicate 16 2 @ replicate 32 n @ replicate 32 5 @ be_bytes 2 (str_len (lit ''ctl'')) @
       utf8 (lit ''ctl'') @ be_bytes 4 1 @ be_bytes 4 1 @ be_bytes 8 100\<rparr>"

lemma demo_crypto_ok: "mac_verifies demo_crypto" "mac_binding demo_crypto"
  by (simp_all add: mac_verifies_def mac_binding_def demo_crypto_def)

lemma demo_transcript_built: "built_transcript demo_crypto (demo_transcript n)"
proof -
  have "parse_device_name (lit ''ctl'') = Ok (lit ''ctl'')"
    by (simp add: parse_device_name_def device_display_name_new_def
        MAX_DEVICE_DISPLAY_NAME_BYTES_def is_control_def)
  then have "pair_transcript_new demo_crypto (demo_ticket 100) (tr_controller_device_id (demo_transcript n))
      (lit ''ctl'') (tr_controller_nonce (demo_transcript n)) (tr_host_nonce (demo_transcript n))
      (tr_pair_protocol_version (demo_transcript n)) = Ok (demo_transcript n)"
    by (simp add: pair_transcript_new_def validate_protocol_version_def PAIR_PROTOCOL_VERSION_def
        Let_def canonical_transcript_bytes_def push_len_prefixed_Ok push_u32be_def push_u64be_def
        demo_transcript_def demo_ticket_def ticket_digest_def demo_crypto_def)
  moreover have "transcript_typed (demo_transcript n)"
    by (simp add: transcript_typed_def demo_transcript_def is_str_def is_scalar_def)
  ultimately show ?thesis unfolding built_transcript_def by blast
qed

theorem proofs_bind_transcript_witness:
  "verify_controller_proof demo_crypto (demo_transcript 4) [9]
      (controller_proof demo_crypto (demo_transcript 4) [9]) \<and>
    \<not> verify_controller_proof demo_crypto (demo_transcript 4) [9]
      (controller_proof demo_crypto (demo_transcript 6) [9]) \<and>
    \<not> verify_host_confirmation demo_crypto (demo_transcript 4) [9] 1
      (host_confirmation demo_crypto (demo_transcript 4) [9] 2)"
proof -
  have differ: "demo_transcript 6 \<noteq> demo_transcript 4"
    by (auto simp: demo_transcript_def dest: arg_cong[where f = hd])
  note bind = proofs_bind_transcript[OF demo_crypto_ok]
  show ?thesis
    using bind[OF demo_transcript_built[of 4] demo_transcript_built[of 4], of 2 1 "[9]"]
      bind[OF demo_transcript_built[of 6] demo_transcript_built[of 4], of 1 1 "[9]"] differ
    by simp
qed

subsection \<open>The handshake budget bounds what is read\<close>

lemma budget_record_sum:
  "budget_used b \<le> budget_maximum b \<Longrightarrow> budget_record b n = (b', Ok ()) \<Longrightarrow>
    budget_used b' = budget_used b + n \<and> budget_used b' \<le> budget_maximum b' \<and>
    budget_maximum b' = budget_maximum b"
  by (auto simp: budget_record_def split: option.splits if_splits)

lemma budget_record_Err: "budget_record b n = (b', Err e) \<Longrightarrow> b' = b"
  by (auto simp: budget_record_def split: option.splits if_splits)

primrec record_all :: "pair_handshake_budget \<Rightarrow> nat list \<Rightarrow>
    pair_handshake_budget \<times> (unit, pair_handshake_budget_error) result" where
  "record_all b [] = (b, Ok ())"
| "record_all b (n # ns) =
    (case budget_record b n of
       (b', Err e) \<Rightarrow> (b', Err e)
     | (b', Ok _) \<Rightarrow> record_all b' ns)"

text \<open>A handshake never reads more than its ceiling.  Accounting a sequence of
  frames succeeds exactly when their sizes add up to at most the remaining budget,
  and then exactly that sum was accounted; on failure the accounted total still
  respects the ceiling.\<close>

theorem handshake_budget_exact:
  assumes "budget_used b \<le> budget_maximum b" "budget_maximum b \<le> U64_MAX"
  shows "(snd (record_all b ns) = Ok () \<longleftrightarrow> sum_list ns \<le> budget_remaining b) \<and>
    (snd (record_all b ns) = Ok () \<longrightarrow>
      budget_used (fst (record_all b ns)) = budget_used b + sum_list ns) \<and>
    budget_used (fst (record_all b ns)) \<le> budget_maximum b"
  using assms
proof (induction ns arbitrary: b)
  case Nil
  then show ?case by (simp add: budget_remaining_def)
next
  case (Cons n ns)
  show ?case
  proof (cases "budget_used b + n \<le> budget_maximum b")
    case True
    let ?b = "b\<lparr>budget_used := budget_used b + n\<rparr>"
    have "budget_record b n = (?b, Ok ())"
      using True Cons.prems by (simp add: budget_record_def checked_add_def)
    then show ?thesis
      using Cons.IH[of ?b] Cons.prems True by (auto simp: budget_remaining_def)
  next
    case False
    then have "\<exists>e. budget_record b n = (b, Err e)"
      by (auto simp: budget_record_def checked_add_def)
    then show ?thesis using False Cons.prems by (auto simp: budget_remaining_def)
  qed
qed

theorem handshake_budget_exact_witness:
  "snd (record_all budget_new [16384, 16384, 16384, 16384]) = Ok () \<and>
    snd (record_all budget_new [16384, 16384, 16384, 16384, 1]) \<noteq> Ok ()"
  using handshake_budget_exact[of budget_new "[16384, 16384, 16384, 16384]"]
    handshake_budget_exact[of budget_new "[16384, 16384, 16384, 16384, 1]"]
  by (simp add: budget_new_def budget_remaining_def MAX_PAIR_HANDSHAKE_BYTES_def
      del: record_all.simps)

end
