(* ===== verification/Wire_Kinds.thy ===== *)
theory Wire_Kinds
  imports Pair_Ticket
begin

section \<open>Message kinds of the wire protocol\<close>

text \<open>
  \<open>WireKind\<close> of \<open>proto/src/lib.rs\<close>: every message kind with its stable number, the
  parser of the number (\<open>TryFrom<u32>\<close>), and the payload bound of each kind.
\<close>

datatype (plugins only: code size) wire_kind =
    LocalReadinessRequest
  | LocalReadinessResponse
  | LocalStatusRequest
  | LocalStatusResponse
  | LocalValidateSetupRequest
  | LocalValidateSetupResponse
  | LocalStopRequest
  | LocalStopResponse
  | LocalUpdatePreflightRequest
  | LocalUpdatePreflightResponse
  | ServiceErrorResponse
  | LocalPairCreateRequest
  | LocalPairCreateResponse
  | LocalPairAcceptRequest
  | LocalPairAcceptResponse
  | LocalDeviceListRequest
  | LocalDeviceListResponse
  | LocalDeviceRenameRequest
  | LocalDeviceRenameResponse
  | LocalDeviceRevokeRequest
  | LocalDeviceRevokeResponse
  | LocalTargetResolveRequest
  | LocalTargetResolveResponse
  | LocalSessionUnaryRequest
  | LocalSessionTunnelOpenRequest
  | LocalSessionTunnelOpened
  | LocalSessionTunnelData
  | LocalSessionTunnelPath
  | LocalSessionTunnelHalfClose
  | LocalSessionTunnelClosed
  | LocalConnectionProgress
  | PairBegin
  | PairChallenge
  | PairProof
  | PairAccepted
  | ConnectionHello
  | ConnectionWelcome
  | SessionListRequest
  | SessionListResponse
  | SessionCreateRequest
  | SessionMutateResponse
  | SessionRenameRequest
  | SessionCloseRequest
  | SessionTakeoverRequest
  | SessionOperationLeaseRequest
  | SessionOperationLeaseResponse
  | TerminalAttachRequest
  | TerminalSemanticSnapshot
  | TerminalSemanticDelta
  | TerminalInput
  | TerminalResize
  | TerminalDetach
  | TerminalSnapshotApplied
  | TerminalSyncRequest
  | TerminalSyncRequired
  | TerminalLeaseLost
  | TerminalSessionEnded
  | TerminalTransportStateEvent
  | TerminalConnectionStatusEvent
  | TerminalHistoryWindowRequest
  | TerminalSemanticHistoryWindowFrame
  | TerminalClipboardWrite
  | TerminalBaseColors
  | TerminalNotification
  | TerminalSurfaceFramesReceived
  | UploadBegin
  | UploadReady
  | UploadChunk
  | UploadProgress
  | UploadFinish
  | UploadCompleted
  | UploadCancel
  | UploadCancelled

text \<open>The discriminants of the enumeration, what \<open>kind as u32\<close> yields.\<close>

primrec wire_kind_number :: "wire_kind \<Rightarrow> nat" where
  "wire_kind_number LocalReadinessRequest = 1"
| "wire_kind_number LocalReadinessResponse = 2"
| "wire_kind_number LocalStatusRequest = 3"
| "wire_kind_number LocalStatusResponse = 4"
| "wire_kind_number LocalValidateSetupRequest = 5"
| "wire_kind_number LocalValidateSetupResponse = 6"
| "wire_kind_number LocalStopRequest = 7"
| "wire_kind_number LocalStopResponse = 8"
| "wire_kind_number LocalUpdatePreflightRequest = 9"
| "wire_kind_number LocalUpdatePreflightResponse = 10"
| "wire_kind_number ServiceErrorResponse = 11"
| "wire_kind_number LocalPairCreateRequest = 12"
| "wire_kind_number LocalPairCreateResponse = 13"
| "wire_kind_number LocalPairAcceptRequest = 14"
| "wire_kind_number LocalPairAcceptResponse = 15"
| "wire_kind_number LocalDeviceListRequest = 16"
| "wire_kind_number LocalDeviceListResponse = 17"
| "wire_kind_number LocalDeviceRenameRequest = 18"
| "wire_kind_number LocalDeviceRenameResponse = 19"
| "wire_kind_number LocalDeviceRevokeRequest = 20"
| "wire_kind_number LocalDeviceRevokeResponse = 21"
| "wire_kind_number LocalTargetResolveRequest = 22"
| "wire_kind_number LocalTargetResolveResponse = 23"
| "wire_kind_number LocalSessionUnaryRequest = 24"
| "wire_kind_number LocalSessionTunnelOpenRequest = 25"
| "wire_kind_number LocalSessionTunnelOpened = 26"
| "wire_kind_number LocalSessionTunnelData = 27"
| "wire_kind_number LocalSessionTunnelPath = 28"
| "wire_kind_number LocalSessionTunnelHalfClose = 29"
| "wire_kind_number LocalSessionTunnelClosed = 30"
| "wire_kind_number LocalConnectionProgress = 31"
| "wire_kind_number PairBegin = 100"
| "wire_kind_number PairChallenge = 101"
| "wire_kind_number PairProof = 102"
| "wire_kind_number PairAccepted = 103"
| "wire_kind_number ConnectionHello = 104"
| "wire_kind_number ConnectionWelcome = 105"
| "wire_kind_number SessionListRequest = 200"
| "wire_kind_number SessionListResponse = 201"
| "wire_kind_number SessionCreateRequest = 209"
| "wire_kind_number SessionMutateResponse = 203"
| "wire_kind_number SessionRenameRequest = 204"
| "wire_kind_number SessionCloseRequest = 205"
| "wire_kind_number SessionTakeoverRequest = 206"
| "wire_kind_number SessionOperationLeaseRequest = 207"
| "wire_kind_number SessionOperationLeaseResponse = 208"
| "wire_kind_number TerminalAttachRequest = 323"
| "wire_kind_number TerminalSemanticSnapshot = 301"
| "wire_kind_number TerminalSemanticDelta = 302"
| "wire_kind_number TerminalInput = 303"
| "wire_kind_number TerminalResize = 304"
| "wire_kind_number TerminalDetach = 305"
| "wire_kind_number TerminalSnapshotApplied = 306"
| "wire_kind_number TerminalSyncRequest = 307"
| "wire_kind_number TerminalSyncRequired = 308"
| "wire_kind_number TerminalLeaseLost = 309"
| "wire_kind_number TerminalSessionEnded = 310"
| "wire_kind_number TerminalTransportStateEvent = 311"
| "wire_kind_number TerminalConnectionStatusEvent = 314"
| "wire_kind_number TerminalHistoryWindowRequest = 317"
| "wire_kind_number TerminalSemanticHistoryWindowFrame = 318"
| "wire_kind_number TerminalClipboardWrite = 322"
| "wire_kind_number TerminalBaseColors = 324"
| "wire_kind_number TerminalNotification = 325"
| "wire_kind_number TerminalSurfaceFramesReceived = 326"
| "wire_kind_number UploadBegin = 400"
| "wire_kind_number UploadReady = 401"
| "wire_kind_number UploadChunk = 402"
| "wire_kind_number UploadProgress = 403"
| "wire_kind_number UploadFinish = 404"
| "wire_kind_number UploadCompleted = 405"
| "wire_kind_number UploadCancel = 406"
| "wire_kind_number UploadCancelled = 407"

text \<open>The arms of \<open>TryFrom<u32>\<close>, in the order of the source.\<close>

definition wire_kind_arms :: "(nat \<times> wire_kind) list" where
  "wire_kind_arms = [
    (1, LocalReadinessRequest),
    (2, LocalReadinessResponse),
    (3, LocalStatusRequest),
    (4, LocalStatusResponse),
    (5, LocalValidateSetupRequest),
    (6, LocalValidateSetupResponse),
    (7, LocalStopRequest),
    (8, LocalStopResponse),
    (9, LocalUpdatePreflightRequest),
    (10, LocalUpdatePreflightResponse),
    (11, ServiceErrorResponse),
    (12, LocalPairCreateRequest),
    (13, LocalPairCreateResponse),
    (14, LocalPairAcceptRequest),
    (15, LocalPairAcceptResponse),
    (16, LocalDeviceListRequest),
    (17, LocalDeviceListResponse),
    (18, LocalDeviceRenameRequest),
    (19, LocalDeviceRenameResponse),
    (20, LocalDeviceRevokeRequest),
    (21, LocalDeviceRevokeResponse),
    (22, LocalTargetResolveRequest),
    (23, LocalTargetResolveResponse),
    (24, LocalSessionUnaryRequest),
    (25, LocalSessionTunnelOpenRequest),
    (26, LocalSessionTunnelOpened),
    (27, LocalSessionTunnelData),
    (28, LocalSessionTunnelPath),
    (29, LocalSessionTunnelHalfClose),
    (30, LocalSessionTunnelClosed),
    (31, LocalConnectionProgress),
    (100, PairBegin),
    (101, PairChallenge),
    (102, PairProof),
    (103, PairAccepted),
    (104, ConnectionHello),
    (105, ConnectionWelcome),
    (200, SessionListRequest),
    (201, SessionListResponse),
    (209, SessionCreateRequest),
    (203, SessionMutateResponse),
    (204, SessionRenameRequest),
    (205, SessionCloseRequest),
    (206, SessionTakeoverRequest),
    (207, SessionOperationLeaseRequest),
    (208, SessionOperationLeaseResponse),
    (323, TerminalAttachRequest),
    (301, TerminalSemanticSnapshot),
    (302, TerminalSemanticDelta),
    (303, TerminalInput),
    (304, TerminalResize),
    (305, TerminalDetach),
    (306, TerminalSnapshotApplied),
    (307, TerminalSyncRequest),
    (308, TerminalSyncRequired),
    (309, TerminalLeaseLost),
    (310, TerminalSessionEnded),
    (311, TerminalTransportStateEvent),
    (314, TerminalConnectionStatusEvent),
    (317, TerminalHistoryWindowRequest),
    (318, TerminalSemanticHistoryWindowFrame),
    (322, TerminalClipboardWrite),
    (324, TerminalBaseColors),
    (325, TerminalNotification),
    (326, TerminalSurfaceFramesReceived),
    (400, UploadBegin),
    (401, UploadReady),
    (402, UploadChunk),
    (403, UploadProgress),
    (404, UploadFinish),
    (405, UploadCompleted),
    (406, UploadCancel),
    (407, UploadCancelled)]"

definition wire_kind_try_from :: "nat \<Rightarrow> wire_kind option" where
  "wire_kind_try_from v = map_of wire_kind_arms v"

definition is_terminal_surface :: "wire_kind \<Rightarrow> bool" where
  "is_terminal_surface k \<longleftrightarrow>
    k \<in> {TerminalSemanticSnapshot, TerminalSemanticDelta, TerminalSemanticHistoryWindowFrame}"

definition is_control_kind :: "wire_kind \<Rightarrow> bool" where
  "is_control_kind k \<longleftrightarrow>
    k \<notin> {TerminalSemanticSnapshot, TerminalSemanticDelta, TerminalSemanticHistoryWindowFrame}"

definition is_pair_hello :: "wire_kind \<Rightarrow> bool" where
  "is_pair_hello k \<longleftrightarrow>
    k \<in> {PairBegin, PairChallenge, PairProof, PairAccepted, ConnectionHello, ConnectionWelcome}"

definition MAX_FRAME_BYTES :: nat where "MAX_FRAME_BYTES = 8 * 1024 * 1024"
definition MAX_CONTROL_PAYLOAD_BYTES :: nat where "MAX_CONTROL_PAYLOAD_BYTES = 1024 * 1024"
definition MAX_LOCAL_SESSION_TUNNEL_DATA_BYTES :: nat where
  "MAX_LOCAL_SESSION_TUNNEL_DATA_BYTES = 64 * 1024"
definition UPLOAD_CHUNK_BYTES :: nat where "UPLOAD_CHUNK_BYTES = 65536"

definition max_control_payload_bytes :: "wire_kind \<Rightarrow> nat" where
  "max_control_payload_bytes k =
    (if k = LocalConnectionProgress then 64
     else if is_pair_hello k then MAX_PAIR_HELLO_FRAME_BYTES
     else if k = LocalSessionTunnelData then MAX_LOCAL_SESSION_TUNNEL_DATA_BYTES + 4
     else if k = UploadChunk then UPLOAD_CHUNK_BYTES + 64
     else MAX_CONTROL_PAYLOAD_BYTES)"

lemma wire_kind_arms_sound: "(v, k) \<in> set wire_kind_arms \<Longrightarrow> v = wire_kind_number k"
proof -
  have "list_all (\<lambda>p. fst p = wire_kind_number (snd p)) wire_kind_arms"
    by (simp add: wire_kind_arms_def)
  then show "(v, k) \<in> set wire_kind_arms \<Longrightarrow> v = wire_kind_number k"
    by (auto simp: list_all_iff)
qed

lemma wire_kind_try_from_number [simp]: "wire_kind_try_from (wire_kind_number k) = Some k"
  by (cases k) (simp_all add: wire_kind_try_from_def wire_kind_arms_def)

text \<open>Kinds and numbers round-trip.  The number of a frame parses to exactly the
  kind that has this number; no two kinds share one and every other number is
  refused.\<close>

theorem wire_kind_roundtrip: "wire_kind_try_from v = Some k \<longleftrightarrow> v = wire_kind_number k"
  using wire_kind_try_from_number wire_kind_arms_sound
  by (auto simp: wire_kind_try_from_def dest: map_of_SomeD)

end
