(* ===== verification/Wire_Framing.thy ===== *)
theory Wire_Framing
  imports Wire_Kinds Traces "HOL-Library.Word"
begin

section \<open>Framing of the byte stream\<close>

text \<open>
  The stream format of \<open>proto/src/lib.rs\<close>: a varint length followed by a protobuf
  \<open>WireFrame\<close>.  \<open>FrameDecoder::feed\<close> accepts arbitrary chunks of the stream and
  returns the complete frames; \<open>encode_payload\<close> writes one frame.  Payloads of the
  terminal kinds may be compressed (\<open>proto/src/compression.rs\<close>).

  The protobuf code is generated by \<open>prost\<close> and the inflater is \<open>flate2\<close>: both are
  the record \<open>wire_codec\<close>, an argument of the definitions that use them.
  \<open>codec_roundtrip\<close> and \<open>codec_copies\<close> are what is assumed of prost: decoding the
  encoding of a frame gives the frame back, and a decoded payload is a part of the
  body.
\<close>

subsection \<open>Varints\<close>

definition MAX_VARINT_BYTES :: nat where "MAX_VARINT_BYTES = 10"
definition WIRE_MAJOR :: nat where "WIRE_MAJOR = 2"

datatype protocol_error =
    ProtoMalformedVarint
  | ProtoTruncatedFrame
  | ProtoFrameTooLarge nat
  | ProtoControlPayloadTooLarge nat
  | ProtoMalformedProtobuf
  | ProtoWireMajorMismatch nat nat
  | ProtoUnknownKind nat
  | ProtoInvalidPayloadEncoding
  | ProtoUnexpectedKind wire_kind wire_kind

fun encode_varint :: "nat \<Rightarrow> byte list" where
  "encode_varint v =
    (if v div 128 = 0 then [word_of_nat (v mod 128)]
     else (word_of_nat (v mod 128) OR 0x80) # encode_varint (v div 128))"

declare encode_varint.simps [simp del]

text \<open>The loop over the enumerated bytes; \<open>value\<close> is a u64, so bits shifted beyond
  it are dropped.\<close>

primrec decode_varint_from :: "nat \<Rightarrow> nat \<Rightarrow> byte list \<Rightarrow> (nat, protocol_error) result" where
  "decode_varint_from index val [] = Err ProtoMalformedVarint"
| "decode_varint_from index val (b # bs) =
    (if index = 9 \<and> b > 1 then Err ProtoMalformedVarint
     else let val = val OR take_bit 64 (push_bit (index * 7) (unat (b AND 0x7F)))
       in if b AND 0x80 = 0
          then if index > 0 \<and> b = 0 then Err ProtoMalformedVarint else Ok val
          else decode_varint_from (index + 1) val bs)"

definition decode_varint :: "byte list \<Rightarrow> (nat, protocol_error) result" where
  "decode_varint bs = decode_varint_from 0 0 bs"

subsection \<open>Frames\<close>

record wire_frame =
  wf_wire_major :: nat
  wf_kind :: nat
  wf_payload :: "byte list"
  wf_request_id :: nat
  wf_deadline_ms :: nat
  wf_payload_encoding :: nat

record decoded_frame =
  df_kind :: wire_kind
  df_request_id :: nat
  df_deadline_ms :: nat
  df_payload :: "byte list"

text \<open>One call of the inflater takes its state and the remaining input and yields the
  next state, the number of bytes read, the bytes written and whether the stream
  ended; \<open>None\<close> is a failure.\<close>

record 'z wire_codec =
  encode_frame :: "wire_frame \<Rightarrow> byte list"
  decode_frame :: "byte list \<Rightarrow> wire_frame option"
  inflate_init :: 'z
  inflate_step :: "'z \<Rightarrow> byte list \<Rightarrow> ('z \<times> nat \<times> byte list \<times> bool) option"

text \<open>The ranges of the integer fields of a frame.\<close>

definition wire_frame_typed :: "wire_frame \<Rightarrow> bool" where
  "wire_frame_typed w \<longleftrightarrow> wf_wire_major w \<le> U32_MAX \<and> wf_kind w \<le> U32_MAX \<and>
     wf_request_id w \<le> U64_MAX \<and> wf_deadline_ms w \<le> U32_MAX \<and> wf_payload_encoding w \<le> U32_MAX"

definition codec_roundtrip :: "'z wire_codec \<Rightarrow> bool" where
  "codec_roundtrip cd \<longleftrightarrow>
    (\<forall>w. wire_frame_typed w \<longrightarrow> decode_frame cd (encode_frame cd w) = Some w)"

text \<open>The decoded payload is copied out of the body.\<close>

definition codec_copies :: "'z wire_codec \<Rightarrow> bool" where
  "codec_copies cd \<longleftrightarrow>
    (\<forall>body w. decode_frame cd body = Some w \<longrightarrow> length (wf_payload w) \<le> length body)"

definition ZLIB :: nat where "ZLIB = 1"

text \<open>The inflation loop of \<open>decode_payload\<close>.  A buffer holds at most \<open>isize::MAX\<close> bytes,
  so the saturating sum of two lengths is their sum.\<close>

function inflate_loop :: "'z wire_codec \<Rightarrow> nat \<Rightarrow> 'z \<Rightarrow> byte list \<Rightarrow> byte list \<Rightarrow>
    (byte list, protocol_error) result" where
  "inflate_loop cd maximum z input out =
    (case inflate_step cd z input of
       None \<Rightarrow> Err ProtoInvalidPayloadEncoding
     | Some (z', taken, written, stream_end) \<Rightarrow>
         let read = min taken (length input) in
         if length out + length written > maximum
         then Err (ProtoFrameTooLarge (length out + length written))
         else if stream_end then
           if drop read input \<noteq> [] then Err ProtoInvalidPayloadEncoding else Ok (out @ written)
         else if read = 0 \<and> written = [] then Err ProtoInvalidPayloadEncoding
         else inflate_loop cd maximum z' (drop read input) (out @ written))"
  by pat_completeness auto

text \<open>Every round reads input or writes output, and the output is bounded.\<close>

termination
  by (relation "measure (\<lambda>(cd, maximum, z, input, out). length input + (maximum - length out))")
    (auto simp: not_less min_def neq_Nil_conv)

declare inflate_loop.simps [simp del]

definition decode_payload :: "'z wire_codec \<Rightarrow> wire_frame \<Rightarrow> wire_kind \<Rightarrow> nat \<Rightarrow>
    (wire_frame, protocol_error) result" where
  "decode_payload cd wire kind maximum_body_bytes =
    (if wf_payload_encoding wire = 0 then Ok wire
     else if wf_payload_encoding wire \<noteq> ZLIB \<or> \<not> is_terminal_surface kind
     then Err ProtoInvalidPayloadEncoding
     else res_bind (inflate_loop cd maximum_body_bytes (inflate_init cd) (wf_payload wire) []) (\<lambda>out.
       let wire = wire\<lparr>wf_payload := out, wf_payload_encoding := 0\<rparr>;
           len = length (encode_frame cd wire)
       in if len > maximum_body_bytes then Err (ProtoFrameTooLarge len) else Ok wire))"

definition validate_payload_limit :: "wire_kind \<Rightarrow> nat \<Rightarrow> (unit, protocol_error) result" where
  "validate_payload_limit kind len =
    (if is_control_kind kind \<and> len > max_control_payload_bytes kind
     then Err (ProtoControlPayloadTooLarge len) else Ok ())"

definition decode_wire_frame :: "'z wire_codec \<Rightarrow> byte list \<Rightarrow> nat \<Rightarrow> (decoded_frame, protocol_error) result" where
  "decode_wire_frame cd body maximum_body_bytes =
    (case decode_frame cd body of
       None \<Rightarrow> Err ProtoMalformedProtobuf
     | Some wire \<Rightarrow>
         if wf_wire_major wire \<noteq> WIRE_MAJOR
         then Err (ProtoWireMajorMismatch WIRE_MAJOR (wf_wire_major wire))
         else case wire_kind_try_from (wf_kind wire) of
           None \<Rightarrow> Err (ProtoUnknownKind (wf_kind wire))
         | Some kind \<Rightarrow>
             res_bind (decode_payload cd wire kind maximum_body_bytes) (\<lambda>wire.
             res_bind (validate_payload_limit kind (length (wf_payload wire))) (\<lambda>_.
             Ok \<lparr>df_kind = kind, df_request_id = wf_request_id wire,
                 df_deadline_ms = wf_deadline_ms wire, df_payload = wf_payload wire\<rparr>)))"

definition encode_payload :: "'z wire_codec \<Rightarrow> wire_kind \<Rightarrow> nat \<Rightarrow> nat \<Rightarrow> byte list \<Rightarrow>
    (byte list, protocol_error) result" where
  "encode_payload cd kind request_id deadline_ms payload =
    res_bind (validate_payload_limit kind (length payload)) (\<lambda>_.
    let body = encode_frame cd \<lparr>wf_wire_major = WIRE_MAJOR, wf_kind = wire_kind_number kind,
          wf_payload = payload, wf_request_id = request_id, wf_deadline_ms = deadline_ms,
          wf_payload_encoding = 0\<rparr>
    in if length body > MAX_FRAME_BYTES then Err (ProtoFrameTooLarge (length body))
       else Ok (encode_varint (length body) @ body))"

text \<open>Decoding of the concrete message is prost again: the argument \<open>decode\<close>.\<close>

definition decode_message :: "(byte list \<Rightarrow> 'm option) \<Rightarrow> decoded_frame \<Rightarrow> wire_kind \<Rightarrow>
    ('m, protocol_error) result" where
  "decode_message decode frame expected =
    (if df_kind frame \<noteq> expected then Err (ProtoUnexpectedKind expected (df_kind frame))
     else ok_or (decode (df_payload frame)) ProtoMalformedProtobuf)"

subsection \<open>The incremental decoder\<close>

text \<open>\<open>fd_prefix\<close> is the filled part of the prefix buffer.\<close>

record frame_decoder =
  fd_prefix :: "byte list"
  fd_body :: "byte list"
  fd_expected_body :: "nat option"
  fd_maximum_body_bytes :: nat

definition frame_decoder_new :: frame_decoder where
  "frame_decoder_new = \<lparr>fd_prefix = [], fd_body = [], fd_expected_body = None,
    fd_maximum_body_bytes = MAX_FRAME_BYTES\<rparr>"

definition with_maximum_body_bytes :: "nat \<Rightarrow> frame_decoder" where
  "with_maximum_body_bytes m = \<lparr>fd_prefix = [], fd_body = [], fd_expected_body = None,
    fd_maximum_body_bytes = (if m < MAX_FRAME_BYTES then m else MAX_FRAME_BYTES)\<rparr>"

definition buffered_len :: "frame_decoder \<Rightarrow> nat" where
  "buffered_len d = length (fd_prefix d) + length (fd_body d)"

text \<open>The first half of a round of \<open>feed\<close>: one byte of the length prefix.\<close>

definition prefix_byte :: "frame_decoder \<Rightarrow> byte \<Rightarrow> frame_decoder \<times> (unit, protocol_error) result" where
  "prefix_byte d b =
    (if length (fd_prefix d) = MAX_VARINT_BYTES then (d, Err ProtoMalformedVarint)
     else let d = d\<lparr>fd_prefix := fd_prefix d @ [b]\<rparr> in
       if b AND 0x80 = 0 then
         (case decode_varint (fd_prefix d) of
            Err e \<Rightarrow> (d, Err e)
          | Ok len \<Rightarrow>
              if len > fd_maximum_body_bytes d then (d, Err (ProtoFrameTooLarge len))
              else (d\<lparr>fd_body := [], fd_expected_body := Some len\<rparr>, Ok ()))
       else if length (fd_prefix d) = MAX_VARINT_BYTES then (d, Err ProtoMalformedVarint)
       else (d, Ok ()))"

text \<open>The second half: the part of the input that belongs to the body, and the frame
  when the body is complete.  The source tests \<open>body.len() == expected\<close>; the body is
  never longer than expected (\<open>decoder_wf_feed\<close> below), so this is the same test, and
  it makes every round of the loop progress from any state.\<close>

definition body_bytes :: "'z wire_codec \<Rightarrow> frame_decoder \<Rightarrow> byte list \<Rightarrow>
    frame_decoder \<times> byte list \<times> (decoded_frame list, protocol_error) result" where
  "body_bytes cd d input =
    (case fd_expected_body d of
       None \<Rightarrow> (d, input, Ok [])
     | Some expected \<Rightarrow>
         let needed = expected - length (fd_body d);
             taken = min needed (length input);
             d = d\<lparr>fd_body := fd_body d @ take taken input\<rparr>;
             input = drop taken input
         in if length (fd_body d) \<ge> expected then
              let body = fd_body d;
                  d = d\<lparr>fd_body := [], fd_expected_body := None, fd_prefix := []\<rparr>
              in (d, input, res_bind (decode_wire_frame cd body (fd_maximum_body_bytes d)) (\<lambda>f. Ok [f]))
            else (d, input, Ok []))"

text \<open>A round takes a byte of the prefix, or takes bytes of the body, or completes a
  frame: \<open>round_measure\<close> decreases.\<close>

definition round_measure :: "frame_decoder \<Rightarrow> byte list \<Rightarrow> nat" where
  "round_measure d input = 2 * length input + (if fd_expected_body d = None then 0 else 1)"

lemma body_bytes_measure:
  assumes "body_bytes cd d input = (d', input', Ok fs)"
  shows "round_measure d' input' \<le> round_measure d input"
    and "input \<noteq> [] \<Longrightarrow> fd_expected_body d \<noteq> None \<Longrightarrow> round_measure d' input' < round_measure d input"
  using assms
  by (auto simp: body_bytes_def round_measure_def Let_def min_def split: option.splits if_splits)

definition feed_round :: "'z wire_codec \<Rightarrow> frame_decoder \<Rightarrow> byte \<Rightarrow> byte list \<Rightarrow>
    frame_decoder \<times> byte list \<times> (decoded_frame list, protocol_error) result" where
  "feed_round cd d b bs =
    (if fd_expected_body d = None then
       (case prefix_byte d b of
          (d, Err e) \<Rightarrow> (d, bs, Err e)
        | (d, Ok _) \<Rightarrow> body_bytes cd d bs)
     else body_bytes cd d (b # bs))"

lemma feed_round_measure:
  assumes "feed_round cd d b bs = (d', input, Ok fs)"
  shows "round_measure d' input < round_measure d (b # bs)"
proof (cases "fd_expected_body d")
  case None
  then obtain d1 where "body_bytes cd d1 bs = (d', input, Ok fs)"
    using assms by (auto simp: feed_round_def split: prod.splits result.splits)
  then have "round_measure d' input \<le> round_measure d1 bs" by (rule body_bytes_measure(1))
  also have "\<dots> < round_measure d (b # bs)" by (simp add: round_measure_def)
  finally show ?thesis .
next
  case (Some n)
  then show ?thesis using assms body_bytes_measure(2)[of cd d "b # bs" d' input fs] by (simp add: feed_round_def)
qed

function feed_loop :: "'z wire_codec \<Rightarrow> frame_decoder \<Rightarrow> byte list \<Rightarrow> decoded_frame list \<Rightarrow>
    frame_decoder \<times> (decoded_frame list, protocol_error) result" where
  "feed_loop cd d [] frames = (d, Ok frames)"
| "feed_loop cd d (b # bs) frames =
    (case feed_round cd d b bs of
       (d, _, Err e) \<Rightarrow> (d, Err e)
     | (d, input, Ok fs) \<Rightarrow> feed_loop cd d input (frames @ fs))"
  by pat_completeness auto

termination
  by (relation "measure (\<lambda>(cd, d, input, frames). round_measure d input)")
    (auto intro: feed_round_measure[OF sym])

declare feed_loop.simps(2) [simp del]

definition decoder_feed :: "'z wire_codec \<Rightarrow> frame_decoder \<Rightarrow> byte list \<Rightarrow>
    frame_decoder \<times> (decoded_frame list, protocol_error) result" where
  "decoder_feed cd d input = feed_loop cd d input []"

definition decoder_finish :: "frame_decoder \<Rightarrow> (unit, protocol_error) result" where
  "decoder_finish d =
    (if fd_prefix d = [] \<and> fd_expected_body d = None then Ok () else Err ProtoTruncatedFrame)"

subsection \<open>Varints are canonical\<close>

lemma unat_low7: "unat ((b :: byte) AND 0x7F) = unat b mod 128"
proof -
  have "b AND 0x7F = take_bit 7 b" by (simp add: take_bit_eq_mask mask_eq_exp_minus_1)
  then have "unat (b AND 0x7F) = take_bit 7 (unat b)" by (simp only: unsigned_take_bit_eq)
  also have "\<dots> = unat b mod 128" by (simp add: take_bit_eq_mod)
  finally show ?thesis .
qed

lemma high_bit_clear: "(b :: byte) AND 0x80 = 0 \<longleftrightarrow> unat b < 128"
proof -
  have "unat b < 2 * 128" using unat_byte_less[of b] by simp
  then have "unat b div 128 < 2" by (rule less_mult_imp_div_less)
  then have "odd (unat b div 128) \<longleftrightarrow> unat b div 128 \<noteq> 0" by (cases "unat b div 128 = 0") auto
  moreover have "bit b 7 \<longleftrightarrow> odd (unat b div 128)"
    using bit_unsigned_iff[of b 7, where ?'a = nat] by (simp add: bit_iff_odd)
  moreover have "b AND 0x80 = 0 \<longleftrightarrow> \<not> bit b 7"
    using and_exp_eq_0_iff_not_bit[of b 7] by simp
  ultimately show ?thesis by auto
qed

lemma or_shifted: "(x :: nat) < 2 ^ n \<Longrightarrow> x OR push_bit n y = x + y * 2 ^ n"
proof -
  assume "x < 2 ^ n"
  then have "\<not> bit x k" if "n \<le> k" for k
    using that by (metis bit_take_bit_iff not_le take_bit_nat_eq_self)
  then have "x + push_bit n y = x OR push_bit n y"
    by (intro disjunctive_add) (auto simp: bit_push_bit_iff not_le)
  then show ?thesis by (simp add: push_bit_eq_mult)
qed

lemma unat_varint_byte:
  "m < 128 \<Longrightarrow> unat (word_of_nat m :: byte) = m"
  "m < 128 \<Longrightarrow> unat ((word_of_nat m :: byte) OR 0x80) = m + 128"
proof -
  show small: "m < 128 \<Longrightarrow> unat (word_of_nat m :: byte) = m"
    by (simp add: unat_of_nat)
  have "m OR push_bit 7 1 = m + 1 * 2 ^ 7" if "m < 128" using that by (intro or_shifted) simp
  then show "m < 128 \<Longrightarrow> unat ((word_of_nat m :: byte) OR 0x80) = m + 128"
    using small by (simp add: unsigned_or_eq push_bit_eq_mult)
qed

text \<open>One byte of the loop, over the natural numbers.\<close>

lemma decode_varint_step:
  assumes "val < 128 ^ index" "val + unat b mod 128 * 128 ^ index < 2 ^ 64"
  shows "decode_varint_from index val (b # bs) =
    (if index = 9 \<and> unat b > 1 then Err ProtoMalformedVarint
     else if unat b < 128
       then if index > 0 \<and> unat b = 0 then Err ProtoMalformedVarint else Ok (val + unat b mod 128 * 128 ^ index)
       else decode_varint_from (index + 1) (val + unat b mod 128 * 128 ^ index) bs)"
proof -
  have pow: "(128 :: nat) ^ index = 2 ^ (index * 7)"
    using power_mult[of "2 :: nat" 7 index] by (simp add: mult.commute)
  have "take_bit 64 (push_bit (index * 7) (unat (b AND 0x7F))) = push_bit (index * 7) (unat b mod 128)"
    using assms(2) by (simp add: unat_low7 push_bit_eq_mult pow take_bit_nat_eq_self)
  then have "val OR take_bit 64 (push_bit (index * 7) (unat (b AND 0x7F))) = val + unat b mod 128 * 128 ^ index"
    using assms(1) by (simp add: or_shifted pow)
  moreover have "b > 1 \<longleftrightarrow> unat b > 1" "b = 0 \<longleftrightarrow> unat b = 0"
    by (simp_all add: word_less_nat_alt unat_eq_0)
  ultimately show ?thesis by (simp only: decode_varint_from.simps high_bit_clear Let_def)
qed

declare decode_varint_from.simps(2) [simp del]

lemma decode_encode_varint_from:
  "val < 128 ^ index \<Longrightarrow> val + v * 128 ^ index < 2 ^ 64 \<Longrightarrow> index = 0 \<or> v \<noteq> 0 \<Longrightarrow>
    decode_varint_from index val (encode_varint v @ rest) = Ok (val + v * 128 ^ index)"
proof (induction v arbitrary: index val rule: less_induct)
  case (less v)
  have v: "v = v mod 128 + v div 128 * 128" by simp
  have low: "val + v mod 128 * 128 ^ index < 2 ^ 64"
    using less.prems(2) by (meson add_left_mono le_less_trans mod_less_eq_dividend mult_le_mono1)
  have nine: "v \<le> 1" if "index = 9"
  proof (rule ccontr)
    assume "\<not> v \<le> 1"
    then have "(2 :: nat) * 128 ^ 9 \<le> v * 128 ^ index" using that by simp
    then show False using less.prems(2) by simp
  qed
  show ?case
  proof (cases "v div 128 = 0")
    case True
    then have "v < 128" by (simp add: div_eq_0_iff)
    then have b: "unat (word_of_nat v :: byte) = v" by (rule unat_varint_byte)
    have "encode_varint v = [word_of_nat v]" using True \<open>v < 128\<close> by (simp add: encode_varint.simps[of v])
    moreover have "\<not> (index = 9 \<and> v > 1)" "\<not> (index > 0 \<and> v = 0)" using nine less.prems(3) by auto
    ultimately show ?thesis
      using decode_varint_step[of val index "word_of_nat v" rest] less.prems(1,2) \<open>v < 128\<close>
      by (simp add: b)
  next
    case False
    then have "index \<noteq> 9" using nine by auto
    have next_val: "val + v mod 128 * 128 ^ index < 128 ^ (index + 1)"
    proof -
      have "val + v mod 128 * 128 ^ index < 128 ^ index + 127 * 128 ^ index"
        using less.prems(1) by (intro add_less_le_mono mult_le_mono1) simp_all
      then show ?thesis by simp
    qed
    have sum: "val + v mod 128 * 128 ^ index + v div 128 * 128 ^ (index + 1) = val + v * 128 ^ index"
    proof -
      have "v * 128 ^ index = (v mod 128 + v div 128 * 128) * 128 ^ index" by (subst v) (rule refl)
      also have "\<dots> = v mod 128 * 128 ^ index + v div 128 * 128 ^ (index + 1)"
        by (simp only: distrib_right mult.assoc power_add power_one_right mult.commute[of 128])
      finally show ?thesis by simp
    qed
    have "decode_varint_from (index + 1) (val + v mod 128 * 128 ^ index) (encode_varint (v div 128) @ rest) =
        Ok (val + v * 128 ^ index)"
      using less.IH[of "v div 128" "val + v mod 128 * 128 ^ index" "index + 1"] False next_val less.prems(2) sum
      by simp
    then show ?thesis
      using False \<open>index \<noteq> 9\<close> decode_varint_step[of val index "word_of_nat (v mod 128) OR 0x80"] less.prems(1) low
      by (simp add: encode_varint.simps[of v] unat_varint_byte)
  qed
qed

lemma varint_head:
  assumes "128 \<le> unat (b :: byte)"
  shows "b = word_of_nat (unat b mod 128) OR 0x80"
proof -
  have "unat b - 128 < 128" using unat_byte_less[of b] assms by linarith
  then have "unat b mod 128 + 128 = unat b" using assms by (simp add: le_mod_geq)
  then have "unat (word_of_nat (unat b mod 128) OR 0x80 :: byte) = unat b"
    by (simp add: unat_varint_byte)
  then show ?thesis by (simp add: word_unat_eq_iff)
qed

lemma varint_value_bound:
  assumes "val < 128 ^ index" "index \<le> 9" "index = 9 \<Longrightarrow> unat b \<le> 1"
  shows "val + unat (b :: byte) mod 128 * 128 ^ index < 2 ^ 64"
proof (cases "index = 9")
  case True
  have "unat b mod 128 * 128 ^ index \<le> 1 * 128 ^ 9"
    using assms(3) True by (intro mult_le_mono) (auto intro: le_trans[OF mod_less_eq_dividend])
  then show ?thesis using assms(1) True by simp
next
  case False
  then have "index + 1 \<le> 9" using assms(2) by simp
  then have "(128 :: nat) ^ (index + 1) \<le> 128 ^ 9" by (intro power_increasing) simp_all
  moreover have "val + unat b mod 128 * 128 ^ index < 128 ^ index + 127 * 128 ^ index"
    using assms(1) by (intro add_less_le_mono mult_le_mono1) simp_all
  ultimately show ?thesis by simp
qed

lemma decode_varint_from_canonical:
  "decode_varint_from index val bs = Ok n \<Longrightarrow> val < 128 ^ index \<Longrightarrow> index \<le> 9 \<Longrightarrow>
    \<exists>v rest. bs = encode_varint v @ rest \<and> n = val + v * 128 ^ index \<and> n < 2 ^ 64 \<and> (index = 0 \<or> v \<noteq> 0)"
proof (induction bs arbitrary: index val)
  case (Cons b bs)
  have small: "unat b \<le> 1" if "index = 9"
    using Cons.prems(1) that
    by (auto simp: decode_varint_from.simps word_less_nat_alt not_less split: if_splits)
  note bound = varint_value_bound[OF Cons.prems(2,3) small]
  note step = decode_varint_step[OF Cons.prems(2) bound, of bs]
  show ?case
  proof (cases "unat b < 128")
    case True
    then have enc: "encode_varint (unat b) = [b]" by (simp add: encode_varint.simps[of "unat b"])
    have "n = val + unat b * 128 ^ index" "index = 0 \<or> unat b \<noteq> 0"
      using Cons.prems(1) step True by (auto split: if_splits)
    then show ?thesis using enc bound True by (intro exI[of _ "unat b"] exI[of _ bs]) simp
  next
    case False
    then have i: "index \<noteq> 9" using small by auto
    have "decode_varint_from (index + 1) (val + unat b mod 128 * 128 ^ index) bs = Ok n"
      using Cons.prems(1) step False i by simp
    moreover have "val + unat b mod 128 * 128 ^ index < 128 ^ (index + 1)"
    proof -
      have "val + unat b mod 128 * 128 ^ index < 128 ^ index + 127 * 128 ^ index"
        using Cons.prems(2) by (intro add_less_le_mono mult_le_mono1) simp_all
      then show ?thesis by simp
    qed
    ultimately obtain v rest where v: "bs = encode_varint v @ rest" "v \<noteq> 0" "n < 2 ^ 64"
      "n = val + unat b mod 128 * 128 ^ index + v * 128 ^ (index + 1)"
      using Cons.IH[of "index + 1" "val + unat b mod 128 * 128 ^ index"] Cons.prems(3) i by auto
    have "encode_varint (unat b mod 128 + 128 * v) = b # encode_varint v"
      using v(2) False varint_head[of b] by (simp add: encode_varint.simps[of "unat b mod 128 + 128 * v"])
    moreover have "n = val + (unat b mod 128 + 128 * v) * 128 ^ index"
      using v(4) by (simp add: distrib_right)
    ultimately show ?thesis
      using v by (intro exI[of _ "unat b mod 128 + 128 * v"] exI[of _ rest]) simp
  qed
qed simp

text \<open>Length prefixes are canonical.  A byte string decodes to the length \<open>v\<close>
  exactly when it starts with the one encoding of \<open>v\<close> and \<open>v\<close> is a 64 bit number, so
  overlong and overflowing prefixes are refused.\<close>

theorem varint_canonical:
  "decode_varint bs = Ok v \<longleftrightarrow> v \<le> U64_MAX \<and> (\<exists>rest. bs = encode_varint v @ rest)"
proof
  assume "decode_varint bs = Ok v"
  then obtain w rest where "bs = encode_varint w @ rest" "v = w" "v < 2 ^ 64"
    using decode_varint_from_canonical[of 0 0 bs v] by (auto simp: decode_varint_def)
  then show "v \<le> U64_MAX \<and> (\<exists>rest. bs = encode_varint v @ rest)" by auto
next
  assume "v \<le> U64_MAX \<and> (\<exists>rest. bs = encode_varint v @ rest)"
  then obtain rest where "v < 2 ^ 64" "bs = encode_varint v @ rest" by auto
  then show "decode_varint bs = Ok v"
    using decode_encode_varint_from[of 0 0 v rest] by (simp add: decode_varint_def)
qed

subsection \<open>Chunks\<close>

lemma feed_loop_acc:
  "feed_loop cd d input frames =
    (case feed_loop cd d input [] of
       (d', Ok fs) \<Rightarrow> (d', Ok (frames @ fs))
     | (d', Err e) \<Rightarrow> (d', Err e))"
proof (induction "round_measure d input" arbitrary: d input frames rule: less_induct)
  case less
  show ?case
  proof (cases input)
    case (Cons b bs)
    obtain d1 rest r where r: "feed_round cd d b bs = (d1, rest, r)" by (rule prod_cases3)
    show ?thesis
    proof (cases r)
      case (Ok fs)
      then have "round_measure d1 rest < round_measure d input"
        using feed_round_measure r Cons by metis
      from less.hyps[OF this, of "frames @ fs"] less.hyps[OF this, of fs] show ?thesis
        using r Ok Cons by (auto simp: feed_loop.simps(2) split: prod.splits result.splits)
    qed (simp add: Cons r feed_loop.simps(2))
  qed simp
qed

text \<open>What holds of a decoder between two calls of \<open>feed\<close>.\<close>

definition decoder_wf :: "frame_decoder \<Rightarrow> bool" where
  "decoder_wf d \<longleftrightarrow> length (fd_prefix d) \<le> MAX_VARINT_BYTES \<and>
    (case fd_expected_body d of
       None \<Rightarrow> fd_body d = []
     | Some n \<Rightarrow> length (fd_body d) < n \<and> n \<le> fd_maximum_body_bytes d)"

definition feed_on :: "'z wire_codec \<Rightarrow> decoded_frame list \<Rightarrow>
    frame_decoder \<times> byte list \<times> (decoded_frame list, protocol_error) result \<Rightarrow>
    frame_decoder \<times> (decoded_frame list, protocol_error) result" where
  "feed_on cd frames x =
    (case x of (d, _, Err e) \<Rightarrow> (d, Err e) | (d, input, Ok fs) \<Rightarrow> feed_loop cd d input (frames @ fs))"

lemma feed_loop_Cons: "feed_loop cd d (b # bs) frames = feed_on cd frames (feed_round cd d b bs)"
  by (simp add: feed_on_def feed_loop.simps(2))

lemma body_bytes_None [simp]: "fd_expected_body d = None \<Longrightarrow> body_bytes cd d input = (d, input, Ok [])"
  by (simp add: body_bytes_def)

lemma body_bytes_partial:
  assumes "fd_expected_body d = Some n" "length (fd_body d) + length input < n"
  shows "body_bytes cd d input = (d\<lparr>fd_body := fd_body d @ input\<rparr>, [], Ok [])"
  using assms by (simp add: body_bytes_def)

lemma body_bytes_complete:
  assumes "fd_expected_body d = Some n" "length (fd_body d) + length input = n"
  shows "body_bytes cd d (input @ rest) =
    (d\<lparr>fd_body := [], fd_expected_body := None, fd_prefix := []\<rparr>, rest,
     res_bind (decode_wire_frame cd (fd_body d @ input) (fd_maximum_body_bytes d)) (\<lambda>f. Ok [f]))"
proof -
  have "n - length (fd_body d) = length input" using assms(2) by simp
  then show ?thesis using assms by (simp add: body_bytes_def Let_def)
qed

lemma feed_body:
  assumes "fd_expected_body d = Some n" "length (fd_body d) < n"
  shows "feed_loop cd d bs frames = feed_on cd frames (body_bytes cd d bs)"
proof (cases bs)
  case Nil
  then show ?thesis using assms body_bytes_partial[of d n "[]" cd] by (simp add: feed_on_def)
next
  case (Cons b bs')
  then show ?thesis using assms by (simp add: feed_loop_Cons feed_round_def)
qed

lemma body_bytes_one:
  assumes "fd_expected_body d = Some n" "length (fd_body d) < n"
  shows "feed_on cd frames (body_bytes cd d (b # bs)) =
    (case body_bytes cd d [b] of
       (d', _, Err e) \<Rightarrow> (d', Err e)
     | (d', _, Ok fs) \<Rightarrow> feed_loop cd d' bs (frames @ fs))"
proof (cases "length (fd_body d) + 1 = n")
  case True
  then show ?thesis
    using assms body_bytes_complete[of d n "[b]" cd bs] body_bytes_complete[of d n "[b]" cd "[]"]
    by (simp add: feed_on_def split: result.split)
next
  case False
  let ?d = "d\<lparr>fd_body := fd_body d @ [b]\<rparr>"
  have "body_bytes cd d (b # bs) = body_bytes cd ?d bs"
  proof (cases "length (fd_body d) + 1 + length bs < n")
    case True
    then show ?thesis
      using assms body_bytes_partial[of d n "b # bs" cd] body_bytes_partial[of ?d n bs cd] by simp
  next
    case False
    define k where "k = n - length (fd_body d) - 1"
    have "length (fd_body d) + length (b # take k bs) = n" using False assms(2) by (simp add: k_def)
    then show ?thesis
      using assms body_bytes_complete[of d n "b # take k bs" cd "drop k bs"]
        body_bytes_complete[of ?d n "take k bs" cd "drop k bs"] by simp
  qed
  moreover have "body_bytes cd d [b] = (?d, [], Ok [])"
    using assms False body_bytes_partial[of d n "[b]" cd] by simp
  ultimately show ?thesis using assms False feed_body[of ?d n cd bs frames] by simp
qed

lemma feed_round_one:
  assumes "decoder_wf d"
  shows "feed_loop cd d (b # bs) frames =
    (case feed_round cd d b [] of
       (d', _, Err e) \<Rightarrow> (d', Err e)
     | (d', _, Ok fs) \<Rightarrow> feed_loop cd d' bs (frames @ fs))"
proof (cases "fd_expected_body d")
  case None
  obtain d1 r where p: "prefix_byte d b = (d1, r)" by fastforce
  show ?thesis
  proof (cases "r = Ok () \<and> fd_expected_body d1 \<noteq> None")
    case True
    then obtain n where n: "fd_expected_body d1 = Some n" by auto
    have body: "fd_body d1 = []"
      using p True None by (auto simp: prefix_byte_def Let_def split: if_splits result.splits)
    show ?thesis
    proof (cases "n = 0")
      case True
      then show ?thesis
        using n p None body \<open>r = Ok () \<and> _\<close> body_bytes_complete[of d1 n "[]" cd bs]
          body_bytes_complete[of d1 n "[]" cd "[]"]
        by (simp add: feed_loop_Cons feed_round_def feed_on_def split: result.split)
    next
      case False
      have "body_bytes cd d1 [] = (d1, [], Ok [])" using False n body by (simp add: body_bytes_def)
      then show ?thesis
        using False n p None body \<open>r = Ok () \<and> _\<close> feed_body[of d1 n cd bs frames]
        by (simp add: feed_loop_Cons feed_round_def)
    qed
  next
    case False
    then show ?thesis
      using p None by (auto simp: feed_loop_Cons feed_round_def feed_on_def split: result.split)
  qed
next
  case (Some n)
  then have "length (fd_body d) < n" using assms by (simp add: decoder_wf_def)
  then show ?thesis
    using Some body_bytes_one[of d n cd frames b bs] by (simp add: feed_loop_Cons feed_round_def)
qed

lemma feed_round_wf:
  assumes "decoder_wf d" "feed_round cd d b [] = (d', input, Ok fs)"
  shows "decoder_wf d' \<and> fd_maximum_body_bytes d' = fd_maximum_body_bytes d"
proof (cases "fd_expected_body d")
  case None
  then show ?thesis
    using assms
    by (auto simp: decoder_wf_def feed_round_def prefix_byte_def body_bytes_def Let_def MAX_VARINT_BYTES_def
        split: if_splits result.splits prod.splits option.splits)
next
  case (Some n)
  then show ?thesis
    using assms
    by (auto simp: decoder_wf_def feed_round_def body_bytes_def Let_def split: if_splits)
qed

lemma feed_loop_one:
  assumes "decoder_wf d" "feed_round cd d b [] = (d', input, Ok fs)"
  shows "feed_loop cd d (b # bs) [] = (case feed_loop cd d' bs [] of
     (d'', Ok gs) \<Rightarrow> (d'', Ok (fs @ gs)) | (d'', Err e) \<Rightarrow> (d'', Err e))"
  using feed_round_one[OF assms(1), of cd b bs "[]"] assms(2) feed_loop_acc[of cd d' bs fs] by simp

lemma decoder_wf_feed:
  "decoder_wf d \<Longrightarrow> decoder_feed cd d input = (d', Ok fs) \<Longrightarrow>
    decoder_wf d' \<and> fd_maximum_body_bytes d' = fd_maximum_body_bytes d"
proof (induction input arbitrary: d fs)
  case (Cons b bs)
  obtain d1 rest r where r: "feed_round cd d b [] = (d1, rest, r)" by (rule prod_cases3)
  with Cons.prems obtain gs where gs: "r = Ok gs"
    using feed_round_one[OF Cons.prems(1), of cd b bs "[]"] by (cases r) (auto simp: decoder_feed_def)
  have wf: "decoder_wf d1" "fd_maximum_body_bytes d1 = fd_maximum_body_bytes d"
    using feed_round_wf[OF Cons.prems(1) r[unfolded gs]] by simp_all
  obtain hs where "decoder_feed cd d1 bs = (d', Ok hs)"
    using Cons.prems(2) feed_loop_one[OF Cons.prems(1) r[unfolded gs], of bs]
    by (auto simp: decoder_feed_def split: prod.splits result.splits)
  then show ?case using Cons.IH wf by metis
qed (auto simp: decoder_feed_def)

lemma decoder_feed_append:
  "decoder_wf d \<Longrightarrow> decoder_feed cd d (xs @ ys) =
    (case decoder_feed cd d xs of
       (d', Ok fs) \<Rightarrow> (case decoder_feed cd d' ys of
           (d'', Ok gs) \<Rightarrow> (d'', Ok (fs @ gs)) | (d'', Err e) \<Rightarrow> (d'', Err e))
     | (d', Err e) \<Rightarrow> (d', Err e))"
proof (induction xs arbitrary: d)
  case Nil
  then show ?case by (auto simp: decoder_feed_def split: prod.splits result.splits)
next
  case (Cons b bs)
  obtain d1 rest r where r: "feed_round cd d b [] = (d1, rest, r)" by (rule prod_cases3)
  show ?case
  proof (cases r)
    case (Ok fs)
    note step = feed_loop_one[OF Cons.prems r[unfolded Ok]]
    have "decoder_wf d1" using feed_round_wf[OF Cons.prems r[unfolded Ok]] by simp
    from Cons.IH[OF this] show ?thesis
      by (auto simp: decoder_feed_def step split: prod.splits result.splits)
  next
    case (Err e)
    then show ?thesis
      using feed_round_one[OF Cons.prems, of cd b _ "[]"] r by (simp add: decoder_feed_def)
  qed
qed

text \<open>The reader loop: every chunk the stream delivers is fed to the decoder.\<close>

primrec feed_chunks :: "'z wire_codec \<Rightarrow> frame_decoder \<Rightarrow> byte list list \<Rightarrow>
    frame_decoder \<times> (decoded_frame list, protocol_error) result" where
  "feed_chunks cd d [] = (d, Ok [])"
| "feed_chunks cd d (c # cs) =
    (case decoder_feed cd d c of
       (d', Err e) \<Rightarrow> (d', Err e)
     | (d', Ok fs) \<Rightarrow> (case feed_chunks cd d' cs of
           (d'', Ok gs) \<Rightarrow> (d'', Ok (fs @ gs)) | (d'', Err e) \<Rightarrow> (d'', Err e)))"

lemma feed_chunks_concat: "decoder_wf d \<Longrightarrow> feed_chunks cd d cs = decoder_feed cd d (concat cs)"
proof (induction cs arbitrary: d)
  case Nil
  then show ?case by (simp add: decoder_feed_def)
next
  case (Cons c cs)
  obtain d' r where c: "decoder_feed cd d c = (d', r)" by fastforce
  show ?case
  proof (cases r)
    case (Ok fs)
    then have "decoder_wf d'" using decoder_wf_feed[OF Cons.prems] c by blast
    then show ?thesis using Cons.IH c Ok decoder_feed_append[OF Cons.prems, of cd c "concat cs"] by simp
  next
    case (Err e)
    then show ?thesis using c decoder_feed_append[OF Cons.prems, of cd c "concat cs"] by simp
  qed
qed

lemma decoder_wf_fresh [simp]: "decoder_wf (with_maximum_body_bytes m)"
  by (simp add: decoder_wf_def with_maximum_body_bytes_def)

text \<open>Decoding does not depend on how the stream is cut into chunks.  Feeding a
  fresh decoder any sequence of chunks gives the frames, the error and the final
  state of feeding it the whole stream at once.\<close>

theorem chunking_irrelevant:
  "feed_chunks cd (with_maximum_body_bytes m) chunks =
    decoder_feed cd (with_maximum_body_bytes m) (concat chunks)"
  by (simp add: feed_chunks_concat)

subsection \<open>Encoded streams decode to their frames\<close>

lemma encode_varint_nonempty [simp]: "encode_varint v \<noteq> []"
  by (subst encode_varint.simps) simp

lemma encode_varint_last_byte:
  "encode_varint v = p @ b # q \<Longrightarrow> b AND 0x80 = 0 \<longleftrightarrow> q = []"
proof (induction v arbitrary: p rule: less_induct)
  case (less v)
  show ?case
  proof (cases "v div 128 = 0")
    case True
    then have "p = []" "q = []" "b = word_of_nat (v mod 128)"
      using less.prems by (simp_all add: encode_varint.simps[of v] Cons_eq_append_conv)
    then show ?thesis by (simp add: high_bit_clear unat_varint_byte)
  next
    case False
    then have enc: "encode_varint v = (word_of_nat (v mod 128) OR 0x80) # encode_varint (v div 128)"
      by (simp add: encode_varint.simps[of v])
    show ?thesis
    proof (cases p)
      case Nil
      then have "b = word_of_nat (v mod 128) OR 0x80" "q = encode_varint (v div 128)"
        using less.prems enc by simp_all
      then show ?thesis by (simp add: high_bit_clear unat_varint_byte)
    next
      case (Cons c p')
      then have "encode_varint (v div 128) = p' @ b # q" using less.prems enc by simp
      then show ?thesis using less.IH[of "v div 128"] False by simp
    qed
  qed
qed

lemma length_encode_varint: "v < 128 ^ Suc k \<Longrightarrow> length (encode_varint v) \<le> Suc k"
proof (induction k arbitrary: v)
  case 0
  then show ?case by (simp add: encode_varint.simps[of v])
next
  case (Suc k)
  then have "v div 128 < 128 ^ Suc k" by (intro less_mult_imp_div_less) simp
  with Suc.IH[of "v div 128"] show ?case by (subst encode_varint.simps) simp
qed

lemma encode_varint_bounds:
  assumes "n \<le> MAX_FRAME_BYTES"
  shows "length (encode_varint n) \<le> MAX_VARINT_BYTES" "decode_varint (encode_varint n) = Ok n"
proof -
  have "n < 128 ^ Suc 3" using assms by (simp add: MAX_FRAME_BYTES_def)
  then have "length (encode_varint n) \<le> Suc 3" by (rule length_encode_varint)
  then show "length (encode_varint n) \<le> MAX_VARINT_BYTES" by (simp add: MAX_VARINT_BYTES_def)
  show "decode_varint (encode_varint n) = Ok n"
    using assms decode_encode_varint_from[of 0 0 n "[]"]
    by (simp add: decode_varint_def MAX_FRAME_BYTES_def)
qed

text \<open>One byte of a valid length prefix.\<close>

lemma prefix_byte_valid:
  assumes "n \<le> MAX_FRAME_BYTES" "n \<le> fd_maximum_body_bytes d" "encode_varint n = fd_prefix d @ b # q"
  shows "prefix_byte d b =
    (if q = [] then d\<lparr>fd_prefix := encode_varint n, fd_body := [], fd_expected_body := Some n\<rparr>
     else d\<lparr>fd_prefix := fd_prefix d @ [b]\<rparr>, Ok ())"
proof -
  have len: "length (fd_prefix d) + 1 + length q \<le> MAX_VARINT_BYTES"
    using encode_varint_bounds(1)[OF assms(1)] by (simp add: assms(3))
  show ?thesis
  proof (cases "q = []")
    case True
    then show ?thesis
      using len encode_varint_bounds(2)[OF assms(1)] encode_varint_last_byte[OF assms(3)] assms(2,3)
      by (simp add: prefix_byte_def)
  next
    case False
    then have "length (fd_prefix d) + 1 < MAX_VARINT_BYTES" using len by (cases q) auto
    then show ?thesis
      using False encode_varint_last_byte[OF assms(3)] by (simp add: prefix_byte_def)
  qed
qed

lemma feed_prefix:
  assumes "n \<le> MAX_FRAME_BYTES"
  shows "n \<le> fd_maximum_body_bytes d \<Longrightarrow> fd_expected_body d = None \<Longrightarrow>
    encode_varint n = fd_prefix d @ q \<Longrightarrow> q \<noteq> [] \<Longrightarrow>
    feed_loop cd d (q @ rest) frames = feed_on cd frames
      (body_bytes cd (d\<lparr>fd_prefix := encode_varint n, fd_body := [], fd_expected_body := Some n\<rparr>) rest)"
proof (induction q arbitrary: d)
  case (Cons b q)
  note step = prefix_byte_valid[OF assms Cons.prems(1,3)]
  show ?case
  proof (cases "q = []")
    case True
    then show ?thesis using step Cons.prems(2) by (simp add: feed_loop_Cons feed_round_def)
  next
    case False
    let ?d = "d\<lparr>fd_prefix := fd_prefix d @ [b]\<rparr>"
    have "feed_loop cd d ((b # q) @ rest) frames = feed_loop cd ?d (q @ rest) frames"
      using step False Cons.prems(2) by (simp add: feed_loop_Cons feed_round_def feed_on_def)
    then show ?thesis using Cons.IH[of ?d] Cons.prems False by simp
  qed
qed simp

lemma feed_prefix_part:
  assumes "n \<le> MAX_FRAME_BYTES"
  shows "n \<le> fd_maximum_body_bytes d \<Longrightarrow> fd_expected_body d = None \<Longrightarrow>
    encode_varint n = fd_prefix d @ q @ q' \<Longrightarrow> q' \<noteq> [] \<Longrightarrow>
    feed_loop cd d q frames = (d\<lparr>fd_prefix := fd_prefix d @ q\<rparr>, Ok frames)"
proof (induction q arbitrary: d)
  case (Cons b q)
  let ?d = "d\<lparr>fd_prefix := fd_prefix d @ [b]\<rparr>"
  have "prefix_byte d b = (?d, Ok ())"
    using prefix_byte_valid[OF assms Cons.prems(1), of b "q @ q'"] Cons.prems(3,4) by simp
  then have "feed_loop cd d (b # q) frames = feed_loop cd ?d q frames"
    using Cons.prems(2) by (simp add: feed_loop_Cons feed_round_def feed_on_def)
  then show ?case using Cons.IH[of ?d] Cons.prems by simp
qed simp

definition encode_decoded :: "'z wire_codec \<Rightarrow> decoded_frame \<Rightarrow> (byte list, protocol_error) result" where
  "encode_decoded cd f = encode_payload cd (df_kind f) (df_request_id f) (df_deadline_ms f) (df_payload f)"

text \<open>The ranges of the Rust fields.\<close>

definition decoded_frame_typed :: "decoded_frame \<Rightarrow> bool" where
  "decoded_frame_typed f \<longleftrightarrow> df_request_id f \<le> U64_MAX \<and> df_deadline_ms f \<le> U32_MAX"

lemma wire_kind_number_u32: "wire_kind_number k \<le> U32_MAX"
  by (cases k) simp_all

lemma encode_decodes:
  assumes "codec_roundtrip cd" "decoded_frame_typed f" "encode_decoded cd f = Ok bytes"
  obtains body where "bytes = encode_varint (length body) @ body" "length body \<le> MAX_FRAME_BYTES"
    "\<And>m. decode_wire_frame cd body m = Ok f"
proof -
  let ?w = "\<lparr>wf_wire_major = WIRE_MAJOR, wf_kind = wire_kind_number (df_kind f),
    wf_payload = df_payload f, wf_request_id = df_request_id f, wf_deadline_ms = df_deadline_ms f,
    wf_payload_encoding = 0\<rparr>"
  have enc: "bytes = encode_varint (length (encode_frame cd ?w)) @ encode_frame cd ?w"
    "length (encode_frame cd ?w) \<le> MAX_FRAME_BYTES"
    "validate_payload_limit (df_kind f) (length (df_payload f)) = Ok ()"
    using assms(3) by (auto simp: encode_decoded_def encode_payload_def Let_def split: if_splits)
  have "wire_frame_typed ?w"
    using assms(2) wire_kind_number_u32[of "df_kind f"]
    by (simp add: wire_frame_typed_def decoded_frame_typed_def WIRE_MAJOR_def)
  then have "decode_frame cd (encode_frame cd ?w) = Some ?w"
    using assms(1) by (simp add: codec_roundtrip_def)
  then have "decode_wire_frame cd (encode_frame cd ?w) m = Ok f" for m
    using enc(3) by (simp add: decode_wire_frame_def decode_payload_def)
  then show ?thesis using that enc(1,2) by blast
qed

lemma feed_body_frame:
  assumes "fd_prefix d = []" "fd_body d = []" "fd_expected_body d = None"
    "length body \<le> MAX_FRAME_BYTES" "length body \<le> fd_maximum_body_bytes d"
    "decode_wire_frame cd body (fd_maximum_body_bytes d) = Ok f"
  shows "feed_loop cd d (encode_varint (length body) @ body @ rest) frames = feed_loop cd d rest (frames @ [f])"
proof -
  let ?d = "d\<lparr>fd_prefix := encode_varint (length body), fd_body := [], fd_expected_body := Some (length body)\<rparr>"
  have "feed_loop cd d (encode_varint (length body) @ body @ rest) frames =
      feed_on cd frames (body_bytes cd ?d (body @ rest))"
    using feed_prefix[OF assms(4,5), of "encode_varint (length body)" cd "body @ rest" frames] assms(1,3) by simp
  also have "body_bytes cd ?d (body @ rest) = (d, rest, Ok [f])"
    using body_bytes_complete[of ?d "length body" body cd rest] assms by (cases d) simp
  finally show ?thesis by (simp add: feed_on_def)
qed

lemma feed_frame:
  assumes "codec_roundtrip cd" "decoded_frame_typed f" "encode_decoded cd f = Ok bytes"
  shows "feed_loop cd frame_decoder_new (bytes @ rest) frames =
    feed_loop cd frame_decoder_new rest (frames @ [f])"
proof -
  obtain body where b: "bytes = encode_varint (length body) @ body" "length body \<le> MAX_FRAME_BYTES"
    "\<And>m. decode_wire_frame cd body m = Ok f"
    using encode_decodes[OF assms] by blast
  then show ?thesis
    using feed_body_frame[of frame_decoder_new body cd f rest frames] by (simp add: frame_decoder_new_def)
qed

lemma feed_frames:
  "codec_roundtrip cd \<Longrightarrow>
    list_all2 (\<lambda>f bytes. decoded_frame_typed f \<and> encode_decoded cd f = Ok bytes) fs encs \<Longrightarrow>
    feed_loop cd frame_decoder_new (concat encs @ rest) frames =
      feed_loop cd frame_decoder_new rest (frames @ fs)"
proof (induction fs arbitrary: frames encs)
  case (Cons f fs)
  then obtain bytes encs' where e: "encs = bytes # encs'" "decoded_frame_typed f" "encode_decoded cd f = Ok bytes"
    "list_all2 (\<lambda>f bytes. decoded_frame_typed f \<and> encode_decoded cd f = Ok bytes) fs encs'"
    by (auto simp: list_all2_Cons1)
  show ?case
    using feed_frame[OF Cons.prems(1) e(2,3), of "concat encs' @ rest" frames] Cons.IH[OF Cons.prems(1) e(4)]
    by (simp add: e(1))
qed simp

lemma frame_decoder_new_wf [simp]: "decoder_wf frame_decoder_new"
  by (simp add: decoder_wf_def frame_decoder_new_def)

text \<open>C27: a stream of encoded frames decodes to these frames.  However the bytes are
  cut into chunks, the receiver obtains the frames in order and unchanged, and the
  stream ends on a frame boundary.\<close>

theorem stream_roundtrip:
  assumes "codec_roundtrip cd"
    "list_all2 (\<lambda>f bytes. decoded_frame_typed f \<and> encode_decoded cd f = Ok bytes) fs encs"
    "concat chunks = concat encs"
  shows "feed_chunks cd frame_decoder_new chunks = (frame_decoder_new, Ok fs) \<and>
    decoder_finish frame_decoder_new = Ok ()"
proof
  show "feed_chunks cd frame_decoder_new chunks = (frame_decoder_new, Ok fs)"
    using feed_frames[OF assms(1,2), of "[]" "[]"] assms(3)
    by (simp add: feed_chunks_concat decoder_feed_def)
  show "decoder_finish frame_decoder_new = Ok ()"
    by (simp add: decoder_finish_def frame_decoder_new_def)
qed

text \<open>A string of two parts, cut somewhere: the cut is in the first part, or it is not.\<close>

lemma append_cut:
  assumes "begun @ missing = first @ second"
  shows "(\<exists>q. first = begun @ q \<and> q \<noteq> []) \<or> (\<exists>q. begun = first @ q \<and> second = q @ missing)"
proof -
  obtain us where us: "begun = first @ us \<and> us @ missing = second \<or> begun @ us = first \<and> missing = us @ second"
    using assms unfolding append_eq_append_conv2 by blast
  show ?thesis
  proof (cases "us = []")
    case True
    then have "begun = first @ []" "second = [] @ missing" using us by auto
    then show ?thesis by blast
  next
    case False
    with us show ?thesis by blast
  qed
qed

text \<open>A stream that ends inside a frame is recognised.  When the bytes stop after a
  proper part of an encoded frame, the complete frames before it are delivered, no
  part of it is, and \<open>finish\<close> reports the truncation.\<close>

theorem truncation_detected:
  assumes "codec_roundtrip cd"
    "list_all2 (\<lambda>f bytes. decoded_frame_typed f \<and> encode_decoded cd f = Ok bytes) fs encs"
    "decoded_frame_typed g" "encode_decoded cd g = Ok (begun @ missing)" "begun \<noteq> []" "missing \<noteq> []"
    "concat chunks = concat encs @ begun"
  shows "\<exists>d. feed_chunks cd frame_decoder_new chunks = (d, Ok fs) \<and>
    decoder_finish d = Err ProtoTruncatedFrame"
proof -
  obtain body where b: "begun @ missing = encode_varint (length body) @ body"
    "length body \<le> MAX_FRAME_BYTES"
    using encode_decodes[OF assms(1,3,4)] by blast
  have fed: "feed_chunks cd frame_decoder_new chunks = feed_loop cd frame_decoder_new begun fs"
    using feed_frames[OF assms(1,2), of begun "[]"] assms(7)
    by (simp add: feed_chunks_concat decoder_feed_def)
  consider (part) q where "encode_varint (length body) = begun @ q" "q \<noteq> []"
    | (whole) q where "begun = encode_varint (length body) @ q" "body = q @ missing"
    using append_cut[OF b(1)] by blast
  then show ?thesis
  proof cases
    case part
    then show ?thesis
      using fed b(2) assms(5) feed_prefix_part[of "length body" frame_decoder_new begun q cd fs]
      by (simp add: frame_decoder_new_def decoder_finish_def)
  next
    case whole
    let ?d = "frame_decoder_new\<lparr>fd_prefix := encode_varint (length body), fd_body := [],
      fd_expected_body := Some (length body)\<rparr>"
    have "feed_loop cd frame_decoder_new begun fs = feed_on cd fs (body_bytes cd ?d q)"
      using b(2) feed_prefix[of "length body" frame_decoder_new "encode_varint (length body)" cd q fs]
      by (simp add: whole(1) frame_decoder_new_def)
    also have "body_bytes cd ?d q = (?d\<lparr>fd_body := q\<rparr>, [], Ok [])"
      using body_bytes_partial[of ?d "length body" q cd] whole(2) assms(6) by simp
    finally show ?thesis using fed by (simp add: feed_on_def decoder_finish_def)
  qed
qed

subsection \<open>A concrete codec\<close>

text \<open>A fixed-width codec, to show that the hypotheses on the generated code can hold.\<close>

definition nat_of_be :: "byte list \<Rightarrow> nat" where
  "nat_of_be bs = foldl (\<lambda>n b. n * 256 + unat b) 0 bs"

lemma nat_of_be_bytes: "v < 256 ^ n \<Longrightarrow> nat_of_be (be_bytes n v) = v"
proof (induction n arbitrary: v)
  case 0
  then show ?case by (simp add: nat_of_be_def)
next
  case (Suc n)
  have "unat (word_of_nat v :: byte) = v mod 256" by (simp add: unat_of_nat)
  moreover have "v div 256 < 256 ^ n" using Suc.prems by (intro less_mult_imp_div_less) simp
  ultimately show ?case using Suc.IH[of "v div 256"] by (simp add: nat_of_be_def)
qed

definition demo_codec :: "unit wire_codec" where
  "demo_codec = \<lparr>
    encode_frame = \<lambda>w. be_bytes 4 (wf_wire_major w) @ be_bytes 4 (wf_kind w) @
      be_bytes 8 (wf_request_id w) @ be_bytes 4 (wf_deadline_ms w) @
      be_bytes 4 (wf_payload_encoding w) @ wf_payload w,
    decode_frame = \<lambda>bs. if length bs < 24 then None
      else Some \<lparr>wf_wire_major = nat_of_be (take 4 bs), wf_kind = nat_of_be (take 4 (drop 4 bs)),
        wf_payload = drop 24 bs, wf_request_id = nat_of_be (take 8 (drop 8 bs)),
        wf_deadline_ms = nat_of_be (take 4 (drop 16 bs)),
        wf_payload_encoding = nat_of_be (take 4 (drop 20 bs))\<rparr>,
    inflate_init = (),
    inflate_step = \<lambda>_ bs. Some ((), length bs, bs, True)\<rparr>"

lemma demo_codec_ok: "codec_roundtrip demo_codec" "codec_copies demo_codec"
  by (auto simp: codec_roundtrip_def codec_copies_def demo_codec_def wire_frame_typed_def
      nat_of_be_bytes)

definition demo_frame :: decoded_frame where
  "demo_frame = \<lparr>df_kind = TerminalInput, df_request_id = 7, df_deadline_ms = 0, df_payload = [104, 105]\<rparr>"

definition demo_bytes :: "byte list" where
  "demo_bytes = [26, 0,0,0,2, 0,0,1,47, 0,0,0,0,0,0,0,7, 0,0,0,0, 0,0,0,0, 104,105]"

lemma be_bytes_numeral:
  "be_bytes (numeral k) v = be_bytes (pred_numeral k) (v div 256) @ [word_of_nat v]"
  by (simp only: numeral_eq_Suc[of k] be_bytes.simps)

lemma demo_frame_encodes:
  "decoded_frame_typed demo_frame" "encode_decoded demo_codec demo_frame = Ok demo_bytes"
proof -
  show "decoded_frame_typed demo_frame" by (simp add: decoded_frame_typed_def demo_frame_def)
  have "encode_frame demo_codec \<lparr>wf_wire_major = WIRE_MAJOR, wf_kind = wire_kind_number TerminalInput,
      wf_payload = [104, 105], wf_request_id = 7, wf_deadline_ms = 0, wf_payload_encoding = 0\<rparr> = tl demo_bytes"
    by (simp add: demo_codec_def demo_bytes_def WIRE_MAJOR_def be_bytes_numeral)
  moreover have "encode_varint 26 = [26]" by (subst encode_varint.simps) simp
  moreover have "length (tl demo_bytes) = 26" "[26] @ tl demo_bytes = demo_bytes"
    by (simp_all add: demo_bytes_def)
  ultimately show "encode_decoded demo_codec demo_frame = Ok demo_bytes"
    by (simp del: length_tl wire_kind_number.simps add: encode_decoded_def encode_payload_def demo_frame_def
        validate_payload_limit_def is_control_kind_def max_control_payload_bytes_def
        is_pair_hello_def MAX_CONTROL_PAYLOAD_BYTES_def MAX_FRAME_BYTES_def)
qed

theorem stream_roundtrip_witness:
  "feed_chunks demo_codec frame_decoder_new [take 10 demo_bytes, drop 10 demo_bytes @ take 1 demo_bytes, drop 1 demo_bytes] =
    (frame_decoder_new, Ok [demo_frame, demo_frame])"
proof -
  have "concat [take 10 demo_bytes, drop 10 demo_bytes @ take 1 demo_bytes, drop 1 demo_bytes] =
      concat [demo_bytes, demo_bytes]" by (simp add: demo_bytes_def)
  from stream_roundtrip[OF demo_codec_ok(1) _ this, of "[demo_frame, demo_frame]"] demo_frame_encodes
  show ?thesis by (simp del: feed_chunks.simps)
qed

theorem truncation_detected_witness:
  "\<exists>d. feed_chunks demo_codec frame_decoder_new [demo_bytes @ take 5 demo_bytes] = (d, Ok [demo_frame]) \<and>
    decoder_finish d = Err ProtoTruncatedFrame"
proof -
  have "take 5 demo_bytes \<noteq> []" "drop 5 demo_bytes \<noteq> []" by (simp_all add: demo_bytes_def)
  with truncation_detected[OF demo_codec_ok(1), of "[demo_frame]" "[demo_bytes]" demo_frame
      "take 5 demo_bytes" "drop 5 demo_bytes" "[demo_bytes @ take 5 demo_bytes]"] demo_frame_encodes
  show ?thesis by (simp del: feed_chunks.simps take_eq_Nil drop_eq_Nil)
qed

subsection \<open>Memory of a decoder\<close>

lemma inflate_bounded: "inflate_loop cd maximum z input out = Ok result \<Longrightarrow> length result \<le> maximum"
proof (induction "length input + (maximum - length out)" arbitrary: z input out rule: less_induct)
  case less
  note loop = less.prems[unfolded inflate_loop.simps[of cd maximum z input out]]
  obtain z' taken written stream_end where step: "inflate_step cd z input = Some (z', taken, written, stream_end)"
    using loop by (auto split: option.splits)
  let ?n = "min taken (length input)"
  have fits: "length out + length written \<le> maximum"
    using loop step by (auto simp: Let_def split: if_splits)
  show ?case
  proof (cases stream_end)
    case True
    then show ?thesis using loop step fits by (auto simp: Let_def split: if_splits)
  next
    case False
    then have "\<not> (?n = 0 \<and> written = [])" "inflate_loop cd maximum z' (drop ?n input) (out @ written) = Ok result"
      using loop step fits by (auto simp: Let_def split: if_splits)
    moreover from this(1) have "length (drop ?n input) + (maximum - length (out @ written)) <
        length input + (maximum - length out)"
      using fits by (auto simp: min_def neq_Nil_conv)
    ultimately show ?thesis using less.hyps by blast
  qed
qed

lemma decode_wire_frame_bounded:
  assumes "codec_copies cd" "decode_wire_frame cd body m = Ok f" "length body \<le> m"
  shows "length (df_payload f) \<le> m \<and>
    (is_control_kind (df_kind f) \<longrightarrow> length (df_payload f) \<le> max_control_payload_bytes (df_kind f))"
proof -
  obtain wire kind w' where w: "decode_frame cd body = Some wire" "decode_payload cd wire kind m = Ok w'"
    "validate_payload_limit kind (length (wf_payload w')) = Ok ()" "df_kind f = kind" "df_payload f = wf_payload w'"
    using assms(2) by (auto simp: decode_wire_frame_def split: option.splits if_splits)
  have "length (wf_payload wire) \<le> length body" using assms(1) w(1) by (simp add: codec_copies_def)
  then have "length (wf_payload w') \<le> m"
    using w(2) assms(3) inflate_bounded
    by (auto simp: decode_payload_def Let_def split: if_splits)
  then show ?thesis using w(3-5) by (auto simp: validate_payload_limit_def split: if_splits)
qed

lemma feed_round_frames:
  assumes "codec_copies cd" "decoder_wf d" "feed_round cd d b [] = (d', input, Ok fs)" "f \<in> set fs"
  shows "length (df_payload f) \<le> fd_maximum_body_bytes d \<and>
    (is_control_kind (df_kind f) \<longrightarrow> length (df_payload f) \<le> max_control_payload_bytes (df_kind f))"
proof -
  obtain body where "decode_wire_frame cd body (fd_maximum_body_bytes d) = Ok f"
    "length body \<le> fd_maximum_body_bytes d"
    using assms(2-4)
    by (auto simp: decoder_wf_def feed_round_def prefix_byte_def body_bytes_def Let_def
        split: if_splits result.splits prod.splits option.splits)
  then show ?thesis using decode_wire_frame_bounded[OF assms(1)] by blast
qed

lemma feed_frames_bounded:
  "codec_copies cd \<Longrightarrow> decoder_wf d \<Longrightarrow> decoder_feed cd d input = (d', Ok fs) \<Longrightarrow> f \<in> set fs \<Longrightarrow>
    length (df_payload f) \<le> fd_maximum_body_bytes d \<and>
    (is_control_kind (df_kind f) \<longrightarrow> length (df_payload f) \<le> max_control_payload_bytes (df_kind f))"
proof (induction input arbitrary: d fs)
  case (Cons b bs)
  obtain d1 rest r where r: "feed_round cd d b [] = (d1, rest, r)" by (rule prod_cases3)
  with Cons.prems obtain gs where gs: "r = Ok gs"
    using feed_round_one[OF Cons.prems(2), of cd b bs "[]"] by (cases r) (auto simp: decoder_feed_def)
  note wf = feed_round_wf[OF Cons.prems(2) r[unfolded gs]]
  obtain hs where hs: "decoder_feed cd d1 bs = (d', Ok hs)" "fs = gs @ hs"
    using Cons.prems(3) feed_loop_one[OF Cons.prems(2) r[unfolded gs], of bs]
    by (auto simp: decoder_feed_def split: prod.splits result.splits)
  show ?case
  proof (cases "f \<in> set gs")
    case True
    then show ?thesis using feed_round_frames[OF Cons.prems(1,2) r[unfolded gs]] by blast
  next
    case False
    then show ?thesis using Cons.IH[OF Cons.prems(1) _ hs(1)] wf hs(2) Cons.prems(4) by auto
  qed
qed (simp add: decoder_feed_def)

text \<open>C28: the decoder's memory and what it delivers are bounded by the configured body
  limit, also for compressed payloads, as long as nothing was rejected: it never buffers
  more than one length prefix and one body, no delivered payload is longer than the
  limit, and control payloads obey the bound of their kind.\<close>

theorem decoder_bounds:
  assumes "codec_copies cd" "feed_chunks cd (with_maximum_body_bytes m) chunks = (d, Ok fs)"
  shows "buffered_len d \<le> MAX_VARINT_BYTES + min m MAX_FRAME_BYTES \<and>
    (\<forall>f \<in> set fs. length (df_payload f) \<le> min m MAX_FRAME_BYTES \<and>
      (is_control_kind (df_kind f) \<longrightarrow> length (df_payload f) \<le> max_control_payload_bytes (df_kind f)))"
proof -
  have fed: "decoder_feed cd (with_maximum_body_bytes m) (concat chunks) = (d, Ok fs)"
    using assms(2) by (simp add: feed_chunks_concat)
  have limit: "fd_maximum_body_bytes (with_maximum_body_bytes m) = min m MAX_FRAME_BYTES"
    by (simp add: with_maximum_body_bytes_def)
  have "decoder_wf d" "fd_maximum_body_bytes d = min m MAX_FRAME_BYTES"
    using decoder_wf_feed[OF _ fed] limit by simp_all
  then have "buffered_len d \<le> MAX_VARINT_BYTES + min m MAX_FRAME_BYTES"
    by (auto simp: decoder_wf_def buffered_len_def split: option.splits)
  then show ?thesis
    using feed_frames_bounded[OF assms(1) decoder_wf_fresh fed] limit by auto
qed

theorem decoder_bounds_witness:
  "feed_chunks demo_codec (with_maximum_body_bytes MAX_FRAME_BYTES) [demo_bytes] =
      (frame_decoder_new, Ok [demo_frame]) \<and>
    length (df_payload demo_frame) \<le> min MAX_FRAME_BYTES MAX_FRAME_BYTES"
proof -
  have "with_maximum_body_bytes MAX_FRAME_BYTES = frame_decoder_new"
    by (simp add: with_maximum_body_bytes_def frame_decoder_new_def)
  then have fed: "feed_chunks demo_codec (with_maximum_body_bytes MAX_FRAME_BYTES) [demo_bytes] =
      (frame_decoder_new, Ok [demo_frame])"
    using feed_frames[OF demo_codec_ok(1), of "[demo_frame]" "[demo_bytes]" "[]" "[]"] demo_frame_encodes
    by (simp add: decoder_feed_def)
  from fed decoder_bounds[OF demo_codec_ok(2) fed] show ?thesis by (simp del: feed_chunks.simps)
qed

end
