(* ===== verification/Pair_Framing.thy ===== *)
theory Pair_Framing
  imports Wire_Framing Domain_Errors
begin

section \<open>Framing of a pairing handshake\<close>

text \<open>
  \<open>client/src/pair_framing.rs\<close>: the reader and writer of one short-lived pairing
  handshake.  Both directions draw from one byte budget; the frames that arrive
  together stay queued until they are asked for.

  The stream is a parameter: \<open>read r n\<close> is the outcome of a read of at most \<open>n\<close> bytes
  within the deadline, with the stream state \<open>r\<close> threaded through; an empty answer is
  the end of the stream.  The current time is an argument.  A \<open>ClientError\<close> is
  modelled by its kind.
\<close>

definition READ_BUFFER_BYTES :: nat where "READ_BUFFER_BYTES = 4 * 1024"

record pair_framing =
  pf_decoder :: "frame_decoder option"
  pf_queued :: "decoded_frame list"
  pf_budget :: pair_handshake_budget
  pf_total_deadline :: nat
  pf_reached_eof :: bool

definition handshake_budget_error :: "pair_handshake_budget_error \<Rightarrow> domain_error_kind" where
  "handshake_budget_error e = ResourceExhausted"

definition unexpected_eof :: domain_error_kind where "unexpected_eof = MalformedFrame"
definition deadline_error :: domain_error_kind where "deadline_error = DeadlineExceeded"

fun protocol_error_kind :: "protocol_error \<Rightarrow> domain_error_kind" where
  "protocol_error_kind (ProtoWireMajorMismatch expected actual) = WireMajorMismatch"
| "protocol_error_kind (ProtoUnknownKind k) = UnknownKind"
| "protocol_error_kind (ProtoFrameTooLarge n) = FrameTooLarge"
| "protocol_error_kind (ProtoControlPayloadTooLarge n) = ControlPayloadTooLarge"
| "protocol_error_kind e = MalformedFrame"

definition pair_framing_new :: "nat \<Rightarrow> nat \<Rightarrow> nat \<Rightarrow> (pair_framing, domain_error_kind) result" where
  "pair_framing_new maximum_frame_body_bytes maximum_handshake_bytes total_deadline =
    (if maximum_frame_body_bytes = 0 \<or> maximum_frame_body_bytes > MAX_PAIR_HELLO_FRAME_BYTES
     then Err ResourceExhausted
     else res_bind (map_err handshake_budget_error (budget_with_maximum maximum_handshake_bytes)) (\<lambda>budget.
       Ok \<lparr>pf_decoder = Some (with_maximum_body_bytes maximum_frame_body_bytes), pf_queued = [],
           pf_budget = budget, pf_total_deadline = total_deadline, pf_reached_eof = False\<rparr>))"

definition used_bytes :: "pair_framing \<Rightarrow> nat" where
  "used_bytes fr = budget_used (pf_budget fr)"

definition validate_pair_kind :: "wire_kind \<Rightarrow> (unit, domain_error_kind) result" where
  "validate_pair_kind k =
    ensure (k \<in> {PairBegin, PairChallenge, PairProof, PairAccepted}) MalformedFrame"

definition validate_metadata :: "decoded_frame \<Rightarrow> (unit, domain_error_kind) result" where
  "validate_metadata f =
    (if df_request_id f \<noteq> 0 \<or> df_deadline_ms f \<noteq> 0 then Err MalformedFrame else Ok ())"

definition effective_deadline :: "pair_framing \<Rightarrow> nat \<Rightarrow> nat \<Rightarrow> (nat, domain_error_kind) result" where
  "effective_deadline fr now operation_deadline =
    (let deadline = min (pf_total_deadline fr) operation_deadline in
     if now \<ge> deadline then Err deadline_error else Ok deadline)"

text \<open>The read loop of \<open>next_frame\<close>.  Every round charges the bytes it read to the
  budget, so the loop ends.\<close>

lemma budget_record_shrinks:
  "budget_record b n = (b', Ok ()) \<Longrightarrow> n \<noteq> 0 \<Longrightarrow> budget_remaining b' < budget_remaining b"
  by (auto simp: budget_record_def budget_remaining_def split: option.splits if_splits)

function read_loop :: "'z wire_codec \<Rightarrow> ('r \<Rightarrow> nat \<Rightarrow> 'r \<times> (byte list, domain_error_kind) result) \<Rightarrow>
    pair_framing \<Rightarrow> 'r \<Rightarrow> pair_framing \<times> 'r \<times> (decoded_frame, domain_error_kind) result" where
  "read_loop cd read fr r =
    (let allowed = min (budget_remaining (pf_budget fr)) READ_BUFFER_BYTES in
     if allowed = 0 then (fr, r, Err ResourceExhausted)
     else case read r allowed of
       (r, Err k) \<Rightarrow> (fr, r, Err k)
     | (r, Ok bytes) \<Rightarrow>
         let bytes = take allowed bytes in
         if bytes = [] then
           let fr = fr\<lparr>pf_reached_eof := True\<rparr> in
           (case pf_decoder fr of
              None \<Rightarrow> (fr, r, Err unexpected_eof)
            | Some d \<Rightarrow> (fr\<lparr>pf_decoder := None\<rparr>, r,
                res_bind (map_err protocol_error_kind (decoder_finish d)) (\<lambda>_. Err unexpected_eof)))
         else case budget_record (pf_budget fr) (length bytes) of
           (_, Err e) \<Rightarrow> (fr, r, Err (handshake_budget_error e))
         | (b, Ok _) \<Rightarrow>
             let fr = fr\<lparr>pf_budget := b\<rparr> in
             (case pf_decoder fr of
                None \<Rightarrow> (fr, r, Err unexpected_eof)
              | Some d \<Rightarrow>
                  (case decoder_feed cd d bytes of
                     (d, Err e) \<Rightarrow> (fr\<lparr>pf_decoder := Some d\<rparr>, r, Err (protocol_error_kind e))
                   | (d, Ok decoded) \<Rightarrow>
                       let fr = fr\<lparr>pf_decoder := Some d\<rparr> in
                       (case pf_queued fr @ decoded of
                          frame # rest \<Rightarrow> (fr\<lparr>pf_queued := rest\<rparr>, r, Ok frame)
                        | [] \<Rightarrow> read_loop cd read (fr\<lparr>pf_queued := []\<rparr>) r))))"
  by pat_completeness auto

termination
  by (relation "measure (\<lambda>(cd, read, fr, r). budget_remaining (pf_budget fr))")
    (auto intro: budget_record_shrinks[OF sym])

declare read_loop.simps [simp del]

definition next_frame :: "'z wire_codec \<Rightarrow> ('r \<Rightarrow> nat \<Rightarrow> 'r \<times> (byte list, domain_error_kind) result) \<Rightarrow>
    pair_framing \<Rightarrow> 'r \<Rightarrow> pair_framing \<times> 'r \<times> (decoded_frame, domain_error_kind) result" where
  "next_frame cd read fr r =
    (case pf_queued fr of
       frame # rest \<Rightarrow> (fr\<lparr>pf_queued := rest\<rparr>, r, Ok frame)
     | [] \<Rightarrow> if pf_reached_eof fr then (fr, r, Err unexpected_eof) else read_loop cd read fr r)"

definition read_message :: "'z wire_codec \<Rightarrow> ('r \<Rightarrow> nat \<Rightarrow> 'r \<times> (byte list, domain_error_kind) result) \<Rightarrow>
    (byte list \<Rightarrow> 'm option) \<Rightarrow> pair_framing \<Rightarrow> 'r \<Rightarrow> nat \<Rightarrow> wire_kind \<Rightarrow> nat \<Rightarrow>
    pair_framing \<times> 'r \<times> ('m, domain_error_kind) result" where
  "read_message cd read decode fr r now expected frame_deadline =
    (case res_bind (validate_pair_kind expected) (\<lambda>_. effective_deadline fr now frame_deadline) of
       Err k \<Rightarrow> (fr, r, Err k)
     | Ok _ \<Rightarrow>
         (case next_frame cd read fr r of
            (fr, r, Err k) \<Rightarrow> (fr, r, Err k)
          | (fr, r, Ok frame) \<Rightarrow> (fr, r, res_bind (validate_metadata frame) (\<lambda>_.
              map_err protocol_error_kind (decode_message decode frame expected)))))"

text \<open>\<open>write r bytes\<close> is the outcome of the timed \<open>write_all\<close> of the encoded frame, whose
  payload is the prost encoding of the message.\<close>

definition write_message :: "'z wire_codec \<Rightarrow> ('r \<Rightarrow> byte list \<Rightarrow> 'r \<times> (unit, domain_error_kind) result) \<Rightarrow>
    pair_framing \<Rightarrow> 'r \<Rightarrow> nat \<Rightarrow> wire_kind \<Rightarrow> byte list \<Rightarrow> nat \<Rightarrow>
    pair_framing \<times> 'r \<times> (unit, domain_error_kind) result" where
  "write_message cd write fr r now kind payload deadline =
    (case res_bind (validate_pair_kind kind) (\<lambda>_.
          res_bind (effective_deadline fr now deadline) (\<lambda>_.
          map_err protocol_error_kind (encode_payload cd kind 0 0 payload))) of
       Err k \<Rightarrow> (fr, r, Err k)
     | Ok bytes \<Rightarrow>
         (case budget_record (pf_budget fr) (length bytes) of
            (_, Err e) \<Rightarrow> (fr, r, Err (handshake_budget_error e))
          | (b, Ok _) \<Rightarrow> (fr\<lparr>pf_budget := b\<rparr>, write r bytes)))"

definition framing_shutdown :: "('r \<Rightarrow> 'r \<times> (unit, domain_error_kind) result) \<Rightarrow> pair_framing \<Rightarrow> 'r \<Rightarrow>
    nat \<Rightarrow> nat \<Rightarrow> 'r \<times> (unit, domain_error_kind) result" where
  "framing_shutdown shutdown fr r now deadline =
    (case effective_deadline fr now deadline of Err k \<Rightarrow> (r, Err k) | Ok _ \<Rightarrow> shutdown r)"

subsection \<open>Messages arrive in order, within the budget\<close>

text \<open>A stream that delivers the bytes \<open>pending r\<close> piece by piece, in pieces of its own
  choice, and then ends.\<close>

definition byte_source :: "('r \<Rightarrow> nat \<Rightarrow> 'r \<times> (byte list, domain_error_kind) result) \<Rightarrow>
    ('r \<Rightarrow> byte list) \<Rightarrow> bool" where
  "byte_source read pending \<longleftrightarrow>
    (\<forall>r n. 0 < n \<longrightarrow> (\<exists>r' bs. read r n = (r', Ok bs) \<and> length bs \<le> n \<and>
      pending r = bs @ pending r' \<and> (bs = [] \<longrightarrow> pending r = [])))"

primrec read_frames :: "'z wire_codec \<Rightarrow> ('r \<Rightarrow> nat \<Rightarrow> 'r \<times> (byte list, domain_error_kind) result) \<Rightarrow>
    pair_framing \<Rightarrow> 'r \<Rightarrow> nat \<Rightarrow> pair_framing \<times> 'r \<times> (decoded_frame, domain_error_kind) result list" where
  "read_frames cd read fr r 0 = (fr, r, [])"
| "read_frames cd read fr r (Suc n) =
    (case next_frame cd read fr r of (fr, r, x) \<Rightarrow>
     (case read_frames cd read fr r n of (fr, r, xs) \<Rightarrow> (fr, r, x # xs)))"

definition budget_ok :: "pair_handshake_budget \<Rightarrow> bool" where
  "budget_ok b \<longleftrightarrow> budget_used b \<le> budget_maximum b \<and> budget_maximum b \<le> U64_MAX"

text \<open>What is still to be delivered: the queue, then what the rest of the stream
  decodes to.\<close>

definition will_deliver :: "'z wire_codec \<Rightarrow> ('r \<Rightarrow> byte list) \<Rightarrow> pair_framing \<Rightarrow> 'r \<Rightarrow> decoded_frame list \<Rightarrow> bool" where
  "will_deliver cd pending fr r fs \<longleftrightarrow> \<not> pf_reached_eof fr \<and> budget_ok (pf_budget fr) \<and>
    length (pending r) \<le> budget_remaining (pf_budget fr) \<and>
    (\<exists>d d' gs. pf_decoder fr = Some d \<and> decoder_wf d \<and>
       decoder_feed cd d (pending r) = (d', Ok gs) \<and> fs = pf_queued fr @ gs)"

lemma budget_record_fits:
  assumes "budget_ok b" "n \<le> budget_remaining b"
  shows "budget_record b n = (b\<lparr>budget_used := budget_used b + n\<rparr>, Ok ())"
    "budget_ok (b\<lparr>budget_used := budget_used b + n\<rparr>)"
    "budget_remaining (b\<lparr>budget_used := budget_used b + n\<rparr>) = budget_remaining b - n"
  using assms by (auto simp: budget_ok_def budget_remaining_def budget_record_def split: option.split)

lemma read_loop_delivers:
  assumes "byte_source read pending"
  shows "will_deliver cd pending fr r (f # fs) \<Longrightarrow> pf_queued fr = [] \<Longrightarrow>
    \<exists>fr' r'. read_loop cd read fr r = (fr', r', Ok f) \<and> will_deliver cd pending fr' r' fs"
proof (induction "length (pending r)" arbitrary: fr r rule: less_induct)
  case less
  obtain d d' where d: "pf_decoder fr = Some d" "decoder_wf d" "decoder_feed cd d (pending r) = (d', Ok (f # fs))"
    and fits: "length (pending r) \<le> budget_remaining (pf_budget fr)" "budget_ok (pf_budget fr)"
    and eof: "\<not> pf_reached_eof fr"
    using less.prems by (auto simp: will_deliver_def)
  have "pending r \<noteq> []" using d(3) by (auto simp: decoder_feed_def)
  define allowed where "allowed = min (budget_remaining (pf_budget fr)) READ_BUFFER_BYTES"
  have allowed: "0 < allowed" "allowed \<le> budget_remaining (pf_budget fr)"
    using \<open>pending r \<noteq> []\<close> fits(1) by (cases "pending r", auto simp: READ_BUFFER_BYTES_def allowed_def)
  then obtain r' bs where r: "read r allowed = (r', Ok bs)" "length bs \<le> allowed"
    "pending r = bs @ pending r'" "bs \<noteq> []"
    using assms \<open>pending r \<noteq> []\<close> unfolding byte_source_def by metis
  let ?b = "pf_budget fr\<lparr>budget_used := budget_used (pf_budget fr) + length bs\<rparr>"
  have b: "budget_record (pf_budget fr) (length bs) = (?b, Ok ())" "budget_ok ?b"
    "budget_remaining ?b = budget_remaining (pf_budget fr) - length bs"
    using budget_record_fits[OF fits(2), of "length bs"] r(2) allowed(2) by simp_all
  obtain d1 g1 g2 where g: "decoder_feed cd d bs = (d1, Ok g1)" "decoder_feed cd d1 (pending r') = (d', Ok g2)"
    "f # fs = g1 @ g2"
    using decoder_feed_append[OF d(2), of cd bs "pending r'"] d(3) r(3)
    by (auto split: prod.splits result.splits)
  have wf: "decoder_wf d1" using decoder_wf_feed[OF d(2) g(1)] by simp
  have left: "length (pending r') \<le> budget_remaining ?b" using fits(1) r(3) b(3) by simp
  let ?fr = "fr\<lparr>pf_budget := ?b, pf_decoder := Some d1\<rparr>"
  have step: "read_loop cd read fr r = (case g1 of
      frame # rest \<Rightarrow> (?fr\<lparr>pf_queued := rest\<rparr>, r', Ok frame)
    | [] \<Rightarrow> read_loop cd read (?fr\<lparr>pf_queued := []\<rparr>) r')"
    unfolding read_loop.simps[of cd read fr r] allowed_def[symmetric]
    using allowed(1) r(1,2,4) b(1) d(1) g(1) less.prems(2) by (simp add: Let_def)
  show ?case
  proof (cases g1)
    case Nil
    have "will_deliver cd pending (?fr\<lparr>pf_queued := []\<rparr>) r' (f # fs)"
      using Nil g wf left b(2) eof by (simp add: will_deliver_def)
    moreover have "length (pending r') < length (pending r)" using r(3,4) by simp
    ultimately show ?thesis using less.hyps[of r' "?fr\<lparr>pf_queued := []\<rparr>"] step Nil by simp
  next
    case (Cons frame rest)
    then have "frame = f" "fs = rest @ g2" using g(3) by simp_all
    then have "will_deliver cd pending (?fr\<lparr>pf_queued := rest\<rparr>) r' fs"
      using g(2) wf left b(2) eof by (simp add: will_deliver_def)
    then show ?thesis using step Cons \<open>frame = f\<close> by auto
  qed
qed

lemma next_frame_delivers:
  assumes "byte_source read pending" "will_deliver cd pending fr r (f # fs)"
  shows "\<exists>fr' r'. next_frame cd read fr r = (fr', r', Ok f) \<and> will_deliver cd pending fr' r' fs"
proof (cases "pf_queued fr")
  case Nil
  then show ?thesis
    using read_loop_delivers[OF assms(1,2)] assms(2) by (simp add: next_frame_def will_deliver_def)
next
  case (Cons frame rest)
  then show ?thesis using assms(2) by (auto simp: next_frame_def will_deliver_def)
qed

text \<open>The messages of a handshake arrive complete, unchanged and in order.  When
  the bytes of a stream decode to the frames \<open>fs\<close> and fit the handshake budget, then
  successive reads return exactly these frames, however the stream delivers its
  bytes.\<close>

theorem pair_frames_in_order:
  assumes "byte_source read pending" "pair_framing_new max_body max_bytes deadline = Ok fr"
    "decoder_feed cd (with_maximum_body_bytes max_body) (pending r) = (d, Ok fs)"
    "length (pending r) \<le> max_bytes" "max_bytes \<le> U64_MAX"
  shows "snd (snd (read_frames cd read fr r (length fs))) = map Ok fs"
proof -
  have "will_deliver cd pending fr r fs"
    using assms(2-5)
    by (auto simp: pair_framing_new_def budget_with_maximum_def will_deliver_def budget_ok_def
        budget_remaining_def split: if_splits)
  then show ?thesis
  proof (induction fs arbitrary: fr r)
    case (Cons f fs)
    obtain fr' r' where "next_frame cd read fr r = (fr', r', Ok f)" "will_deliver cd pending fr' r' fs"
      using next_frame_delivers[OF assms(1) Cons.prems] by blast
    then show ?case using Cons.IH by (simp add: split_beta)
  qed simp
qed

text \<open>A stream that delivers one byte per read.\<close>

definition one_byte_read :: "byte list \<Rightarrow> nat \<Rightarrow> byte list \<times> (byte list, domain_error_kind) result" where
  "one_byte_read r n = (tl r, Ok (take 1 r))"

lemma one_byte_source: "byte_source one_byte_read (\<lambda>r. r)"
  unfolding byte_source_def
proof (intro allI impI)
  fix r :: "byte list" and n :: nat
  assume "0 < n"
  then show "\<exists>r' bs. one_byte_read r n = (r', Ok bs) \<and> length bs \<le> n \<and> r = bs @ r' \<and> (bs = [] \<longrightarrow> r = [])"
    by (cases r) (simp_all add: one_byte_read_def)
qed

theorem pair_frames_in_order_witness:
  "\<exists>fr. pair_framing_new 100 1000 50 = Ok fr \<and>
    snd (snd (read_frames demo_codec one_byte_read fr (demo_bytes @ demo_bytes) 2)) = [Ok demo_frame, Ok demo_frame]"
proof -
  define fr where "fr = \<lparr>pf_decoder = Some (with_maximum_body_bytes 100), pf_queued = [],
    pf_budget = \<lparr>budget_used = 0, budget_maximum = 1000\<rparr>, pf_total_deadline = 50, pf_reached_eof = False\<rparr>"
  have fr: "pair_framing_new 100 1000 50 = Ok fr"
    by (simp add: pair_framing_new_def MAX_PAIR_HELLO_FRAME_BYTES_def budget_with_maximum_def fr_def)
  obtain body where body: "demo_bytes = encode_varint (length body) @ body" "length body \<le> MAX_FRAME_BYTES"
    "\<And>m. decode_wire_frame demo_codec body m = Ok demo_frame"
    using encode_decodes[OF demo_codec_ok(1) demo_frame_encodes] by blast
  have len: "length demo_bytes = 27" by (simp add: demo_bytes_def)
  then have small: "length body \<le> 27" using arg_cong[OF body(1), of length] unfolding length_append by linarith
  let ?d = "with_maximum_body_bytes 100"
  have d: "fd_prefix ?d = []" "fd_body ?d = []" "fd_expected_body ?d = None" "fd_maximum_body_bytes ?d = 100"
    by (simp_all add: with_maximum_body_bytes_def MAX_FRAME_BYTES_def)
  have one: "feed_loop demo_codec ?d (demo_bytes @ rest) frames = feed_loop demo_codec ?d rest (frames @ [demo_frame])"
    for rest frames
    unfolding body(1) append_assoc
    by (rule feed_body_frame) (use small body(2,3) in \<open>simp_all add: d\<close>)
  have "decoder_feed demo_codec ?d (demo_bytes @ demo_bytes) = (?d, Ok [demo_frame, demo_frame])"
    using one[of demo_bytes "[]"] one[of "[]" "[demo_frame]"] by (simp add: decoder_feed_def)
  note run = pair_frames_in_order[OF one_byte_source fr this]
  have "length (demo_bytes @ demo_bytes) \<le> 1000" "(1000 :: nat) \<le> U64_MAX" using len by simp_all
  note run = run[OF this]
  have "length [demo_frame, demo_frame] = 2" by simp
  with run have "snd (snd (read_frames demo_codec one_byte_read fr (demo_bytes @ demo_bytes) 2)) =
      [Ok demo_frame, Ok demo_frame]"
    by (simp only: list.map)
  with fr show ?thesis by blast
qed

end
