(* ===== verification/Transport.thy ===== *)
theory Transport
  imports Pair_Ticket Traces "HOL-Library.Product_Lexorder"
begin

section \<open>Transport limits, handshakes and candidate arbitration\<close>

text \<open>
  \<open>core/src/transport.rs\<close> (limits, hello and welcome, candidate keys) and the
  per-peer state of \<open>daemon/src/connection_broker.rs\<close> that needs no I/O: the
  candidate registry that arbitrates duplicate connections, the fence against
  delayed handshakes of retired connection owners, and the reference-counted
  transient routes.

  A candidate key is the pair of the authenticated initiator and the attempt
  identifier; pairs and byte lists are ordered lexicographically, which is the
  derived \<open>Ord\<close> of the Rust struct.
\<close>

subsection \<open>Limits\<close>

record transport_limits =
  max_remote_connections :: nat
  max_pending_dials :: nat
  max_pending_dials_per_endpoint :: nat
  max_unauthenticated_connections :: nat
  max_unauthenticated_per_endpoint :: nat
  max_pairing_handshakes :: nat
  max_pairing_per_endpoint :: nat
  max_bi_streams_per_connection :: nat
  max_stream_handlers_per_connection :: nat
  max_stream_handlers_global :: nat
  max_open_stream_queue_per_connection :: nat
  max_live_pair_offers :: nat
  max_ticket_text_bytes :: nat
  max_relay_hints :: nat
  max_relay_url_bytes :: nat
  max_pair_hello_frame_bytes :: nat
  max_pair_handshake_bytes :: nat
  first_frame_deadline :: nat
  pairing_total_deadline :: nat
  address_lookup_budget :: nat
  connect_attempt_budget :: nat

text \<open>Durations are counted in seconds.\<close>

definition default_transport_limits :: transport_limits where
  "default_transport_limits = \<lparr>
     max_remote_connections = 32,
     max_pending_dials = 16,
     max_pending_dials_per_endpoint = 1,
     max_unauthenticated_connections = 16,
     max_unauthenticated_per_endpoint = 2,
     max_pairing_handshakes = 8,
     max_pairing_per_endpoint = 1,
     max_bi_streams_per_connection = 32,
     max_stream_handlers_per_connection = 16,
     max_stream_handlers_global = 128,
     max_open_stream_queue_per_connection = 32,
     max_live_pair_offers = 16,
     max_ticket_text_bytes = MAX_TICKET_TEXT_BYTES,
     max_relay_hints = MAX_RELAY_HINTS,
     max_relay_url_bytes = 2048,
     max_pair_hello_frame_bytes = MAX_PAIR_HELLO_FRAME_BYTES,
     max_pair_handshake_bytes = MAX_PAIR_HANDSHAKE_BYTES,
     first_frame_deadline = 5,
     pairing_total_deadline = 15,
     address_lookup_budget = 2,
     connect_attempt_budget = 10\<rparr>"

datatype transport_limits_error = ZeroLimit string

definition limit_counts :: "transport_limits \<Rightarrow> (string \<times> nat) list" where
  "limit_counts l = [
     (''max_remote_connections'', max_remote_connections l),
     (''max_pending_dials'', max_pending_dials l),
     (''max_pending_dials_per_endpoint'', max_pending_dials_per_endpoint l),
     (''max_unauthenticated_connections'', max_unauthenticated_connections l),
     (''max_unauthenticated_per_endpoint'', max_unauthenticated_per_endpoint l),
     (''max_pairing_handshakes'', max_pairing_handshakes l),
     (''max_pairing_per_endpoint'', max_pairing_per_endpoint l),
     (''max_bi_streams_per_connection'', max_bi_streams_per_connection l),
     (''max_stream_handlers_per_connection'', max_stream_handlers_per_connection l),
     (''max_stream_handlers_global'', max_stream_handlers_global l),
     (''max_open_stream_queue_per_connection'', max_open_stream_queue_per_connection l),
     (''max_live_pair_offers'', max_live_pair_offers l),
     (''max_ticket_text_bytes'', max_ticket_text_bytes l),
     (''max_relay_hints'', max_relay_hints l),
     (''max_relay_url_bytes'', max_relay_url_bytes l),
     (''max_pair_hello_frame_bytes'', max_pair_hello_frame_bytes l),
     (''max_pair_handshake_bytes'', max_pair_handshake_bytes l)]"

definition limit_deadlines :: "transport_limits \<Rightarrow> (string \<times> nat) list" where
  "limit_deadlines l = [
     (''first_frame_deadline'', first_frame_deadline l),
     (''pairing_total_deadline'', pairing_total_deadline l),
     (''address_lookup_budget'', address_lookup_budget l),
     (''connect_attempt_budget'', connect_attempt_budget l)]"

definition transport_limits_validate :: "transport_limits \<Rightarrow> (unit, transport_limits_error) result" where
  "transport_limits_validate l =
    res_bind (try_each (\<lambda>(field, v). if v = 0 then Err (ZeroLimit field) else Ok ()) (limit_counts l))
      (\<lambda>_. try_each (\<lambda>(field, v). if v = 0 then Err (ZeroLimit field) else Ok ()) (limit_deadlines l))"

subsection \<open>Hello and welcome\<close>

datatype connection_error =
    InvalidAttemptId id_length_error
  | InvalidText pair_ticket_error
  | InvalidDisplay device_display_name_error
  | InvalidGeneration nat
  | InvalidWireRange nat nat
  | InvalidWireMajor nat
  | WelcomeZeroGeneration

record connection_hello =
  hello_min_wire_major :: nat
  hello_max_wire_major :: nat
  hello_capabilities :: capabilities
  hello_attempt_id :: connection_attempt_id
  hello_display :: rust_str
  hello_build :: rust_str
  hello_platform :: rust_str
  hello_incarnation :: "connection_incarnation option"

definition connection_hello_new :: "nat \<Rightarrow> nat \<Rightarrow> capabilities \<Rightarrow> connection_attempt_id \<Rightarrow>
    rust_str \<Rightarrow> rust_str \<Rightarrow> rust_str \<Rightarrow> (connection_hello, connection_error) result" where
  "connection_hello_new min_major max_major caps attempt display build platform =
    (if min_major = 0 \<or> min_major > max_major then Err (InvalidWireRange min_major max_major)
     else res_bind (map_err InvalidDisplay (device_display_name_new display)) (\<lambda>display.
       res_bind (try_each (\<lambda>text. map_err InvalidText (validate_device_name text)) [build, platform])
       (\<lambda>_. Ok \<lparr>hello_min_wire_major = min_major, hello_max_wire_major = max_major,
          hello_capabilities = caps, hello_attempt_id = attempt, hello_display = display,
          hello_build = build, hello_platform = platform, hello_incarnation = None\<rparr>)))"

definition hello_with_incarnation ::
    "connection_hello \<Rightarrow> connection_incarnation option \<Rightarrow> connection_hello" where
  "hello_with_incarnation h i = h\<lparr>hello_incarnation := i\<rparr>"

record connection_welcome =
  welcome_wire_major :: nat
  welcome_capabilities :: capabilities
  welcome_display :: rust_str
  welcome_build :: rust_str
  welcome_platform :: rust_str
  welcome_generation :: auth_generation
  welcome_incarnation :: "connection_incarnation option"

definition connection_welcome_new :: "nat \<Rightarrow> capabilities \<Rightarrow> rust_str \<Rightarrow> rust_str \<Rightarrow> rust_str \<Rightarrow>
    auth_generation \<Rightarrow> (connection_welcome, connection_error) result" where
  "connection_welcome_new major caps display build platform gen =
    (if major = 0 then Err (InvalidWireMajor major)
     else if gen = 0 then Err WelcomeZeroGeneration
     else res_bind (map_err InvalidDisplay (device_display_name_new display)) (\<lambda>display.
       res_bind (try_each (\<lambda>text. map_err InvalidText (validate_device_name text)) [build, platform])
       (\<lambda>_. Ok \<lparr>welcome_wire_major = major, welcome_capabilities = caps, welcome_display = display,
          welcome_build = build, welcome_platform = platform, welcome_generation = gen,
          welcome_incarnation = None\<rparr>)))"

definition welcome_with_incarnation ::
    "connection_welcome \<Rightarrow> connection_incarnation option \<Rightarrow> connection_welcome" where
  "welcome_with_incarnation w i = w\<lparr>welcome_incarnation := i\<rparr>"

subsection \<open>Candidates\<close>

type_synonym candidate_key = "device_id \<times> connection_attempt_id"

definition designated_primary :: "candidate_key list \<Rightarrow> candidate_key option" where
  "designated_primary keys = (case keys of [] \<Rightarrow> None | k # ks \<Rightarrow> Some (fold min ks k))"

record 'c candidate_registry =
  cands :: "(candidate_key, 'c) bmap"
  primary :: "candidate_key option"

datatype 'c candidate_decision = Promoted "'c list" | Lost 'c | Wait | Missing

definition registry_empty :: "'c candidate_registry" where
  "registry_empty = \<lparr>cands = [], primary = None\<rparr>"

definition register :: "'c candidate_registry \<Rightarrow> candidate_key \<Rightarrow> 'c \<Rightarrow>
    'c candidate_registry \<times> (unit, 'c) result" where
  "register r key v =
    (if bt_contains (cands r) key then (r, Err v)
     else (r\<lparr>cands := bt_insert key v (cands r)\<rparr>, Ok ()))"

definition remove_entry :: "'c candidate_registry \<Rightarrow> candidate_key \<Rightarrow> 'c candidate_registry \<times> 'c option" where
  "remove_entry r key = (r\<lparr>cands := bt_remove key (cands r)\<rparr>, bt_get (cands r) key)"

definition remove_candidate :: "'c candidate_registry \<Rightarrow> candidate_key \<Rightarrow> 'c candidate_registry \<times> 'c option" where
  "remove_candidate r key =
    (let r' = (if primary r = Some key then r\<lparr>primary := None\<rparr> else r) in remove_entry r' key)"

text \<open>The loop over the losing keys; every removal that finds an entry yields it.\<close>

primrec remove_losers :: "'c candidate_registry \<Rightarrow> candidate_key list \<Rightarrow> 'c candidate_registry \<times> 'c list" where
  "remove_losers r [] = (r, [])"
| "remove_losers r (k # ks) =
    (let (r', v) = remove_entry r k; (r'', vs) = remove_losers r' ks
     in (r'', (case v of None \<Rightarrow> vs | Some x \<Rightarrow> x # vs)))"

definition mark_ready_and_decide :: "'c candidate_registry \<Rightarrow> candidate_key \<Rightarrow>
    'c candidate_registry \<times> 'c candidate_decision" where
  "mark_ready_and_decide r key =
    (if \<not> bt_contains (cands r) key then (r, Missing)
     else if (case primary r of None \<Rightarrow> False | Some p \<Rightarrow> p < key) then
       (let (r', v) = remove_candidate r key
        in (r', (case v of None \<Rightarrow> Missing | Some x \<Rightarrow> Lost x)))
     else if designated_primary (map fst (cands r)) \<noteq> Some key then (r, Wait)
     else
       let r' = r\<lparr>primary := Some key\<rparr>;
           loser_keys = filter (\<lambda>k. k \<noteq> key) (map fst (cands r'));
           (r'', losers) = remove_losers r' loser_keys
       in (r'', Promoted losers))"

definition take_all :: "'c candidate_registry \<Rightarrow> 'c candidate_registry \<times> 'c list" where
  "take_all r = (r\<lparr>primary := None, cands := []\<rparr>, map snd (cands r))"

subsection \<open>Retired connection owners\<close>

record peer_incarnation =
  current :: "connection_incarnation option"
  retired :: "(connection_incarnation \<times> nat) list"

text \<open>Instants and durations are counted in the same unit; \<open>now + handshake_window\<close>
  is within the range of \<open>Instant\<close>.\<close>

definition observe :: "peer_incarnation \<Rightarrow> connection_incarnation \<Rightarrow> nat \<Rightarrow> nat \<Rightarrow> nat \<Rightarrow>
    peer_incarnation \<times> (bool, domain_error_kind) result" where
  "observe p incarnation now handshake_window maximum =
    (let p = p\<lparr>retired := filter (\<lambda>(_, deadline). deadline > now) (retired p)\<rparr> in
     if current p = Some incarnation then (p, Ok False)
     else if list_ex (\<lambda>(r, _). r = incarnation) (retired p) then (p, Err TransportUnavailable)
     else case current p of
       None \<Rightarrow> (p\<lparr>current := Some incarnation\<rparr>, Ok True)
     | Some previous \<Rightarrow>
         if length (retired p) \<ge> maximum then (p, Err ResourceExhausted)
         else (p\<lparr>retired := retired p @ [(previous, now + handshake_window)],
                 current := Some incarnation\<rparr>, Ok True))"

subsection \<open>Transient routes\<close>

type_synonym route_leases = "(rust_str \<times> nat) list"

primrec unique_routes :: "rust_str list \<Rightarrow> rust_str list \<Rightarrow> rust_str list" where
  "unique_routes seen [] = []"
| "unique_routes seen (r # rs) =
    (if r \<in> set seen then unique_routes seen rs else r # unique_routes (r # seen) rs)"

text \<open>The first lease of the route, if any, is incremented; otherwise a new lease is
  appended.  The increment was checked for the whole list before the loop.\<close>

primrec bump_route :: "rust_str \<Rightarrow> route_leases \<Rightarrow> route_leases" where
  "bump_route r [] = [(r, 1)]"
| "bump_route r (p # ps) = (if fst p = r then (fst p, snd p + 1) # ps else p # bump_route r ps)"

primrec drop_route :: "rust_str \<Rightarrow> route_leases \<Rightarrow> route_leases" where
  "drop_route r [] = []"
| "drop_route r (p # ps) = (if fst p = r then (fst p, snd p - 1) # ps else p # drop_route r ps)"

definition acquire_routes :: "route_leases \<Rightarrow> rust_str list \<Rightarrow> nat \<Rightarrow>
    route_leases \<times> (rust_str list, domain_error_kind) result" where
  "acquire_routes ordered routes maximum =
    (let unique = unique_routes [] routes;
         additional = length (filter (\<lambda>r. \<not> list_ex (\<lambda>p. fst p = r) ordered) unique)
     in case checked_add U64_MAX (length ordered) additional of
          None \<Rightarrow> (ordered, Err ResourceExhausted)
        | Some combined \<Rightarrow>
            if combined > maximum then (ordered, Err ResourceExhausted)
            else if list_ex (\<lambda>r. map_of ordered r = Some U64_MAX) unique
              then (ordered, Err ResourceExhausted)
            else (fold bump_route unique ordered, Ok unique))"

definition release_routes :: "route_leases \<Rightarrow> rust_str list \<Rightarrow> route_leases" where
  "release_routes ordered routes =
    filter (\<lambda>p. snd p > 0) (fold drop_route routes ordered)"

definition route_snapshot :: "route_leases \<Rightarrow> rust_str list" where
  "route_snapshot ordered = map fst ordered"

subsection \<open>Duplicate arbitration converges\<close>

datatype candidate_event = Register candidate_key | Ready candidate_key

text \<open>A registered candidate carries its own key here; what else it carries plays no
  part in the decision.\<close>

fun candidate_step :: "candidate_key candidate_registry \<Rightarrow> candidate_event \<Rightarrow> candidate_key candidate_registry" where
  "candidate_step r (Register k) = fst (register r k k)"
| "candidate_step r (Ready k) = fst (mark_ready_and_decide r k)"

text \<open>The keys registered by a sequence of events, and those whose last registration
  was not followed by their readiness yet.\<close>

fun registered :: "candidate_key set \<Rightarrow> candidate_event \<Rightarrow> candidate_key set" where
  "registered R (Register k) = insert k R"
| "registered R (Ready k) = R"

fun pending :: "candidate_key set \<Rightarrow> candidate_event \<Rightarrow> candidate_key set" where
  "pending P (Register k) = insert k P"
| "pending P (Ready k) = P - {k}"

lemma fold_min_eq: "fold min ks k = Min (insert k (set ks))"
proof (induction ks arbitrary: k)
  case (Cons a ks)
  then show ?case by (cases "ks = []") (simp_all add: min.commute min.left_commute)
qed simp

lemma designated_primary_Min:
  "ks \<noteq> [] \<Longrightarrow> designated_primary ks = Some (Min (set ks))"
  by (cases ks) (simp_all add: designated_primary_def fold_min_eq)

lemma remove_losers_eq:
  "cands (fst (remove_losers r ks)) = filter (\<lambda>p. fst p \<notin> set ks) (cands r)"
  "primary (fst (remove_losers r ks)) = primary r"
  by (induction ks arbitrary: r)
    (auto simp: remove_entry_def Let_def split_beta bt_remove_def filter_filter conj_commute)

lemma keys_filter: "bt_keys (filter (\<lambda>p. Q (fst p)) m) = {k \<in> bt_keys m. Q k}"
  by (auto simp: bt_keys_def)

lemma mark_ready_cases:
  assumes "k \<in> bt_keys (cands r)"
  obtains (lost) p where "primary r = Some p" "p < k"
      "bt_keys (cands (fst (mark_ready_and_decide r k))) = bt_keys (cands r) - {k}"
      "primary (fst (mark_ready_and_decide r k)) = primary r"
  | (wait) "k \<noteq> Min (bt_keys (cands r))" "fst (mark_ready_and_decide r k) = r"
      "\<And>p. primary r = Some p \<Longrightarrow> k \<le> p"
  | (promoted) "k = Min (bt_keys (cands r))"
      "bt_keys (cands (fst (mark_ready_and_decide r k))) = {k}"
      "primary (fst (mark_ready_and_decide r k)) = Some k"
proof -
  have ne: "map fst (cands r) \<noteq> []" and in_keys: "bt_contains (cands r) k"
    using assms by (auto simp: bt_get_None_iff bt_keys_def)
  have des: "designated_primary (map fst (cands r)) = Some (Min (bt_keys (cands r)))"
    using ne by (simp add: designated_primary_Min bt_keys_def)
  consider p where "primary r = Some p" "p < k" | "\<And>p. primary r = Some p \<Longrightarrow> k \<le> p"
    by (cases "primary r") (force simp: not_less)+
  then show thesis
  proof cases
    case 1
    then have "fst (mark_ready_and_decide r k) = r\<lparr>cands := bt_remove k (cands r)\<rparr>"
      using in_keys by (simp add: mark_ready_and_decide_def remove_candidate_def remove_entry_def)
    then show thesis using 1 by (intro lost[of p]) simp_all
  next
    case 2
    then have not_lost: "\<not> (case primary r of None \<Rightarrow> False | Some p \<Rightarrow> p < k)"
      by (auto split: option.splits simp: not_less)
    show thesis
    proof (cases "k = Min (bt_keys (cands r))")
      case True
      let ?r = "fst (remove_losers (r\<lparr>primary := Some k\<rparr>) (filter (\<lambda>j. j \<noteq> k) (map fst (cands r))))"
      have "designated_primary (map fst (cands r)) = Some k" using des True by simp
      then have "fst (mark_ready_and_decide r k) = ?r"
        using in_keys not_lost by (simp add: mark_ready_and_decide_def split_beta Let_def)
      moreover have "bt_keys (cands ?r) = {k}"
        using assms by (auto simp: remove_losers_eq bt_keys_def)
      ultimately show thesis using True by (intro promoted) (simp_all add: remove_losers_eq)
    next
      case False
      then have "fst (mark_ready_and_decide r k) = r"
        using in_keys not_lost des by (auto simp: mark_ready_and_decide_def)
      then show thesis using False 2 by (intro wait) auto
    qed
  qed
qed

text \<open>The arbitration invariant: the smallest key ever registered is still present,
  and once it is ready it is the primary and only pending candidates remain beside it.\<close>

definition arbitration_inv ::
    "candidate_key candidate_registry \<Rightarrow> candidate_key set \<Rightarrow> candidate_key set \<Rightarrow> bool" where
  "arbitration_inv r R P \<longleftrightarrow> finite R \<and> bt_keys (cands r) \<subseteq> R \<and>
     (\<forall>p. primary r = Some p \<longrightarrow> p \<in> R) \<and>
     (R \<noteq> {} \<longrightarrow> Min R \<in> bt_keys (cands r) \<and>
       (Min R \<notin> P \<longrightarrow> primary r = Some (Min R) \<and> bt_keys (cands r) \<subseteq> insert (Min R) P))"

lemma arbitration_register:
  assumes "arbitration_inv r R P"
  shows "arbitration_inv (candidate_step r (Register k)) (insert k R) (insert k P)"
proof -
  have keys: "bt_keys (cands (candidate_step r (Register k))) = insert k (bt_keys (cands r))"
    and prim: "primary (candidate_step r (Register k)) = primary r"
    by (auto simp: register_def bt_get_None_iff)
  show ?thesis
  proof (cases "R = {}")
    case True
    then show ?thesis using assms keys prim by (auto simp: arbitration_inv_def)
  next
    case False
    then have min: "Min (insert k R) = min k (Min R)" using assms by (simp add: arbitration_inv_def)
    have "Min (insert k R) \<in> insert k (bt_keys (cands r))"
      using assms False min by (auto simp: arbitration_inv_def min_def)
    moreover have "primary r = Some (Min (insert k R)) \<and>
        insert k (bt_keys (cands r)) \<subseteq> insert (Min (insert k R)) (insert k P)"
      if "Min (insert k R) \<notin> insert k P"
    proof -
      from that min have "Min (insert k R) = Min R" by (auto simp: min_def split: if_splits)
      then show ?thesis using that assms False by (auto simp: arbitration_inv_def)
    qed
    ultimately show ?thesis using assms keys prim by (auto simp: arbitration_inv_def)
  qed
qed

lemma arbitration_ready:
  assumes inv: "arbitration_inv r R P"
  shows "arbitration_inv (candidate_step r (Ready k)) R (P - {k})"
proof (cases "k \<in> bt_keys (cands r)")
  case False
  then have "candidate_step r (Ready k) = r"
    by (simp add: mark_ready_and_decide_def bt_get_None_iff)
  then show ?thesis using False inv by (auto simp: arbitration_inv_def)
next
  case True
  then have ne: "R \<noteq> {}" and fin: "finite R" and kR: "k \<in> R" and keysR: "bt_keys (cands r) \<subseteq> R"
    and mk: "Min R \<in> bt_keys (cands r)"
    using inv by (auto simp: arbitration_inv_def)
  have min_keys: "Min (bt_keys (cands r)) = Min R"
    using mk keysR fin ne by (intro Min_eqI) (auto intro: Min_le)
  show ?thesis
    using True
  proof (cases rule: mark_ready_cases)
    case (lost p)
    have "p \<in> R" using inv lost by (auto simp: arbitration_inv_def)
    then have "k \<noteq> Min R" using lost(2) Min_le[OF fin] by (metis leD)
    then show ?thesis using lost inv ne by (auto simp: arbitration_inv_def)
  next
    case wait
    then have "k \<noteq> Min R" using min_keys by simp
    moreover have "k \<notin> bt_keys (cands r)" if "Min R \<notin> P"
    proof -
      have "primary r = Some (Min R)" using that inv ne by (simp add: arbitration_inv_def)
      then have "k \<le> Min R" by (rule wait(3))
      then have "k = Min R" using Min_le[OF fin kR] by simp
      then show ?thesis using \<open>k \<noteq> Min R\<close> by simp
    qed
    ultimately show ?thesis using wait(2) inv ne by (auto simp: arbitration_inv_def)
  next
    case promoted
    then have "k = Min R" using min_keys by simp
    then show ?thesis using promoted inv kR by (auto simp: arbitration_inv_def)
  qed
qed

lemma arbitration_run:
  "arbitration_inv r R P \<Longrightarrow>
    arbitration_inv (fold (\<lambda>e r. candidate_step r e) es r) (fold (\<lambda>e R. registered R e) es R)
      (fold (\<lambda>e P. pending P e) es P)"
proof (induction es arbitrary: r R P)
  case (Cons e es)
  then show ?case
    using arbitration_register[of r R P] arbitration_ready[of r R P] by (cases e) auto
qed simp

text \<open>C26: both endpoints settle on the same connection.  Whatever the order in which
  an endpoint registers the candidates and finds them ready, once every registered
  candidate has been ready the registry holds exactly one: the lexicographically
  smallest key, as primary.  Two endpoints that saw the same candidates in different
  orders therefore keep the same connection.\<close>

theorem candidates_converge:
  assumes "fold (\<lambda>e R. registered R e) es {} = R" "R \<noteq> {}"
    "fold (\<lambda>e P. pending P e) es {} = {}"
  shows "primary (fold (\<lambda>e r. candidate_step r e) es registry_empty) = Some (Min R) \<and>
    bt_keys (cands (fold (\<lambda>e r. candidate_step r e) es registry_empty)) = {Min R}"
proof -
  have "arbitration_inv registry_empty {} {}"
    by (simp add: arbitration_inv_def registry_empty_def)
  from arbitration_run[OF this, of es] show ?thesis
    using assms by (auto simp: arbitration_inv_def)
qed

definition demo_key :: "byte \<Rightarrow> byte \<Rightarrow> candidate_key" where
  "demo_key a b = (replicate 32 a, replicate 16 b)"

theorem candidates_converge_witness:
  "primary (fold (\<lambda>e r. candidate_step r e)
      [Register (demo_key 2 1), Ready (demo_key 2 1), Register (demo_key 1 9), Ready (demo_key 1 9)]
      registry_empty) = Some (demo_key 1 9)"
proof -
  have "Min {demo_key 2 1, demo_key 1 9} = demo_key 1 9"
    by (rule Min_eqI) (auto simp: demo_key_def less_eq_prod_def list_le_def list_less_def
        numeral_eq_Suc)
  then show ?thesis
    using candidates_converge[of "[Register (demo_key 2 1), Ready (demo_key 2 1),
        Register (demo_key 1 9), Ready (demo_key 1 9)]" "{demo_key 2 1, demo_key 1 9}"]
    by (auto simp: insert_commute)
qed

subsection \<open>Delayed handshakes stay fenced\<close>

text \<open>Serving a list of observations, each with the time at which it is made.\<close>

definition observe_at :: "nat \<Rightarrow> nat \<Rightarrow> peer_incarnation \<Rightarrow> connection_incarnation \<times> nat \<Rightarrow>
    peer_incarnation \<times> (bool, domain_error_kind) result" where
  "observe_at window limit p o' = observe p (fst o') (snd o') window limit"

definition fenced :: "peer_incarnation \<Rightarrow> connection_incarnation \<Rightarrow> nat \<Rightarrow> bool" where
  "fenced p i deadline \<longleftrightarrow> (i, deadline) \<in> set (retired p) \<and> current p \<noteq> Some i"

lemma observe_fenced:
  assumes "fenced p i deadline" "now < deadline"
  shows "fenced (fst (observe p j now window limit)) i deadline"
    and "snd (observe p i now window limit) = Err TransportUnavailable"
proof -
  let ?p = "p\<lparr>retired := filter (\<lambda>(_, d). d > now) (retired p)\<rparr>"
  have mem: "(i, deadline) \<in> set (retired ?p)" and cur: "current ?p \<noteq> Some i"
    using assms by (auto simp: fenced_def)
  have seen: "list_ex (\<lambda>(r, _). r = i) (retired ?p)"
    using mem by (force simp: list_ex_iff)
  show "snd (observe p i now window limit) = Err TransportUnavailable"
    using cur seen by (simp add: observe_def Let_def)
  show "fenced (fst (observe p j now window limit)) i deadline"
  proof (cases "j = i")
    case True
    then show ?thesis using mem cur seen by (simp add: observe_def Let_def fenced_def)
  next
    case False
    then show ?thesis
      using mem cur by (auto simp: observe_def Let_def fenced_def split: option.splits if_splits)
  qed
qed

lemma observe_all_fenced:
  "fenced p i deadline \<Longrightarrow> list_all (\<lambda>o'. snd o' < deadline) os \<Longrightarrow>
    fenced (fst (trace_run (observe_at window limit) p os)) i deadline"
  by (induction os arbitrary: p) (auto simp: observe_at_def observe_fenced(1))

text \<open>A handshake of a retired connection owner is refused for the whole handshake
  window.  When an observation at time \<open>t\<close> replaces owner \<open>i\<close> by another one, then
  after any further observations made before \<open>t + window\<close>, an observation of \<open>i\<close>
  before that deadline is refused; and the list of retired owners never exceeds its
  bound.\<close>

theorem retired_owner_fenced:
  assumes "current p = Some i" "observe p j t window limit = (p', Ok True)"
    "list_all (\<lambda>o'. snd o' < t + window) os" "now < t + window"
  shows "snd (observe (fst (trace_run (observe_at window limit) p' os)) i now window limit) =
      Err TransportUnavailable \<and>
    length (retired p') \<le> max limit (length (retired p))"
proof -
  have p': "retired p' = filter (\<lambda>(_, d). d > t) (retired p) @ [(i, t + window)]" "current p' = Some j"
    "j \<noteq> i" "length (filter (\<lambda>(_, d). d > t) (retired p)) < limit"
    using assms(1,2) by (auto simp: observe_def Let_def split: if_splits)
  then have "fenced p' i (t + window)" by (simp add: fenced_def)
  then show ?thesis
    using observe_all_fenced[OF _ assms(3)] observe_fenced(2)[OF _ assms(4)] p'(1,4) by simp
qed

theorem retired_owner_fenced_witness:
  "snd (observe (fst (observe \<lparr>current = Some [1], retired = []\<rparr> [2] 100 10 4)) [1] 105 10 4) =
    Err TransportUnavailable"
  using retired_owner_fenced[of "\<lparr>current = Some [1], retired = []\<rparr>" "[1]" "[2]" 100 10 4
      "\<lparr>current = Some [2], retired = [([1], 110)]\<rparr>" "[]" 105]
  by (simp add: observe_def)

subsection \<open>Route leases count their holders\<close>

text \<open>The abstraction: how many holders a route has.\<close>

definition holders :: "route_leases \<Rightarrow> rust_str \<Rightarrow> nat" where
  "holders ordered r = (case map_of ordered r of None \<Rightarrow> 0 | Some n \<Rightarrow> n)"

definition leases_wf :: "route_leases \<Rightarrow> bool" where
  "leases_wf ordered \<longleftrightarrow> distinct (map fst ordered) \<and> (\<forall>p \<in> set ordered. 0 < snd p)"

lemma bump_route_props:
  "distinct (map fst ps) \<Longrightarrow> distinct (map fst (bump_route r ps))"
  "fst ` set (bump_route r ps) = insert r (fst ` set ps)"
  "holders (bump_route r ps) = (holders ps)(r := holders ps r + 1)"
  "\<forall>p \<in> set ps. 0 < snd p \<Longrightarrow> \<forall>p \<in> set (bump_route r ps). 0 < snd p"
  by (induction ps) (auto simp: holders_def fun_eq_iff)

lemma drop_route_props:
  "map fst (drop_route r ps) = map fst ps"
  "holders (drop_route r ps) = (holders ps)(r := holders ps r - 1)"
  by (induction ps) (auto simp: holders_def fun_eq_iff)

lemma bump_all:
  "leases_wf ps \<Longrightarrow> distinct rs \<Longrightarrow> leases_wf (fold bump_route rs ps) \<and>
    holders (fold bump_route rs ps) = (\<lambda>r. holders ps r + (if r \<in> set rs then 1 else 0))"
proof (induction rs arbitrary: ps)
  case (Cons r rs)
  have "leases_wf (bump_route r ps)"
    using Cons.prems bump_route_props(1,4)[of ps r] by (simp add: leases_wf_def)
  then show ?case using Cons bump_route_props(3)[of r ps] by (auto simp: fun_eq_iff)
qed simp

lemma drop_all:
  "distinct (map fst ps) \<Longrightarrow> distinct rs \<Longrightarrow> distinct (map fst (fold drop_route rs ps)) \<and>
    holders (fold drop_route rs ps) = (\<lambda>r. holders ps r - (if r \<in> set rs then 1 else 0))"
proof (induction rs arbitrary: ps)
  case (Cons r rs)
  then show ?case
    using drop_route_props[of r ps] by (auto simp: fun_eq_iff)
qed simp

lemma holders_filter:
  "distinct (map fst ps) \<Longrightarrow> holders (filter (\<lambda>p. snd p > 0) ps) = holders ps"
proof (induction ps)
  case (Cons p ps)
  have "holders (filter (\<lambda>p. snd p > 0) ps) (fst p) = 0" if "fst p \<notin> fst ` set ps"
  proof -
    have "map_of (filter (\<lambda>p. snd p > 0) ps) (fst p) = None"
      using that by (auto simp: map_of_eq_None_iff)
    then show ?thesis by (simp add: holders_def)
  qed
  then show ?case
    using Cons by (cases p) (auto simp: holders_def fun_eq_iff split: option.splits)
qed (simp add: holders_def)

lemma unique_routes_props: "distinct (unique_routes seen rs)" "set (unique_routes seen rs) = set rs - set seen"
proof -
  have set_eq: "set (unique_routes seen' rs') = set rs' - set seen'" for seen' rs'
    by (induction rs' arbitrary: seen') auto
  show "set (unique_routes seen rs) = set rs - set seen" by (rule set_eq)
  show "distinct (unique_routes seen rs)"
    by (induction rs arbitrary: seen) (auto simp: set_eq)
qed

lemma acquire_counts:
  assumes "leases_wf ordered" "acquire_routes ordered routes limit = (ordered', Ok u)"
  shows "leases_wf ordered' \<and> distinct u \<and> set u = set routes \<and>
    holders ordered' = (\<lambda>r. holders ordered r + (if r \<in> set u then 1 else 0))"
proof -
  have "u = unique_routes [] routes" "ordered' = fold bump_route u ordered"
    using assms(2) by (auto simp: acquire_routes_def Let_def split: option.splits if_splits)
  then show ?thesis
    using bump_all[OF assms(1), of u] unique_routes_props[of "[]" routes] by simp
qed

lemma release_counts:
  assumes "leases_wf ordered" "distinct u"
  shows "leases_wf (release_routes ordered u) \<and>
    holders (release_routes ordered u) = (\<lambda>r. holders ordered r - (if r \<in> set u then 1 else 0))"
proof -
  let ?d = "fold drop_route u ordered"
  have d: "distinct (map fst ?d)" "holders ?d = (\<lambda>r. holders ordered r - (if r \<in> set u then 1 else 0))"
    using drop_all[OF _ assms(2), of ordered] assms(1) by (simp_all add: leases_wf_def)
  have "distinct (map fst (filter (\<lambda>p. snd p > 0) ?d))"
    using d(1) by (simp add: distinct_map_filter)
  then show ?thesis
    using d holders_filter[OF d(1)] by (auto simp: release_routes_def leases_wf_def)
qed

text \<open>The clients of the lease table: each holds the routes its acquisition returned,
  until it releases them.\<close>

inductive lease_run :: "nat \<Rightarrow> route_leases \<Rightarrow> rust_str list list \<Rightarrow> bool" for limit where
  lease_start: "lease_run limit [] []"
| lease_acquire:
    "lease_run limit ordered held \<Longrightarrow> acquire_routes ordered routes limit = (ordered', Ok u) \<Longrightarrow>
     lease_run limit ordered' (u # held)"
| lease_release:
    "lease_run limit ordered held \<Longrightarrow> u \<in> set held \<Longrightarrow>
     lease_run limit (release_routes ordered u) (remove1 u held)"

lemma holds_count_remove1:
  "u \<in> set held \<Longrightarrow>
    length (filter (\<lambda>v. r \<in> set v) (remove1 u held)) =
      length (filter (\<lambda>v. r \<in> set v) held) - (if r \<in> set u then 1 else 0)"
  by (simp add: filter_remove1 length_remove1)

lemma lease_run_counts:
  "lease_run limit ordered held \<Longrightarrow> leases_wf ordered \<and> (\<forall>u \<in> set held. distinct u) \<and>
    holders ordered = (\<lambda>r. length (filter (\<lambda>u. r \<in> set u) held))"
proof (induction rule: lease_run.induct)
  case lease_start
  then show ?case by (simp add: leases_wf_def holders_def)
next
  case (lease_acquire ordered held routes ordered' u)
  then show ?case using acquire_counts[of ordered routes limit ordered' u] by auto
next
  case (lease_release ordered held u)
  then show ?case
    using release_counts[of ordered u] holds_count_remove1[of u held]
    by (auto dest: notin_set_remove1 simp: fun_eq_iff)
qed

lemma holders_pos_iff:
  assumes "leases_wf ordered"
  shows "0 < holders ordered r \<longleftrightarrow> r \<in> set (route_snapshot ordered)"
proof (cases "map_of ordered r")
  case None
  then have "r \<notin> fst ` set ordered" by (simp add: map_of_eq_None_iff)
  then show ?thesis using None by (simp add: holders_def route_snapshot_def)
next
  case (Some n)
  then have "(r, n) \<in> set ordered" by (rule map_of_SomeD)
  then show ?thesis using Some assms by (force simp: holders_def route_snapshot_def leases_wf_def)
qed

text \<open>C30: a transient route is offered exactly as long as someone holds it.  After any
  sequence of successful acquisitions and releases, the recorded count of a route is
  the number of outstanding leases that contain it, and the snapshot used for dialing
  lists exactly the routes held by at least one of them, each once.\<close>

theorem route_leases_refine_holders:
  assumes "lease_run limit ordered held"
  shows "holders ordered r = length (filter (\<lambda>u. r \<in> set u) held) \<and>
    (r \<in> set (route_snapshot ordered) \<longleftrightarrow> (\<exists>u \<in> set held. r \<in> set u)) \<and>
    distinct (route_snapshot ordered)"
proof -
  note counts = lease_run_counts[OF assms]
  have "0 < holders ordered r \<longleftrightarrow> (\<exists>u \<in> set held. r \<in> set u)"
    using counts by (auto simp: filter_empty_conv)
  then show ?thesis
    using counts holders_pos_iff[of ordered r] by (auto simp: route_snapshot_def leases_wf_def)
qed

theorem route_leases_refine_holders_witness:
  "holders (release_routes (fst (acquire_routes (fst (acquire_routes [] [[1], [2], [1]] 4)) [[2]] 4)) [[1], [2]]) [2] = 1"
proof -
  have one: "acquire_routes [] [[1], [2], [1]] 4 = ([([1], 1), ([2], 1)], Ok [[1], [2]])"
    by (simp add: acquire_routes_def checked_add_def Let_def)
  have two: "acquire_routes [([1], 1), ([2], 1)] [[2]] 4 = ([([1], 1), ([2], 2)], Ok [[2]])"
    by (simp add: acquire_routes_def checked_add_def Let_def)
  have "lease_run 4 (release_routes [([1], 1), ([2], 2)] [[1], [2]]) (remove1 [[1], [2]] [[[2]], [[1], [2]]])"
    by (intro lease_run.lease_release lease_run.lease_acquire[OF _ two]
        lease_run.lease_acquire[OF lease_run.lease_start one]) simp
  from route_leases_refine_holders[OF this, of "[2]"] show ?thesis
    unfolding one two fst_conv by simp
qed

end
