(* ===== verification/Pair_Protocol.thy ===== *)
theory Pair_Protocol
  imports Pair_Framing Transport
begin

section \<open>The controller's side of pairing\<close>

text \<open>
  \<open>client/src/pairing.rs\<close>: the failures of pairing and how they are shown to the local
  user and to the unauthenticated peer, the transcript both sides compute, the
  exchange a controller runs on an authenticated stream, and how its outcome is
  combined with the confirmation over the normal protocol.

  The stream is the record \<open>pair_io\<close>: its TLS identities and the outcomes of reads,
  writes and the shutdown, with a stream state threaded through.  The generated
  protobuf messages have the fields of the validated ones; their codecs are the
  record \<open>pair_messages\<close>.
\<close>

subsection \<open>Failures\<close>

datatype pairing_error =
    PErrInvalidLimits transport_limits_error
  | PErrInvalidTicket pair_ticket_error
  | PErrInvalidBinding
  | PErrClockUnavailable
  | PErrTimeOverflow
  | PErrEntropyUnavailable
  | PErrResourceExhausted
  | PErrDeadlineExceeded
  | PErrOfferNotFound
  | PErrTicketExpired
  | PErrTicketConsumed
  | PErrOfferConsuming
  | PErrInvalidProof
  | PErrOutcomeUnknown
  | PErrStateConflict

fun local_kind :: "pairing_error \<Rightarrow> domain_error_kind" where
  "local_kind (PErrInvalidLimits _) = ResourceExhausted"
| "local_kind PErrResourceExhausted = ResourceExhausted"
| "local_kind PErrClockUnavailable = TransportUnavailable"
| "local_kind PErrEntropyUnavailable = TransportUnavailable"
| "local_kind PErrDeadlineExceeded = DeadlineExceeded"
| "local_kind PErrTicketExpired = PairTicketExpired"
| "local_kind PErrTicketConsumed = PairTicketConsumed"
| "local_kind PErrOfferConsuming = PairOutcomeUnknown"
| "local_kind PErrOutcomeUnknown = PairOutcomeUnknown"
| "local_kind PErrStateConflict = PairOutcomeUnknown"
| "local_kind (PErrInvalidTicket _) = PairTicketInvalid"
| "local_kind PErrInvalidBinding = PairTicketInvalid"
| "local_kind PErrTimeOverflow = PairTicketInvalid"
| "local_kind PErrOfferNotFound = PairTicketInvalid"
| "local_kind PErrInvalidProof = PairTicketInvalid"

fun peer_kind :: "pairing_error \<Rightarrow> domain_error_kind" where
  "peer_kind (PErrInvalidLimits _) = ResourceExhausted"
| "peer_kind PErrResourceExhausted = ResourceExhausted"
| "peer_kind PErrClockUnavailable = TransportUnavailable"
| "peer_kind PErrEntropyUnavailable = TransportUnavailable"
| "peer_kind PErrDeadlineExceeded = DeadlineExceeded"
| "peer_kind _ = PairTicketInvalid"

subsection \<open>The common transcript\<close>

definition controller_transcript :: "crypto \<Rightarrow> pair_ticket_fields \<Rightarrow> device_id \<Rightarrow> device_id \<Rightarrow>
    pair_begin \<Rightarrow> pair_challenge \<Rightarrow> (pair_transcript, pairing_error) result" where
  "controller_transcript cr ticket authenticated_host controller_device_id begin' challenge =
    (if host_device_id ticket \<noteq> authenticated_host
       \<or> tk_offer_id ticket \<noteq> pb_offer_id begin'
       \<or> tk_expires_at_unix ticket \<noteq> pc_ticket_expiry_unix challenge
       \<or> pb_pair_protocol_version begin' \<noteq> pc_selected_version challenge
     then Err PErrInvalidBinding
     else map_err PErrInvalidTicket
       (pair_transcript_new cr ticket controller_device_id (pb_controller_name begin')
         (pb_controller_nonce begin') (pc_host_nonce challenge) (pc_selected_version challenge)))"

subsection \<open>The exchange\<close>

record 'r pair_io =
  io_local :: device_id
  io_remote :: device_id
  io_read :: "'r \<Rightarrow> nat \<Rightarrow> 'r \<times> (byte list, domain_error_kind) result"
  io_write :: "'r \<Rightarrow> byte list \<Rightarrow> 'r \<times> (unit, domain_error_kind) result"
  io_shutdown :: "'r \<Rightarrow> 'r \<times> (unit, domain_error_kind) result"

record pair_messages =
  encode_begin :: "pair_begin \<Rightarrow> byte list"
  decode_challenge :: "byte list \<Rightarrow> pair_challenge option"
  encode_proof :: "byte list \<Rightarrow> byte list"
  decode_accepted :: "byte list \<Rightarrow> pair_accepted option"

record controller_pair_attempt =
  at_accepted_generation :: "auth_generation option"
  at_repair_required :: bool
  at_error :: "domain_error_kind option"

definition attempt_failed :: "domain_error_kind \<Rightarrow> bool \<Rightarrow> controller_pair_attempt" where
  "attempt_failed e repair = \<lparr>at_accepted_generation = None, at_repair_required = repair, at_error = Some e\<rparr>"

definition invalid_pair_ticket :: domain_error_kind where "invalid_pair_ticket = PairTicketInvalid"
definition pair_outcome_unknown :: domain_error_kind where "pair_outcome_unknown = PairOutcomeUnknown"

definition pair_challenge_from_wire :: "pair_challenge \<Rightarrow> (pair_challenge, domain_error_kind) result" where
  "pair_challenge_from_wire wire =
    res_bind (map_err (\<lambda>_. invalid_pair_ticket) (from_bytes ''PairNonce'' 32 (pc_host_nonce wire))) (\<lambda>nonce.
    map_err (\<lambda>_. invalid_pair_ticket)
      (pair_challenge_new nonce (pc_selected_version wire) (pc_ticket_expiry_unix wire)))"

definition validate_pair_accepted :: "crypto \<Rightarrow> pair_accepted \<Rightarrow> pair_transcript \<Rightarrow> byte list \<Rightarrow>
    (auth_generation, domain_error_kind) result" where
  "validate_pair_accepted cr wire transcript key =
    (let gen = (case auth_generation_new (pa_authorization_generation wire) of
           Some g \<Rightarrow> if g \<noteq> 0 then Ok g else Err invalid_pair_ticket
         | None \<Rightarrow> Err invalid_pair_ticket);
         proof = (if length (pa_host_confirmation_proof wire) = 32
           then Ok (pa_host_confirmation_proof wire) else Err invalid_pair_ticket)
     in res_bind (map_err (\<lambda>_. invalid_pair_ticket) (device_display_name_new (pa_host_diagnostic_version wire))) (\<lambda>_.
        res_bind gen (\<lambda>gen.
        res_bind proof (\<lambda>proof.
        if \<not> verify_host_confirmation cr transcript key gen proof then Err invalid_pair_ticket
        else Ok gen))))"

text \<open>\<open>clock i\<close> is the time at the \<open>i\<close>-th stream operation and \<open>nonce\<close> the outcome of
  the entropy source.\<close>

definition run_controller_pair :: "crypto \<Rightarrow> 'z wire_codec \<Rightarrow> pair_messages \<Rightarrow> 'r pair_io \<Rightarrow> 'r \<Rightarrow>
    pair_ticket_fields \<Rightarrow> byte list \<Rightarrow> device_id \<Rightarrow> rust_str \<Rightarrow> transport_limits \<Rightarrow> nat \<Rightarrow>
    (pair_nonce, domain_error_kind) result \<Rightarrow> (nat \<Rightarrow> nat) \<Rightarrow> 'r \<times> controller_pair_attempt" where
  "run_controller_pair cr cd ms io r ticket secret device_id display_name limits deadline nonce clock =
    (if io_local io \<noteq> device_id \<or> io_remote io \<noteq> host_device_id ticket \<or> io_local io = io_remote io
     then (r, attempt_failed invalid_pair_ticket False)
     else case pair_framing_new (max_pair_hello_frame_bytes limits) (max_pair_handshake_bytes limits) deadline of
       Err e \<Rightarrow> (r, attempt_failed e False)
     | Ok fr \<Rightarrow>
    (case nonce of Err e \<Rightarrow> (r, attempt_failed e False) | Ok controller_nonce \<Rightarrow>
    (case pair_begin_new (tk_offer_id ticket) display_name controller_nonce PAIR_PROTOCOL_VERSION of
       Err _ \<Rightarrow> (r, attempt_failed invalid_pair_ticket False)
     | Ok begin' \<Rightarrow>
    (case write_message cd (io_write io) fr r (clock 0) PairBegin (encode_begin ms begin') deadline of
       (fr, r, Err e) \<Rightarrow> (r, attempt_failed e False)
     | (fr, r, Ok _) \<Rightarrow>
    (case read_message cd (io_read io) (decode_challenge ms) fr r (clock 1) PairChallenge deadline of
       (fr, r, Err e) \<Rightarrow> (r, attempt_failed e False)
     | (fr, r, Ok challenge_wire) \<Rightarrow>
    (case pair_challenge_from_wire challenge_wire of
       Err e \<Rightarrow> (r, attempt_failed e False)
     | Ok challenge \<Rightarrow>
    (case controller_transcript cr ticket (io_remote io) device_id begin' challenge of
       Err e \<Rightarrow> (r, attempt_failed (local_kind e) False)
     | Ok transcript \<Rightarrow>
         let key = offer_key cr ticket secret;
             proof = controller_proof cr transcript key in
    (case write_message cd (io_write io) fr r (clock 2) PairProof (encode_proof ms proof) deadline of
       (fr, r, Err e) \<Rightarrow> (r, attempt_failed e True)
     | (fr, r, Ok _) \<Rightarrow>
    (case read_message cd (io_read io) (decode_accepted ms) fr r (clock 3) PairAccepted deadline of
       (fr, r, Err e) \<Rightarrow> (r, attempt_failed e True)
     | (fr, r, Ok accepted_wire) \<Rightarrow>
    (case validate_pair_accepted cr accepted_wire transcript key of
       Err e \<Rightarrow> (r, attempt_failed e True)
     | Ok gen \<Rightarrow>
    (case framing_shutdown (io_shutdown io) fr r (clock 4) deadline of
       (r, Err e) \<Rightarrow> (r, \<lparr>at_accepted_generation = Some gen, at_repair_required = True, at_error = Some e\<rparr>)
     | (r, Ok _) \<Rightarrow> (r, \<lparr>at_accepted_generation = Some gen, at_repair_required = True, at_error = None\<rparr>)
    )))))))))))"

subsection \<open>Normal confirmation\<close>

record confirmed_authorization =
  ca_remote :: device_id
  ca_generation :: auth_generation
  ca_verified_relay :: "rust_str option"

definition resolve_normal_confirmation :: "device_id \<Rightarrow> controller_pair_attempt \<Rightarrow>
    (confirmed_authorization, domain_error_kind) result \<Rightarrow>
    (confirmed_authorization, domain_error_kind) result" where
  "resolve_normal_confirmation expected_remote pair_attempt confirmation =
    (case confirmation of
       Ok c \<Rightarrow>
         if ca_remote c = expected_remote \<and> ca_generation c \<noteq> 0 then
           (case at_accepted_generation pair_attempt of
              Some accepted \<Rightarrow> if ca_generation c < accepted then Err pair_outcome_unknown else Ok c
            | None \<Rightarrow> Ok c)
         else Err pair_outcome_unknown
     | Err normal_error \<Rightarrow>
         if at_repair_required pair_attempt then Err pair_outcome_unknown
         else case at_error pair_attempt of Some e \<Rightarrow> Err e | None \<Rightarrow> Err normal_error)"

subsection \<open>What the controller concludes\<close>

text \<open>A log of the frames offered to the stream: writes append to it, reads and the
  shutdown leave it alone.\<close>

definition write_log :: "'r pair_io \<Rightarrow> ('r \<Rightarrow> byte list list) \<Rightarrow> bool" where
  "write_log io log \<longleftrightarrow>
    (\<forall>r bytes. log (fst (io_write io r bytes)) = log r @ [bytes]) \<and>
    (\<forall>r n. log (fst (io_read io r n)) = log r) \<and> (\<forall>r. log (fst (io_shutdown io r)) = log r)"

lemma read_loop_log:
  assumes read: "\<And>r n r' x. read r n = (r', x) \<Longrightarrow> log r' = log r"
  shows "log (fst (snd (read_loop cd read fr r))) = log r"
proof (induction "budget_remaining (pf_budget fr)" arbitrary: fr r rule: less_induct)
  case less
  have rec: "log (fst (snd (read_loop cd read (fr\<lparr>pf_budget := b, pf_decoder := d, pf_queued := q\<rparr>) r'))) = log r"
    if "read r n = (r', x)" "budget_record (pf_budget fr) k = (b, Ok ())" "k \<noteq> 0" for b d q r' x n k
    using less[of "fr\<lparr>pf_budget := b, pf_decoder := d, pf_queued := q\<rparr>" r'] read[OF that(1)]
      budget_record_shrinks[OF that(2,3)] by simp
  show ?case
    unfolding read_loop.simps[of cd read fr r] Let_def
    by (auto dest: read split: prod.splits result.splits option.splits list.splits intro!: rec)
qed

lemma next_frame_log:
  assumes "\<And>r n r' x. read r n = (r', x) \<Longrightarrow> log r' = log r"
  shows "log (fst (snd (next_frame cd read fr r))) = log r"
  using read_loop_log[of read log cd fr r] assms by (simp add: next_frame_def split: list.split)

lemma read_message_log:
  assumes "\<And>r n r' x. read r n = (r', x) \<Longrightarrow> log r' = log r"
  shows "log (fst (snd (read_message cd read decode fr r now expected deadline))) = log r"
  using next_frame_log[of read log cd fr r] assms
  by (auto simp: read_message_def split: result.split prod.split)

lemma write_message_log:
  assumes "\<And>r bytes. log (fst (write r bytes)) = log r @ [bytes]"
    "write_message cd write fr r now kind payload deadline = (fr', r', x)"
  shows "log r' = log r \<or> (\<exists>bytes. encode_payload cd kind 0 0 payload = Ok bytes \<and> log r' = log r @ [bytes])"
proof -
  have w: "log r1 = log r @ [bytes]" if "write r bytes = (r1, y)" for r1 y bytes
    using assms(1)[of r bytes] that by simp
  show ?thesis
    using assms(2)
    by (auto simp: write_message_def split: result.splits prod.splits dest!: w)
qed

text \<open>The only frame a controller may have offered when it reports a definite failure.\<close>

definition only_begin :: "'z wire_codec \<Rightarrow> pair_messages \<Rightarrow> byte list list \<Rightarrow> bool" where
  "only_begin cd ms w \<longleftrightarrow>
    w = [] \<or> (\<exists>b bytes. w = [bytes] \<and> encode_payload cd PairBegin 0 0 (encode_begin ms b) = Ok bytes)"

lemma run_without_proof:
  assumes "write_log io log"
    "run_controller_pair cr cd ms io r ticket secret device_id name limits deadline nonce clock = (r', a)"
    "\<not> at_repair_required a"
  shows "\<exists>w. log r' = log r @ w \<and> only_begin cd ms w"
proof -
  have wr: "log (fst (io_write io r bytes)) = log r @ [bytes]" for r bytes
    using assms(1) by (simp add: write_log_def)
  have rd: "log r1 = log r" if "io_read io r n = (r1, x)" for r n r1 x
    using assms(1) that unfolding write_log_def by (metis fst_conv)
  have reads: "log r2 = log r1" if "read_message cd (io_read io) decode fr r1 now k d = (fr', r2, x)"
    for decode :: "byte list \<Rightarrow> 'm option" and fr r1 now k d fr' r2 x
    using read_message_log[of "io_read io" log cd decode fr r1 now k d] rd that by auto
  note writes = write_message_log[of log, OF wr]
  show ?thesis
    using assms(2,3)
    by (auto simp: run_controller_pair_def attempt_failed_def Let_def only_begin_def
        split: if_splits result.splits prod.splits dest!: reads writes)
qed

lemma resolve_definite:
  "resolve_normal_confirmation expected a confirmation = Err e \<Longrightarrow> e \<noteq> PairOutcomeUnknown \<Longrightarrow>
    \<not> at_repair_required a"
  by (auto simp: resolve_normal_confirmation_def pair_outcome_unknown_def
      split: result.splits if_splits option.splits)

text \<open>C10: a definite failure means that no proof was sent.  When pairing, combined with
  the normal confirmation, ends in any error other than \<open>PairOutcomeUnknown\<close>, the only
  frame that may have been offered to the peer is the opening message, so the host
  cannot have authorized this controller.\<close>

theorem definite_failure_sent_no_proof:
  assumes "write_log io log"
    "run_controller_pair cr cd ms io r ticket secret device_id name limits deadline nonce clock = (r', a)"
    "resolve_normal_confirmation expected a confirmation = Err e" "e \<noteq> PairOutcomeUnknown"
  shows "\<exists>w. log r' = log r @ w \<and> only_begin cd ms w"
  using run_without_proof[OF assms(1,2)] resolve_definite[OF assms(3,4)] by blast

subsection \<open>What the controller accepts\<close>

text \<open>A log of the bytes the peer sent: reads append what they return, writes and the shutdown
  leave it alone.\<close>

definition read_log :: "'r pair_io \<Rightarrow> ('r \<Rightarrow> byte list) \<Rightarrow> bool" where
  "read_log io seen \<longleftrightarrow>
    (\<forall>r n. seen (fst (io_read io r n)) = seen r @ (case snd (io_read io r n) of Ok bytes \<Rightarrow> take n bytes | Err _ \<Rightarrow> [])) \<and>
    (\<forall>r bytes. seen (fst (io_write io r bytes)) = seen r) \<and> (\<forall>r. seen (fst (io_shutdown io r)) = seen r)"

text \<open>The bytes since \<open>start\<close> decode to the frames \<open>got\<close>, which were taken, and those that are queued.\<close>

definition framing_seen :: "'z wire_codec \<Rightarrow> nat \<Rightarrow> ('r \<Rightarrow> byte list) \<Rightarrow> byte list \<Rightarrow> pair_framing \<Rightarrow> 'r \<Rightarrow> decoded_frame list \<Rightarrow> bool" where
  "framing_seen cd m seen start fr r got \<longleftrightarrow>
    (\<exists>bytes d. seen r = start @ bytes \<and> pf_decoder fr = Some d \<and>
       decoder_feed cd (with_maximum_body_bytes m) bytes = (d, Ok (got @ pf_queued fr)))"

lemma framing_seen_feed:
  assumes "framing_seen cd m seen start fr r got" "pf_decoder fr = Some d" "decoder_feed cd d bytes = (d', Ok fs)"
    "seen r' = seen r @ bytes" "pf_decoder fr' = Some d'" "got @ pf_queued fr @ fs = got' @ pf_queued fr'"
  shows "framing_seen cd m seen start fr' r' got'"
  using assms decoder_feed_append[of "with_maximum_body_bytes m" cd _ bytes]
  by (fastforce simp: framing_seen_def)

lemma read_loop_seen:
  assumes read: "\<And>r n r' bytes. read r n = (r', Ok bytes) \<Longrightarrow> seen r' = seen r @ take n bytes"
  shows "read_loop cd read fr r = (fr', r', Ok f) \<Longrightarrow> pf_queued fr = [] \<Longrightarrow> framing_seen cd m seen start fr r got \<Longrightarrow>
    framing_seen cd m seen start fr' r' (got @ [f])"
proof (induction "budget_remaining (pf_budget fr)" arbitrary: fr r rule: less_induct)
  case less
  let ?allowed = "min (budget_remaining (pf_budget fr)) READ_BUFFER_BYTES"
  from less.prems(1) obtain r1 bytes b d d1 fs where r1: "read r ?allowed = (r1, Ok bytes)" "take ?allowed bytes \<noteq> []"
    and b: "budget_record (pf_budget fr) (length (take ?allowed bytes)) = (b, Ok ())"
    and d: "pf_decoder fr = Some d" "decoder_feed cd d (take ?allowed bytes) = (d1, Ok fs)"
    and rest: "(case fs of
        frame # rest \<Rightarrow> (fr\<lparr>pf_budget := b, pf_decoder := Some d1, pf_queued := rest\<rparr>, r1, Ok frame)
      | [] \<Rightarrow> read_loop cd read (fr\<lparr>pf_budget := b, pf_decoder := Some d1, pf_queued := []\<rparr>) r1) = (fr', r', Ok f)"
    unfolding read_loop.simps[of cd read fr r] Let_def
    using less.prems(2) by (auto split: if_splits prod.splits result.splits option.splits)
  have seen: "seen r1 = seen r @ take ?allowed bytes" using read[OF r1(1)] .
  show ?case
  proof (cases fs)
    case Nil
    let ?fr = "fr\<lparr>pf_budget := b, pf_decoder := Some d1, pf_queued := []\<rparr>"
    have "budget_remaining (pf_budget ?fr) < budget_remaining (pf_budget fr)"
      using budget_record_shrinks[OF b] r1(2) by simp
    moreover have "framing_seen cd m seen start ?fr r1 got"
      using framing_seen_feed[OF less.prems(3) d seen, of ?fr] less.prems(2) Nil by simp
    moreover have "read_loop cd read ?fr r1 = (fr', r', Ok f)" using rest Nil by simp
    ultimately show ?thesis by (intro less.hyps[of ?fr r1]) simp_all
  next
    case (Cons g gs)
    then have "f = g" "r' = r1" "fr' = fr\<lparr>pf_budget := b, pf_decoder := Some d1, pf_queued := gs\<rparr>" using rest by auto
    then show ?thesis
      using framing_seen_feed[OF less.prems(3) d seen, of fr'] less.prems(2) Cons by simp
  qed
qed

lemma read_message_seen:
  assumes "read_log io seen" "framing_seen cd m seen start fr r got"
    "read_message cd (io_read io) decode fr r now expected deadline = (fr', r', Ok msg)"
  shows "\<exists>f. framing_seen cd m seen start fr' r' (got @ [f]) \<and> df_kind f = expected \<and> decode (df_payload f) = Some msg"
proof -
  have read: "seen r2 = seen r1 @ take n bytes" if "io_read io r1 n = (r2, Ok bytes)" for r1 n r2 bytes
    using assms(1) that by (auto simp: read_log_def dest!: spec[of _ r1] spec[of _ n])
  from assms(3) obtain f where f: "next_frame cd (io_read io) fr r = (fr', r', Ok f)"
    "df_kind f = expected" "decode (df_payload f) = Some msg"
    by (auto simp: read_message_def decode_message_def split: result.splits prod.splits if_splits option.splits)
  have "framing_seen cd m seen start fr' r' (got @ [f])"
  proof (cases "pf_queued fr")
    case Nil
    with f(1) have "read_loop cd (io_read io) fr r = (fr', r', Ok f)" by (simp add: next_frame_def split: if_splits)
    from read_loop_seen[of "io_read io" seen, OF read this Nil assms(2)] show ?thesis .
  next
    case (Cons g gs)
    with f(1) assms(2) show ?thesis by (auto simp: next_frame_def framing_seen_def)
  qed
  with f show ?thesis by blast
qed

lemma write_message_seen:
  assumes "read_log io seen" "framing_seen cd m seen start fr r got"
    "write_message cd (io_write io) fr r now kind payload deadline = (fr', r', Ok u)"
  shows "framing_seen cd m seen start fr' r' got"
proof -
  have "seen r2 = seen r1" if "io_write io r1 bytes = (r2, x)" for r1 r2 bytes x
    using assms(1) that unfolding read_log_def by (metis fst_conv)
  with assms(2,3) show ?thesis
    by (fastforce simp: write_message_def framing_seen_def split: result.splits prod.splits)
qed

text \<open>The bytes that bind one handshake, field by field: the ticket, the two devices, the offer, the
  two nonces, the name of the controller, the versions and the expiry.\<close>

definition handshake_bytes :: "crypto \<Rightarrow> pair_ticket_fields \<Rightarrow> device_id \<Rightarrow> rust_str \<Rightarrow> pair_nonce \<Rightarrow> pair_nonce \<Rightarrow> byte list" where
  "handshake_bytes cr ticket device name controller_nonce host_nonce =
    TRANSCRIPT_DOMAIN @ sha256 cr (tk_canonical ticket) @ host_device_id ticket @ device @ tk_offer_id ticket @
    controller_nonce @ host_nonce @ be_bytes 2 (length (utf8 name)) @ utf8 name @
    be_bytes 4 (format_version ticket) @ be_bytes 4 PAIR_PROTOCOL_VERSION @ be_bytes 8 (tk_expires_at_unix ticket)"

lemma controller_transcript_bytes:
  assumes "pair_begin_new (tk_offer_id ticket) name nonce PAIR_PROTOCOL_VERSION = Ok begin'"
    "controller_transcript cr ticket host device begin' challenge = Ok transcript"
  shows "tr_canonical transcript = handshake_bytes cr ticket device name nonce (pc_host_nonce challenge)"
  using assms
  by (cases begin') (auto simp: controller_transcript_def pair_begin_new_def pair_transcript_new_def Let_def handshake_bytes_def
      ticket_digest_def canonical_transcript_bytes_def push_len_prefixed_Ok push_u32be_def push_u64be_def
      validate_protocol_version_def parse_device_name_def device_display_name_new_def split: if_splits)

lemma validate_pair_accepted_Ok:
  assumes "mac_verifies cr" "validate_pair_accepted cr accepted transcript key = Ok g"
  shows "0 < g \<and> pa_authorization_generation accepted = g \<and>
    pa_host_confirmation_proof accepted = hmac_sha256 cr key (HOST_ACCEPTED_DOMAIN @ tr_canonical transcript @ be_bytes 8 g)"
  using assms
  by (auto simp: validate_pair_accepted_def verify_host_confirmation_def host_confirmation_data_def push_u64be_def
      mac_verifies_def auth_generation_new_def Let_def split: if_splits option.splits)

lemma run_accepted:
  assumes "run_controller_pair cr cd ms io r ticket secret device_id name limits deadline nonce clock = (r', a)"
    "at_accepted_generation a = Some g"
  obtains fr0 n begin' fr1 r1 fr2 r2 challenge_wire challenge transcript fr3 r3 fr4 r4 accepted x where
    "io_local io = device_id" "io_remote io = host_device_id ticket" "nonce = Ok n"
    "pair_framing_new (max_pair_hello_frame_bytes limits) (max_pair_handshake_bytes limits) deadline = Ok fr0"
    "pair_begin_new (tk_offer_id ticket) name n PAIR_PROTOCOL_VERSION = Ok begin'"
    "write_message cd (io_write io) fr0 r (clock 0) PairBegin (encode_begin ms begin') deadline = (fr1, r1, Ok ())"
    "read_message cd (io_read io) (decode_challenge ms) fr1 r1 (clock 1) PairChallenge deadline = (fr2, r2, Ok challenge_wire)"
    "pair_challenge_from_wire challenge_wire = Ok challenge"
    "controller_transcript cr ticket (io_remote io) device_id begin' challenge = Ok transcript"
    "write_message cd (io_write io) fr2 r2 (clock 2) PairProof
      (encode_proof ms (controller_proof cr transcript (offer_key cr ticket secret))) deadline = (fr3, r3, Ok ())"
    "read_message cd (io_read io) (decode_accepted ms) fr3 r3 (clock 3) PairAccepted deadline = (fr4, r4, Ok accepted)"
    "validate_pair_accepted cr accepted transcript (offer_key cr ticket secret) = Ok g"
    "framing_shutdown (io_shutdown io) fr4 r4 (clock 4) deadline = (r', x)"
  using assms
  by (auto simp: run_controller_pair_def attempt_failed_def Let_def split: if_splits result.splits prod.splits)

lemma run_without_generation:
  "run_controller_pair cr cd ms io r ticket secret device_id name limits deadline nonce clock = (r', a) \<Longrightarrow>
   at_accepted_generation a = None \<Longrightarrow> at_error a \<noteq> None"
  by (auto simp: run_controller_pair_def attempt_failed_def Let_def split: if_splits result.splits prod.splits)

text \<open>The peer's part of a handshake that was accepted with generation \<open>g\<close>: the bytes it sent decode
  to a challenge, then to an acceptance of \<open>g\<close>, whose tag covers this handshake and \<open>g\<close>.\<close>

definition accepted_from :: "crypto \<Rightarrow> 'z wire_codec \<Rightarrow> pair_messages \<Rightarrow> nat \<Rightarrow> pair_ticket_fields \<Rightarrow> byte list \<Rightarrow> device_id \<Rightarrow>
    rust_str \<Rightarrow> pair_nonce \<Rightarrow> auth_generation \<Rightarrow> byte list \<Rightarrow> bool" where
  "accepted_from cr cd ms m ticket secret device name nonce g bytes \<longleftrightarrow>
    (\<exists>d f1 f2 rest challenge accepted.
       decoder_feed cd (with_maximum_body_bytes m) bytes = (d, Ok (f1 # f2 # rest)) \<and>
       df_kind f1 = PairChallenge \<and> decode_challenge ms (df_payload f1) = Some challenge \<and>
       df_kind f2 = PairAccepted \<and> decode_accepted ms (df_payload f2) = Some accepted \<and>
       pa_authorization_generation accepted = g \<and>
       pa_host_confirmation_proof accepted = hmac_sha256 cr (offer_key cr ticket secret)
         (HOST_ACCEPTED_DOMAIN @ handshake_bytes cr ticket device name nonce (pc_host_nonce challenge) @ be_bytes 8 g))"

lemma run_accepted_from:
  assumes "mac_verifies cr" "read_log io seen"
    "run_controller_pair cr cd ms io r ticket secret device_id name limits deadline nonce clock = (r', a)"
    "at_accepted_generation a = Some g"
  shows "0 < g \<and> io_local io = device_id \<and> io_remote io = host_device_id ticket \<and>
    (\<exists>n bytes. nonce = Ok n \<and> seen r' = seen r @ bytes \<and>
       accepted_from cr cd ms (max_pair_hello_frame_bytes limits) ticket secret device_id name n g bytes)"
  using assms(3,4)
proof (rule run_accepted)
  fix fr0 n begin' fr1 r1 fr2 r2 challenge_wire challenge transcript fr3 r3 fr4 r4 accepted x
  let ?m = "max_pair_hello_frame_bytes limits"
  assume io: "io_local io = device_id" "io_remote io = host_device_id ticket" "nonce = Ok n"
    and fr0: "pair_framing_new ?m (max_pair_handshake_bytes limits) deadline = Ok fr0"
    and begin': "pair_begin_new (tk_offer_id ticket) name n PAIR_PROTOCOL_VERSION = Ok begin'"
    and w1: "write_message cd (io_write io) fr0 r (clock 0) PairBegin (encode_begin ms begin') deadline = (fr1, r1, Ok ())"
    and rd1: "read_message cd (io_read io) (decode_challenge ms) fr1 r1 (clock 1) PairChallenge deadline = (fr2, r2, Ok challenge_wire)"
    and ch: "pair_challenge_from_wire challenge_wire = Ok challenge"
    and tr: "controller_transcript cr ticket (io_remote io) device_id begin' challenge = Ok transcript"
    and w2: "write_message cd (io_write io) fr2 r2 (clock 2) PairProof
      (encode_proof ms (controller_proof cr transcript (offer_key cr ticket secret))) deadline = (fr3, r3, Ok ())"
    and rd2: "read_message cd (io_read io) (decode_accepted ms) fr3 r3 (clock 3) PairAccepted deadline = (fr4, r4, Ok accepted)"
    and acc: "validate_pair_accepted cr accepted transcript (offer_key cr ticket secret) = Ok g"
    and sd: "framing_shutdown (io_shutdown io) fr4 r4 (clock 4) deadline = (r', x)"
  have "framing_seen cd ?m seen (seen r) fr0 r []"
    using fr0 by (auto simp: pair_framing_new_def framing_seen_def decoder_feed_def split: if_splits)
  from read_message_seen[OF assms(2) write_message_seen[OF assms(2) this w1] rd1] obtain f1 where
    f1: "framing_seen cd ?m seen (seen r) fr2 r2 [f1]" "df_kind f1 = PairChallenge" "decode_challenge ms (df_payload f1) = Some challenge_wire"
    by auto
  from read_message_seen[OF assms(2) write_message_seen[OF assms(2) f1(1) w2] rd2] obtain f2 where
    f2: "framing_seen cd ?m seen (seen r) fr4 r4 [f1, f2]" "df_kind f2 = PairAccepted" "decode_accepted ms (df_payload f2) = Some accepted"
    by auto
  have "seen r' = seen r4"
    using sd assms(2) by (auto simp: framing_shutdown_def read_log_def split: result.splits) (metis fst_conv)
  with f2(1) obtain bytes d where b: "seen r' = seen r @ bytes"
    "decoder_feed cd (with_maximum_body_bytes ?m) bytes = (d, Ok (f1 # f2 # pf_queued fr4))"
    by (auto simp: framing_seen_def)
  have "pc_host_nonce challenge = pc_host_nonce challenge_wire"
    using ch by (auto simp: pair_challenge_from_wire_def pair_challenge_new_def from_bytes_def split: if_splits)
  with validate_pair_accepted_Ok[OF assms(1) acc] controller_transcript_bytes[OF begin' tr] io f1(2,3) f2(2,3) b
  show ?thesis unfolding accepted_from_def by metis
qed

text \<open>C9: a reported success is authentic.  Pairing, combined with the normal confirmation, succeeds
  only if the normal protocol confirmed the expected host with a nonzero generation.  If the
  handshake also yielded a generation, the confirmed one is not older, and the generation was
  received in this handshake: the stream ends at this controller and at the host of the ticket,
  the bytes read from it since the handshake began decode to a challenge followed by the
  acceptance of this generation, and the acceptance carries the tag that the offer key of the
  ticket gives to the handshake (the ticket, both devices, the offer, the nonce this controller
  drew and the nonce of that challenge, its name, the versions and the expiry) and to the
  generation.  If the handshake yielded no generation, it ended in an error, and the success
  rests on the normal confirmation alone.\<close>

theorem accepted_generation_authentic:
  assumes "mac_verifies cr" "read_log io seen"
    "run_controller_pair cr cd ms io r ticket secret device_id name limits deadline nonce clock = (r', a)"
    "resolve_normal_confirmation expected a confirmation = Ok c"
  shows "confirmation = Ok c \<and> ca_remote c = expected \<and> 0 < ca_generation c \<and>
    (case at_accepted_generation a of
       None \<Rightarrow> at_error a \<noteq> None
     | Some g \<Rightarrow> 0 < g \<and> g \<le> ca_generation c \<and> io_local io = device_id \<and> io_remote io = host_device_id ticket \<and>
         (\<exists>n bytes. nonce = Ok n \<and> seen r' = seen r @ bytes \<and>
            accepted_from cr cd ms (max_pair_hello_frame_bytes limits) ticket secret device_id name n g bytes))"
proof -
  have "confirmation = Ok c \<and> ca_remote c = expected \<and> 0 < ca_generation c \<and>
      (\<forall>g. at_accepted_generation a = Some g \<longrightarrow> g \<le> ca_generation c)"
    using assms(4) by (auto simp: resolve_normal_confirmation_def split: result.splits if_splits option.splits)
  with run_without_generation[OF assms(3)] run_accepted_from[OF assms(1-3)] show ?thesis
    by (cases "at_accepted_generation a") auto
qed

subsection \<open>Two concrete handshakes\<close>

text \<open>One read that delivers exactly one frame.\<close>

lemma read_message_one:
  assumes fr: "pf_queued fr = []" "\<not> pf_reached_eof fr" "pf_decoder fr = Some d" "budget_ok (pf_budget fr)"
    and d: "fd_prefix d = []" "fd_body d = []" "fd_expected_body d = None"
    and body: "length body \<le> MAX_FRAME_BYTES" "length body \<le> fd_maximum_body_bytes d"
      "decode_wire_frame cd body (fd_maximum_body_bytes d) = Ok f" "df_kind f = expected"
      "df_request_id f = 0" "df_deadline_ms f = 0"
    and rd: "read r (min (budget_remaining (pf_budget fr)) READ_BUFFER_BYTES) = (r', Ok (encode_varint (length body) @ body))"
      "length (encode_varint (length body) @ body) \<le> min (budget_remaining (pf_budget fr)) READ_BUFFER_BYTES"
    and ok: "validate_pair_kind expected = Ok ()" "now < pf_total_deadline fr" "now < deadline"
      "decode (df_payload f) = Some m"
  shows "read_message cd read decode fr r now expected deadline =
    (fr\<lparr>pf_budget := pf_budget fr\<lparr>budget_used := budget_used (pf_budget fr) +
        length (encode_varint (length body) @ body)\<rparr>\<rparr>, r', Ok m)"
proof -
  define bytes where "bytes = encode_varint (length body) @ body"
  define allowed where "allowed = min (budget_remaining (pf_budget fr)) READ_BUFFER_BYTES"
  have bytes: "bytes \<noteq> []" "length bytes \<le> allowed" "length bytes \<le> budget_remaining (pf_budget fr)"
    using rd(2) by (simp_all add: bytes_def allowed_def)
  have "allowed \<noteq> 0" using bytes by (cases bytes) auto
  have fed: "decoder_feed cd d bytes = (d, Ok [f])"
    using feed_body_frame[OF d body(1-3), of "[]" "[]"] by (simp add: decoder_feed_def bytes_def)
  have "read_loop cd read fr r = (fr\<lparr>pf_budget := pf_budget fr\<lparr>budget_used :=
      budget_used (pf_budget fr) + length bytes\<rparr>\<rparr>, r', Ok f)"
    unfolding read_loop.simps[of cd read fr r] allowed_def[symmetric]
    using \<open>allowed \<noteq> 0\<close> bytes fed rd(1)[folded allowed_def] budget_record_fits(1)[OF fr(4) bytes(3)] fr
    by (cases fr) (simp add: Let_def bytes_def[symmetric])
  then show ?thesis
    using fr ok body(4-6) by (simp add: read_message_def next_frame_def effective_deadline_def
        validate_metadata_def decode_message_def bytes_def[symmetric] Let_def)
qed

text \<open>Empty messages in the fixed-width codec: 24 bytes of header.\<close>

definition empty_frame :: "wire_kind \<Rightarrow> decoded_frame" where
  "empty_frame k = \<lparr>df_kind = k, df_request_id = 0, df_deadline_ms = 0, df_payload = []\<rparr>"

definition empty_body :: "wire_kind \<Rightarrow> byte list" where
  "empty_body k = encode_frame demo_codec \<lparr>wf_wire_major = WIRE_MAJOR, wf_kind = wire_kind_number k,
     wf_payload = [], wf_request_id = 0, wf_deadline_ms = 0, wf_payload_encoding = 0\<rparr>"

lemma empty_body_length: "length (empty_body k) = 24" "length (encode_varint 24) = 1"
proof -
  show "length (empty_body k) = 24" by (simp add: empty_body_def demo_codec_def)
  show "length (encode_varint 24) = 1" by (subst encode_varint.simps) simp
qed

lemma empty_encodes: "encode_payload demo_codec k 0 0 [] = Ok (encode_varint 24 @ empty_body k)"
  using empty_body_length(1)[of k]
  by (simp add: encode_payload_def validate_payload_limit_def empty_body_def MAX_FRAME_BYTES_def)

lemma empty_decodes: "decode_wire_frame demo_codec (empty_body k) m = Ok (empty_frame k)"
proof -
  let ?w = "\<lparr>wf_wire_major = WIRE_MAJOR, wf_kind = wire_kind_number k, wf_payload = [],
    wf_request_id = 0, wf_deadline_ms = 0, wf_payload_encoding = 0\<rparr>"
  have "wire_frame_typed ?w"
    using wire_kind_number_u32[of k] by (simp add: wire_frame_typed_def WIRE_MAJOR_def)
  then have "decode_frame demo_codec (empty_body k) = Some ?w"
    using demo_codec_ok(1) by (simp add: codec_roundtrip_def empty_body_def)
  then show ?thesis
    by (simp add: decode_wire_frame_def decode_payload_def validate_payload_limit_def empty_frame_def)
qed

lemma empty_write:
  assumes "k \<in> {PairBegin, PairProof}" "now < pf_total_deadline fr" "now < deadline"
    "budget_ok (pf_budget fr)" "25 \<le> budget_remaining (pf_budget fr)"
  shows "write_message demo_codec write fr r now k [] deadline =
    (fr\<lparr>pf_budget := pf_budget fr\<lparr>budget_used := budget_used (pf_budget fr) + 25\<rparr>\<rparr>,
     write r (encode_varint 24 @ empty_body k))"
  using assms budget_record_fits(1)[OF assms(4,5)] empty_body_length
  by (auto simp: write_message_def validate_pair_kind_def effective_deadline_def empty_encodes Let_def ensure_def)

lemma empty_read:
  assumes "pf_queued fr = []" "\<not> pf_reached_eof fr" "pf_decoder fr = Some (with_maximum_body_bytes m)" "24 \<le> m"
    "budget_ok (pf_budget fr)" "25 \<le> budget_remaining (pf_budget fr)"
    "k \<in> {PairChallenge, PairAccepted}" "now < pf_total_deadline fr" "now < deadline"
    "\<And>n. 25 \<le> n \<Longrightarrow> read r n = (r', Ok (encode_varint 24 @ empty_body k))" "decode [] = Some msg"
  shows "read_message demo_codec read decode fr r now k deadline =
    (fr\<lparr>pf_budget := pf_budget fr\<lparr>budget_used := budget_used (pf_budget fr) + 25\<rparr>\<rparr>, r', Ok msg)"
proof -
  note len = empty_body_length(1)[of k]
  have "validate_pair_kind k = Ok ()" using assms(7) by (auto simp: validate_pair_kind_def ensure_def)
  then show ?thesis
    using read_message_one[OF assms(1,2,3,5), where body = "empty_body k" and f = "empty_frame k"
        and cd = demo_codec and read = read and r = r and r' = r' and expected = k and now = now and deadline = deadline
        and decode = decode and m = msg] assms(4,6,8-11) empty_decodes
    by (simp add: len empty_body_length(2) with_maximum_body_bytes_def MAX_FRAME_BYTES_def
        READ_BUFFER_BYTES_def empty_frame_def)
qed

text \<open>A host that accepts everything, over a MAC whose tags are all equal: the stream
  state holds the frames written and the bytes read so far.\<close>

definition zero_crypto :: crypto where
  "zero_crypto = \<lparr>sha256 = (\<lambda>_. replicate 32 0), hmac_sha256 = (\<lambda>_ _. replicate 32 0),
     verify_hmac_sha256 = (\<lambda>_ _ proof. proof = replicate 32 0)\<rparr>"

definition demo_messages :: pair_messages where
  "demo_messages = \<lparr>encode_begin = (\<lambda>_. []),
     decode_challenge = (\<lambda>_. Some \<lparr>pc_host_nonce = replicate 32 6, pc_selected_version = 1, pc_ticket_expiry_unix = 100\<rparr>),
     encode_proof = (\<lambda>_. []),
     decode_accepted = (\<lambda>_. Some \<lparr>pa_authorization_generation = 7,
       pa_host_confirmation_proof = replicate 32 0, pa_host_diagnostic_version = lit ''v''\<rparr>)\<rparr>"

definition demo_io :: "bool \<Rightarrow> (byte list list \<times> byte list) pair_io" where
  "demo_io answers = \<lparr>io_local = replicate 32 3, io_remote = replicate 32 1,
     io_read = (\<lambda>r n. if answers
        then (let bytes = encode_varint 24 @ empty_body (if length (fst r) = 1 then PairChallenge else PairAccepted)
              in ((fst r, snd r @ take n bytes), Ok bytes))
        else (r, Err TransportUnavailable)),
     io_write = (\<lambda>r bytes. ((fst r @ [bytes], snd r), Ok ())), io_shutdown = (\<lambda>r. (r, Ok ()))\<rparr>"

definition demo_run :: "bool \<Rightarrow> (byte list list \<times> byte list) \<times> controller_pair_attempt" where
  "demo_run answers = run_controller_pair zero_crypto demo_codec demo_messages (demo_io answers) ([], [])
     (demo_ticket 100) (replicate 32 0) (replicate 32 3) [99] default_transport_limits 10
     (Ok (replicate 32 5)) (\<lambda>_. 0)"

definition demo_framing :: "nat \<Rightarrow> pair_framing" where
  "demo_framing used = \<lparr>pf_decoder = Some (with_maximum_body_bytes (max_pair_hello_frame_bytes default_transport_limits)),
     pf_queued = [], pf_budget = \<lparr>budget_used = used,
       budget_maximum = max_pair_handshake_bytes default_transport_limits\<rparr>,
     pf_total_deadline = 10, pf_reached_eof = False\<rparr>"

lemma demo_framing_new:
  "pair_framing_new (max_pair_hello_frame_bytes default_transport_limits)
    (max_pair_handshake_bytes default_transport_limits) 10 = Ok (demo_framing 0)"
  by (simp add: pair_framing_new_def default_transport_limits_def MAX_PAIR_HELLO_FRAME_BYTES_def
      MAX_PAIR_HANDSHAKE_BYTES_def budget_with_maximum_def demo_framing_def)

lemma demo_framing_simps:
  "pf_queued (demo_framing used) = []" "\<not> pf_reached_eof (demo_framing used)"
  "used \<le> 100 \<Longrightarrow> budget_ok (pf_budget (demo_framing used))"
  "used \<le> 100 \<Longrightarrow> 25 \<le> budget_remaining (pf_budget (demo_framing used))"
  "pf_total_deadline (demo_framing used) = 10"
  "(demo_framing used)\<lparr>pf_budget := pf_budget (demo_framing used)\<lparr>budget_used :=
      budget_used (pf_budget (demo_framing used)) + 25\<rparr>\<rparr> = demo_framing (used + 25)"
  by (simp_all add: demo_framing_def default_transport_limits_def budget_ok_def budget_remaining_def
      MAX_PAIR_HANDSHAKE_BYTES_def)

definition demo_begin :: pair_begin where
  "demo_begin = \<lparr>pb_offer_id = tk_offer_id (demo_ticket 100), pb_controller_name = [99],
     pb_controller_nonce = replicate 32 5, pb_pair_protocol_version = 1\<rparr>"

lemma demo_begin_new:
  "pair_begin_new (tk_offer_id (demo_ticket 100)) [99] (replicate 32 5) PAIR_PROTOCOL_VERSION = Ok demo_begin"
  by (simp add: pair_begin_new_def parse_device_name_def device_display_name_new_def
      validate_protocol_version_def PAIR_PROTOCOL_VERSION_def demo_begin_def lit_def str_len_def
      MAX_DEVICE_DISPLAY_NAME_BYTES_def is_control_def utf8_def utf8_char_def utf8_lead_def)

lemma demo_write:
  assumes "used \<le> 100" "k \<in> {PairBegin, PairProof}"
  shows "write_message demo_codec (io_write (demo_io b)) (demo_framing used) r 0 k [] 10 =
    (demo_framing (used + 25), (fst r @ [encode_varint 24 @ empty_body k], snd r), Ok ())"
  using empty_write[OF assms(2), of 0 "demo_framing used" 10 "io_write (demo_io b)" r]
    demo_framing_simps[of used] assms(1)
  by (simp add: demo_io_def)

lemma demo_read:
  assumes "used \<le> 100" "k = (if length w = 1 then PairChallenge else PairAccepted)" "decode [] = Some msg"
  shows "read_message demo_codec (io_read (demo_io True)) decode (demo_framing used) (w, s) 0 k 10 =
    (demo_framing (used + 25), (w, s @ encode_varint 24 @ empty_body k), Ok msg)"
  using empty_read[of "demo_framing used" "max_pair_hello_frame_bytes default_transport_limits" k 0 10
      "io_read (demo_io True)" "(w, s)" "(w, s @ encode_varint 24 @ empty_body k)" decode msg] demo_framing_simps[of used] assms
    empty_body_length
  by (simp add: demo_io_def demo_framing_def default_transport_limits_def MAX_PAIR_HELLO_FRAME_BYTES_def Let_def)

lemma demo_read_fails:
  "read_message demo_codec (io_read (demo_io False)) decode (demo_framing 25) r 0 PairChallenge 10 =
    (demo_framing 25, r, Err TransportUnavailable)"
proof -
  have "read_loop demo_codec (io_read (demo_io False)) (demo_framing 25) r =
      (demo_framing 25, r, Err TransportUnavailable)"
    by (subst read_loop.simps)
      (simp add: demo_io_def demo_framing_def budget_remaining_def default_transport_limits_def
        MAX_PAIR_HANDSHAKE_BYTES_def READ_BUFFER_BYTES_def)
  then show ?thesis
    by (simp add: read_message_def next_frame_def validate_pair_kind_def effective_deadline_def ensure_def
        demo_framing_simps)
qed

lemma demo_ids:
  "io_local (demo_io b) = replicate 32 3" "io_remote (demo_io b) = replicate 32 1"
  "host_device_id (demo_ticket 100) = replicate 32 1" "replicate 32 (3 :: byte) \<noteq> replicate 32 1"
  "encode_begin demo_messages m = []" "encode_proof demo_messages p = []"
  by (simp_all add: demo_io_def demo_ticket_def demo_messages_def)

lemma demo_run_fails:
  "demo_run False = (([encode_varint 24 @ empty_body PairBegin], []), attempt_failed TransportUnavailable False)"
  unfolding demo_run_def run_controller_pair_def
  by (simp add: demo_ids demo_framing_new demo_begin_new demo_write demo_read_fails)

theorem definite_failure_sent_no_proof_witness:
  "\<exists>w. fst (fst (demo_run False)) = [] @ w \<and> only_begin demo_codec demo_messages w"
proof -
  have "write_log (demo_io False) fst" by (simp add: write_log_def demo_io_def)
  moreover have "resolve_normal_confirmation (replicate 32 1) (attempt_failed TransportUnavailable False)
      (Err DeadlineExceeded) = Err TransportUnavailable"
    by (simp add: resolve_normal_confirmation_def attempt_failed_def)
  ultimately show ?thesis
    using definite_failure_sent_no_proof[of "demo_io False" fst, OF _ demo_run_fails[unfolded demo_run_def]]
    by (simp add: demo_run_fails)
qed

definition demo_challenge :: pair_challenge where
  "demo_challenge = \<lparr>pc_host_nonce = replicate 32 6, pc_selected_version = 1, pc_ticket_expiry_unix = 100\<rparr>"

lemma demo_transcript_ok:
  "\<exists>t. controller_transcript zero_crypto (demo_ticket 100) (replicate 32 1) (replicate 32 3) demo_begin demo_challenge = Ok t"
  by (simp add: controller_transcript_def demo_begin_def demo_challenge_def demo_ticket_def pair_transcript_new_def
      validate_protocol_version_def PAIR_PROTOCOL_VERSION_def parse_device_name_def device_display_name_new_def
      lit_def str_len_def MAX_DEVICE_DISPLAY_NAME_BYTES_def is_control_def utf8_def utf8_char_def utf8_lead_def
      canonical_transcript_bytes_def push_len_prefixed_utf8_def Let_def)

lemma demo_run_succeeds:
  "\<exists>r. demo_run True = (r, \<lparr>at_accepted_generation = Some 7, at_repair_required = True, at_error = None\<rparr>)"
proof -
  obtain t where t: "controller_transcript zero_crypto (demo_ticket 100) (replicate 32 1) (replicate 32 3)
      demo_begin demo_challenge = Ok t"
    using demo_transcript_ok by blast
  have ch: "decode_challenge demo_messages [] = Some demo_challenge"
    by (simp add: demo_messages_def demo_challenge_def)
  have wire: "pair_challenge_from_wire demo_challenge = Ok demo_challenge"
    by (simp add: pair_challenge_from_wire_def demo_challenge_def from_bytes_def pair_challenge_new_def
        validate_protocol_version_def PAIR_PROTOCOL_VERSION_def)
  define acc where "acc = \<lparr>pa_authorization_generation = 7,
    pa_host_confirmation_proof = replicate 32 (0 :: byte), pa_host_diagnostic_version = lit ''v''\<rparr>"
  have acc: "decode_accepted demo_messages [] = Some acc" by (simp add: demo_messages_def acc_def)
  have valid: "validate_pair_accepted zero_crypto acc t key = Ok 7" for key
    by (simp add: validate_pair_accepted_def acc_def auth_generation_new_def SQLITE_MAX_def
        device_display_name_new_def lit_def str_len_def MAX_DEVICE_DISPLAY_NAME_BYTES_def is_control_def
        utf8_def utf8_char_def utf8_lead_def verify_host_confirmation_def zero_crypto_def)
  have sd: "framing_shutdown (io_shutdown (demo_io True)) (demo_framing 100) r 0 10 = (r, Ok ())" for r
    by (simp add: framing_shutdown_def effective_deadline_def demo_framing_simps demo_io_def)
  let ?b = "encode_varint 24 @ empty_body PairBegin" and ?p = "encode_varint 24 @ empty_body PairProof"
  have r1: "read_message demo_codec (io_read (demo_io True)) (decode_challenge demo_messages) (demo_framing 25) ([?b], s) 0
      PairChallenge 10 = (demo_framing 50, ([?b], s @ encode_varint 24 @ empty_body PairChallenge), Ok demo_challenge)" for s
    using demo_read[of 25 PairChallenge "[?b]" "decode_challenge demo_messages" demo_challenge] ch by simp
  have r2: "read_message demo_codec (io_read (demo_io True)) (decode_accepted demo_messages) (demo_framing 75) ([?b, ?p], s) 0
      PairAccepted 10 = (demo_framing 100, ([?b, ?p], s @ encode_varint 24 @ empty_body PairAccepted), Ok acc)" for s
    using demo_read[of 75 PairAccepted "[?b, ?p]" "decode_accepted demo_messages" acc] acc by simp
  show ?thesis
    unfolding demo_run_def run_controller_pair_def
    by (simp add: demo_ids demo_framing_new demo_begin_new demo_write r1 r2 wire t valid sd Let_def)
qed

theorem accepted_generation_authentic_witness:
  "\<exists>bytes. snd (fst (demo_run True)) = bytes \<and>
    accepted_from zero_crypto demo_codec demo_messages (max_pair_hello_frame_bytes default_transport_limits) (demo_ticket 100)
      (replicate 32 0) (replicate 32 3) [99] (replicate 32 5) 7 bytes"
proof -
  obtain r where r: "demo_run True = (r, \<lparr>at_accepted_generation = Some 7, at_repair_required = True, at_error = None\<rparr>)"
    using demo_run_succeeds by blast
  let ?c = "\<lparr>ca_remote = replicate 32 1, ca_generation = 7, ca_verified_relay = None\<rparr>"
  have mac: "mac_verifies zero_crypto" by (simp add: mac_verifies_def zero_crypto_def)
  have log: "read_log (demo_io True) snd" by (simp add: read_log_def demo_io_def Let_def)
  have ok: "resolve_normal_confirmation (replicate 32 1)
      \<lparr>at_accepted_generation = Some 7, at_repair_required = True, at_error = None\<rparr> (Ok ?c) = Ok ?c"
    by (simp add: resolve_normal_confirmation_def)
  from accepted_generation_authentic[OF mac log r[unfolded demo_run_def] ok] show ?thesis by (simp add: r)
qed

end
