(* ===== verification/Wire_Values.thy ===== *)
theory Wire_Values
  imports Wire_Framing Transport Operation_Window
begin

section \<open>Wire messages and validated values\<close>

text \<open>
  The conversions of \<open>proto/src/lib.rs\<close> between generated protobuf messages and the
  validated domain values: identifiers of operations, the pairing and connection
  handshakes, device summaries, the text of a pairing ticket and the persisted
  relay route cache.  A generated message is a record with the raw fields.

  Every conversion obeys the contract \<open>wire_value\<close>: what is sent is received
  unchanged, and whatever is received is a valid value.

  Base64 and the generated codecs are the record \<open>text_codec\<close>; \<open>ticket_codec_ok\<close> and
  \<open>cache_codec_ok\<close> say what is assumed of them at the message that is encoded.
\<close>

locale wire_value =
  fixes to_wire :: "'v \<Rightarrow> 'w" and from_wire :: "'w \<Rightarrow> ('v, 'e) result" and valid :: "'v \<Rightarrow> bool"
  assumes received: "valid v \<Longrightarrow> from_wire (to_wire v) = Ok v"
    and parsed: "from_wire w = Ok v \<Longrightarrow> valid v"
begin

lemma to_wire_inject: "valid v \<Longrightarrow> valid v' \<Longrightarrow> to_wire v = to_wire v' \<longleftrightarrow> v = v'"
  using received by (metis result.inject(1))

lemma received_iff: "from_wire (to_wire v) = Ok v \<longleftrightarrow> valid v"
  using parsed received by blast

lemma range_valid: "{v. \<exists>w. from_wire w = Ok v} = {v. valid v}"
  using parsed received by blast

lemma reencode: "from_wire w = Ok v \<Longrightarrow> from_wire (to_wire v) = Ok v"
  using parsed received by blast

end

subsection \<open>Operation identifiers\<close>

record operation_id_wire =
  ow_lease_ordinal :: nat
  ow_sequence :: nat
  ow_daemon_incarnation :: "byte list"

definition operation_id_to_wire :: "operation_id \<Rightarrow> operation_id_wire" where
  "operation_id_to_wire v = \<lparr>ow_lease_ordinal = ordinal (lease v), ow_sequence = sequence v,
     ow_daemon_incarnation = daemon_incarnation (lease v)\<rparr>"

definition operation_id_from_wire :: "operation_id_wire \<Rightarrow> (operation_id, id_length_error) result" where
  "operation_id_from_wire w =
    res_bind (from_bytes ''DaemonIncarnation'' 16 (ow_daemon_incarnation w)) (\<lambda>incarnation.
    Ok \<lparr>lease = \<lparr>daemon_incarnation = incarnation, ordinal = ow_lease_ordinal w\<rparr>, sequence = ow_sequence w\<rparr>)"

record operation_lease_wire =
  lw_daemon_incarnation :: "byte list"
  lw_ordinal :: nat

definition operation_lease_to_wire :: "operation_lease \<Rightarrow> operation_lease_wire" where
  "operation_lease_to_wire v = \<lparr>lw_daemon_incarnation = daemon_incarnation v, lw_ordinal = ordinal v\<rparr>"

definition operation_lease_from_wire :: "operation_lease_wire \<Rightarrow> (operation_lease, id_length_error) result" where
  "operation_lease_from_wire w =
    res_bind (from_bytes ''DaemonIncarnation'' 16 (lw_daemon_incarnation w)) (\<lambda>incarnation.
    Ok \<lparr>daemon_incarnation = incarnation, ordinal = lw_ordinal w\<rparr>)"

lemma from_bytes_Ok_iff [simp]: "from_bytes name width bytes = Ok v \<longleftrightarrow> length bytes = width \<and> v = bytes"
  by (auto simp: from_bytes_def)

interpretation operation_id_value: wire_value operation_id_to_wire operation_id_from_wire
  "\<lambda>v. length (daemon_incarnation (lease v)) = 16"
  by unfold_locales (auto simp: operation_id_to_wire_def operation_id_from_wire_def)

interpretation operation_lease_value: wire_value operation_lease_to_wire operation_lease_from_wire
  "\<lambda>v. length (daemon_incarnation v) = 16"
  by unfold_locales (auto simp: operation_lease_to_wire_def operation_lease_from_wire_def)

subsection \<open>Handshake messages\<close>

datatype wire_field_error =
    FieldInvalidIdentifier id_length_error
  | FieldInvalidPair pair_ticket_error
  | FieldInvalidConnection connection_error
  | FieldInvalidAlias device_alias_error
  | FieldInvalidSummary device_summary_error
  | FieldInvalidAuthStatus int
  | FieldInvalidGeneration nat

text \<open>The generated pairing messages have the fields of the validated ones, so the same
  records serve for both; \<open>_try_from\<close> validates.\<close>

definition pair_begin_try_from :: "pair_begin \<Rightarrow> (pair_begin, wire_field_error) result" where
  "pair_begin_try_from w =
    res_bind (map_err FieldInvalidIdentifier (from_bytes ''PairOfferId'' 16 (pb_offer_id w))) (\<lambda>offer.
    res_bind (map_err FieldInvalidIdentifier (from_bytes ''PairNonce'' 32 (pb_controller_nonce w))) (\<lambda>nonce.
    map_err FieldInvalidPair (pair_begin_new offer (pb_controller_name w) nonce (pb_pair_protocol_version w))))"

definition pair_begin_to_wire :: "pair_begin \<Rightarrow> pair_begin" where
  "pair_begin_to_wire v = \<lparr>pb_offer_id = pb_offer_id v, pb_controller_name = pb_controller_name v,
     pb_controller_nonce = pb_controller_nonce v, pb_pair_protocol_version = pb_pair_protocol_version v\<rparr>"

definition pair_challenge_try_from :: "pair_challenge \<Rightarrow> (pair_challenge, wire_field_error) result" where
  "pair_challenge_try_from w =
    res_bind (map_err FieldInvalidIdentifier (from_bytes ''PairNonce'' 32 (pc_host_nonce w))) (\<lambda>nonce.
    map_err FieldInvalidPair (pair_challenge_new nonce (pc_selected_version w) (pc_ticket_expiry_unix w)))"

definition pair_challenge_to_wire :: "pair_challenge \<Rightarrow> pair_challenge" where
  "pair_challenge_to_wire v = \<lparr>pc_host_nonce = pc_host_nonce v, pc_selected_version = pc_selected_version v,
     pc_ticket_expiry_unix = pc_ticket_expiry_unix v\<rparr>"

definition pair_proof_try_from :: "byte list \<Rightarrow> (byte list, wire_field_error) result" where
  "pair_proof_try_from w = map_err FieldInvalidIdentifier (pair_proof_from_slice w)"

definition pair_accepted_try_from :: "pair_accepted \<Rightarrow> (pair_accepted, wire_field_error) result" where
  "pair_accepted_try_from w =
    res_bind (ok_or (auth_generation_new (pa_authorization_generation w))
      (FieldInvalidGeneration (pa_authorization_generation w))) (\<lambda>gen.
    res_bind (map_err FieldInvalidIdentifier (pair_proof_from_slice (pa_host_confirmation_proof w))) (\<lambda>proof.
    map_err FieldInvalidPair (pair_accepted_from_proof gen proof (pa_host_diagnostic_version w))))"

definition pair_accepted_to_wire :: "pair_accepted \<Rightarrow> pair_accepted" where
  "pair_accepted_to_wire v = \<lparr>pa_authorization_generation = pa_authorization_generation v,
     pa_host_confirmation_proof = pa_host_confirmation_proof v,
     pa_host_diagnostic_version = pa_host_diagnostic_version v\<rparr>"

definition pair_begin_valid :: "pair_begin \<Rightarrow> bool" where
  "pair_begin_valid v \<longleftrightarrow> length (pb_offer_id v) = 16 \<and> length (pb_controller_nonce v) = 32 \<and>
     is_ok (device_display_name_new (pb_controller_name v)) \<and> pb_pair_protocol_version v = PAIR_PROTOCOL_VERSION"

definition pair_challenge_valid :: "pair_challenge \<Rightarrow> bool" where
  "pair_challenge_valid v \<longleftrightarrow> length (pc_host_nonce v) = 32 \<and> pc_selected_version v = PAIR_PROTOCOL_VERSION"

definition pair_accepted_valid :: "pair_accepted \<Rightarrow> bool" where
  "pair_accepted_valid v \<longleftrightarrow> 0 < pa_authorization_generation v \<and>
     auth_generation_new (pa_authorization_generation v) = Some (pa_authorization_generation v) \<and>
     length (pa_host_confirmation_proof v) = 32 \<and> is_ok (device_display_name_new (pa_host_diagnostic_version v))"

lemma device_display_name_Ok: "device_display_name_new s = Ok t \<longleftrightarrow> is_ok (device_display_name_new s) \<and> t = s"
  by (auto simp: device_display_name_new_def)

lemma parse_device_name_Ok [simp]:
  "parse_device_name s = Ok t \<longleftrightarrow> is_ok (device_display_name_new s) \<and> t = s"
  "validate_device_name s = Ok u \<longleftrightarrow> is_ok (device_display_name_new s)"
  by (auto simp: parse_device_name_def validate_device_name_def device_display_name_Ok)

lemma validate_protocol_version_Ok [simp]:
  "validate_protocol_version v = Ok u \<longleftrightarrow> v = PAIR_PROTOCOL_VERSION"
  by (auto simp: validate_protocol_version_def)

lemma auth_generation_new_Some: "auth_generation_new n = Some g \<Longrightarrow> g = n \<and> auth_generation_new g = Some g"
  by (auto simp: auth_generation_new_def split: if_splits)

interpretation pair_begin_value: wire_value pair_begin_to_wire pair_begin_try_from pair_begin_valid
  by unfold_locales
    (auto simp: pair_begin_to_wire_def pair_begin_try_from_def pair_begin_valid_def pair_begin_new_def)

interpretation pair_challenge_value: wire_value pair_challenge_to_wire pair_challenge_try_from pair_challenge_valid
  by unfold_locales
    (auto simp: pair_challenge_to_wire_def pair_challenge_try_from_def pair_challenge_valid_def pair_challenge_new_def)

interpretation pair_accepted_value: wire_value pair_accepted_to_wire pair_accepted_try_from pair_accepted_valid
  by unfold_locales
    (auto simp: pair_accepted_to_wire_def pair_accepted_try_from_def pair_accepted_valid_def
      pair_accepted_from_proof_def pair_proof_from_slice_def PAIR_SECRET_BYTES_def
      dest: auth_generation_new_Some split: if_splits)

subsection \<open>Hello and Welcome\<close>

definition decode_connection_incarnation :: "byte list \<Rightarrow> (connection_incarnation option, wire_field_error) result" where
  "decode_connection_incarnation bytes =
    (if bytes = [] then Ok None
     else res_bind (map_err FieldInvalidIdentifier (from_bytes ''ConnectionIncarnation'' 16 bytes)) (\<lambda>i. Ok (Some i)))"

definition encode_incarnation :: "connection_incarnation option \<Rightarrow> byte list" where
  "encode_incarnation i = (case i of None \<Rightarrow> [] | Some b \<Rightarrow> b)"

record connection_hello_wire =
  hw_min_wire_major :: nat
  hw_max_wire_major :: nat
  hw_capabilities :: "64 word"
  hw_attempt_id :: "byte list"
  hw_initiator_display :: rust_str
  hw_initiator_build :: rust_str
  hw_initiator_platform :: rust_str
  hw_incarnation :: "byte list"

definition hello_try_from :: "connection_hello_wire \<Rightarrow> (connection_hello, wire_field_error) result" where
  "hello_try_from w =
    res_bind (decode_connection_incarnation (hw_incarnation w)) (\<lambda>incarnation.
    res_bind (map_err FieldInvalidIdentifier (from_bytes ''ConnectionAttemptId'' 16 (hw_attempt_id w))) (\<lambda>attempt.
    res_bind (map_err FieldInvalidConnection
      (connection_hello_new (hw_min_wire_major w) (hw_max_wire_major w) (hw_capabilities w) attempt
        (hw_initiator_display w) (hw_initiator_build w) (hw_initiator_platform w))) (\<lambda>hello.
    Ok (hello_with_incarnation hello incarnation))))"

definition hello_to_wire :: "connection_hello \<Rightarrow> connection_hello_wire" where
  "hello_to_wire v = \<lparr>hw_min_wire_major = hello_min_wire_major v, hw_max_wire_major = hello_max_wire_major v,
     hw_capabilities = hello_capabilities v, hw_attempt_id = hello_attempt_id v,
     hw_initiator_display = hello_display v, hw_initiator_build = hello_build v,
     hw_initiator_platform = hello_platform v, hw_incarnation = encode_incarnation (hello_incarnation v)\<rparr>"

record connection_welcome_wire =
  ww_wire_major :: nat
  ww_capabilities :: "64 word"
  ww_responder_display :: rust_str
  ww_responder_build :: rust_str
  ww_responder_platform :: rust_str
  ww_accepted_authorization_generation :: nat
  ww_incarnation :: "byte list"

definition welcome_try_from :: "connection_welcome_wire \<Rightarrow> (connection_welcome, wire_field_error) result" where
  "welcome_try_from w =
    res_bind (decode_connection_incarnation (ww_incarnation w)) (\<lambda>incarnation.
    res_bind (ok_or (auth_generation_new (ww_accepted_authorization_generation w))
      (FieldInvalidGeneration (ww_accepted_authorization_generation w))) (\<lambda>gen.
    res_bind (map_err FieldInvalidConnection
      (connection_welcome_new (ww_wire_major w) (ww_capabilities w) (ww_responder_display w)
        (ww_responder_build w) (ww_responder_platform w) gen)) (\<lambda>welcome.
    Ok (welcome_with_incarnation welcome incarnation))))"

definition welcome_to_wire :: "connection_welcome \<Rightarrow> connection_welcome_wire" where
  "welcome_to_wire v = \<lparr>ww_wire_major = welcome_wire_major v, ww_capabilities = welcome_capabilities v,
     ww_responder_display = welcome_display v, ww_responder_build = welcome_build v,
     ww_responder_platform = welcome_platform v,
     ww_accepted_authorization_generation = welcome_generation v,
     ww_incarnation = encode_incarnation (welcome_incarnation v)\<rparr>"

definition incarnation_valid :: "connection_incarnation option \<Rightarrow> bool" where
  "incarnation_valid i \<longleftrightarrow> (case i of None \<Rightarrow> True | Some b \<Rightarrow> length b = 16)"

definition hello_valid :: "connection_hello \<Rightarrow> bool" where
  "hello_valid v \<longleftrightarrow> 0 < hello_min_wire_major v \<and> hello_min_wire_major v \<le> hello_max_wire_major v \<and>
     length (hello_attempt_id v) = 16 \<and> incarnation_valid (hello_incarnation v) \<and>
     list_all (\<lambda>s. is_ok (device_display_name_new s)) [hello_display v, hello_build v, hello_platform v]"

definition welcome_valid :: "connection_welcome \<Rightarrow> bool" where
  "welcome_valid v \<longleftrightarrow> 0 < welcome_wire_major v \<and> 0 < welcome_generation v \<and>
     auth_generation_new (welcome_generation v) = Some (welcome_generation v) \<and>
     incarnation_valid (welcome_incarnation v) \<and>
     list_all (\<lambda>s. is_ok (device_display_name_new s)) [welcome_display v, welcome_build v, welcome_platform v]"

lemma decode_incarnation_iff:
  "decode_connection_incarnation bytes = Ok i \<longleftrightarrow> incarnation_valid i \<and> bytes = encode_incarnation i"
  by (auto simp: decode_connection_incarnation_def incarnation_valid_def encode_incarnation_def split: option.splits)

lemma device_display_name_Ok_self [simp]:
  "device_display_name_new s = Ok s \<longleftrightarrow> is_ok (device_display_name_new s)"
  by (simp add: device_display_name_Ok)

interpretation hello_value: wire_value hello_to_wire hello_try_from hello_valid
proof unfold_locales
  fix v assume "hello_valid v"
  then show "hello_try_from (hello_to_wire v) = Ok v"
    by (cases v) (auto simp: hello_try_from_def hello_to_wire_def hello_valid_def decode_incarnation_iff
        connection_hello_new_def hello_with_incarnation_def device_display_name_Ok)
next
  fix w v assume "hello_try_from w = Ok v"
  then show "hello_valid v"
    by (auto simp: hello_try_from_def hello_valid_def decode_incarnation_iff
        connection_hello_new_def hello_with_incarnation_def device_display_name_Ok split: if_splits)
qed

interpretation welcome_value: wire_value welcome_to_wire welcome_try_from welcome_valid
proof unfold_locales
  fix v assume "welcome_valid v"
  then show "welcome_try_from (welcome_to_wire v) = Ok v"
    by (cases v) (auto simp: welcome_try_from_def welcome_to_wire_def welcome_valid_def decode_incarnation_iff
        connection_welcome_new_def welcome_with_incarnation_def device_display_name_Ok)
next
  fix w v assume "welcome_try_from w = Ok v"
  then show "welcome_valid v"
    by (auto simp: welcome_try_from_def welcome_valid_def decode_incarnation_iff
        connection_welcome_new_def welcome_with_incarnation_def device_display_name_Ok
        dest: auth_generation_new_Some split: if_splits)
qed

subsection \<open>Device messages\<close>

text \<open>An absent identifier message is the default one, whose bytes are empty.\<close>

definition wire_device_id :: "byte list option \<Rightarrow> (device_id, wire_field_error) result" where
  "wire_device_id d = map_err FieldInvalidIdentifier
     (from_bytes ''DeviceId'' 32 (case d of None \<Rightarrow> [] | Some bytes \<Rightarrow> bytes))"

definition rename_request_try_from :: "byte list option \<Rightarrow> rust_str \<Rightarrow>
    (device_id \<times> rust_str, wire_field_error) result" where
  "rename_request_try_from device new_alias =
    res_bind (wire_device_id device) (\<lambda>device_id.
    res_bind (map_err FieldInvalidAlias (device_alias_new new_alias)) (\<lambda>a. Ok (device_id, a)))"

definition revoke_request_try_from :: "byte list option \<Rightarrow> (device_id, wire_field_error) result" where
  "revoke_request_try_from device = wire_device_id device"

record device_summary_wire =
  dw_device_id :: "byte list option"
  dw_outbound_known :: bool
  dw_alias :: rust_str
  dw_remote_name :: rust_str
  dw_route_verified :: bool
  dw_auth_status :: int
  dw_generation :: nat
  dw_paired_at_unix :: nat
  dw_last_seen_at_unix :: nat
  dw_online :: bool
  dw_active_stream_count :: nat
  dw_remote_attachment_count :: nat

definition auth_status_from_wire :: "int \<Rightarrow> (authorization_status, wire_field_error) result" where
  "auth_status_from_wire n =
    (if n = 1 then Ok AuthNone else if n = 2 then Ok Authorized else if n = 3 then Ok Revoked
     else Err (FieldInvalidAuthStatus n))"

primrec auth_status_to_wire :: "authorization_status \<Rightarrow> int" where
  "auth_status_to_wire AuthNone = 1"
| "auth_status_to_wire Authorized = 2"
| "auth_status_to_wire Revoked = 3"

definition summary_try_from :: "device_summary_wire \<Rightarrow> (device_summary, wire_field_error) result" where
  "summary_try_from w =
    res_bind (wire_device_id (dw_device_id w)) (\<lambda>device_id.
    res_bind (ok_or (auth_generation_new (dw_generation w)) (FieldInvalidGeneration (dw_generation w))) (\<lambda>gen.
    res_bind (if dw_alias w = [] then Ok None
      else res_bind (map_err FieldInvalidAlias (device_alias_new (dw_alias w))) (\<lambda>a. Ok (Some a))) (\<lambda>a.
    res_bind (auth_status_from_wire (dw_auth_status w)) (\<lambda>st.
    map_err FieldInvalidSummary (device_summary_new
      \<lparr>sum_device_id = device_id, outbound_known = dw_outbound_known w, sum_alias = a,
       remote_name = dw_remote_name w, route_verified = dw_route_verified w, auth_status = st,
       sum_generation = gen, paired_at_unix = dw_paired_at_unix w,
       last_seen_at_unix = dw_last_seen_at_unix w, online = dw_online w,
       active_stream_count = dw_active_stream_count w,
       remote_attachment_count = dw_remote_attachment_count w\<rparr>)))))"

definition summary_to_wire :: "device_summary \<Rightarrow> device_summary_wire" where
  "summary_to_wire v = \<lparr>dw_device_id = Some (sum_device_id v), dw_outbound_known = outbound_known v,
     dw_alias = (case sum_alias v of None \<Rightarrow> [] | Some a \<Rightarrow> a), dw_remote_name = remote_name v,
     dw_route_verified = route_verified v, dw_auth_status = auth_status_to_wire (auth_status v),
     dw_generation = sum_generation v, dw_paired_at_unix = paired_at_unix v,
     dw_last_seen_at_unix = last_seen_at_unix v, dw_online = online v,
     dw_active_stream_count = active_stream_count v,
     dw_remote_attachment_count = remote_attachment_count v\<rparr>"

definition summary_valid :: "device_summary \<Rightarrow> bool" where
  "summary_valid v \<longleftrightarrow> length (sum_device_id v) = 32 \<and>
     auth_generation_new (sum_generation v) = Some (sum_generation v) \<and>
     (case sum_alias v of None \<Rightarrow> True | Some a \<Rightarrow> device_alias_new a = Ok a) \<and>
     device_summary_new v = Ok v"

lemma auth_status_wire [simp]: "auth_status_from_wire (auth_status_to_wire st) = Ok st"
  by (cases st) (simp_all add: auth_status_from_wire_def)

lemma device_alias_new_Ok: "device_alias_new s = Ok a \<Longrightarrow> a = s \<and> s \<noteq> [] \<and> device_alias_new a = Ok a"
  by (auto simp: device_alias_new_def validate_alias_def split: if_splits)

lemma device_summary_new_Ok: "device_summary_new s = Ok t \<Longrightarrow> t = s"
  by (auto simp: device_summary_new_def split: if_splits authorization_status.splits)

interpretation summary_value: wire_value summary_to_wire summary_try_from summary_valid
proof unfold_locales
  fix v assume v: "summary_valid v"
  show "summary_try_from (summary_to_wire v) = Ok v"
    using v
    by (cases v) (auto simp: summary_try_from_def summary_to_wire_def summary_valid_def wire_device_id_def
        split: option.splits dest: device_alias_new_Ok)
next
  fix w v assume ok: "summary_try_from w = Ok v"
  let ?s = "\<lambda>device_id a st gen. \<lparr>sum_device_id = device_id, outbound_known = dw_outbound_known w, sum_alias = a,
       remote_name = dw_remote_name w, route_verified = dw_route_verified w, auth_status = st,
       sum_generation = gen, paired_at_unix = dw_paired_at_unix w,
       last_seen_at_unix = dw_last_seen_at_unix w, online = dw_online w,
       active_stream_count = dw_active_stream_count w,
       remote_attachment_count = dw_remote_attachment_count w\<rparr>"
  have "\<exists>device_id gen a st. wire_device_id (dw_device_id w) = Ok device_id \<and>
      auth_generation_new (dw_generation w) = Some gen \<and>
      (if dw_alias w = [] then a = None else \<exists>b. device_alias_new (dw_alias w) = Ok b \<and> a = Some b) \<and>
      device_summary_new (?s device_id a st gen) = Ok v"
    using ok by (fastforce simp: summary_try_from_def split: if_splits)
  then obtain device_id gen a st where parts: "wire_device_id (dw_device_id w) = Ok device_id"
      "auth_generation_new (dw_generation w) = Some gen"
      "if dw_alias w = [] then a = None else \<exists>b. device_alias_new (dw_alias w) = Ok b \<and> a = Some b"
    and new: "device_summary_new (?s device_id a st gen) = Ok v" by blast
  have "v = ?s device_id a st gen" using device_summary_new_Ok[OF new] .
  then show "summary_valid v"
    using parts new auth_generation_new_Some[OF parts(2)]
    by (auto simp: summary_valid_def wire_device_id_def split: if_splits dest: device_alias_new_Ok)
qed

datatype pair_operation_error =
    InvalidOperationId id_length_error
  | InvalidFingerprint pair_fingerprint_error

definition validate_pair_operation :: "byte list \<Rightarrow> byte list \<Rightarrow>
    (ephemeral_operation_id \<times> byte list, pair_operation_error) result" where
  "validate_pair_operation op fingerprint =
    res_bind (map_err InvalidOperationId (from_bytes ''EphemeralOperationId'' 16 op)) (\<lambda>operation_id.
    res_bind (map_err InvalidFingerprint (pair_fingerprint_from_slice fingerprint)) (\<lambda>fingerprint.
    Ok (operation_id, fingerprint)))"

subsection \<open>Ticket text and route cache\<close>

record pair_ticket_wire =
  tw_format_version :: nat
  tw_host_device_id :: "byte list option"
  tw_host_name :: rust_str
  tw_relay_urls :: "rust_str list"
  tw_offer_id :: "byte list"
  tw_secret :: "byte list"
  tw_expires_at_unix :: nat

record text_codec =
  encode_ticket_wire :: "pair_ticket_wire \<Rightarrow> byte list"
  decode_ticket_wire :: "byte list \<Rightarrow> pair_ticket_wire option"
  base64_encode :: "byte list \<Rightarrow> rust_str"
  base64_decode :: "rust_str \<Rightarrow> byte list option"
  encode_cache_wire :: "nat \<times> rust_str list \<Rightarrow> byte list"
  decode_cache_wire :: "byte list \<Rightarrow> (nat \<times> rust_str list) option"

definition PAIR_TICKET_PREFIX :: rust_str where "PAIR_TICKET_PREFIX = lit ''voytty-pair-v1:''"
definition RELAY_ROUTE_CACHE_VERSION :: nat where "RELAY_ROUTE_CACHE_VERSION = 1"
definition MAX_RELAY_ROUTE_CACHE_BYTES :: nat where "MAX_RELAY_ROUTE_CACHE_BYTES = 16 * 1024"

datatype ticket_text_error =
    TicketMissingPrefix
  | TicketTextTooLong nat
  | TicketInvalidBase64
  | TicketInvalidProtobuf
  | TicketInvalidIdentifier id_length_error
  | TicketInvalidSecret pair_secret_error
  | TicketInvalidRelayHint relay_hint_error
  | InvalidTicket pair_ticket_error

definition ticket_to_wire :: "pair_ticket_fields \<Rightarrow> byte list \<Rightarrow> pair_ticket_wire" where
  "ticket_to_wire t secret = \<lparr>tw_format_version = format_version t, tw_host_device_id = Some (host_device_id t),
     tw_host_name = host_name t, tw_relay_urls = relay_hints t, tw_offer_id = tk_offer_id t,
     tw_secret = secret, tw_expires_at_unix = tk_expires_at_unix t\<rparr>"

definition ticket_try_from :: "pair_ticket_wire \<Rightarrow> (pair_ticket_fields \<times> byte list, ticket_text_error) result" where
  "ticket_try_from w =
    res_bind (map_err TicketInvalidIdentifier
      (from_bytes ''DeviceId'' 32 (case tw_host_device_id w of None \<Rightarrow> [] | Some b \<Rightarrow> b))) (\<lambda>host.
    res_bind (map_err TicketInvalidIdentifier (from_bytes ''PairOfferId'' 16 (tw_offer_id w))) (\<lambda>offer.
    res_bind (map_err TicketInvalidSecret (pair_secret_from_slice (tw_secret w))) (\<lambda>secret.
    res_bind (try_map (\<lambda>url. map_err TicketInvalidRelayHint (relay_hint_new url)) (tw_relay_urls w)) (\<lambda>hints.
    res_bind (map_err InvalidTicket
      (pair_ticket_fields_new (tw_format_version w) host (tw_host_name w) hints offer (tw_expires_at_unix w))) (\<lambda>t.
    Ok (t, secret))))))"

definition encode_pair_ticket :: "text_codec \<Rightarrow> pair_ticket_fields \<Rightarrow> byte list \<Rightarrow> rust_str" where
  "encode_pair_ticket tc t secret =
    PAIR_TICKET_PREFIX @ base64_encode tc (encode_ticket_wire tc (ticket_to_wire t secret))"

definition strip_prefix :: "rust_str \<Rightarrow> rust_str \<Rightarrow> rust_str option" where
  "strip_prefix p text = (if take (length p) text = p then Some (drop (length p) text) else None)"

definition decode_pair_ticket :: "text_codec \<Rightarrow> rust_str \<Rightarrow>
    (pair_ticket_fields \<times> byte list, ticket_text_error) result" where
  "decode_pair_ticket tc text =
    (if str_len text > MAX_TICKET_TEXT_BYTES then Err (TicketTextTooLong (str_len text))
     else res_bind (ok_or (strip_prefix PAIR_TICKET_PREFIX text) TicketMissingPrefix) (\<lambda>encoded.
       res_bind (ok_or (base64_decode tc encoded) TicketInvalidBase64) (\<lambda>decoded.
       res_bind (ok_or (decode_ticket_wire tc decoded) TicketInvalidProtobuf) ticket_try_from)))"

datatype route_cache_error =
    CacheMalformed
  | CacheUnsupportedVersion nat
  | CacheInvalidRelayHint relay_hint_error
  | CacheMissingUrl
  | CacheTooManyUrls nat
  | CacheTooLarge nat

definition encode_relay_route_cache :: "text_codec \<Rightarrow> rust_str list \<Rightarrow> (byte list, route_cache_error) result" where
  "encode_relay_route_cache tc urls =
    (if urls = [] then Err CacheMissingUrl
     else if length urls > MAX_RELAY_HINTS then Err (CacheTooManyUrls (length urls))
     else Ok (encode_cache_wire tc (RELAY_ROUTE_CACHE_VERSION, urls)))"

definition decode_relay_route_cache :: "text_codec \<Rightarrow> byte list \<Rightarrow> (rust_str list, route_cache_error) result" where
  "decode_relay_route_cache tc bytes =
    (if length bytes > MAX_RELAY_ROUTE_CACHE_BYTES then Err (CacheTooLarge (length bytes))
     else res_bind (ok_or (decode_cache_wire tc bytes) CacheMalformed) (\<lambda>(version, urls).
       if version \<noteq> RELAY_ROUTE_CACHE_VERSION then Err (CacheUnsupportedVersion version)
       else if urls = [] then Err CacheMissingUrl
       else if length urls > MAX_RELAY_HINTS then Err (CacheTooManyUrls (length urls))
       else try_map (\<lambda>url. map_err CacheInvalidRelayHint (relay_hint_new url)) urls))"

text \<open>What the text forms rely on: decoding inverts encoding, a protobuf message is no
  larger than its fields with one tag byte and at most three length bytes each (payloads
  below \<open>2\<^sup>21\<close> bytes) and varints of at most five and ten bytes, and unpadded base64
  writes four characters for three bytes.\<close>

definition ticket_wire_size :: "pair_ticket_wire \<Rightarrow> nat" where
  "ticket_wire_size w = 6 + (case tw_host_device_id w of None \<Rightarrow> 0 | Some b \<Rightarrow> 8 + length b) +
     (4 + str_len (tw_host_name w)) + sum_list (map (\<lambda>url. 4 + str_len url) (tw_relay_urls w)) +
     (4 + length (tw_offer_id w)) + (4 + length (tw_secret w)) + 11"

definition ticket_codec_ok :: "text_codec \<Rightarrow> pair_ticket_wire \<Rightarrow> bool" where
  "ticket_codec_ok tc w \<longleftrightarrow> (let bytes = encode_ticket_wire tc w; text = base64_encode tc bytes in
     decode_ticket_wire tc bytes = Some w \<and> base64_decode tc text = Some bytes \<and>
     length bytes \<le> ticket_wire_size w \<and> str_len text = (4 * length bytes + 2) div 3)"

definition cache_codec_ok :: "text_codec \<Rightarrow> rust_str list \<Rightarrow> bool" where
  "cache_codec_ok tc urls \<longleftrightarrow> (let bytes = encode_cache_wire tc (RELAY_ROUTE_CACHE_VERSION, urls) in
     decode_cache_wire tc bytes = Some (RELAY_ROUTE_CACHE_VERSION, urls) \<and>
     length bytes \<le> 6 + sum_list (map (\<lambda>url. 4 + str_len url) urls))"

definition ticket_valid :: "pair_ticket_fields \<times> byte list \<Rightarrow> bool" where
  "ticket_valid v \<longleftrightarrow> (case v of (t, secret) \<Rightarrow>
     pair_ticket_fields_new (format_version t) (host_device_id t) (host_name t) (relay_hints t)
       (tk_offer_id t) (tk_expires_at_unix t) = Ok t \<and>
     length (host_device_id t) = 32 \<and> length (tk_offer_id t) = 16 \<and> length secret = PAIR_SECRET_BYTES \<and>
     (\<forall>h \<in> set (relay_hints t). is_ok (relay_hint_new h)))"

lemma relay_hint_new_Ok: "relay_hint_new s = Ok t \<longleftrightarrow> is_ok (relay_hint_new s) \<and> t = s"
  by (auto simp: relay_hint_new_def)

lemma relay_hints_Ok:
  "try_map (\<lambda>url. map_err f (relay_hint_new url)) urls = Ok hints \<longleftrightarrow>
    (\<forall>h \<in> set urls. is_ok (relay_hint_new h)) \<and> hints = urls"
  by (induction urls arbitrary: hints) (auto simp: relay_hint_new_Ok)

lemma pair_ticket_fields_new_Ok:
  assumes "pair_ticket_fields_new version host name hints offer expires = Ok t"
  shows "format_version t = version \<and> host_device_id t = host \<and> host_name t = name \<and> relay_hints t = hints \<and>
    tk_offer_id t = offer \<and> tk_expires_at_unix t = expires \<and>
    pair_ticket_fields_new (format_version t) (host_device_id t) (host_name t) (relay_hints t)
      (tk_offer_id t) (tk_expires_at_unix t) = Ok t"
proof -
  have "format_version t = version \<and> host_device_id t = host \<and> host_name t = name \<and> relay_hints t = hints \<and>
      tk_offer_id t = offer \<and> tk_expires_at_unix t = expires"
    using assms
    by (auto simp: pair_ticket_fields_new_def parse_device_name_def device_display_name_new_def split: if_splits)
  with assms show ?thesis by simp
qed

interpretation ticket_value: wire_value "\<lambda>(t, secret). ticket_to_wire t secret" ticket_try_from ticket_valid
proof unfold_locales
  fix v assume "ticket_valid v"
  then show "ticket_try_from (case v of (t, secret) \<Rightarrow> ticket_to_wire t secret) = Ok v"
    by (cases v) (simp add: ticket_valid_def ticket_try_from_def ticket_to_wire_def relay_hints_Ok[THEN iffD2]
        pair_secret_from_slice_def from_bytes_def)
next
  fix w v assume "ticket_try_from w = Ok v"
  then show "ticket_valid v"
    by (auto simp: ticket_valid_def ticket_try_from_def relay_hints_Ok pair_secret_from_slice_def
        dest: pair_ticket_fields_new_Ok split: if_splits)
qed

lemma ticket_wire_size_bound:
  assumes "ticket_valid (t, secret)"
  shows "ticket_wire_size (ticket_to_wire t secret) \<le> 8500"
proof -
  have ok: "pair_ticket_fields_new (format_version t) (host_device_id t) (host_name t) (relay_hints t)
      (tk_offer_id t) (tk_expires_at_unix t) = Ok t"
    and hints: "\<forall>h \<in> set (relay_hints t). is_ok (relay_hint_new h)"
    and widths: "length (host_device_id t) = 32" "length (tk_offer_id t) = 16" "length secret = 32"
    using assms by (simp_all add: ticket_valid_def PAIR_SECRET_BYTES_def)
  have name: "str_len (host_name t) \<le> 128"
    using ok by (auto simp: pair_ticket_fields_new_def parse_device_name_def device_display_name_new_def
        MAX_DEVICE_DISPLAY_NAME_BYTES_def split: if_splits)
  have count: "length (relay_hints t) \<le> 4"
    using ok by (auto simp: pair_ticket_fields_new_def validate_relay_hints_def MAX_RELAY_HINTS_def
        split: if_splits)
  have "4 + str_len url \<le> 2052" if "url \<in> set (relay_hints t)" for url
    using hints that by (fastforce simp: relay_hint_new_def MAX_RELAY_URL_BYTES_def split: if_splits)
  then have "sum_list (map (\<lambda>url. 4 + str_len url) (relay_hints t)) \<le> length (relay_hints t) * 2052"
    using sum_list_mono[of "relay_hints t" "\<lambda>url. 4 + str_len url" "\<lambda>_. 2052"]
    by (simp add: sum_list_triv)
  also have "\<dots> \<le> 4 * 2052" using count by simp
  finally show ?thesis
    using name widths by (simp add: ticket_wire_size_def ticket_to_wire_def)
qed

text \<open>A pairing ticket survives its text form.  Whatever ticket and secret the
  host encodes, the text stays within the 16 KiB that decoding accepts (the
  assertion of \<open>encode_pair_ticket\<close>), and decoding returns the same fields and secret.\<close>

theorem ticket_text_roundtrip:
  assumes "ticket_valid (t, secret)" "ticket_codec_ok tc (ticket_to_wire t secret)"
  shows "str_len (encode_pair_ticket tc t secret) \<le> MAX_TICKET_TEXT_BYTES \<and>
    decode_pair_ticket tc (encode_pair_ticket tc t secret) = Ok (t, secret)"
proof -
  let ?bytes = "encode_ticket_wire tc (ticket_to_wire t secret)"
  have codec: "decode_ticket_wire tc ?bytes = Some (ticket_to_wire t secret)"
      "base64_decode tc (base64_encode tc ?bytes) = Some ?bytes"
      "str_len (base64_encode tc ?bytes) = (4 * length ?bytes + 2) div 3" "length ?bytes \<le> 8500"
    using assms(2) ticket_wire_size_bound[OF assms(1)] by (simp_all add: ticket_codec_ok_def Let_def)
  have "str_len (base64_encode tc ?bytes) \<le> 12000" using codec(3,4) by linarith
  then have fits: "str_len (encode_pair_ticket tc t secret) \<le> MAX_TICKET_TEXT_BYTES"
    by (simp add: encode_pair_ticket_def PAIR_TICKET_PREFIX_def MAX_TICKET_TEXT_BYTES_def)
  have "decode_pair_ticket tc (encode_pair_ticket tc t secret) = ticket_try_from (ticket_to_wire t secret)"
    using fits codec(1,2) by (simp add: decode_pair_ticket_def strip_prefix_def encode_pair_ticket_def)
  with fits ticket_value.received[OF assms(1)] show ?thesis by simp
qed

text \<open>The text codec of the witnesses: it knows one message.\<close>

definition demo_text_codec :: text_codec where
  "demo_text_codec = \<lparr>
     encode_ticket_wire = (\<lambda>w. tw_offer_id w),
     decode_ticket_wire = (\<lambda>bytes. Some (ticket_to_wire (demo_ticket 100) (replicate 32 7)\<lparr>tw_offer_id := bytes\<rparr>)),
     base64_encode = (\<lambda>bytes. replicate ((4 * length bytes + 2) div 3) 65),
     base64_decode = (\<lambda>text. Some (replicate (3 * length text div 4) 2)),
     encode_cache_wire = (\<lambda>(v, urls). concat (map utf8 urls)),
     decode_cache_wire = (\<lambda>bytes. Some (1, [map unat bytes]))\<rparr>"

lemma demo_hint: "\<forall>h \<in> set (relay_hints (demo_ticket expires)). is_ok (relay_hint_new h)"
  by (simp add: demo_ticket_def relay_hint_new_def MAX_RELAY_URL_BYTES_def byte_is_ascii_whitespace_def
      byte_is_ascii_control_def utf8_def utf8_char_def)

theorem ticket_text_roundtrip_witness:
  "ticket_valid (demo_ticket 100, replicate 32 7) \<and>
   decode_pair_ticket demo_text_codec (encode_pair_ticket demo_text_codec (demo_ticket 100) (replicate 32 7))
     = Ok (demo_ticket 100, replicate 32 7)"
proof -
  have valid: "ticket_valid (demo_ticket 100, replicate 32 7)"
    using demo_ticket_built[of 100] demo_hint
    by (simp add: ticket_valid_def built_ticket_def ticket_typed_def PAIR_SECRET_BYTES_def)
  moreover have "ticket_codec_ok demo_text_codec (ticket_to_wire (demo_ticket 100) (replicate 32 7))"
    by (simp add: ticket_codec_ok_def demo_text_codec_def ticket_to_wire_def demo_ticket_def ticket_wire_size_def
        str_len_ascii)
  ultimately show ?thesis using ticket_text_roundtrip by blast
qed

text \<open>The persisted relay route cache round trips.  A cache the code agrees to write
  is one it can read back: it is below the decoding ceiling and yields the same URLs in the
  same order; and whatever decodes is one to four well-formed relay hints.\<close>

theorem route_cache_roundtrip:
  assumes "\<forall>h \<in> set urls. is_ok (relay_hint_new h)" "cache_codec_ok tc urls"
    and "encode_relay_route_cache tc urls = Ok bytes"
  shows "decode_relay_route_cache tc bytes = Ok urls \<and>
    (\<forall>blob hints. decode_relay_route_cache tc blob = Ok hints \<longrightarrow>
       hints \<noteq> [] \<and> length hints \<le> MAX_RELAY_HINTS \<and> (\<forall>h \<in> set hints. is_ok (relay_hint_new h)))"
proof
  have bytes: "bytes = encode_cache_wire tc (RELAY_ROUTE_CACHE_VERSION, urls)" "urls \<noteq> []" "length urls \<le> 4"
    using assms(3) by (auto simp: encode_relay_route_cache_def MAX_RELAY_HINTS_def split: if_splits)
  have "4 + str_len url \<le> 2052" if "url \<in> set urls" for url
    using assms(1) that by (fastforce simp: relay_hint_new_def MAX_RELAY_URL_BYTES_def split: if_splits)
  then have "sum_list (map (\<lambda>url. 4 + str_len url) urls) \<le> length urls * 2052"
    using sum_list_mono[of urls "\<lambda>url. 4 + str_len url" "\<lambda>_. 2052"] by (simp add: sum_list_triv)
  also have "\<dots> \<le> 4 * 2052" using bytes(3) by simp
  finally have "length bytes \<le> MAX_RELAY_ROUTE_CACHE_BYTES"
    using assms(2) bytes(1) by (simp add: cache_codec_ok_def Let_def MAX_RELAY_ROUTE_CACHE_BYTES_def)
  then show "decode_relay_route_cache tc bytes = Ok urls"
    using assms(1,2) bytes
    by (simp add: decode_relay_route_cache_def cache_codec_ok_def Let_def MAX_RELAY_HINTS_def relay_hints_Ok)
  show "\<forall>blob hints. decode_relay_route_cache tc blob = Ok hints \<longrightarrow>
     hints \<noteq> [] \<and> length hints \<le> MAX_RELAY_HINTS \<and> (\<forall>h \<in> set hints. is_ok (relay_hint_new h))"
    by (auto simp: decode_relay_route_cache_def relay_hints_Ok split: if_splits)
qed

theorem route_cache_roundtrip_witness:
  "decode_relay_route_cache demo_text_codec (utf8 (lit ''https://r'')) = Ok [lit ''https://r'']"
proof -
  have "\<forall>h \<in> set [lit ''https://r'']. is_ok (relay_hint_new h)"
    using demo_hint[of 0] by (simp add: demo_ticket_def)
  moreover have "cache_codec_ok demo_text_codec [lit ''https://r'']"
    by (simp add: cache_codec_ok_def demo_text_codec_def RELAY_ROUTE_CACHE_VERSION_def utf8_def utf8_char_def)
  moreover have "encode_relay_route_cache demo_text_codec [lit ''https://r''] = Ok (utf8 (lit ''https://r''))"
    by (simp add: encode_relay_route_cache_def demo_text_codec_def MAX_RELAY_HINTS_def)
  ultimately show ?thesis using route_cache_roundtrip by blast
qed

text \<open>C29: handshake values and device summaries cross the wire unchanged.  A hello, a
  welcome or a summary is received as the value that was sent exactly when it satisfies its
  constructor's contract, and the messages that convert at all yield exactly such values.\<close>

theorem validated_values_roundtrip:
  "(hello_try_from (hello_to_wire h) = Ok h \<longleftrightarrow> hello_valid h) \<and>
   (welcome_try_from (welcome_to_wire w) = Ok w \<longleftrightarrow> welcome_valid w) \<and>
   (summary_try_from (summary_to_wire s) = Ok s \<longleftrightarrow> summary_valid s) \<and>
   {h. \<exists>hw. hello_try_from hw = Ok h} = {h. hello_valid h} \<and>
   {w. \<exists>ww. welcome_try_from ww = Ok w} = {w. welcome_valid w} \<and>
   {s. \<exists>sw. summary_try_from sw = Ok s} = {s. summary_valid s}"
  using hello_value.received_iff welcome_value.received_iff summary_value.received_iff
    hello_value.range_valid welcome_value.range_valid summary_value.range_valid
  by simp

end
