(* ===== verification/Pairing_Manager.thy ===== *)
theory Pairing_Manager
  imports Pair_Protocol Wire_Values
begin

section \<open>The host's pairing manager\<close>

text \<open>
  \<open>daemon/src/pairing.rs\<close>: the bounded in-memory owner of one-time pairing offers.  A
  local request creates an offer exactly once per operation identifier, a controller
  with a valid proof moves it from ready to consuming, and the permit it gets is either
  rolled back or committed after the durable authorization.

  \<open>manager_state\<close> is the content of the mutex, with the operation cells, which are
  shared by reference in the code, in the list \<open>ms_cells\<close> and referred to by index.
  Every section of the code that holds the lock is one function on this state that
  returns the section's result together with the state it leaves, errors included.
  The handlers \<open>create_offer_until\<close>, \<open>prepare_challenge_until\<close>, \<dots> compose the sections
  with the calls to the clock, the entropy source and the time, which are the record
  \<open>pairing_env\<close>.

  Instants and durations are in nanoseconds; \<open>env_instant_max\<close> is the largest instant of the
  platform.
\<close>

subsection \<open>Values\<close>

definition RANDOM_COLLISION_ATTEMPTS :: nat where "RANDOM_COLLISION_ATTEMPTS = 8"
definition PAIR_OFFER_ID_BYTES :: nat where "PAIR_OFFER_ID_BYTES = 16"
definition PAIR_NONCE_BYTES :: nat where "PAIR_NONCE_BYTES = 32"
definition NANOS_PER_SECOND :: nat where "NANOS_PER_SECOND = 1000000000"

record pairing_now =
  now_unix_seconds :: nat
  now_monotonic :: nat

record pair_offer_request =
  rq_operation_id :: ephemeral_operation_id
  rq_fingerprint :: "byte list"
  rq_host_name :: rust_str
  rq_relay_hints :: "rust_str list"
  rq_ttl_seconds :: nat

definition pair_offer_request_new :: "ephemeral_operation_id \<Rightarrow> byte list \<Rightarrow> rust_str \<Rightarrow> rust_str list \<Rightarrow> nat \<Rightarrow>
    (pair_offer_request, pairing_error) result" where
  "pair_offer_request_new op fingerprint name hints ttl =
    res_bind (map_err PErrInvalidTicket (validate_pair_ttl ttl)) (\<lambda>_.
    res_bind (map_err PErrInvalidTicket
      (pair_ticket_fields_new PAIR_TICKET_FORMAT_VERSION (replicate 32 0) name hints
        (replicate PAIR_OFFER_ID_BYTES 0) 1)) (\<lambda>_.
    Ok \<lparr>rq_operation_id = op, rq_fingerprint = fingerprint, rq_host_name = name,
        rq_relay_hints = hints, rq_ttl_seconds = ttl\<rparr>))"

record pair_offer_created =
  oc_fields :: pair_ticket_fields
  oc_ticket :: rust_str

definition ticket_from_local_response :: "text_codec \<Rightarrow> rust_str \<Rightarrow> (rust_str, pairing_error) result" where
  "ticket_from_local_response tc text =
    (if str_len text > MAX_TICKET_TEXT_BYTES then Err PErrResourceExhausted
     else res_bind (map_err (\<lambda>_. PErrInvalidBinding) (decode_pair_ticket tc text)) (\<lambda>_. Ok text))"

datatype pair_offer_state = OfferReady | OfferConsuming | OfferConsumed | OfferExpired

record pairing_snapshot =
  ready_offers :: nat
  consuming_offers :: nat
  operation_cells :: nat
  retired_operation_tombstones :: nat
  consumed_tombstones :: nat
  expired_tombstones :: nat

record prepared_pair_challenge =
  pp_owner :: nat
  pp_offer_id :: pair_offer_id
  pp_controller_device_id :: device_id
  pp_controller_name :: rust_str
  pp_challenge :: pair_challenge
  pp_transcript :: pair_transcript
  pp_ticket_digest :: "byte list"
  pp_transcript_digest :: "byte list"

record pair_consumption =
  pcon_owner :: nat
  pcon_offer_id :: pair_offer_id
  pcon_controller_device_id :: device_id
  pcon_controller_name :: rust_str
  pcon_transcript_digest :: "byte list"
  pcon_transcript :: pair_transcript

record pair_commit_result =
  cr_generation :: auth_generation
  cr_host_confirmation_proof :: "byte list"
  cr_host_diagnostic_version :: rust_str

definition commit_pair_accepted :: "pair_commit_result \<Rightarrow> (pair_accepted, pairing_error) result" where
  "commit_pair_accepted c = map_err PErrInvalidTicket
    (pair_accepted_from_proof (cr_generation c) (cr_host_confirmation_proof c) (cr_host_diagnostic_version c))"

datatype live_offer_state =
    LiveReady
  | LiveConsuming device_id "byte list"

record offer_record =
  or_fields :: pair_ticket_fields
  or_offer_key :: "byte list"
  or_monotonic_deadline :: nat
  or_operation_id :: ephemeral_operation_id
  or_fingerprint :: "byte list"
  or_state :: live_offer_state

record retired_operation =
  ro_fingerprint :: "byte list"
  ro_error :: pairing_error

record operation_cell =
  cell_fingerprint :: "byte list"
  cell_outcome :: "(pair_offer_created, pairing_error) result option"

record manager_state =
  ms_offers :: "(pair_offer_id, offer_record) bmap"
  ms_operations :: "(ephemeral_operation_id, nat) bmap"
  ms_retired_offers :: "(pair_offer_id, pairing_error) bmap"
  ms_retired_offer_order :: "pair_offer_id list"
  ms_retired_operations :: "(ephemeral_operation_id, retired_operation) bmap"
  ms_retired_operation_order :: "ephemeral_operation_id list"
  ms_cells :: "operation_cell list"

definition manager_empty :: manager_state where
  "manager_empty = \<lparr>ms_offers = [], ms_operations = [], ms_retired_offers = [], ms_retired_offer_order = [],
     ms_retired_operations = [], ms_retired_operation_order = [], ms_cells = []\<rparr>"

record pairing_inner =
  pi_identity :: nat
  pi_host_device_id :: device_id
  max_live_offers :: nat
  pi_max_ticket_text_bytes :: nat
  pi_max_relay_hints :: nat
  pi_max_relay_url_bytes :: nat
  operation_wait :: nat

definition with_dependencies :: "nat \<Rightarrow> device_id \<Rightarrow> transport_limits \<Rightarrow> (pairing_inner \<times> manager_state, pairing_error) result" where
  "with_dependencies identity host limits =
    res_bind (map_err PErrInvalidLimits (transport_limits_validate limits)) (\<lambda>_.
    Ok (\<lparr>pi_identity = identity, pi_host_device_id = host,
         max_live_offers = max_live_pair_offers limits,
         pi_max_ticket_text_bytes = max_ticket_text_bytes limits,
         pi_max_relay_hints = max_relay_hints limits,
         pi_max_relay_url_bytes = max_relay_url_bytes limits,
         operation_wait = pairing_total_deadline limits * NANOS_PER_SECOND\<rparr>, manager_empty))"

subsection \<open>Operation cells\<close>

definition cell_new :: "byte list \<Rightarrow> operation_cell" where
  "cell_new fingerprint = \<lparr>cell_fingerprint = fingerprint, cell_outcome = None\<rparr>"

definition cell_complete :: "(pair_offer_created, pairing_error) result \<Rightarrow> operation_cell \<Rightarrow> operation_cell" where
  "cell_complete r c = (if cell_outcome c = None then c\<lparr>cell_outcome := Some r\<rparr> else c)"

definition cell_retire :: "pairing_error \<Rightarrow> operation_cell \<Rightarrow> operation_cell" where
  "cell_retire e c = c\<lparr>cell_outcome := Some (Err e)\<rparr>"

text \<open>One element of the observations is one round of the waiting loop: the time at which
  the remaining duration is computed, what the cell holds at the wake-up, and whether the
  wait timed out.  \<open>None\<close> means that the caller still waits.\<close>

fun wait_until :: "nat \<Rightarrow> (pair_offer_created, pairing_error) result option \<Rightarrow>
    (nat \<times> (pair_offer_created, pairing_error) result option \<times> bool) list \<Rightarrow>
    (pair_offer_created, pairing_error) result option" where
  "wait_until deadline (Some r) rounds = Some r"
| "wait_until deadline None [] = None"
| "wait_until deadline None ((now, next', timed_out) # rounds) =
    (if deadline < now then Some (Err PErrDeadlineExceeded)
     else if timed_out \<and> next' = None then Some (Err PErrDeadlineExceeded)
     else wait_until deadline next' rounds)"

subsection \<open>Tombstones and expiry\<close>

text \<open>\<open>while len > maximum\<close>: the oldest identifiers are dropped.\<close>

fun drop_oldest :: "nat \<Rightarrow> ('k::linorder, 'v) bmap \<Rightarrow> 'k list \<Rightarrow> ('k, 'v) bmap \<times> 'k list" where
  "drop_oldest maximum m [] = (m, [])"
| "drop_oldest maximum m (oldest # order) =
    (if length m > maximum then drop_oldest maximum (bt_remove oldest m) order else (m, oldest # order))"

definition insert_bounded :: "nat \<Rightarrow> 'k::linorder \<Rightarrow> 'v \<Rightarrow> ('k, 'v) bmap \<Rightarrow> 'k list \<Rightarrow> ('k, 'v) bmap \<times> 'k list" where
  "insert_bounded maximum k v m order =
    drop_oldest maximum (bt_insert k v m) (filter (\<lambda>current. current \<noteq> k) order @ [k])"

definition insert_retired_offer :: "nat \<Rightarrow> pair_offer_id \<Rightarrow> pairing_error \<Rightarrow> manager_state \<Rightarrow> manager_state" where
  "insert_retired_offer maximum offer e s =
    (let (m, order) = insert_bounded maximum offer e (ms_retired_offers s) (ms_retired_offer_order s)
     in s\<lparr>ms_retired_offers := m, ms_retired_offer_order := order\<rparr>)"

definition insert_retired_operation :: "nat \<Rightarrow> ephemeral_operation_id \<Rightarrow> retired_operation \<Rightarrow> manager_state \<Rightarrow> manager_state" where
  "insert_retired_operation maximum op tombstone s =
    (let (m, order) = insert_bounded maximum op tombstone (ms_retired_operations s) (ms_retired_operation_order s)
     in s\<lparr>ms_retired_operations := m, ms_retired_operation_order := order\<rparr>)"

definition retire_operation_locked :: "pairing_inner \<Rightarrow> ephemeral_operation_id \<Rightarrow> byte list \<Rightarrow> pairing_error \<Rightarrow>
    manager_state \<Rightarrow> manager_state" where
  "retire_operation_locked inner op fingerprint e s =
    insert_retired_operation (max_live_offers inner) op \<lparr>ro_fingerprint = fingerprint, ro_error = e\<rparr>
      (case bt_get (ms_operations s) op of
         Some a \<Rightarrow> s\<lparr>ms_operations := bt_remove op (ms_operations s),
           ms_cells := (ms_cells s)[a := cell_retire e (ms_cells s ! a)]\<rparr>
       | None \<Rightarrow> s)"

definition retire_offer_record_locked :: "pairing_inner \<Rightarrow> pair_offer_id \<Rightarrow> offer_record \<Rightarrow> pairing_error \<Rightarrow>
    manager_state \<Rightarrow> manager_state" where
  "retire_offer_record_locked inner offer r e s =
    insert_retired_offer (max_live_offers inner) offer e
      (retire_operation_locked inner (or_operation_id r) (or_fingerprint r) e s)"

definition offer_terminal_error :: "manager_state \<Rightarrow> pair_offer_id \<Rightarrow> pairing_error" where
  "offer_terminal_error s offer =
    (case bt_get (ms_retired_offers s) offer of None \<Rightarrow> PErrOfferNotFound | Some e \<Rightarrow> e)"

definition offer_expired :: "pair_ticket_fields \<Rightarrow> nat \<Rightarrow> pairing_now \<Rightarrow> bool" where
  "offer_expired fields' monotonic_deadline now \<longleftrightarrow>
    ticket_is_expired fields' (now_unix_seconds now) \<or> now_monotonic now \<ge> monotonic_deadline"

definition record_expired :: "pairing_now \<Rightarrow> offer_record \<Rightarrow> bool" where
  "record_expired now r \<longleftrightarrow> or_state r = LiveReady \<and> offer_expired (or_fields r) (or_monotonic_deadline r) now"

fun expire_loop :: "pairing_inner \<Rightarrow> pair_offer_id list \<Rightarrow> nat \<Rightarrow> manager_state \<Rightarrow>
    (nat, pairing_error) result \<times> manager_state" where
  "expire_loop inner [] removed s = (Ok removed, s)"
| "expire_loop inner (offer # rest) removed s =
    (case bt_get (ms_offers s) offer of
       None \<Rightarrow> expire_loop inner rest removed s
     | Some r \<Rightarrow>
         (let s' = retire_offer_record_locked inner offer r PErrTicketExpired
                (s\<lparr>ms_offers := bt_remove offer (ms_offers s)\<rparr>)
          in case checked_add U64_MAX removed 1 of
               None \<Rightarrow> (Err PErrResourceExhausted, s')
             | Some removed' \<Rightarrow> expire_loop inner rest removed' s'))"

definition expire_ready_locked :: "pairing_inner \<Rightarrow> pairing_now \<Rightarrow> manager_state \<Rightarrow>
    (nat, pairing_error) result \<times> manager_state" where
  "expire_ready_locked inner now s =
    expire_loop inner (map fst (filter (\<lambda>(offer, r). record_expired now r) (ms_offers s))) 0 s"

text \<open>The sections that first clean up: \<open>expire_ready_locked(..)?\<close> and then the rest.\<close>

definition after_expiry :: "pairing_inner \<Rightarrow> pairing_now \<Rightarrow>
    (manager_state \<Rightarrow> ('a, pairing_error) result \<times> manager_state) \<Rightarrow> manager_state \<Rightarrow>
    ('a, pairing_error) result \<times> manager_state" where
  "after_expiry inner now section s =
    (case expire_ready_locked inner now s of (Err e, s') \<Rightarrow> (Err e, s') | (Ok _, s') \<Rightarrow> section s')"

subsection \<open>Sections under the lock\<close>

datatype create_claim = ClaimJoin nat | ClaimNew nat

text \<open>\<open>create_offer_until\<close>: join the operation's cell, replay a retired outcome, or claim a
  new cell.\<close>

definition claim_section :: "pairing_inner \<Rightarrow> pair_offer_request \<Rightarrow> pairing_now \<Rightarrow> manager_state \<Rightarrow>
    (create_claim, pairing_error) result \<times> manager_state" where
  "claim_section inner rq now = after_expiry inner now (\<lambda>s.
    case bt_get (ms_operations s) (rq_operation_id rq) of
      Some a \<Rightarrow>
        if cell_fingerprint (ms_cells s ! a) \<noteq> rq_fingerprint rq then (Err PErrOutcomeUnknown, s)
        else (Ok (ClaimJoin a), s)
    | None \<Rightarrow>
        (case bt_get (ms_retired_operations s) (rq_operation_id rq) of
           Some tombstone \<Rightarrow>
             if ro_fingerprint tombstone = rq_fingerprint rq then (Err (ro_error tombstone), s)
             else (Err PErrOutcomeUnknown, s)
         | None \<Rightarrow>
             if length (ms_offers s) \<ge> max_live_offers inner \<or> length (ms_operations s) \<ge> max_live_offers inner
             then (Err PErrResourceExhausted, s)
             else (Ok (ClaimNew (length (ms_cells s))),
               s\<lparr>ms_operations := bt_insert (rq_operation_id rq) (length (ms_cells s)) (ms_operations s),
                 ms_cells := ms_cells s @ [cell_new (rq_fingerprint rq)]\<rparr>)))"

definition offer_id_taken :: "pair_offer_id \<Rightarrow> manager_state \<Rightarrow> bool" where
  "offer_id_taken offer s \<longleftrightarrow> bt_contains (ms_offers s) offer \<or> bt_contains (ms_retired_offers s) offer"

text \<open>\<open>execute_create\<close>: \<open>Ok True\<close> when the record was inserted, \<open>Ok False\<close> when the
  identifier is taken and the loop goes on.\<close>

definition insert_section :: "pairing_inner \<Rightarrow> pair_offer_id \<Rightarrow> offer_record \<Rightarrow> pairing_now \<Rightarrow> manager_state \<Rightarrow>
    (bool, pairing_error) result \<times> manager_state" where
  "insert_section inner offer r now = after_expiry inner now (\<lambda>s.
    if offer_id_taken offer s then (Ok False, s)
    else if length (ms_offers s) \<ge> max_live_offers inner then (Err PErrResourceExhausted, s)
    else (Ok True, s\<lparr>ms_offers := bt_insert offer r (ms_offers s)\<rparr>))"

definition complete_section :: "nat \<Rightarrow> (pair_offer_created, pairing_error) result \<Rightarrow> manager_state \<Rightarrow> manager_state" where
  "complete_section a r s = s\<lparr>ms_cells := (ms_cells s)[a := cell_complete r (ms_cells s ! a)]\<rparr>"

definition retire_failed_section :: "pairing_inner \<Rightarrow> pair_offer_request \<Rightarrow> nat \<Rightarrow> pairing_error \<Rightarrow> manager_state \<Rightarrow>
    manager_state" where
  "retire_failed_section inner rq a e s =
    (if bt_get (ms_operations s) (rq_operation_id rq) = Some a
     then retire_operation_locked inner (rq_operation_id rq) (rq_fingerprint rq) e s else s)"

definition ready_fields_section :: "pairing_inner \<Rightarrow> pair_offer_id \<Rightarrow> pairing_now \<Rightarrow> manager_state \<Rightarrow>
    (pair_ticket_fields, pairing_error) result \<times> manager_state" where
  "ready_fields_section inner offer now = after_expiry inner now (\<lambda>s.
    case bt_get (ms_offers s) offer of
      Some r \<Rightarrow> (case or_state r of
          LiveReady \<Rightarrow> (Ok (or_fields r), s)
        | LiveConsuming _ _ \<Rightarrow> (Err PErrOfferConsuming, s))
    | None \<Rightarrow> (Err (offer_terminal_error s offer), s))"

definition consume_section :: "crypto \<Rightarrow> pairing_inner \<Rightarrow> prepared_pair_challenge \<Rightarrow> byte list \<Rightarrow> pairing_now \<Rightarrow>
    manager_state \<Rightarrow> (pair_consumption, pairing_error) result \<times> manager_state" where
  "consume_section cr inner challenge proof now = after_expiry inner now (\<lambda>s.
    case bt_get (ms_offers s) (pp_offer_id challenge) of
      None \<Rightarrow> (Err (offer_terminal_error s (pp_offer_id challenge)), s)
    | Some r \<Rightarrow>
        if ticket_digest cr (or_fields r) \<noteq> pp_ticket_digest challenge then (Err PErrStateConflict, s)
        else (case or_state r of
            LiveReady \<Rightarrow>
              if \<not> verify_controller_proof cr (pp_transcript challenge) (or_offer_key r) proof
              then (Err PErrInvalidProof, s)
              else (Ok \<lparr>pcon_owner = pi_identity inner, pcon_offer_id = pp_offer_id challenge,
                        pcon_controller_device_id = pp_controller_device_id challenge,
                        pcon_controller_name = pp_controller_name challenge,
                        pcon_transcript_digest = pp_transcript_digest challenge,
                        pcon_transcript = pp_transcript challenge\<rparr>,
                    s\<lparr>ms_offers := bt_insert (pp_offer_id challenge)
                        (r\<lparr>or_state := LiveConsuming (pp_controller_device_id challenge) (pp_transcript_digest challenge)\<rparr>)
                        (ms_offers s)\<rparr>)
          | LiveConsuming _ _ \<Rightarrow> (Err PErrOfferConsuming, s)))"

definition rollback_token :: "pairing_inner \<Rightarrow> pair_offer_id \<Rightarrow> device_id \<Rightarrow> byte list \<Rightarrow> pairing_now option \<Rightarrow>
    manager_state \<Rightarrow> (pair_offer_state, pairing_error) result \<times> manager_state" where
  "rollback_token inner offer controller digest now s =
    (case bt_get (ms_offers s) offer of
       None \<Rightarrow>
         ((case bt_get (ms_retired_offers s) offer of
             Some PErrTicketExpired \<Rightarrow> Ok OfferExpired
           | Some PErrTicketConsumed \<Rightarrow> Ok OfferConsumed
           | Some e \<Rightarrow> Err e
           | None \<Rightarrow> Err PErrStateConflict), s)
     | Some r \<Rightarrow>
         if or_state r \<noteq> LiveConsuming controller digest then (Err PErrStateConflict, s)
         else if (case now of Some now \<Rightarrow> offer_expired (or_fields r) (or_monotonic_deadline r) now | None \<Rightarrow> False)
         then (Ok OfferExpired, retire_offer_record_locked inner offer r PErrTicketExpired
                 (s\<lparr>ms_offers := bt_remove offer (ms_offers s)\<rparr>))
         else (Ok OfferReady, s\<lparr>ms_offers := bt_insert offer (r\<lparr>or_state := LiveReady\<rparr>) (ms_offers s)\<rparr>))"

definition commit_token :: "crypto \<Rightarrow> pairing_inner \<Rightarrow> pair_offer_id \<Rightarrow> device_id \<Rightarrow> byte list \<Rightarrow> pair_transcript \<Rightarrow>
    auth_generation \<Rightarrow> rust_str \<Rightarrow> manager_state \<Rightarrow> (pair_commit_result, pairing_error) result \<times> manager_state" where
  "commit_token cr inner offer controller digest transcript gen version s =
    (case bt_get (ms_offers s) offer of
       None \<Rightarrow> (Err (offer_terminal_error s offer), s)
     | Some r \<Rightarrow>
         if or_state r \<noteq> LiveConsuming controller digest then (Err PErrStateConflict, s)
         else if sha256 cr (tr_canonical transcript) \<noteq> digest then (Err PErrStateConflict, s)
         else (Ok \<lparr>cr_generation = gen,
                   cr_host_confirmation_proof = host_confirmation cr transcript (or_offer_key r) gen,
                   cr_host_diagnostic_version = version\<rparr>,
               retire_offer_record_locked inner offer r PErrTicketConsumed
                 (s\<lparr>ms_offers := bt_remove offer (ms_offers s)\<rparr>)))"

subsection \<open>Handlers\<close>

text \<open>The calls a handler makes outside the lock, by the number of the call.\<close>

record pairing_env =
  env_instant :: "nat \<Rightarrow> nat"
  env_instant_max :: nat
  env_clock :: "nat \<Rightarrow> pairing_now option"
  env_entropy :: "nat \<Rightarrow> (nat \<Rightarrow> byte) option"

type_synonym 'a handler = "manager_state \<times> nat \<Rightarrow> ('a, pairing_error) result \<times> (manager_state \<times> nat)"

definition h_return :: "'a \<Rightarrow> 'a handler" where
  "h_return x w = (Ok x, w)"

definition h_lift :: "('a, pairing_error) result \<Rightarrow> 'a handler" where
  "h_lift r w = (r, w)"

definition h_bind :: "'a handler \<Rightarrow> ('a \<Rightarrow> 'b handler) \<Rightarrow> 'b handler" where
  "h_bind m f w = (case m w of (Ok x, w') \<Rightarrow> f x w' | (Err e, w') \<Rightarrow> (Err e, w'))"

definition h_lock :: "(manager_state \<Rightarrow> ('a, pairing_error) result \<times> manager_state) \<Rightarrow> 'a handler" where
  "h_lock section w = (case section (fst w) of (r, s) \<Rightarrow> (r, (s, snd w)))"

definition h_observe :: "manager_state handler" where
  "h_observe w = (Ok (fst w), w)"

definition check_deadline :: "pairing_env \<Rightarrow> nat \<Rightarrow> unit handler" where
  "check_deadline env deadline w =
    (if env_instant env (snd w) \<ge> deadline then Err PErrDeadlineExceeded else Ok (), (fst w, Suc (snd w)))"

definition default_deadline :: "pairing_env \<Rightarrow> nat \<Rightarrow> nat handler" where
  "default_deadline env duration w =
    (ok_or (checked_add (env_instant_max env) (env_instant env (snd w)) duration) PErrTimeOverflow,
     (fst w, Suc (snd w)))"

definition inner_now :: "pairing_env \<Rightarrow> pairing_now handler" where
  "inner_now env w = (ok_or (env_clock env (snd w)) PErrClockUnavailable, (fst w, Suc (snd w)))"

definition entropy_fill :: "pairing_env \<Rightarrow> nat \<Rightarrow> byte list handler" where
  "entropy_fill env n w =
    (ok_or (map_option (\<lambda>f. map f [0..<n]) (env_entropy env (snd w))) PErrEntropyUnavailable,
     (fst w, Suc (snd w)))"

definition validate_request_limits :: "pairing_inner \<Rightarrow> pair_offer_request \<Rightarrow> (unit, pairing_error) result" where
  "validate_request_limits inner rq =
    (if length (rq_relay_hints rq) > pi_max_relay_hints inner \<or>
        list_ex (\<lambda>hint. str_len hint > pi_max_relay_url_bytes inner) (rq_relay_hints rq)
     then Err PErrResourceExhausted else Ok ())"

text \<open>The loop over the attempts of \<open>execute_create\<close>.\<close>

primrec create_attempts :: "crypto \<Rightarrow> text_codec \<Rightarrow> pairing_env \<Rightarrow> pairing_inner \<Rightarrow> pair_offer_request \<Rightarrow>
    nat \<Rightarrow> nat \<Rightarrow> nat \<Rightarrow> nat \<Rightarrow> pair_offer_created handler" where
  "create_attempts cr tc env inner rq expires monotonic_deadline deadline 0 = h_lift (Err PErrResourceExhausted)"
| "create_attempts cr tc env inner rq expires monotonic_deadline deadline (Suc attempts) =
    h_bind (check_deadline env deadline) (\<lambda>_.
    h_bind (entropy_fill env PAIR_OFFER_ID_BYTES) (\<lambda>offer.
    h_bind h_observe (\<lambda>s.
    if offer_id_taken offer s
    then create_attempts cr tc env inner rq expires monotonic_deadline deadline attempts
    else
      h_bind (entropy_fill env PAIR_SECRET_BYTES) (\<lambda>secret.
      h_bind (check_deadline env deadline) (\<lambda>_.
      h_bind (h_lift (map_err PErrInvalidTicket
        (pair_ticket_fields_new PAIR_TICKET_FORMAT_VERSION (pi_host_device_id inner) (rq_host_name rq)
          (rq_relay_hints rq) offer expires))) (\<lambda>ticket_fields.
      let ticket = encode_pair_ticket tc ticket_fields secret in
      if str_len ticket > pi_max_ticket_text_bytes inner then h_lift (Err PErrResourceExhausted)
      else
        h_bind (inner_now env) (\<lambda>now.
        if offer_expired ticket_fields monotonic_deadline now then h_lift (Err PErrTicketExpired)
        else
          h_bind (h_lock (insert_section inner offer
            \<lparr>or_fields = ticket_fields, or_offer_key = offer_key cr ticket_fields secret,
             or_monotonic_deadline = monotonic_deadline, or_operation_id = rq_operation_id rq,
             or_fingerprint = rq_fingerprint rq, or_state = LiveReady\<rparr> now)) (\<lambda>inserted.
          if inserted then h_return \<lparr>oc_fields = ticket_fields, oc_ticket = ticket\<rparr>
          else create_attempts cr tc env inner rq expires monotonic_deadline deadline attempts))))))))"

definition execute_create :: "crypto \<Rightarrow> text_codec \<Rightarrow> pairing_env \<Rightarrow> pairing_inner \<Rightarrow> pair_offer_request \<Rightarrow>
    nat \<Rightarrow> nat \<Rightarrow> nat \<Rightarrow> pair_offer_created handler" where
  "execute_create cr tc env inner rq expires monotonic_deadline deadline =
    create_attempts cr tc env inner rq expires monotonic_deadline deadline RANDOM_COLLISION_ATTEMPTS"

text \<open>The part of \<open>create_offer_until\<close> after a new cell was claimed: run the creation,
  complete the cell, and retire the operation if it failed.\<close>

definition run_claimed :: "crypto \<Rightarrow> text_codec \<Rightarrow> pairing_env \<Rightarrow> pairing_inner \<Rightarrow> pair_offer_request \<Rightarrow>
    nat \<Rightarrow> nat \<Rightarrow> nat \<Rightarrow> nat \<Rightarrow> pair_offer_created handler" where
  "run_claimed cr tc env inner rq expires monotonic_deadline deadline a w =
    (case execute_create cr tc env inner rq expires monotonic_deadline deadline w of
       (r, (s, k)) \<Rightarrow>
         let s = complete_section a r s in
         (r, ((case r of Err e \<Rightarrow> retire_failed_section inner rq a e s | Ok _ \<Rightarrow> s), k)))"

datatype create_progress = Created pair_offer_created | Joined nat

definition create_or_join :: "crypto \<Rightarrow> text_codec \<Rightarrow> pairing_env \<Rightarrow> pairing_inner \<Rightarrow> pair_offer_request \<Rightarrow> nat \<Rightarrow>
    create_progress handler" where
  "create_or_join cr tc env inner rq deadline =
    h_bind (check_deadline env deadline) (\<lambda>_.
    h_bind (h_lift (validate_request_limits inner rq)) (\<lambda>_.
    h_bind (inner_now env) (\<lambda>now.
    h_bind (h_lift (ok_or (checked_add U64_MAX (now_unix_seconds now) (rq_ttl_seconds rq)) PErrTimeOverflow)) (\<lambda>expires.
    h_bind (h_lift (ok_or (checked_add (env_instant_max env) (now_monotonic now)
      (rq_ttl_seconds rq * NANOS_PER_SECOND)) PErrTimeOverflow)) (\<lambda>monotonic_deadline.
    h_bind (h_lock (claim_section inner rq now)) (\<lambda>claim.
    case claim of
      ClaimJoin a \<Rightarrow> h_return (Joined a)
    | ClaimNew a \<Rightarrow>
        h_bind (run_claimed cr tc env inner rq expires monotonic_deadline deadline a) (\<lambda>created.
        h_return (Created created))))))))"

definition create_offer_until :: "crypto \<Rightarrow> text_codec \<Rightarrow> pairing_env \<Rightarrow> pairing_inner \<Rightarrow> pair_offer_request \<Rightarrow> nat \<Rightarrow>
    (nat \<times> (pair_offer_created, pairing_error) result option \<times> bool) list \<Rightarrow> manager_state \<times> nat \<Rightarrow>
    (pair_offer_created, pairing_error) result option \<times> (manager_state \<times> nat)" where
  "create_offer_until cr tc env inner rq deadline rounds w =
    (case create_or_join cr tc env inner rq deadline w of
       (Err e, w') \<Rightarrow> (Some (Err e), w')
     | (Ok (Created created), w') \<Rightarrow> (Some (Ok created), w')
     | (Ok (Joined a), w') \<Rightarrow> (wait_until deadline (cell_outcome (ms_cells (fst w') ! a)) rounds, w'))"

definition random_nonce_until :: "pairing_env \<Rightarrow> nat \<Rightarrow> pair_nonce handler" where
  "random_nonce_until env deadline =
    h_bind (check_deadline env deadline) (\<lambda>_.
    h_bind (entropy_fill env PAIR_NONCE_BYTES) (\<lambda>bytes.
    h_bind (check_deadline env deadline) (\<lambda>_. h_return bytes)))"

definition ready_fields :: "pairing_env \<Rightarrow> pairing_inner \<Rightarrow> pair_offer_id \<Rightarrow> pair_ticket_fields handler" where
  "ready_fields env inner offer =
    h_bind (inner_now env) (\<lambda>now. h_lock (ready_fields_section inner offer now))"

definition prepare_challenge_until :: "crypto \<Rightarrow> pairing_env \<Rightarrow> pairing_inner \<Rightarrow> device_id \<Rightarrow> pair_begin \<Rightarrow> nat \<Rightarrow>
    prepared_pair_challenge handler" where
  "prepare_challenge_until cr env inner controller begin' deadline =
    h_bind (check_deadline env deadline) (\<lambda>_.
    h_bind (ready_fields env inner (pb_offer_id begin')) (\<lambda>_.
    h_bind (random_nonce_until env deadline) (\<lambda>host_nonce.
    h_bind (ready_fields env inner (pb_offer_id begin')) (\<lambda>ticket_fields.
    h_bind (h_lift (map_err PErrInvalidTicket
      (pair_challenge_new host_nonce PAIR_PROTOCOL_VERSION (tk_expires_at_unix ticket_fields)))) (\<lambda>challenge.
    h_bind (h_lift (controller_transcript cr ticket_fields (pi_host_device_id inner) controller begin' challenge)) (\<lambda>transcript.
    h_bind (h_lift (map_err (\<lambda>_. PErrInvalidBinding) (device_display_name_new (pb_controller_name begin')))) (\<lambda>name.
    h_return \<lparr>pp_owner = pi_identity inner, pp_offer_id = pb_offer_id begin',
      pp_controller_device_id = controller, pp_controller_name = name, pp_challenge = challenge,
      pp_transcript = transcript, pp_ticket_digest = ticket_digest cr ticket_fields,
      pp_transcript_digest = sha256 cr (tr_canonical transcript)\<rparr>)))))))"

definition try_consume_until :: "crypto \<Rightarrow> pairing_env \<Rightarrow> pairing_inner \<Rightarrow> prepared_pair_challenge \<Rightarrow> byte list \<Rightarrow> nat \<Rightarrow>
    pair_consumption handler" where
  "try_consume_until cr env inner challenge proof deadline =
    h_bind (check_deadline env deadline) (\<lambda>_.
    if pp_owner challenge \<noteq> pi_identity inner then h_lift (Err PErrStateConflict)
    else h_bind (inner_now env) (\<lambda>now. h_lock (consume_section cr inner challenge proof now)))"

definition rollback :: "pairing_env \<Rightarrow> pairing_inner \<Rightarrow> pair_consumption \<Rightarrow> pair_offer_state handler" where
  "rollback env inner permit =
    (if pi_identity inner \<noteq> pcon_owner permit then h_lift (Err PErrStateConflict)
     else (\<lambda>w. h_lock (rollback_token inner (pcon_offer_id permit) (pcon_controller_device_id permit)
       (pcon_transcript_digest permit) (env_clock env (snd w))) (fst w, Suc (snd w))))"

definition commit :: "crypto \<Rightarrow> pairing_inner \<Rightarrow> pair_consumption \<Rightarrow> auth_generation \<Rightarrow> rust_str \<Rightarrow>
    pair_commit_result handler" where
  "commit cr inner permit gen version =
    (if pi_identity inner \<noteq> pcon_owner permit then h_lift (Err PErrStateConflict)
     else if gen = 0 then h_lift (Err (PErrInvalidTicket ZeroAuthorizationGeneration))
     else h_lock (commit_token cr inner (pcon_offer_id permit) (pcon_controller_device_id permit)
       (pcon_transcript_digest permit) (pcon_transcript permit) gen version))"

definition offer_state_section :: "pairing_inner \<Rightarrow> pair_offer_id \<Rightarrow> pairing_now \<Rightarrow> manager_state \<Rightarrow>
    (pair_offer_state, pairing_error) result \<times> manager_state" where
  "offer_state_section inner offer now = after_expiry inner now (\<lambda>s.
    (case bt_get (ms_offers s) offer of
       Some r \<Rightarrow> Ok (case or_state r of LiveReady \<Rightarrow> OfferReady | LiveConsuming _ _ \<Rightarrow> OfferConsuming)
     | None \<Rightarrow> (case bt_get (ms_retired_offers s) offer of
           Some PErrTicketConsumed \<Rightarrow> Ok OfferConsumed
         | Some PErrTicketExpired \<Rightarrow> Ok OfferExpired
         | Some e \<Rightarrow> Err e
         | None \<Rightarrow> Err PErrOfferNotFound), s))"

definition offer_state :: "pairing_env \<Rightarrow> pairing_inner \<Rightarrow> pair_offer_id \<Rightarrow> pair_offer_state handler" where
  "offer_state env inner offer = h_bind (inner_now env) (\<lambda>now. h_lock (offer_state_section inner offer now))"

definition prune_expired :: "pairing_env \<Rightarrow> pairing_inner \<Rightarrow> nat handler" where
  "prune_expired env inner = h_bind (inner_now env) (\<lambda>now. h_lock (expire_ready_locked inner now))"

fun count_offers :: "offer_record list \<Rightarrow> pairing_snapshot \<Rightarrow> (pairing_snapshot, pairing_error) result" where
  "count_offers [] sn = Ok sn"
| "count_offers (r # rs) sn =
    (case or_state r of
       LiveReady \<Rightarrow> res_bind (ok_or (checked_add U64_MAX (ready_offers sn) 1) PErrResourceExhausted) (\<lambda>n.
         count_offers rs (sn\<lparr>ready_offers := n\<rparr>))
     | LiveConsuming _ _ \<Rightarrow> res_bind (ok_or (checked_add U64_MAX (consuming_offers sn) 1) PErrResourceExhausted) (\<lambda>n.
         count_offers rs (sn\<lparr>consuming_offers := n\<rparr>)))"

fun count_retired :: "pairing_error list \<Rightarrow> pairing_snapshot \<Rightarrow> (pairing_snapshot, pairing_error) result" where
  "count_retired [] sn = Ok sn"
| "count_retired (PErrTicketConsumed # es) sn =
    res_bind (ok_or (checked_add U64_MAX (consumed_tombstones sn) 1) PErrResourceExhausted) (\<lambda>n.
      count_retired es (sn\<lparr>consumed_tombstones := n\<rparr>))"
| "count_retired (PErrTicketExpired # es) sn =
    res_bind (ok_or (checked_add U64_MAX (expired_tombstones sn) 1) PErrResourceExhausted) (\<lambda>n.
      count_retired es (sn\<lparr>expired_tombstones := n\<rparr>))"
| "count_retired (_ # es) sn = count_retired es sn"

definition snapshot_section :: "pairing_inner \<Rightarrow> pairing_now \<Rightarrow> manager_state \<Rightarrow>
    (pairing_snapshot, pairing_error) result \<times> manager_state" where
  "snapshot_section inner now = after_expiry inner now (\<lambda>s.
    (res_bind (count_offers (map snd (ms_offers s))
      \<lparr>ready_offers = 0, consuming_offers = 0, operation_cells = length (ms_operations s),
       retired_operation_tombstones = length (ms_retired_operations s), consumed_tombstones = 0,
       expired_tombstones = 0\<rparr>) (count_retired (map snd (ms_retired_offers s))), s))"

definition manager_snapshot :: "pairing_env \<Rightarrow> pairing_inner \<Rightarrow> pairing_snapshot handler" where
  "manager_snapshot env inner = h_bind (inner_now env) (\<lambda>now. h_lock (snapshot_section inner now))"

end
