(* ===== verification/Pairing_Runs.thy ===== *)
theory Pairing_Runs
  imports Pairing_Manager
begin

section \<open>Concurrent runs of the pairing manager\<close>

text \<open>
  The relation \<open>manager_step\<close> interleaves the sections of any number of concurrent
  handlers of the pairing manager; \<open>manager_run\<close> collects the events of a run.  The
  invariant has two parts: \<open>sizes_ok\<close>, the bounds and the disjointness of the live and
  the retired identifiers, and \<open>linked\<close>, which ties every live offer to the cell that
  replays its ticket.  The properties are the bounds, the accounting of consumptions
  and commits, and exact replay.
\<close>

subsection \<open>Interleavings\<close>

text \<open>
  A configuration is the state under the lock together with the creations in progress,
  by the address of the cell they claimed: what the handler thread knows between its
  sections.  The events record what happened to an offer.
\<close>

datatype create_phase = Running | Inserted pair_offer_created | Failed pairing_error | Completed pairing_error

type_synonym pending = "nat \<rightharpoonup> pair_offer_request \<times> create_phase"

datatype manager_event =
    EvInserted pair_offer_id
  | EvConsumed pair_offer_id
  | EvReopened pair_offer_id
  | EvCommitted pair_offer_id
  | EvOther

definition new_record :: "crypto \<Rightarrow> pair_offer_request \<Rightarrow> pair_ticket_fields \<Rightarrow> byte list \<Rightarrow> nat \<Rightarrow> offer_record" where
  "new_record cr rq ticket_fields secret monotonic_deadline =
    \<lparr>or_fields = ticket_fields, or_offer_key = offer_key cr ticket_fields secret,
     or_monotonic_deadline = monotonic_deadline, or_operation_id = rq_operation_id rq,
     or_fingerprint = rq_fingerprint rq, or_state = LiveReady\<rparr>"

inductive manager_step :: "crypto \<Rightarrow> text_codec \<Rightarrow> pairing_inner \<Rightarrow> manager_state \<times> pending \<Rightarrow> manager_event \<Rightarrow>
    manager_state \<times> pending \<Rightarrow> bool" for cr tc inner where
  claim_new: "claim_section inner rq now s = (Ok (ClaimNew a), s') \<Longrightarrow>
    manager_step cr tc inner (s, p) EvOther (s', p(a \<mapsto> (rq, Running)))"
| claim_old: "claim_section inner rq now s = (claimed, s') \<Longrightarrow> \<forall>a. claimed \<noteq> Ok (ClaimNew a) \<Longrightarrow>
    manager_step cr tc inner (s, p) EvOther (s', p)"
| insert: "p a = Some (rq, Running) \<Longrightarrow>
    pair_ticket_fields_new PAIR_TICKET_FORMAT_VERSION (pi_host_device_id inner) (rq_host_name rq)
      (rq_relay_hints rq) offer expires = Ok tf \<Longrightarrow>
    length secret = PAIR_SECRET_BYTES \<Longrightarrow> \<not> offer_expired tf monotonic_deadline now \<Longrightarrow>
    insert_section inner offer (new_record cr rq tf secret monotonic_deadline) now s = (Ok True, s') \<Longrightarrow>
    manager_step cr tc inner (s, p) (EvInserted offer)
      (s', p(a \<mapsto> (rq, Inserted \<lparr>oc_fields = tf, oc_ticket = encode_pair_ticket tc tf secret\<rparr>)))"
| insert_none: "p a = Some (rq, Running) \<Longrightarrow>
    insert_section inner offer rec now s = (inserted, s') \<Longrightarrow> inserted \<noteq> Ok True \<Longrightarrow>
    manager_step cr tc inner (s, p) EvOther (s', p)"
| fail: "p a = Some (rq, Running) \<Longrightarrow>
    manager_step cr tc inner (s, p) EvOther (s, p(a \<mapsto> (rq, Failed e)))"
| complete_ok: "p a = Some (rq, Inserted c) \<Longrightarrow>
    manager_step cr tc inner (s, p) EvOther (complete_section a (Ok c) s, p(a := None))"
| complete_err: "p a = Some (rq, Failed e) \<Longrightarrow>
    manager_step cr tc inner (s, p) EvOther (complete_section a (Err e) s, p(a \<mapsto> (rq, Completed e)))"
| retire_failed: "p a = Some (rq, Completed e) \<Longrightarrow>
    manager_step cr tc inner (s, p) EvOther (retire_failed_section inner rq a e s, p(a := None))"
| ready: "ready_fields_section inner offer now s = (found, s') \<Longrightarrow>
    manager_step cr tc inner (s, p) EvOther (s', p)"
| consume: "consume_section cr inner challenge proof now s = (Ok permit, s') \<Longrightarrow>
    manager_step cr tc inner (s, p) (EvConsumed (pcon_offer_id permit)) (s', p)"
| consume_err: "consume_section cr inner challenge proof now s = (Err e, s') \<Longrightarrow>
    manager_step cr tc inner (s, p) EvOther (s', p)"
| rollback: "rollback_token inner offer controller digest clock s = (rolled, s') \<Longrightarrow>
    manager_step cr tc inner (s, p) (if rolled = Ok OfferReady then EvReopened offer else EvOther) (s', p)"
| commit: "commit_token cr inner offer controller digest transcript gen version s = (Ok committed, s') \<Longrightarrow>
    manager_step cr tc inner (s, p) (EvCommitted offer) (s', p)"
| commit_err: "commit_token cr inner offer controller digest transcript gen version s = (Err e, s') \<Longrightarrow>
    manager_step cr tc inner (s, p) EvOther (s', p)"
| offer_state: "offer_state_section inner offer now s = (st, s') \<Longrightarrow>
    manager_step cr tc inner (s, p) EvOther (s', p)"
| prune: "expire_ready_locked inner now s = (pruned, s') \<Longrightarrow>
    manager_step cr tc inner (s, p) EvOther (s', p)"
| snapshot: "snapshot_section inner now s = (counts, s') \<Longrightarrow>
    manager_step cr tc inner (s, p) EvOther (s', p)"

inductive manager_run :: "crypto \<Rightarrow> text_codec \<Rightarrow> pairing_inner \<Rightarrow> manager_event list \<Rightarrow> manager_state \<times> pending \<Rightarrow> bool"
  for cr tc inner where
  run_start: "manager_run cr tc inner [] (manager_empty, Map.empty)"
| run_step: "manager_run cr tc inner evs cfg \<Longrightarrow> manager_step cr tc inner cfg ev cfg' \<Longrightarrow>
    manager_run cr tc inner (evs @ [ev]) cfg'"

subsection \<open>Tombstones\<close>

definition tombs_ok :: "('k::linorder, 'v) bmap \<Rightarrow> 'k list \<Rightarrow> bool" where
  "tombs_ok m order \<longleftrightarrow> bt_wf m \<and> distinct order \<and> set order = bt_keys m"

lemma tombs_ok_drop:
  assumes "tombs_ok m (oldest # order)"
  shows "tombs_ok (bt_remove oldest m) order"
proof -
  have m: "bt_wf m" "bt_keys m = insert oldest (set order)" "oldest \<notin> set order" "distinct order"
    using assms by (simp_all add: tombs_ok_def)
  show ?thesis using m(1,3,4) by (simp add: tombs_ok_def m(2))
qed

lemma tombs_ok_Nil: "tombs_ok m [] \<longleftrightarrow> m = []"
  by (cases m) (auto simp: tombs_ok_def)

lemma drop_oldest_ok:
  "tombs_ok m order \<Longrightarrow> drop_oldest maximum m order = (m', order') \<Longrightarrow>
    tombs_ok m' order' \<and> length m' \<le> maximum \<and> bt_keys m' \<subseteq> bt_keys m"
proof (induction order arbitrary: m)
  case Nil
  then show ?case by (simp add: tombs_ok_Nil)
next
  case (Cons oldest order)
  show ?case
  proof (cases "length m > maximum")
    case True
    then have "drop_oldest maximum (bt_remove oldest m) order = (m', order')" using Cons.prems(2) by simp
    from Cons.IH[OF tombs_ok_drop[OF Cons.prems(1)] this] show ?thesis by auto
  qed (use Cons.prems in simp)
qed

lemma insert_bounded_ok:
  assumes "tombs_ok m order" "insert_bounded maximum k v m order = (m', order')"
  shows "tombs_ok m' order' \<and> length m' \<le> maximum \<and> bt_keys m' \<subseteq> insert k (bt_keys m)"
proof -
  have "tombs_ok (bt_insert k v m) (filter (\<lambda>current. current \<noteq> k) order @ [k])"
    using assms(1) by (auto simp: tombs_ok_def)
  from drop_oldest_ok[OF this assms(2)[unfolded insert_bounded_def]] show ?thesis by simp
qed

text \<open>With room for at least one tombstone the newest is kept.\<close>

lemma drop_oldest_keeps_last:
  assumes "tombs_ok m (order @ [k])" "0 < maximum" "drop_oldest maximum m (order @ [k]) = (m', order')"
  shows "bt_get m' k = bt_get m k"
  using assms
proof (induction order arbitrary: m)
  case Nil
  then have "bt_keys m = {k}" "bt_wf m" by (simp_all add: tombs_ok_def)
  then have "length m = 1" using card_bt_keys[of m] by simp
  then show ?case using Nil by simp
next
  case (Cons oldest order)
  have "oldest \<noteq> k" "tombs_ok (bt_remove oldest m) (order @ [k])"
    using Cons.prems(1) tombs_ok_drop[of m oldest "order @ [k]"] by (auto simp: tombs_ok_def)
  then show ?case using Cons by (simp split: if_splits)
qed

subsection \<open>Bounds\<close>

definition sizes_ok :: "pairing_inner \<Rightarrow> manager_state \<Rightarrow> bool" where
  "sizes_ok inner s \<longleftrightarrow>
    bt_wf (ms_offers s) \<and> bt_wf (ms_operations s) \<and>
    tombs_ok (ms_retired_offers s) (ms_retired_offer_order s) \<and>
    tombs_ok (ms_retired_operations s) (ms_retired_operation_order s) \<and>
    length (ms_offers s) \<le> max_live_offers inner \<and> length (ms_operations s) \<le> max_live_offers inner \<and>
    length (ms_retired_offers s) \<le> max_live_offers inner \<and>
    length (ms_retired_operations s) \<le> max_live_offers inner \<and>
    bt_keys (ms_offers s) \<inter> bt_keys (ms_retired_offers s) = {} \<and>
    bt_keys (ms_operations s) \<inter> bt_keys (ms_retired_operations s) = {}"

lemma sizes_empty: "sizes_ok inner manager_empty"
  by (simp add: sizes_ok_def manager_empty_def tombs_ok_def)

lemma sizes_retire_operation:
  assumes "sizes_ok inner s"
  shows "sizes_ok inner (retire_operation_locked inner op fp e s)"
proof -
  define s1 where "s1 = (case bt_get (ms_operations s) op of
      Some a \<Rightarrow> s\<lparr>ms_operations := bt_remove op (ms_operations s),
           ms_cells := (ms_cells s)[a := cell_retire e (ms_cells s ! a)]\<rparr> | None \<Rightarrow> s)"
  have s1: "sizes_ok inner s1" "op \<notin> bt_keys (ms_operations s1)"
    using assms length_bt_remove_le[of op "ms_operations s"]
    by (auto simp: s1_def sizes_ok_def bt_get_None_iff split: option.split)
  obtain m order where ins: "insert_bounded (max_live_offers inner) op \<lparr>ro_fingerprint = fp, ro_error = e\<rparr>
      (ms_retired_operations s1) (ms_retired_operation_order s1) = (m, order)" by fastforce
  with insert_bounded_ok[OF _ ins] s1 show ?thesis
    by (auto simp: retire_operation_locked_def insert_retired_operation_def s1_def[symmetric] sizes_ok_def)
qed

lemma offers_retire_operation [simp]:
  "ms_offers (retire_operation_locked inner op fp e s) = ms_offers s"
  "ms_retired_offers (retire_operation_locked inner op fp e s) = ms_retired_offers s"
  by (auto simp: retire_operation_locked_def insert_retired_operation_def split: option.split prod.split)

lemma sizes_retire_offer:
  assumes "sizes_ok inner s" "offer \<notin> bt_keys (ms_offers s)"
  shows "sizes_ok inner (retire_offer_record_locked inner offer r e s)"
proof -
  define s1 where "s1 = retire_operation_locked inner (or_operation_id r) (or_fingerprint r) e s"
  have s1: "sizes_ok inner s1" "offer \<notin> bt_keys (ms_offers s1)"
    using assms sizes_retire_operation by (simp_all add: s1_def)
  obtain m order where ins: "insert_bounded (max_live_offers inner) offer e
      (ms_retired_offers s1) (ms_retired_offer_order s1) = (m, order)" by fastforce
  with insert_bounded_ok[OF _ ins] s1 show ?thesis
    by (auto simp: retire_offer_record_locked_def insert_retired_offer_def s1_def[symmetric] sizes_ok_def)
qed

lemma sizes_remove_offer: "sizes_ok inner s \<Longrightarrow> sizes_ok inner (s\<lparr>ms_offers := bt_remove offer (ms_offers s)\<rparr>)"
  using length_bt_remove_le[of offer "ms_offers s"] by (auto simp: sizes_ok_def)

lemma sizes_retire_live:
  "sizes_ok inner s \<Longrightarrow>
    sizes_ok inner (retire_offer_record_locked inner offer r e (s\<lparr>ms_offers := bt_remove offer (ms_offers s)\<rparr>))"
  by (rule sizes_retire_offer[OF sizes_remove_offer]) simp_all

lemma sizes_set_record:
  assumes "sizes_ok inner s" "bt_get (ms_offers s) offer = Some r"
  shows "sizes_ok inner (s\<lparr>ms_offers := bt_insert offer r' (ms_offers s)\<rparr>)"
proof -
  have "offer \<in> bt_keys (ms_offers s)" using assms(2) by (rule bt_get_SomeD)
  then show ?thesis
    using assms(1) length_bt_insert_old[of "ms_offers s" offer r'] by (auto simp: sizes_ok_def)
qed

subsection \<open>Every live offer has its cell\<close>

definition record_ticket :: "crypto \<Rightarrow> text_codec \<Rightarrow> offer_record \<Rightarrow> pair_offer_created \<Rightarrow> bool" where
  "record_ticket cr tc r c \<longleftrightarrow> (\<exists>secret. length secret = PAIR_SECRET_BYTES \<and> oc_fields c = or_fields r \<and>
     oc_ticket c = encode_pair_ticket tc (or_fields r) secret \<and>
     or_offer_key r = offer_key cr (or_fields r) secret)"

definition idle :: "(pair_offer_id \<rightharpoonup> offer_record) \<Rightarrow> ephemeral_operation_id \<Rightarrow> bool" where
  "idle off op \<longleftrightarrow> (\<forall>offer r. off offer = Some r \<longrightarrow> or_operation_id r \<noteq> op)"

fun phase_ok :: "(pair_offer_id \<rightharpoonup> offer_record) \<Rightarrow> (ephemeral_operation_id \<rightharpoonup> nat) \<Rightarrow>
    (pair_offer_created, pairing_error) result option \<Rightarrow> ephemeral_operation_id \<Rightarrow> nat \<Rightarrow> create_phase \<Rightarrow> bool" where
  "phase_ok off ops oc op a Running \<longleftrightarrow> ops op = Some a \<and> oc = None \<and> idle off op"
| "phase_ok off ops oc op a (Failed e) \<longleftrightarrow> ops op = Some a \<and> oc = None \<and> idle off op"
| "phase_ok off ops oc op a (Completed e) \<longleftrightarrow> ops op = Some a \<and> oc = Some (Err e) \<and> idle off op"
| "phase_ok off ops oc op a (Inserted c) \<longleftrightarrow> oc = None \<or> (\<exists>e. oc = Some (Err e))"

definition pending_ok :: "(pair_offer_id \<rightharpoonup> offer_record) \<Rightarrow> (ephemeral_operation_id \<rightharpoonup> nat) \<Rightarrow>
    operation_cell list \<Rightarrow> pending \<Rightarrow> bool" where
  "pending_ok off ops cells p \<longleftrightarrow> (\<forall>a rq ph. p a = Some (rq, ph) \<longrightarrow> a < length cells \<and>
     cell_fingerprint (cells ! a) = rq_fingerprint rq \<and>
     phase_ok off ops (cell_outcome (cells ! a)) (rq_operation_id rq) a ph)"

definition cell_replays :: "crypto \<Rightarrow> text_codec \<Rightarrow> operation_cell list \<Rightarrow> pending \<Rightarrow> offer_record \<Rightarrow> nat \<Rightarrow> bool" where
  "cell_replays cr tc cells p r a \<longleftrightarrow> cell_fingerprint (cells ! a) = or_fingerprint r \<and>
     (\<exists>c. record_ticket cr tc r c \<and> (cell_outcome (cells ! a) = Some (Ok c) \<or>
        cell_outcome (cells ! a) = None \<and> (\<exists>rq. p a = Some (rq, Inserted c))))"

definition live_ok :: "crypto \<Rightarrow> text_codec \<Rightarrow> (pair_offer_id \<rightharpoonup> offer_record) \<Rightarrow> (ephemeral_operation_id \<rightharpoonup> nat) \<Rightarrow>
    operation_cell list \<Rightarrow> pending \<Rightarrow> bool" where
  "live_ok cr tc off ops cells p \<longleftrightarrow> (\<forall>offer r. off offer = Some r \<longrightarrow> tk_offer_id (or_fields r) = offer \<and>
     (\<exists>a. ops (or_operation_id r) = Some a \<and> cell_replays cr tc cells p r a))"

definition ops_ok :: "(pair_offer_id \<rightharpoonup> offer_record) \<Rightarrow> (ephemeral_operation_id \<rightharpoonup> nat) \<Rightarrow> operation_cell list \<Rightarrow> bool" where
  "ops_ok off ops cells \<longleftrightarrow>
    (\<forall>offer r offer' r'. off offer = Some r \<longrightarrow> off offer' = Some r' \<longrightarrow>
       or_operation_id r = or_operation_id r' \<longrightarrow> offer = offer') \<and>
    (\<forall>op a. ops op = Some a \<longrightarrow> a < length cells) \<and>
    (\<forall>op op' a. ops op = Some a \<longrightarrow> ops op' = Some a \<longrightarrow> op = op')"

definition linked :: "crypto \<Rightarrow> text_codec \<Rightarrow> (pair_offer_id \<rightharpoonup> offer_record) \<Rightarrow> (ephemeral_operation_id \<rightharpoonup> nat) \<Rightarrow>
    operation_cell list \<Rightarrow> pending \<Rightarrow> bool" where
  "linked cr tc off ops cells p \<longleftrightarrow> pending_ok off ops cells p \<and> live_ok cr tc off ops cells p \<and> ops_ok off ops cells"

lemmas linked_defs = linked_def pending_ok_def live_ok_def ops_ok_def

lemma idle_upd: "idle off op \<Longrightarrow> idle (off(offer := None)) op"
  by (auto simp: idle_def)

lemma pending_cases:
  assumes "linked cr tc off ops cells p" "p a = Some (rq, ph)"
  shows "a < length cells" "cell_fingerprint (cells ! a) = rq_fingerprint rq"
    "phase_ok off ops (cell_outcome (cells ! a)) (rq_operation_id rq) a ph"
  using assms by (auto simp: linked_def pending_ok_def)

lemma linked_inj: "linked cr tc off ops cells p \<Longrightarrow> ops op = Some a \<Longrightarrow> ops op' = Some a \<Longrightarrow> op = op'"
  unfolding linked_def ops_ok_def by blast

lemma linked_lt: "linked cr tc off ops cells p \<Longrightarrow> ops op = Some a \<Longrightarrow> a < length cells"
  unfolding linked_def ops_ok_def by blast

lemma linked_op_unique: "linked cr tc off ops cells p \<Longrightarrow> off offer = Some r \<Longrightarrow> off offer' = Some r' \<Longrightarrow>
    or_operation_id r = or_operation_id r' \<Longrightarrow> offer = offer'"
  unfolding linked_def ops_ok_def by blast

lemma linked_live:
  assumes "linked cr tc off ops cells p" "off offer = Some r"
  obtains a where "tk_offer_id (or_fields r) = offer" "ops (or_operation_id r) = Some a"
    "cell_replays cr tc cells p r a"
  using assms unfolding linked_def live_ok_def by blast

lemma linkedI:
  assumes "\<And>a rq ph. p a = Some (rq, ph) \<Longrightarrow> a < length cells \<and> cell_fingerprint (cells ! a) = rq_fingerprint rq \<and>
      phase_ok off ops (cell_outcome (cells ! a)) (rq_operation_id rq) a ph"
    and "\<And>offer r. off offer = Some r \<Longrightarrow> tk_offer_id (or_fields r) = offer \<and>
      (\<exists>a. ops (or_operation_id r) = Some a \<and> cell_replays cr tc cells p r a)"
    and "\<And>offer r offer' r'. off offer = Some r \<Longrightarrow> off offer' = Some r' \<Longrightarrow>
      or_operation_id r = or_operation_id r' \<Longrightarrow> offer = offer'"
    and "\<And>op a. ops op = Some a \<Longrightarrow> a < length cells"
    and "\<And>op op' a. ops op = Some a \<Longrightarrow> ops op' = Some a \<Longrightarrow> op = op'"
  shows "linked cr tc off ops cells p"
  using assms unfolding linked_defs by blast

lemma linked_remove:
  assumes l: "linked cr tc off ops cells p"
  shows "linked cr tc (off(offer := None)) ops cells p" (is "linked cr tc ?off ops cells p")
proof (rule linkedI)
  have sub: "off o' = Some r" if "?off o' = Some r" for o' r using that by (simp split: if_splits)
  {
    fix o' r assume "?off o' = Some r"
    from linked_live[OF l sub[OF this]]
    show "tk_offer_id (or_fields r) = o' \<and> (\<exists>a. ops (or_operation_id r) = Some a \<and> cell_replays cr tc cells p r a)"
      by blast
  next
    fix o1 r1 o2 r2 assume "?off o1 = Some r1" "?off o2 = Some r2" "or_operation_id r1 = or_operation_id r2"
    from linked_op_unique[OF l sub[OF this(1)] sub[OF this(2)] this(3)] show "o1 = o2" .
  }
  fix a rq ph assume "p a = Some (rq, ph)"
  from pending_cases[OF l this] show "a < length cells \<and> cell_fingerprint (cells ! a) = rq_fingerprint rq \<and>
      phase_ok ?off ops (cell_outcome (cells ! a)) (rq_operation_id rq) a ph"
    by (cases ph) (simp_all add: idle_upd)
qed (fact linked_lt[OF l] linked_inj[OF l])+

lemma linked_drop_op:
  assumes l: "linked cr tc off ops cells p" and a: "ops op = Some a" and idle: "idle off op"
    and p': "p' = p \<or> p' = p(a := None)" "\<And>rq ph. p' a = Some (rq, ph) \<Longrightarrow> \<exists>c. ph = Inserted c"
  shows "linked cr tc off (ops(op := None)) (cells[a := cell_retire e (cells ! a)]) p'"
    (is "linked cr tc off ?ops ?cells p'")
proof (rule linkedI)
  fix offer r assume r: "off offer = Some r"
  from linked_live[OF l r] obtain b where b: "tk_offer_id (or_fields r) = offer" "ops (or_operation_id r) = Some b"
    "cell_replays cr tc cells p r b" .
  have ne: "or_operation_id r \<noteq> op" using idle r unfolding idle_def by blast
  then have "b \<noteq> a" using linked_inj[OF l b(2)] a by blast
  then have "cell_replays cr tc ?cells p' r b" using b(3) p'(1) by (auto simp: cell_replays_def)
  with b ne show "tk_offer_id (or_fields r) = offer \<and> (\<exists>b. ?ops (or_operation_id r) = Some b \<and> cell_replays cr tc ?cells p' r b)"
    by simp
next
  fix b rq ph assume pb: "p' b = Some (rq, ph)"
  then have "p b = Some (rq, ph)" using p'(1) by (auto split: if_splits)
  note pc = pending_cases[OF l this]
  show "b < length ?cells \<and> cell_fingerprint (?cells ! b) = rq_fingerprint rq \<and>
      phase_ok off ?ops (cell_outcome (?cells ! b)) (rq_operation_id rq) b ph"
  proof (cases "b = a")
    case True
    then show ?thesis using p'(2) pb pc by (fastforce simp: cell_retire_def)
  next
    case False
    then have "ops (rq_operation_id rq) = Some b \<Longrightarrow> rq_operation_id rq \<noteq> op" using a by auto
    then show ?thesis using pc False by (cases ph) auto
  qed
next
  fix op' b assume "?ops op' = Some b"
  then have "ops op' = Some b" by (simp split: if_splits)
  from linked_lt[OF l this] show "b < length ?cells" by simp
next
  fix op1 op2 b assume "?ops op1 = Some b" "?ops op2 = Some b"
  then have "ops op1 = Some b" "ops op2 = Some b" by (simp_all split: if_splits)
  from linked_inj[OF l this] show "op1 = op2" .
qed (fact linked_op_unique[OF l])

lemma linked_retire:
  assumes l: "linked cr tc off ops cells p" and r: "off offer = Some r" and a: "ops (or_operation_id r) = Some a"
  shows "linked cr tc (off(offer := None)) (ops(or_operation_id r := None)) (cells[a := cell_retire e (cells ! a)]) p"
proof (rule linked_drop_op[OF linked_remove[OF l] a])
  show "idle (off(offer := None)) (or_operation_id r)"
    using linked_op_unique[OF l r] unfolding idle_def by (metis fun_upd_apply option.distinct(1))
  have busy: "\<not> idle off (or_operation_id r)" using r unfolding idle_def by blast
  fix rq ph assume "p a = Some (rq, ph)"
  from pending_cases(3)[OF l this] show "\<exists>c. ph = Inserted c"
    using linked_inj[OF l a, of "rq_operation_id rq"] busy by (cases ph) auto
qed simp

text \<open>The same for the other changes: a pending creation moves on, its cell is completed,
  its operation is retired, a record changes its state or appears.\<close>

lemma linked_fail:
  assumes l: "linked cr tc off ops cells p" and p: "p a = Some (rq, Running)"
  shows "linked cr tc off ops cells (p(a \<mapsto> (rq, Failed e)))"
proof (rule linkedI)
  fix b rq' ph assume "(p(a \<mapsto> (rq, Failed e))) b = Some (rq', ph)"
  then show "b < length cells \<and> cell_fingerprint (cells ! b) = rq_fingerprint rq' \<and>
      phase_ok off ops (cell_outcome (cells ! b)) (rq_operation_id rq') b ph"
    using pending_cases[OF l p] pending_cases[OF l, of b rq' ph] by (auto split: if_splits)
next
  fix offer r assume "off offer = Some r"
  from linked_live[OF l this] obtain b where "tk_offer_id (or_fields r) = offer" "ops (or_operation_id r) = Some b"
    "cell_replays cr tc cells p r b" .
  moreover from this(3) have "cell_replays cr tc cells (p(a \<mapsto> (rq, Failed e))) r b"
    using p unfolding cell_replays_def by auto
  ultimately show "tk_offer_id (or_fields r) = offer \<and>
      (\<exists>b. ops (or_operation_id r) = Some b \<and> cell_replays cr tc cells (p(a \<mapsto> (rq, Failed e))) r b)" by blast
qed (fact linked_op_unique[OF l] linked_lt[OF l] linked_inj[OF l])+

lemma linked_claim:
  assumes l: "linked cr tc off ops cells p" and op: "ops (rq_operation_id rq) = None"
  shows "linked cr tc off (ops(rq_operation_id rq \<mapsto> length cells)) (cells @ [cell_new (rq_fingerprint rq)])
    (p(length cells \<mapsto> (rq, Running)))" (is "linked cr tc off ?ops ?cells ?p")
proof (rule linkedI)
  have fresh: "p (length cells) = None" using pending_cases(1)[OF l, of "length cells"] by (cases "p (length cells)") auto
  fix offer r assume r: "off offer = Some r"
  from linked_live[OF l r] obtain b where b: "tk_offer_id (or_fields r) = offer" "ops (or_operation_id r) = Some b"
    "cell_replays cr tc cells p r b" .
  have "b < length cells" using linked_lt[OF l b(2)] .
  with b(3) have "cell_replays cr tc ?cells ?p r b" by (simp add: cell_replays_def nth_append)
  moreover have "or_operation_id r \<noteq> rq_operation_id rq" using op b(2) by auto
  ultimately show "tk_offer_id (or_fields r) = offer \<and>
      (\<exists>b. ?ops (or_operation_id r) = Some b \<and> cell_replays cr tc ?cells ?p r b)" using b by auto
next
  have none: "idle off (rq_operation_id rq)"
    unfolding idle_def using linked_live[OF l] op by (metis option.distinct(1))
  fix b rq' ph assume p: "?p b = Some (rq', ph)"
  show "b < length ?cells \<and> cell_fingerprint (?cells ! b) = rq_fingerprint rq' \<and>
      phase_ok off ?ops (cell_outcome (?cells ! b)) (rq_operation_id rq') b ph"
  proof (cases "b = length cells")
    case True
    then show ?thesis using p none by (auto simp: cell_new_def)
  next
    case False
    then have pb: "p b = Some (rq', ph)" using p by simp
    have "rq_operation_id rq' \<noteq> rq_operation_id rq" if "ops (rq_operation_id rq') = Some b" using that op by auto
    then show ?thesis using pending_cases[OF l pb] by (cases ph) (auto simp: nth_append)
  qed
next
  fix op' b assume "?ops op' = Some b"
  then show "b < length ?cells" using linked_lt[OF l, of op' b] by (auto split: if_splits)
next
  fix op1 op2 b assume "?ops op1 = Some b" "?ops op2 = Some b"
  then show "op1 = op2"
    using linked_lt[OF l, of op1 b] linked_lt[OF l, of op2 b] linked_inj[OF l, of op1 b op2] by (auto split: if_splits)
qed (fact linked_op_unique[OF l])

lemma cell_replays_state [simp]: "cell_replays cr tc cells p (r\<lparr>or_state := st\<rparr>) a \<longleftrightarrow> cell_replays cr tc cells p r a"
  by (simp add: cell_replays_def record_ticket_def)

lemma idle_state: "off offer = Some r \<Longrightarrow> idle off op \<Longrightarrow> idle (off(offer \<mapsto> r\<lparr>or_state := st\<rparr>)) op"
  by (simp add: idle_def)

lemma phase_state:
  "off offer = Some r \<Longrightarrow> phase_ok off ops oc op a ph \<Longrightarrow> phase_ok (off(offer \<mapsto> r\<lparr>or_state := st\<rparr>)) ops oc op a ph"
  by (cases ph) (simp_all add: idle_state)

lemma linked_state:
  assumes l: "linked cr tc off ops cells p" and r: "off offer = Some r"
  shows "linked cr tc (off(offer \<mapsto> r\<lparr>or_state := st\<rparr>)) ops cells p" (is "linked cr tc ?off ops cells p")
proof -
  have old: "\<exists>r0. off o' = Some r0 \<and> (r' = r0 \<or> r' = r0\<lparr>or_state := st\<rparr>)" if "?off o' = Some r'" for o' r'
    using that r by (cases "o' = offer") auto
  show ?thesis
  proof (rule linkedI)
    fix o' r' assume "?off o' = Some r'"
    then obtain r0 where r0: "off o' = Some r0" "r' = r0 \<or> r' = r0\<lparr>or_state := st\<rparr>" using old by blast
    from linked_live[OF l r0(1)] obtain b where "tk_offer_id (or_fields r0) = o'" "ops (or_operation_id r0) = Some b"
      "cell_replays cr tc cells p r0 b" .
    then show "tk_offer_id (or_fields r') = o' \<and> (\<exists>b. ops (or_operation_id r') = Some b \<and> cell_replays cr tc cells p r' b)"
      using r0(2) by auto
  next
    fix o1 r1 o2 r2 assume "?off o1 = Some r1" "?off o2 = Some r2" and same: "or_operation_id r1 = or_operation_id r2"
    then obtain q1 q2 where "off o1 = Some q1" "off o2 = Some q2"
      "or_operation_id q1 = or_operation_id r1" "or_operation_id q2 = or_operation_id r2"
      using old[of o1 r1] old[of o2 r2] by fastforce
    then show "o1 = o2" using linked_op_unique[OF l, of o1 q1 o2 q2] same by simp
  next
    fix b rq ph assume "p b = Some (rq, ph)"
    from pending_cases[OF l this] show "b < length cells \<and> cell_fingerprint (cells ! b) = rq_fingerprint rq \<and>
      phase_ok ?off ops (cell_outcome (cells ! b)) (rq_operation_id rq) b ph"
      using phase_state[of off offer r] r by blast
  qed (fact linked_lt[OF l] linked_inj[OF l])+
qed

lemma idle_insert: "idle off op \<Longrightarrow> or_operation_id r \<noteq> op \<Longrightarrow> idle (off(offer \<mapsto> r)) op"
  unfolding idle_def by simp

lemma linked_insert:
  assumes l: "linked cr tc off ops cells p" and p: "p a = Some (rq, Running)" and new: "off offer = None"
    and r: "tk_offer_id (or_fields r) = offer" "or_operation_id r = rq_operation_id rq"
      "or_fingerprint r = rq_fingerprint rq" "record_ticket cr tc r c"
  shows "linked cr tc (off(offer \<mapsto> r)) ops cells (p(a \<mapsto> (rq, Inserted c)))" (is "linked cr tc ?off ops cells ?p")
proof -
  note pc = pending_cases[OF l p]
  have a: "ops (rq_operation_id rq) = Some a" "cell_outcome (cells ! a) = None"
    and none: "idle off (rq_operation_id rq)"
    using pc(3) by simp_all
  have other: "or_operation_id r' \<noteq> rq_operation_id rq" if "off o' = Some r'" for o' r'
    using none that unfolding idle_def by blast
  have old: "o' = offer \<and> r' = r \<or> off o' = Some r'" if "?off o' = Some r'" for o' r'
    using that by (cases "o' = offer") simp_all
  have replays: "cell_replays cr tc cells ?p r a" using pc(2) a(2) r(3,4) by (simp add: cell_replays_def)
  show ?thesis
  proof (rule linkedI)
    fix o' r' assume "?off o' = Some r'"
    with old consider "o' = offer" "r' = r" | "off o' = Some r'" by blast
    then show "tk_offer_id (or_fields r') = o' \<and> (\<exists>b. ops (or_operation_id r') = Some b \<and> cell_replays cr tc cells ?p r' b)"
    proof cases
      case 1
      then show ?thesis using replays r(1,2) a(1) by simp
    next
      case 2
      from linked_live[OF l 2] obtain b where b: "tk_offer_id (or_fields r') = o'" "ops (or_operation_id r') = Some b"
        "cell_replays cr tc cells p r' b" .
      have "b \<noteq> a" using linked_inj[OF l b(2)] a(1) other[OF 2] by blast
      then have "cell_replays cr tc cells ?p r' b" using b(3) by (simp add: cell_replays_def)
      with b(1,2) show ?thesis by blast
    qed
  next
    fix o1 r1 o2 r2 assume "?off o1 = Some r1" "?off o2 = Some r2" and same: "or_operation_id r1 = or_operation_id r2"
    then have "o1 = offer \<and> r1 = r \<or> off o1 = Some r1" "o2 = offer \<and> r2 = r \<or> off o2 = Some r2" using old by blast+
    then show "o1 = o2" using linked_op_unique[OF l _ _ same] other r(2) same by metis
  next
    fix b rq' ph assume pb: "?p b = Some (rq', ph)"
    show "b < length cells \<and> cell_fingerprint (cells ! b) = rq_fingerprint rq' \<and>
      phase_ok ?off ops (cell_outcome (cells ! b)) (rq_operation_id rq') b ph"
    proof (cases "b = a")
      case True
      then have "rq' = rq" "ph = Inserted c" using pb by simp_all
      then show ?thesis using True pc a by simp
    next
      case False
      then have pb': "p b = Some (rq', ph)" using pb by simp
      have "or_operation_id r \<noteq> rq_operation_id rq'" if "ops (rq_operation_id rq') = Some b"
        using that a(1) False r(2) by auto
      then show ?thesis using pending_cases[OF l pb'] by (cases ph) (simp_all add: idle_insert)
    qed
  qed (fact linked_lt[OF l] linked_inj[OF l])+
qed

text \<open>Completing a cell.\<close>

lemma linked_cell_update:
  assumes l: "linked cr tc off ops cells p"
    and pend: "\<And>b rq ph. p' b = Some (rq, ph) \<Longrightarrow> b \<noteq> a \<Longrightarrow> p b = Some (rq, ph)"
    and same: "\<And>b. b \<noteq> a \<Longrightarrow> p' b = p b"
    and at: "\<And>rq ph. p' a = Some (rq, ph) \<Longrightarrow> a < length cells \<and> cell_fingerprint c = rq_fingerprint rq \<and>
        phase_ok off ops (cell_outcome c) (rq_operation_id rq) a ph"
    and live: "\<And>r. cell_replays cr tc cells p r a \<Longrightarrow> (\<exists>offer. off offer = Some r) \<Longrightarrow> a < length cells \<Longrightarrow>
        ops (or_operation_id r) = Some a \<Longrightarrow> cell_replays cr tc (cells[a := c]) p' r a"
  shows "linked cr tc off ops (cells[a := c]) p'"
proof (rule linkedI)
  fix offer r assume r: "off offer = Some r"
  from linked_live[OF l r] obtain b where b: "tk_offer_id (or_fields r) = offer" "ops (or_operation_id r) = Some b"
    "cell_replays cr tc cells p r b" .
  have "cell_replays cr tc (cells[a := c]) p' r b"
  proof (cases "b = a")
    case True
    then show ?thesis using live[of r] b r linked_lt[OF l b(2)] by blast
  next
    case False
    then show ?thesis using b(3) same[OF False] by (simp add: cell_replays_def)
  qed
  with b show "tk_offer_id (or_fields r) = offer \<and> (\<exists>b. ops (or_operation_id r) = Some b \<and> cell_replays cr tc (cells[a := c]) p' r b)"
    by blast
next
  fix b rq ph assume pb: "p' b = Some (rq, ph)"
  show "b < length (cells[a := c]) \<and> cell_fingerprint (cells[a := c] ! b) = rq_fingerprint rq \<and>
      phase_ok off ops (cell_outcome (cells[a := c] ! b)) (rq_operation_id rq) b ph"
  proof (cases "b = a")
    case True
    then show ?thesis using at pb by auto
  next
    case False
    then show ?thesis using pending_cases[OF l pend[OF pb False]] by simp
  qed
next
  fix op b assume "ops op = Some b"
  from linked_lt[OF l this] show "b < length (cells[a := c])" by simp
qed (fact linked_op_unique[OF l] linked_inj[OF l])+

lemma linked_complete_ok:
  assumes l: "linked cr tc off ops cells p" and p: "p a = Some (rq, Inserted c)"
  shows "linked cr tc off ops (cells[a := cell_complete (Ok c) (cells ! a)]) (p(a := None))"
proof (rule linked_cell_update[OF l])
  fix r assume "cell_replays cr tc cells p r a" "a < length cells"
  then show "cell_replays cr tc (cells[a := cell_complete (Ok c) (cells ! a)]) (p(a := None)) r a"
    using p by (auto simp: cell_replays_def cell_complete_def)
qed simp_all

lemma linked_complete_err:
  assumes l: "linked cr tc off ops cells p" and p: "p a = Some (rq, Failed e)"
  shows "linked cr tc off ops (cells[a := cell_complete (Err e) (cells ! a)]) (p(a \<mapsto> (rq, Completed e)))"
proof (rule linked_cell_update[OF l])
  note pc = pending_cases[OF l p]
  show "a < length cells \<and> cell_fingerprint (cell_complete (Err e) (cells ! a)) = rq_fingerprint rq' \<and>
      phase_ok off ops (cell_outcome (cell_complete (Err e) (cells ! a))) (rq_operation_id rq') a ph"
    if "(p(a \<mapsto> (rq, Completed e))) a = Some (rq', ph)" for rq' ph
    using that pc by (auto simp: cell_complete_def)
  show "cell_replays cr tc (cells[a := cell_complete (Err e) (cells ! a)]) (p(a \<mapsto> (rq, Completed e))) r a"
    if "cell_replays cr tc cells p r a" for r
    using that pc p by (auto simp: cell_replays_def)
qed simp_all

lemma linked_retire_failed:
  assumes l: "linked cr tc off ops cells p" and p: "p a = Some (rq, Completed e)"
  shows "linked cr tc off (ops(rq_operation_id rq := None)) (cells[a := cell_retire e (cells ! a)]) (p(a := None))"
  using pending_cases[OF l p] by (intro linked_drop_op[OF l]) simp_all

lemma linked_forget:
  assumes l: "linked cr tc off ops cells p" and p: "p a = Some (rq, Completed e)"
  shows "ops (rq_operation_id rq) = Some a"
  using pending_cases[OF l p] by simp

subsection \<open>The invariant of runs\<close>

definition manager_inv :: "crypto \<Rightarrow> text_codec \<Rightarrow> pairing_inner \<Rightarrow> manager_state \<times> pending \<Rightarrow> bool" where
  "manager_inv cr tc inner cfg \<longleftrightarrow> (case cfg of (s, p) \<Rightarrow> sizes_ok inner s \<and>
     linked cr tc (map_of (ms_offers s)) (map_of (ms_operations s)) (ms_cells s) p)"

lemma manager_invD:
  "manager_inv cr tc inner (s, p) \<Longrightarrow> sizes_ok inner s"
  "manager_inv cr tc inner (s, p) \<Longrightarrow>
    linked cr tc (map_of (ms_offers s)) (map_of (ms_operations s)) (ms_cells s) p"
  by (simp_all add: manager_inv_def)

lemma manager_invI:
  "sizes_ok inner s \<Longrightarrow> linked cr tc (map_of (ms_offers s)) (map_of (ms_operations s)) (ms_cells s) p \<Longrightarrow>
    manager_inv cr tc inner (s, p)"
  by (simp add: manager_inv_def)

lemma retire_operation_view:
  "bt_get (ms_operations s) op = Some a \<Longrightarrow>
    map_of (ms_operations (retire_operation_locked inner op fp e s)) = (map_of (ms_operations s))(op := None) \<and>
    ms_cells (retire_operation_locked inner op fp e s) = (ms_cells s)[a := cell_retire e (ms_cells s ! a)]"
  by (auto simp: retire_operation_locked_def insert_retired_operation_def split: prod.split)

lemma retire_offer_view [simp]:
  "ms_operations (retire_offer_record_locked inner offer r e s) =
    ms_operations (retire_operation_locked inner (or_operation_id r) (or_fingerprint r) e s)"
  "ms_cells (retire_offer_record_locked inner offer r e s) =
    ms_cells (retire_operation_locked inner (or_operation_id r) (or_fingerprint r) e s)"
  "ms_offers (retire_offer_record_locked inner offer r e s) = ms_offers s"
  by (simp_all add: retire_offer_record_locked_def insert_retired_offer_def split: prod.split)

lemma inv_retire_live:
  assumes inv: "manager_inv cr tc inner (s, p)" and r: "bt_get (ms_offers s) offer = Some r"
  shows "manager_inv cr tc inner
    (retire_offer_record_locked inner offer r e (s\<lparr>ms_offers := bt_remove offer (ms_offers s)\<rparr>), p)"
proof (rule manager_invI)
  let ?s = "s\<lparr>ms_offers := bt_remove offer (ms_offers s)\<rparr>"
  show "sizes_ok inner (retire_offer_record_locked inner offer r e ?s)"
    using sizes_retire_live[OF manager_invD(1)[OF inv]] .
  note l = manager_invD(2)[OF inv]
  from linked_live[OF l r] obtain a where a: "bt_get (ms_operations s) (or_operation_id r) = Some a" by blast
  have view: "map_of (ms_operations (retire_offer_record_locked inner offer r e ?s)) =
      (map_of (ms_operations s))(or_operation_id r := None)"
    "ms_cells (retire_offer_record_locked inner offer r e ?s) = (ms_cells s)[a := cell_retire e (ms_cells s ! a)]"
    using retire_operation_view[of ?s "or_operation_id r" a] a by simp_all
  show "linked cr tc (map_of (ms_offers (retire_offer_record_locked inner offer r e ?s)))
      (map_of (ms_operations (retire_offer_record_locked inner offer r e ?s)))
      (ms_cells (retire_offer_record_locked inner offer r e ?s)) p"
    unfolding view using linked_retire[OF l r a] by simp
qed

text \<open>Cleaning up removes only ready offers and keeps the invariant.\<close>

definition only_expires :: "manager_state \<Rightarrow> manager_state \<Rightarrow> bool" where
  "only_expires s s' \<longleftrightarrow> (\<forall>offer. bt_get (ms_offers s') offer = bt_get (ms_offers s) offer \<or>
     bt_get (ms_offers s') offer = None \<and>
       (\<exists>r. bt_get (ms_offers s) offer = Some r \<and> or_state r = LiveReady))"

lemma only_expires_refl [simp]: "only_expires s s"
  by (simp add: only_expires_def)

lemma only_expires_trans: "only_expires s s1 \<Longrightarrow> only_expires s1 s2 \<Longrightarrow> only_expires s s2"
  unfolding only_expires_def by metis

lemma expire_loop_inv:
  assumes "manager_inv cr tc inner (s, p)" "expire_loop inner ids removed s = (res, s')"
    and "\<forall>offer \<in> set ids. \<forall>r. bt_get (ms_offers s) offer = Some r \<longrightarrow> or_state r = LiveReady"
  shows "manager_inv cr tc inner (s', p) \<and> only_expires s s'"
  using assms
proof (induction ids arbitrary: removed s)
  case (Cons offer rest)
  show ?case
  proof (cases "bt_get (ms_offers s) offer")
    case None
    then show ?thesis using Cons by simp
  next
    case (Some r)
    define s1 where "s1 = retire_offer_record_locked inner offer r PErrTicketExpired
      (s\<lparr>ms_offers := bt_remove offer (ms_offers s)\<rparr>)"
    have s1: "manager_inv cr tc inner (s1, p)" "map_of (ms_offers s1) = (map_of (ms_offers s))(offer := None)"
      using inv_retire_live[OF Cons.prems(1) Some] by (simp_all add: s1_def)
    have step: "only_expires s s1" using s1(2) Some Cons.prems(3) by (simp add: only_expires_def)
    show ?thesis
    proof (cases "checked_add U64_MAX removed 1")
      case None
      then have "s' = s1" using Cons.prems(2) Some by (simp add: s1_def Let_def)
      with s1(1) step show ?thesis by simp
    next
      case (Some removed')
      have "expire_loop inner rest removed' s1 = (res, s')"
        using Cons.prems(2) Some \<open>bt_get (ms_offers s) offer = Some r\<close>
        by (simp add: s1_def Let_def del: checked_add_Some_iff One_nat_def)
      moreover have "\<forall>o' \<in> set rest. \<forall>r. bt_get (ms_offers s1) o' = Some r \<longrightarrow> or_state r = LiveReady"
        using Cons.prems(3) s1(2) by simp
      ultimately show ?thesis using Cons.IH[OF s1(1)] only_expires_trans[OF step] by blast
    qed
  qed
qed simp

lemma expire_inv:
  assumes "manager_inv cr tc inner (s, p)" "expire_ready_locked inner now s = (res, s')"
  shows "manager_inv cr tc inner (s', p) \<and> only_expires s s'"
proof (rule expire_loop_inv[OF assms(1) assms(2)[unfolded expire_ready_locked_def]])
  have "bt_wf (ms_offers s)" using manager_invD(1)[OF assms(1)] by (simp add: sizes_ok_def)
  then show "\<forall>offer \<in> set (map fst (filter (\<lambda>(offer, r). record_expired now r) (ms_offers s))).
      \<forall>r. bt_get (ms_offers s) offer = Some r \<longrightarrow> or_state r = LiveReady"
    by (auto simp: bt_get_in_set record_expired_def)
qed

lemma after_expiry_inv:
  assumes "manager_inv cr tc inner (s, p)" "after_expiry inner now section s = (res, s')"
  obtains s1 where "manager_inv cr tc inner (s1, p)" "only_expires s s1"
    "section s1 = (res, s') \<or> s' = s1 \<and> (\<exists>e. res = Err e)"
proof -
  obtain n s1 where s1: "expire_ready_locked inner now s = (n, s1)" by fastforce
  from expire_inv[OF assms(1) s1] assms(2) s1 show thesis
    by (intro that[of s1]) (auto simp: after_expiry_def split: result.splits)
qed

text \<open>How a step may change the live offers, by its event.\<close>

fun offers_change :: "pairing_inner \<Rightarrow> manager_event \<Rightarrow> manager_state \<Rightarrow> manager_state \<Rightarrow> bool" where
  "offers_change inner (EvInserted offer) s s' \<longleftrightarrow> (\<exists>s1 r. only_expires s s1 \<and> bt_get (ms_offers s1) offer = None \<and>
     host_device_id (or_fields r) = pi_host_device_id inner \<and>
     or_state r = LiveReady \<and> map_of (ms_offers s') = (map_of (ms_offers s1))(offer \<mapsto> r))"
| "offers_change inner (EvConsumed offer) s s' \<longleftrightarrow> (\<exists>s1 r device digest. only_expires s s1 \<and>
     bt_get (ms_offers s1) offer = Some r \<and> or_state r = LiveReady \<and>
     map_of (ms_offers s') = (map_of (ms_offers s1))(offer \<mapsto> r\<lparr>or_state := LiveConsuming device digest\<rparr>))"
| "offers_change inner (EvReopened offer) s s' \<longleftrightarrow> (\<exists>r device digest.
     bt_get (ms_offers s) offer = Some r \<and> or_state r = LiveConsuming device digest \<and>
     map_of (ms_offers s') = (map_of (ms_offers s))(offer \<mapsto> r\<lparr>or_state := LiveReady\<rparr>))"
| "offers_change inner (EvCommitted offer) s s' \<longleftrightarrow> (\<exists>r device digest.
     bt_get (ms_offers s) offer = Some r \<and> or_state r = LiveConsuming device digest \<and>
     map_of (ms_offers s') = (map_of (ms_offers s))(offer := None))"
| "offers_change inner EvOther s s' \<longleftrightarrow> (\<forall>offer. bt_get (ms_offers s') offer = bt_get (ms_offers s) offer \<or>
     bt_get (ms_offers s') offer = None)"

lemma only_expires_other: "only_expires s s' \<Longrightarrow> offers_change inner EvOther s s'"
  by (auto simp: only_expires_def)

definition step_ok :: "crypto \<Rightarrow> text_codec \<Rightarrow> pairing_inner \<Rightarrow> manager_event \<Rightarrow> manager_state \<Rightarrow> manager_state \<times> pending \<Rightarrow> bool" where
  "step_ok cr tc inner ev s cfg' \<longleftrightarrow> manager_inv cr tc inner cfg' \<and> offers_change inner ev s (fst cfg')"

lemma step_okI: "manager_inv cr tc inner (s', p') \<Longrightarrow> offers_change inner ev s s' \<Longrightarrow> step_ok cr tc inner ev s (s', p')"
  by (simp add: step_ok_def)

text \<open>Sections that only look after cleaning up.\<close>

lemma reading_step:
  assumes inv: "manager_inv cr tc inner (s, p)" and sec: "after_expiry inner now section s = (res, s')"
    and look: "\<And>s1 res s'. section s1 = (res, s') \<Longrightarrow> s' = s1"
  shows "step_ok cr tc inner EvOther s (s', p)"
proof -
  obtain s1 where "manager_inv cr tc inner (s1, p)" "only_expires s s1" "section s1 = (res, s') \<or> s' = s1"
    using after_expiry_inv[OF inv sec] by blast
  moreover from this(3) have "s' = s1" using look by blast
  ultimately show ?thesis by (intro step_okI only_expires_other) simp_all
qed

lemma claim_old_step:
  assumes inv: "manager_inv cr tc inner (s, p)" and sec: "claim_section inner rq now s = (res, s')"
    and old: "\<forall>a. res \<noteq> Ok (ClaimNew a)"
  shows "step_ok cr tc inner EvOther s (s', p)"
proof (rule after_expiry_inv[OF inv sec[unfolded claim_section_def]], goal_cases)
  case (1 s1)
  then have "s' = s1" using old by (auto split: option.splits if_splits)
  with 1 show ?case by (intro step_okI only_expires_other) simp_all
qed

lemma claim_new_step:
  assumes inv: "manager_inv cr tc inner (s, p)" and sec: "claim_section inner rq now s = (Ok (ClaimNew a), s')"
  shows "step_ok cr tc inner EvOther s (s', p(a \<mapsto> (rq, Running)))"
proof (rule after_expiry_inv[OF inv sec[unfolded claim_section_def]], goal_cases)
  case (1 s1)
  then have a: "a = length (ms_cells s1)" and none: "bt_get (ms_operations s1) (rq_operation_id rq) = None"
      "bt_get (ms_retired_operations s1) (rq_operation_id rq) = None" "length (ms_operations s1) < max_live_offers inner"
    and s': "s' = s1\<lparr>ms_operations := bt_insert (rq_operation_id rq) (length (ms_cells s1)) (ms_operations s1),
                 ms_cells := ms_cells s1 @ [cell_new (rq_fingerprint rq)]\<rparr>"
    by (auto split: option.splits if_splits)
  have "sizes_ok inner s'"
    using manager_invD(1)[OF 1(1)] none
    by (simp add: s' sizes_ok_def length_bt_insert_new bt_get_None_iff)
  moreover have "linked cr tc (map_of (ms_offers s')) (map_of (ms_operations s')) (ms_cells s') (p(a \<mapsto> (rq, Running)))"
    using linked_claim[OF manager_invD(2)[OF 1(1)] none(1)] by (simp add: s' a)
  moreover have "offers_change inner EvOther s s'"
    using only_expires_other[OF 1(2)] by (simp add: s')
  ultimately show ?case by (intro step_okI manager_invI)
qed

lemma insert_none_step:
  assumes inv: "manager_inv cr tc inner (s, p)" and sec: "insert_section inner offer rec now s = (res, s')"
    and no: "res \<noteq> Ok True"
  shows "step_ok cr tc inner EvOther s (s', p)"
proof (rule after_expiry_inv[OF inv sec[unfolded insert_section_def]], goal_cases)
  case (1 s1)
  then have "s' = s1" using no by (auto split: if_splits)
  with 1 show ?case by (intro step_okI only_expires_other) simp_all
qed

lemma new_record_fields:
  "or_fields (new_record cr rq tf secret d) = tf" "or_operation_id (new_record cr rq tf secret d) = rq_operation_id rq"
  "or_fingerprint (new_record cr rq tf secret d) = rq_fingerprint rq" "or_state (new_record cr rq tf secret d) = LiveReady"
  by (simp_all add: new_record_def)

lemma new_record_ticket: "length secret = PAIR_SECRET_BYTES \<Longrightarrow>
    record_ticket cr tc (new_record cr rq tf secret d) \<lparr>oc_fields = tf, oc_ticket = encode_pair_ticket tc tf secret\<rparr>"
  by (auto simp: record_ticket_def new_record_def)

lemma insert_step:
  assumes inv: "manager_inv cr tc inner (s, p)" and p: "p a = Some (rq, Running)"
    and tf: "pair_ticket_fields_new PAIR_TICKET_FORMAT_VERSION (pi_host_device_id inner) (rq_host_name rq)
      (rq_relay_hints rq) offer expires = Ok tf" and secret: "length secret = PAIR_SECRET_BYTES"
    and sec: "insert_section inner offer (new_record cr rq tf secret monotonic_deadline) now s = (Ok True, s')"
  shows "step_ok cr tc inner (EvInserted offer) s
    (s', p(a \<mapsto> (rq, Inserted \<lparr>oc_fields = tf, oc_ticket = encode_pair_ticket tc tf secret\<rparr>)))"
proof (rule after_expiry_inv[OF inv sec[unfolded insert_section_def]], goal_cases)
  case (1 s1)
  let ?r = "new_record cr rq tf secret monotonic_deadline"
  from 1 have free: "bt_get (ms_offers s1) offer = None" "bt_get (ms_retired_offers s1) offer = None"
      "length (ms_offers s1) < max_live_offers inner"
    and s': "s' = s1\<lparr>ms_offers := bt_insert offer ?r (ms_offers s1)\<rparr>"
    by (auto simp: offer_id_taken_def split: if_splits)
  have "sizes_ok inner s'"
    using manager_invD(1)[OF 1(1)] free
    by (simp add: s' sizes_ok_def length_bt_insert_new bt_get_None_iff)
  moreover have "linked cr tc (map_of (ms_offers s')) (map_of (ms_operations s')) (ms_cells s')
      (p(a \<mapsto> (rq, Inserted \<lparr>oc_fields = tf, oc_ticket = encode_pair_ticket tc tf secret\<rparr>)))"
    using linked_insert[OF manager_invD(2)[OF 1(1)] p free(1), of ?r _] new_record_ticket[OF secret]
      pair_ticket_fields_new_Ok[OF tf] by (simp add: s' new_record_fields)
  moreover have "offers_change inner (EvInserted offer) s s'"
    using 1(2) free(1) by (auto simp: s' new_record_fields intro!: exI[of _ s1] exI[of _ ?r] pair_ticket_fields_new_Ok[OF tf, THEN conjunct2, THEN conjunct1])
  ultimately show ?case by (intro step_okI manager_invI)
qed

lemma pending_step:
  assumes inv: "manager_inv cr tc inner (s, p)"
  shows "p a = Some (rq, Running) \<Longrightarrow> step_ok cr tc inner EvOther s (s, p(a \<mapsto> (rq, Failed e)))"
    and "p a = Some (rq, Inserted c) \<Longrightarrow> step_ok cr tc inner EvOther s (complete_section a (Ok c) s, p(a := None))"
    and "p a = Some (rq, Failed e) \<Longrightarrow>
      step_ok cr tc inner EvOther s (complete_section a (Err e) s, p(a \<mapsto> (rq, Completed e)))"
  using inv linked_fail[of cr tc "map_of (ms_offers s)" "map_of (ms_operations s)" "ms_cells s" p a rq e]
    linked_complete_ok[of cr tc "map_of (ms_offers s)" "map_of (ms_operations s)" "ms_cells s" p a rq c]
    linked_complete_err[of cr tc "map_of (ms_offers s)" "map_of (ms_operations s)" "ms_cells s" p a rq e]
  by (simp_all add: step_ok_def manager_inv_def sizes_ok_def complete_section_def)

lemma retire_failed_step:
  assumes inv: "manager_inv cr tc inner (s, p)" and p: "p a = Some (rq, Completed e)"
  shows "step_ok cr tc inner EvOther s (retire_failed_section inner rq a e s, p(a := None))"
proof -
  note l = manager_invD(2)[OF inv]
  let ?s = "retire_operation_locked inner (rq_operation_id rq) (rq_fingerprint rq) e s"
  have op: "bt_get (ms_operations s) (rq_operation_id rq) = Some a" using linked_forget[OF l p] .
  have "linked cr tc (map_of (ms_offers ?s)) (map_of (ms_operations ?s)) (ms_cells ?s) (p(a := None))"
    using linked_retire_failed[OF l p] retire_operation_view[OF op] by simp
  then show ?thesis
    using sizes_retire_operation[OF manager_invD(1)[OF inv]] op
    by (simp add: step_ok_def manager_inv_def retire_failed_section_def)
qed

lemma consume_err_step:
  assumes inv: "manager_inv cr tc inner (s, p)" and sec: "consume_section cr inner challenge proof now s = (Err e, s')"
  shows "step_ok cr tc inner EvOther s (s', p)"
proof (rule after_expiry_inv[OF inv sec[unfolded consume_section_def]], goal_cases)
  case (1 s1)
  then have "s' = s1" by (auto split: option.splits if_splits live_offer_state.splits)
  with 1 show ?case by (intro step_okI only_expires_other) simp_all
qed

lemma inv_set_state:
  assumes inv: "manager_inv cr tc inner (s, p)" and r: "bt_get (ms_offers s) offer = Some r"
  shows "manager_inv cr tc inner (s\<lparr>ms_offers := bt_insert offer (r\<lparr>or_state := st\<rparr>) (ms_offers s)\<rparr>, p)"
proof (rule manager_invI)
  show "sizes_ok inner (s\<lparr>ms_offers := bt_insert offer (r\<lparr>or_state := st\<rparr>) (ms_offers s)\<rparr>)"
    using sizes_set_record[OF manager_invD(1)[OF inv] r] .
qed (use linked_state[OF manager_invD(2)[OF inv], of offer r st] r in simp)

lemma consume_step:
  assumes inv: "manager_inv cr tc inner (s, p)" and sec: "consume_section cr inner challenge proof now s = (Ok permit, s')"
  shows "step_ok cr tc inner (EvConsumed (pcon_offer_id permit)) s (s', p)"
proof (rule after_expiry_inv[OF inv sec[unfolded consume_section_def]], goal_cases)
  case (1 s1)
  then obtain r where r: "bt_get (ms_offers s1) (pp_offer_id challenge) = Some r" "or_state r = LiveReady"
      "pcon_offer_id permit = pp_offer_id challenge"
    and s': "s' = s1\<lparr>ms_offers := bt_insert (pp_offer_id challenge)
      (r\<lparr>or_state := LiveConsuming (pp_controller_device_id challenge) (pp_transcript_digest challenge)\<rparr>) (ms_offers s1)\<rparr>"
    by (auto split: option.splits if_splits live_offer_state.splits)
  have "offers_change inner (EvConsumed (pcon_offer_id permit)) s s'"
    using 1(2) r by (auto simp: s')
  then show ?case using inv_set_state[OF 1(1) r(1)] by (simp add: s' step_ok_def)
qed

lemma rollback_step:
  assumes inv: "manager_inv cr tc inner (s, p)" and sec: "rollback_token inner offer controller digest clock s = (res, s')"
  shows "step_ok cr tc inner (if res = Ok OfferReady then EvReopened offer else EvOther) s (s', p)"
proof (cases "bt_get (ms_offers s) offer")
  case None
  then show ?thesis using inv sec
    by (auto simp: rollback_token_def step_ok_def split: option.splits pairing_error.splits)
next
  case (Some r)
  consider "res = Err PErrStateConflict" "s' = s"
    | "res = Ok OfferExpired" "s' = retire_offer_record_locked inner offer r PErrTicketExpired
        (s\<lparr>ms_offers := bt_remove offer (ms_offers s)\<rparr>)"
    | "res = Ok OfferReady" "s' = s\<lparr>ms_offers := bt_insert offer (r\<lparr>or_state := LiveReady\<rparr>) (ms_offers s)\<rparr>"
      "or_state r = LiveConsuming controller digest"
    using sec Some by (auto simp: rollback_token_def split: if_splits option.splits)
  then show ?thesis
  proof cases
    case 2
    then show ?thesis using inv_retire_live[OF inv Some] by (simp add: step_ok_def)
  next
    case 3
    then show ?thesis using inv_set_state[OF inv Some] Some by (auto simp: step_ok_def)
  qed (use inv in \<open>simp add: step_ok_def\<close>)
qed

lemma commit_step:
  assumes inv: "manager_inv cr tc inner (s, p)"
    and sec: "commit_token cr inner offer controller digest transcript gen version s = (Ok committed, s')"
  shows "step_ok cr tc inner (EvCommitted offer) s (s', p)"
proof -
  obtain r where r: "bt_get (ms_offers s) offer = Some r" "or_state r = LiveConsuming controller digest"
    and s': "s' = retire_offer_record_locked inner offer r PErrTicketConsumed
        (s\<lparr>ms_offers := bt_remove offer (ms_offers s)\<rparr>)"
    using sec by (auto simp: commit_token_def split: option.splits if_splits)
  then show ?thesis using inv_retire_live[OF inv r(1)] by (auto simp: step_ok_def)
qed

lemma commit_err_state:
  "commit_token cr inner offer controller digest transcript gen version s = (Err e, s') \<Longrightarrow> s' = s"
  by (auto simp: commit_token_def split: option.splits if_splits)

lemma step_keeps_inv:
  assumes "manager_step cr tc inner cfg ev cfg'" "manager_inv cr tc inner cfg"
  shows "step_ok cr tc inner ev (fst cfg) cfg'"
  using assms
proof (induction rule: manager_step.induct)
  case (ready offer now s found s' p)
  then show ?case
    by (auto simp: ready_fields_section_def split: option.splits live_offer_state.splits intro!: reading_step)
next
  case (offer_state offer now s st s' p)
  then show ?case by (auto simp: offer_state_section_def intro!: reading_step)
next
  case (snapshot now s counts s' p)
  then show ?case by (auto simp: snapshot_section_def intro!: reading_step)
next
  case (prune now s pruned s' p)
  then show ?case using expire_inv[of cr tc inner s p now pruned s'] only_expires_other by (simp add: step_ok_def)
next
  case (commit_err offer controller digest transcript gen version s e s' p)
  then show ?case using commit_err_state[OF commit_err(1)] by (simp add: step_ok_def)
qed (simp_all add: claim_new_step claim_old_step insert_step insert_none_step pending_step
    retire_failed_step consume_step consume_err_step rollback_step commit_step del: if_split)

lemma run_inv: "manager_run cr tc inner evs cfg \<Longrightarrow> manager_inv cr tc inner cfg"
proof (induction rule: manager_run.induct)
  case run_start
  show ?case
    using sizes_empty[of inner] by (auto simp: manager_inv_def manager_empty_def intro: linkedI)
next
  case (run_step evs cfg ev cfg')
  from step_keeps_inv[OF run_step(2) run_step.IH] show ?case by (simp add: step_ok_def)
qed

subsection \<open>Properties of runs\<close>

text \<open>C8: the memory of the pairing manager stays bounded.  However creations,
  consumptions, roll-backs, commits and clean-ups of any number of handlers interleave,
  at most \<open>max_live_offers\<close> offers, cells and tombstones of each kind exist, an
  identifier is never both live and retired, and the eviction queues list exactly the
  retained tombstones.\<close>

theorem pairing_memory_bounded:
  assumes "manager_run cr tc inner evs (s, p)"
  shows "length (ms_offers s) \<le> max_live_offers inner \<and> length (ms_operations s) \<le> max_live_offers inner \<and>
    length (ms_retired_offers s) \<le> max_live_offers inner \<and>
    length (ms_retired_operations s) \<le> max_live_offers inner \<and>
    bt_keys (ms_offers s) \<inter> bt_keys (ms_retired_offers s) = {} \<and>
    bt_keys (ms_operations s) \<inter> bt_keys (ms_retired_operations s) = {} \<and>
    distinct (ms_retired_offer_order s) \<and> set (ms_retired_offer_order s) = bt_keys (ms_retired_offers s) \<and>
    distinct (ms_retired_operation_order s) \<and>
    set (ms_retired_operation_order s) = bt_keys (ms_retired_operations s)"
  using manager_invD(1)[OF run_inv[OF assms]] by (simp add: sizes_ok_def tombs_ok_def)

definition is_live :: "manager_state \<Rightarrow> pair_offer_id \<Rightarrow> nat" where
  "is_live s offer = (if bt_get (ms_offers s) offer = None then 0 else 1)"

definition is_ready :: "manager_state \<Rightarrow> pair_offer_id \<Rightarrow> nat" where
  "is_ready s offer = (case bt_get (ms_offers s) offer of Some r \<Rightarrow> if or_state r = LiveReady then 1 else 0 | None \<Rightarrow> 0)"

definition is_consuming :: "manager_state \<Rightarrow> pair_offer_id \<Rightarrow> nat" where
  "is_consuming s offer = (case bt_get (ms_offers s) offer of Some r \<Rightarrow> if or_state r = LiveReady then 0 else 1 | None \<Rightarrow> 0)"

lemmas offer_measures = is_live_def is_ready_def is_consuming_def

lemma only_expires_measures:
  "only_expires s s' \<Longrightarrow> is_live s' offer \<le> is_live s offer \<and> is_ready s' offer \<le> is_ready s offer \<and>
    is_consuming s' offer = is_consuming s offer"
  unfolding only_expires_def offer_measures
  by (drule spec[of _ offer]) (cases "bt_get (ms_offers s) offer"; auto)

definition accounted :: "manager_event list \<Rightarrow> manager_state \<Rightarrow> pair_offer_id \<Rightarrow> bool" where
  "accounted evs s offer \<longleftrightarrow>
    count_list evs (EvCommitted offer) + is_live s offer \<le> count_list evs (EvInserted offer) \<and>
    count_list evs (EvConsumed offer) + is_ready s offer \<le>
      count_list evs (EvInserted offer) + count_list evs (EvReopened offer) \<and>
    count_list evs (EvCommitted offer) + count_list evs (EvReopened offer) + is_consuming s offer \<le>
      count_list evs (EvConsumed offer)"

lemma accounted_step:
  assumes "accounted evs s offer" "offers_change inner ev s s'"
  shows "accounted (evs @ [ev]) s' offer"
proof (cases ev)
  case (EvInserted o')
  then obtain s1 r where "only_expires s s1" "bt_get (ms_offers s1) o' = None" "or_state r = LiveReady"
    "map_of (ms_offers s') = (map_of (ms_offers s1))(o' \<mapsto> r)" using assms(2) by auto
  with only_expires_measures[OF this(1), of offer] assms(1) EvInserted show ?thesis
    by (cases "o' = offer") (auto simp: accounted_def offer_measures)
next
  case (EvConsumed o')
  then obtain s1 r device digest where "only_expires s s1" "bt_get (ms_offers s1) o' = Some r" "or_state r = LiveReady"
    "map_of (ms_offers s') = (map_of (ms_offers s1))(o' \<mapsto> r\<lparr>or_state := LiveConsuming device digest\<rparr>)"
    using assms(2) by auto
  with only_expires_measures[OF this(1), of offer] assms(1) EvConsumed show ?thesis
    by (cases "o' = offer") (auto simp: accounted_def offer_measures)
next
  case (EvReopened o')
  then show ?thesis using assms by (cases "o' = offer") (auto simp: accounted_def offer_measures)
next
  case (EvCommitted o')
  then show ?thesis using assms by (cases "o' = offer") (auto simp: accounted_def offer_measures)
next
  case EvOther
  then have "bt_get (ms_offers s') offer = bt_get (ms_offers s) offer \<or> bt_get (ms_offers s') offer = None"
    using assms(2) by simp
  then show ?thesis using assms(1) EvOther by (auto simp: accounted_def offer_measures)
qed

lemma run_accounted: "manager_run cr tc inner evs cfg \<Longrightarrow> accounted evs (fst cfg) offer"
proof (induction rule: manager_run.induct)
  case run_start
  show ?case by (simp add: accounted_def offer_measures manager_empty_def)
next
  case (run_step evs cfg ev cfg')
  from step_keeps_inv[OF run_step(2) run_inv[OF run_step(1)]] run_step.IH show ?case
    by (auto simp: step_ok_def intro: accounted_step)
qed

text \<open>C4: tickets are one-time and consumption is exclusive.  In every run, an offer is
  committed at most once per creation; a new permit is handed out only for a creation or
  a roll-back that no earlier permit has used up; and every commit and every roll-back
  uses up a permit of its own.\<close>

theorem offers_consumed_once:
  assumes "manager_run cr tc inner evs (s, p)"
  shows "count_list evs (EvCommitted offer) + is_live s offer \<le> count_list evs (EvInserted offer) \<and>
    count_list evs (EvConsumed offer) + is_ready s offer \<le>
      count_list evs (EvInserted offer) + count_list evs (EvReopened offer) \<and>
    count_list evs (EvCommitted offer) + count_list evs (EvReopened offer) + is_consuming s offer \<le>
      count_list evs (EvConsumed offer)"
  using run_accounted[OF assms, of offer] by (simp add: accounted_def)

lemma expire_loop_other:
  "offer \<notin> set ids \<Longrightarrow> expire_loop inner ids removed s = (res, s') \<Longrightarrow>
    bt_get (ms_offers s') offer = bt_get (ms_offers s) offer"
proof (induction ids arbitrary: removed s)
  case (Cons o' rest)
  show ?case
  proof (cases "bt_get (ms_offers s) o'")
    case None
    then show ?thesis using Cons by simp
  next
    case (Some r)
    let ?s = "retire_offer_record_locked inner o' r PErrTicketExpired (s\<lparr>ms_offers := bt_remove o' (ms_offers s)\<rparr>)"
    have "bt_get (ms_offers ?s) offer = bt_get (ms_offers s) offer" using Cons.prems(1) by simp
    then show ?thesis
      using Cons Some by (auto simp: Let_def checked_add_def split: if_splits)
  qed
qed simp

lemma expire_loop_Ok:
  "removed + length ids \<le> U64_MAX \<Longrightarrow> \<exists>n s'. expire_loop inner ids removed s = (Ok n, s')"
proof (induction ids arbitrary: removed s)
  case (Cons o' rest)
  have "\<exists>n s'. expire_loop inner rest removed s = (Ok n, s')"
    "\<And>s. \<exists>n s'. expire_loop inner rest (Suc removed) s = (Ok n, s')"
    using Cons.IH[of removed s] Cons.IH[of "Suc removed"] Cons.prems by simp_all
  moreover have "removed + 1 \<le> U64_MAX" using Cons.prems by simp
  ultimately show ?case by (simp add: Let_def checked_add_def split: option.split)
qed simp

text \<open>A live offer that is not expired is still there after the clean-up, which succeeds.\<close>

lemma expire_keeps:
  assumes inv: "manager_inv cr tc inner (s, p)" and r: "bt_get (ms_offers s) offer = Some r"
    and fresh: "\<not> record_expired now r" and size: "max_live_offers inner \<le> U64_MAX"
  obtains n s1 where "expire_ready_locked inner now s = (Ok n, s1)" "bt_get (ms_offers s1) offer = Some r"
    "manager_inv cr tc inner (s1, p)"
proof -
  let ?ids = "map fst (filter (\<lambda>(offer, r). record_expired now r) (ms_offers s))"
  have sizes: "bt_wf (ms_offers s)" "length (ms_offers s) \<le> max_live_offers inner"
    using manager_invD(1)[OF inv] by (simp_all add: sizes_ok_def)
  have "length ?ids \<le> U64_MAX"
    using sizes(2) size length_filter_le[of "\<lambda>(offer, r). record_expired now r" "ms_offers s"]
    by (simp only: length_map)
  then obtain n s1 where ex: "expire_loop inner ?ids 0 s = (Ok n, s1)" using expire_loop_Ok[of 0 ?ids inner s] by (metis add_0)
  have "offer \<notin> set ?ids" using sizes(1) r fresh by (auto simp: bt_get_in_set)
  with expire_loop_other[OF _ ex] r have "bt_get (ms_offers s1) offer = Some r" by simp
  moreover have "expire_ready_locked inner now s = (Ok n, s1)" using ex by (simp add: expire_ready_locked_def)
  ultimately show thesis using that expire_inv[OF inv] by blast
qed

text \<open>C6: creating is exactly-once while the offer lives.  Repeating the request of a live,
  unexpired offer joins the cell of the original request, and what that cell holds, or is
  about to be given by the handler that inserted the offer, is one and the same ticket: its
  secret is the one from which the offer's verification key was derived.  Reusing the
  operation identifier with another fingerprint is refused.\<close>

theorem live_offer_replays_ticket:
  assumes run: "manager_run cr tc inner evs (s, p)" and size: "max_live_offers inner \<le> U64_MAX"
    and live: "bt_get (ms_offers s) offer = Some r" and fresh: "\<not> record_expired now r"
    and op: "rq_operation_id rq = or_operation_id r"
  shows "\<exists>res s'. claim_section inner rq now s = (res, s') \<and>
    (if rq_fingerprint rq = or_fingerprint r
     then \<exists>a c secret. res = Ok (ClaimJoin a) \<and> oc_fields c = or_fields r \<and>
       oc_ticket c = encode_pair_ticket tc (or_fields r) secret \<and>
       or_offer_key r = offer_key cr (or_fields r) secret \<and>
       (cell_outcome (ms_cells s' ! a) = Some (Ok c) \<or>
        cell_outcome (ms_cells s' ! a) = None \<and> (\<exists>rq'. p a = Some (rq', Inserted c)))
     else res = Err PErrOutcomeUnknown)"
proof (rule expire_keeps[OF run_inv[OF run] live fresh size], goal_cases)
  case (1 n s1)
  from linked_live[OF manager_invD(2)[OF 1(3)] 1(2)] obtain a where
    a: "bt_get (ms_operations s1) (or_operation_id r) = Some a" "cell_replays cr tc (ms_cells s1) p r a" by blast
  have "claim_section inner rq now s =
      (if rq_fingerprint rq = or_fingerprint r then (Ok (ClaimJoin a), s1) else (Err PErrOutcomeUnknown, s1))"
    using 1(1) a op by (simp add: claim_section_def after_expiry_def cell_replays_def)
  with a(2) show ?case by (fastforce simp: cell_replays_def record_ticket_def)
qed

subsection \<open>An honest handshake\<close>

definition hosts_ok :: "pairing_inner \<Rightarrow> manager_state \<Rightarrow> bool" where
  "hosts_ok inner s \<longleftrightarrow> (\<forall>offer r. bt_get (ms_offers s) offer = Some r \<longrightarrow>
     host_device_id (or_fields r) = pi_host_device_id inner)"

lemma hosts_expire: "hosts_ok inner s \<Longrightarrow> only_expires s s1 \<Longrightarrow> hosts_ok inner s1"
  unfolding hosts_ok_def only_expires_def by (metis option.distinct(1))

lemma hosts_update:
  "hosts_ok inner s \<Longrightarrow> host_device_id (or_fields r) = pi_host_device_id inner \<Longrightarrow>
    map_of (ms_offers s') = (map_of (ms_offers s))(offer \<mapsto> r) \<Longrightarrow> hosts_ok inner s'"
  by (simp add: hosts_ok_def)

lemma hosts_change:
  assumes h: "hosts_ok inner s" and c: "offers_change inner ev s s'"
  shows "hosts_ok inner s'"
proof (cases ev)
  case (EvInserted offer)
  with c obtain s1 r where "only_expires s s1" "host_device_id (or_fields r) = pi_host_device_id inner"
    "map_of (ms_offers s') = (map_of (ms_offers s1))(offer \<mapsto> r)" by auto
  then show ?thesis using hosts_update hosts_expire[OF h] by blast
next
  case (EvConsumed offer)
  with c obtain s1 r st where "only_expires s s1" "bt_get (ms_offers s1) offer = Some r"
    "map_of (ms_offers s') = (map_of (ms_offers s1))(offer \<mapsto> r\<lparr>or_state := st\<rparr>)" by auto
  then show ?thesis using hosts_update[of inner s1 "r\<lparr>or_state := st\<rparr>"] hosts_expire[OF h] by (simp add: hosts_ok_def)
next
  case (EvReopened offer)
  with c obtain r where "bt_get (ms_offers s) offer = Some r"
    "map_of (ms_offers s') = (map_of (ms_offers s))(offer \<mapsto> r\<lparr>or_state := LiveReady\<rparr>)" by auto
  then show ?thesis using h by (simp add: hosts_ok_def)
next
  case (EvCommitted offer)
  then show ?thesis using h c by (auto simp: hosts_ok_def split: if_splits)
next
  case EvOther
  then have "bt_get (ms_offers s') offer = bt_get (ms_offers s) offer \<or> bt_get (ms_offers s') offer = None" for offer
    using c by simp
  then show ?thesis using h unfolding hosts_ok_def by (metis option.distinct(1))
qed

lemma run_hosts: "manager_run cr tc inner evs cfg \<Longrightarrow> hosts_ok inner (fst cfg)"
proof (induction rule: manager_run.induct)
  case run_start
  then show ?case by (simp add: hosts_ok_def manager_empty_def)
next
  case (run_step evs cfg ev cfg')
  from step_keeps_inv[OF run_step(2) run_inv[OF run_step(1)]] hosts_change[OF run_step.IH]
  show ?case unfolding step_ok_def by blast
qed

text \<open>No call fails and time has not run out while the offer is used.\<close>

definition quiet :: "pairing_env \<Rightarrow> offer_record \<Rightarrow> nat \<Rightarrow> bool" where
  "quiet env r deadline \<longleftrightarrow> (\<forall>k. env_instant env k < deadline \<and> env_entropy env k \<noteq> None \<and>
     (\<exists>now. env_clock env k = Some now \<and> \<not> offer_expired (or_fields r) (or_monotonic_deadline r) now))"

lemma quiet_now:
  assumes "quiet env r deadline"
  obtains now where "inner_now env (s, k) = (Ok now, (s, Suc k))" "\<not> record_expired now r"
  using assms unfolding quiet_def inner_now_def record_expired_def by (metis fst_conv ok_or.simps(2) snd_conv)

lemma quiet_deadline: "quiet env r deadline \<Longrightarrow> check_deadline env deadline (s, k) = (Ok (), (s, Suc k))"
  by (simp add: quiet_def check_deadline_def not_le)

lemma quiet_nonce:
  assumes "quiet env r deadline"
  obtains nonce where "random_nonce_until env deadline (s, k) = (Ok nonce, (s, k + 3))"
proof -
  obtain f where "env_entropy env (Suc k) = Some f" using assms unfolding quiet_def by blast
  then show thesis
    by (intro that[of "map f [0..<PAIR_NONCE_BYTES]"])
      (simp add: random_nonce_until_def h_bind_def h_return_def quiet_deadline[OF assms] entropy_fill_def)
qed

lemma quiet_ready_fields:
  assumes q: "quiet env r deadline" and inv: "manager_inv cr tc inner (s, p)"
    and size: "max_live_offers inner \<le> U64_MAX"
    and r: "bt_get (ms_offers s) offer = Some r" "or_state r = LiveReady"
  obtains s1 where "ready_fields env inner offer (s, k) = (Ok (or_fields r), (s1, Suc k))"
    "manager_inv cr tc inner (s1, p)" "bt_get (ms_offers s1) offer = Some r"
proof -
  obtain now where now: "inner_now env (s, k) = (Ok now, (s, Suc k))" "\<not> record_expired now r"
    using quiet_now[OF q] .
  show thesis
  proof (rule expire_keeps[OF inv r(1) now(2) size], goal_cases)
    case (1 n s1)
    then show ?case
      using now(1) r(2) by (intro that[of s1])
        (simp_all add: ready_fields_def h_bind_def h_lock_def ready_fields_section_def after_expiry_def)
  qed
qed

lemma transcript_exists:
  assumes "pair_begin_new (tk_offer_id t) name nonce PAIR_PROTOCOL_VERSION = Ok begin'"
    "pc_ticket_expiry_unix challenge = tk_expires_at_unix t" "pc_selected_version challenge = PAIR_PROTOCOL_VERSION"
  obtains transcript where
    "controller_transcript cr t (host_device_id t) controller begin' challenge = Ok transcript"
proof -
  have b: "pb_offer_id begin' = tk_offer_id t" "pb_controller_name begin' = name"
    "pb_pair_protocol_version begin' = PAIR_PROTOCOL_VERSION" "parse_device_name name = Ok name"
    and len: "str_len name \<le> U16_MAX"
    using assms(1) by (auto simp: pair_begin_new_def parse_device_name_Ok device_display_name_new_def
        MAX_DEVICE_DISPLAY_NAME_BYTES_def split: if_splits)
  show thesis
    using that b len assms(2,3)
    by (auto simp: controller_transcript_def pair_transcript_new_def validate_protocol_version_def Let_def
        canonical_transcript_bytes_def push_len_prefixed_utf8_def)
qed

lemma quiet_prepare:
  assumes q: "quiet env r deadline" and inv: "manager_inv cr tc inner (s, p)" and hosts: "hosts_ok inner s"
    and size: "max_live_offers inner \<le> U64_MAX"
    and r: "bt_get (ms_offers s) offer = Some r" "or_state r = LiveReady"
    and b: "pair_begin_new offer name nonce PAIR_PROTOCOL_VERSION = Ok begin'"
  obtains prepared s2 k2 where
    "prepare_challenge_until cr env inner controller begin' deadline (s, k) = (Ok prepared, (s2, k2))"
    "manager_inv cr tc inner (s2, p)" "bt_get (ms_offers s2) offer = Some r"
    "controller_transcript cr (or_fields r) (pi_host_device_id inner) controller begin' (pp_challenge prepared) =
       Ok (pp_transcript prepared)"
    "pp_owner prepared = pi_identity inner" "pp_offer_id prepared = offer"
    "pp_controller_device_id prepared = controller"
    "pp_ticket_digest prepared = ticket_digest cr (or_fields r)"
    "pp_transcript_digest prepared = sha256 cr (tr_canonical (pp_transcript prepared))"
proof -
  have host: "host_device_id (or_fields r) = pi_host_device_id inner" using hosts r(1) by (simp add: hosts_ok_def)
  have id': "tk_offer_id (or_fields r) = offer" using linked_live[OF manager_invD(2)[OF inv] r(1)] by blast
  have begin': "pb_offer_id begin' = offer" "pb_controller_name begin' = name"
    and name: "device_display_name_new name = Ok name"
    using b by (auto simp: pair_begin_new_def device_display_name_Ok)
  obtain s1 where s1: "ready_fields env inner offer (s, Suc k) = (Ok (or_fields r), (s1, k + 2))"
      "manager_inv cr tc inner (s1, p)" "bt_get (ms_offers s1) offer = Some r"
    using quiet_ready_fields[OF q inv size r, of "Suc k"] by auto
  obtain host_nonce where nonce: "random_nonce_until env deadline (s1, k + 2) = (Ok host_nonce, (s1, k + 2 + 3))"
    using quiet_nonce[OF q] .
  obtain s2 where s2: "ready_fields env inner offer (s1, k + 2 + 3) = (Ok (or_fields r), (s2, Suc (k + 2 + 3)))"
      "manager_inv cr tc inner (s2, p)" "bt_get (ms_offers s2) offer = Some r"
    using quiet_ready_fields[OF q s1(2) size s1(3) r(2)] .
  let ?ch = "\<lparr>pc_host_nonce = host_nonce, pc_selected_version = PAIR_PROTOCOL_VERSION,
    pc_ticket_expiry_unix = tk_expires_at_unix (or_fields r)\<rparr>"
  obtain t where t: "controller_transcript cr (or_fields r) (host_device_id (or_fields r)) controller begin' ?ch = Ok t"
    using transcript_exists[of "or_fields r" name nonce begin' ?ch] b id' by auto
  show thesis
    by (rule that[of "\<lparr>pp_owner = pi_identity inner, pp_offer_id = offer, pp_controller_device_id = controller,
        pp_controller_name = name, pp_challenge = ?ch, pp_transcript = t,
        pp_ticket_digest = ticket_digest cr (or_fields r), pp_transcript_digest = sha256 cr (tr_canonical t)\<rparr>"
        s2 "Suc (k + 2 + 3)"])
      (use t host s1(1) nonce s2 begin' name in \<open>simp_all add: prepare_challenge_until_def h_bind_def h_return_def h_lift_def
        quiet_deadline[OF q] pair_challenge_new_def validate_protocol_version_def del: device_display_name_Ok_self\<close>)
qed

lemma quiet_consume:
  assumes q: "quiet env r deadline" and inv: "manager_inv cr tc inner (s, p)"
    and size: "max_live_offers inner \<le> U64_MAX"
    and r: "bt_get (ms_offers s) (pp_offer_id prepared) = Some r" "or_state r = LiveReady"
    and pr: "pp_owner prepared = pi_identity inner" "pp_ticket_digest prepared = ticket_digest cr (or_fields r)"
    and verifies: "verify_controller_proof cr (pp_transcript prepared) (or_offer_key r) proof"
  obtains s' where
    "try_consume_until cr env inner prepared proof deadline (s, k) =
      (Ok \<lparr>pcon_owner = pi_identity inner, pcon_offer_id = pp_offer_id prepared,
           pcon_controller_device_id = pp_controller_device_id prepared,
           pcon_controller_name = pp_controller_name prepared,
           pcon_transcript_digest = pp_transcript_digest prepared,
           pcon_transcript = pp_transcript prepared\<rparr>, (s', k + 2))"
    "bt_get (ms_offers s') (pp_offer_id prepared) = Some
      (r\<lparr>or_state := LiveConsuming (pp_controller_device_id prepared) (pp_transcript_digest prepared)\<rparr>)"
    "manager_inv cr tc inner (s', p)"
proof -
  obtain now where now: "inner_now env (s, Suc k) = (Ok now, (s, Suc (Suc k)))" "\<not> record_expired now r"
    using quiet_now[OF q] .
  show thesis
  proof (rule expire_keeps[OF inv r(1) now(2) size], goal_cases)
    case (1 n s1)
    let ?s = "s1\<lparr>ms_offers := bt_insert (pp_offer_id prepared)
      (r\<lparr>or_state := LiveConsuming (pp_controller_device_id prepared) (pp_transcript_digest prepared)\<rparr>) (ms_offers s1)\<rparr>"
    have "consume_section cr inner prepared proof now s =
        (Ok \<lparr>pcon_owner = pi_identity inner, pcon_offer_id = pp_offer_id prepared,
           pcon_controller_device_id = pp_controller_device_id prepared,
           pcon_controller_name = pp_controller_name prepared,
           pcon_transcript_digest = pp_transcript_digest prepared,
           pcon_transcript = pp_transcript prepared\<rparr>, ?s)"
      using 1(1,2) r(2) pr(2) verifies by (simp add: consume_section_def after_expiry_def)
    then show ?case
      using now(1) pr(1) inv_set_state[OF 1(3,2)]
      by (intro that[of ?s])
        (simp_all add: try_consume_until_def h_bind_def h_lock_def quiet_deadline[OF q])
  qed
qed

lemma retire_offer_tombstone:
  assumes "sizes_ok inner s" "0 < max_live_offers inner"
  shows "bt_get (ms_retired_offers (retire_offer_record_locked inner offer r e s)) offer = Some e"
proof -
  define s1 where "s1 = retire_operation_locked inner (or_operation_id r) (or_fingerprint r) e s"
  have tombs: "tombs_ok (ms_retired_offers s1) (ms_retired_offer_order s1)"
    using sizes_retire_operation[OF assms(1)] by (simp add: s1_def sizes_ok_def)
  then have "tombs_ok (bt_insert offer e (ms_retired_offers s1))
      (filter (\<lambda>current. current \<noteq> offer) (ms_retired_offer_order s1) @ [offer])"
    by (auto simp: tombs_ok_def)
  from drop_oldest_keeps_last[OF this assms(2)] show ?thesis
    by (simp add: retire_offer_record_locked_def insert_retired_offer_def insert_bounded_def s1_def[symmetric]
        split: prod.split)
qed

text \<open>C5: an honest handshake completes.  While the offer is ready and no clock, entropy or
  deadline failure occurs, a controller that holds the ticket is given a challenge from
  which it computes the host's transcript; its proof is accepted, the commit after the
  durable authorization succeeds, and the confirmation it receives validates for exactly
  the authorized generation.  Afterwards the offer is retired as consumed.\<close>

theorem honest_handshake_completes:
  assumes run: "manager_run cr tc inner evs (s, p)" and mac: "mac_verifies cr" "\<forall>k d. length (hmac_sha256 cr k d) = 32"
    and size: "0 < max_live_offers inner" "max_live_offers inner \<le> U64_MAX"
    and r: "bt_get (ms_offers s) offer = Some r" "or_state r = LiveReady"
    and key: "or_offer_key r = offer_key cr (or_fields r) secret"
    and q: "quiet env r deadline"
    and b: "pair_begin_new offer name nonce PAIR_PROTOCOL_VERSION = Ok begin'"
    and gen: "0 < gen" "gen \<le> SQLITE_MAX" and version: "device_display_name_new version = Ok version"
  shows "\<exists>prepared w1 permit w2 committed w3 accepted.
    prepare_challenge_until cr env inner controller begin' deadline (s, k) = (Ok prepared, w1) \<and>
    controller_transcript cr (or_fields r) (pi_host_device_id inner) controller begin' (pp_challenge prepared) =
      Ok (pp_transcript prepared) \<and>
    try_consume_until cr env inner prepared
      (controller_proof cr (pp_transcript prepared) (offer_key cr (or_fields r) secret)) deadline w1 = (Ok permit, w2) \<and>
    pcon_controller_device_id permit = controller \<and>
    commit cr inner permit gen version w2 = (Ok committed, w3) \<and>
    commit_pair_accepted committed = Ok accepted \<and>
    validate_pair_accepted cr accepted (pp_transcript prepared) (offer_key cr (or_fields r) secret) = Ok gen \<and>
    bt_get (ms_offers (fst w3)) offer = None \<and> bt_get (ms_retired_offers (fst w3)) offer = Some PErrTicketConsumed"
proof -
  note inv = run_inv[OF run]
  have hosts: "hosts_ok inner s" using run_hosts[OF run] by simp
  obtain prepared s2 k2 where pr:
    "prepare_challenge_until cr env inner controller begin' deadline (s, k) = (Ok prepared, (s2, k2))"
    "manager_inv cr tc inner (s2, p)" "bt_get (ms_offers s2) offer = Some r"
    "controller_transcript cr (or_fields r) (pi_host_device_id inner) controller begin' (pp_challenge prepared) =
       Ok (pp_transcript prepared)"
    "pp_owner prepared = pi_identity inner" "pp_offer_id prepared = offer" "pp_controller_device_id prepared = controller"
    "pp_ticket_digest prepared = ticket_digest cr (or_fields r)"
    "pp_transcript_digest prepared = sha256 cr (tr_canonical (pp_transcript prepared))"
    using quiet_prepare[OF q inv hosts size(2) r b] .
  let ?key = "offer_key cr (or_fields r) secret" and ?t = "pp_transcript prepared"
  let ?permit = "\<lparr>pcon_owner = pi_identity inner, pcon_offer_id = offer, pcon_controller_device_id = controller,
    pcon_controller_name = pp_controller_name prepared, pcon_transcript_digest = pp_transcript_digest prepared,
    pcon_transcript = ?t\<rparr>"
  have c1: "bt_get (ms_offers s2) (pp_offer_id prepared) = Some r" using pr(3,6) by simp
  have c2: "verify_controller_proof cr ?t (or_offer_key r) (controller_proof cr ?t ?key)"
    using mac(1) key by (simp add: verify_controller_proof_def controller_proof_def mac_verifies_def)
  obtain s3 where s3:
    "try_consume_until cr env inner prepared (controller_proof cr ?t ?key) deadline (s2, k2) = (Ok ?permit, (s3, k2 + 2))"
    "bt_get (ms_offers s3) offer = Some (r\<lparr>or_state := LiveConsuming controller (pp_transcript_digest prepared)\<rparr>)"
    "manager_inv cr tc inner (s3, p)"
    using quiet_consume[OF q pr(2) size(2) c1 r(2) pr(5,8) c2, of k2] unfolding pr(6,7) .
  let ?c = "\<lparr>cr_generation = gen, cr_host_confirmation_proof = host_confirmation cr ?t ?key gen,
    cr_host_diagnostic_version = version\<rparr>"
  let ?s4 = "retire_offer_record_locked inner offer (r\<lparr>or_state := LiveConsuming controller (pp_transcript_digest prepared)\<rparr>)
    PErrTicketConsumed (s3\<lparr>ms_offers := bt_remove offer (ms_offers s3)\<rparr>)"
  have committed: "commit cr inner ?permit gen version (s3, k2 + 2) = (Ok ?c, (?s4, k2 + 2))"
    using s3(2) gen(1) pr(9) key by (simp add: commit_def commit_token_def h_lock_def)
  let ?a = "\<lparr>pa_authorization_generation = gen, pa_host_confirmation_proof = host_confirmation cr ?t ?key gen,
    pa_host_diagnostic_version = version\<rparr>"
  have accepted: "commit_pair_accepted ?c = Ok ?a"
    using gen(1) version by (simp add: commit_pair_accepted_def pair_accepted_from_proof_def)
  have valid: "validate_pair_accepted cr ?a ?t ?key = Ok gen"
    using gen version mac
    by (simp add: validate_pair_accepted_def auth_generation_new_def verify_host_confirmation_def
        host_confirmation_def mac_verifies_def del: device_display_name_Ok_self)
  have tomb: "bt_get (ms_retired_offers ?s4) offer = Some PErrTicketConsumed"
    using retire_offer_tombstone[OF sizes_remove_offer[OF manager_invD(1)[OF s3(3)]] size(1)] .
  have gone: "bt_get (ms_offers ?s4) offer = None" by simp
  show ?thesis
    by (intro exI conjI) (rule pr(1) pr(4) s3(1) committed accepted valid gone[folded fst_conv] tomb | simp add: tomb)+
qed

subsection \<open>Handlers are runs\<close>

lemma h_bind_elim:
  assumes "h_bind m f w = (res, w')"
  obtains (stop) e where "m w = (Err e, w')" "res = Err e" | (go) x w1 where "m w = (Ok x, w1)" "f x w1 = (res, w')"
  using assms by (auto simp: h_bind_def split: prod.splits result.splits)

lemma h_bind_Ok: "m w = (Ok x, w1) \<Longrightarrow> h_bind m f w = f x w1"
  by (simp add: h_bind_def)

lemma calls_keep_state:
  "check_deadline env deadline w = (x, w') \<Longrightarrow> fst w' = fst w"
  "entropy_fill env n w = (y, w') \<Longrightarrow> fst w' = fst w"
  "inner_now env w = (z, w') \<Longrightarrow> fst w' = fst w"
  "h_lift l w = (l', w') \<Longrightarrow> fst w' = fst w"
  "h_observe w = (o', w') \<Longrightarrow> fst w' = fst w"
  by (auto simp: check_deadline_def entropy_fill_def inner_now_def h_lift_def h_observe_def)

lemma entropy_length: "entropy_fill env n w = (Ok bytes, w') \<Longrightarrow> length bytes = n"
  by (auto simp: entropy_fill_def)

definition extends :: "crypto \<Rightarrow> text_codec \<Rightarrow> pairing_inner \<Rightarrow> manager_event list \<Rightarrow> manager_state \<times> pending \<Rightarrow> bool" where
  "extends cr tc inner evs cfg \<longleftrightarrow> (\<exists>evs'. manager_run cr tc inner (evs @ evs') cfg)"

lemma extends_refl: "manager_run cr tc inner evs cfg \<Longrightarrow> extends cr tc inner evs cfg"
  unfolding extends_def by (metis append_Nil2)

lemma extends_step: "extends cr tc inner evs cfg \<Longrightarrow> manager_step cr tc inner cfg ev cfg' \<Longrightarrow> extends cr tc inner evs cfg'"
  unfolding extends_def by (metis append_assoc manager_run.run_step)

lemma extends_inv: "extends cr tc inner evs cfg \<Longrightarrow> manager_inv cr tc inner cfg"
  unfolding extends_def using run_inv by blast

lemma attempt_cases:
  assumes "create_attempts cr tc env inner rq expires monotonic_deadline deadline (Suc n) (s, k) = (res, (s', k'))"
  obtains (failed) e where "res = Err e" "s' = s"
  | (again) k1 where "create_attempts cr tc env inner rq expires monotonic_deadline deadline n (s, k1) = (res, (s', k'))"
  | (reached) offer secret tf now inserted s1 k1 where
      "pair_ticket_fields_new PAIR_TICKET_FORMAT_VERSION (pi_host_device_id inner) (rq_host_name rq)
         (rq_relay_hints rq) offer expires = Ok tf"
      "length secret = PAIR_SECRET_BYTES" "\<not> offer_expired tf monotonic_deadline now"
      "insert_section inner offer (new_record cr rq tf secret monotonic_deadline) now s = (inserted, s1)"
      "case inserted of Err e \<Rightarrow> res = Err e \<and> s' = s1
        | Ok True \<Rightarrow> res = Ok \<lparr>oc_fields = tf, oc_ticket = encode_pair_ticket tc tf secret\<rparr> \<and> s' = s1
        | Ok False \<Rightarrow> create_attempts cr tc env inner rq expires monotonic_deadline deadline n (s1, k1) = (res, (s', k'))"
proof (rule ccontr)
  assume no: "\<not> thesis"
  note eq = assms[unfolded create_attempts.simps]
  have stop: False if "m w = (Err e, w')" "fst w' = s" "h_bind m f w = (res, (s', k'))" for m :: "'x handler" and f w e w'
    using that failed no by (auto simp: h_bind_def)
  have d: "check_deadline env deadline (s, i) = (Ok (), (s, Suc i))"
    if "h_bind (check_deadline env deadline) f (s, i) = (res, (s', k'))" for f i
    using stop[OF _ _ that] by (auto simp: check_deadline_def split: if_splits)
  have fill: "\<exists>bytes. entropy_fill env l (s, i) = (Ok bytes, (s, Suc i)) \<and> length bytes = l"
    if "h_bind (entropy_fill env l) f (s, i) = (res, (s', k'))" for f l i
    using stop[OF _ _ that] by (cases "env_entropy env i") (auto simp: entropy_fill_def)
  note eq1 = eq[unfolded h_bind_Ok[of "check_deadline env deadline", OF d[OF eq]]]
  obtain offer where offer: "entropy_fill env PAIR_OFFER_ID_BYTES (s, Suc k) = (Ok offer, (s, Suc (Suc k)))"
    using fill[OF eq1] by blast
  have observed: "h_bind h_observe f (s, i) = f s (s, i)" for f :: "manager_state \<Rightarrow> pair_offer_created handler" and i
    by (simp add: h_bind_def h_observe_def)
  have free: "\<not> offer_id_taken offer s"
    using eq1[unfolded h_bind_Ok[of "entropy_fill env PAIR_OFFER_ID_BYTES", OF offer] observed] again no by auto
  have eq2: "h_bind (entropy_fill env PAIR_SECRET_BYTES) (\<lambda>secret.
      h_bind (check_deadline env deadline) (\<lambda>_.
      h_bind (h_lift (map_err PErrInvalidTicket
        (pair_ticket_fields_new PAIR_TICKET_FORMAT_VERSION (pi_host_device_id inner) (rq_host_name rq)
          (rq_relay_hints rq) offer expires))) (\<lambda>ticket_fields.
      if str_len (encode_pair_ticket tc ticket_fields secret) > pi_max_ticket_text_bytes inner
      then h_lift (Err PErrResourceExhausted)
      else
        h_bind (inner_now env) (\<lambda>now.
        if offer_expired ticket_fields monotonic_deadline now then h_lift (Err PErrTicketExpired)
        else
          h_bind (h_lock (insert_section inner offer
            (new_record cr rq ticket_fields secret monotonic_deadline) now)) (\<lambda>inserted.
          if inserted then h_return \<lparr>oc_fields = ticket_fields, oc_ticket = encode_pair_ticket tc ticket_fields secret\<rparr>
          else create_attempts cr tc env inner rq expires monotonic_deadline deadline n)))))
      (s, Suc (Suc k)) = (res, (s', k'))"
    using eq1[unfolded h_bind_Ok[of "entropy_fill env PAIR_OFFER_ID_BYTES", OF offer] observed] free
    by (simp only: new_record_def Let_def if_False)
  obtain secret where secret: "entropy_fill env PAIR_SECRET_BYTES (s, Suc (Suc k)) = (Ok secret, (s, Suc (Suc (Suc k))))"
      "length secret = PAIR_SECRET_BYTES"
    using fill[OF eq2] by blast
  note eq3 = eq2[unfolded h_bind_Ok[of "entropy_fill env PAIR_SECRET_BYTES", OF secret(1)]]
  note eq4 = eq3[unfolded h_bind_Ok[of "check_deadline env deadline", OF d[OF eq3]]]
  obtain tf where tf: "pair_ticket_fields_new PAIR_TICKET_FORMAT_VERSION (pi_host_device_id inner) (rq_host_name rq)
      (rq_relay_hints rq) offer expires = Ok tf"
    using stop[OF _ _ eq4] by (cases "pair_ticket_fields_new PAIR_TICKET_FORMAT_VERSION (pi_host_device_id inner)
      (rq_host_name rq) (rq_relay_hints rq) offer expires") (auto simp: h_lift_def)
  have fits: "\<not> str_len (encode_pair_ticket tc tf secret) > pi_max_ticket_text_bytes inner"
    using eq4 tf failed no by (auto simp: h_bind_def h_lift_def split: if_splits)
  have eq5: "h_bind (inner_now env) (\<lambda>now.
        if offer_expired tf monotonic_deadline now then h_lift (Err PErrTicketExpired)
        else
          h_bind (h_lock (insert_section inner offer (new_record cr rq tf secret monotonic_deadline) now)) (\<lambda>inserted.
          if inserted then h_return \<lparr>oc_fields = tf, oc_ticket = encode_pair_ticket tc tf secret\<rparr>
          else create_attempts cr tc env inner rq expires monotonic_deadline deadline n))
      (s, Suc (Suc (Suc (Suc k)))) = (res, (s', k'))"
    using eq4 tf fits by (simp add: h_bind_def[of "h_lift _"] h_lift_def)
  obtain now where now: "inner_now env (s, Suc (Suc (Suc (Suc k)))) = (Ok now, (s, Suc (Suc (Suc (Suc (Suc k))))))"
    using stop[OF _ _ eq5] by (cases "env_clock env (Suc (Suc (Suc (Suc k))))") (auto simp: inner_now_def)
  note eq6 = eq5[unfolded h_bind_Ok[of "inner_now env", OF now]]
  have fresh: "\<not> offer_expired tf monotonic_deadline now"
    using eq6 failed no by (auto simp: h_lift_def)
  obtain inserted s1 where ins: "insert_section inner offer (new_record cr rq tf secret monotonic_deadline) now s = (inserted, s1)"
    by fastforce
  have "case inserted of Err e \<Rightarrow> res = Err e \<and> s' = s1
      | Ok True \<Rightarrow> res = Ok \<lparr>oc_fields = tf, oc_ticket = encode_pair_ticket tc tf secret\<rparr> \<and> s' = s1
      | Ok False \<Rightarrow> create_attempts cr tc env inner rq expires monotonic_deadline deadline n
          (s1, Suc (Suc (Suc (Suc (Suc k))))) = (res, (s', k'))"
    using eq6 fresh ins by (auto simp: h_bind_def h_lock_def h_return_def split: result.splits bool.splits)
  from reached[OF tf secret(2) fresh ins this] no show False by blast
qed

lemma attempts_extend:
  assumes "extends cr tc inner evs (s, p)" "p a = Some (rq, Running)"
    "create_attempts cr tc env inner rq expires monotonic_deadline deadline n (s, k) = (res, (s', k'))"
  shows "extends cr tc inner evs (s', case res of Ok c \<Rightarrow> p(a \<mapsto> (rq, Inserted c)) | Err _ \<Rightarrow> p)"
  using assms
proof (induction n arbitrary: s k)
  case 0
  then show ?case by (auto simp: h_lift_def)
next
  case (Suc n)
  from Suc.prems(3) show ?case
  proof (cases rule: attempt_cases)
    case (failed e)
    then show ?thesis using Suc.prems(1) by simp
  next
    case (again k1)
    then show ?thesis using Suc.IH Suc.prems(1,2) by blast
  next
    case (reached offer secret tf now inserted s1 k1)
    note none = extends_step[OF Suc.prems(1) manager_step.insert_none[of p a rq, OF Suc.prems(2) reached(4)]]
    consider "inserted = Ok True" | "inserted = Ok False" | e where "inserted = Err e" by (cases inserted) auto
    then show ?thesis
    proof cases
      case 1
      with reached(4) have ins: "insert_section inner offer (new_record cr rq tf secret monotonic_deadline) now s = (Ok True, s1)"
        by simp
      from extends_step[OF Suc.prems(1) manager_step.insert[of p a rq, OF Suc.prems(2) reached(1-3) ins]] 1 reached(5)
      show ?thesis by (simp add: fun_upd_def)
    next
      case 2
      with none have "extends cr tc inner evs (s1, p)" by simp
      with 2 reached(5) Suc.IH[OF _ Suc.prems(2)] show ?thesis by simp
    next
      case 3
      with none reached(5) show ?thesis by simp
    qed
  qed
qed

lemma run_claimed_extends:
  assumes ext: "extends cr tc inner evs (s, p)" and p: "p a = Some (rq, Running)"
    and run: "run_claimed cr tc env inner rq expires monotonic_deadline deadline a (s, k) = (res, (s', k'))"
  shows "extends cr tc inner evs (s', p(a := None))"
proof -
  obtain s1 k1 where ex: "execute_create cr tc env inner rq expires monotonic_deadline deadline (s, k) = (res, (s1, k1))"
    and s': "s' = (case res of Err e \<Rightarrow> retire_failed_section inner rq a e (complete_section a res s1)
      | Ok _ \<Rightarrow> complete_section a res s1)"
    using run by (auto simp: run_claimed_def Let_def split: prod.splits)
  note e1 = attempts_extend[OF ext p ex[unfolded execute_create_def]]
  show ?thesis
  proof (cases res)
    case (Ok c)
    have e2: "extends cr tc inner evs (s1, p(a \<mapsto> (rq, Inserted c)))" using e1 Ok by (simp add: fun_upd_def)
    from extends_step[OF e2 manager_step.complete_ok[where a = a and rq = rq and c = c]] Ok s'
    show ?thesis by simp
  next
    case (Err e)
    have e2: "extends cr tc inner evs (s1, p)" using e1 Err by simp
    note e3 = extends_step[OF e2 manager_step.fail[of p a rq _ _ _ _ e, OF p]]
    have e4: "extends cr tc inner evs (complete_section a (Err e) s1, p(a \<mapsto> (rq, Completed e)))"
      using extends_step[OF e3 manager_step.complete_err[where a = a and rq = rq and e = e]] by simp
    from extends_step[OF e4 manager_step.retire_failed[where a = a and rq = rq and e = e]] Err s'
    show ?thesis by simp
  qed
qed

lemma create_cases:
  assumes "create_or_join cr tc env inner rq deadline (s, k) = (res, (s', k'))"
  shows "s' = s \<or> (\<exists>now claim s1. claim_section inner rq now s = (claim, s1) \<and>
      (s' = s1 \<and> (\<forall>a. claim \<noteq> Ok (ClaimNew a)) \<or>
       (\<exists>a expires md res' k1. claim = Ok (ClaimNew a) \<and>
          run_claimed cr tc env inner rq expires md deadline a (s1, k1) = (res', (s', k')))))"
  using assms unfolding create_or_join_def
  by (elim h_bind_elim)
    (auto simp: h_lock_def h_return_def h_lift_def check_deadline_def inner_now_def
      split: prod.splits create_claim.splits elim!: h_bind_elim)

lemma fresh_address:
  assumes "manager_inv cr tc inner (s, p)" "claim_section inner rq now s = (Ok (ClaimNew a), s1)"
  shows "p a = None"
proof (rule after_expiry_inv[OF assms(1) assms(2)[unfolded claim_section_def]], goal_cases)
  case (1 s2)
  then have "a = length (ms_cells s2)" by (auto split: option.splits if_splits)
  with pending_cases(1)[OF manager_invD(2)[OF 1(1)], of a] show ?case by (cases "p a") auto
qed

lemma create_extends:
  assumes ext: "extends cr tc inner evs (s, p)"
    and c: "create_or_join cr tc env inner rq deadline (s, k) = (res, (s', k'))"
  shows "extends cr tc inner evs (s', p)"
  using create_cases[OF c]
proof (elim disjE exE conjE)
  fix now claim s1 assume "claim_section inner rq now s = (claim, s1)" "s' = s1" "\<forall>a. claim \<noteq> Ok (ClaimNew a)"
  then show ?thesis using extends_step[OF ext manager_step.claim_old] by blast
next
  fix now claim s1 a expires md res' k1
  assume claim: "claim_section inner rq now s = (claim, s1)" "claim = Ok (ClaimNew a)"
    and run: "run_claimed cr tc env inner rq expires md deadline a (s1, k1) = (res', (s', k'))"
  have e1: "extends cr tc inner evs (s1, p(a \<mapsto> (rq, Running)))"
    using extends_step[OF ext manager_step.claim_new] claim by simp
  have "p a = None" using fresh_address[OF extends_inv[OF ext]] claim by simp
  then have "p(a := None) = p" by auto
  with run_claimed_extends[OF e1 _ run] show ?thesis by simp
qed (use ext in simp)

lemma ready_fields_extends:
  assumes "extends cr tc inner evs (s, p)" "ready_fields env inner offer (s, k) = (res, (s', k'))"
  shows "extends cr tc inner evs (s', p)"
  using assms extends_step[OF assms(1) manager_step.ready]
  by (auto simp: ready_fields_def h_lock_def inner_now_def split: prod.splits elim!: h_bind_elim)

lemma nonce_keeps_state: "random_nonce_until env deadline (s, k) = (res, (s', k')) \<Longrightarrow> s' = s"
  by (auto simp: random_nonce_until_def h_return_def check_deadline_def entropy_fill_def elim!: h_bind_elim)

lemma prepare_extends:
  assumes ext: "extends cr tc inner evs (s, p)"
    and c: "prepare_challenge_until cr env inner controller begin' deadline (s, k) = (res, (s', k'))"
  shows "extends cr tc inner evs (s', p)"
proof -
  have "s' = s \<or> (\<exists>k0 x s1 k1. ready_fields env inner (pb_offer_id begin') (s, k0) = (x, (s1, k1)) \<and>
     (s' = s1 \<or> (\<exists>k2 y k3. ready_fields env inner (pb_offer_id begin') (s1, k2) = (y, (s', k3)))))"
    using c unfolding prepare_challenge_until_def
    by (elim h_bind_elim)
      (auto simp: h_return_def h_lift_def check_deadline_def dest!: nonce_keeps_state; blast)+
  then show ?thesis using ready_fields_extends[of cr tc inner evs _ p env "pb_offer_id begin'"] ext by metis
qed

lemma consume_extends:
  assumes ext: "extends cr tc inner evs (s, p)"
    and c: "try_consume_until cr env inner prepared proof deadline (s, k) = (res, (s', k'))"
  shows "extends cr tc inner evs (s', p)"
proof -
  have "s' = s \<or> (\<exists>now r. consume_section cr inner prepared proof now s = (r, s'))"
    using c by (auto simp: try_consume_until_def h_lock_def h_lift_def check_deadline_def inner_now_def
        split: prod.splits if_splits elim!: h_bind_elim)
  then consider "s' = s" | now permit where "consume_section cr inner prepared proof now s = (Ok permit, s')"
    | now e where "consume_section cr inner prepared proof now s = (Err e, s')"
    by (metis result.exhaust)
  then show ?thesis
    using ext extends_step[OF ext manager_step.consume] extends_step[OF ext manager_step.consume_err] by cases blast+
qed

lemma rollback_extends:
  assumes ext: "extends cr tc inner evs (s, p)" and c: "rollback env inner permit (s, k) = (res, (s', k'))"
  shows "extends cr tc inner evs (s', p)"
  using ext c extends_step[OF ext manager_step.rollback]
  by (auto simp: rollback_def h_lock_def h_lift_def split: prod.splits if_splits)

lemma commit_extends:
  assumes ext: "extends cr tc inner evs (s, p)" and c: "commit cr inner permit gen version (s, k) = (res, (s', k'))"
  shows "extends cr tc inner evs (s', p)"
proof -
  have "s' = s \<or> (\<exists>o' d g t. commit_token cr inner o' d g t gen version s = (res, s'))"
    using c by (auto simp: commit_def h_lock_def h_lift_def split: prod.splits if_splits)
  then show ?thesis
    using ext extends_step[OF ext manager_step.commit] extends_step[OF ext manager_step.commit_err]
    by (cases res) blast+
qed

lemma create_offer_until_state:
  "snd (create_offer_until cr tc env inner rq deadline rounds w) = snd (create_or_join cr tc env inner rq deadline w)"
  by (auto simp: create_offer_until_def split: prod.splits result.splits create_progress.splits)

lemma observers_extend:
  assumes ext: "extends cr tc inner evs (s, p)"
  shows "extends cr tc inner evs (fst (snd (offer_state env inner offer (s, k))), p)"
    and "extends cr tc inner evs (fst (snd (prune_expired env inner (s, k))), p)"
    and "extends cr tc inner evs (fst (snd (manager_snapshot env inner (s, k))), p)"
    and "extends cr tc inner evs (fst (snd (random_nonce_until env deadline (s, k))), p)"
  using ext extends_step[OF ext manager_step.offer_state] extends_step[OF ext manager_step.prune]
    extends_step[OF ext manager_step.snapshot] nonce_keeps_state[of env deadline s k]
  by (auto simp: offer_state_def prune_expired_def manager_snapshot_def h_bind_def h_lock_def inner_now_def
      split: prod.splits result.splits option.splits) (metis prod.collapse)

text \<open>A caller that joined a creation answers what the cell holds, or that its time is over.\<close>

lemma wait_until_answer:
  "wait_until deadline outcome rounds = Some r \<Longrightarrow>
   outcome = Some r \<or> (\<exists>now timed_out. (now, Some r, timed_out) \<in> set rounds) \<or> r = Err PErrDeadlineExceeded"
  by (induction deadline outcome rounds rule: wait_until.induct) (auto split: if_splits)

text \<open>C7: the handlers refine the section steps.  Whatever the operations of the manager answer
  (\<open>create_offer_until\<close> with its waiting, \<open>random_nonce_until\<close>, \<open>prepare_challenge_until\<close>,
  \<open>try_consume_until\<close>, \<open>rollback\<close>, \<open>commit\<close>, \<open>offer_state\<close>, \<open>prune_expired\<close> and \<open>snapshot\<close>), and on
  whichever path they return, the state they leave is the result of a sequence of the
  lock-protected steps, with no creation left half-done: in particular a failed creation always
  completes its cell and retires its operation.  A caller that joins the creation of another
  caller changes nothing while it waits, and answers the outcome that the cell held when it
  joined or at a wake-up, or that its deadline has passed.\<close>

theorem handlers_are_runs:
  assumes "manager_run cr tc inner evs (s, p)"
    "w' \<in> {snd (create_offer_until cr tc env inner rq deadline rounds (s, k)),
       snd (random_nonce_until env deadline (s, k)),
       snd (prepare_challenge_until cr env inner controller begin' deadline (s, k)),
       snd (try_consume_until cr env inner prepared proof deadline (s, k)),
       snd (rollback env inner permit (s, k)), snd (commit cr inner permit gen version (s, k)),
       snd (offer_state env inner offer (s, k)), snd (prune_expired env inner (s, k)),
       snd (manager_snapshot env inner (s, k))}"
  shows "(\<exists>evs'. manager_run cr tc inner (evs @ evs') (fst w', p)) \<and>
    (\<forall>a w1 r. create_or_join cr tc env inner rq deadline (s, k) = (Ok (Joined a), w1) \<and>
       fst (create_offer_until cr tc env inner rq deadline rounds (s, k)) = Some r \<longrightarrow>
       cell_outcome (ms_cells (fst w1) ! a) = Some r \<or> (\<exists>now timed_out. (now, Some r, timed_out) \<in> set rounds) \<or>
       r = Err PErrDeadlineExceeded)"
proof -
  note ext = extends_refl[OF assms(1)]
  have "extends cr tc inner evs (fst w', p)"
    using assms(2) create_extends[OF ext] prepare_extends[OF ext] consume_extends[OF ext] rollback_extends[OF ext]
      commit_extends[OF ext] observers_extend[OF ext] unfolding create_offer_until_state
    by (auto simp del: fst_conv snd_conv) (metis prod.collapse)+
  moreover have "cell_outcome (ms_cells (fst w1) ! a) = Some r \<or> (\<exists>now timed_out. (now, Some r, timed_out) \<in> set rounds) \<or>
      r = Err PErrDeadlineExceeded"
    if "create_or_join cr tc env inner rq deadline (s, k) = (Ok (Joined a), w1)"
      "fst (create_offer_until cr tc env inner rq deadline rounds (s, k)) = Some r" for a w1 r
    using that by (intro wait_until_answer) (simp add: create_offer_until_def)
  ultimately show ?thesis unfolding extends_def by blast
qed

subsection \<open>A concrete run\<close>

definition demo_inner :: pairing_inner where
  "demo_inner = \<lparr>pi_identity = 0, pi_host_device_id = replicate 32 1, max_live_offers = 16,
     pi_max_ticket_text_bytes = 16384, pi_max_relay_hints = 4, pi_max_relay_url_bytes = 2048, operation_wait = 15\<rparr>"

definition demo_request :: pair_offer_request where
  "demo_request = \<lparr>rq_operation_id = [1], rq_fingerprint = [2], rq_host_name = host_name (demo_ticket 100),
     rq_relay_hints = relay_hints (demo_ticket 100), rq_ttl_seconds = 60\<rparr>"

definition demo_now :: pairing_now where "demo_now = \<lparr>now_unix_seconds = 40, now_monotonic = 0\<rparr>"

definition demo_offer :: pair_offer_id where "demo_offer = replicate 16 2"

definition demo_record :: offer_record where
  "demo_record = new_record zero_crypto demo_request (demo_ticket 100) (replicate 32 7) 60"

definition demo_created :: pair_offer_created where
  "demo_created = \<lparr>oc_fields = demo_ticket 100,
     oc_ticket = encode_pair_ticket demo_text_codec (demo_ticket 100) (replicate 32 7)\<rparr>"

definition demo_state :: "live_offer_state \<Rightarrow> manager_state" where
  "demo_state st = \<lparr>ms_offers = [(demo_offer, demo_record\<lparr>or_state := st\<rparr>)], ms_operations = [([1], 0)],
     ms_retired_offers = [], ms_retired_offer_order = [], ms_retired_operations = [],
     ms_retired_operation_order = [],
     ms_cells = [\<lparr>cell_fingerprint = [2], cell_outcome = Some (Ok demo_created)\<rparr>]\<rparr>"

lemma demo_fields: "pair_ticket_fields_new PAIR_TICKET_FORMAT_VERSION (pi_host_device_id demo_inner)
    (rq_host_name demo_request) (rq_relay_hints demo_request) demo_offer 100 = Ok (demo_ticket 100)"
  using demo_ticket_built[of 100]
  by (simp add: built_ticket_def demo_inner_def demo_request_def demo_offer_def demo_ticket_def PAIR_TICKET_FORMAT_VERSION_def)

lemma demo_unexpired: "\<not> offer_expired (demo_ticket 100) 60 demo_now"
  by (simp add: offer_expired_def ticket_is_expired_def demo_ticket_def demo_now_def)

lemma demo_run_created:
  "manager_run zero_crypto demo_text_codec demo_inner [EvOther, EvInserted demo_offer, EvOther] (demo_state LiveReady, Map.empty)"
proof -
  let ?s1 = "manager_empty\<lparr>ms_operations := [([1], 0)], ms_cells := [cell_new [2]]\<rparr>"
  let ?s2 = "?s1\<lparr>ms_offers := [(demo_offer, demo_record)]\<rparr>"
  have c1: "claim_section demo_inner demo_request demo_now manager_empty = (Ok (ClaimNew 0), ?s1)"
    by (simp add: claim_section_def after_expiry_def expire_ready_locked_def manager_empty_def demo_inner_def demo_request_def)
  have c2: "insert_section demo_inner demo_offer (new_record zero_crypto demo_request (demo_ticket 100) (replicate 32 7) 60)
      demo_now ?s1 = (Ok True, ?s2)"
    by (simp add: insert_section_def after_expiry_def expire_ready_locked_def manager_empty_def demo_inner_def
        offer_id_taken_def demo_record_def)
  have c3: "complete_section 0 (Ok demo_created) ?s2 = demo_state LiveReady"
    by (simp add: complete_section_def cell_complete_def cell_new_def manager_empty_def demo_state_def demo_record_def
        new_record_def)
  note r1 = manager_run.run_step[OF manager_run.run_start manager_step.claim_new[OF c1]]
  have "manager_run zero_crypto demo_text_codec demo_inner ([] @ [EvOther] @ [EvInserted demo_offer])
      (?s2, [0 \<mapsto> (demo_request, Inserted demo_created)])"
    using manager_run.run_step[OF r1 manager_step.insert[where a = 0, OF _ demo_fields _ demo_unexpired c2]]
    by (simp add: demo_created_def PAIR_SECRET_BYTES_def)
  from manager_run.run_step[OF this manager_step.complete_ok[where a = 0]] show ?thesis by (simp add: c3)
qed

definition demo_prepared :: prepared_pair_challenge where
  "demo_prepared = \<lparr>pp_owner = 0, pp_offer_id = demo_offer, pp_controller_device_id = replicate 32 3,
     pp_controller_name = [99], pp_challenge = \<lparr>pc_host_nonce = replicate 32 6, pc_selected_version = 1, pc_ticket_expiry_unix = 100\<rparr>,
     pp_transcript = demo_transcript 0, pp_ticket_digest = replicate 32 0, pp_transcript_digest = replicate 32 0\<rparr>"

lemma demo_no_expiry: "expire_ready_locked demo_inner demo_now (demo_state LiveReady) = (Ok 0, demo_state LiveReady)"
  using demo_unexpired
  by (simp add: expire_ready_locked_def demo_state_def record_expired_def demo_record_def new_record_def)

lemma demo_run_committed:
  "\<exists>s. manager_run zero_crypto demo_text_codec demo_inner
    [EvOther, EvInserted demo_offer, EvOther, EvConsumed demo_offer, EvCommitted demo_offer] (s, Map.empty)"
proof -
  let ?st = "LiveConsuming (replicate 32 3) (replicate 32 0)"
  have "\<exists>permit. consume_section zero_crypto demo_inner demo_prepared (replicate 32 0) demo_now (demo_state LiveReady) =
      (Ok permit, demo_state ?st) \<and> pcon_offer_id permit = demo_offer"
    by (simp add: consume_section_def after_expiry_def demo_no_expiry)
      (simp add: demo_state_def demo_prepared_def ticket_digest_def zero_crypto_def verify_controller_proof_def
        demo_record_def new_record_def)
  then obtain permit where c1: "consume_section zero_crypto demo_inner demo_prepared (replicate 32 0) demo_now
      (demo_state LiveReady) = (Ok permit, demo_state ?st)" and p: "pcon_offer_id permit = demo_offer" by blast
  have "\<exists>c s. commit_token zero_crypto demo_inner demo_offer (replicate 32 3) (replicate 32 0) (demo_transcript 0) 7 [99]
      (demo_state ?st) = (Ok c, s)"
    by (simp add: commit_token_def demo_state_def zero_crypto_def demo_record_def new_record_def)
  then obtain c s where c2: "commit_token zero_crypto demo_inner demo_offer (replicate 32 3) (replicate 32 0)
      (demo_transcript 0) 7 [99] (demo_state ?st) = (Ok c, s)" by blast
  from manager_run.run_step[OF manager_run.run_step[OF demo_run_created manager_step.consume[OF c1]]
      manager_step.commit[OF c2]] p
  show ?thesis by auto
qed

theorem pairing_memory_bounded_witness:
  "length (ms_offers (demo_state LiveReady)) \<le> max_live_offers demo_inner \<and>
   bt_keys (ms_offers (demo_state LiveReady)) \<inter> bt_keys (ms_retired_offers (demo_state LiveReady)) = {}"
  using pairing_memory_bounded[OF demo_run_created] by blast

theorem offers_consumed_once_witness:
  "\<exists>s. count_list [EvOther, EvInserted demo_offer, EvOther, EvConsumed demo_offer, EvCommitted demo_offer] (EvCommitted demo_offer)
     + is_live s demo_offer \<le> 1 \<and> is_live s demo_offer = 0"
proof -
  obtain s where "manager_run zero_crypto demo_text_codec demo_inner
    [EvOther, EvInserted demo_offer, EvOther, EvConsumed demo_offer, EvCommitted demo_offer] (s, Map.empty)"
    using demo_run_committed by blast
  from offers_consumed_once[OF this, of demo_offer] show ?thesis by (intro exI[of _ s]) simp
qed

theorem live_offer_replays_ticket_witness:
  "\<exists>a s'. claim_section demo_inner demo_request demo_now (demo_state LiveReady) = (Ok (ClaimJoin a), s')"
proof -
  have "bt_get (ms_offers (demo_state LiveReady)) demo_offer = Some demo_record"
    by (simp add: demo_state_def demo_record_def new_record_def)
  moreover have "\<not> record_expired demo_now demo_record"
    using demo_unexpired by (simp add: record_expired_def demo_record_def new_record_def)
  moreover have "max_live_offers demo_inner \<le> U64_MAX" by (simp add: demo_inner_def)
  moreover have "rq_operation_id demo_request = or_operation_id demo_record"
    "rq_fingerprint demo_request = or_fingerprint demo_record"
    by (simp_all add: demo_record_def new_record_def)
  ultimately show ?thesis
    using live_offer_replays_ticket[OF demo_run_created, of demo_offer demo_record demo_now demo_request] by metis
qed

definition demo_env :: pairing_env where
  "demo_env = \<lparr>env_instant = (\<lambda>_. 0), env_instant_max = U64_MAX, env_clock = (\<lambda>_. Some demo_now),
     env_entropy = (\<lambda>_. Some (\<lambda>_. 6))\<rparr>"

theorem honest_handshake_completes_witness:
  "\<exists>prepared w1 permit w2 committed w3.
    prepare_challenge_until zero_crypto demo_env demo_inner (replicate 32 3) demo_begin 10 (demo_state LiveReady, 0) = (Ok prepared, w1) \<and>
    try_consume_until zero_crypto demo_env demo_inner prepared
      (controller_proof zero_crypto (pp_transcript prepared) (offer_key zero_crypto (demo_ticket 100) (replicate 32 7))) 10 w1
        = (Ok permit, w2) \<and>
    commit zero_crypto demo_inner permit 7 [99] w2 = (Ok committed, w3) \<and>
    bt_get (ms_retired_offers (fst w3)) demo_offer = Some PErrTicketConsumed"
proof -
  have live: "bt_get (ms_offers (demo_state LiveReady)) demo_offer = Some demo_record" "or_state demo_record = LiveReady"
    and tf: "or_fields demo_record = demo_ticket 100"
      "or_offer_key demo_record = offer_key zero_crypto (or_fields demo_record) (replicate 32 7)"
    by (simp_all add: demo_state_def demo_record_def new_record_def)
  have q: "quiet demo_env demo_record 10"
    using demo_unexpired by (simp add: quiet_def demo_env_def demo_record_def new_record_def)
  have b: "pair_begin_new demo_offer [99] (replicate 32 5) PAIR_PROTOCOL_VERSION = Ok demo_begin"
    using demo_begin_new by (simp add: demo_offer_def demo_ticket_def)
  have v: "device_display_name_new [99] = Ok [99]"
    by (simp add: device_display_name_new_def MAX_DEVICE_DISPLAY_NAME_BYTES_def is_control_def)
  have mac: "mac_verifies zero_crypto" "\<forall>k d. length (hmac_sha256 zero_crypto k d) = 32"
    by (simp_all add: mac_verifies_def zero_crypto_def)
  have size: "0 < max_live_offers demo_inner" "max_live_offers demo_inner \<le> U64_MAX" by (simp_all add: demo_inner_def)
  have gen: "0 < (7::nat)" "7 \<le> SQLITE_MAX" by (simp_all add: SQLITE_MAX_def)
  from honest_handshake_completes[OF demo_run_created mac size live tf(2) q b gen v, of "replicate 32 3" 0]
  show ?thesis unfolding tf(1) by blast
qed

theorem handlers_are_runs_witness:
  "\<exists>evs'. manager_run zero_crypto demo_text_codec demo_inner ([EvOther, EvInserted demo_offer, EvOther] @ evs')
    (fst (snd (create_offer_until zero_crypto demo_text_codec demo_env demo_inner demo_request 10 [] (demo_state LiveReady, 0))),
     Map.empty)"
  by (rule handlers_are_runs[OF demo_run_created, where rq = demo_request and deadline = 10 and k = 0 and rounds = "[]",
        THEN conjunct1]) blast

end
