(* ===== verification/Terminal_Surface.thy ===== *)
theory Terminal_Surface
  imports Domain
begin

section \<open>Semantic terminal surfaces\<close>

text \<open>
  \<open>core/src/terminal.rs\<close> and \<open>core/src/terminal/colors.rs\<close>: the cells, rows and
  surfaces that hosts send to controllers, their validation, and deltas, which replace
  whole rows of a surface the controller retains.

  The main results characterise a valid row as a sequence of narrow cells and complete
  wide glyphs, and say exactly when a delta applies and what it yields: the final
  validation of \<open>candidate\<close> never fails.
\<close>

subsection \<open>Limits and data\<close>

definition MAX_TITLE_BYTES :: nat where "MAX_TITLE_BYTES = 256"
definition MAX_HISTORY_WINDOW_ROWS :: nat where "MAX_HISTORY_WINDOW_ROWS = 240"
definition MAX_CELL_TEXT_BYTES :: nat where "MAX_CELL_TEXT_BYTES = 22"
definition MAX_TERMINAL_CLIPBOARD_BYTES :: nat where "MAX_TERMINAL_CLIPBOARD_BYTES = 512 * 1024"

datatype terminal_color = ColorDefault | ColorIndexed byte | ColorRgb byte byte byte

datatype terminal_underline =
  UnderlineNone | UnderlineSingle | UnderlineDouble | UnderlineCurly | UnderlineDotted | UnderlineDashed

record terminal_style =
  foreground :: terminal_color
  background :: terminal_color
  bold :: bool
  dim :: bool
  italic :: bool
  underline :: terminal_underline
  underline_color :: terminal_color
  inverse :: bool
  strike :: bool
  conceal :: bool

definition default_style :: terminal_style where
  "default_style = \<lparr>foreground = ColorDefault, background = ColorDefault, bold = False, dim = False,
     italic = False, underline = UnderlineNone, underline_color = ColorDefault, inverse = False,
     strike = False, conceal = False\<rparr>"

record terminal_hyperlink =
  link_id :: rust_str
  link_uri :: rust_str

record terminal_cell =
  tc_hyperlink :: "terminal_hyperlink option"
  tc_contents :: rust_str
  tc_wide :: bool
  tc_wide_continuation :: bool
  tc_style :: terminal_style

record terminal_size =
  sz_rows :: nat
  sz_columns :: nat

datatype active_screen = MainScreen | AlternateScreen

datatype cursor_shape = CursorBlock | CursorBeam | CursorUnderline

record cursor_presentation =
  cp_shape :: cursor_shape
  cp_blinking :: bool

record terminal_cursor =
  cu_presentation :: cursor_presentation
  cu_row :: nat
  cu_column :: nat
  cu_visible :: bool
  cu_style :: terminal_style

datatype mouse_mode = MouseNone | MousePress | MousePressRelease | MouseButtonMotion | MouseAnyMotion

datatype mouse_encoding = MouseEncodingDefault | MouseEncodingUtf8 | MouseEncodingSgr

definition KEYBOARD_ALL :: byte where "KEYBOARD_ALL = 31"

unbundle bit_operations_syntax

definition keyboard_from_bits :: "byte \<Rightarrow> byte option" where
  "keyboard_from_bits bits = (if bits AND NOT KEYBOARD_ALL = 0 then Some bits else None)"

definition keyboard_contains :: "byte \<Rightarrow> byte \<Rightarrow> bool" where
  "keyboard_contains flags other \<longleftrightarrow> flags AND other = other"

definition keyboard_union :: "byte \<Rightarrow> byte \<Rightarrow> byte" where
  "keyboard_union flags other = flags OR other"

record terminal_modes =
  application_keypad :: bool
  application_cursor :: bool
  bracketed_paste :: bool
  focus_reporting :: bool
  alternate_scroll :: bool
  tm_mouse_mode :: mouse_mode
  tm_mouse_encoding :: mouse_encoding
  keyboard_flags :: byte

subsection \<open>Colours\<close>

definition TERMINAL_COLOR_SLOTS :: nat where "TERMINAL_COLOR_SLOTS = 262"
definition COLOR_FOREGROUND :: nat where "COLOR_FOREGROUND = 256"
definition COLOR_BACKGROUND :: nat where "COLOR_BACKGROUND = 257"
definition COLOR_CURSOR :: nat where "COLOR_CURSOR = 258"

datatype color_value = ColorUnknown | ColorKnown byte byte byte | ColorDynamic

datatype terminal_appearance = AppearanceUnknown | AppearanceDark | AppearanceLight

record color_profile =
  cpr_values :: "color_value list"
  cpr_appearance :: terminal_appearance

definition default_color_profile :: color_profile where
  "default_color_profile = \<lparr>cpr_values = replicate TERMINAL_COLOR_SLOTS ColorUnknown, cpr_appearance = AppearanceUnknown\<rparr>"

definition profile_is_valid :: "color_profile \<Rightarrow> bool" where
  "profile_is_valid p \<longleftrightarrow> ColorDynamic \<notin> set (take COLOR_CURSOR (cpr_values p))"

record color_snapshot =
  cs_profile :: color_profile
  cs_changed_at :: revision
  cs_reverse :: bool
  cs_custom_cursor :: bool
  cs_inherited_sources :: "nat list"

definition default_color_snapshot :: color_snapshot where
  "default_color_snapshot = \<lparr>cs_profile = default_color_profile, cs_changed_at = 0, cs_reverse = False,
     cs_custom_cursor = False, cs_inherited_sources = [0..<TERMINAL_COLOR_SLOTS]\<rparr>"

definition colors_valid_at :: "color_snapshot \<Rightarrow> revision \<Rightarrow> bool" where
  "colors_valid_at c rv \<longleftrightarrow> profile_is_valid (cs_profile c) \<and> cs_changed_at c \<le> rv \<and>
     list_all (\<lambda>source. source < TERMINAL_COLOR_SLOTS) (cs_inherited_sources c)"

subsection \<open>Surfaces and deltas\<close>

record surface_row =
  sr_cells :: "terminal_cell list"
  sr_wrapped :: bool

record scroll_metrics =
  sm_epoch :: revision
  sm_revision :: revision
  sm_offset_from_bottom :: nat
  sm_max_offset_from_bottom :: nat
  sm_viewport_rows :: nat

definition metrics_is_valid :: "scroll_metrics \<Rightarrow> bool" where
  "metrics_is_valid m \<longleftrightarrow> sm_viewport_rows m > 0 \<and> sm_epoch m \<le> sm_revision m \<and>
     sm_offset_from_bottom m \<le> sm_max_offset_from_bottom m"

record terminal_surface =
  su_application_title :: rust_str
  su_colors :: color_snapshot
  su_size :: terminal_size
  su_active_screen :: active_screen
  su_rows :: "surface_row list"
  su_cursor :: terminal_cursor
  su_modes :: terminal_modes
  su_scroll_metrics :: "scroll_metrics option"

record surface_snapshot =
  ss_revision :: revision
  ss_surface :: terminal_surface

record row_patch =
  rp_row :: nat
  rp_replacement :: surface_row

record surface_delta =
  sd_application_title :: rust_str
  sd_colors :: color_snapshot
  sd_from_revision :: revision
  sd_to_revision :: revision
  sd_size :: terminal_size
  sd_active_screen :: active_screen
  sd_row_patches :: "row_patch list"
  sd_cursor :: terminal_cursor
  sd_modes :: terminal_modes
  sd_scroll_metrics :: "scroll_metrics option"

datatype surface_error =
    SurfaceInvalidSize
  | SurfaceInvalidRowCount
  | SurfaceInvalidColumnCount
  | SurfaceInvalidCellText
  | SurfaceInvalidApplicationTitle
  | SurfaceInvalidWidePair
  | SurfaceInvalidCursor
  | SurfaceInvalidScrollMetrics
  | SurfaceInvalidRevision
  | SurfaceInvalidRowPatch
  | SurfaceIncompatibleBaseline
  | SurfaceInvalidHistoryWindow

definition validate_surface_size :: "terminal_size \<Rightarrow> (unit, surface_error) result" where
  "validate_surface_size sz =
    (if sz_rows sz = 0 \<or> sz_columns sz = 0 \<or> sz_rows sz > max_viewport_rows default_limits \<or>
        sz_columns sz > max_viewport_columns default_limits
     then Err SurfaceInvalidSize else Ok ())"

definition cell_text_ok :: "terminal_cell \<Rightarrow> bool" where
  "cell_text_ok c \<longleftrightarrow> \<not> (str_len (tc_contents c) > MAX_CELL_TEXT_BYTES \<or> list_ex is_control (tc_contents c))"

text \<open>One round of the loop over the columns; \<open>get(column + 1)\<close> and \<open>get(column - 1)\<close> are
  look-ups that may miss.\<close>

definition cell_at :: "terminal_cell list \<Rightarrow> nat \<Rightarrow> terminal_cell option" where
  "cell_at cells i = (if i < length cells then Some (cells ! i) else None)"

definition validate_cell :: "terminal_cell list \<Rightarrow> nat \<times> terminal_cell \<Rightarrow> (unit, surface_error) result" where
  "validate_cell cells entry = (case entry of (column, c) \<Rightarrow>
    if \<not> cell_text_ok c then Err SurfaceInvalidCellText
    else if tc_wide c \<and> tc_wide_continuation c then Err SurfaceInvalidWidePair
    else if tc_wide c then
      (if tc_contents c = [] \<or> (case cell_at cells (column + 1) of None \<Rightarrow> True
           | Some n \<Rightarrow> \<not> tc_wide_continuation n \<or> tc_wide n)
       then Err SurfaceInvalidWidePair else Ok ())
    else if tc_wide_continuation c \<and> (tc_contents c \<noteq> [] \<or> column = 0 \<or>
        (case cell_at cells (column - 1) of None \<Rightarrow> True
           | Some p \<Rightarrow> \<not> tc_wide p \<or> tc_wide_continuation p))
    then Err SurfaceInvalidWidePair
    else Ok ())"

definition validate_surface_row :: "surface_row \<Rightarrow> nat \<Rightarrow> (unit, surface_error) result" where
  "validate_surface_row row columns =
    (if length (sr_cells row) \<noteq> columns then Err SurfaceInvalidColumnCount
     else try_each (validate_cell (sr_cells row)) (enumerate 0 (sr_cells row)))"

definition validate_surface_metrics :: "active_screen \<Rightarrow> terminal_size \<Rightarrow> revision \<Rightarrow> scroll_metrics option \<Rightarrow>
    (unit, surface_error) result" where
  "validate_surface_metrics screen sz rv metrics =
    (case (screen, metrics) of
       (MainScreen, Some m) \<Rightarrow>
         if metrics_is_valid m \<and> sm_revision m = rv \<and> sm_offset_from_bottom m = 0 \<and> sm_viewport_rows m = sz_rows sz
         then Ok () else Err SurfaceInvalidScrollMetrics
     | (AlternateScreen, None) \<Rightarrow> Ok ()
     | _ \<Rightarrow> Err SurfaceInvalidScrollMetrics)"

definition title_invalid :: "rust_str \<Rightarrow> bool" where
  "title_invalid title \<longleftrightarrow> str_len title > MAX_TITLE_BYTES \<or> list_ex is_control title"

definition surface_validate :: "terminal_surface \<Rightarrow> revision \<Rightarrow> (unit, surface_error) result" where
  "surface_validate s rv =
    (if \<not> colors_valid_at (su_colors s) rv then Err SurfaceInvalidRevision
     else if title_invalid (su_application_title s) then Err SurfaceInvalidApplicationTitle
     else res_bind (validate_surface_size (su_size s)) (\<lambda>_.
       if length (su_rows s) \<noteq> sz_rows (su_size s) then Err SurfaceInvalidRowCount
       else res_bind (try_each (\<lambda>row. validate_surface_row row (sz_columns (su_size s))) (su_rows s)) (\<lambda>_.
         if cu_row (su_cursor s) \<ge> sz_rows (su_size s) \<or> cu_column (su_cursor s) \<ge> sz_columns (su_size s)
         then Err SurfaceInvalidCursor
         else validate_surface_metrics (su_active_screen s) (su_size s) rv (su_scroll_metrics s))))"

definition snapshot_validate :: "surface_snapshot \<Rightarrow> (unit, surface_error) result" where
  "snapshot_validate sn = surface_validate (ss_surface sn) (ss_revision sn)"

primrec validate_patches :: "terminal_size \<Rightarrow> nat option \<Rightarrow> row_patch list \<Rightarrow> (unit, surface_error) result" where
  "validate_patches sz previous [] = Ok ()"
| "validate_patches sz previous (patch # patches) =
    (if rp_row patch \<ge> sz_rows sz \<or> (case previous of None \<Rightarrow> False | Some row \<Rightarrow> row \<ge> rp_row patch)
     then Err SurfaceInvalidRowPatch
     else res_bind (validate_surface_row (rp_replacement patch) (sz_columns sz)) (\<lambda>_.
       validate_patches sz (Some (rp_row patch)) patches))"

definition delta_validate :: "surface_delta \<Rightarrow> (unit, surface_error) result" where
  "delta_validate d =
    (if sd_from_revision d \<ge> sd_to_revision d then Err SurfaceInvalidRevision
     else if \<not> colors_valid_at (sd_colors d) (sd_to_revision d) then Err SurfaceInvalidRevision
     else if title_invalid (sd_application_title d) then Err SurfaceInvalidApplicationTitle
     else res_bind (validate_surface_size (sd_size d)) (\<lambda>_.
       if cu_row (sd_cursor d) \<ge> sz_rows (sd_size d) \<or> cu_column (sd_cursor d) \<ge> sz_columns (sd_size d)
       then Err SurfaceInvalidCursor
       else res_bind (validate_surface_metrics (sd_active_screen d) (sd_size d) (sd_to_revision d) (sd_scroll_metrics d)) (\<lambda>_.
         validate_patches (sd_size d) None (sd_row_patches d))))"

text \<open>\<open>candidate.rows[row] = replacement\<close> for the patches in order.\<close>

primrec apply_patches :: "row_patch list \<Rightarrow> surface_row list \<Rightarrow> surface_row list" where
  "apply_patches [] rows = rows"
| "apply_patches (patch # patches) rows = apply_patches patches (rows[rp_row patch := rp_replacement patch])"

definition baseline_compatible :: "surface_delta \<Rightarrow> revision \<Rightarrow> terminal_surface \<Rightarrow> bool" where
  "baseline_compatible d rv base \<longleftrightarrow> \<not> (rv \<noteq> sd_from_revision d \<or> su_size base \<noteq> sd_size d \<or>
     cs_changed_at (su_colors base) > cs_changed_at (sd_colors d) \<or>
     (cs_changed_at (su_colors base) = cs_changed_at (sd_colors d) \<and> su_colors base \<noteq> sd_colors d) \<or>
     su_active_screen base \<noteq> sd_active_screen d)"

definition patched :: "surface_delta \<Rightarrow> terminal_surface \<Rightarrow> terminal_surface" where
  "patched d base = base\<lparr>su_rows := apply_patches (sd_row_patches d) (su_rows base),
     su_application_title := sd_application_title d, su_colors := sd_colors d,
     su_cursor := sd_cursor d, su_modes := sd_modes d, su_scroll_metrics := sd_scroll_metrics d\<rparr>"

definition candidate :: "surface_delta \<Rightarrow> revision \<Rightarrow> terminal_surface \<Rightarrow> (terminal_surface, surface_error) result" where
  "candidate d rv base =
    res_bind (delta_validate d) (\<lambda>_.
    if \<not> baseline_compatible d rv base then Err SurfaceIncompatibleBaseline
    else res_bind (surface_validate base rv) (\<lambda>_.
      res_bind (surface_validate (patched d base) (sd_to_revision d)) (\<lambda>_. Ok (patched d base))))"

definition apply_to :: "surface_delta \<Rightarrow> revision \<Rightarrow> terminal_surface \<Rightarrow> terminal_surface \<times> (unit, surface_error) result" where
  "apply_to d rv base = (case candidate d rv base of Ok s \<Rightarrow> (s, Ok ()) | Err e \<Rightarrow> (base, Err e))"

subsection \<open>Valid rows are sequences of complete glyphs\<close>

fun paired :: "terminal_cell list \<Rightarrow> bool" where
  "paired [] \<longleftrightarrow> True"
| "paired [c] \<longleftrightarrow> \<not> tc_wide c \<and> \<not> tc_wide_continuation c"
| "paired (c # d # cs) \<longleftrightarrow>
    (if tc_wide c then \<not> tc_wide_continuation c \<and> tc_contents c \<noteq> [] \<and>
       tc_wide_continuation d \<and> \<not> tc_wide d \<and> tc_contents d = [] \<and> paired cs
     else \<not> tc_wide_continuation c \<and> paired (d # cs))"

definition head_open :: "terminal_cell list \<Rightarrow> bool" where
  "head_open pre \<longleftrightarrow> pre \<noteq> [] \<and> tc_wide (last pre) \<and> \<not> tc_wide_continuation (last pre)"

lemma cell_at_simps [simp]:
  "cell_at (pre @ c # cs) (length pre) = Some c"
  "cell_at (pre @ c # cs) (Suc (length pre)) = (case cs of [] \<Rightarrow> None | d # ds \<Rightarrow> Some d)"
  "cell_at (c # cs) (Suc 0) = (case cs of [] \<Rightarrow> None | d # ds \<Rightarrow> Some d)"
  "pre \<noteq> [] \<Longrightarrow> cell_at (pre @ cs) (length pre - Suc 0) = Some (last pre)"
  by (auto simp: cell_at_def nth_append last_conv_nth not_less_eq_eq trans_less_add1 split: list.split)

text \<open>The cell at the front, whose left neighbour does not open a wide glyph.\<close>

lemma validate_front:
  "\<not> head_open pre \<Longrightarrow> validate_cell (pre @ c # cs) (length pre, c) = Ok () \<longleftrightarrow>
    cell_text_ok c \<and> \<not> tc_wide_continuation c \<and>
    (tc_wide c \<longrightarrow> tc_contents c \<noteq> [] \<and> (\<exists>d ds. cs = d # ds \<and> tc_wide_continuation d \<and> \<not> tc_wide d))"
  by (cases "pre = []"; cases cs) (auto simp: validate_cell_def head_open_def)

lemma validate_second:
  "head_open pre \<Longrightarrow> validate_cell (pre @ d # cs) (length pre, d) = Ok () \<Longrightarrow> tc_wide_continuation d \<Longrightarrow>
    \<not> tc_wide d \<Longrightarrow> cell_text_ok d \<and> tc_contents d = []"
  by (auto simp: validate_cell_def head_open_def split: if_splits)

lemma validate_second_iff:
  "head_open pre \<Longrightarrow> tc_wide_continuation d \<Longrightarrow> \<not> tc_wide d \<Longrightarrow>
    validate_cell (pre @ d # cs) (length pre, d) = Ok () \<longleftrightarrow> cell_text_ok d \<and> tc_contents d = []"
  by (auto simp: validate_cell_def head_open_def split: if_splits)

lemma validate_cells_from:
  "\<not> head_open pre \<Longrightarrow>
    (\<forall>e \<in> set (enumerate (length pre) cs). validate_cell (pre @ cs) e = Ok ()) \<longleftrightarrow>
    list_all cell_text_ok cs \<and> paired cs"
proof (induction cs arbitrary: pre rule: paired.induct)
  case 1
  then show ?case by simp
next
  case (2 c)
  then show ?case using validate_front[of pre c "[]"] by auto
next
  case (3 c d cs)
  show ?case
  proof (cases "tc_wide c")
    case True
    show ?thesis
    proof (cases "tc_wide_continuation c \<or> tc_contents c = [] \<or> \<not> tc_wide_continuation d \<or> tc_wide d")
      case bad: True
      then show ?thesis using validate_front[OF 3(3), of c "d # cs"] True by auto
    next
      case False
      have open1: "head_open (pre @ [c])" and closed: "\<not> head_open (pre @ [c, d])"
        using True False by (auto simp: head_open_def)
      have "(\<forall>e \<in> set (enumerate (length (pre @ [c, d])) cs). validate_cell ((pre @ [c, d]) @ cs) e = Ok ()) \<longleftrightarrow>
          list_all cell_text_ok cs \<and> paired cs"
        using 3(1)[OF True closed] .
      moreover have "validate_cell (pre @ c # d # cs) (length pre, c) = Ok () \<longleftrightarrow> cell_text_ok c"
        using validate_front[OF 3(3), of c "d # cs"] False by auto
      moreover have "validate_cell ((pre @ [c]) @ d # cs) (length (pre @ [c]), d) = Ok () \<longleftrightarrow>
          cell_text_ok d \<and> tc_contents d = []"
        using validate_second_iff[OF open1, of d cs] False by blast
      ultimately show ?thesis using True False by auto
    qed
  next
    case False
    show ?thesis
    proof (cases "tc_wide_continuation c")
      case True
      then show ?thesis using validate_front[OF 3(3), of c "d # cs"] False by auto
    next
      case cont: False
      have "\<not> head_open (pre @ [c])" using False by (simp add: head_open_def)
      from 3(2)[OF False this] have
        "(\<forall>e \<in> set (enumerate (length (pre @ [c])) (d # cs)). validate_cell ((pre @ [c]) @ d # cs) e = Ok ()) \<longleftrightarrow>
          list_all cell_text_ok (d # cs) \<and> paired (d # cs)" .
      then show ?thesis using validate_front[OF 3(3), of c "d # cs"] False cont by auto
    qed
  qed
qed

lemma validate_row_iff:
  "validate_surface_row row columns = Ok () \<longleftrightarrow>
    length (sr_cells row) = columns \<and> list_all cell_text_ok (sr_cells row) \<and> paired (sr_cells row)"
  using validate_cells_from[of "[]" "sr_cells row"]
  by (auto simp: validate_surface_row_def try_each_Ok_iff head_open_def)

datatype glyph = Narrow terminal_cell | Wide terminal_cell terminal_cell

primrec glyph_cells :: "glyph \<Rightarrow> terminal_cell list" where
  "glyph_cells (Narrow c) = [c]"
| "glyph_cells (Wide c d) = [c, d]"

primrec glyph_ok :: "glyph \<Rightarrow> bool" where
  "glyph_ok (Narrow c) \<longleftrightarrow> \<not> tc_wide c \<and> \<not> tc_wide_continuation c"
| "glyph_ok (Wide c d) \<longleftrightarrow> tc_wide c \<and> \<not> tc_wide_continuation c \<and> tc_contents c \<noteq> [] \<and>
     tc_wide_continuation d \<and> \<not> tc_wide d \<and> tc_contents d = []"

lemma paired_glyphs: "paired cells \<Longrightarrow> \<exists>gs. list_all glyph_ok gs \<and> cells = concat (map glyph_cells gs)"
proof (induction cells rule: paired.induct)
  case 1
  then show ?case by (intro exI[of _ "[]"]) simp
next
  case (2 c)
  then show ?case by (intro exI[of _ "[Narrow c]"]) simp
next
  case (3 c d cs)
  show ?case
  proof (cases "tc_wide c")
    case True
    with 3 obtain gs where "list_all glyph_ok gs" "cs = concat (map glyph_cells gs)" by auto
    with True 3(3) show ?thesis by (intro exI[of _ "Wide c d # gs"]) simp
  next
    case False
    with 3(3) have "\<not> tc_wide_continuation c" "paired (d # cs)" by simp_all
    with 3(2)[OF False] obtain gs where "list_all glyph_ok gs" "d # cs = concat (map glyph_cells gs)" by blast
    with False \<open>\<not> tc_wide_continuation c\<close> show ?thesis by (intro exI[of _ "Narrow c # gs"]) simp
  qed
qed

lemma glyphs_paired: "list_all glyph_ok gs \<Longrightarrow> paired (concat (map glyph_cells gs))"
proof (induction gs)
  case (Cons g gs)
  define cells where "cells = concat (map glyph_cells gs)"
  have "paired cells" using Cons by (simp add: cells_def)
  then have "paired (glyph_cells g @ cells)" using Cons.prems by (cases g; cases cells) auto
  then show ?case by (simp add: cells_def)
qed simp

text \<open>C39: a row is accepted exactly when it is a sequence of complete glyphs.  A row is
  valid for a width if and only if it has that many cells, every text is bounded and free
  of controls, and it is a concatenation of narrow cells and of wide glyphs, each a
  non-empty head followed by its empty continuation.\<close>

theorem valid_row_is_glyph_sequence:
  "validate_surface_row row columns = Ok () \<longleftrightarrow>
    length (sr_cells row) = columns \<and> list_all cell_text_ok (sr_cells row) \<and>
    (\<exists>gs. list_all glyph_ok gs \<and> sr_cells row = concat (map glyph_cells gs))"
  using paired_glyphs glyphs_paired by (auto simp: validate_row_iff)

subsection \<open>Deltas\<close>

lemma validate_patches_Ok:
  "validate_patches sz previous patches = Ok () \<longleftrightarrow>
    (\<forall>p \<in> set patches. rp_row p < sz_rows sz \<and> validate_surface_row (rp_replacement p) (sz_columns sz) = Ok ()) \<and>
    sorted_wrt (<) (map rp_row patches) \<and>
    (\<forall>row. previous = Some row \<longrightarrow> (\<forall>p \<in> set patches. row < rp_row p))"
proof (induction patches arbitrary: previous)
  case (Cons p patches)
  show ?case
    using Cons[of "Some (rp_row p)"]
    by (cases previous) (auto simp: not_le dest: less_trans)
qed simp

lemma length_apply_patches [simp]: "length (apply_patches patches rows) = length rows"
  by (induction patches arbitrary: rows) auto

definition patch_map :: "row_patch list \<Rightarrow> nat \<Rightarrow> surface_row option" where
  "patch_map patches = map_of (map (\<lambda>p. (rp_row p, rp_replacement p)) patches)"

lemma patch_map_None: "i \<notin> rp_row ` set patches \<Longrightarrow> patch_map patches i = None"
  by (auto simp: patch_map_def map_of_eq_None_iff)

lemma nth_apply_patches:
  "sorted_wrt (<) (map rp_row patches) \<Longrightarrow> i < length rows \<Longrightarrow>
    apply_patches patches rows ! i = (case patch_map patches i of Some r \<Rightarrow> r | None \<Rightarrow> rows ! i)"
proof (induction patches arbitrary: rows)
  case (Cons p patches)
  have "rp_row p \<notin> rp_row ` set patches" using Cons.prems(1) by auto
  then have "patch_map patches (rp_row p) = None" by (rule patch_map_None)
  with Cons show ?case by (auto simp: patch_map_def split: option.split)
qed (simp add: patch_map_def)

lemma apply_patches_map:
  "sorted_wrt (<) (map rp_row patches) \<Longrightarrow>
    apply_patches patches rows =
      map (\<lambda>i. case patch_map patches i of Some r \<Rightarrow> r | None \<Rightarrow> rows ! i) [0..<length rows]"
  by (rule nth_equalityI) (auto simp: nth_apply_patches split: option.split)

lemma patch_map_SomeD: "patch_map patches i = Some r \<Longrightarrow> \<exists>p \<in> set patches. rp_row p = i \<and> rp_replacement p = r"
  by (auto simp: patch_map_def dest!: map_of_SomeD)

lemma surface_validate_Ok:
  "surface_validate s rv = Ok () \<longleftrightarrow> colors_valid_at (su_colors s) rv \<and> \<not> title_invalid (su_application_title s) \<and>
    validate_surface_size (su_size s) = Ok () \<and> length (su_rows s) = sz_rows (su_size s) \<and>
    (\<forall>row \<in> set (su_rows s). validate_surface_row row (sz_columns (su_size s)) = Ok ()) \<and>
    cu_row (su_cursor s) < sz_rows (su_size s) \<and> cu_column (su_cursor s) < sz_columns (su_size s) \<and>
    validate_surface_metrics (su_active_screen s) (su_size s) rv (su_scroll_metrics s) = Ok ()"
  by (auto simp: surface_validate_def try_each_Ok_iff)

lemma delta_validate_Ok:
  "delta_validate d = Ok () \<longleftrightarrow> sd_from_revision d < sd_to_revision d \<and> colors_valid_at (sd_colors d) (sd_to_revision d) \<and>
    \<not> title_invalid (sd_application_title d) \<and> validate_surface_size (sd_size d) = Ok () \<and>
    cu_row (sd_cursor d) < sz_rows (sd_size d) \<and> cu_column (sd_cursor d) < sz_columns (sd_size d) \<and>
    validate_surface_metrics (sd_active_screen d) (sd_size d) (sd_to_revision d) (sd_scroll_metrics d) = Ok () \<and>
    validate_patches (sd_size d) None (sd_row_patches d) = Ok ()"
  by (auto simp: delta_validate_def)

text \<open>The last validation of \<open>candidate\<close> is a consequence of the earlier ones.\<close>

lemma patched_valid:
  assumes d: "delta_validate d = Ok ()" and c: "baseline_compatible d rv base" and b: "surface_validate base rv = Ok ()"
  shows "surface_validate (patched d base) (sd_to_revision d) = Ok ()"
proof -
  note dv = d[unfolded delta_validate_Ok] and bv = b[unfolded surface_validate_Ok]
  have same: "su_size base = sd_size d" "su_active_screen base = sd_active_screen d"
    using c by (simp_all add: baseline_compatible_def)
  have patches: "\<forall>p \<in> set (sd_row_patches d). validate_surface_row (rp_replacement p) (sz_columns (sd_size d)) = Ok ()"
    "sorted_wrt (<) (map rp_row (sd_row_patches d))"
    using dv by (simp_all add: validate_patches_Ok)
  have "validate_surface_row row (sz_columns (sd_size d)) = Ok ()"
    if "row \<in> set (apply_patches (sd_row_patches d) (su_rows base))" for row
  proof -
    from that obtain i where i: "i < length (su_rows base)"
      "row = (case patch_map (sd_row_patches d) i of Some r \<Rightarrow> r | None \<Rightarrow> su_rows base ! i)"
      by (auto simp: apply_patches_map[OF patches(2)])
    then show ?thesis
      using bv same(1) patches(1) by (auto split: option.splits dest!: patch_map_SomeD)
  qed
  then show ?thesis using dv bv same by (simp add: surface_validate_Ok patched_def)
qed

text \<open>C38: a delta applies exactly and transactionally.  Applying a delta succeeds if and only
  if the delta is valid, it starts at the retained revision with the same size, screen and
  compatible colours, and the retained surface is valid.  The result has the delta's title,
  colours, cursor, modes and metrics, every patched row is the replacement, every other row
  is untouched, and it is valid at the new revision; on any error the retained surface is
  unchanged.\<close>

theorem delta_applies_exactly:
  "apply_to d rv base =
    (if delta_validate d = Ok () \<and> baseline_compatible d rv base \<and> surface_validate base rv = Ok ()
     then (base\<lparr>su_rows := map (\<lambda>i. case patch_map (sd_row_patches d) i of Some r \<Rightarrow> r | None \<Rightarrow> su_rows base ! i)
                  [0..<sz_rows (sd_size d)],
              su_application_title := sd_application_title d, su_colors := sd_colors d,
              su_cursor := sd_cursor d, su_modes := sd_modes d, su_scroll_metrics := sd_scroll_metrics d\<rparr>, Ok ())
     else (base, snd (apply_to d rv base))) \<and>
   (snd (apply_to d rv base) = Ok () \<longleftrightarrow>
     delta_validate d = Ok () \<and> baseline_compatible d rv base \<and> surface_validate base rv = Ok () \<and>
     surface_validate (fst (apply_to d rv base)) (sd_to_revision d) = Ok ())"
proof (cases "delta_validate d = Ok () \<and> baseline_compatible d rv base \<and> surface_validate base rv = Ok ()")
  case True
  then have valid: "surface_validate (patched d base) (sd_to_revision d) = Ok ()" using patched_valid by blast
  have len: "length (su_rows base) = sz_rows (sd_size d)" and sorted: "sorted_wrt (<) (map rp_row (sd_row_patches d))"
    using True by (auto simp: surface_validate_Ok baseline_compatible_def delta_validate_Ok validate_patches_Ok)
  have "apply_to d rv base = (patched d base, Ok ())"
    using True valid by (simp add: apply_to_def candidate_def)
  with True valid show ?thesis by (simp add: patched_def apply_patches_map[OF sorted] len)
next
  case False
  have "\<exists>e. candidate d rv base = Err e"
    using False by (cases "delta_validate d"; cases "surface_validate base rv") (auto simp: candidate_def)
  then show ?thesis using False by (auto simp: apply_to_def)
qed

end
