(* ===== verification/History_Window.thy ===== *)
theory History_Window
  imports Terminal_Surface
begin

section \<open>History windows\<close>

text \<open>
  The stateless history requests of \<open>core/src/terminal.rs\<close>: anchors name the coordinate
  space of a main-screen history, a query asks for a viewport with margins in the
  coordinates of the last anchor the client knows, and \<open>response_shape\<close> computes the
  only valid answer for the host's current anchor.  Offsets count rows from the live
  bottom, row coordinates count from the live-screen top, older rows being negative.

  The signed 64-bit computations are integers with the checks of the source written out.
\<close>

datatype viewport_disposition = ViewportExact | ViewportRebased

record history_anchor =
  ha_epoch :: revision
  ha_revision :: revision
  ha_max_offset :: nat
  ha_viewport :: terminal_size

definition anchor_is_valid :: "history_anchor \<Rightarrow> bool" where
  "anchor_is_valid a \<longleftrightarrow> sz_rows (ha_viewport a) > 0 \<and> sz_columns (ha_viewport a) > 0 \<and> ha_epoch a \<le> ha_revision a"

record history_query =
  hq_anchor :: history_anchor
  hq_target_offset :: nat
  hq_older_margin :: nat
  hq_newer_margin :: nat

definition query_is_valid :: "history_query \<Rightarrow> bool" where
  "query_is_valid q \<longleftrightarrow> anchor_is_valid (hq_anchor q) \<and>
     hq_target_offset q \<le> ha_max_offset (hq_anchor q) \<and>
     (case checked_add U32_MAX (hq_older_margin q) (hq_newer_margin q) of None \<Rightarrow> False
      | Some margins \<Rightarrow> margins \<le> saturating_mul U32_MAX (sz_rows (ha_viewport (hq_anchor q))) 2)"

record window_response_shape =
  rs_disposition :: viewport_disposition
  rs_target_offset :: nat
  rs_first_row :: int
  rs_row_count :: nat

definition same_identity :: "history_anchor \<Rightarrow> history_anchor \<Rightarrow> bool" where
  "same_identity a b \<longleftrightarrow> ha_epoch a = ha_epoch b \<and> ha_viewport a = ha_viewport b \<and> ha_max_offset a \<le> ha_max_offset b"

definition shape_rows :: "history_query \<Rightarrow> history_anchor \<Rightarrow> viewport_disposition \<Rightarrow> nat \<Rightarrow> window_response_shape option" where
  "shape_rows q a disposition target_offset =
    Option.bind (i64_try_from (ha_max_offset a)) (\<lambda>history.
    Option.bind (i64_try_from target_offset) (\<lambda>target.
    Option.bind (i64_checked (- target)) (\<lambda>visible_start.
    Option.bind (i64_checked (visible_start + int (sz_rows (ha_viewport a)))) (\<lambda>visible_end.
    Option.bind (i64_checked (visible_start - int (hq_older_margin q))) (\<lambda>older.
    Option.bind (i64_checked (- history)) (\<lambda>oldest.
    Option.bind (i64_checked (visible_end + int (hq_newer_margin q))) (\<lambda>newer.
    let first_row = max older oldest; end_row = min newer (int (sz_rows (ha_viewport a))) in
    Option.bind (i64_checked (end_row - first_row)) (\<lambda>span.
    Option.bind (u64_try_from span) (\<lambda>row_count.
    if row_count < sz_rows (ha_viewport a) \<or> row_count > MAX_HISTORY_WINDOW_ROWS then None
    else Some \<lparr>rs_disposition = disposition, rs_target_offset = target_offset,
               rs_first_row = first_row, rs_row_count = row_count\<rparr>)))))))))"

definition response_shape :: "history_query \<Rightarrow> history_anchor \<Rightarrow> window_response_shape option" where
  "response_shape q a =
    (if \<not> query_is_valid q \<or> \<not> anchor_is_valid a \<or> ha_revision a < ha_revision (hq_anchor q) then None
     else if same_identity (hq_anchor q) a then
       Option.bind (checked_add U64_MAX (hq_target_offset q) (ha_max_offset a - ha_max_offset (hq_anchor q))) (\<lambda>shifted.
         shape_rows q a ViewportExact (min shifted (ha_max_offset a)))
     else shape_rows q a ViewportRebased (min (hq_target_offset q) (ha_max_offset a)))"

record history_frame =
  hf_colors :: color_snapshot
  hf_disposition :: viewport_disposition
  hf_anchor :: history_anchor
  hf_target_offset :: nat
  hf_first_row :: int
  hf_rows :: "surface_row list"

definition frame_validate_for :: "history_frame \<Rightarrow> history_query \<Rightarrow> (unit, surface_error) result" where
  "frame_validate_for f q =
    (if \<not> colors_valid_at (hf_colors f) (ha_revision (hf_anchor f)) then Err SurfaceInvalidRevision
     else res_bind (validate_surface_size (ha_viewport (hf_anchor f))) (\<lambda>_.
       case response_shape q (hf_anchor f) of
         None \<Rightarrow> Err SurfaceInvalidHistoryWindow
       | Some shape \<Rightarrow>
           if hf_disposition f \<noteq> rs_disposition shape \<or> hf_target_offset f \<noteq> rs_target_offset shape \<or>
              hf_first_row f \<noteq> rs_first_row shape \<or> length (hf_rows f) \<noteq> rs_row_count shape \<or>
              length (hf_rows f) > MAX_HISTORY_WINDOW_ROWS
           then Err SurfaceInvalidHistoryWindow
           else try_each (\<lambda>row. validate_surface_row row (sz_columns (ha_viewport (hf_anchor f)))) (hf_rows f)))"

datatype history_window_result =
    WindowFrame history_frame
  | WindowHistoryChanged revision revision
  | WindowHistoryGap revision revision

subsection \<open>What a shape promises\<close>

lemma shape_rows_Some:
  assumes "shape_rows q a disposition target = Some sh" "target \<le> ha_max_offset a"
  shows "rs_disposition sh = disposition \<and> rs_target_offset sh = target \<and>
    rs_first_row sh = max (- int target - int (hq_older_margin q)) (- int (ha_max_offset a)) \<and>
    rs_first_row sh + int (rs_row_count sh) =
      min (- int target + int (sz_rows (ha_viewport a)) + int (hq_newer_margin q)) (int (sz_rows (ha_viewport a))) \<and>
    sz_rows (ha_viewport a) \<le> rs_row_count sh \<and> rs_row_count sh \<le> MAX_HISTORY_WINDOW_ROWS"
  using assms by (auto simp: shape_rows_def Let_def bind_eq_Some_conv arith_defs split: if_splits)

lemma query_margins: "query_is_valid q \<Longrightarrow> hq_older_margin q + hq_newer_margin q \<le> 2 * sz_rows (ha_viewport (hq_anchor q))"
  by (auto simp: query_is_valid_def checked_add_def saturating_mul_def split: if_splits)

lemma response_shape_exact:
  assumes "response_shape q a = Some sh"
  shows "rs_target_offset sh \<le> ha_max_offset a \<and>
    - int (ha_max_offset a) \<le> rs_first_row sh \<and>
    rs_first_row sh + int (rs_row_count sh) \<le> int (sz_rows (ha_viewport a)) \<and>
    rs_first_row sh \<le> - int (rs_target_offset sh) \<and>
    int (sz_rows (ha_viewport a)) - int (rs_target_offset sh) \<le> rs_first_row sh + int (rs_row_count sh) \<and>
    (rs_first_row sh = - int (rs_target_offset sh) - int (hq_older_margin q) \<or> rs_first_row sh = - int (ha_max_offset a)) \<and>
    rs_row_count sh \<le> MAX_HISTORY_WINDOW_ROWS \<and>
    (if same_identity (hq_anchor q) a
     then rs_disposition sh = ViewportExact \<and>
       int (ha_max_offset a) - int (rs_target_offset sh) = int (ha_max_offset (hq_anchor q)) - int (hq_target_offset q)
     else rs_disposition sh = ViewportRebased \<and> rs_target_offset sh = min (hq_target_offset q) (ha_max_offset a))"
proof -
  let ?t = "if same_identity (hq_anchor q) a then hq_target_offset q + (ha_max_offset a - ha_max_offset (hq_anchor q))
    else min (hq_target_offset q) (ha_max_offset a)"
  have target: "hq_target_offset q \<le> ha_max_offset (hq_anchor q)"
    using assms by (auto simp: response_shape_def query_is_valid_def split: if_splits)
  then have le: "?t \<le> ha_max_offset a" by (auto simp: same_identity_def)
  have "shape_rows q a (if same_identity (hq_anchor q) a then ViewportExact else ViewportRebased) ?t = Some sh"
    using assms le by (auto simp: response_shape_def bind_eq_Some_conv min_absorb1 split: if_splits)
  from shape_rows_Some[OF this le] target show ?thesis by (auto simp: same_identity_def of_nat_diff)
qed

lemma response_shape_total:
  assumes "query_is_valid q" "anchor_is_valid a" "ha_revision (hq_anchor q) \<le> ha_revision a"
    and "validate_surface_size (ha_viewport (hq_anchor q)) = Ok ()" "validate_surface_size (ha_viewport a) = Ok ()"
    and "ha_max_offset a < 2 ^ 31"
  shows "response_shape q a \<noteq> None"
proof -
  have rows: "sz_rows (ha_viewport a) \<le> 80" "sz_rows (ha_viewport (hq_anchor q)) \<le> 80"
    using assms(4,5) by (auto simp: validate_surface_size_def split: if_splits)
  have margins: "hq_older_margin q + hq_newer_margin q \<le> 160"
    using query_margins[OF assms(1)] rows(2) by linarith
  have target: "hq_target_offset q \<le> ha_max_offset (hq_anchor q)"
    using assms(1) by (auto simp: query_is_valid_def)
  have "shape_rows q a disposition t \<noteq> None" if "t \<le> ha_max_offset a" for disposition t
    using that rows(1) margins assms(6)
    by (auto simp: shape_rows_def Let_def arith_defs MAX_HISTORY_WINDOW_ROWS_def)
  then show ?thesis
    using assms(1-3,6) target
    by (auto simp: response_shape_def same_identity_def checked_add_def)
qed

definition demo_anchor :: "revision \<Rightarrow> nat \<Rightarrow> history_anchor" where
  "demo_anchor rv maximum = \<lparr>ha_epoch = 1, ha_revision = rv, ha_max_offset = maximum,
     ha_viewport = \<lparr>sz_rows = 80, sz_columns = 100\<rparr>\<rparr>"

definition demo_query :: history_query where
  "demo_query = \<lparr>hq_anchor = demo_anchor 3 500, hq_target_offset = 200, hq_older_margin = 80, hq_newer_margin = 80\<rparr>"

definition demo_shape :: window_response_shape where
  "demo_shape = \<lparr>rs_disposition = ViewportExact, rs_target_offset = 300, rs_first_row = - 380, rs_row_count = 240\<rparr>"

lemma demo_response: "response_shape demo_query (demo_anchor 4 600) = Some demo_shape"
  by (simp add: response_shape_def query_is_valid_def anchor_is_valid_def demo_query_def demo_anchor_def
      same_identity_def shape_rows_def Let_def arith_defs demo_shape_def MAX_HISTORY_WINDOW_ROWS_def)

text \<open>C37: every well-formed history request has exactly one valid answer, and it shows the rows
  that were asked for.  For viewports within the product bound and a history whose length fits
  a 32-bit line number, a valid query has an answer at any valid later anchor (three viewports
  of 80 rows fill the 240 rows of a window exactly).  Its rows lie within the retained history
  and the live screen and contain the complete target viewport, with the older margin unless
  history ends before.  While the row identity is kept, the target moves by exactly the growth
  of the history, so it denotes the same row counted from the oldest.\<close>

theorem history_response_exact:
  assumes "query_is_valid q" "anchor_is_valid a" "ha_revision (hq_anchor q) \<le> ha_revision a"
    and "validate_surface_size (ha_viewport (hq_anchor q)) = Ok ()" "validate_surface_size (ha_viewport a) = Ok ()"
    and "ha_max_offset a < 2 ^ 31"
  shows "\<exists>sh. response_shape q a = Some sh \<and> rs_target_offset sh \<le> ha_max_offset a \<and>
    - int (ha_max_offset a) \<le> rs_first_row sh \<and>
    rs_first_row sh + int (rs_row_count sh) \<le> int (sz_rows (ha_viewport a)) \<and>
    rs_first_row sh \<le> - int (rs_target_offset sh) \<and>
    int (sz_rows (ha_viewport a)) - int (rs_target_offset sh) \<le> rs_first_row sh + int (rs_row_count sh) \<and>
    (rs_first_row sh = - int (rs_target_offset sh) - int (hq_older_margin q) \<or> rs_first_row sh = - int (ha_max_offset a)) \<and>
    rs_row_count sh \<le> MAX_HISTORY_WINDOW_ROWS \<and>
    (if same_identity (hq_anchor q) a
     then rs_disposition sh = ViewportExact \<and>
       int (ha_max_offset a) - int (rs_target_offset sh) = int (ha_max_offset (hq_anchor q)) - int (hq_target_offset q)
     else rs_disposition sh = ViewportRebased \<and> rs_target_offset sh = min (hq_target_offset q) (ha_max_offset a))"
proof -
  from response_shape_total[OF assms] obtain sh where "response_shape q a = Some sh" by blast
  with response_shape_exact[OF this] show ?thesis by blast
qed

theorem history_response_exact_witness:
  "rs_first_row demo_shape \<le> - int (rs_target_offset demo_shape) \<and>
   int (ha_max_offset (demo_anchor 4 600)) - int (rs_target_offset demo_shape) =
     int (ha_max_offset (hq_anchor demo_query)) - int (hq_target_offset demo_query)"
proof -
  have "\<exists>sh. response_shape demo_query (demo_anchor 4 600) = Some sh \<and>
      rs_first_row sh \<le> - int (rs_target_offset sh) \<and>
      int (ha_max_offset (demo_anchor 4 600)) - int (rs_target_offset sh) =
        int (ha_max_offset (hq_anchor demo_query)) - int (hq_target_offset demo_query)"
    using history_response_exact[of demo_query "demo_anchor 4 600"]
    by (auto simp: query_is_valid_def anchor_is_valid_def demo_query_def demo_anchor_def arith_defs
        validate_surface_size_def same_identity_def)
  then show ?thesis by (simp add: demo_response)
qed

end
