(* ===== verification/Viewport_Pages.thy ===== *)
theory Viewport_Pages
  imports History_Window "HOL-Library.Multiset" "HOL-Library.Sublist"
begin

section \<open>Cached windows and accounted pages\<close>

text \<open>
  The row windows of \<open>core/src/viewport_cache.rs\<close> and the page store of
  \<open>core/src/viewport_cache/pages.rs\<close>.

  A page shares its window with the selections that pin it: \<open>Arc::strong_count\<close> is one more
  than the number \<open>pg_pins\<close> of owners outside the store, so \<open>pin\<close> counts one up and
  \<open>drop_pin\<close> stands for dropping such an owner.  The sizes the source takes from
  \<open>size_of\<close> are a record of parameters, the capacity of the deque is part of the state,
  and the capacity of a window's row vector is an argument of \<open>pages_insert\<close>.  The deque
  gets exactly the capacity that \<open>shrink_to_fit\<close> and \<open>reserve_exact\<close> ask for.

  The results say that the accounted usage never exceeds the budget, that pinned pages
  never leave the store, and that an insertion fails only when the window alone or the
  pinned pages make it impossible.
\<close>

subsection \<open>Windows\<close>

record viewport_slice_identity =
  si_epoch :: revision
  si_revision :: revision
  si_first_row :: int
  si_viewport :: terminal_size

record 'r cached_window =
  cw_disposition :: viewport_disposition
  cw_anchor :: history_anchor
  cw_target_offset :: nat
  cw_first_row :: int
  cw_rows :: "'r list"

abbreviation cw_height :: "'r cached_window \<Rightarrow> nat" where
  "cw_height w \<equiv> sz_rows (ha_viewport (cw_anchor w))"

definition window_visible_range :: "'r cached_window \<Rightarrow> nat \<Rightarrow> (nat \<times> nat) option" where
  "window_visible_range w target_offset =
    (if target_offset > ha_max_offset (cw_anchor w) then None
     else Option.bind (i64_try_from target_offset) (\<lambda>target.
       Option.bind (i64_checked (- target)) (\<lambda>visible_start.
       Option.bind (i64_checked (visible_start - cw_first_row w)) (\<lambda>relative.
       Option.bind (u64_try_from relative) (\<lambda>start.
       Option.bind (checked_add U64_MAX start (cw_height w)) (\<lambda>end_row.
       if end_row \<le> length (cw_rows w) then Some (start, end_row) else None))))))"

definition end_row_exclusive :: "'r cached_window \<Rightarrow> int option" where
  "end_row_exclusive w =
    Option.bind (i64_try_from (length (cw_rows w))) (\<lambda>n. i64_checked (cw_first_row w + n))"

text \<open>\<open>rows.get(start..end)\<close>.\<close>

definition slice_get :: "'a list \<Rightarrow> nat \<times> nat \<Rightarrow> 'a list option" where
  "slice_get rows bounds = (case bounds of (start, end_row) \<Rightarrow>
     if start \<le> end_row \<and> end_row \<le> length rows then Some (take (end_row - start) (drop start rows)) else None)"

definition window_visible_rows :: "'r cached_window \<Rightarrow> nat \<Rightarrow> 'r list option" where
  "window_visible_rows w target = Option.bind (window_visible_range w target) (slice_get (cw_rows w))"

definition visible_rows_with_overscan :: "'r cached_window \<Rightarrow> nat \<Rightarrow> nat \<Rightarrow> 'r list option" where
  "visible_rows_with_overscan w offset extra =
    Option.bind (window_visible_range w offset) (\<lambda>(start, end_row).
      slice_get (cw_rows w) (start, min (saturating_add U64_MAX end_row extra) (length (cw_rows w))))"

definition first_ordinal :: "'r cached_window \<Rightarrow> int option" where
  "first_ordinal w = Option.bind (i64_try_from (ha_max_offset (cw_anchor w))) (\<lambda>history. i64_checked (history + cw_first_row w))"

definition window_is_valid :: "'r cached_window \<Rightarrow> bool" where
  "window_is_valid w \<longleftrightarrow>
    \<not> (\<not> anchor_is_valid (cw_anchor w) \<or> cw_target_offset w > ha_max_offset (cw_anchor w) \<or>
       length (cw_rows w) < cw_height w \<or> length (cw_rows w) > MAX_HISTORY_WINDOW_ROWS) \<and>
    (case end_row_exclusive w of None \<Rightarrow> False | Some end_row \<Rightarrow>
       case i64_try_from (ha_max_offset (cw_anchor w)) of None \<Rightarrow> False | Some history \<Rightarrow>
         cw_first_row w \<ge> - history \<and> end_row \<le> int (cw_height w) \<and>
         window_visible_range w (cw_target_offset w) \<noteq> None)"

definition window_is_valid_for :: "'r cached_window \<Rightarrow> history_query \<Rightarrow> bool" where
  "window_is_valid_for w q \<longleftrightarrow> window_is_valid w \<and>
    (case response_shape q (cw_anchor w) of None \<Rightarrow> False | Some shape \<Rightarrow>
       cw_disposition w = rs_disposition shape \<and> cw_target_offset w = rs_target_offset shape \<and>
       cw_first_row w = rs_first_row shape \<and> length (cw_rows w) = rs_row_count shape)"

definition target_in_window_coordinates :: "history_anchor \<Rightarrow> history_anchor \<Rightarrow> nat \<Rightarrow> nat option" where
  "target_in_window_coordinates latest window target =
    (if ha_epoch latest \<noteq> ha_epoch window \<or> ha_viewport latest \<noteq> ha_viewport window \<or>
        ha_max_offset latest < ha_max_offset window then None
     else checked_sub target (ha_max_offset latest - ha_max_offset window))"

definition slice_identity :: "'r cached_window \<Rightarrow> nat \<Rightarrow> viewport_slice_identity option" where
  "slice_identity w target_offset =
    Option.bind (i64_try_from target_offset) (\<lambda>target.
    Option.bind (i64_checked (- target)) (\<lambda>first_row.
    Some \<lparr>si_epoch = ha_epoch (cw_anchor w), si_revision = ha_revision (cw_anchor w),
          si_first_row = first_row, si_viewport = ha_viewport (cw_anchor w)\<rparr>))"

definition reusable_target :: "history_anchor \<Rightarrow> 'r cached_window \<Rightarrow> nat \<Rightarrow> nat option" where
  "reusable_target latest w target =
    Option.bind (target_in_window_coordinates latest (cw_anchor w) target) (\<lambda>offset.
    Option.bind (window_visible_rows w offset) (\<lambda>_.
    if ha_revision latest \<noteq> ha_revision (cw_anchor w) \<and> offset < cw_height w then None else Some offset))"

subsection \<open>Pages\<close>

record cache_budget =
  cb_rows :: nat
  cb_bytes :: nat

record page_layout =
  pl_pages :: nat
  pl_page :: nat
  pl_window :: nat
  pl_row :: nat
  pl_usize :: nat

record 'r page =
  pg_window :: "'r cached_window"
  pg_bytes :: nat
  pg_pins :: nat

record 'r pages =
  ps_budget :: cache_budget
  ps_capacity :: nat
  ps_entries :: "'r page list"

definition pages_new :: "cache_budget \<Rightarrow> 'r pages" where
  "pages_new budget = \<lparr>ps_budget = budget, ps_capacity = 0, ps_entries = []\<rparr>"

definition usage_add :: "cache_budget \<Rightarrow> 'r page \<Rightarrow> cache_budget" where
  "usage_add sofar p = \<lparr>cb_rows = saturating_add U64_MAX (cb_rows sofar) (length (cw_rows (pg_window p))),
     cb_bytes = saturating_add U64_MAX (cb_bytes sofar) (pg_bytes p)\<rparr>"

definition pages_usage :: "page_layout \<Rightarrow> 'r pages \<Rightarrow> cache_budget" where
  "pages_usage L ps = foldl usage_add \<lparr>cb_rows = 0, cb_bytes = pl_pages L + ps_capacity ps * pl_page L\<rparr> (ps_entries ps)"

definition page_reusable :: "history_anchor \<Rightarrow> nat \<Rightarrow> 'r page \<Rightarrow> bool" where
  "page_reusable latest target p \<longleftrightarrow> reusable_target latest (pg_window p) target \<noteq> None"

text \<open>The newest reusable page: \<open>iter().rev()\<close> and \<open>rposition\<close> look from the back.\<close>

primrec last_reusable :: "history_anchor \<Rightarrow> nat \<Rightarrow> 'r page list \<Rightarrow> nat option" where
  "last_reusable latest target [] = None"
| "last_reusable latest target (p # ps) =
    (case last_reusable latest target ps of Some i \<Rightarrow> Some (Suc i)
     | None \<Rightarrow> if page_reusable latest target p then Some 0 else None)"

definition pages_find :: "'r pages \<Rightarrow> history_anchor \<Rightarrow> nat \<Rightarrow> ('r cached_window \<times> nat) option" where
  "pages_find ps latest target =
    Option.bind (last_reusable latest target (ps_entries ps)) (\<lambda>i.
    Option.bind (reusable_target latest (pg_window (ps_entries ps ! i)) target) (\<lambda>offset.
    Some (pg_window (ps_entries ps ! i), offset)))"

definition remove_at :: "nat \<Rightarrow> 'a list \<Rightarrow> 'a list" where
  "remove_at i xs = take i xs @ drop (Suc i) xs"

definition pages_touch :: "history_anchor \<Rightarrow> nat \<Rightarrow> 'r pages \<Rightarrow> 'r pages" where
  "pages_touch latest target ps =
    (case last_reusable latest target (ps_entries ps) of None \<Rightarrow> ps
     | Some i \<Rightarrow> ps\<lparr>ps_entries := remove_at i (ps_entries ps) @ [ps_entries ps ! i]\<rparr>)"

text \<open>\<open>pin\<close> hands out another owner of the newest reusable page.\<close>

definition add_pin :: "'r page \<Rightarrow> 'r page" where "add_pin p = p\<lparr>pg_pins := pg_pins p + 1\<rparr>"

definition pages_pin :: "history_anchor \<Rightarrow> nat \<Rightarrow> 'r pages \<Rightarrow> 'r pages \<times> 'r cached_window option" where
  "pages_pin latest target ps =
    (case last_reusable latest target (ps_entries ps) of None \<Rightarrow> (ps, None)
     | Some i \<Rightarrow> (ps\<lparr>ps_entries := (ps_entries ps)[i := add_pin (ps_entries ps ! i)]\<rparr>,
                  Some (pg_window (ps_entries ps ! i))))"

text \<open>The drop of an owner that was handed out for the page at position \<open>i\<close>.\<close>

definition drop_pin :: "nat \<Rightarrow> 'r pages \<Rightarrow> 'r pages" where
  "drop_pin i ps = (if i < length (ps_entries ps)
     then ps\<lparr>ps_entries := (ps_entries ps)[i := (ps_entries ps ! i)\<lparr>pg_pins := pg_pins (ps_entries ps ! i) - 1\<rparr>]\<rparr>
     else ps)"

definition shrink_to_fit :: "'r pages \<Rightarrow> 'r pages" where
  "shrink_to_fit ps = ps\<lparr>ps_capacity := length (ps_entries ps)\<rparr>"

definition discard_unpinned :: "'r pages \<Rightarrow> 'r pages" where
  "discard_unpinned ps = shrink_to_fit (ps\<lparr>ps_entries := filter (\<lambda>p. pg_pins p + 1 > 1) (ps_entries ps)\<rparr>)"

primrec first_unpinned :: "'r page list \<Rightarrow> nat option" where
  "first_unpinned [] = None"
| "first_unpinned (p # ps) = (if pg_pins p + 1 = 1 then Some 0 else map_option Suc (first_unpinned ps))"

definition room_for :: "page_layout \<Rightarrow> nat \<Rightarrow> nat \<Rightarrow> 'r pages \<Rightarrow> bool" where
  "room_for L rows bytes ps \<longleftrightarrow>
    (let used = pages_usage L ps;
         extra_metadata = (if length (ps_entries ps) = ps_capacity ps then pl_page L else 0)
     in saturating_add U64_MAX (cb_rows used) rows \<le> cb_rows (ps_budget ps) \<and>
        saturating_add U64_MAX (saturating_add U64_MAX (cb_bytes used) bytes) extra_metadata \<le> cb_bytes (ps_budget ps))"

lemma first_unpinned_Some:
  "first_unpinned ps = Some i \<Longrightarrow> i < length ps \<and> pg_pins (ps ! i) = 0"
  by (induction ps arbitrary: i) (auto split: if_splits)

lemma length_remove_at [simp]: "i < length xs \<Longrightarrow> length (remove_at i xs) = length xs - 1"
  by (simp add: remove_at_def)

text \<open>The eviction loop of \<open>insert\<close>; the flag is \<open>False\<close> when it returns without room.\<close>

function make_room :: "page_layout \<Rightarrow> nat \<Rightarrow> nat \<Rightarrow> 'r pages \<Rightarrow> 'r pages \<times> bool" where
  "make_room L rows bytes ps =
    (if room_for L rows bytes ps then (ps, True)
     else case first_unpinned (ps_entries ps) of None \<Rightarrow> (ps, False)
       | Some i \<Rightarrow> make_room L rows bytes (shrink_to_fit (ps\<lparr>ps_entries := remove_at i (ps_entries ps)\<rparr>)))"
  by pat_completeness auto

termination
  by (relation "measure (\<lambda>(L, rows, bytes, ps). length (ps_entries ps))")
    (auto simp: shrink_to_fit_def dest: first_unpinned_Some)

declare make_room.simps [simp del]

definition reserve_exact :: "nat \<Rightarrow> 'r pages \<Rightarrow> 'r pages" where
  "reserve_exact additional ps = ps\<lparr>ps_capacity := max (ps_capacity ps) (length (ps_entries ps) + additional)\<rparr>"

definition page_bytes :: "page_layout \<Rightarrow> nat \<Rightarrow> nat \<Rightarrow> nat" where
  "page_bytes L rows_capacity nested_bytes =
    saturating_add U64_MAX (saturating_add U64_MAX (saturating_add U64_MAX (pl_window L) (2 * pl_usize L))
      (saturating_mul U64_MAX rows_capacity (pl_row L))) nested_bytes"

definition pages_insert :: "page_layout \<Rightarrow> nat \<Rightarrow> 'r cached_window \<Rightarrow> nat \<Rightarrow> 'r pages \<Rightarrow> 'r pages \<times> bool" where
  "pages_insert L rows_capacity window nested_bytes ps =
    (let bytes = page_bytes L rows_capacity nested_bytes in
     if length (cw_rows window) > cb_rows (ps_budget ps) \<or>
        saturating_add U64_MAX bytes (pl_page L) > cb_bytes (ps_budget ps) then (ps, False)
     else case make_room L (length (cw_rows window)) bytes ps of
       (ps', False) \<Rightarrow> (ps', False)
     | (ps', True) \<Rightarrow>
         (let ps'' = reserve_exact 1 ps' in
          (ps''\<lparr>ps_entries := ps_entries ps'' @ [\<lparr>pg_window = window, pg_bytes = bytes, pg_pins = 0\<rparr>]\<rparr>, True)))"

subsection \<open>Accounting\<close>

text \<open>Saturation never hides anything: the usage is the saturated sum over the pages.\<close>

definition rows_sum :: "'r page list \<Rightarrow> nat" where "rows_sum ps = (\<Sum>p\<leftarrow>ps. length (cw_rows (pg_window p)))"
definition bytes_sum :: "'r page list \<Rightarrow> nat" where "bytes_sum ps = (\<Sum>p\<leftarrow>ps. pg_bytes p)"

lemma sums_Nil [simp]: "rows_sum [] = 0" "bytes_sum [] = 0"
  by (simp_all add: rows_sum_def bytes_sum_def)

lemma sums_Cons [simp]:
  "rows_sum (p # ps) = length (cw_rows (pg_window p)) + rows_sum ps" "bytes_sum (p # ps) = pg_bytes p + bytes_sum ps"
  by (simp_all add: rows_sum_def bytes_sum_def)

lemma sums_append [simp]:
  "rows_sum (ps @ qs) = rows_sum ps + rows_sum qs" "bytes_sum (ps @ qs) = bytes_sum ps + bytes_sum qs"
  by (simp_all add: rows_sum_def bytes_sum_def)

lemma foldl_usage_add:
  "ps \<noteq> [] \<Longrightarrow> foldl usage_add t ps =
     \<lparr>cb_rows = min U64_MAX (cb_rows t + rows_sum ps), cb_bytes = min U64_MAX (cb_bytes t + bytes_sum ps)\<rparr>"
proof (induction ps arbitrary: t)
  case (Cons p ps)
  then show ?case by (cases "ps = []") (auto simp: usage_add_def saturating_add_def min_def)
qed simp

lemma pages_usage_eq:
  "pages_usage L ps = (if ps_entries ps = [] then \<lparr>cb_rows = 0, cb_bytes = pl_pages L + ps_capacity ps * pl_page L\<rparr>
    else \<lparr>cb_rows = min U64_MAX (rows_sum (ps_entries ps)),
          cb_bytes = min U64_MAX (pl_pages L + ps_capacity ps * pl_page L + bytes_sum (ps_entries ps))\<rparr>)"
  by (simp add: pages_usage_def foldl_usage_add)

definition within_budget :: "page_layout \<Rightarrow> 'r pages \<Rightarrow> bool" where
  "within_budget L ps \<longleftrightarrow> cb_rows (pages_usage L ps) \<le> cb_rows (ps_budget ps) \<and>
     cb_bytes (pages_usage L ps) \<le> cb_bytes (ps_budget ps)"

definition pages_ok :: "page_layout \<Rightarrow> 'r pages \<Rightarrow> bool" where
  "pages_ok L ps \<longleftrightarrow> ps_capacity ps = length (ps_entries ps) \<and> (ps_entries ps = [] \<or> within_budget L ps)"

lemma pages_ok_new [simp]: "pages_ok L (pages_new budget)"
  by (simp add: pages_ok_def pages_new_def)

lemma pages_ok_anti_mono:
  assumes "pages_ok L ps" "ps_budget qs = ps_budget ps" "ps_capacity qs = length (ps_entries qs)"
    "length (ps_entries qs) \<le> length (ps_entries ps)"
    "rows_sum (ps_entries qs) \<le> rows_sum (ps_entries ps)" "bytes_sum (ps_entries qs) \<le> bytes_sum (ps_entries ps)"
  shows "pages_ok L qs"
proof (cases "ps_entries qs = []")
  case False
  then have "ps_entries ps \<noteq> []" using assms(4) by auto
  moreover have "length (ps_entries qs) * pl_page L \<le> length (ps_entries ps) * pl_page L"
    using assms(4) by simp
  then have "pl_pages L + length (ps_entries qs) * pl_page L + bytes_sum (ps_entries qs) \<le>
      pl_pages L + length (ps_entries ps) * pl_page L + bytes_sum (ps_entries ps)"
    using assms(6) by linarith
  ultimately show ?thesis
    using assms(1-3,5) False by (auto simp: pages_ok_def within_budget_def pages_usage_eq min_le_iff_disj)
qed (use assms in \<open>simp add: pages_ok_def\<close>)

lemma sums_remove_at:
  assumes "i < length ps"
  shows "rows_sum ps = rows_sum (remove_at i ps) + length (cw_rows (pg_window (ps ! i)))"
    and "bytes_sum ps = bytes_sum (remove_at i ps) + pg_bytes (ps ! i)"
proof -
  have split: "ps = take i ps @ ps ! i # drop (Suc i) ps" using assms by (rule id_take_nth_drop)
  show "rows_sum ps = rows_sum (remove_at i ps) + length (cw_rows (pg_window (ps ! i)))"
    by (subst split) (simp add: remove_at_def)
  show "bytes_sum ps = bytes_sum (remove_at i ps) + pg_bytes (ps ! i)"
    by (subst split) (simp add: remove_at_def)
qed

lemma sums_filter: "rows_sum (filter P ps) \<le> rows_sum ps" "bytes_sum (filter P ps) \<le> bytes_sum ps"
  by (induction ps) auto

lemma last_reusable_Some:
  "last_reusable latest target ps = Some i \<Longrightarrow> i < length ps \<and> page_reusable latest target (ps ! i)"
  by (induction ps arbitrary: i) (auto split: option.splits if_splits)

lemma last_reusable_None:
  "last_reusable latest target ps = None \<longleftrightarrow> (\<forall>p\<in>set ps. \<not> page_reusable latest target p)"
  by (induction ps) (auto split: option.splits)

lemma mset_remove_at: "i < length xs \<Longrightarrow> add_mset (xs ! i) (mset (remove_at i xs)) = mset xs"
  by (subst (3) id_take_nth_drop[of i xs]) (auto simp: remove_at_def)

lemma pages_ok_touch: "pages_ok L ps \<Longrightarrow> pages_ok L (pages_touch latest target ps)"
  by (auto simp: pages_touch_def sums_remove_at split: option.splits dest!: last_reusable_Some
      intro!: pages_ok_anti_mono[where ps = ps]) (auto simp: pages_ok_def)

lemma sums_update:
  "i < length ps \<Longrightarrow> length (cw_rows (pg_window q)) = length (cw_rows (pg_window (ps ! i))) \<Longrightarrow> rows_sum (ps[i := q]) = rows_sum ps"
  "i < length ps \<Longrightarrow> pg_bytes q = pg_bytes (ps ! i) \<Longrightarrow> bytes_sum (ps[i := q]) = bytes_sum ps"
  by (induction ps arbitrary: i) (auto split: nat.splits simp: nth_Cons')

lemma pages_ok_pin: "pages_ok L ps \<Longrightarrow> pages_ok L (fst (pages_pin latest target ps))"
  by (auto simp: pages_pin_def sums_update add_pin_def split: option.splits dest!: last_reusable_Some
      intro!: pages_ok_anti_mono[where ps = ps]) (auto simp: pages_ok_def)

lemma pages_ok_drop_pin: "pages_ok L ps \<Longrightarrow> pages_ok L (drop_pin i ps)"
  by (auto simp: drop_pin_def sums_update intro!: pages_ok_anti_mono[where ps = ps]) (auto simp: pages_ok_def)

lemma pages_ok_discard: "pages_ok L ps \<Longrightarrow> pages_ok L (discard_unpinned ps)"
  by (auto simp: discard_unpinned_def shrink_to_fit_def sums_filter intro!: pages_ok_anti_mono[where ps = ps])

subsection \<open>Eviction\<close>

text \<open>What remains after the \<open>k\<close> oldest unpinned pages are gone.\<close>

primrec evicted :: "nat \<Rightarrow> 'r page list \<Rightarrow> 'r page list" where
  "evicted 0 ps = ps"
| "evicted (Suc k) ps = (case first_unpinned ps of None \<Rightarrow> ps | Some i \<Rightarrow> evicted k (remove_at i ps))"

definition pinned_pages :: "'r page list \<Rightarrow> 'r page list" where
  "pinned_pages ps = filter (\<lambda>p. pg_pins p > 0) ps"

lemma pinned_pages_simps [simp]:
  "pinned_pages [] = []"
  "pinned_pages (p # ps) = (if pg_pins p > 0 then p # pinned_pages ps else pinned_pages ps)"
  "pinned_pages (ps @ qs) = pinned_pages ps @ pinned_pages qs"
  by (simp_all add: pinned_pages_def)

lemma first_unpinned_None: "first_unpinned ps = None \<longleftrightarrow> pinned_pages ps = ps"
proof (induction ps)
  case (Cons p ps)
  have "length (pinned_pages ps) \<le> length ps" by (simp add: pinned_pages_def)
  then have "pinned_pages ps \<noteq> p # ps" by auto
  with Cons show ?case by auto
qed simp

lemma pinned_remove: "i < length ps \<Longrightarrow> pg_pins (ps ! i) = 0 \<Longrightarrow> pinned_pages (remove_at i ps) = pinned_pages ps"
  by (subst (2) id_take_nth_drop[of i ps]) (auto simp: remove_at_def)

lemma subseq_remove_at: "i < length ps \<Longrightarrow> subseq (remove_at i ps) ps"
proof -
  assume "i < length ps"
  then have "ps = take i ps @ ps ! i # drop (Suc i) ps" by (rule id_take_nth_drop)
  then show ?thesis unfolding remove_at_def
    by (metis list_emb_append_mono list_emb_Cons subseq_order.refl)
qed

lemma pinned_evicted [simp]: "pinned_pages (evicted k ps) = pinned_pages ps"
  by (induction k arbitrary: ps) (auto split: option.splits simp: pinned_remove dest: first_unpinned_Some)

lemma subseq_evicted: "subseq (evicted k ps) ps"
proof (induction k arbitrary: ps)
  case (Suc k)
  then show ?case
    by (auto split: option.splits dest!: first_unpinned_Some intro: subseq_order.trans subseq_remove_at)
qed simp

lemma subseq_sums: "subseq ps qs \<Longrightarrow> rows_sum ps \<le> rows_sum qs \<and> bytes_sum ps \<le> bytes_sum qs"
  by (induction rule: list_emb.induct) auto

text \<open>The store with a given list of pages, its deque exactly full.\<close>

definition store :: "cache_budget \<Rightarrow> 'r page list \<Rightarrow> 'r pages" where
  "store budget ps = \<lparr>ps_budget = budget, ps_capacity = length ps, ps_entries = ps\<rparr>"

lemma store_simps [simp]:
  "ps_entries (store b ps) = ps" "ps_budget (store b ps) = b" "ps_capacity (store b ps) = length ps"
  by (simp_all add: store_def)

lemma pages_ok_store: "pages_ok L ps \<Longrightarrow> store (ps_budget ps) (ps_entries ps) = ps"
  by (simp add: store_def pages_ok_def)

lemma shrink_store: "shrink_to_fit (ps\<lparr>ps_entries := xs\<rparr>) = store (ps_budget ps) xs"
  by (simp add: shrink_to_fit_def store_def)

text \<open>The loop evicts the oldest unpinned pages, no more than needed, and gives up only when
  every page that is left is pinned.\<close>

lemma make_room_store:
  "make_room L rows bytes (store b ps) = (qs, okay) \<Longrightarrow>
   \<exists>k. qs = store b (evicted k ps) \<and> (\<forall>j<k. \<not> room_for L rows bytes (store b (evicted j ps))) \<and>
     (if okay then room_for L rows bytes qs
      else \<not> room_for L rows bytes qs \<and> ps_entries qs = pinned_pages ps)"
proof (induction "length ps" arbitrary: ps rule: less_induct)
  case less
  show ?case
  proof (cases "room_for L rows bytes (store b ps)")
    case True
    with less.prems show ?thesis by (auto simp: make_room.simps intro!: exI[of _ 0])
  next
    case False
    show ?thesis
    proof (cases "first_unpinned ps")
      case None
      with False less.prems show ?thesis
        by (auto simp: make_room.simps first_unpinned_None intro!: exI[of _ 0])
    next
      case (Some i)
      let ?rest = "remove_at i ps"
      have i: "i < length ps" "pg_pins (ps ! i) = 0" using first_unpinned_Some[OF Some] by auto
      have "make_room L rows bytes (store b ?rest) = (qs, okay)"
        using False Some less.prems by (subst (asm) make_room.simps) (simp add: shrink_store)
      moreover have "length ?rest < length ps" using i by simp
      ultimately obtain k where k: "qs = store b (evicted k ?rest)"
        "\<forall>j<k. \<not> room_for L rows bytes (store b (evicted j ?rest))"
        "if okay then room_for L rows bytes qs
         else \<not> room_for L rows bytes qs \<and> ps_entries qs = pinned_pages ?rest"
        using less.hyps by blast
      then have "\<not> room_for L rows bytes (store b (evicted j ps))" if "j < Suc k" for j
        using that False Some by (cases j) auto
      with k Some i show ?thesis by (intro exI[of _ "Suc k"]) (auto simp: pinned_remove)
    qed
  qed
qed

definition new_page :: "page_layout \<Rightarrow> nat \<Rightarrow> 'r cached_window \<Rightarrow> nat \<Rightarrow> 'r page" where
  "new_page L rows_capacity w nested =
    \<lparr>pg_window = w, pg_bytes = page_bytes L rows_capacity nested, pg_pins = 0\<rparr>"

lemma room_for_store:
  "room_for L (length (cw_rows w)) (page_bytes L cap nested) (store b ps) \<longleftrightarrow>
   within_budget L (store b (ps @ [new_page L cap w nested]))"
  by (auto simp: room_for_def Let_def within_budget_def pages_usage_eq saturating_add_def new_page_def
      min_le_iff_disj algebra_simps)

lemma pages_insert_store:
  assumes "pages_insert L cap w nested (store b ps) = (qs, okay)"
  shows "if okay
    then (\<exists>k. qs = store b (evicted k ps @ [new_page L cap w nested]) \<and> within_budget L qs \<and>
          (\<forall>j<k. \<not> within_budget L (store b (evicted j ps @ [new_page L cap w nested]))))
    else (\<exists>k. qs = store b (evicted k ps)) \<and>
         (length (cw_rows w) > cb_rows b \<or> saturating_add U64_MAX (page_bytes L cap nested) (pl_page L) > cb_bytes b \<or>
          \<not> within_budget L (store b (pinned_pages ps @ [new_page L cap w nested])))"
proof (cases "length (cw_rows w) > cb_rows b \<or> saturating_add U64_MAX (page_bytes L cap nested) (pl_page L) > cb_bytes b")
  case True
  with assms show ?thesis by (auto simp: pages_insert_def Let_def intro: exI[of _ 0])
next
  case False
  obtain rs found where room: "make_room L (length (cw_rows w)) (page_bytes L cap nested) (store b ps) = (rs, found)"
    by fastforce
  from make_room_store[OF this] obtain k where k: "rs = store b (evicted k ps)"
    "\<forall>j<k. \<not> room_for L (length (cw_rows w)) (page_bytes L cap nested) (store b (evicted j ps))"
    "if found then room_for L (length (cw_rows w)) (page_bytes L cap nested) rs
     else \<not> room_for L (length (cw_rows w)) (page_bytes L cap nested) rs \<and> ps_entries rs = pinned_pages ps"
    by blast
  have qs: "okay = found" "qs = (if found then store b (evicted k ps @ [new_page L cap w nested]) else rs)"
    using assms False room k(1)
    by (auto simp: pages_insert_def Let_def reserve_exact_def store_def new_page_def split: bool.splits)
  show ?thesis using k qs by (auto simp: room_for_store)
qed

lemma pages_ok_insert:
  assumes "pages_ok L ps" "pages_insert L cap w nested ps = (qs, okay)"
  shows "pages_ok L qs"
proof -
  have ps: "ps = store (ps_budget ps) (ps_entries ps)" using pages_ok_store[OF assms(1)] by simp
  have "pages_ok L (store (ps_budget ps) (evicted k (ps_entries ps)))" for k
    using assms(1) subseq_evicted[of k "ps_entries ps"]
    by (intro pages_ok_anti_mono[OF assms(1)]) (auto dest: list_emb_length simp: subseq_sums)
  note evict = this
  from pages_insert_store[of L cap w nested "ps_budget ps" "ps_entries ps" qs okay] assms(2) ps
  have "(\<exists>xs. qs = store (ps_budget ps) xs \<and> within_budget L qs) \<or> (\<exists>k. qs = store (ps_budget ps) (evicted k (ps_entries ps)))"
    by (cases okay) auto
  then show ?thesis
  proof
    assume "\<exists>xs. qs = store (ps_budget ps) xs \<and> within_budget L qs"
    then show ?thesis by (auto simp: pages_ok_def)
  qed (use evict in blast)
qed

lemma within_budget_anti_mono:
  assumes "within_budget L (store b ps)" "subseq qs ps" "qs \<noteq> []"
  shows "within_budget L (store b qs)"
proof -
  have "pages_ok L (store b ps)" using assms(1) by (simp add: pages_ok_def)
  then have "pages_ok L (store b qs)"
    using subseq_sums[OF assms(2)] list_emb_length[OF assms(2)]
    by (intro pages_ok_anti_mono[where ps = "store b ps" and qs = "store b qs"]) simp_all
  with assms(3) show ?thesis by (simp add: pages_ok_def)
qed

lemma subseq_pinned: "subseq (pinned_pages ps) (evicted k ps)"
proof -
  have "subseq (pinned_pages (evicted k ps)) (evicted k ps)" unfolding pinned_pages_def by (rule subseq_filter_left)
  then show ?thesis by simp
qed

text \<open>The window fits into the budget by itself and together with the pinned pages.\<close>

definition page_fits :: "page_layout \<Rightarrow> nat \<Rightarrow> 'r cached_window \<Rightarrow> nat \<Rightarrow> 'r pages \<Rightarrow> bool" where
  "page_fits L cap w nested ps \<longleftrightarrow> length (cw_rows w) \<le> cb_rows (ps_budget ps) \<and>
     saturating_add U64_MAX (page_bytes L cap nested) (pl_page L) \<le> cb_bytes (ps_budget ps) \<and>
     within_budget L (store (ps_budget ps) (pinned_pages (ps_entries ps) @ [new_page L cap w nested]))"

lemma pages_insert_fits:
  assumes "pages_ok L ps" "pages_insert L cap w nested ps = (qs, okay)"
  shows "okay \<longleftrightarrow> page_fits L cap w nested ps"
proof -
  let ?b = "ps_budget ps" and ?xs = "ps_entries ps" and ?new = "new_page L cap w nested"
  have ps: "pages_insert L cap w nested (store ?b ?xs) = (qs, okay)" using assms pages_ok_store by metis
  note exact = pages_insert_store[OF ps]
  show ?thesis
  proof (cases okay)
    case True
    with exact obtain k where k: "qs = store ?b (evicted k ?xs @ [?new])" "within_budget L qs" by auto
    have "within_budget L (store ?b (pinned_pages ?xs @ [?new]))"
      using k subseq_pinned[of ?xs k]
      by (auto intro: within_budget_anti_mono[where ps = "evicted k ?xs @ [?new]"] simp: list_emb_append_mono)
    moreover have "length (cw_rows w) \<le> cb_rows ?b \<and> saturating_add U64_MAX (page_bytes L cap nested) (pl_page L) \<le> cb_bytes ?b"
      using ps True by (auto simp: pages_insert_def Let_def split: if_splits)
    ultimately show ?thesis using True by (simp add: page_fits_def)
  qed (use exact in \<open>auto simp: page_fits_def\<close>)
qed

text \<open>C36: insertion into the page store is exact.  It keeps the accounted usage within the
  budget, never evicts a pinned page, and fails exactly when the window exceeds the budget by
  itself or together with the pinned pages.  When it succeeds, the oldest unpinned pages made
  way for the new one and no page more than necessary.\<close>

theorem pages_insert_exact:
  assumes "pages_ok L ps" "pages_insert L cap w nested ps = (qs, okay)"
  shows "pages_ok L qs \<and> pinned_pages (ps_entries qs) = pinned_pages (ps_entries ps) \<and>
    (okay \<longleftrightarrow> length (cw_rows w) \<le> cb_rows (ps_budget ps) \<and>
       saturating_add U64_MAX (page_bytes L cap nested) (pl_page L) \<le> cb_bytes (ps_budget ps) \<and>
       within_budget L (store (ps_budget ps) (pinned_pages (ps_entries ps) @ [new_page L cap w nested]))) \<and>
    (\<exists>k. ps_entries qs = evicted k (ps_entries ps) @ (if okay then [new_page L cap w nested] else []) \<and>
       (okay \<longrightarrow> within_budget L qs \<and>
         (\<forall>j<k. \<not> within_budget L (store (ps_budget ps) (evicted j (ps_entries ps) @ [new_page L cap w nested])))))"
proof -
  have "pages_insert L cap w nested (store (ps_budget ps) (ps_entries ps)) = (qs, okay)" using assms pages_ok_store by metis
  from pages_insert_store[OF this] show ?thesis
    using pages_ok_insert[OF assms] pages_insert_fits[OF assms] unfolding page_fits_def[symmetric]
    by (cases okay) (auto simp: new_page_def)
qed

definition demo_layout :: page_layout where
  "demo_layout = \<lparr>pl_pages = 48, pl_page = 16, pl_window = 80, pl_row = 24, pl_usize = 8\<rparr>"

definition demo_window :: "revision \<Rightarrow> nat cached_window" where
  "demo_window rv = \<lparr>cw_disposition = ViewportExact,
     cw_anchor = \<lparr>ha_epoch = 1, ha_revision = rv, ha_max_offset = 9, ha_viewport = \<lparr>sz_rows = 2, sz_columns = 4\<rparr>\<rparr>,
     cw_target_offset = 3, cw_first_row = - 5, cw_rows = [4, 5, 6, 7]\<rparr>"

definition demo_pages :: "nat pages" where
  "demo_pages = store \<lparr>cb_rows = 8, cb_bytes = 1000\<rparr>
     [\<lparr>pg_window = demo_window 1, pg_bytes = 192, pg_pins = 1\<rparr>, \<lparr>pg_window = demo_window 2, pg_bytes = 192, pg_pins = 0\<rparr>]"

lemma demo_insert: "pages_insert demo_layout 4 (demo_window 3) 0 demo_pages =
    (store \<lparr>cb_rows = 8, cb_bytes = 1000\<rparr> [\<lparr>pg_window = demo_window 1, pg_bytes = 192, pg_pins = 1\<rparr>,
      \<lparr>pg_window = demo_window 3, pg_bytes = 192, pg_pins = 0\<rparr>], True)"
  by (simp add: pages_insert_def Let_def demo_pages_def make_room.simps room_for_def pages_usage_def usage_add_def
      page_bytes_def demo_layout_def demo_window_def store_def reserve_exact_def remove_at_def shrink_to_fit_def
      saturating_add_def saturating_mul_def)

lemma demo_pages_ok: "pages_ok demo_layout demo_pages"
  by (simp add: pages_ok_def within_budget_def demo_pages_def pages_usage_eq demo_layout_def demo_window_def)

theorem pages_insert_exact_witness:
  "\<exists>k. [\<lparr>pg_window = demo_window 1, pg_bytes = 192, pg_pins = 1\<rparr>, \<lparr>pg_window = demo_window 3, pg_bytes = 192, pg_pins = 0\<rparr>] =
     evicted k (ps_entries demo_pages) @ [new_page demo_layout 4 (demo_window 3) 0]"
  using pages_insert_exact[OF demo_pages_ok demo_insert, THEN conjunct2, THEN conjunct2, THEN conjunct2]
  unfolding store_simps if_True by (elim exE conjE) (rule exI)

end
