(* ===== verification/Viewport_Cache.thy ===== *)
theory Viewport_Cache
  imports Viewport_Pages Traces
begin

section \<open>The viewport cache\<close>

text \<open>
  \<open>core/src/viewport_cache.rs\<close>: the client-side cache of history windows.  It tracks the
  latest anchor of the host, the offset the user wants to see and the one request that may
  be outstanding, and serves complete viewports from one window, or from the accounted
  pages of \<open>Viewport_Pages\<close> when it was created with a budget.

  A method that changes the cache returns the new cache first.  The arithmetic on 16-bit
  row counts that the source leaves unchecked wraps around here.

  The results: in every run at most one request is outstanding, and it is well-formed and
  answerable unless it was prefetched from too far beyond the history; the honest answer to a
  well-formed request is accepted and, when it fits, shown; and what a paged cache shows is
  what the host has at the latest anchor.
\<close>

subsection \<open>State and results\<close>

record cache_update =
  cu_render_local :: bool
  cu_request :: "history_query option"

record cache_install =
  ci_capacity_rejected :: bool
  ci_render_local :: bool
  ci_request :: "history_query option"

datatype anchor_cache_action = Preserve | InvalidateRows | InvalidateAll

record viewport_anchor_observation =
  ao_latest_anchor :: "history_anchor option"
  ao_desired :: nat
  ao_presented :: "nat option"
  ao_cache_action :: anchor_cache_action
  ao_compatible :: bool
  ao_presented_slice :: "viewport_slice_identity option"

record 'r viewport_cache =
  vc_latest_anchor :: "history_anchor option"
  vc_window :: "'r cached_window option"
  vc_pages :: "'r pages option"
  vc_desired :: nat
  vc_presented :: "nat option"
  vc_pending :: "history_query option"

definition cache_new :: "'r viewport_cache" where
  "cache_new = \<lparr>vc_latest_anchor = None, vc_window = None, vc_pages = None, vc_desired = 0,
     vc_presented = None, vc_pending = None\<rparr>"

definition with_budget :: "cache_budget \<Rightarrow> 'r viewport_cache" where
  "with_budget budget = cache_new\<lparr>vc_pages := Some (pages_new budget)\<rparr>"

definition retained_usage :: "page_layout \<Rightarrow> 'r viewport_cache \<Rightarrow> cache_budget option" where
  "retained_usage L c = map_option (pages_usage L) (vc_pages c)"

definition pin_visible_window :: "'r viewport_cache \<Rightarrow> 'r viewport_cache \<times> 'r cached_window option" where
  "pin_visible_window c =
    (case vc_pages c of None \<Rightarrow> (c, None)
     | Some ps \<Rightarrow> case vc_latest_anchor c of None \<Rightarrow> (c, None)
       | Some latest \<Rightarrow> case pages_pin latest (vc_desired c) ps of (ps', w) \<Rightarrow> (c\<lparr>vc_pages := Some ps'\<rparr>, w))"

definition capture_live_at :: "page_layout \<Rightarrow> nat \<Rightarrow> history_anchor \<Rightarrow> 'r list \<Rightarrow> nat \<Rightarrow> 'r viewport_cache \<Rightarrow>
    'r viewport_cache \<times> 'r cached_window option" where
  "capture_live_at L cap anchor rows nested_bytes c =
    (if \<not> anchor_is_valid anchor \<or> length rows \<noteq> sz_rows (ha_viewport anchor) \<or>
        (case vc_latest_anchor c of None \<Rightarrow> True | Some latest \<Rightarrow> ha_revision anchor > ha_revision latest)
     then (c, None)
     else let window = \<lparr>cw_disposition = ViewportExact, cw_anchor = anchor, cw_target_offset = 0,
                        cw_first_row = 0, cw_rows = rows\<rparr> in
       case vc_pages c of None \<Rightarrow> (c, None)
       | Some ps \<Rightarrow> case pages_insert L cap window nested_bytes ps of
           (ps', False) \<Rightarrow> (c\<lparr>vc_pages := Some ps'\<rparr>, None)
         | (ps', True) \<Rightarrow> case pages_pin anchor 0 ps' of (ps'', w) \<Rightarrow> (c\<lparr>vc_pages := Some ps''\<rparr>, w))"

definition capture_live :: "page_layout \<Rightarrow> nat \<Rightarrow> 'r list \<Rightarrow> nat \<Rightarrow> 'r viewport_cache \<Rightarrow>
    'r viewport_cache \<times> 'r cached_window option" where
  "capture_live L cap rows nested_bytes c =
    (case vc_latest_anchor c of None \<Rightarrow> (c, None) | Some anchor \<Rightarrow> capture_live_at L cap anchor rows nested_bytes c)"

definition window_for :: "'r viewport_cache \<Rightarrow> history_anchor \<Rightarrow> nat \<Rightarrow> ('r cached_window \<times> nat) option" where
  "window_for c latest target =
    (case vc_pages c of Some ps \<Rightarrow> pages_find ps latest target
     | None \<Rightarrow> Option.bind (vc_window c) (\<lambda>w.
         Option.bind (target_in_window_coordinates latest (cw_anchor w) target) (\<lambda>offset.
         Option.bind (window_visible_rows w offset) (\<lambda>_. Some (w, offset)))))"

definition visible_rows :: "'r viewport_cache \<Rightarrow> 'r list option" where
  "visible_rows c = Option.bind (vc_latest_anchor c) (\<lambda>latest.
    Option.bind (window_for c latest (vc_desired c)) (\<lambda>(w, target). window_visible_rows w target))"

definition visible_slice_identity :: "'r viewport_cache \<Rightarrow> viewport_slice_identity option" where
  "visible_slice_identity c = Option.bind (vc_latest_anchor c) (\<lambda>latest.
    Option.bind (window_for c latest (vc_desired c)) (\<lambda>(w, target). slice_identity w target))"

definition presented_rows :: "'r viewport_cache \<Rightarrow> 'r list option" where
  "presented_rows c = Option.bind (vc_latest_anchor c) (\<lambda>latest.
    Option.bind (vc_presented c) (\<lambda>offset.
    Option.bind (window_for c latest offset) (\<lambda>(w, target). window_visible_rows w target)))"

definition presented_slice_identity :: "'r viewport_cache \<Rightarrow> viewport_slice_identity option" where
  "presented_slice_identity c = Option.bind (vc_latest_anchor c) (\<lambda>latest.
    Option.bind (vc_presented c) (\<lambda>offset.
    Option.bind (window_for c latest offset) (\<lambda>(w, target). slice_identity w target)))"

subsection \<open>Observing live anchors\<close>

definition anchor_observation :: "'r viewport_cache \<Rightarrow> history_anchor option \<Rightarrow> nat \<Rightarrow> nat option \<Rightarrow>
    anchor_cache_action \<Rightarrow> bool \<Rightarrow> viewport_anchor_observation" where
  "anchor_observation c latest desired presented action compatible =
    \<lparr>ao_latest_anchor = latest, ao_desired = desired, ao_presented = presented, ao_cache_action = action,
     ao_compatible = compatible,
     ao_presented_slice =
       (if action = Preserve
        then Option.bind latest (\<lambda>a. Option.bind presented (\<lambda>offset.
          Option.bind (window_for c a offset) (\<lambda>(w, target). slice_identity w target)))
        else None)\<rparr>"

definition preview_anchor_observation :: "history_anchor \<Rightarrow> 'r viewport_cache \<Rightarrow> viewport_anchor_observation" where
  "preview_anchor_observation anchor c =
    (if \<not> anchor_is_valid anchor then
       \<lparr>ao_latest_anchor = None, ao_desired = 0, ao_presented = None, ao_cache_action = InvalidateAll,
        ao_compatible = False, ao_presented_slice = None\<rparr>
     else case vc_latest_anchor c of
       None \<Rightarrow> anchor_observation c (Some anchor) (vc_desired c) (vc_presented c) Preserve True
     | Some previous \<Rightarrow>
         if ha_revision anchor < ha_revision previous then
           anchor_observation c (vc_latest_anchor c) (vc_desired c) (vc_presented c) Preserve True
         else if ha_epoch previous \<noteq> ha_epoch anchor \<or> ha_viewport previous \<noteq> ha_viewport anchor \<or>
              ha_max_offset anchor < ha_max_offset previous then
           anchor_observation c (Some anchor) (min (vc_desired c) (ha_max_offset anchor)) None InvalidateRows False
         else let growth = ha_max_offset anchor - ha_max_offset previous in
           if growth > 0 \<and> vc_desired c > 0 then
             anchor_observation c (Some anchor)
               (min (saturating_add U64_MAX (vc_desired c) growth) (ha_max_offset anchor))
               (map_option (\<lambda>offset. min (saturating_add U64_MAX offset growth) (ha_max_offset anchor)) (vc_presented c))
               Preserve True
           else if ha_revision anchor > ha_revision previous \<and> vc_desired c = 0 then
             anchor_observation c (Some anchor) (vc_desired c) None
               (if vc_pages c = None then InvalidateRows else Preserve) True
           else anchor_observation c (Some anchor) (vc_desired c) (vc_presented c) Preserve True)"

definition drop_cached_rows :: "'r viewport_cache \<Rightarrow> 'r viewport_cache" where
  "drop_cached_rows c = c\<lparr>vc_window := None, vc_pages := map_option discard_unpinned (vc_pages c)\<rparr>"

definition commit_anchor_observation :: "viewport_anchor_observation \<Rightarrow> 'r viewport_cache \<Rightarrow> 'r viewport_cache \<times> bool" where
  "commit_anchor_observation ob c =
    (let c' = (case ao_cache_action ob of
          Preserve \<Rightarrow> c
        | InvalidateRows \<Rightarrow> drop_cached_rows c
        | InvalidateAll \<Rightarrow> (drop_cached_rows c)\<lparr>vc_pending := None\<rparr>)
     in (c'\<lparr>vc_latest_anchor := ao_latest_anchor ob, vc_desired := ao_desired ob, vc_presented := ao_presented ob\<rparr>,
         ao_compatible ob))"

definition observe_anchor :: "history_anchor \<Rightarrow> 'r viewport_cache \<Rightarrow> 'r viewport_cache \<times> bool" where
  "observe_anchor anchor c = commit_anchor_observation (preview_anchor_observation anchor c) c"

subsection \<open>Requests\<close>

text \<open>The free function and the method \<open>make_query\<close>.\<close>

definition make_query :: "history_anchor \<Rightarrow> nat \<Rightarrow> history_query" where
  "make_query anchor target_offset =
    (let rows = sz_rows (ha_viewport anchor); two_rows = saturating_mul U16_MAX rows 2;
         (older, newer) = (if target_offset \<le> rows then (two_rows, 0)
           else if ha_max_offset anchor - target_offset \<le> rows then (0, two_rows)
           else (rows, rows))
     in \<lparr>hq_anchor = anchor, hq_target_offset = target_offset, hq_older_margin = older, hq_newer_margin = newer\<rparr>)"

definition u16_sub :: "nat \<Rightarrow> nat \<Rightarrow> nat" where
  "u16_sub a b = nat ((int a - int b) mod 2 ^ 16)"

definition u64_sub :: "nat \<Rightarrow> nat \<Rightarrow> nat" where
  "u64_sub a b = nat ((int a - int b) mod 2 ^ 64)"

definition cache_make_query :: "'r viewport_cache \<Rightarrow> history_anchor \<Rightarrow> nat \<Rightarrow> history_query" where
  "cache_make_query c anchor target =
    (let query = make_query anchor target; rows = sz_rows (ha_viewport anchor) in
     if vc_pages c = None then query
     else if target \<le> rows then
       (let newer = target mod 2 ^ 16 in
        query\<lparr>hq_newer_margin := newer, hq_older_margin := u16_sub (rows * 2 mod 2 ^ 16) newer\<rparr>)
     else if u64_sub (ha_max_offset anchor) target \<le> rows then
       (let older = u64_sub (ha_max_offset anchor) target mod 2 ^ 16 in
        query\<lparr>hq_older_margin := older, hq_newer_margin := u16_sub (rows * 2 mod 2 ^ 16) older\<rparr>)
     else query)"

definition needs_prefetch :: "'r viewport_cache \<Rightarrow> nat \<Rightarrow> bool" where
  "needs_prefetch c target_offset =
    (case vc_window c of None \<Rightarrow> False
     | Some w \<Rightarrow> case end_row_exclusive w of None \<Rightarrow> True
       | Some end_row \<Rightarrow>
           case Option.bind (vc_latest_anchor c) (\<lambda>latest.
             Option.bind (target_in_window_coordinates latest (cw_anchor w) target_offset) i64_try_from) of
             None \<Rightarrow> True
           | Some target \<Rightarrow>
               let visible_start = - target;
                   visible_end = i64_saturating (visible_start + int (cw_height w));
                   threshold = int (max ((cw_height w + 1) div 2) 1);
                   oldest = - (case i64_try_from (ha_max_offset (cw_anchor w)) of Some m \<Rightarrow> m | None \<Rightarrow> int I64_MAX);
                   live_end = int (cw_height w)
               in (cw_first_row w > oldest \<and> i64_saturating (visible_start - cw_first_row w) < threshold) \<or>
                  (end_row < live_end \<and> i64_saturating (end_row - visible_end) < threshold))"

definition set_target :: "nat \<Rightarrow> 'r viewport_cache \<Rightarrow> 'r viewport_cache \<times> cache_update" where
  "set_target target_offset c =
    (case vc_latest_anchor c of None \<Rightarrow> (c, \<lparr>cu_render_local = False, cu_request = None\<rparr>)
     | Some anchor \<Rightarrow>
         let c1 = c\<lparr>vc_desired := min target_offset (ha_max_offset anchor)\<rparr>;
             c2 = c1\<lparr>vc_pages := map_option (pages_touch anchor (vc_desired c1)) (vc_pages c1)\<rparr>;
             render_local = (visible_rows c2 \<noteq> None)
         in if vc_pending c2 = None \<and>
               (\<not> render_local \<or> (vc_pages c2 = None \<and> needs_prefetch c2 (vc_desired c2)))
            then let query = cache_make_query c2 anchor (vc_desired c2) in
              (c2\<lparr>vc_pending := Some query\<rparr>, \<lparr>cu_render_local = render_local, cu_request = Some query\<rparr>)
            else (c2, \<lparr>cu_render_local = render_local, cu_request = None\<rparr>))"

definition follow_latest_after_stale_response :: "history_anchor \<Rightarrow> 'r viewport_cache \<Rightarrow> 'r viewport_cache \<times> cache_install" where
  "follow_latest_after_stale_response latest c =
    (let c1 = c\<lparr>vc_latest_anchor := Some latest, vc_desired := min (vc_desired c) (ha_max_offset latest)\<rparr> in
     if vc_desired c1 > 0 then
       (let query = cache_make_query c1 latest (vc_desired c1) in
        (c1\<lparr>vc_pending := Some query\<rparr>,
         \<lparr>ci_capacity_rejected = False, ci_render_local = False, ci_request = Some query\<rparr>))
     else (c1, \<lparr>ci_capacity_rejected = False, ci_render_local = False, ci_request = None\<rparr>))"

subsection \<open>Installing an answer\<close>

text \<open>The answer is known to belong to the pending query.  The decision which anchor and which
  target are current afterwards comes first, then the rows are stored.\<close>

definition resolve_latest :: "history_query \<Rightarrow> 'r cached_window \<Rightarrow> history_anchor \<Rightarrow> nat \<Rightarrow> history_anchor \<times> nat" where
  "resolve_latest pending w previous desired =
    (let response = cw_anchor w;
         same_id = (ha_epoch previous = ha_epoch response \<and> ha_viewport previous = ha_viewport response) in
     if same_id \<and> ha_revision response \<le> ha_revision previous \<and> ha_max_offset response \<le> ha_max_offset previous
     then (previous, desired)
     else (response,
       let growth = (if same_id then ha_max_offset response - ha_max_offset previous else 0) in
       if desired = hq_target_offset pending then cw_target_offset w
       else if same_id \<and> desired > 0 then saturating_add U64_MAX desired growth
       else desired))"

definition store_window :: "page_layout \<Rightarrow> nat \<Rightarrow> 'r cached_window \<Rightarrow> nat \<Rightarrow> bool \<Rightarrow> history_anchor \<Rightarrow> nat \<Rightarrow>
    'r viewport_cache \<Rightarrow> 'r viewport_cache \<times> cache_install" where
  "store_window L cap w nested_bytes same_id latest desired c =
    (let c1 = c\<lparr>vc_latest_anchor := Some latest, vc_desired := desired\<rparr>;
         covers = (Option.bind (target_in_window_coordinates latest (cw_anchor w) desired) (window_visible_rows w) \<noteq> None);
         (c2, capacity_rejected) =
           (case vc_pages c1 of
              Some ps \<Rightarrow>
                (case pages_insert L cap w nested_bytes (if same_id then ps else discard_unpinned ps) of
                   (ps', inserted) \<Rightarrow> (c1\<lparr>vc_pages := Some ps'\<rparr>, \<not> inserted))
            | None \<Rightarrow> (if covers then c1\<lparr>vc_window := Some w\<rparr> else c1, False));
         covers_latest = (if vc_pages c2 \<noteq> None then visible_rows c2 \<noteq> None else covers)
     in if \<not> covers_latest \<and> \<not> capacity_rejected \<and> (vc_pages c2 = None \<or> desired > 0)
        then let query = cache_make_query c2 latest desired in
          (c2\<lparr>vc_pending := Some query\<rparr>,
           \<lparr>ci_capacity_rejected = capacity_rejected, ci_render_local = covers_latest, ci_request = Some query\<rparr>)
        else (c2, \<lparr>ci_capacity_rejected = capacity_rejected, ci_render_local = covers_latest, ci_request = None\<rparr>))"

definition install_accounted_window :: "page_layout \<Rightarrow> nat \<Rightarrow> 'r cached_window \<Rightarrow> nat \<Rightarrow> 'r viewport_cache \<Rightarrow>
    'r viewport_cache \<times> (cache_install, 'r cached_window) result" where
  "install_accounted_window L cap w nested_bytes c =
    (case vc_pending c of None \<Rightarrow> (c, Err w)
     | Some pending \<Rightarrow>
       if \<not> window_is_valid_for w pending then (c, Err w)
       else let response = cw_anchor w; c1 = c\<lparr>vc_pending := None\<rparr>;
             previous = (case vc_latest_anchor c1 of Some a \<Rightarrow> a | None \<Rightarrow> response);
             same_id = (ha_epoch previous = ha_epoch response \<and> ha_viewport previous = ha_viewport response)
         in if (\<not> same_id \<and> \<not> ha_revision response > ha_revision previous) \<or>
               (same_id \<and> ha_max_offset response > ha_max_offset previous \<and> ha_revision response \<le> ha_revision previous)
            then (case follow_latest_after_stale_response previous c1 of (c2, r) \<Rightarrow> (c2, Ok r))
            else (case resolve_latest pending w previous (vc_desired c1) of (latest, desired) \<Rightarrow>
              if vc_pages c1 = None \<and> desired = 0 \<and> ha_revision response < ha_revision latest
              then (c1, Ok \<lparr>ci_capacity_rejected = False, ci_render_local = False, ci_request = None\<rparr>)
              else (case store_window L cap w nested_bytes same_id latest (min desired (ha_max_offset latest)) c1 of
                (c2, r) \<Rightarrow> (c2, Ok r))))"

definition install_window :: "page_layout \<Rightarrow> nat \<Rightarrow> 'r cached_window \<Rightarrow> 'r viewport_cache \<Rightarrow>
    'r viewport_cache \<times> (cache_install, 'r cached_window) result" where
  "install_window L cap w c = (if vc_pages c \<noteq> None then (c, Err w) else install_accounted_window L cap w 0 c)"

subsection \<open>The other operations\<close>

definition defer_pending_request :: "'r viewport_cache \<Rightarrow> 'r viewport_cache" where
  "defer_pending_request c = c\<lparr>vc_pending := None\<rparr>"

definition commit_visible_presentation :: "'r viewport_cache \<Rightarrow> 'r viewport_cache \<times> viewport_slice_identity option" where
  "commit_visible_presentation c =
    (if visible_rows c = None then (c, None)
     else let c' = c\<lparr>vc_presented := Some (vc_desired c)\<rparr> in (c', presented_slice_identity c'))"

definition invalidate :: "'r viewport_cache \<Rightarrow> 'r viewport_cache" where
  "invalidate c = (drop_cached_rows c)\<lparr>vc_latest_anchor := None, vc_desired := 0, vc_presented := None, vc_pending := None\<rparr>"

definition invalidate_rows :: "'r viewport_cache \<Rightarrow> 'r viewport_cache" where
  "invalidate_rows c = (drop_cached_rows c)\<lparr>vc_presented := None\<rparr>"

definition prefetch_target :: "history_anchor \<Rightarrow> nat \<Rightarrow> bool \<Rightarrow> nat \<Rightarrow> nat" where
  "prefetch_target anchor offset older screen =
    (let distance = sz_rows (ha_viewport anchor) * screen in
     if older then min (saturating_add U64_MAX offset distance) (ha_max_offset anchor) else offset - distance)"

primrec prefetch_scan :: "'r viewport_cache \<Rightarrow> history_anchor \<Rightarrow> nat \<Rightarrow> bool \<Rightarrow> nat list \<Rightarrow> nat option" where
  "prefetch_scan c anchor offset older [] = None"
| "prefetch_scan c anchor offset older (screen # screens) =
    (let target = prefetch_target anchor offset older screen in
     if target = offset then None
     else if window_for c anchor target = None then Some target
     else prefetch_scan c anchor offset older screens)"

definition prefetch_toward :: "nat \<Rightarrow> bool \<Rightarrow> nat \<Rightarrow> 'r viewport_cache \<Rightarrow> 'r viewport_cache \<times> history_query option" where
  "prefetch_toward offset older screens c =
    (case (vc_pages c, vc_pending c, vc_latest_anchor c) of
       (Some _, None, Some anchor) \<Rightarrow>
         (case prefetch_scan c anchor offset older [1..<Suc (max 2 (min screens 8))] of None \<Rightarrow> (c, None)
          | Some target \<Rightarrow> let query = cache_make_query c anchor target in
              (c\<lparr>vc_pending := Some query\<rparr>, Some query))
     | _ \<Rightarrow> (c, None))"

subsection \<open>Runs\<close>

text \<open>Every public operation as an input; the output is the request to be sent, if any.
  \<open>DropPin\<close> is the end of an owner that was handed out by a pin.\<close>

datatype 'r cache_input =
    Observe history_anchor
  | SetTarget nat
  | Install nat "'r cached_window" nat
  | InstallPlain nat "'r cached_window"
  | Defer
  | CommitPresentation
  | Invalidate
  | DiscardRows
  | Prefetch nat bool nat
  | PinVisible
  | CaptureLive nat "'r list" nat
  | CaptureLiveAt nat history_anchor "'r list" nat
  | DropPin nat

definition install_request :: "(cache_install, 'r cached_window) result \<Rightarrow> history_query option" where
  "install_request r = (case r of Ok i \<Rightarrow> ci_request i | Err _ \<Rightarrow> None)"

fun cache_step :: "page_layout \<Rightarrow> 'r viewport_cache \<Rightarrow> 'r cache_input \<Rightarrow> 'r viewport_cache \<times> history_query option" where
  "cache_step L c (Observe a) = (fst (observe_anchor a c), None)"
| "cache_step L c (SetTarget t) = (case set_target t c of (c', u) \<Rightarrow> (c', cu_request u))"
| "cache_step L c (Install cap w nested) = (case install_accounted_window L cap w nested c of (c', r) \<Rightarrow> (c', install_request r))"
| "cache_step L c (InstallPlain cap w) = (case install_window L cap w c of (c', r) \<Rightarrow> (c', install_request r))"
| "cache_step L c Defer = (defer_pending_request c, None)"
| "cache_step L c CommitPresentation = (fst (commit_visible_presentation c), None)"
| "cache_step L c Invalidate = (invalidate c, None)"
| "cache_step L c DiscardRows = (invalidate_rows c, None)"
| "cache_step L c (Prefetch offset older screens) = prefetch_toward offset older screens c"
| "cache_step L c PinVisible = (fst (pin_visible_window c), None)"
| "cache_step L c (CaptureLive cap rows nested) = (fst (capture_live L cap rows nested c), None)"
| "cache_step L c (CaptureLiveAt cap a rows nested) = (fst (capture_live_at L cap a rows nested c), None)"
| "cache_step L c (DropPin i) = (c\<lparr>vc_pages := map_option (drop_pin i) (vc_pages c)\<rparr>, None)"

text \<open>What the host has: \<open>real\<close> holds of the anchors it publishes, and \<open>row_at a n\<close> is the
  row with ordinal \<open>n\<close>, counted from the oldest retained row, at anchor \<open>a\<close>.  Within an
  epoch and a geometry the history only grows and its rows are immutable, and one revision
  has one anchor.\<close>

definition host_history :: "(history_anchor \<Rightarrow> bool) \<Rightarrow> (history_anchor \<Rightarrow> int \<Rightarrow> 'r) \<Rightarrow> bool" where
  "host_history real row_at \<longleftrightarrow>
    (\<forall>a. real a \<longrightarrow> anchor_is_valid a \<and> validate_surface_size (ha_viewport a) = Ok () \<and> ha_max_offset a < 2 ^ 31) \<and>
    (\<forall>a b. real a \<longrightarrow> real b \<longrightarrow> ha_revision a = ha_revision b \<longrightarrow> a = b) \<and>
    (\<forall>a b. real a \<longrightarrow> real b \<longrightarrow> ha_epoch a = ha_epoch b \<longrightarrow> ha_viewport a = ha_viewport b \<longrightarrow>
       ha_revision a \<le> ha_revision b \<longrightarrow> ha_max_offset a \<le> ha_max_offset b \<and>
       (\<forall>n < int (ha_max_offset a). row_at a n = row_at b n))"

definition honest_window :: "(history_anchor \<Rightarrow> bool) \<Rightarrow> (history_anchor \<Rightarrow> int \<Rightarrow> 'r) \<Rightarrow> 'r cached_window \<Rightarrow> bool" where
  "honest_window real row_at w \<longleftrightarrow> real (cw_anchor w) \<and>
    cw_rows w = map (\<lambda>k. row_at (cw_anchor w) (int (ha_max_offset (cw_anchor w)) + cw_first_row w + int k)) [0..<length (cw_rows w)]"

text \<open>The viewport at offset \<open>t\<close> from the live bottom.\<close>

definition host_view :: "(history_anchor \<Rightarrow> int \<Rightarrow> 'r) \<Rightarrow> history_anchor \<Rightarrow> nat \<Rightarrow> 'r list" where
  "host_view row_at a t = map (\<lambda>k. row_at a (int (ha_max_offset a) - int t + int k)) [0..<sz_rows (ha_viewport a)]"

text \<open>Inputs of a client whose host is honest.  The offsets are arbitrary.\<close>

definition admissible :: "(history_anchor \<Rightarrow> bool) \<Rightarrow> (history_anchor \<Rightarrow> int \<Rightarrow> 'r) \<Rightarrow> 'r viewport_cache \<Rightarrow> 'r cache_input \<Rightarrow> bool" where
  "admissible real row_at c i = (case i of
     Observe a \<Rightarrow> real a \<or> \<not> anchor_is_valid a
   | Install cap w nested \<Rightarrow> honest_window real row_at w
   | InstallPlain cap w \<Rightarrow> honest_window real row_at w
   | CaptureLive cap rows nested \<Rightarrow> (case vc_latest_anchor c of None \<Rightarrow> True | Some a \<Rightarrow> rows = host_view row_at a 0)
   | CaptureLiveAt cap a rows nested \<Rightarrow> real a \<and> rows = host_view row_at a 0
   | _ \<Rightarrow> True)"

inductive cache_reachable for L real row_at where
  single: "cache_reachable L real row_at cache_new"
| paged: "cache_reachable L real row_at (with_budget budget)"
| step: "cache_reachable L real row_at c \<Longrightarrow> admissible real row_at c i \<Longrightarrow> cache_reachable L real row_at (fst (cache_step L c i))"

subsection \<open>Windows show what the host has\<close>

lemma window_visible_range_Some:
  "window_visible_range w t = Some (start, end_row) \<Longrightarrow> t \<le> ha_max_offset (cw_anchor w) \<and>
     int start = - int t - cw_first_row w \<and> end_row = start + cw_height w \<and> end_row \<le> length (cw_rows w)"
  by (auto simp: window_visible_range_def bind_eq_Some_conv u64_try_from_Some_iff split: if_splits)

lemma window_visible_rows_Some:
  assumes "window_visible_rows w t = Some rs"
  obtains start where "t \<le> ha_max_offset (cw_anchor w)" "int start = - int t - cw_first_row w"
    "start + cw_height w \<le> length (cw_rows w)" "rs = take (cw_height w) (drop start (cw_rows w))"
  using assms
  by (auto simp: window_visible_rows_def bind_eq_Some_conv slice_get_def split: if_splits dest!: window_visible_range_Some)

lemma honest_visible:
  assumes "honest_window real row_at w" "window_visible_rows w t = Some rs"
  shows "rs = host_view row_at (cw_anchor w) t"
proof -
  from assms(2) obtain start where s: "int start = - int t - cw_first_row w"
    "start + cw_height w \<le> length (cw_rows w)" "rs = take (cw_height w) (drop start (cw_rows w))"
    by (rule window_visible_rows_Some)
  let ?row = "\<lambda>k. row_at (cw_anchor w) (int (ha_max_offset (cw_anchor w)) + cw_first_row w + int k)"
  have "cw_rows w ! k = ?row k" if "k < length (cw_rows w)" for k
  proof -
    have "cw_rows w = map ?row [0..<length (cw_rows w)]" using assms(1) by (simp add: honest_window_def)
    then have "cw_rows w ! k = map ?row [0..<length (cw_rows w)] ! k" by (rule arg_cong)
    with that show ?thesis by simp
  qed
  then show ?thesis
    using s(2,3) by (auto intro!: nth_equalityI arg_cong2[where f = row_at] simp: host_view_def) (use s(1) in linarith)
qed

lemma target_in_window_Some:
  assumes "target_in_window_coordinates latest wa target = Some offset"
  shows "ha_epoch latest = ha_epoch wa" "ha_viewport latest = ha_viewport wa"
    "int (ha_max_offset latest) - int target = int (ha_max_offset wa) - int offset" "ha_max_offset wa \<le> ha_max_offset latest"
  using assms by (auto simp: target_in_window_coordinates_def split: if_splits)

lemma host_view_cong:
  assumes "ha_viewport a = ha_viewport b" "int (ha_max_offset a) - int s = int (ha_max_offset b) - int t"
    and "\<And>k. k < sz_rows (ha_viewport b) \<Longrightarrow>
      row_at a (int (ha_max_offset b) - int t + int k) = row_at b (int (ha_max_offset b) - int t + int k)"
  shows "host_view row_at a s = host_view row_at b t"
  using assms by (simp add: host_view_def)

lemma host_anchor:
  assumes "host_history real row_at" "real a"
  shows "anchor_is_valid a" "validate_surface_size (ha_viewport a) = Ok ()" "ha_max_offset a < 2 ^ 31"
  using assms unfolding host_history_def by blast+

lemma host_anchor_unique:
  "host_history real row_at \<Longrightarrow> real a \<Longrightarrow> real b \<Longrightarrow> ha_revision a = ha_revision b \<Longrightarrow> a = b"
  unfolding host_history_def by blast

lemma host_growth:
  "host_history real row_at \<Longrightarrow> real a \<Longrightarrow> real b \<Longrightarrow> ha_epoch a = ha_epoch b \<Longrightarrow> ha_viewport a = ha_viewport b \<Longrightarrow>
   ha_revision a \<le> ha_revision b \<Longrightarrow> ha_max_offset a \<le> ha_max_offset b"
  unfolding host_history_def by blast

lemma history_rows_agree:
  assumes "host_history real row_at" "real a" "real b" "ha_epoch a = ha_epoch b" "ha_viewport a = ha_viewport b"
    "n < int (ha_max_offset a)" "n < int (ha_max_offset b)"
  shows "row_at a n = row_at b n"
proof -
  have agree: "row_at x n = row_at y n"
    if "real x" "real y" "ha_epoch x = ha_epoch y" "ha_viewport x = ha_viewport y" "ha_revision x \<le> ha_revision y"
      "n < int (ha_max_offset x)" for x y
    using assms(1) that unfolding host_history_def by blast
  show ?thesis
    using agree[of a b] agree[of b a] assms(2-) by (cases "ha_revision a \<le> ha_revision b") auto
qed

lemma reusable_exact:
  assumes host: "host_history real row_at" and "real latest" "honest_window real row_at w"
    and target: "reusable_target latest w target = Some offset" "window_visible_rows w offset = Some rs"
  shows "rs = host_view row_at latest target"
proof -
  have wreal: "real (cw_anchor w)" using assms(3) by (simp add: honest_window_def)
  have coord: "target_in_window_coordinates latest (cw_anchor w) target = Some offset"
    and live: "ha_revision latest = ha_revision (cw_anchor w) \<or> cw_height w \<le> offset"
    using target by (auto simp: reusable_target_def bind_eq_Some_conv split: if_splits)
  note c = target_in_window_Some[OF coord]
  have "host_view row_at (cw_anchor w) offset = host_view row_at latest target"
  proof (cases "ha_revision latest = ha_revision (cw_anchor w)")
    case True
    then have "latest = cw_anchor w" using host \<open>real latest\<close> wreal unfolding host_history_def by blast
    with c(3) show ?thesis by simp
  next
    case False
    with live have "cw_height w \<le> offset" by simp
    then show ?thesis
      using c by (intro host_view_cong history_rows_agree[OF host wreal \<open>real latest\<close>]) auto
  qed
  with honest_visible[OF assms(3) target(2)] show ?thesis by simp
qed

subsection \<open>The invariant\<close>

definition page_windows :: "'r pages \<Rightarrow> 'r cached_window set" where
  "page_windows ps = pg_window ` set (ps_entries ps)"

lemma page_windows_new [simp]: "page_windows (pages_new budget) = {}"
  by (simp add: page_windows_def pages_new_def)

lemma page_windows_touch: "page_windows (pages_touch latest target ps) \<subseteq> page_windows ps"
  by (auto simp: page_windows_def pages_touch_def remove_at_def split: option.splits
      dest: in_set_takeD in_set_dropD last_reusable_Some)

lemma page_windows_update: "i < length ps \<Longrightarrow> pg_window q = pg_window (ps ! i) \<Longrightarrow> pg_window ` set (ps[i := q]) \<subseteq> pg_window ` set ps"
  by (auto dest!: set_update_subset_insert[THEN subsetD])

lemma page_windows_pin: "page_windows (fst (pages_pin latest target ps)) \<subseteq> page_windows ps"
proof (cases "last_reusable latest target (ps_entries ps)")
  case (Some i)
  then show ?thesis
    using page_windows_update[of i "ps_entries ps" "add_pin (ps_entries ps ! i)"] last_reusable_Some[OF Some]
    by (simp add: page_windows_def pages_pin_def add_pin_def)
qed (simp add: pages_pin_def)

lemma page_windows_drop_pin: "page_windows (drop_pin i ps) \<subseteq> page_windows ps"
proof (cases "i < length (ps_entries ps)")
  case True
  then show ?thesis
    using page_windows_update[OF True, of "(ps_entries ps ! i)\<lparr>pg_pins := pg_pins (ps_entries ps ! i) - 1\<rparr>"]
    by (simp add: page_windows_def drop_pin_def)
qed (simp add: drop_pin_def)

lemma page_windows_discard: "page_windows (discard_unpinned ps) \<subseteq> page_windows ps"
  by (auto simp: page_windows_def discard_unpinned_def shrink_to_fit_def)

lemma set_subseq: "subseq xs ys \<Longrightarrow> set xs \<subseteq> set ys"
  by (induction rule: list_emb.induct) auto

lemma page_windows_insert:
  assumes "pages_ok L ps" "pages_insert L cap w nested ps = (qs, okay)"
  shows "page_windows qs \<subseteq> insert w (page_windows ps)"
proof -
  have "pages_insert L cap w nested (store (ps_budget ps) (ps_entries ps)) = (qs, okay)"
    using assms pages_ok_store by metis
  note exact = pages_insert_store[OF this]
  have sub: "set (evicted k (ps_entries ps)) \<subseteq> set (ps_entries ps)" for k
    using subseq_evicted by (rule set_subseq)
  have "\<exists>k. set (ps_entries qs) \<subseteq> insert (new_page L cap w nested) (set (evicted k (ps_entries ps)))"
    using exact by (cases okay) auto
  with sub have "set (ps_entries qs) \<subseteq> insert (new_page L cap w nested) (set (ps_entries ps))" by blast
  then show ?thesis by (auto simp: page_windows_def new_page_def)
qed

definition pages_good :: "page_layout \<Rightarrow> ('r cached_window \<Rightarrow> bool) \<Rightarrow> 'r pages \<Rightarrow> bool" where
  "pages_good L P ps \<longleftrightarrow> pages_ok L ps \<and> (\<forall>w\<in>page_windows ps. P w)"

lemma pages_good_mono: "pages_good L P ps \<Longrightarrow> pages_ok L qs \<Longrightarrow> page_windows qs \<subseteq> page_windows ps \<Longrightarrow> pages_good L P qs"
  by (auto simp: pages_good_def)

lemma pages_good_ok: "pages_good L P ps \<Longrightarrow> pages_ok L ps"
  by (simp add: pages_good_def)

lemma pages_good_new: "pages_good L P (pages_new budget)"
  by (simp add: pages_good_def)

lemma pages_good_touch: "pages_good L P ps \<Longrightarrow> pages_good L P (pages_touch latest target ps)"
  by (rule pages_good_mono[OF _ pages_ok_touch[OF pages_good_ok] page_windows_touch])

lemma pages_good_pin: "pages_good L P ps \<Longrightarrow> pages_good L P (fst (pages_pin latest target ps))"
  by (rule pages_good_mono[OF _ pages_ok_pin[OF pages_good_ok] page_windows_pin])

lemma pages_good_drop_pin: "pages_good L P ps \<Longrightarrow> pages_good L P (drop_pin i ps)"
  by (rule pages_good_mono[OF _ pages_ok_drop_pin[OF pages_good_ok] page_windows_drop_pin])

lemma pages_good_discard: "pages_good L P ps \<Longrightarrow> pages_good L P (discard_unpinned ps)"
  by (rule pages_good_mono[OF _ pages_ok_discard[OF pages_good_ok] page_windows_discard])

lemma pages_good_insert:
  "pages_good L P ps \<Longrightarrow> P w \<Longrightarrow> pages_insert L cap w nested ps = (qs, okay) \<Longrightarrow> pages_good L P qs"
  unfolding pages_good_def using pages_ok_insert page_windows_insert by blast

text \<open>A request is made at an anchor of the host, and only its target can make it invalid.\<close>

definition query_ok :: "(history_anchor \<Rightarrow> bool) \<Rightarrow> history_query \<Rightarrow> bool" where
  "query_ok real q \<longleftrightarrow> real (hq_anchor q) \<and>
    (hq_target_offset q \<le> ha_max_offset (hq_anchor q) \<longrightarrow> query_is_valid q)"

definition position_ok :: "(history_anchor \<Rightarrow> bool) \<Rightarrow> history_anchor option \<Rightarrow> nat \<Rightarrow> bool" where
  "position_ok real latest desired = (case latest of None \<Rightarrow> desired = 0 | Some a \<Rightarrow> real a \<and> desired \<le> ha_max_offset a)"

definition cache_inv :: "page_layout \<Rightarrow> (history_anchor \<Rightarrow> bool) \<Rightarrow> (history_anchor \<Rightarrow> int \<Rightarrow> 'r) \<Rightarrow> 'r viewport_cache \<Rightarrow> bool" where
  "cache_inv L real row_at c \<longleftrightarrow> position_ok real (vc_latest_anchor c) (vc_desired c) \<and>
    pred_option (honest_window real row_at) (vc_window c) \<and>
    pred_option (pages_good L (honest_window real row_at)) (vc_pages c) \<and>
    pred_option (query_ok real) (vc_pending c)"

lemma u64_sub_le: "b \<le> a \<Longrightarrow> a < 2 ^ 64 \<Longrightarrow> u64_sub a b = a - b"
  unfolding u64_sub_def by (subst mod_pos_pos_trivial) auto

lemma u16_sub_le: "b \<le> a \<Longrightarrow> a < 2 ^ 16 \<Longrightarrow> u16_sub a b = a - b"
  unfolding u16_sub_def by (subst mod_pos_pos_trivial) auto

lemma query_margins_ok:
  assumes "anchor_is_valid (hq_anchor q)" "hq_target_offset q \<le> ha_max_offset (hq_anchor q)" "sz_rows (ha_viewport (hq_anchor q)) \<le> 80"
    "hq_older_margin q + hq_newer_margin q = 2 * sz_rows (ha_viewport (hq_anchor q))"
  shows "query_is_valid q"
  using assms by (simp add: query_is_valid_def checked_add_def saturating_mul_def)

lemma cache_make_query_margins:
  assumes "target \<le> ha_max_offset a" "sz_rows (ha_viewport a) \<le> 80" "ha_max_offset a < 2 ^ 31"
  shows "hq_older_margin (cache_make_query c a target) + hq_newer_margin (cache_make_query c a target) = 2 * sz_rows (ha_viewport a)"
proof -
  let ?rows = "sz_rows (ha_viewport a)"
  have two: "saturating_mul U16_MAX ?rows 2 = 2 * ?rows" "?rows * 2 mod 65536 = 2 * ?rows"
    using assms(2) by (simp_all add: saturating_mul_def)
  have sub: "u64_sub (ha_max_offset a) target = ha_max_offset a - target" using assms by (intro u64_sub_le) auto
  have small: "n mod 2 ^ 16 = n \<and> u16_sub (2 * ?rows) n = 2 * ?rows - n" if "n \<le> ?rows" for n
    using that assms(2) by (auto intro!: u16_sub_le)
  show ?thesis
    using small[of target] small[of "ha_max_offset a - target"]
    by (simp add: cache_make_query_def make_query_def Let_def two sub)
qed

lemma cache_make_query_fields [simp]:
  "hq_anchor (cache_make_query c a target) = a" "hq_target_offset (cache_make_query c a target) = target"
  by (simp_all add: cache_make_query_def make_query_def Let_def)

lemma cache_make_query_ok:
  assumes "host_history real row_at" "real a"
  shows "query_ok real (cache_make_query c a target)"
proof -
  note a = host_anchor[OF assms(1,2)]
  have "sz_rows (ha_viewport a) \<le> 80"
    using a(2) by (simp add: validate_surface_size_def split: if_splits)
  with a assms show ?thesis
    by (auto simp: query_ok_def intro!: query_margins_ok cache_make_query_margins)
qed

lemma inv_pending:
  "cache_inv L real row_at c \<Longrightarrow> pred_option (query_ok real) q \<Longrightarrow> cache_inv L real row_at (c\<lparr>vc_pending := q\<rparr>)"
  by (simp add: cache_inv_def)

lemma inv_presented: "cache_inv L real row_at (c\<lparr>vc_presented := p\<rparr>) = cache_inv L real row_at c"
  by (simp add: cache_inv_def)

lemma inv_drop_rows: "cache_inv L real row_at c \<Longrightarrow> cache_inv L real row_at (drop_cached_rows c)"
  by (cases "vc_pages c") (auto simp: cache_inv_def drop_cached_rows_def pages_good_discard)

lemma inv_position:
  "cache_inv L real row_at c \<Longrightarrow> position_ok real latest desired \<Longrightarrow>
   cache_inv L real row_at (c\<lparr>vc_latest_anchor := latest, vc_desired := desired\<rparr>)"
  by (simp add: cache_inv_def)

lemma inv_pages:
  "cache_inv L real row_at c \<Longrightarrow> (\<And>ps. vc_pages c = Some ps \<Longrightarrow> pages_good L (honest_window real row_at) ps \<Longrightarrow>
     pages_good L (honest_window real row_at) (f ps)) \<Longrightarrow>
   cache_inv L real row_at (c\<lparr>vc_pages := map_option f (vc_pages c)\<rparr>)"
  by (cases "vc_pages c") (auto simp: cache_inv_def)

lemma anchor_observation_fields [simp]:
  "ao_latest_anchor (anchor_observation c latest desired presented action compatible) = latest"
  "ao_desired (anchor_observation c latest desired presented action compatible) = desired"
  "ao_presented (anchor_observation c latest desired presented action compatible) = presented"
  "ao_cache_action (anchor_observation c latest desired presented action compatible) = action"
  "ao_compatible (anchor_observation c latest desired presented action compatible) = compatible"
  by (simp_all add: anchor_observation_def)

lemma preview_position:
  assumes "position_ok real (vc_latest_anchor c) (vc_desired c)" "real a \<or> \<not> anchor_is_valid a"
  shows "position_ok real (ao_latest_anchor (preview_anchor_observation a c)) (ao_desired (preview_anchor_observation a c))"
  using assms
  by (cases "vc_latest_anchor c") (auto simp: preview_anchor_observation_def Let_def position_ok_def)

lemma inv_observe:
  assumes "cache_inv L real row_at c" "real a \<or> \<not> anchor_is_valid a"
  shows "cache_inv L real row_at (fst (observe_anchor a c))"
proof -
  let ?ob = "preview_anchor_observation a c"
  have pos: "position_ok real (ao_latest_anchor ?ob) (ao_desired ?ob)"
    using assms by (intro preview_position) (simp_all add: cache_inv_def)
  have "cache_inv L real row_at (case ao_cache_action ?ob of Preserve \<Rightarrow> c | InvalidateRows \<Rightarrow> drop_cached_rows c
      | InvalidateAll \<Rightarrow> (drop_cached_rows c)\<lparr>vc_pending := None\<rparr>)"
    using assms(1) inv_drop_rows[OF assms(1)] by (auto intro!: inv_pending split: anchor_cache_action.split)
  from inv_position[OF this pos] show ?thesis
    by (simp add: observe_anchor_def commit_anchor_observation_def Let_def inv_presented)
qed

lemma inv_request:
  assumes "host_history real row_at" "cache_inv L real row_at c" "vc_latest_anchor c = Some a"
  shows "cache_inv L real row_at (c\<lparr>vc_pending := Some (cache_make_query d a target)\<rparr>)"
proof -
  have "real a" using assms(2,3) by (simp add: cache_inv_def position_ok_def)
  then show ?thesis using assms by (intro inv_pending) (simp_all add: cache_make_query_ok)
qed

lemma inv_set_target:
  assumes host: "host_history real row_at" and inv: "cache_inv L real row_at c"
  shows "cache_inv L real row_at (fst (set_target target c))"
proof (cases "vc_latest_anchor c")
  case (Some a)
  let ?c1 = "c\<lparr>vc_desired := min target (ha_max_offset a)\<rparr>"
  let ?c2 = "?c1\<lparr>vc_pages := map_option (pages_touch a (vc_desired ?c1)) (vc_pages ?c1)\<rparr>"
  have "real a" using inv Some by (simp add: cache_inv_def position_ok_def)
  then have "cache_inv L real row_at ?c1" using inv Some by (simp add: cache_inv_def position_ok_def)
  then have c2: "cache_inv L real row_at ?c2" by (rule inv_pages) (rule pages_good_touch)
  then have "cache_inv L real row_at (?c2\<lparr>vc_pending := Some (cache_make_query ?c2 a (vc_desired ?c2))\<rparr>)"
    using Some by (intro inv_request[OF host]) simp_all
  with c2 Some show ?thesis by (simp add: set_target_def Let_def)
qed (use inv in \<open>simp add: set_target_def\<close>)

lemma inv_follow:
  assumes host: "host_history real row_at" and inv: "cache_inv L real row_at c" and "real a"
  shows "cache_inv L real row_at (fst (follow_latest_after_stale_response a c))"
proof -
  let ?c1 = "c\<lparr>vc_latest_anchor := Some a, vc_desired := min (vc_desired c) (ha_max_offset a)\<rparr>"
  have c1: "cache_inv L real row_at ?c1" using inv \<open>real a\<close> by (intro inv_position) (simp_all add: position_ok_def)
  then have "cache_inv L real row_at (?c1\<lparr>vc_pending := Some (cache_make_query ?c1 a (vc_desired ?c1))\<rparr>)"
    by (intro inv_request[OF host]) simp_all
  with c1 show ?thesis by (simp add: follow_latest_after_stale_response_def Let_def)
qed

lemma inv_prefetch:
  assumes "host_history real row_at" "cache_inv L real row_at c"
  shows "cache_inv L real row_at (fst (prefetch_toward offset older screens c))"
  using assms(2) by (auto simp: prefetch_toward_def Let_def inv_request[OF assms(1)] split: option.splits)

lemma inv_pin: "cache_inv L real row_at c \<Longrightarrow> cache_inv L real row_at (fst (pin_visible_window c))"
  by (auto simp: pin_visible_window_def cache_inv_def split: option.splits prod.splits)
    (metis pages_good_pin fst_conv)

lemma honest_live:
  assumes "real a" "length rows = sz_rows (ha_viewport a)" "rows = host_view row_at a 0"
  shows "honest_window real row_at \<lparr>cw_disposition = d, cw_anchor = a, cw_target_offset = 0, cw_first_row = 0, cw_rows = rows\<rparr>"
  using assms by (simp add: honest_window_def host_view_def)

lemma inv_capture_at:
  assumes inv: "cache_inv L real row_at c" and a: "real a" "rows = host_view row_at a 0"
  shows "cache_inv L real row_at (fst (capture_live_at L cap a rows nested c))"
proof (cases "vc_pages c")
  case (Some ps)
  let ?w = "\<lparr>cw_disposition = ViewportExact, cw_anchor = a, cw_target_offset = 0, cw_first_row = 0, cw_rows = rows\<rparr>"
  have good: "pages_good L (honest_window real row_at) ps" using inv Some by (simp add: cache_inv_def)
  obtain qs okay where ins: "pages_insert L cap ?w nested ps = (qs, okay)" by fastforce
  have "honest_window real row_at ?w" using a by (intro honest_live) (simp_all add: host_view_def)
  from pages_good_insert[OF good this ins] have qs: "pages_good L (honest_window real row_at) qs" .
  then have "pages_good L (honest_window real row_at) (fst (pages_pin a 0 qs))" by (rule pages_good_pin)
  with qs inv Some ins show ?thesis
    by (auto simp: capture_live_at_def Let_def cache_inv_def split: bool.splits prod.splits)
qed (use inv in \<open>simp add: capture_live_at_def Let_def\<close>)

lemma resolve_latest_real:
  assumes "resolve_latest pending w previous desired = (latest, desired')" "real previous" "real (cw_anchor w)"
  shows "real latest"
  using assms by (auto simp: resolve_latest_def Let_def split: if_splits)

text \<open>The state of \<open>store_window\<close> once the rows are stored, before a follow-up request.\<close>

definition stored :: "page_layout \<Rightarrow> nat \<Rightarrow> 'r cached_window \<Rightarrow> nat \<Rightarrow> bool \<Rightarrow> history_anchor \<Rightarrow> nat \<Rightarrow>
    'r viewport_cache \<Rightarrow> 'r viewport_cache" where
  "stored L cap w nested same_id latest desired c =
    (let c1 = c\<lparr>vc_latest_anchor := Some latest, vc_desired := desired\<rparr> in
     case vc_pages c of
       Some ps \<Rightarrow> c1\<lparr>vc_pages := Some (fst (pages_insert L cap w nested (if same_id then ps else discard_unpinned ps)))\<rparr>
     | None \<Rightarrow> if Option.bind (target_in_window_coordinates latest (cw_anchor w) desired) (window_visible_rows w) \<noteq> None
         then c1\<lparr>vc_window := Some w\<rparr> else c1)"

lemma store_window_cases:
  "fst (store_window L cap w nested same_id latest desired c) \<in>
    {stored L cap w nested same_id latest desired c,
     (stored L cap w nested same_id latest desired c)
       \<lparr>vc_pending := Some (cache_make_query (stored L cap w nested same_id latest desired c) latest desired)\<rparr>}"
proof (cases "vc_pages c")
  case None
  then show ?thesis by (simp add: store_window_def stored_def Let_def)
next
  case (Some ps)
  obtain qs okay where "pages_insert L cap w nested (if same_id then ps else discard_unpinned ps) = (qs, okay)"
    by fastforce
  with Some show ?thesis by (simp add: store_window_def stored_def Let_def)
qed

lemma inv_stored:
  assumes "cache_inv L real row_at c" "honest_window real row_at w" "real latest" "desired \<le> ha_max_offset latest"
  shows "cache_inv L real row_at (stored L cap w nested same_id latest desired c)"
proof -
  let ?c1 = "c\<lparr>vc_latest_anchor := Some latest, vc_desired := desired\<rparr>"
  have c1: "cache_inv L real row_at ?c1" using assms by (intro inv_position) (simp_all add: position_ok_def)
  show ?thesis
  proof (cases "vc_pages c")
    case None
    with c1 assms(2) show ?thesis by (simp add: stored_def Let_def cache_inv_def)
  next
    case (Some ps)
    let ?ps = "if same_id then ps else discard_unpinned ps"
    have "pages_good L (honest_window real row_at) ?ps"
      using assms(1) Some by (simp add: cache_inv_def pages_good_discard)
    then have "pages_good L (honest_window real row_at) (fst (pages_insert L cap w nested ?ps))"
      using assms(2) by (rule pages_good_insert) (rule prod.collapse[symmetric])
    with c1 Some show ?thesis by (simp add: stored_def Let_def cache_inv_def)
  qed
qed

lemma stored_fields [simp]:
  "vc_latest_anchor (stored L cap w nested same_id latest desired c) = Some latest"
  "vc_desired (stored L cap w nested same_id latest desired c) = desired"
  "vc_pending (stored L cap w nested same_id latest desired c) = vc_pending c"
  by (simp_all add: stored_def Let_def split: option.split)

lemma inv_store_window:
  assumes "host_history real row_at" "cache_inv L real row_at c" "honest_window real row_at w" "real latest"
    "desired \<le> ha_max_offset latest"
  shows "cache_inv L real row_at (fst (store_window L cap w nested same_id latest desired c))"
proof -
  let ?s = "stored L cap w nested same_id latest desired c"
  have s: "cache_inv L real row_at ?s" using assms(2-) by (rule inv_stored)
  then have "cache_inv L real row_at (?s\<lparr>vc_pending := Some (cache_make_query ?s latest desired)\<rparr>)"
    using assms(1) by (intro inv_request) simp_all
  with s store_window_cases[of L cap w nested same_id latest desired c] show ?thesis by auto
qed

lemma inv_install:
  assumes host: "host_history real row_at" and inv: "cache_inv L real row_at c" and w: "honest_window real row_at w"
  shows "cache_inv L real row_at (fst (install_accounted_window L cap w nested c))"
proof -
  let ?c1 = "c\<lparr>vc_pending := None\<rparr>"
  let ?previous = "case vc_latest_anchor c of Some a \<Rightarrow> a | None \<Rightarrow> cw_anchor w"
  have c1: "cache_inv L real row_at ?c1" using inv by (intro inv_pending) simp_all
  have wreal: "real (cw_anchor w)" using w by (simp add: honest_window_def)
  have previous: "real ?previous" using inv wreal by (auto simp: cache_inv_def position_ok_def split: option.splits)
  have follow: "cache_inv L real row_at (fst (follow_latest_after_stale_response ?previous ?c1))"
    using host c1 previous by (rule inv_follow)
  have stored: "cache_inv L real row_at
      (fst (store_window L cap w nested same_id latest (min desired (ha_max_offset latest)) ?c1))"
    if "resolve_latest pending w ?previous (vc_desired c) = (latest, desired)" for pending latest desired same_id
    using resolve_latest_real[OF that previous wreal] by (intro inv_store_window[OF host c1 w]) simp_all
  show ?thesis
    using inv c1 follow stored
    by (auto simp: install_accounted_window_def Let_def split: option.splits prod.splits) (metis fst_conv)+
qed

lemma inv_step:
  assumes host: "host_history real row_at" and inv: "cache_inv L real row_at c" and adm: "admissible real row_at c i"
  shows "cache_inv L real row_at (fst (cache_step L c i))"
proof (cases i)
  case (Install cap w nested)
  then show ?thesis using inv_install[OF host inv] adm by (simp add: admissible_def split: prod.split) (metis fst_conv)
next
  case (InstallPlain cap w)
  then show ?thesis using inv_install[OF host inv] inv adm
    by (simp add: admissible_def install_window_def split: prod.split) (metis fst_conv)
next
  case (SetTarget t)
  then show ?thesis using inv_set_target[OF host inv, of t] by (simp split: prod.split) (metis fst_conv)
next
  case (Prefetch offset older screens)
  then show ?thesis by (simp add: inv_prefetch[OF host inv])
next
  case Invalidate
  have "cache_inv L real row_at ((drop_cached_rows c)\<lparr>vc_latest_anchor := None, vc_desired := 0\<rparr>)"
    by (intro inv_position inv_drop_rows inv) (simp add: position_ok_def)
  then show ?thesis using Invalidate by (simp add: invalidate_def cache_inv_def)
next
  case (CaptureLive cap rows nested)
  show ?thesis
  proof (cases "vc_latest_anchor c")
    case (Some a)
    moreover have "real a" using inv Some by (simp add: cache_inv_def position_ok_def)
    ultimately show ?thesis
      using inv_capture_at[OF inv] adm CaptureLive by (simp add: capture_live_def admissible_def)
  qed (use inv CaptureLive in \<open>simp add: capture_live_def\<close>)
qed (use inv adm in \<open>auto simp: admissible_def inv_observe inv_pin inv_capture_at inv_presented
    invalidate_rows_def commit_visible_presentation_def Let_def defer_pending_request_def
    intro!: inv_pending inv_pages pages_good_drop_pin inv_drop_rows split: option.splits\<close>)

lemma reachable_inv:
  assumes "host_history real row_at" "cache_reachable L real row_at c"
  shows "cache_inv L real row_at c"
  using assms(2)
proof induction
  case (step c i)
  then show ?case using inv_step[OF assms(1)] by blast
qed (simp_all add: cache_inv_def cache_new_def with_budget_def position_ok_def pages_good_new)

subsection \<open>Requests\<close>

lemma query_answerable:
  assumes "host_history real row_at" "query_ok real q" "query_is_valid q" "real a" "ha_revision (hq_anchor q) \<le> ha_revision a"
  shows "response_shape q a \<noteq> None"
proof -
  have "real (hq_anchor q)" using assms(2) by (simp add: query_ok_def)
  from host_anchor[OF assms(1) this] host_anchor[OF assms(1,4)] show ?thesis
    using assms(3,5) by (intro response_shape_total) simp_all
qed

text \<open>A request beyond the history of its anchor has no answer at any anchor.\<close>

lemma query_beyond_history:
  assumes "ha_max_offset (hq_anchor q) < hq_target_offset q"
  shows "\<not> query_is_valid q" "response_shape q a = None"
  using assms by (simp_all add: response_shape_def query_is_valid_def)

text \<open>The one input that asks for rows beyond the history of anchor \<open>a\<close>.\<close>

definition beyond_history :: "history_anchor \<Rightarrow> 'r cache_input \<Rightarrow> bool" where
  "beyond_history a i = (case i of
     Prefetch offset older screens \<Rightarrow> \<not> older \<and> ha_max_offset a + sz_rows (ha_viewport a) < offset
   | _ \<Rightarrow> False)"

text \<open>A request \<open>q\<close> leaves the cache as the pending one, at its latest anchor.\<close>

definition requests :: "history_query \<Rightarrow> 'r viewport_cache \<Rightarrow> bool" where
  "requests q c \<longleftrightarrow> vc_pending c = Some q \<and> vc_latest_anchor c = Some (hq_anchor q)"

lemma set_target_request:
  "set_target t c = (c', u) \<Longrightarrow> cu_request u = Some q \<Longrightarrow>
   requests q c' \<and> vc_pending c = None \<and> hq_target_offset q \<le> ha_max_offset (hq_anchor q)"
  by (auto simp: set_target_def requests_def Let_def split: option.splits if_splits)

lemma follow_request:
  "follow_latest_after_stale_response a c = (c', r) \<Longrightarrow> ci_request r = Some q \<Longrightarrow>
   requests q c' \<and> hq_target_offset q \<le> ha_max_offset (hq_anchor q)"
  by (auto simp: follow_latest_after_stale_response_def requests_def Let_def split: if_splits)

lemma store_window_request:
  assumes "store_window L cap w nested same_id latest desired c = (c', r)" "ci_request r = Some q"
  shows "requests q c' \<and> hq_target_offset q = desired \<and> hq_anchor q = latest"
proof -
  have "vc_latest_anchor c' = Some latest"
    using store_window_cases[of L cap w nested same_id latest desired c] assms(1) by auto
  moreover have "vc_pending c' = Some q \<and> hq_target_offset q = desired \<and> hq_anchor q = latest"
    using assms unfolding store_window_def Let_def split_beta by (simp split: if_splits) auto
  ultimately show ?thesis by (simp add: requests_def)
qed

lemma store_window_request_valid:
  "store_window L cap w nested same_id latest (min desired (ha_max_offset latest)) c = (c', r) \<Longrightarrow> ci_request r = Some q \<Longrightarrow>
   requests q c' \<and> hq_target_offset q \<le> ha_max_offset (hq_anchor q)"
  using store_window_request by fastforce

lemma install_request_pending:
  assumes "install_accounted_window L cap w nested c = (c', r)" "install_request r = Some q"
  shows "requests q c' \<and> hq_target_offset q \<le> ha_max_offset (hq_anchor q)"
    and "\<exists>p. vc_pending c = Some p \<and> window_is_valid_for w p"
  using assms
  by (auto simp: install_accounted_window_def install_request_def Let_def dest: follow_request store_window_request_valid
      split: option.splits if_splits prod.splits result.splits)

lemma reusable_beyond: "ha_max_offset latest < target \<Longrightarrow> reusable_target latest w target = None"
  by (auto simp: reusable_target_def target_in_window_coordinates_def checked_sub_def window_visible_rows_def
      window_visible_range_def split: if_splits)

lemma pages_find_beyond: "ha_max_offset latest < target \<Longrightarrow> pages_find ps latest target = None"
  by (simp add: pages_find_def last_reusable_None page_reusable_def reusable_beyond)

text \<open>Prefetching looks at the nearest screen first, and nothing is cached beyond the history.\<close>

lemma prefetch_scan_range:
  assumes "prefetch_scan c a offset older screens = Some target" "0 \<notin> set screens"
    "older \<or> offset \<le> ha_max_offset a + sz_rows (ha_viewport a)"
  shows "target \<le> ha_max_offset a"
  using assms
proof (induction screens)
  case (Cons screen screens)
  have "sz_rows (ha_viewport a) \<le> sz_rows (ha_viewport a) * screen" using Cons.prems(2) by (cases screen) auto
  then have "older \<or> offset - sz_rows (ha_viewport a) * screen \<le> ha_max_offset a" using Cons.prems(3) by linarith
  then have "prefetch_target a offset older screen \<le> ha_max_offset a" by (auto simp: prefetch_target_def Let_def)
  with Cons show ?case by (auto simp: Let_def split: if_splits)
qed simp

lemma prefetch_scan_beyond:
  assumes "vc_pages c \<noteq> None" "0 < sz_rows (ha_viewport a)" "ha_max_offset a + sz_rows (ha_viewport a) < offset"
  shows "prefetch_scan c a offset False (1 # screens) = Some (offset - sz_rows (ha_viewport a))"
  using assms by (auto simp: Let_def prefetch_target_def window_for_def pages_find_beyond)

lemma prefetch_screens: "[1..<Suc (max 2 (min screens 8))] = 1 # [2..<Suc (max 2 (min screens 8))]"
  by (subst upt_conv_Cons) (auto simp: numeral_2_eq_2)

lemma prefetch_request:
  assumes "prefetch_toward offset older screens c = (c', Some q)"
  shows "requests q c'" "vc_pending c = None"
    and "older \<or> offset \<le> ha_max_offset (hq_anchor q) + sz_rows (ha_viewport (hq_anchor q)) \<Longrightarrow>
      hq_target_offset q \<le> ha_max_offset (hq_anchor q)"
proof -
  from assms obtain a target where c: "vc_pending c = None" "vc_latest_anchor c = Some a"
    and scan: "prefetch_scan c a offset older [1..<Suc (max 2 (min screens 8))] = Some target"
    and q: "q = cache_make_query c a target" "c' = c\<lparr>vc_pending := Some q\<rparr>"
    by (auto simp: prefetch_toward_def Let_def split: option.splits)
  show "requests q c'" "vc_pending c = None" using c q by (simp_all add: requests_def)
  show "older \<or> offset \<le> ha_max_offset (hq_anchor q) + sz_rows (ha_viewport (hq_anchor q)) \<Longrightarrow>
      hq_target_offset q \<le> ha_max_offset (hq_anchor q)"
    using prefetch_scan_range[OF scan] q(1) by simp
qed

lemma prefetch_beyond:
  assumes "vc_pages c \<noteq> None" "vc_pending c = None" "vc_latest_anchor c = Some a" "0 < sz_rows (ha_viewport a)"
    "ha_max_offset a + sz_rows (ha_viewport a) < offset"
  shows "prefetch_toward offset False screens c =
    (c\<lparr>vc_pending := Some (cache_make_query c a (offset - sz_rows (ha_viewport a)))\<rparr>,
     Some (cache_make_query c a (offset - sz_rows (ha_viewport a))))"
  using assms prefetch_scan_beyond[OF assms(1,4,5)] unfolding prefetch_toward_def prefetch_screens
  by (auto simp: Let_def simp del: prefetch_scan.simps)

lemma step_request:
  assumes "cache_step L c i = (c', Some q)"
  shows "requests q c'"
    and "case vc_pending c of None \<Rightarrow> True
      | Some p \<Rightarrow> \<exists>cap w nested. i \<in> {Install cap w nested, InstallPlain cap w} \<and> window_is_valid_for w p"
    and "\<not> beyond_history (hq_anchor q) i \<Longrightarrow> hq_target_offset q \<le> ha_max_offset (hq_anchor q)"
proof -
  have "requests q c' \<and> (\<not> beyond_history (hq_anchor q) i \<longrightarrow> hq_target_offset q \<le> ha_max_offset (hq_anchor q)) \<and>
    (case vc_pending c of None \<Rightarrow> True
     | Some p \<Rightarrow> \<exists>cap w nested. i \<in> {Install cap w nested, InstallPlain cap w} \<and> window_is_valid_for w p)"
  proof (cases i)
    case (SetTarget t)
    with assms set_target_request show ?thesis by (fastforce split: prod.splits option.splits)
  next
    case (Install cap w nested)
    with assms obtain r where "install_accounted_window L cap w nested c = (c', r)" "install_request r = Some q"
      by (auto split: prod.splits)
    from install_request_pending[OF this] Install show ?thesis by auto
  next
    case (InstallPlain cap w)
    with assms obtain r where "install_accounted_window L cap w 0 c = (c', r)" "install_request r = Some q"
      by (auto simp: install_window_def install_request_def split: prod.splits if_splits)
    from install_request_pending[OF this] InstallPlain show ?thesis by auto
  next
    case (Prefetch offset older screens)
    with assms have "prefetch_toward offset older screens c = (c', Some q)" by simp
    from prefetch_request[OF this] Prefetch show ?thesis by (auto simp: beyond_history_def)
  qed (use assms in auto)
  then show "requests q c'"
    "case vc_pending c of None \<Rightarrow> True
      | Some p \<Rightarrow> \<exists>cap w nested. i \<in> {Install cap w nested, InstallPlain cap w} \<and> window_is_valid_for w p"
    "\<not> beyond_history (hq_anchor q) i \<Longrightarrow> hq_target_offset q \<le> ha_max_offset (hq_anchor q)"
    by blast+
qed

lemma step_request_beyond:
  assumes "host_history real row_at" "cache_inv L real row_at c" "cache_step L c i = (c', Some q)" "beyond_history (hq_anchor q) i"
  shows "ha_max_offset (hq_anchor q) < hq_target_offset q"
proof -
  from assms(4) obtain offset screens where i: "i = Prefetch offset False screens"
    and far: "ha_max_offset (hq_anchor q) + sz_rows (ha_viewport (hq_anchor q)) < offset"
    by (auto simp: beyond_history_def split: cache_input.splits)
  from assms(3) i have pre: "prefetch_toward offset False screens c = (c', Some q)" by simp
  then have c: "vc_pages c \<noteq> None" "vc_pending c = None" "vc_latest_anchor c = Some (hq_anchor q)"
    by (auto simp: prefetch_toward_def Let_def split: option.splits)
  have "real (hq_anchor q)" using assms(2) c(3) by (simp add: cache_inv_def position_ok_def)
  then have "0 < sz_rows (ha_viewport (hq_anchor q))" using host_anchor(1)[OF assms(1)] by (simp add: anchor_is_valid_def)
  from prefetch_beyond[OF c this far, of screens] pre have "hq_target_offset q = offset - sz_rows (ha_viewport (hq_anchor q))"
    by (metis cache_make_query_fields(2) option.inject prod.inject)
  with far show ?thesis by linarith
qed

text \<open>C35: the viewport cache has at most one request outstanding, and its requests can be answered.
  In every run with an honest host, a request that is issued is remembered as the pending one
  and names the latest anchor; it is issued only while no other request is outstanding, or as
  the follow-up of the valid answer to it.  Unless the request comes from prefetching towards
  newer rows from more than one screen beyond the retained history, it is valid and has an
  answer at every anchor the host may have reached by then.  In that one case it is invalid,
  and no anchor answers it.\<close>

theorem cache_requests_answerable:
  assumes "host_history real row_at" "cache_reachable L real row_at c" "admissible real row_at c i"
    and "cache_step L c i = (c', Some q)"
  shows "vc_pending c' = Some q \<and> vc_latest_anchor c' = Some (hq_anchor q) \<and>
    (case vc_pending c of None \<Rightarrow> True
     | Some p \<Rightarrow> \<exists>cap w nested. i \<in> {Install cap w nested, InstallPlain cap w} \<and> window_is_valid_for w p) \<and>
    (if beyond_history (hq_anchor q) i
     then \<not> query_is_valid q \<and> (\<forall>a. response_shape q a = None)
     else query_is_valid q \<and>
       (\<forall>a. real a \<and> ha_revision (hq_anchor q) \<le> ha_revision a \<longrightarrow> response_shape q a \<noteq> None))"
proof -
  have inv: "cache_inv L real row_at c" using assms(1,2) by (rule reachable_inv)
  have "cache_inv L real row_at c'" using inv_step[OF assms(1) inv assms(3)] assms(4) by simp
  with step_request(1)[OF assms(4)] have q: "query_ok real q" by (simp add: cache_inv_def requests_def)
  have "\<not> beyond_history (hq_anchor q) i \<Longrightarrow> query_is_valid q"
    using q step_request(3)[OF assms(4)] by (simp add: query_ok_def)
  then show ?thesis
    using step_request(1,2)[OF assms(4)] query_answerable[OF assms(1) q]
      query_beyond_history[OF step_request_beyond[OF assms(1) inv assms(4)]]
    by (auto simp: requests_def)
qed

subsection \<open>Answers\<close>

text \<open>The answer an honest host gives to a request at its current anchor.\<close>

definition history_answer :: "(history_anchor \<Rightarrow> int \<Rightarrow> 'r) \<Rightarrow> history_query \<Rightarrow> history_anchor \<Rightarrow> 'r cached_window option" where
  "history_answer row_at q a = map_option (\<lambda>sh.
     \<lparr>cw_disposition = rs_disposition sh, cw_anchor = a, cw_target_offset = rs_target_offset sh,
      cw_first_row = rs_first_row sh,
      cw_rows = map (\<lambda>k. row_at a (int (ha_max_offset a) + rs_first_row sh + int k)) [0..<rs_row_count sh]\<rparr>)
    (response_shape q a)"

lemma history_answer_fields:
  assumes "history_answer row_at q a = Some w"
  obtains sh where "response_shape q a = Some sh" "cw_disposition w = rs_disposition sh" "cw_anchor w = a"
    "cw_target_offset w = rs_target_offset sh" "cw_first_row w = rs_first_row sh" "length (cw_rows w) = rs_row_count sh"
  using assms by (auto simp: history_answer_def)

lemma answer_honest: "history_answer row_at q a = Some w \<Longrightarrow> real a \<Longrightarrow> honest_window real row_at w"
  by (auto simp: history_answer_def honest_window_def)

lemma answer_valid:
  assumes "host_history real row_at" "real a" "history_answer row_at q a = Some w"
  shows "window_is_valid_for w q"
proof -
  from assms(3) obtain sh where sh: "response_shape q a = Some sh" and w: "cw_disposition w = rs_disposition sh"
    "cw_anchor w = a" "cw_target_offset w = rs_target_offset sh" "cw_first_row w = rs_first_row sh"
    "length (cw_rows w) = rs_row_count sh"
    by (rule history_answer_fields)
  note a = host_anchor[OF assms(1,2)]
  have rows: "sz_rows (ha_viewport a) \<le> 80" using a(2) by (simp add: validate_surface_size_def split: if_splits)
  from response_shape_exact[OF sh] have s: "rs_target_offset sh \<le> ha_max_offset a"
    "- int (ha_max_offset a) \<le> rs_first_row sh"
    "rs_first_row sh + int (rs_row_count sh) \<le> int (sz_rows (ha_viewport a))"
    "rs_first_row sh \<le> - int (rs_target_offset sh)"
    "int (sz_rows (ha_viewport a)) - int (rs_target_offset sh) \<le> rs_first_row sh + int (rs_row_count sh)"
    "rs_row_count sh \<le> MAX_HISTORY_WINDOW_ROWS"
    by blast+
  have "end_row_exclusive w = Some (rs_first_row sh + int (rs_row_count sh))"
    using s a(3) w rows by (simp add: end_row_exclusive_def arith_defs MAX_HISTORY_WINDOW_ROWS_def)
  moreover have "window_visible_range w (rs_target_offset sh) \<noteq> None"
    using s a(3) w rows by (simp add: window_visible_range_def arith_defs MAX_HISTORY_WINDOW_ROWS_def)
  moreover have "sz_rows (ha_viewport a) \<le> rs_row_count sh" using s by linarith
  ultimately show ?thesis
    using s a w sh by (simp add: window_is_valid_for_def window_is_valid_def i64_try_from_def)
qed

lemma valid_window_covers:
  assumes "window_is_valid w"
  shows "target_in_window_coordinates (cw_anchor w) (cw_anchor w) (cw_target_offset w) = Some (cw_target_offset w)"
    and "window_visible_rows w (cw_target_offset w) \<noteq> None"
proof -
  show "target_in_window_coordinates (cw_anchor w) (cw_anchor w) (cw_target_offset w) = Some (cw_target_offset w)"
    by (simp add: target_in_window_coordinates_def)
  from assms obtain s e where "window_visible_range w (cw_target_offset w) = Some (s, e)"
    by (auto simp: window_is_valid_def split: option.splits)
  with window_visible_range_Some[OF this] show "window_visible_rows w (cw_target_offset w) \<noteq> None"
    by (simp add: window_visible_rows_def slice_get_def)
qed

lemma find_new_page:
  assumes "reusable_target latest w target = Some offset"
  shows "pages_find \<lparr>ps_budget = b, ps_capacity = n, ps_entries = ps @ [new_page L cap w nested]\<rparr> latest target = Some (w, offset)"
proof -
  let ?p = "new_page L cap w nested"
  have "last_reusable latest target (ps @ [?p]) = Some (length ps)"
    using assms by (induction ps) (simp_all add: page_reusable_def new_page_def)
  with assms show ?thesis by (simp add: pages_find_def new_page_def)
qed

text \<open>There is room for a window in the single slot always, in the page store when it fits.\<close>

definition window_fits :: "page_layout \<Rightarrow> nat \<Rightarrow> 'r cached_window \<Rightarrow> nat \<Rightarrow> 'r viewport_cache \<Rightarrow> bool" where
  "window_fits L cap w nested c = (case vc_pages c of None \<Rightarrow> True | Some ps \<Rightarrow> page_fits L cap w nested ps)"

lemma page_fits_discard [simp]: "page_fits L cap w nested (discard_unpinned ps) = page_fits L cap w nested ps"
  by (simp add: page_fits_def discard_unpinned_def shrink_to_fit_def pinned_pages_def)

text \<open>A page that was just inserted is found first.\<close>

lemma insert_then_find:
  assumes "pages_ok L ps" "pages_insert L cap w nested ps = (qs, True)" "reusable_target latest w target = Some offset"
  shows "pages_find qs latest target = Some (w, offset)"
proof -
  have "pages_insert L cap w nested (store (ps_budget ps) (ps_entries ps)) = (qs, True)"
    using assms(1,2) pages_ok_store by metis
  from pages_insert_store[OF this] find_new_page[OF assms(3)] show ?thesis by (auto simp: store_def)
qed

text \<open>A window that is stored at its own anchor and target is shown exactly when there is room for it.\<close>

lemma store_window_presents:
  assumes "window_is_valid w" "store_window L cap w nested same_id (cw_anchor w) (cw_target_offset w) c = (c', r)"
    "cache_inv L real row_at c" "honest_window real row_at w"
  shows "ci_capacity_rejected r \<longleftrightarrow> \<not> window_fits L cap w nested c"
    and "window_fits L cap w nested c \<Longrightarrow> ci_render_local r \<and> visible_rows c' = Some (host_view row_at (cw_anchor w) (cw_target_offset w))"
    and "ci_request r = None"
proof -
  let ?t = "cw_target_offset w" and ?a = "cw_anchor w"
  note covers = valid_window_covers[OF assms(1)]
  have view: "window_visible_rows w ?t = Some (host_view row_at ?a ?t)"
    using covers(2) honest_visible[OF assms(4)] by fastforce
  have "(ci_capacity_rejected r \<longleftrightarrow> \<not> window_fits L cap w nested c) \<and> ci_request r = None \<and>
    (window_fits L cap w nested c \<longrightarrow> ci_render_local r \<and> visible_rows c' = Some (host_view row_at ?a ?t))"
  proof (cases "vc_pages c")
    case None
    with assms(2) covers view show ?thesis
      by (auto simp: store_window_def Let_def window_fits_def visible_rows_def window_for_def)
  next
    case (Some ps)
    let ?ps = "if same_id then ps else discard_unpinned ps"
    obtain qs okay where ins: "pages_insert L cap w nested ?ps = (qs, okay)" by fastforce
    have ok: "pages_ok L ?ps" using assms(3) Some by (simp add: cache_inv_def pages_good_def pages_ok_discard)
    have fits: "okay \<longleftrightarrow> window_fits L cap w nested c"
      using pages_insert_fits[OF ok ins] Some by (simp add: window_fits_def split: if_splits)
    have "reusable_target ?a w ?t = Some ?t" using covers by (auto simp: reusable_target_def)
    from insert_then_find[OF ok _ this] ins have "okay \<Longrightarrow> pages_find qs ?a ?t = Some (w, ?t)" by simp
    then have "okay \<Longrightarrow> visible_rows (c\<lparr>vc_latest_anchor := Some ?a, vc_desired := ?t, vc_pages := Some qs\<rparr>) = Some (host_view row_at ?a ?t)"
      using view by (simp add: visible_rows_def window_for_def)
    with assms(2) Some ins fits show ?thesis
      by (cases okay) (auto simp: store_window_def Let_def split: if_splits)
  qed
  then show "ci_capacity_rejected r \<longleftrightarrow> \<not> window_fits L cap w nested c"
    "window_fits L cap w nested c \<Longrightarrow> ci_render_local r \<and> visible_rows c' = Some (host_view row_at ?a ?t)"
    "ci_request r = None" by blast+
qed

lemma install_unchanged:
  assumes host: "host_history real row_at" and "real (hq_anchor q)" "real a" "ha_revision (hq_anchor q) \<le> ha_revision a"
    and w: "window_is_valid_for w q" "cw_anchor w = a"
    and c: "vc_pending c = Some q" "vc_latest_anchor c = Some (hq_anchor q)" "vc_desired c = hq_target_offset q"
  shows "\<exists>same_id c' r. store_window L cap w nested same_id a (cw_target_offset w) (c\<lparr>vc_pending := None\<rparr>) = (c', r) \<and>
    install_accounted_window L cap w nested c = (c', Ok r)"
proof -
  let ?p = "hq_anchor q"
  let ?same = "ha_epoch ?p = ha_epoch a \<and> ha_viewport ?p = ha_viewport a"
  have equal: "a = ?p" if "ha_revision a \<le> ha_revision ?p"
    using host_anchor_unique[OF host assms(3,2)] assms(4) that by simp
  have target: "cw_target_offset w \<le> ha_max_offset a" using w by (auto simp: window_is_valid_for_def window_is_valid_def)
  have fresh: "\<not> ((\<not> ?same \<and> \<not> ha_revision a > ha_revision ?p) \<or>
      (?same \<and> ha_max_offset a > ha_max_offset ?p \<and> ha_revision a \<le> ha_revision ?p))"
    using equal by (auto simp: not_less)
  have resolve: "resolve_latest q w ?p (hq_target_offset q) = (a, cw_target_offset w)"
  proof (cases "?same \<and> ha_revision a \<le> ha_revision ?p \<and> ha_max_offset a \<le> ha_max_offset ?p")
    case True
    then have "a = ?p" using equal by blast
    moreover from w obtain sh where "response_shape q a = Some sh" "cw_target_offset w = rs_target_offset sh"
      by (auto simp: window_is_valid_for_def split: option.splits)
    ultimately have "cw_target_offset w = hq_target_offset q"
      using response_shape_exact[of q a sh] by (auto simp: same_identity_def)
    with True \<open>a = ?p\<close> w(2) show ?thesis by (simp add: resolve_latest_def)
  next
    case False
    with w(2) show ?thesis by (auto simp: resolve_latest_def Let_def)
  qed
  obtain c' r where st: "store_window L cap w nested ?same a (cw_target_offset w) (c\<lparr>vc_pending := None\<rparr>) = (c', r)"
    by fastforce
  have "install_accounted_window L cap w nested c = (c', Ok r)"
    using w c resolve target st unfolding install_accounted_window_def Let_def
    by (simp add: min_absorb1) (use fresh in blast)
  with st show ?thesis by blast
qed

lemma install_Ok:
  "vc_pending c = Some q \<Longrightarrow> window_is_valid_for w q \<Longrightarrow> \<exists>r. snd (install_accounted_window L cap w nested c) = Ok r"
  by (simp add: install_accounted_window_def Let_def split_beta)

lemma store_window_position:
  assumes "store_window L cap w nested same_id latest desired c = (c', r)"
  shows "vc_latest_anchor c' = Some latest" "vc_desired c' = desired"
  using store_window_cases[of L cap w nested same_id latest desired c] assms by auto

lemma store_window_pending:
  assumes "store_window L cap w nested same_id latest desired c = (c', r)" "ci_request r = None" "vc_pending c = None"
  shows "vc_pending c' = None"
proof (cases "vc_pages c")
  case (Some ps)
  obtain qs okay where "pages_insert L cap w nested (if same_id then ps else discard_unpinned ps) = (qs, okay)"
    by fastforce
  with Some assms show ?thesis by (auto simp: store_window_def Let_def split: if_splits)
qed (use assms in \<open>auto simp: store_window_def Let_def split: if_splits\<close>)

text \<open>C34: the viewport cache makes progress.  Whatever happened since a valid request was issued,
  the host has an answer to it at any later anchor, and the cache accepts that answer.  If
  neither the latest anchor nor the wanted offset changed in the meantime, the cache is then at
  the anchor and the offset of the answer, with no request outstanding, and it shows exactly
  the viewport the host has there.  The only exception is a cache with pages in which the
  answer does not fit: it exceeds the budget by itself or together with the pinned pages.  Then,
  and only then, the capacity is reported as exhausted.  Requests from beyond the history,
  which are invalid, are not covered.\<close>

theorem honest_answer_accepted:
  assumes "host_history real row_at" "cache_reachable L real row_at c" "vc_pending c = Some q" "query_is_valid q"
    and "real a" "ha_revision (hq_anchor q) \<le> ha_revision a"
  shows "\<exists>w c' r. history_answer row_at q a = Some w \<and> install_accounted_window L cap w nested c = (c', Ok r) \<and>
    (vc_latest_anchor c = Some (hq_anchor q) \<and> vc_desired c = hq_target_offset q \<longrightarrow>
      vc_pending c' = None \<and> vc_latest_anchor c' = Some a \<and> vc_desired c' = cw_target_offset w \<and>
      (if window_fits L cap w nested c
       then ci_render_local r \<and> \<not> ci_capacity_rejected r \<and> visible_rows c' = Some (host_view row_at a (cw_target_offset w))
       else ci_capacity_rejected r))"
proof -
  have inv: "cache_inv L real row_at c" using assms(1,2) by (rule reachable_inv)
  then have q: "query_ok real q" using assms(3) by (simp add: cache_inv_def)
  obtain w where w: "history_answer row_at q a = Some w"
    using query_answerable[OF assms(1) q assms(4,5,6)] by (auto simp: history_answer_def)
  have valid: "window_is_valid_for w q" using assms(1,5) w by (rule answer_valid)
  have anchor: "cw_anchor w = a" using w by (auto simp: history_answer_def)
  obtain c' r where ins: "install_accounted_window L cap w nested c = (c', Ok r)"
    using install_Ok[OF assms(3) valid] by (metis prod.collapse)
  have "vc_pending c' = None \<and> vc_latest_anchor c' = Some a \<and> vc_desired c' = cw_target_offset w \<and>
      (if window_fits L cap w nested c
       then ci_render_local r \<and> \<not> ci_capacity_rejected r \<and> visible_rows c' = Some (host_view row_at a (cw_target_offset w))
       else ci_capacity_rejected r)"
    if "vc_latest_anchor c = Some (hq_anchor q)" "vc_desired c = hq_target_offset q"
  proof -
    have "real (hq_anchor q)" using q by (simp add: query_ok_def)
    from install_unchanged[OF assms(1) this assms(5,6) valid anchor assms(3) that, of L cap nested] ins
    obtain same_id where st: "store_window L cap w nested same_id (cw_anchor w) (cw_target_offset w) (c\<lparr>vc_pending := None\<rparr>) = (c', r)"
      using anchor by auto
    have inv': "cache_inv L real row_at (c\<lparr>vc_pending := None\<rparr>)" using inv by (intro inv_pending) simp_all
    have "honest_window real row_at w" using w assms(5) by (rule answer_honest)
    note shown = store_window_presents[OF _ st inv' this]
    have "window_is_valid w" using valid by (simp add: window_is_valid_for_def)
    from shown[OF this] store_window_pending[OF st] store_window_position[OF st] anchor show ?thesis
      by (simp add: window_fits_def)
  qed
  with w ins show ?thesis by blast
qed

subsection \<open>What is shown\<close>

lemma visible_rows_from:
  assumes "visible_rows c = Some rs"
  obtains latest w offset where "vc_latest_anchor c = Some latest"
    "window_for c latest (vc_desired c) = Some (w, offset)" "window_visible_rows w offset = Some rs"
  using assms by (auto simp: visible_rows_def bind_eq_Some_conv)

lemma pages_find_Some:
  assumes "pages_find ps latest target = Some (w, offset)"
  shows "w \<in> page_windows ps \<and> reusable_target latest w target = Some offset"
  using assms by (auto simp: pages_find_def bind_eq_Some_conv page_windows_def dest!: last_reusable_Some)

text \<open>C33: the viewport cache shows the host's rows.  In every run with an honest host, a viewport
  served from the pages is exactly the viewport the host has at the latest anchor and the
  wanted offset; a viewport served from the single window is exactly what the host had there
  at the anchor of the window, and what it still has once the viewport lies in history.\<close>

theorem cache_view_exact:
  assumes "host_history real row_at" "cache_reachable L real row_at c" "visible_rows c = Some rs"
  shows "\<exists>latest. vc_latest_anchor c = Some latest \<and> real latest \<and>
    (if vc_pages c \<noteq> None then rs = host_view row_at latest (vc_desired c)
     else \<exists>snapshot offset. real snapshot \<and> ha_epoch snapshot = ha_epoch latest \<and> ha_viewport snapshot = ha_viewport latest \<and>
       int (ha_max_offset latest) - int (vc_desired c) = int (ha_max_offset snapshot) - int offset \<and>
       rs = host_view row_at snapshot offset \<and>
       (sz_rows (ha_viewport latest) \<le> offset \<longrightarrow> rs = host_view row_at latest (vc_desired c)))"
proof -
  have inv: "cache_inv L real row_at c" using assms(1,2) by (rule reachable_inv)
  from assms(3) obtain latest w offset where latest: "vc_latest_anchor c = Some latest"
    and win: "window_for c latest (vc_desired c) = Some (w, offset)" and rs: "window_visible_rows w offset = Some rs"
    by (rule visible_rows_from)
  have real: "real latest" using inv latest by (simp add: cache_inv_def position_ok_def)
  show ?thesis
  proof (cases "vc_pages c")
    case (Some ps)
    with win have "w \<in> page_windows ps" "reusable_target latest w (vc_desired c) = Some offset"
      by (auto simp: window_for_def dest: pages_find_Some)
    moreover have "honest_window real row_at w"
      using inv Some \<open>w \<in> page_windows ps\<close> by (simp add: cache_inv_def pages_good_def)
    ultimately show ?thesis using reusable_exact[OF assms(1) real _ _ rs] latest real Some by auto
  next
    case None
    with win have w: "honest_window real row_at w"
      and coord: "target_in_window_coordinates latest (cw_anchor w) (vc_desired c) = Some offset"
      using inv by (auto simp: window_for_def cache_inv_def bind_eq_Some_conv)
    have wreal: "real (cw_anchor w)" using w by (simp add: honest_window_def)
    note c = target_in_window_Some[OF coord]
    have view: "rs = host_view row_at (cw_anchor w) offset" using w rs by (rule honest_visible)
    have "host_view row_at (cw_anchor w) offset = host_view row_at latest (vc_desired c)"
      if "sz_rows (ha_viewport latest) \<le> offset"
      using that c by (intro host_view_cong history_rows_agree[OF assms(1) wreal real]) auto
    with view have "sz_rows (ha_viewport latest) \<le> offset \<longrightarrow> rs = host_view row_at latest (vc_desired c)" by simp
    with view c(1-3) wreal show ?thesis
      using latest real None by (intro exI[of _ latest]) (simp, intro exI[of _ "cw_anchor w"] exI[of _ offset], simp)
  qed
qed

subsection \<open>An example run\<close>

definition demo_at :: "nat \<Rightarrow> history_anchor" where
  "demo_at n = \<lparr>ha_epoch = 1, ha_revision = n, ha_max_offset = n, ha_viewport = \<lparr>sz_rows = 2, sz_columns = 4\<rparr>\<rparr>"

definition demo_real :: "history_anchor \<Rightarrow> bool" where
  "demo_real a \<longleftrightarrow> 1 \<le> ha_revision a \<and> ha_revision a < 2 ^ 31 \<and> a = demo_at (ha_revision a)"

definition demo_rows :: "history_anchor \<Rightarrow> int \<Rightarrow> int" where "demo_rows a n = n"

lemma demo_host: "host_history demo_real demo_rows"
  unfolding host_history_def demo_real_def demo_rows_def
proof (intro conjI allI impI, goal_cases)
  case (1 a)
  then have "1 \<le> ha_revision a" by blast
  then have "anchor_is_valid (demo_at (ha_revision a))" by (simp add: anchor_is_valid_def demo_at_def)
  with 1 show ?case by metis
next
  case (2 a)
  have "validate_surface_size (ha_viewport (demo_at (ha_revision a))) = Ok ()"
    by (simp add: validate_surface_size_def demo_at_def)
  with 2 show ?case by metis
next
  case (3 a)
  have "ha_max_offset (demo_at (ha_revision a)) = ha_revision a" by (simp add: demo_at_def)
  with 3 show ?case by metis
next
  case (4 a b)
  then show ?case by metis
next
  case (5 a b)
  have "ha_max_offset (demo_at n) = n" for n by (simp add: demo_at_def)
  with 5 show ?case by metis
qed simp

lemma demo_real_at [simp]: "demo_real (demo_at 9)" "demo_real (demo_at 10)"
  by (simp_all add: demo_real_def demo_at_def)

definition demo_budget :: cache_budget where "demo_budget = \<lparr>cb_rows = 100, cb_bytes = 10000\<rparr>"

definition demo_observed :: "int viewport_cache" where
  "demo_observed = (with_budget demo_budget)\<lparr>vc_latest_anchor := Some (demo_at 9)\<rparr>"

definition demo_request :: history_query where
  "demo_request = \<lparr>hq_anchor = demo_at 9, hq_target_offset = 5, hq_older_margin = 2, hq_newer_margin = 2\<rparr>"

definition demo_waiting :: "int viewport_cache" where
  "demo_waiting = demo_observed\<lparr>vc_desired := 5, vc_pending := Some demo_request\<rparr>"

lemma demo_observe: "cache_step demo_layout (with_budget demo_budget) (Observe (demo_at 9)) = (demo_observed, None)"
  by (simp add: observe_anchor_def commit_anchor_observation_def preview_anchor_observation_def anchor_is_valid_def
      demo_at_def with_budget_def cache_new_def demo_observed_def)

lemma demo_set_target: "cache_step demo_layout demo_observed (SetTarget 5) = (demo_waiting, Some demo_request)"
  by (simp add: set_target_def Let_def demo_observed_def demo_waiting_def demo_request_def with_budget_def cache_new_def
      pages_new_def pages_touch_def visible_rows_def window_for_def pages_find_def cache_make_query_def make_query_def
      u64_sub_def demo_at_def)

lemma demo_observed_reachable: "cache_reachable demo_layout demo_real demo_rows demo_observed"
proof -
  have "cache_reachable demo_layout demo_real demo_rows
      (fst (cache_step demo_layout (with_budget demo_budget) (Observe (demo_at 9))))"
    by (rule cache_reachable.step[OF cache_reachable.paged]) (simp add: admissible_def)
  then show ?thesis by (simp only: demo_observe fst_conv)
qed

lemma demo_waiting_reachable: "cache_reachable demo_layout demo_real demo_rows demo_waiting"
proof -
  have "cache_reachable demo_layout demo_real demo_rows (fst (cache_step demo_layout demo_observed (SetTarget 5)))"
    by (rule cache_reachable.step[OF demo_observed_reachable]) (simp add: admissible_def)
  then show ?thesis by (simp only: demo_set_target fst_conv)
qed

lemma demo_answer_rows: "history_answer demo_rows demo_request (demo_at 10) = Some w \<Longrightarrow> length (cw_rows w) = 6"
  by (auto simp: history_answer_def response_shape_def shape_rows_def same_identity_def demo_request_def demo_at_def
      query_is_valid_def anchor_is_valid_def MAX_HISTORY_WINDOW_ROWS_def arith_defs Let_def)

theorem cache_requests_answerable_witness: "response_shape demo_request (demo_at 10) \<noteq> None"
  using cache_requests_answerable[OF demo_host demo_observed_reachable _ demo_set_target]
  by (auto simp: admissible_def beyond_history_def demo_request_def demo_at_def demo_real_def)

theorem honest_answer_accepted_witness:
  "\<exists>w c' r. history_answer demo_rows demo_request (demo_at 10) = Some w \<and>
    install_accounted_window demo_layout 6 w 0 demo_waiting = (c', Ok r) \<and> vc_pending c' = None \<and>
    visible_rows c' = Some (host_view demo_rows (demo_at 10) (cw_target_offset w))"
proof -
  have "vc_pending demo_waiting = Some demo_request" "vc_latest_anchor demo_waiting = Some (hq_anchor demo_request)"
    "vc_desired demo_waiting = hq_target_offset demo_request" "ha_revision (hq_anchor demo_request) \<le> ha_revision (demo_at 10)"
    "query_is_valid demo_request"
    by (simp_all add: demo_waiting_def demo_request_def demo_observed_def demo_at_def query_is_valid_def anchor_is_valid_def
        checked_add_def saturating_mul_def)
  moreover have "window_fits demo_layout 6 w 0 demo_waiting" if "history_answer demo_rows demo_request (demo_at 10) = Some w" for w
    using that
    by (auto simp: window_fits_def demo_waiting_def demo_observed_def with_budget_def cache_new_def pages_new_def page_fits_def
        within_budget_def pages_usage_eq new_page_def page_bytes_def demo_layout_def demo_budget_def saturating_add_def
        saturating_mul_def demo_answer_rows)
  ultimately show ?thesis
    using honest_answer_accepted[OF demo_host demo_waiting_reachable _ _ demo_real_at(2), of demo_request 6 0] by fastforce
qed

definition demo_captured :: "int viewport_cache" where
  "demo_captured = fst (cache_step demo_layout demo_observed (CaptureLive 2 [9, 10] 0))"

lemma demo_captured_reachable: "cache_reachable demo_layout demo_real demo_rows demo_captured"
  unfolding demo_captured_def
  by (rule cache_reachable.step[OF demo_observed_reachable])
    (simp add: admissible_def demo_observed_def host_view_def demo_at_def demo_rows_def upt_rec)

lemma demo_captured_rows: "visible_rows demo_captured = Some [9, 10]" "vc_pages demo_captured \<noteq> None"
  by (simp_all add: demo_captured_def capture_live_def capture_live_at_def demo_observed_def with_budget_def cache_new_def
      pages_insert_def Let_def pages_new_def make_room.simps room_for_def pages_usage_def usage_add_def page_bytes_def
      demo_layout_def demo_budget_def reserve_exact_def saturating_add_def saturating_mul_def anchor_is_valid_def demo_at_def
      pages_pin_def page_reusable_def reusable_target_def target_in_window_coordinates_def window_visible_rows_def
      window_visible_range_def slice_get_def i64_try_from_def i64_checked_def in_i64_def u64_try_from_def checked_add_def
      checked_sub_def add_pin_def visible_rows_def window_for_def pages_find_def)

theorem cache_view_exact_witness: "[9, 10] = host_view demo_rows (demo_at 9) 0"
  using cache_view_exact[OF demo_host demo_captured_reachable demo_captured_rows(1)] demo_captured_rows(2)
  by (auto simp: host_view_def demo_rows_def demo_at_def upt_rec)

subsection \<open>Prefetching from beyond the history\<close>

text \<open>C40: \<open>prefetch_toward\<close> clamps the target towards older rows only.  Towards newer rows, from
  more than one screen beyond the retained history, it always issues a request, its target is
  still beyond the history, so it is invalid and has no answer at any anchor; and while it is
  pending every window is refused and no request for the wanted offset is issued.\<close>

theorem prefetch_beyond_history:
  assumes "vc_pages c \<noteq> None" "vc_pending c = None" "vc_latest_anchor c = Some a" "anchor_is_valid a"
    and "ha_max_offset a + sz_rows (ha_viewport a) < offset"
  shows "\<exists>q c'. prefetch_toward offset False screens c = (c', Some q) \<and>
    hq_anchor q = a \<and> hq_target_offset q = offset - sz_rows (ha_viewport a) \<and>
    \<not> query_is_valid q \<and> (\<forall>b. response_shape q b = None) \<and>
    (\<forall>L cap w nested. install_accounted_window L cap w nested c' = (c', Err w)) \<and>
    (\<forall>t. cu_request (snd (set_target t c')) = None)"
proof -
  let ?q = "cache_make_query c a (offset - sz_rows (ha_viewport a))"
  let ?c' = "c\<lparr>vc_pending := Some ?q\<rparr>"
  have far: "ha_max_offset (hq_anchor ?q) < hq_target_offset ?q" using assms(5) by simp
  have "prefetch_toward offset False screens c = (?c', Some ?q)"
    using assms by (intro prefetch_beyond) (simp_all add: anchor_is_valid_def)
  moreover have "install_accounted_window L cap w nested ?c' = (?c', Err w)" for L cap w nested
    using query_beyond_history(2)[OF far] by (simp add: install_accounted_window_def window_is_valid_for_def)
  moreover have "cu_request (snd (set_target t ?c')) = None" for t
    using assms(3) by (simp add: set_target_def Let_def)
  ultimately show ?thesis
    using query_beyond_history[OF far] by (intro exI[of _ ?q] exI[of _ ?c']) simp
qed

theorem prefetch_beyond_history_witness:
  "\<exists>q c'. prefetch_toward 12 False 2 demo_observed = (c', Some q) \<and> hq_target_offset q = 10 \<and> (\<forall>b. response_shape q b = None)"
  using prefetch_beyond_history[of demo_observed "demo_at 9" 12 2]
  by (auto simp: demo_observed_def with_budget_def demo_at_def anchor_is_valid_def cache_new_def)

end
