(* ===== verification/Session_Replay.thy ===== *)
theory Session_Replay
  imports Operation_Window Domain_Errors Terminal_Surface "HOL-Library.Product_Lexorder"
begin

section \<open>Replay of session operations\<close>

text \<open>
  The replay registry of \<open>daemon/src/session.rs\<close>.  The daemon issues operation leases to
  principals; every mutation of a session carries a lease and a sequence number, and is
  registered before it runs.  A repeated request joins the execution of the first, whose
  result it waits for, and results that were given up are refused for ever.

  Operation cells are shared (\<open>Arc\<close>), so they live in a list of cells addressed by their
  index.  Errors are the kinds of \<open>DaemonError\<close> without their texts.  A poisoned lock, which
  takes a panic inside one of the sections below, is not modelled.

  The results: no operation runs twice, in whatever order requests, retries, completions
  and new leases come; a retry joins the execution of the same request; memory is bounded;
  and a lease can be issued whenever no operation is in flight.
\<close>

subsection \<open>State\<close>

definition OPERATION_RESULTS_PER_EPOCH :: nat where "OPERATION_RESULTS_PER_EPOCH = 128"
definition MAX_ACTIVE_OPERATION_EPOCHS :: nat where "MAX_ACTIVE_OPERATION_EPOCHS = 64"
definition MAX_REPLAY_PRINCIPALS :: nat where "MAX_REPLAY_PRINCIPALS = 64"

type_synonym path = "byte list"

datatype operation_fingerprint =
    FingerprintCreate color_profile session_name "path option" "terminal_size option"
  | FingerprintRename session_id session_name
  | FingerprintClose session_id
  | FingerprintTakeover session_id

type_synonym replay_principal = "device_id \<times> nat"
type_synonym replay_key = "replay_principal \<times> nat"

fun replay_principal_of :: "attachment_principal \<Rightarrow> replay_principal" where
  "replay_principal_of (LocalSameUid own_device_id view) = (own_device_id, 0)"
| "replay_principal_of (RemoteEndpoint device auth_generation) = (device, auth_generation)"

definition replay_key_new :: "attachment_principal \<Rightarrow> nat \<Rightarrow> replay_key" where
  "replay_key_new owner lease_ordinal = (replay_principal_of owner, lease_ordinal)"

record 'r op_cell =
  oc_fingerprint :: operation_fingerprint
  oc_result :: "'r option"

record replay_epoch =
  ep_low_water :: nat
  ep_operations :: "(nat, nat) bmap"

record replay_epoch_entry =
  re_epoch :: replay_epoch
  re_last_access :: nat

record 'r replay_registry =
  rg_incarnation :: daemon_incarnation
  rg_epochs :: "(replay_key, replay_epoch_entry) bmap"
  rg_retired_through :: "(replay_principal, nat) bmap"
  rg_issued_through :: "(replay_principal, nat) bmap"
  rg_access_clock :: nat
  rg_cells :: "'r op_cell list"

datatype replay_registration = ReplayExecute nat | ReplayJoin nat

definition replay_registry_new :: "daemon_incarnation \<Rightarrow> 'r replay_registry" where
  "replay_registry_new incarnation = \<lparr>rg_incarnation = incarnation, rg_epochs = [], rg_retired_through = [],
     rg_issued_through = [], rg_access_clock = 0, rg_cells = []\<rparr>"

subsection \<open>Cells and epochs\<close>

definition op_cell_new :: "operation_fingerprint \<Rightarrow> 'r op_cell" where
  "op_cell_new fingerprint = \<lparr>oc_fingerprint = fingerprint, oc_result = None\<rparr>"

definition op_cell_complete :: "'r \<Rightarrow> 'r op_cell \<Rightarrow> 'r op_cell" where
  "op_cell_complete r c = (if oc_result c = None then c\<lparr>oc_result := Some r\<rparr> else c)"

definition cell_is_complete :: "'r op_cell list \<Rightarrow> nat \<Rightarrow> bool" where
  "cell_is_complete cells a \<longleftrightarrow> oc_result (cells ! a) \<noteq> None"

text \<open>The eviction loop of \<open>ReplayEpoch::register\<close>: the flag is \<open>False\<close> when the oldest
  operation is still in flight.\<close>

fun evict_operations :: "'r op_cell list \<Rightarrow> nat \<Rightarrow> (nat, nat) bmap \<Rightarrow> nat \<times> (nat, nat) bmap \<times> bool" where
  "evict_operations cells low [] = (low, [], True)"
| "evict_operations cells low ((oldest, a) # operations) =
    (if length ((oldest, a) # operations) < OPERATION_RESULTS_PER_EPOCH then (low, (oldest, a) # operations, True)
     else if \<not> cell_is_complete cells a then (low, (oldest, a) # operations, False)
     else evict_operations cells (max low (saturating_add U64_MAX oldest 1)) operations)"

definition epoch_register :: "'r op_cell list \<Rightarrow> nat \<Rightarrow> operation_fingerprint \<Rightarrow> replay_epoch \<Rightarrow>
    ('r op_cell list \<times> replay_epoch) \<times> (replay_registration, domain_error_kind) result" where
  "epoch_register cells sqn fingerprint ep =
    (case bt_get (ep_operations ep) sqn of
       Some a \<Rightarrow>
         if oc_fingerprint (cells ! a) \<noteq> fingerprint then ((cells, ep), Err OperationOutcomeUnknown)
         else ((cells, ep), Ok (ReplayJoin a))
     | None \<Rightarrow>
         if sqn = 0 \<or> sqn < ep_low_water ep then ((cells, ep), Err OperationOutcomeUnknown)
         else case evict_operations cells (ep_low_water ep) (ep_operations ep) of
           (low, operations, False) \<Rightarrow>
             ((cells, \<lparr>ep_low_water = low, ep_operations = operations\<rparr>), Err ResourceExhausted)
         | (low, operations, True) \<Rightarrow>
             ((cells @ [op_cell_new fingerprint],
               \<lparr>ep_low_water = low, ep_operations = bt_insert sqn (length cells) operations\<rparr>),
              Ok (ReplayExecute (length cells))))"

definition epoch_is_fully_complete :: "'r op_cell list \<Rightarrow> replay_epoch \<Rightarrow> bool" where
  "epoch_is_fully_complete cells ep \<longleftrightarrow> list_all (\<lambda>(_, a). cell_is_complete cells a) (ep_operations ep)"

subsection \<open>Leases\<close>

text \<open>\<open>next_access\<close> renumbers the epochs in order of their last access when the clock is
  exhausted.\<close>

definition renumber :: "(replay_key, replay_epoch_entry) bmap \<Rightarrow> (replay_key, replay_epoch_entry) bmap" where
  "renumber epochs =
    (let order = sort_key snd (map (\<lambda>(key, entry). (key, re_last_access entry)) epochs) in
     foldl (\<lambda>es (index, key, _). case bt_get es key of None \<Rightarrow> es
         | Some entry \<Rightarrow> bt_insert key (entry\<lparr>re_last_access := index\<rparr>) es)
       epochs (enumerate 0 order))"

definition next_access :: "'r replay_registry \<Rightarrow> nat \<times> 'r replay_registry" where
  "next_access reg =
    (let reg = (if rg_access_clock reg = U64_MAX
          then reg\<lparr>rg_epochs := renumber (rg_epochs reg), rg_access_clock := length (rg_epochs reg)\<rparr>
          else reg);
         clock = rg_access_clock reg + 1
     in (clock, reg\<lparr>rg_access_clock := clock\<rparr>))"

definition prefix_complete :: "'r replay_registry \<Rightarrow> replay_key \<Rightarrow> bool" where
  "prefix_complete reg key \<longleftrightarrow> list_all (\<lambda>(active, entry).
     \<not> (fst active = fst key \<and> snd active \<le> snd key \<and> \<not> epoch_is_fully_complete (rg_cells reg) (re_epoch entry)))
     (rg_epochs reg)"

definition better_candidate :: "'r replay_registry \<Rightarrow> (replay_key \<times> nat) option \<Rightarrow> replay_key \<times> replay_epoch_entry \<Rightarrow>
    (replay_key \<times> nat) option" where
  "better_candidate reg current_best entry = (case entry of (key, e) \<Rightarrow>
     if prefix_complete reg key \<and> (case current_best of None \<Rightarrow> True | Some (_, access) \<Rightarrow> re_last_access e < access)
     then Some (key, re_last_access e) else current_best)"

definition retire_one :: "'r replay_registry \<Rightarrow> 'r replay_registry \<times> (unit, domain_error_kind) result" where
  "retire_one reg =
    (case foldl (better_candidate reg) None (rg_epochs reg) of
       None \<Rightarrow> (reg, Err ResourceExhausted)
     | Some (key, _) \<Rightarrow>
         let before = (case bt_get (rg_retired_through reg) (fst key) of Some n \<Rightarrow> n | None \<Rightarrow> 0);
             retirement_floor = max before (snd key)
         in (reg\<lparr>rg_retired_through := bt_insert (fst key) retirement_floor (rg_retired_through reg),
                 rg_epochs := bt_retain (\<lambda>key1 _. fst key1 \<noteq> fst key \<or> snd key1 > retirement_floor) (rg_epochs reg)\<rparr>,
             Ok ()))"

lemma candidate_in_epochs:
  "foldl (better_candidate reg) c es = Some (key, n) \<Longrightarrow> c = Some (key, n) \<or> (key \<in> bt_keys es \<and> prefix_complete reg key)"
  by (induction es arbitrary: c) (auto simp: better_candidate_def split: if_splits prod.splits)

lemma candidate_exists:
  "key \<in> bt_keys es \<Longrightarrow> prefix_complete reg key \<Longrightarrow> foldl (better_candidate reg) c es \<noteq> None"
proof (induction es arbitrary: c)
  case (Cons e es)
  have keep: "foldl (better_candidate reg) (Some c) es \<noteq> None" for c es
    by (induction es arbitrary: c) (auto simp: better_candidate_def split: prod.splits)
  show ?case
  proof (cases "better_candidate reg c e")
    case None
    then show ?thesis using Cons by (auto simp: better_candidate_def split: prod.splits if_splits)
  qed (use keep in simp)
qed simp

text \<open>Either every principal has an operation in flight, or some completed prefix of a
  principal's epochs is retired.\<close>

definition retired_up_to :: "replay_key \<Rightarrow> nat \<Rightarrow> 'r replay_registry \<Rightarrow> 'r replay_registry" where
  "retired_up_to key bound reg = reg\<lparr>rg_retired_through := bt_insert (fst key) bound (rg_retired_through reg),
     rg_epochs := bt_retain (\<lambda>key1 _. fst key1 \<noteq> fst key \<or> snd key1 > bound) (rg_epochs reg)\<rparr>"

lemma retire_one_cases:
  obtains (full) "retire_one reg = (reg, Err ResourceExhausted)" "\<forall>key\<in>bt_keys (rg_epochs reg). \<not> prefix_complete reg key"
  | (retired) key bound where "retire_one reg = (retired_up_to key bound reg, Ok ())" "key \<in> bt_keys (rg_epochs reg)"
      "prefix_complete reg key"
      "bound = max (case bt_get (rg_retired_through reg) (fst key) of Some n \<Rightarrow> n | None \<Rightarrow> 0) (snd key)"
proof (cases "foldl (better_candidate reg) None (rg_epochs reg)")
  case None
  moreover from None have "\<forall>key\<in>bt_keys (rg_epochs reg). \<not> prefix_complete reg key" using candidate_exists by blast
  ultimately show thesis by (intro full) (simp_all add: retire_one_def)
next
  case (Some c)
  obtain key n where c: "c = (key, n)" by fastforce
  show thesis
    using Some candidate_in_epochs[of reg None "rg_epochs reg" key n] unfolding c
    by (intro retired[of key]) (simp_all add: retire_one_def Let_def retired_up_to_def)
qed

lemma retire_one_length:
  assumes "retire_one reg = (reg', Ok ())"
  shows "length (rg_epochs reg') < length (rg_epochs reg)"
proof (rule retire_one_cases[of reg])
  fix key bound
  assume *: "retire_one reg = (retired_up_to key bound reg, Ok ())" "key \<in> bt_keys (rg_epochs reg)"
    "bound = max (case bt_get (rg_retired_through reg) (fst key) of Some n \<Rightarrow> n | None \<Rightarrow> 0) (snd key)"
  from *(2) obtain e where "(key, e) \<in> set (rg_epochs reg)" by (auto simp: bt_keys_def)
  then have "length (bt_retain (\<lambda>key1 _. fst key1 \<noteq> fst key \<or> snd key1 > bound) (rg_epochs reg)) < length (rg_epochs reg)"
    unfolding bt_retain_def by (rule length_filter_less) (simp add: *(3))
  moreover have "reg' = retired_up_to key bound reg" using assms *(1) by simp
  ultimately show ?thesis by (simp add: retired_up_to_def)
qed (use assms in auto)

text \<open>The loop of \<open>issue\<close> that makes room for another epoch.\<close>

function retire_until_room :: "'r replay_registry \<Rightarrow> 'r replay_registry \<times> (unit, domain_error_kind) result" where
  "retire_until_room reg =
    (if length (rg_epochs reg) < MAX_ACTIVE_OPERATION_EPOCHS then (reg, Ok ())
     else case retire_one reg of
       (reg', Err e) \<Rightarrow> (reg', Err e)
     | (reg', Ok _) \<Rightarrow> retire_until_room reg')"
  by pat_completeness auto

termination
  by (relation "measure (\<lambda>reg. length (rg_epochs reg))") (auto intro!: retire_one_length)

declare retire_until_room.simps [simp del]

definition issue :: "attachment_principal \<Rightarrow> 'r replay_registry \<Rightarrow> 'r replay_registry \<times> (operation_lease, domain_error_kind) result" where
  "issue attachment reg =
    (let owner = replay_principal_of attachment in
     if \<not> bt_contains (rg_issued_through reg) owner \<and> length (rg_issued_through reg) \<ge> MAX_REPLAY_PRINCIPALS
     then (reg, Err ResourceExhausted)
     else case checked_add U64_MAX (case bt_get (rg_issued_through reg) owner of Some n \<Rightarrow> n | None \<Rightarrow> 0) 1 of
       None \<Rightarrow> (reg, Err ResourceExhausted)
     | Some n \<Rightarrow>
         (case retire_until_room reg of
            (reg1, Err e) \<Rightarrow> (reg1, Err e)
          | (reg1, Ok _) \<Rightarrow>
              (case next_access reg1 of (last_access, reg2) \<Rightarrow>
                (reg2\<lparr>rg_epochs := bt_insert (owner, n)
                    \<lparr>re_epoch = \<lparr>ep_low_water = 0, ep_operations = []\<rparr>, re_last_access = last_access\<rparr> (rg_epochs reg2),
                   rg_issued_through := bt_insert owner n (rg_issued_through reg2)\<rparr>,
                 Ok \<lparr>daemon_incarnation = rg_incarnation reg2, ordinal = n\<rparr>))))"

definition replay_register :: "replay_key \<Rightarrow> operation_id \<Rightarrow> operation_fingerprint \<Rightarrow> 'r replay_registry \<Rightarrow>
    'r replay_registry \<times> (replay_registration, domain_error_kind) result" where
  "replay_register key oid fingerprint reg =
    (if daemon_incarnation (lease oid) \<noteq> rg_incarnation reg then (reg, Err OperationOutcomeUnknown)
     else if sequence oid = 0 \<or> ordinal (lease oid) \<noteq> snd key then (reg, Err OperationOutcomeUnknown)
     else if (case bt_get (rg_retired_through reg) (fst key) of None \<Rightarrow> False | Some floor \<Rightarrow> snd key \<le> floor)
     then (reg, Err OperationOutcomeUnknown)
     else if (case bt_get (rg_issued_through reg) (fst key) of None \<Rightarrow> True | Some issued \<Rightarrow> snd key > issued)
     then (reg, Err OperationOutcomeUnknown)
     else case next_access reg of (access, reg1) \<Rightarrow>
       case bt_get (rg_epochs reg1) key of
         None \<Rightarrow> (reg1, Err OperationOutcomeUnknown)
       | Some entry \<Rightarrow>
           (case epoch_register (rg_cells reg1) (sequence oid) fingerprint (re_epoch entry) of
              ((cells, ep), r) \<Rightarrow>
                (reg1\<lparr>rg_epochs := bt_insert key \<lparr>re_epoch = ep, re_last_access = access\<rparr> (rg_epochs reg1),
                      rg_cells := cells\<rparr>, r)))"

definition complete_operation :: "nat \<Rightarrow> 'r \<Rightarrow> 'r replay_registry \<Rightarrow> 'r replay_registry" where
  "complete_operation a r reg = reg\<lparr>rg_cells := (rg_cells reg)[a := op_cell_complete r (rg_cells reg ! a)]\<rparr>"

text \<open>\<open>OperationCell::wait\<close> returns once there is a result; until then it is \<open>None\<close>.\<close>

definition wait_operation :: "nat \<Rightarrow> 'r replay_registry \<Rightarrow> 'r option" where
  "wait_operation a reg = oc_result (rg_cells reg ! a)"

text \<open>\<open>execute_replayed\<close> without interference: the operation runs on the world, and the result
  is \<open>None\<close> while a joined execution is still in flight.\<close>

definition execute_replayed :: "attachment_principal \<Rightarrow> operation_id \<Rightarrow> operation_fingerprint \<Rightarrow>
    ('w \<Rightarrow> ('a, domain_error_kind) result \<times> 'w) \<Rightarrow> ('a, domain_error_kind) result replay_registry \<Rightarrow> 'w \<Rightarrow>
    (('a, domain_error_kind) result replay_registry \<times> 'w) \<times> ('a, domain_error_kind) result option" where
  "execute_replayed owner oid fingerprint operation reg world =
    (case replay_register (replay_key_new owner (ordinal (lease oid))) oid fingerprint reg of
       (reg1, Err e) \<Rightarrow> ((reg1, world), Some (Err e))
     | (reg1, Ok (ReplayJoin a)) \<Rightarrow> ((reg1, world), wait_operation a reg1)
     | (reg1, Ok (ReplayExecute a)) \<Rightarrow>
         (case operation world of (r, world') \<Rightarrow> ((complete_operation a r reg1, world'), Some r)))"

subsection \<open>Runs\<close>

text \<open>The sections of the registry, in any order: concurrent requests interleave between the
  registration of an operation and its completion.\<close>

datatype 'r replay_input =
    IssueLease attachment_principal
  | RegisterOperation attachment_principal operation_id operation_fingerprint
  | CompleteOperation nat 'r

datatype replay_output =
    LeaseAnswer "(operation_lease, domain_error_kind) result"
  | RegisterAnswer "(replay_registration, domain_error_kind) result"
  | NoAnswer

fun replay_step :: "'r replay_registry \<Rightarrow> 'r replay_input \<Rightarrow> 'r replay_registry \<times> replay_output" where
  "replay_step reg (IssueLease p) = (case issue p reg of (reg', r) \<Rightarrow> (reg', LeaseAnswer r))"
| "replay_step reg (RegisterOperation p oid fp) =
    (case replay_register (replay_key_new p (ordinal (lease oid))) oid fp reg of (reg', r) \<Rightarrow> (reg', RegisterAnswer r))"
| "replay_step reg (CompleteOperation a r) = (complete_operation a r reg, NoAnswer)"

fun replay_input_key :: "'r replay_input \<Rightarrow> (replay_key \<times> nat) option" where
  "replay_input_key (RegisterOperation p oid fp) = Some (replay_key_new p (ordinal (lease oid)), sequence oid)"
| "replay_input_key _ = None"

fun started :: "replay_output \<Rightarrow> bool" where
  "started (RegisterAnswer (Ok (ReplayExecute a))) = True"
| "started _ = False"

text \<open>Sequence numbers are 64-bit values.\<close>

fun replay_input_ok :: "'r replay_input \<Rightarrow> bool" where
  "replay_input_ok (RegisterOperation p oid fp) \<longleftrightarrow> sequence oid \<le> U64_MAX"
| "replay_input_ok _ \<longleftrightarrow> True"

subsection \<open>Epochs\<close>

definition epoch_ok :: "nat \<Rightarrow> replay_epoch \<Rightarrow> bool" where
  "epoch_ok n ep \<longleftrightarrow> bt_wf (ep_operations ep) \<and> bt_keys (ep_operations ep) \<subseteq> {1..U64_MAX} \<and>
     (\<forall>k a. bt_get (ep_operations ep) k = Some a \<longrightarrow> a < n) \<and> length (ep_operations ep) \<le> OPERATION_RESULTS_PER_EPOCH"

definition epoch_settled :: "nat \<Rightarrow> replay_epoch \<Rightarrow> bool" where
  "epoch_settled k ep \<longleftrightarrow> k \<in> bt_keys (ep_operations ep) \<or> k < ep_low_water ep"

lemma evict_operations_result:
  assumes "bt_wf operations" "bt_keys operations \<subseteq> {1..U64_MAX}" "evict_operations cells low operations = (low', operations', okay)"
  shows "low \<le> low' \<and> (\<exists>n. operations' = drop n operations) \<and> (\<forall>k \<in> bt_keys operations - bt_keys operations'. k < low') \<and>
    (if okay then length operations' < OPERATION_RESULTS_PER_EPOCH
     else (\<exists>k a. bt_get operations k = Some a \<and> \<not> cell_is_complete cells a))"
  using assms
proof (induction cells low operations rule: evict_operations.induct)
  case (1 cells low)
  then show ?case by (auto simp: OPERATION_RESULTS_PER_EPOCH_def)
next
  case (2 cells low oldest a operations)
  show ?case
  proof (cases "length ((oldest, a) # operations) < OPERATION_RESULTS_PER_EPOCH \<or> \<not> cell_is_complete cells a")
    case True
    with 2(4) show ?thesis by (auto split: if_splits intro: exI[of _ 0])
  next
    case False
    let ?low = "max low (saturating_add U64_MAX oldest 1)"
    have ev: "evict_operations cells ?low operations = (low', operations', okay)" using False 2(4) by simp
    have wf: "bt_wf operations" "bt_keys operations \<subseteq> {1..U64_MAX}" using 2(2,3) by auto
    have "operations \<noteq> []" using False by (auto simp: OPERATION_RESULTS_PER_EPOCH_def)
    then obtain k where k: "k \<in> bt_keys operations" by (cases operations) auto
    then have "oldest < k" "k \<le> U64_MAX" using 2(2,3) by auto
    then have low: "oldest < ?low" by (simp add: saturating_add_def)
    from 2(1)[OF _ _ wf ev] False obtain n where IH: "?low \<le> low'" "operations' = drop n operations"
      "\<forall>k \<in> bt_keys operations - bt_keys operations'. k < low'"
      "if okay then length operations' < OPERATION_RESULTS_PER_EPOCH
       else (\<exists>k a. bt_get operations k = Some a \<and> \<not> cell_is_complete cells a)"
      by blast
    have "operations' = drop (Suc n) ((oldest, a) # operations)" using IH(2) by simp
    moreover have "\<forall>k \<in> bt_keys ((oldest, a) # operations) - bt_keys operations'. k < low'"
      using IH(1,3) low by auto
    moreover have "bt_get ((oldest, a) # operations) k = Some b" if "bt_get operations k = Some b" for k b
      using that 2(2) by (auto dest: bt_get_SomeD)
    then have "if okay then length operations' < OPERATION_RESULTS_PER_EPOCH
       else (\<exists>k b. bt_get ((oldest, a) # operations) k = Some b \<and> \<not> cell_is_complete cells b)"
      using IH(4) by (cases okay) (simp, metis)
    moreover have "low \<le> low'" using IH(1) by simp
    ultimately show ?thesis by blast
  qed
qed

lemma drop_bt:
  assumes "bt_wf m"
  shows "bt_wf (drop n m)" "bt_keys (drop n m) \<subseteq> bt_keys m" "bt_get (drop n m) k = Some v \<Longrightarrow> bt_get m k = Some v"
proof -
  show wf: "bt_wf (drop n m)" using assms unfolding bt_wf_def by (simp add: drop_map[symmetric] sorted_wrt_drop)
  show "bt_keys (drop n m) \<subseteq> bt_keys m" by (auto simp: bt_keys_def dest: in_set_dropD)
  assume "bt_get (drop n m) k = Some v"
  then have "(k, v) \<in> set (drop n m)" by (rule map_of_SomeD)
  then show "bt_get m k = Some v" using assms by (simp add: bt_get_in_set[symmetric] in_set_dropD)
qed

lemma epoch_register_cases:
  assumes ok: "epoch_ok (length cells) ep" and "sqn \<le> U64_MAX"
    and reg: "epoch_register cells sqn fp ep = ((cells', ep'), r)"
  shows "epoch_ok (length cells') ep' \<and> (\<forall>k. epoch_settled k ep \<longrightarrow> epoch_settled k ep') \<and>
    (case r of
       Ok (ReplayExecute a) \<Rightarrow> \<not> epoch_settled sqn ep \<and> epoch_settled sqn ep' \<and> a = length cells \<and>
         cells' = cells @ [op_cell_new fp] \<and> bt_get (ep_operations ep') sqn = Some a \<and>
         (\<forall>k b. k \<noteq> sqn \<longrightarrow> bt_get (ep_operations ep') k = Some b \<longrightarrow> bt_get (ep_operations ep) k = Some b)
     | Ok (ReplayJoin a) \<Rightarrow> ep' = ep \<and> cells' = cells \<and> bt_get (ep_operations ep) sqn = Some a \<and> oc_fingerprint (cells ! a) = fp
     | Err e \<Rightarrow> cells' = cells \<and> (\<forall>k b. bt_get (ep_operations ep') k = Some b \<longrightarrow> bt_get (ep_operations ep) k = Some b))"
proof (cases "bt_get (ep_operations ep) sqn")
  case (Some a)
  with ok reg show ?thesis by (auto simp: epoch_register_def split: if_splits)
next
  case None
  note fresh = this
  show ?thesis
  proof (cases "sqn = 0 \<or> sqn < ep_low_water ep")
    case True
    with ok reg fresh show ?thesis by (auto simp: epoch_register_def split: if_splits)
  next
    case False
    obtain low operations okay where ev: "evict_operations cells (ep_low_water ep) (ep_operations ep) = (low, operations, okay)"
      by (metis prod_cases3)
    have wf: "bt_wf (ep_operations ep)" "bt_keys (ep_operations ep) \<subseteq> {1..U64_MAX}"
      "\<forall>k a. bt_get (ep_operations ep) k = Some a \<longrightarrow> a < length cells" "length (ep_operations ep) \<le> OPERATION_RESULTS_PER_EPOCH"
      using ok by (simp_all add: epoch_ok_def)
    from evict_operations_result[OF wf(1,2) ev] obtain n where e: "ep_low_water ep \<le> low" "operations = drop n (ep_operations ep)"
      "\<forall>k \<in> bt_keys (ep_operations ep) - bt_keys operations. k < low" "okay \<longrightarrow> length operations < OPERATION_RESULTS_PER_EPOCH"
      by (auto split: if_splits)
    note d = drop_bt[OF wf(1), of n, folded e(2)]
    have sqn: "sqn \<notin> bt_keys operations" using fresh d(2) by (auto simp: bt_get_None_iff)
    have settled: "epoch_settled k ep \<Longrightarrow> epoch_settled k \<lparr>ep_low_water = low, ep_operations = operations\<rparr>" for k
      using e(1,3) by (auto simp: epoch_settled_def)
    have keys: "bt_keys operations \<subseteq> {1..U64_MAX}" using d(2) wf(2) by blast
    have len: "length operations \<le> OPERATION_RESULTS_PER_EPOCH" using wf(4) e(2) by simp
    have small: "bt_get operations k = Some a \<Longrightarrow> a < length cells" for k a using d(3) wf(3) by blast
    show ?thesis
    proof (cases okay)
      case True
      have "epoch_ok (Suc (length cells)) \<lparr>ep_low_water = low, ep_operations = bt_insert sqn (length cells) operations\<rparr>"
        using d(1) keys small e(4) True sqn False assms(2)
        by (auto simp: epoch_ok_def length_bt_insert_new less_Suc_eq)
      moreover have "\<not> epoch_settled sqn ep" using fresh False by (simp add: epoch_settled_def bt_get_None_iff)
      moreover have "epoch_settled k \<lparr>ep_low_water = low, ep_operations = bt_insert sqn (length cells) operations\<rparr>"
        if "epoch_settled k ep \<or> k = sqn" for k
        using that settled[of k] by (auto simp: epoch_settled_def)
      moreover have "cells' = cells @ [op_cell_new fp]" "r = Ok (ReplayExecute (length cells))"
        "ep' = \<lparr>ep_low_water = low, ep_operations = bt_insert sqn (length cells) operations\<rparr>"
        using True reg fresh False ev by (auto simp: epoch_register_def)
      ultimately show ?thesis using d(3) by auto
    next
      case no: False
      have "epoch_ok (length cells) \<lparr>ep_low_water = low, ep_operations = operations\<rparr>"
        using d(1) keys small len by (auto simp: epoch_ok_def)
      moreover have "cells' = cells" "r = Err ResourceExhausted" "ep' = \<lparr>ep_low_water = low, ep_operations = operations\<rparr>"
        using no reg fresh False ev by (auto simp: epoch_register_def)
      ultimately show ?thesis using settled d(3) by auto
    qed
  qed
qed

subsection \<open>The registry\<close>

definition epoch_at :: "'r replay_registry \<Rightarrow> replay_key \<Rightarrow> replay_epoch option" where
  "epoch_at reg key = map_option re_epoch (bt_get (rg_epochs reg) key)"

definition issued_to :: "'r replay_registry \<Rightarrow> replay_principal \<Rightarrow> nat" where
  "issued_to reg p = (case bt_get (rg_issued_through reg) p of Some n \<Rightarrow> n | None \<Rightarrow> 0)"

text \<open>Registries that differ in the accounting of accesses only.\<close>

definition same_epochs :: "'r replay_registry \<Rightarrow> 'r replay_registry \<Rightarrow> bool" where
  "same_epochs reg reg' \<longleftrightarrow> bt_wf (rg_epochs reg') \<and> length (rg_epochs reg') = length (rg_epochs reg) \<and>
     epoch_at reg' = epoch_at reg \<and> rg_cells reg' = rg_cells reg \<and> rg_issued_through reg' = rg_issued_through reg \<and>
     rg_retired_through reg' = rg_retired_through reg \<and> rg_incarnation reg' = rg_incarnation reg"

definition touch :: "(replay_key, replay_epoch_entry) bmap \<Rightarrow> nat \<times> replay_key \<times> nat \<Rightarrow> (replay_key, replay_epoch_entry) bmap" where
  "touch es x = (case x of (index, key, _) \<Rightarrow> case bt_get es key of None \<Rightarrow> es
     | Some entry \<Rightarrow> bt_insert key (entry\<lparr>re_last_access := index\<rparr>) es)"

lemma foldl_touch:
  "bt_wf es \<Longrightarrow> bt_wf (foldl touch es xs) \<and> length (foldl touch es xs) = length es \<and>
     map_option re_epoch \<circ> bt_get (foldl touch es xs) = map_option re_epoch \<circ> bt_get es"
proof (induction xs arbitrary: es)
  case (Cons x xs)
  obtain index key n where x: "x = (index, key, n)" by (cases x)
  have "bt_wf (touch es x) \<and> length (touch es x) = length es \<and>
      map_option re_epoch \<circ> bt_get (touch es x) = map_option re_epoch \<circ> bt_get es"
    using Cons.prems
    by (auto simp: touch_def x fun_eq_iff length_bt_insert_old bt_get_SomeD split: option.splits)
  with Cons.IH[of "touch es x"] show ?case by (auto simp: fun_eq_iff)
qed simp

lemma renumber_touch: "\<exists>xs. renumber epochs = foldl touch epochs xs"
  by (auto simp: renumber_def Let_def touch_def[abs_def] case_prod_unfold)

lemma next_access_same:
  assumes "next_access reg = (n, reg')" "bt_wf (rg_epochs reg)"
  shows "same_epochs reg reg'"
proof -
  obtain xs where xs: "renumber (rg_epochs reg) = foldl touch (rg_epochs reg) xs" using renumber_touch by blast
  have "bt_wf (renumber (rg_epochs reg))" "length (renumber (rg_epochs reg)) = length (rg_epochs reg)"
    "map_option re_epoch \<circ> bt_get (renumber (rg_epochs reg)) = map_option re_epoch \<circ> bt_get (rg_epochs reg)"
    using foldl_touch[OF assms(2), of xs] by (simp_all add: xs)
  then show ?thesis using assms by (auto simp: next_access_def Let_def same_epochs_def epoch_at_def fun_eq_iff split: if_splits)
qed

definition replay_inv :: "'r replay_registry \<Rightarrow> bool" where
  "replay_inv reg \<longleftrightarrow> bt_wf (rg_epochs reg) \<and> bt_wf (rg_issued_through reg) \<and>
     length (rg_epochs reg) \<le> MAX_ACTIVE_OPERATION_EPOCHS \<and> length (rg_issued_through reg) \<le> MAX_REPLAY_PRINCIPALS \<and>
     (\<forall>key ep. epoch_at reg key = Some ep \<longrightarrow> epoch_ok (length (rg_cells reg)) ep \<and> snd key \<le> issued_to reg (fst key)) \<and>
     (\<forall>p n. bt_get (rg_retired_through reg) p = Some n \<longrightarrow> n \<le> issued_to reg p)"

definition settled_at :: "'r replay_registry \<Rightarrow> replay_key \<Rightarrow> nat \<Rightarrow> bool" where
  "settled_at reg key sqn = (case epoch_at reg key of Some ep \<Rightarrow> epoch_settled sqn ep
     | None \<Rightarrow> snd key \<le> issued_to reg (fst key))"

fun settled :: "'r replay_registry \<Rightarrow> (replay_key \<times> nat) option \<Rightarrow> bool" where
  "settled reg None = False"
| "settled reg (Some k) = settled_at reg (fst k) (snd k)"

lemma inv_epoch:
  "replay_inv reg \<Longrightarrow> epoch_at reg key = Some ep \<Longrightarrow> epoch_ok (length (rg_cells reg)) ep \<and> snd key \<le> issued_to reg (fst key)"
  unfolding replay_inv_def by blast

lemma inv_retired: "replay_inv reg \<Longrightarrow> bt_get (rg_retired_through reg) p = Some n \<Longrightarrow> n \<le> issued_to reg p"
  unfolding replay_inv_def by blast

lemma same_epochs_issued: "same_epochs reg reg' \<Longrightarrow> issued_to reg' = issued_to reg"
  by (simp add: same_epochs_def issued_to_def[abs_def])

lemma same_epochs_inv: "same_epochs reg reg' \<Longrightarrow> replay_inv reg \<Longrightarrow> replay_inv reg'"
  using same_epochs_issued[of reg reg'] by (simp add: same_epochs_def replay_inv_def)

lemma same_epochs_settled: "same_epochs reg reg' \<Longrightarrow> settled_at reg' = settled_at reg"
  using same_epochs_issued[of reg reg'] by (auto simp: same_epochs_def settled_at_def fun_eq_iff split: option.split)

lemma bt_get_filter: "bt_get (filter (\<lambda>p. P (fst p)) m) k = (if P k then bt_get m k else None)"
  by (induction m) auto

lemma epoch_at_retired:
  "epoch_at (retired_up_to key bound reg) k = (if fst k \<noteq> fst key \<or> snd k > bound then epoch_at reg k else None)"
  using bt_get_filter[of "\<lambda>k. fst k \<noteq> fst key \<or> snd k > bound" "rg_epochs reg" k]
  by (simp add: epoch_at_def retired_up_to_def bt_retain_def)

lemma retired_fields [simp]:
  "rg_cells (retired_up_to key bound reg) = rg_cells reg"
  "rg_issued_through (retired_up_to key bound reg) = rg_issued_through reg"
  "rg_incarnation (retired_up_to key bound reg) = rg_incarnation reg"
  "issued_to (retired_up_to key bound reg) = issued_to reg"
  by (simp_all add: retired_up_to_def issued_to_def[abs_def])

lemma retired_inv:
  assumes "replay_inv reg" "bound \<le> issued_to reg (fst key)"
  shows "replay_inv (retired_up_to key bound reg)"
proof -
  have "length (rg_epochs (retired_up_to key bound reg)) \<le> length (rg_epochs reg)" "bt_wf (rg_epochs (retired_up_to key bound reg))"
    using assms by (simp_all add: retired_up_to_def bt_retain_def replay_inv_def)
  moreover have "n \<le> issued_to reg p" if "bt_get (rg_retired_through (retired_up_to key bound reg)) p = Some n" for p n
    using that assms(2) inv_retired[OF assms(1), of p n] by (cases "p = fst key") (simp_all add: retired_up_to_def)
  ultimately show ?thesis
    using assms(1) inv_epoch[OF assms(1)] unfolding replay_inv_def[of "retired_up_to key bound reg"] epoch_at_retired
    by (auto simp: replay_inv_def split: if_splits)
qed

lemma retired_settled:
  assumes "replay_inv reg" "settled_at reg k sqn"
  shows "settled_at (retired_up_to key bound reg) k sqn"
  using assms inv_epoch[OF assms(1), of k]
  by (cases "epoch_at reg k") (auto simp: settled_at_def epoch_at_retired)

lemma retire_bound:
  assumes "replay_inv reg" "key \<in> bt_keys (rg_epochs reg)"
  shows "max (case bt_get (rg_retired_through reg) (fst key) of Some n \<Rightarrow> n | None \<Rightarrow> 0) (snd key) \<le> issued_to reg (fst key)"
proof -
  obtain e where "bt_get (rg_epochs reg) key = Some e" using assms(2) by (cases "bt_get (rg_epochs reg) key") (auto simp: bt_get_None_iff)
  then have "snd key \<le> issued_to reg (fst key)" using inv_epoch[OF assms(1), of key "re_epoch e"] by (simp add: epoch_at_def)
  moreover have "(case bt_get (rg_retired_through reg) (fst key) of Some n \<Rightarrow> n | None \<Rightarrow> 0) \<le> issued_to reg (fst key)"
    using inv_retired[OF assms(1), of "fst key"] by (cases "bt_get (rg_retired_through reg) (fst key)") simp_all
  ultimately show ?thesis by simp
qed

lemma retire_until_room_keeps:
  "replay_inv reg \<Longrightarrow> retire_until_room reg = (reg', r) \<Longrightarrow>
   replay_inv reg' \<and> (\<forall>k n. settled_at reg k n \<longrightarrow> settled_at reg' k n) \<and> rg_issued_through reg' = rg_issued_through reg \<and>
   rg_cells reg' = rg_cells reg \<and> rg_incarnation reg' = rg_incarnation reg \<and>
   (r = Ok () \<longrightarrow> length (rg_epochs reg') < MAX_ACTIVE_OPERATION_EPOCHS) \<and>
   (\<forall>key. epoch_at reg' key \<noteq> None \<longrightarrow> epoch_at reg' key = epoch_at reg key)"
proof (induction reg rule: retire_until_room.induct)
  case (1 reg)
  show ?case
  proof (cases "length (rg_epochs reg) < MAX_ACTIVE_OPERATION_EPOCHS")
    case True
    with 1(2,3) show ?thesis by (subst (asm) retire_until_room.simps) auto
  next
    case False
    show ?thesis
    proof (rule retire_one_cases[of reg])
      assume "retire_one reg = (reg, Err ResourceExhausted)"
      with False 1(2,3) show ?thesis by (subst (asm) retire_until_room.simps) auto
    next
      fix key bound
      assume ret: "retire_one reg = (retired_up_to key bound reg, Ok ())" and key: "key \<in> bt_keys (rg_epochs reg)"
        and bound: "bound = max (case bt_get (rg_retired_through reg) (fst key) of Some n \<Rightarrow> n | None \<Rightarrow> 0) (snd key)"
      have "bound \<le> issued_to reg (fst key)" using retire_bound[OF 1(2) key] bound by simp
      note inv' = retired_inv[OF 1(2) this]
      from ret have rec: "retire_until_room (retired_up_to key bound reg) = (reg', r)"
        using False 1(3) by (subst (asm) retire_until_room.simps) simp
      note IH = 1(1)[OF False ret[symmetric] refl inv' rec, unfolded retired_fields]
      then have "epoch_at reg' k = epoch_at reg k" if "epoch_at reg' k \<noteq> None" for k
        using that epoch_at_retired[of key bound reg k] by metis
      with IH retired_settled[OF 1(2)] show ?thesis by blast
    qed
  qed
qed

lemma epoch_ok_mono: "epoch_ok n ep \<Longrightarrow> n \<le> m \<Longrightarrow> epoch_ok m ep"
  unfolding epoch_ok_def by (meson order.strict_trans2)

lemma epoch_ok_new: "epoch_ok n \<lparr>ep_low_water = 0, ep_operations = []\<rparr>"
  by (simp add: epoch_ok_def)

definition with_epoch :: "replay_key \<Rightarrow> replay_epoch_entry \<Rightarrow> 'r replay_registry \<Rightarrow> 'r replay_registry" where
  "with_epoch key e reg = reg\<lparr>rg_epochs := bt_insert key e (rg_epochs reg)\<rparr>"

lemma epoch_at_with: "epoch_at (with_epoch key e reg) k = (if k = key then Some (re_epoch e) else epoch_at reg k)"
  by (simp add: epoch_at_def with_epoch_def)

text \<open>What \<open>issue\<close> does when it succeeds: a new epoch with the next ordinal.\<close>

lemma issue_cases:
  assumes inv: "replay_inv reg" and iss: "issue p reg = (reg', r)"
  obtains (failed) e where "r = Err e" "reg' = reg \<or> (\<exists>e. retire_until_room reg = (reg', Err e))"
  | (issued) reg1 n e where "replay_inv reg1" "\<forall>k n. settled_at reg k n \<longrightarrow> settled_at reg1 k n"
      "rg_cells reg1 = rg_cells reg" "rg_incarnation reg1 = rg_incarnation reg" "issued_to reg1 = issued_to reg"
      "rg_issued_through reg1 = rg_issued_through reg" "length (rg_epochs reg1) < MAX_ACTIVE_OPERATION_EPOCHS"
      "\<forall>key. epoch_at reg1 key \<noteq> None \<longrightarrow> epoch_at reg1 key = epoch_at reg key"
      "n = issued_to reg (replay_principal_of p) + 1" "n \<le> U64_MAX" "re_epoch e = \<lparr>ep_low_water = 0, ep_operations = []\<rparr>"
      "length (bt_insert (replay_principal_of p) n (rg_issued_through reg)) \<le> MAX_REPLAY_PRINCIPALS"
      "reg' = (with_epoch (replay_principal_of p, n) e reg1)\<lparr>rg_issued_through := bt_insert (replay_principal_of p) n (rg_issued_through reg1)\<rparr>"
      "r = Ok \<lparr>daemon_incarnation = rg_incarnation reg, ordinal = n\<rparr>"
proof -
  let ?p = "replay_principal_of p"
  have wf: "bt_wf (rg_issued_through reg)" and few: "length (rg_issued_through reg) \<le> MAX_REPLAY_PRINCIPALS"
    using inv by (simp_all add: replay_inv_def)
  show thesis
  proof (cases "\<not> bt_contains (rg_issued_through reg) ?p \<and> length (rg_issued_through reg) \<ge> MAX_REPLAY_PRINCIPALS")
    case True
    with iss show thesis by (intro failed) (auto simp: issue_def Let_def)
  next
    case room: False
    then have len: "length (bt_insert ?p n (rg_issued_through reg)) \<le> MAX_REPLAY_PRINCIPALS" for n
      using few length_bt_insert_old[OF wf, of ?p n] length_bt_insert_new[of ?p "rg_issued_through reg" n]
      by (cases "?p \<in> bt_keys (rg_issued_through reg)") (auto simp: bt_get_None_iff)
    show thesis
    proof (cases "checked_add U64_MAX (issued_to reg ?p) 1")
      case None
      with iss room show thesis by (intro failed) (auto simp: issue_def Let_def issued_to_def)
    next
      case (Some n)
      then have n: "n = issued_to reg ?p + 1" "n \<le> U64_MAX" by (simp_all add: checked_add_Some_iff)
      obtain reg1 res where room_res: "retire_until_room reg = (reg1, res)" by fastforce
      note keep = retire_until_room_keeps[OF inv room_res]
      show thesis
      proof (cases res)
        case (Err e)
        with iss room Some room_res show thesis
          by (intro failed) (auto simp: issue_def Let_def issued_to_def simp del: checked_add_Some_iff One_nat_def)
      next
        case (Ok u)
        obtain access reg2 where acc: "next_access reg1 = (access, reg2)" by fastforce
        have "bt_wf (rg_epochs reg1)" using keep by (simp add: replay_inv_def)
        note same = next_access_same[OF acc this]
        have issued1: "issued_to reg1 = issued_to reg" using keep by (simp add: issued_to_def[abs_def])
        have eqs: "rg_incarnation reg2 = rg_incarnation reg" "rg_cells reg2 = rg_cells reg" "rg_issued_through reg2 = rg_issued_through reg"
          "epoch_at reg2 = epoch_at reg1" "length (rg_epochs reg2) < MAX_ACTIVE_OPERATION_EPOCHS"
          using same keep Ok by (simp_all add: same_epochs_def)
        show thesis
        proof (rule issued[of reg2 n "\<lparr>re_epoch = \<lparr>ep_low_water = 0, ep_operations = []\<rparr>, re_last_access = access\<rparr>"])
          show "replay_inv reg2" using same_epochs_inv[OF same] keep by blast
          show "\<forall>k n. settled_at reg k n \<longrightarrow> settled_at reg2 k n" using same_epochs_settled[OF same] keep by simp
          show "issued_to reg2 = issued_to reg" using same_epochs_issued[OF same] issued1 by simp
          show "\<forall>key. epoch_at reg2 key \<noteq> None \<longrightarrow> epoch_at reg2 key = epoch_at reg key" using eqs(4) keep by simp
          show "reg' = (with_epoch (?p, n) \<lparr>re_epoch = \<lparr>ep_low_water = 0, ep_operations = []\<rparr>, re_last_access = access\<rparr> reg2)
              \<lparr>rg_issued_through := bt_insert ?p n (rg_issued_through reg2)\<rparr>"
            using iss room Some room_res Ok acc by (auto simp: issue_def Let_def issued_to_def with_epoch_def simp del: checked_add_Some_iff One_nat_def)
          show "r = Ok \<lparr>daemon_incarnation = rg_incarnation reg, ordinal = n\<rparr>"
            using iss room Some room_res Ok acc eqs(1)
            by (auto simp: issue_def Let_def issued_to_def simp del: checked_add_Some_iff One_nat_def)
        qed (use eqs n len in simp_all)
      qed
    qed
  qed
qed

lemma issue_keeps:
  assumes inv: "replay_inv reg" and iss: "issue p reg = (reg', r)"
  shows "replay_inv reg' \<and> (\<forall>k n. settled_at reg k n \<longrightarrow> settled_at reg' k n)"
  using inv iss
proof (cases rule: issue_cases)
  case (failed e)
  then show ?thesis using inv retire_until_room_keeps[OF inv] by blast
next
  case (issued reg1 n e)
  let ?p = "replay_principal_of p"
  have fresh: "epoch_at reg1 (?p, n) = None"
    using inv_epoch[OF issued(1), of "(?p, n)"] issued(5,9) by (cases "epoch_at reg1 (?p, n)") auto
  have at: "epoch_at reg' k = (if k = (?p, n) then Some \<lparr>ep_low_water = 0, ep_operations = []\<rparr> else epoch_at reg1 k)" for k
    using issued(11,13) epoch_at_with[of "(?p, n)" e reg1 k] by (simp add: epoch_at_def with_epoch_def)
  have iss': "issued_to reg' q = (if q = ?p then n else issued_to reg q)" for q
    using issued(13,6) by (simp add: issued_to_def with_epoch_def)
  have fields: "rg_cells reg' = rg_cells reg" "rg_issued_through reg' = bt_insert ?p n (rg_issued_through reg)"
    using issued(3,6,13) by (simp_all add: with_epoch_def)
  have wf: "bt_wf (rg_epochs reg')" "length (rg_epochs reg') \<le> MAX_ACTIVE_OPERATION_EPOCHS" "bt_wf (rg_issued_through reg')"
    using issued(1,7,13) length_bt_insert_le[of "(?p, n)" e "rg_epochs reg1"] by (simp_all add: with_epoch_def replay_inv_def)
  have "epoch_ok (length (rg_cells reg')) ep \<and> snd key \<le> issued_to reg' (fst key)" if "epoch_at reg' key = Some ep" for key ep
    using that inv_epoch[OF issued(1), of key ep] issued(3,5,9) fields
    by (cases "key = (?p, n)") (auto simp: at iss' epoch_ok_new)
  moreover have "m \<le> issued_to reg' q" if "bt_get (rg_retired_through reg') q = Some m" for q m
  proof -
    have "rg_retired_through reg' = rg_retired_through reg1" using issued(13) by (simp add: with_epoch_def)
    with that inv_retired[OF issued(1), of q m] issued(5,9) iss'[of q] show ?thesis by (auto split: if_splits)
  qed
  ultimately have "replay_inv reg'" using wf fields issued(12) unfolding replay_inv_def by simp
  moreover have "settled_at reg' k m" if "settled_at reg k m" for k m
  proof -
    have "settled_at reg1 k m" using that issued(2) by blast
    then show ?thesis using fresh issued(5,9)
      by (cases "k = (?p, n)"; cases "epoch_at reg1 k") (auto simp: settled_at_def at iss')
  qed
  ultimately show ?thesis by blast
qed

definition registered :: "'r replay_registry \<Rightarrow> replay_key \<Rightarrow> nat \<Rightarrow> nat option" where
  "registered reg key sqn = Option.bind (epoch_at reg key) (\<lambda>ep. bt_get (ep_operations ep) sqn)"

lemma register_cases:
  assumes inv: "replay_inv reg" and "sequence oid \<le> U64_MAX" and reg: "replay_register key oid fp reg = (reg', r)"
  obtains (refused) e where "r = Err e" "same_epochs reg reg' \<or> reg' = reg"
  | (entered) ep ep' where "epoch_at reg key = Some ep" "epoch_register (rg_cells reg) (sequence oid) fp ep = ((rg_cells reg', ep'), r)"
      "epoch_at reg' = (epoch_at reg)(key \<mapsto> ep')" "bt_wf (rg_epochs reg')" "length (rg_epochs reg') = length (rg_epochs reg)"
      "rg_issued_through reg' = rg_issued_through reg" "rg_retired_through reg' = rg_retired_through reg"
proof -
  obtain access reg1 where acc: "next_access reg = (access, reg1)" by fastforce
  have wf: "bt_wf (rg_epochs reg)" using inv by (simp add: replay_inv_def)
  note same = next_access_same[OF acc wf]
  have eqs: "rg_cells reg1 = rg_cells reg" "epoch_at reg1 = epoch_at reg" "bt_wf (rg_epochs reg1)"
    "length (rg_epochs reg1) = length (rg_epochs reg)" "rg_issued_through reg1 = rg_issued_through reg"
    "rg_retired_through reg1 = rg_retired_through reg"
    using same by (simp_all add: same_epochs_def)
  show thesis
  proof (cases "bt_get (rg_epochs reg1) key")
    case None
    with reg acc same show thesis
      by (intro refused) (auto simp: replay_register_def split: if_splits)
  next
    case (Some entry)
    obtain cells ep res where er: "epoch_register (rg_cells reg1) (sequence oid) fp (re_epoch entry) = ((cells, ep), res)"
      by (metis prod.collapse)
    let ?reg = "reg1\<lparr>rg_epochs := bt_insert key \<lparr>re_epoch = ep, re_last_access = access\<rparr> (rg_epochs reg1), rg_cells := cells\<rparr>"
    have "(\<exists>e. r = Err e) \<and> reg' = reg \<or> (reg', r) = (?reg, res)"
      using reg acc Some er by (auto simp: replay_register_def split: if_splits)
    then show thesis
    proof
      assume "(\<exists>e. r = Err e) \<and> reg' = reg"
      then show thesis using refused by blast
    next
      assume *: "(reg', r) = (?reg, res)"
      have at: "epoch_at reg key = Some (re_epoch entry)" using Some eqs(2) by (metis epoch_at_def option.simps(9))
      have "epoch_at ?reg = (epoch_at reg)(key \<mapsto> ep)" unfolding eqs(2)[symmetric] by (auto simp: epoch_at_def fun_eq_iff)
      moreover have "length (rg_epochs ?reg) = length (rg_epochs reg)"
        using Some eqs(3,4) by (simp add: length_bt_insert_old bt_get_SomeD)
      ultimately show thesis
        using * at er eqs by (intro entered[of "re_epoch entry" ep]) simp_all
    qed
  qed
qed

text \<open>What every step keeps: the invariant, what is settled, and the cells with their
  fingerprints and results; and an operation that was registered keeps its cell until it is
  given up.\<close>

definition cells_kept :: "'r replay_registry \<Rightarrow> 'r replay_registry \<Rightarrow> bool" where
  "cells_kept reg reg' \<longleftrightarrow> length (rg_cells reg) \<le> length (rg_cells reg') \<and>
     (\<forall>a < length (rg_cells reg). oc_fingerprint (rg_cells reg' ! a) = oc_fingerprint (rg_cells reg ! a) \<and>
        (\<forall>r. oc_result (rg_cells reg ! a) = Some r \<longrightarrow> oc_result (rg_cells reg' ! a) = Some r))"

definition kept :: "'r replay_registry \<Rightarrow> 'r replay_registry \<Rightarrow> bool" where
  "kept reg reg' \<longleftrightarrow> replay_inv reg' \<and> cells_kept reg reg' \<and> (\<forall>key sqn. settled_at reg key sqn \<longrightarrow> settled_at reg' key sqn \<and>
     (\<forall>a. registered reg' key sqn = Some a \<longrightarrow> registered reg key sqn = Some a))"

lemma cells_kept_refl [simp]: "rg_cells reg' = rg_cells reg \<Longrightarrow> cells_kept reg reg'"
  by (simp add: cells_kept_def)

lemma registered_eq: "epoch_at reg' = epoch_at reg \<Longrightarrow> registered reg' = registered reg"
  by (simp add: registered_def[abs_def])

lemma same_epochs_kept: "replay_inv reg \<Longrightarrow> same_epochs reg reg' \<Longrightarrow> kept reg reg'"
  using same_epochs_inv[of reg reg'] same_epochs_settled[of reg reg'] registered_eq[of reg' reg]
  by (auto simp: kept_def same_epochs_def)

lemma kept_refl: "replay_inv reg \<Longrightarrow> kept reg reg"
  by (simp add: kept_def)

lemma registered_back:
  "registered reg' key sqn = Some a \<Longrightarrow> \<forall>key. epoch_at reg' key \<noteq> None \<longrightarrow> epoch_at reg' key = epoch_at reg key \<Longrightarrow>
   registered reg key sqn = Some a"
  unfolding registered_def by (metis bind_eq_Some_conv option.distinct(1))

lemma issue_kept:
  assumes inv: "replay_inv reg" and iss: "issue p reg = (reg', r)"
  shows "kept reg reg'"
  using inv iss
proof (cases rule: issue_cases)
  case (failed e)
  show ?thesis
  proof (cases "reg' = reg")
    case False
    with failed obtain e' where "retire_until_room reg = (reg', Err e')" by blast
    note keeps = retire_until_room_keeps[OF inv this]
    then have "registered reg' key sqn = Some a \<Longrightarrow> registered reg key sqn = Some a" for key sqn a
      by (blast intro: registered_back)
    with keeps show ?thesis by (simp add: kept_def)
  qed (use inv kept_refl in simp)
next
  case (issued reg1 n e)
  let ?p = "replay_principal_of p"
  have "registered reg key sqn = Some a" if "registered reg' key sqn = Some a" for key sqn a
  proof -
    have "epoch_at reg' key = (if key = (?p, n) then Some \<lparr>ep_low_water = 0, ep_operations = []\<rparr> else epoch_at reg1 key)"
      using issued(11,13) epoch_at_with[of "(?p, n)" e reg1 key] by (simp add: epoch_at_def with_epoch_def)
    with that have "registered reg1 key sqn = Some a" by (auto simp: registered_def split: if_splits)
    then show ?thesis using issued(8) by (rule registered_back)
  qed
  moreover have "rg_cells reg' = rg_cells reg" using issued(3,13) by (simp add: with_epoch_def)
  ultimately show ?thesis using issue_keeps[OF inv iss] by (auto simp: kept_def)
qed

lemma register_kept:
  assumes inv: "replay_inv reg" and seq: "sequence oid \<le> U64_MAX" and reg: "replay_register key oid fp reg = (reg', r)"
  shows "kept reg reg' \<and>
    (case r of
       Ok (ReplayExecute a) \<Rightarrow> \<not> settled_at reg key (sequence oid) \<and> settled_at reg' key (sequence oid) \<and>
         registered reg' key (sequence oid) = Some a \<and> a < length (rg_cells reg') \<and> oc_fingerprint (rg_cells reg' ! a) = fp
     | Ok (ReplayJoin a) \<Rightarrow> registered reg key (sequence oid) = Some a \<and> oc_fingerprint (rg_cells reg ! a) = fp
     | Err e \<Rightarrow> True)"
  using inv seq reg
proof (cases rule: register_cases)
  case (refused e)
  then show ?thesis using inv kept_refl same_epochs_kept by auto
next
  case (entered ep ep')
  have ok: "epoch_ok (length (rg_cells reg)) ep" using inv_epoch[OF inv entered(1)] by blast
  note er = epoch_register_cases[OF ok seq entered(2)]
  have cells: "cells_kept reg reg'"
    using er by (auto simp: cells_kept_def nth_append split: result.splits replay_registration.splits)
  have issued: "issued_to reg' = issued_to reg" using entered(6) by (simp add: issued_to_def[abs_def])
  have "epoch_ok (length (rg_cells reg')) x \<and> snd k \<le> issued_to reg' (fst k)" if "epoch_at reg' k = Some x" for k x
    using that inv_epoch[OF inv, of k x] inv_epoch[OF inv entered(1)] er cells issued entered(3)
    by (cases "k = key") (auto simp: cells_kept_def intro: epoch_ok_mono)
  then have inv': "replay_inv reg'"
    using inv entered(4-7) inv_retired[OF inv] issued unfolding replay_inv_def by simp
  have settled: "settled_at reg' k n" if "settled_at reg k n" for k n
    using that conjunct1[OF conjunct2[OF er]] entered(1,3) issued
    by (cases "k = key"; cases "epoch_at reg k") (simp_all add: settled_at_def)
  have older: "registered reg k n = Some a" if "settled_at reg k n" "registered reg' k n = Some a" for k n a
  proof (cases "k = key")
    case True
    with that entered(1,3) er show ?thesis
      by (cases "n = sequence oid")
        (auto simp: registered_def settled_at_def split: result.splits replay_registration.splits)
  qed (use that entered(3) in \<open>simp add: registered_def\<close>)
  have "kept reg reg'" using inv' cells settled older by (simp add: kept_def)
  with er entered(1,3) show ?thesis
    by (auto simp: settled_at_def registered_def op_cell_new_def split: result.splits replay_registration.splits)
qed

lemma complete_kept:
  assumes "replay_inv reg"
  shows "kept reg (complete_operation a r reg)"
proof -
  let ?reg = "complete_operation a r reg"
  have at: "epoch_at ?reg = epoch_at reg" "issued_to ?reg = issued_to reg"
    by (simp_all add: epoch_at_def[abs_def] issued_to_def[abs_def] complete_operation_def)
  have fields: "rg_epochs ?reg = rg_epochs reg" "rg_issued_through ?reg = rg_issued_through reg" "length (rg_cells ?reg) = length (rg_cells reg)"
    "rg_retired_through ?reg = rg_retired_through reg"
    by (simp_all add: complete_operation_def)
  have "settled_at ?reg key n = settled_at reg key n" for key n unfolding settled_at_def at ..
  moreover have "registered ?reg = registered reg" by (rule registered_eq) (rule at)
  moreover have "replay_inv ?reg" using assms unfolding replay_inv_def at fields .
  moreover have "cells_kept reg ?reg"
    by (cases "a < length (rg_cells reg)")
      (auto simp: cells_kept_def complete_operation_def op_cell_complete_def nth_list_update)
  ultimately show ?thesis by (simp add: kept_def)
qed

lemma step_kept: "replay_inv reg \<Longrightarrow> replay_input_ok i \<Longrightarrow> kept reg (fst (replay_step reg i))"
  by (cases i) (auto simp: complete_kept split: prod.split dest: issue_kept register_kept)

subsection \<open>Runs execute every operation once\<close>

interpretation replay: exactly_once replay_step replay_inv replay_input_ok replay_input_key started settled
proof (unfold_locales, goal_cases)
  case (1 s i)
  then show ?case using step_kept[of s i] by (simp add: kept_def)
next
  case (2 s i k)
  then have "kept s (fst (replay_step s i))" by (simp add: step_kept)
  then show ?case using 2(3) unfolding kept_def by (cases k) (simp, metis settled.simps(2))
next
  case (3 s i)
  then show ?case
  proof (cases i)
    case (RegisterOperation p oid fp)
    with 3 register_kept[of s oid "replay_key_new p (ordinal (lease oid))" fp] show ?thesis
      by (auto split: prod.splits result.splits replay_registration.splits elim!: started.elims)
  qed (auto split: prod.splits)
next
  case (4 s i)
  then show ?case
  proof (cases i)
    case (RegisterOperation p oid fp)
    with 4 register_kept[of s oid "replay_key_new p (ordinal (lease oid))" fp] show ?thesis
      by (auto split: prod.splits result.splits replay_registration.splits elim!: started.elims)
  qed (auto split: prod.splits)
qed

lemma replay_inv_new: "replay_inv (replay_registry_new incarnation)"
  by (simp add: replay_inv_def replay_registry_new_def epoch_at_def)

text \<open>C24: every operation on the sessions of a daemon runs at most once.  In whatever order
  leases are issued, operations are requested, repeated and completed, no combination of
  principal, lease and sequence number is executed twice, also after its result was evicted
  or its lease was retired, and the registry stays within its bounds.\<close>

theorem session_operations_run_once:
  assumes "list_all replay_input_ok is"
  shows "distinct (ran_keys replay_step replay_input_key started (replay_registry_new incarnation) is) \<and>
    (let reg = fst (trace_run replay_step (replay_registry_new incarnation) is) in
     length (rg_epochs reg) \<le> MAX_ACTIVE_OPERATION_EPOCHS \<and> length (rg_issued_through reg) \<le> MAX_REPLAY_PRINCIPALS \<and>
     (\<forall>key ep. epoch_at reg key = Some ep \<longrightarrow> length (ep_operations ep) \<le> OPERATION_RESULTS_PER_EPOCH))"
proof -
  have "replay_inv (fst (trace_run replay_step (replay_registry_new incarnation) is))"
    using replay.inv_trace[OF replay_inv_new assms] .
  then show ?thesis
    using replay.ran_keys_distinct[OF replay_inv_new assms] inv_epoch
    unfolding Let_def replay_inv_def[of "fst _"] epoch_ok_def by blast
qed

subsection \<open>A retry joins its execution\<close>

lemma kept_trans: "kept a b \<Longrightarrow> kept b c \<Longrightarrow> kept a c"
proof -
  assume ab: "kept a b" and bc: "kept b c"
  have "cells_kept a c"
    using ab bc unfolding kept_def cells_kept_def by (metis order.strict_trans2 order.trans)
  with ab bc show "kept a c" unfolding kept_def by blast
qed

lemma trace_kept:
  "replay_inv reg \<Longrightarrow> list_all replay_input_ok is \<Longrightarrow> kept reg (fst (trace_run replay_step reg is))"
proof (induction "is" arbitrary: reg)
  case (Cons i "is")
  then have one: "kept reg (fst (replay_step reg i))" by (simp add: step_kept)
  then have "replay_inv (fst (replay_step reg i))" unfolding kept_def by blast
  then have "kept (fst (replay_step reg i)) (fst (trace_run replay_step (fst (replay_step reg i)) is))"
    using Cons.IH Cons.prems(2) by simp
  then show ?case using kept_trans[OF one] by simp
qed (simp add: kept_refl)

text \<open>A retry is answered by the execution of the same request.  When an operation was
  started and a later request with the same identifier joins an execution, it joins that one,
  the two requests ask for the same operation, and the result it waits for is the result of
  that execution, however the other requests interleave.\<close>

theorem retry_joins_execution:
  assumes "list_all replay_input_ok (before @ RegisterOperation p oid fp # between @ [RegisterOperation p oid fp'])"
    and "reg0 = fst (trace_run replay_step (replay_registry_new incarnation) before)"
    and "replay_step reg0 (RegisterOperation p oid fp) = (reg1, RegisterAnswer (Ok (ReplayExecute a)))"
    and "reg2 = fst (trace_run replay_step reg1 between)"
    and "replay_step reg2 (RegisterOperation p oid fp') = (reg3, RegisterAnswer (Ok (ReplayJoin b)))"
  shows "b = a \<and> fp' = fp \<and> (\<forall>r. wait_operation a reg2 = Some r \<longrightarrow> wait_operation b reg3 = Some r)"
proof -
  let ?key = "replay_key_new p (ordinal (lease oid))"
  have inputs: "list_all replay_input_ok before" "sequence oid \<le> U64_MAX" "list_all replay_input_ok between"
    using assms(1) by auto
  have inv0: "replay_inv reg0" using trace_kept[OF replay_inv_new inputs(1)] unfolding assms(2) kept_def by blast
  have "replay_register ?key oid fp reg0 = (reg1, Ok (ReplayExecute a))" using assms(3) by (auto split: prod.splits)
  from register_kept[OF inv0 inputs(2) this] have first: "kept reg0 reg1" "settled_at reg1 ?key (sequence oid)"
    "registered reg1 ?key (sequence oid) = Some a" "a < length (rg_cells reg1)" "oc_fingerprint (rg_cells reg1 ! a) = fp"
    by simp_all
  have "replay_inv reg1" using first(1) unfolding kept_def by blast
  from trace_kept[OF this inputs(3)] have between: "kept reg1 reg2" using assms(4) by simp
  then have inv2: "replay_inv reg2" unfolding kept_def by blast
  have "replay_register ?key oid fp' reg2 = (reg3, Ok (ReplayJoin b))" using assms(5) by (auto split: prod.splits)
  from register_kept[OF inv2 inputs(2) this] have second: "kept reg2 reg3" "registered reg2 ?key (sequence oid) = Some b"
    "oc_fingerprint (rg_cells reg2 ! b) = fp'"
    by simp_all
  have "registered reg1 ?key (sequence oid) = Some b" using between first(2) second(2) unfolding kept_def by blast
  with first(3) have b: "b = a" by simp
  moreover have "fp' = fp" using between first(4,5) second(3) b unfolding kept_def cells_kept_def by auto
  moreover have "a < length (rg_cells reg2)" using between first(4) unfolding kept_def cells_kept_def by (meson order.strict_trans2)
  ultimately show ?thesis using second(1) unfolding kept_def cells_kept_def wait_operation_def by auto
qed

subsection \<open>Leases can be issued\<close>

definition idle :: "'r replay_registry \<Rightarrow> bool" where
  "idle reg \<longleftrightarrow> list_all (\<lambda>c. oc_result c \<noteq> None) (rg_cells reg)"

lemma idle_prefix_complete:
  assumes "replay_inv reg" "idle reg"
  shows "prefix_complete reg key"
proof -
  have "epoch_is_fully_complete (rg_cells reg) (re_epoch e)" if "(k, e) \<in> set (rg_epochs reg)" for k e
  proof -
    have "bt_get (rg_epochs reg) k = Some e" using that assms(1) by (simp add: bt_get_in_set replay_inv_def)
    then have ok: "epoch_ok (length (rg_cells reg)) (re_epoch e)" using inv_epoch[OF assms(1), of k "re_epoch e"] by (simp add: epoch_at_def)
    have "cell_is_complete (rg_cells reg) a" if "(n, a) \<in> set (ep_operations (re_epoch e))" for n a
    proof -
      have "bt_get (ep_operations (re_epoch e)) n = Some a" using that ok by (simp add: bt_get_in_set epoch_ok_def)
      then have "a < length (rg_cells reg)" using ok by (simp add: epoch_ok_def)
      then show ?thesis using assms(2) by (simp add: idle_def cell_is_complete_def list_all_length)
    qed
    then show ?thesis by (auto simp: epoch_is_fully_complete_def list_all_iff)
  qed
  then show ?thesis unfolding prefix_complete_def list_all_iff by fastforce
qed

lemma retire_until_room_idle:
  "replay_inv reg \<Longrightarrow> idle reg \<Longrightarrow> snd (retire_until_room reg) = Ok ()"
proof (induction reg rule: retire_until_room.induct)
  case (1 reg)
  show ?case
  proof (cases "length (rg_epochs reg) < MAX_ACTIVE_OPERATION_EPOCHS")
    case True
    then show ?thesis by (subst retire_until_room.simps) simp
  next
    case False
    show ?thesis
    proof (rule retire_one_cases[of reg])
      assume full: "\<forall>key\<in>bt_keys (rg_epochs reg). \<not> prefix_complete reg key"
      have "rg_epochs reg \<noteq> []" using False by (auto simp: MAX_ACTIVE_OPERATION_EPOCHS_def)
      then have "fst (hd (rg_epochs reg)) \<in> bt_keys (rg_epochs reg)" by (simp add: bt_keys_def)
      with full idle_prefix_complete[OF 1(2,3)] show ?thesis by blast
    next
      fix key bound
      assume ret: "retire_one reg = (retired_up_to key bound reg, Ok ())" and key: "key \<in> bt_keys (rg_epochs reg)"
        and bound: "bound = max (case bt_get (rg_retired_through reg) (fst key) of Some n \<Rightarrow> n | None \<Rightarrow> 0) (snd key)"
      have "bound \<le> issued_to reg (fst key)" using retire_bound[OF 1(2) key] bound by simp
      note inv' = retired_inv[OF 1(2) this]
      have "idle (retired_up_to key bound reg)" using 1(3) by (simp add: idle_def)
      from 1(1)[OF False ret[symmetric] refl inv' this] False ret show ?thesis
        by (subst retire_until_room.simps) simp
    qed
  qed
qed

text \<open>A lease just issued is usable.\<close>

lemma fresh_lease_executes:
  assumes inv: "replay_inv reg" and iss: "issue p reg = (reg', Ok l)"
  shows "\<exists>reg'' a. replay_register (replay_key_new p (ordinal l)) \<lparr>lease = l, sequence = 1\<rparr> fp reg' = (reg'', Ok (ReplayExecute a))"
  using inv iss
proof (cases rule: issue_cases)
  case (issued reg1 n e)
  let ?p = "replay_principal_of p"
  have l: "l = \<lparr>daemon_incarnation = rg_incarnation reg, ordinal = n\<rparr>" using issued(14) by simp
  have at: "epoch_at reg' (?p, n) = Some \<lparr>ep_low_water = 0, ep_operations = []\<rparr>"
    using issued(11,13) epoch_at_with[of "(?p, n)" e reg1 "(?p, n)"] by (simp add: epoch_at_def with_epoch_def)
  have fields: "rg_incarnation reg' = rg_incarnation reg" "rg_retired_through reg' = rg_retired_through reg1"
    "bt_get (rg_issued_through reg') ?p = Some n"
    using issued(4,13) by (simp_all add: with_epoch_def)
  have "\<not> n \<le> m" if "bt_get (rg_retired_through reg1) ?p = Some m" for m
    using inv_retired[OF issued(1) that] issued(5,9) by simp
  then have floor: "\<not> (case bt_get (rg_retired_through reg') ?p of None \<Rightarrow> False | Some m \<Rightarrow> n \<le> m)"
    using fields(2) by (auto split: option.splits)
  obtain access reg2 where acc: "next_access reg' = (access, reg2)" by fastforce
  have "bt_wf (rg_epochs reg')" using issue_keeps[OF inv iss] by (simp add: replay_inv_def)
  from next_access_same[OF acc this] at have at2: "epoch_at reg2 (?p, n) = Some \<lparr>ep_low_water = 0, ep_operations = []\<rparr>"
    by (simp add: same_epochs_def)
  then obtain entry where "bt_get (rg_epochs reg2) (?p, n) = Some entry" "re_epoch entry = \<lparr>ep_low_water = 0, ep_operations = []\<rparr>"
    by (auto simp: epoch_at_def)
  then show ?thesis
    using fields floor acc unfolding l replay_register_def replay_key_new_def
    by (simp add: epoch_register_def split: option.splits)
qed simp

text \<open>C25: issuing a lease always ends, and it succeeds whenever no operation is in flight.  The
  loop that retires old epochs then frees a slot; only the bound on principals and the end of
  the 64-bit ordinals stand in the way.  The new lease has the next ordinal of its principal
  and the first operation under it is executed.\<close>

theorem lease_issued_when_idle:
  assumes "list_all replay_input_ok is" "reg = fst (trace_run replay_step (replay_registry_new incarnation) is)" "idle reg"
    and "bt_contains (rg_issued_through reg) (replay_principal_of p) \<or> length (rg_issued_through reg) < MAX_REPLAY_PRINCIPALS"
    and "issued_to reg (replay_principal_of p) < U64_MAX"
  shows "\<exists>reg' l. issue p reg = (reg', Ok l) \<and> ordinal l = issued_to reg (replay_principal_of p) + 1 \<and>
    (\<exists>reg'' a. replay_register (replay_key_new p (ordinal l)) \<lparr>lease = l, sequence = 1\<rparr> fp reg' = (reg'', Ok (ReplayExecute a)))"
proof -
  have inv: "replay_inv reg" unfolding assms(2) using replay.inv_trace[OF replay_inv_new assms(1)] .
  obtain reg1 where room: "retire_until_room reg = (reg1, Ok ())"
    using retire_until_room_idle[OF inv assms(3)] by (metis prod.collapse)
  have add: "checked_add U64_MAX (issued_to reg (replay_principal_of p)) 1 = Some (issued_to reg (replay_principal_of p) + 1)"
    using assms(5) by (simp add: checked_add_def)
  obtain access reg2 where acc: "next_access reg1 = (access, reg2)" by fastforce
  have "\<not> (\<not> bt_contains (rg_issued_through reg) (replay_principal_of p) \<and> length (rg_issued_through reg) \<ge> MAX_REPLAY_PRINCIPALS)"
    using assms(4) by auto
  then obtain reg' where "issue p reg = (reg', Ok \<lparr>daemon_incarnation = rg_incarnation reg2, ordinal = issued_to reg (replay_principal_of p) + 1\<rparr>)"
    unfolding issue_def Let_def issued_to_def[symmetric]
    by (simp only: if_False add option.case room prod.case result.case acc)
  with fresh_lease_executes[OF inv this] show ?thesis by auto
qed

subsection \<open>An example run\<close>

definition demo_principal :: attachment_principal where "demo_principal = RemoteEndpoint [7] 3"

definition demo_operation :: operation_id where
  "demo_operation = \<lparr>lease = \<lparr>daemon_incarnation = [1], ordinal = 1\<rparr>, sequence = 1\<rparr>"

definition demo_issued :: "nat replay_registry" where
  "demo_issued = \<lparr>rg_incarnation = [1],
     rg_epochs = [((([7], 3), 1), \<lparr>re_epoch = \<lparr>ep_low_water = 0, ep_operations = []\<rparr>, re_last_access = 1\<rparr>)],
     rg_retired_through = [], rg_issued_through = [(([7], 3), 1)], rg_access_clock = 1, rg_cells = []\<rparr>"

definition demo_registered :: "nat \<Rightarrow> nat option \<Rightarrow> nat replay_registry" where
  "demo_registered clock r = demo_issued\<lparr>
     rg_epochs := [((([7], 3), 1), \<lparr>re_epoch = \<lparr>ep_low_water = 0, ep_operations = [(1, 0)]\<rparr>, re_last_access = clock\<rparr>)],
     rg_access_clock := clock, rg_cells := [\<lparr>oc_fingerprint = FingerprintClose [5], oc_result = r\<rparr>]\<rparr>"

lemmas demo_defs = demo_principal_def demo_operation_def demo_issued_def demo_registered_def replay_key_new_def
  next_access_def Let_def op_cell_new_def

lemma demo_issue:
  "replay_step (replay_registry_new [1]) (IssueLease demo_principal) =
    (demo_issued, LeaseAnswer (Ok \<lparr>daemon_incarnation = [1], ordinal = 1\<rparr>))"
  by (simp add: demo_defs replay_registry_new_def issue_def retire_until_room.simps checked_add_def
      MAX_REPLAY_PRINCIPALS_def MAX_ACTIVE_OPERATION_EPOCHS_def)

lemma demo_execute:
  "replay_step demo_issued (RegisterOperation demo_principal demo_operation (FingerprintClose [5])) =
    (demo_registered 2 None, RegisterAnswer (Ok (ReplayExecute 0)))"
  by (simp add: demo_defs replay_register_def epoch_register_def)

lemma demo_complete: "replay_step (demo_registered 2 None) (CompleteOperation 0 42) = (demo_registered 2 (Some 42), NoAnswer)"
  by (simp add: demo_defs complete_operation_def op_cell_complete_def)

lemma demo_join:
  "replay_step (demo_registered 2 (Some 42)) (RegisterOperation demo_principal demo_operation (FingerprintClose [5])) =
    (demo_registered 3 (Some 42), RegisterAnswer (Ok (ReplayJoin 0)))"
  by (simp add: demo_defs replay_register_def epoch_register_def)

definition demo_inputs :: "nat replay_input list" where
  "demo_inputs = [IssueLease demo_principal, RegisterOperation demo_principal demo_operation (FingerprintClose [5]),
     CompleteOperation 0 42, RegisterOperation demo_principal demo_operation (FingerprintClose [5])]"

lemma demo_ran: "ran_keys replay_step replay_input_key started (replay_registry_new [1]) demo_inputs = [Some ((([7], 3), 1), 1)]"
  unfolding demo_inputs_def ran_keys_Cons demo_issue demo_execute demo_complete demo_join fst_conv snd_conv
  by (simp add: demo_principal_def demo_operation_def replay_key_new_def)

theorem session_operations_run_once_witness:
  "ran_keys replay_step replay_input_key started (replay_registry_new [1]) demo_inputs = [Some ((([7], 3), 1), 1)] \<and>
   length (rg_epochs (fst (trace_run replay_step (replay_registry_new [1]) demo_inputs))) \<le> MAX_ACTIVE_OPERATION_EPOCHS"
  using session_operations_run_once[of demo_inputs "[1]"] demo_ran
  by (simp add: demo_inputs_def demo_operation_def Let_def)

theorem retry_joins_execution_witness: "wait_operation 0 (demo_registered 3 (Some 42)) = Some 42"
proof -
  have "trace_run replay_step (replay_registry_new [1]) [IssueLease demo_principal] =
      (demo_issued, [LeaseAnswer (Ok \<lparr>daemon_incarnation = [1], ordinal = 1\<rparr>)])"
    "trace_run replay_step (demo_registered 2 None) [CompleteOperation 0 42] = (demo_registered 2 (Some 42), [NoAnswer])"
    by (simp_all only: trace_run_Cons demo_issue demo_complete fst_conv snd_conv trace_run.simps(1))
  moreover have "wait_operation 0 (demo_registered 2 (Some 42)) = Some 42" by (simp add: wait_operation_def demo_registered_def)
  moreover have "list_all replay_input_ok ([IssueLease demo_principal] @ RegisterOperation demo_principal demo_operation (FingerprintClose [5]) #
      [CompleteOperation 0 42] @ [RegisterOperation demo_principal demo_operation (FingerprintClose [5])])"
    by (simp add: demo_operation_def)
  ultimately show ?thesis
    using retry_joins_execution[OF _ _ demo_execute _ demo_join, of "[IssueLease demo_principal]" "[CompleteOperation 0 42]" "[1]"]
    by simp
qed

theorem lease_issued_when_idle_witness:
  "\<exists>reg' l. issue demo_principal demo_issued = (reg', Ok l) \<and> ordinal l = 2"
proof -
  have "demo_issued = fst (trace_run replay_step (replay_registry_new [1]) [IssueLease demo_principal])"
    by (simp only: trace_run_Cons demo_issue fst_conv snd_conv trace_run.simps(1))
  moreover have "idle demo_issued" "bt_contains (rg_issued_through demo_issued) (replay_principal_of demo_principal)"
    "issued_to demo_issued (replay_principal_of demo_principal) = 1"
    by (simp_all add: idle_def demo_issued_def demo_principal_def issued_to_def)
  ultimately show ?thesis
    using lease_issued_when_idle[of "[IssueLease demo_principal]" demo_issued "[1]" demo_principal "FingerprintClose []"]
    by auto
qed

end
