(* ===== verification/Session_Registry.thy ===== *)
theory Session_Registry
  imports Session_Replay Traces
begin

section \<open>The registry of live sessions\<close>

text \<open>
  The session registry of \<open>daemon/src/session.rs\<close>: names, identities and the session-count
  reservations of sessions that are being created, live, or ending, and the creation of a
  session as a sequence of separately locked sections.

  Creation cells and actors are shared (\<open>Arc\<close>), so they live in lists addressed by index; an
  ownership token is the address of the creation cell it was allocated with.  The threads of
  the daemon interleave at the sections: a creation is a record \<open>creation_owner\<close> with the
  section it executes next, an actor has a worker that exits at any time, and a run is a
  list of events, each executing one section.  Spawning the process, the clock and the random
  identities are arguments of the events.  A lock may be poisoned at any time; the cleanup
  sections clear the poison and go on, the others fail.

  The invariant and the results are in \<open>Session_Places\<close> and \<open>Session_Lifecycle\<close>.
\<close>

subsection \<open>State\<close>

record session_entry =
  se_actor :: nat
  se_name :: session_name
  se_working_directory :: path
  se_ownership :: nat

datatype name_slot = SlotStarting nat "session_id option" | SlotLive session_id nat

datatype name_reservation = ReservationOwner nat | ReservationWaiting nat | ReservationExisting session_entry

record creation_cell =
  cc_result :: "(session_entry, domain_error_kind) result option"
  cc_cancelled :: bool
  cc_ownership :: nat

datatype worker_state = WorkerRunning | WorkerDone | WorkerFinalized

record actor_cell =
  ac_id :: session_id
  ac_worker :: worker_state
  ac_registry_owned :: bool

record session_registry =
  sr_by_id :: "(session_id, session_entry) bmap"
  sr_provisional :: "(session_id, session_entry) bmap"
  sr_cleanup_only :: "session_entry list"
  sr_by_name :: "(session_name, name_slot) bmap"
  sr_accepting :: bool
  sr_reservations :: "(session_id, nat) bmap"
  sr_state_poisoned :: bool
  sr_reservations_poisoned :: bool
  sr_creations :: "creation_cell list"
  sr_actors :: "actor_cell list"

definition session_registry_default :: session_registry where
  "session_registry_default = \<lparr>sr_by_id = [], sr_provisional = [], sr_cleanup_only = [], sr_by_name = [],
     sr_accepting = True, sr_reservations = [], sr_state_poisoned = False, sr_reservations_poisoned = False,
     sr_creations = [], sr_actors = []\<rparr>"

definition creation_cell_default :: "nat \<Rightarrow> creation_cell" where
  "creation_cell_default token = \<lparr>cc_result = None, cc_cancelled = False, cc_ownership = token\<rparr>"

subsection \<open>Locks and creation cells\<close>

definition cleanup_lock_state :: "session_registry \<Rightarrow> session_registry" where
  "cleanup_lock_state r = r\<lparr>sr_state_poisoned := False\<rparr>"

definition cleanup_lock_reservations :: "session_registry \<Rightarrow> session_registry" where
  "cleanup_lock_reservations r = r\<lparr>sr_reservations_poisoned := False\<rparr>"

definition creation_complete :: "nat \<Rightarrow> (session_entry, domain_error_kind) result \<Rightarrow> session_registry \<Rightarrow> session_registry" where
  "creation_complete c res r =
    (case cc_result (sr_creations r ! c) of
       None \<Rightarrow> r\<lparr>sr_creations := (sr_creations r)[c := (sr_creations r ! c)\<lparr>cc_result := Some res\<rparr>]\<rparr>
     | Some _ \<Rightarrow> r)"

definition creation_cancel :: "nat \<Rightarrow> session_registry \<Rightarrow> session_registry" where
  "creation_cancel c r =
    creation_complete c (Err Cancelled)
      (r\<lparr>sr_creations := (sr_creations r)[c := (sr_creations r ! c)\<lparr>cc_cancelled := True\<rparr>]\<rparr>)"

definition is_cancelled :: "session_registry \<Rightarrow> nat \<Rightarrow> bool" where
  "is_cancelled r c \<longleftrightarrow> cc_cancelled (sr_creations r ! c)"

text \<open>One look of a waiting request at the cell: an answer, or nothing yet.  \<open>now\<close> and
  \<open>deadline\<close> are the clock and the deadline of the request.\<close>

definition creation_poll :: "nat \<Rightarrow> nat \<Rightarrow> nat \<Rightarrow> session_registry \<Rightarrow>
    ((session_entry, domain_error_kind) result, domain_error_kind) result option" where
  "creation_poll c now deadline r =
    (case cc_result (sr_creations r ! c) of
       Some res \<Rightarrow> Some (Ok res)
     | None \<Rightarrow> if deadline \<le> now then Some (Err DeadlineExceeded) else None)"

definition actor_id :: "session_registry \<Rightarrow> nat \<Rightarrow> session_id" where
  "actor_id r a = ac_id (sr_actors r ! a)"

definition worker_done :: "session_registry \<Rightarrow> nat \<Rightarrow> bool" where
  "worker_done r a \<longleftrightarrow> ac_worker (sr_actors r ! a) \<noteq> WorkerRunning"

subsection \<open>Sections of the registry\<close>

definition reserve_name :: "session_name \<Rightarrow> bool \<Rightarrow> session_registry \<Rightarrow>
    session_registry \<times> (name_reservation, domain_error_kind) result" where
  "reserve_name name wait_for_starting r =
    (if sr_state_poisoned r then (r, Err StoreUnavailable)
     else if \<not> sr_accepting r then (r, Err Cancelled)
     else case bt_get (sr_by_name r) name of
       Some (SlotLive session_id _) \<Rightarrow> (r, res_bind (ok_or (bt_get (sr_by_id r) session_id) SessionNotFound) (Ok \<circ> ReservationExisting))
     | Some (SlotStarting creation _) \<Rightarrow>
         (r, if wait_for_starting then Ok (ReservationWaiting creation) else Err SessionAlreadyExists)
     | None \<Rightarrow>
         (let creation = length (sr_creations r) in
          (r\<lparr>sr_creations := sr_creations r @ [creation_cell_default creation],
             sr_by_name := bt_insert name (SlotStarting creation None) (sr_by_name r)\<rparr>,
           Ok (ReservationOwner creation))))"

definition owns_starting :: "session_registry \<Rightarrow> session_name \<Rightarrow> nat \<Rightarrow> session_id option \<Rightarrow> bool" where
  "owns_starting r name creation session_id \<longleftrightarrow>
    (case bt_get (sr_by_name r) name of
       Some (SlotStarting current current_id) \<Rightarrow> current = creation \<and> current_id = session_id
     | _ \<Rightarrow> False)"

definition starting_token :: "session_registry \<Rightarrow> session_name \<Rightarrow> session_id \<Rightarrow> nat \<Rightarrow> bool" where
  "starting_token r name session_id token \<longleftrightarrow>
    (case bt_get (sr_by_name r) name of
       Some (SlotStarting creation (Some current_id)) \<Rightarrow>
         current_id = session_id \<and> cc_ownership (sr_creations r ! creation) = token
     | _ \<Rightarrow> False)"

definition holds_actor :: "(session_id, session_entry) bmap \<Rightarrow> session_id \<Rightarrow> nat \<Rightarrow> bool" where
  "holds_actor m session_id actor \<longleftrightarrow>
    (case bt_get m session_id of Some e \<Rightarrow> se_actor e = actor | None \<Rightarrow> False)"

definition reserved_by :: "session_registry \<Rightarrow> session_id \<Rightarrow> nat \<Rightarrow> bool" where
  "reserved_by r session_id token \<longleftrightarrow> bt_get (sr_reservations r) session_id = Some token"

definition publish_name :: "session_name \<Rightarrow> nat \<Rightarrow> session_id \<Rightarrow> nat \<Rightarrow> session_registry \<Rightarrow>
    session_registry \<times> (bool, domain_error_kind) result" where
  "publish_name name creation session_id actor r =
    (if sr_state_poisoned r then (r, Err StoreUnavailable)
     else if \<not> (sr_accepting r \<and> \<not> is_cancelled r creation \<and> owns_starting r name creation (Some session_id)) then (r, Ok False)
     else if \<not> holds_actor (sr_provisional r) session_id actor then (r, Ok False)
     else case bt_get (sr_provisional r) session_id of
       None \<Rightarrow> (r, Ok False)
     | Some entry \<Rightarrow>
         (r\<lparr>sr_provisional := bt_remove session_id (sr_provisional r),
            sr_by_name := bt_insert name (SlotLive session_id (se_ownership entry)) (sr_by_name r),
            sr_by_id := bt_insert session_id entry (sr_by_id r)\<rparr>, Ok True))"

definition register_provisional :: "session_id \<Rightarrow> session_entry \<Rightarrow> session_registry \<Rightarrow>
    session_registry \<times> (unit, domain_error_kind) result" where
  "register_provisional session_id entry r =
    (if sr_state_poisoned r then (r, Err StoreUnavailable)
     else if bt_contains (sr_by_id r) session_id \<or> bt_contains (sr_provisional r) session_id \<or>
        list_ex (\<lambda>e. actor_id r (se_actor e) = session_id) (sr_cleanup_only r) then (r, Err ResourceExhausted)
     else if \<not> starting_token r (se_name entry) session_id (se_ownership entry) then (r, Err ResourceExhausted)
     else (r\<lparr>sr_provisional := bt_insert session_id entry (sr_provisional r)\<rparr>, Ok ()))"

definition retain_provisional_for_cleanup :: "session_id \<Rightarrow> session_entry \<Rightarrow> session_registry \<Rightarrow> session_registry" where
  "retain_provisional_for_cleanup session_id entry r0 =
    (let r = cleanup_lock_state r0 in
     if holds_actor (sr_provisional r) session_id (se_actor entry) \<or> holds_actor (sr_by_id r) session_id (se_actor entry) \<or>
        list_ex (\<lambda>e. se_actor e = se_actor entry) (sr_cleanup_only r) then r
     else
       let r' = cleanup_lock_reservations r in
       if starting_token r' (se_name entry) session_id (se_ownership entry) \<and> reserved_by r' session_id (se_ownership entry) \<and>
          \<not> bt_contains (sr_by_id r') session_id \<and> \<not> bt_contains (sr_provisional r') session_id
       then r'\<lparr>sr_provisional := bt_insert session_id entry (sr_provisional r')\<rparr>
       else r'\<lparr>sr_cleanup_only := sr_cleanup_only r' @ [entry]\<rparr>)"

definition registry_rename :: "session_id \<Rightarrow> session_name \<Rightarrow> session_registry \<Rightarrow>
    session_registry \<times> (session_entry, domain_error_kind) result" where
  "registry_rename session_id new_name r =
    (if sr_state_poisoned r then (r, Err StoreUnavailable)
     else if \<not> sr_accepting r then (r, Err Cancelled)
     else case bt_get (sr_by_id r) session_id of
       None \<Rightarrow> (r, Err SessionNotFound)
     | Some current \<Rightarrow>
         if session_name_is_main (se_name current) then (r, Err ReservedSessionName)
         else if bt_contains (sr_by_name r) new_name then (r, Err SessionAlreadyExists)
         else if bt_get (sr_by_name r) (se_name current) \<noteq> Some (SlotLive session_id (se_ownership current)) then (r, Err StoreUnavailable)
         else
           (let updated = current\<lparr>se_name := new_name\<rparr> in
            (r\<lparr>sr_by_name := bt_insert new_name (SlotLive session_id (se_ownership current)) (bt_remove (se_name current) (sr_by_name r)),
               sr_by_id := bt_insert session_id updated (sr_by_id r)\<rparr>, Ok updated)))"

definition resolve :: "session_selector \<Rightarrow> session_registry \<Rightarrow> (nat, domain_error_kind) result" where
  "resolve selector r =
    (if sr_state_poisoned r then Err StoreUnavailable
     else ok_or (map_option se_actor
       (case selector of
          SelectId session_id \<Rightarrow> bt_get (sr_by_id r) session_id
        | SelectName name \<Rightarrow>
            (case bt_get (sr_by_name r) name of
               Some (SlotLive session_id _) \<Rightarrow> bt_get (sr_by_id r) session_id
             | _ \<Rightarrow> None))) SessionNotFound)"

definition registry_entry :: "session_id \<Rightarrow> session_registry \<Rightarrow> (session_entry, domain_error_kind) result" where
  "registry_entry session_id r =
    (if sr_state_poisoned r then Err StoreUnavailable else ok_or (bt_get (sr_by_id r) session_id) SessionNotFound)"

definition live_entries :: "session_registry \<Rightarrow> (session_entry list, domain_error_kind) result" where
  "live_entries r = (if sr_state_poisoned r then Err StoreUnavailable else Ok (map snd (sr_by_id r)))"

definition SESSION_ID_CANDIDATES :: nat where "SESSION_ID_CANDIDATES = 16"

definition candidate_free :: "session_registry \<Rightarrow> session_id \<Rightarrow> bool" where
  "candidate_free r session_id \<longleftrightarrow>
    \<not> bt_contains (sr_by_id r) session_id \<and> \<not> bt_contains (sr_provisional r) session_id \<and>
    \<not> list_ex (\<lambda>e. actor_id r (se_actor e) = session_id) (sr_cleanup_only r) \<and>
    \<not> bt_contains (sr_reservations r) session_id"

definition reserve_creation_session :: "session_name \<Rightarrow> nat \<Rightarrow> resource_limits \<Rightarrow> session_id list \<Rightarrow> session_registry \<Rightarrow>
    session_registry \<times> (session_id, domain_error_kind) result" where
  "reserve_creation_session name creation limits candidates r =
    (if sr_state_poisoned r then (r, Err StoreUnavailable)
     else if \<not> (sr_accepting r \<and> \<not> is_cancelled r creation \<and> owns_starting r name creation None) then (r, Err Cancelled)
     else if sr_reservations_poisoned r then (r, Err StoreUnavailable)
     else if length (sr_reservations r) \<ge> max_live_sessions limits then (r, Err ResourceExhausted)
     else case List.find (candidate_free r) (take SESSION_ID_CANDIDATES candidates) of
       None \<Rightarrow> (r, Err ResourceExhausted)
     | Some session_id \<Rightarrow>
         (r\<lparr>sr_reservations := bt_insert session_id (cc_ownership (sr_creations r ! creation)) (sr_reservations r),
            sr_by_name := bt_insert name (SlotStarting creation (Some session_id)) (sr_by_name r)\<rparr>, Ok session_id))"

definition release_creation :: "session_name \<Rightarrow> nat \<Rightarrow> session_id option \<Rightarrow> session_registry \<Rightarrow> session_registry" where
  "release_creation name creation session_id r0 =
    (let r = cleanup_lock_state r0;
         owns_name = owns_starting r name creation session_id;
         r' = (case session_id of
            None \<Rightarrow> r
          | Some sid \<Rightarrow>
              (let r' = cleanup_lock_reservations r in
               if reserved_by r' sid (cc_ownership (sr_creations r' ! creation))
               then r'\<lparr>sr_reservations := bt_remove sid (sr_reservations r')\<rparr> else r'))
     in if owns_name then r'\<lparr>sr_by_name := bt_remove name (sr_by_name r')\<rparr> else r')"

definition reservation_count :: "session_registry \<Rightarrow> session_registry \<times> nat" where
  "reservation_count r = (cleanup_lock_reservations r, length (sr_reservations r))"

definition owns_slot :: "session_registry \<Rightarrow> session_id \<Rightarrow> session_entry \<Rightarrow> bool" where
  "owns_slot r session_id entry \<longleftrightarrow>
    (case bt_get (sr_by_name r) (se_name entry) of
       Some (SlotLive current token) \<Rightarrow> current = session_id \<and> token = se_ownership entry
     | Some (SlotStarting creation (Some current)) \<Rightarrow>
         current = session_id \<and> cc_ownership (sr_creations r ! creation) = se_ownership entry
     | _ \<Rightarrow> False)"

primrec remove_first :: "('a \<Rightarrow> bool) \<Rightarrow> 'a list \<Rightarrow> 'a list" where
  "remove_first P [] = []"
| "remove_first P (x # xs) = (if P x then xs else x # remove_first P xs)"

definition registry_complete :: "session_id \<Rightarrow> nat \<Rightarrow> session_registry \<Rightarrow> session_registry" where
  "registry_complete session_id actor r0 =
    (let r = cleanup_lock_state r0;
         live_matches = holds_actor (sr_by_id r) session_id actor;
         provisional_matches = holds_actor (sr_provisional r) session_id actor;
         entry = (if live_matches then bt_get (sr_by_id r) session_id
                  else if provisional_matches then bt_get (sr_provisional r) session_id
                  else List.find (\<lambda>e. se_actor e = actor) (sr_cleanup_only r))
     in case entry of
       None \<Rightarrow> r
     | Some e \<Rightarrow>
         (let owns_name = owns_slot r session_id e;
              r1 = cleanup_lock_reservations r;
              owns_reservation = reserved_by r1 session_id (se_ownership e);
              r2 = (if live_matches then r1\<lparr>sr_by_id := bt_remove session_id (sr_by_id r1)\<rparr>
                    else if provisional_matches then r1\<lparr>sr_provisional := bt_remove session_id (sr_provisional r1)\<rparr>
                    else r1\<lparr>sr_cleanup_only := remove_first (\<lambda>e. se_actor e = actor) (sr_cleanup_only r1)\<rparr>);
              r3 = (if owns_name then r2\<lparr>sr_by_name := bt_remove (se_name e) (sr_by_name r2)\<rparr> else r2)
          in if owns_reservation then r3\<lparr>sr_reservations := bt_remove session_id (sr_reservations r3)\<rparr> else r3))"

definition starting_creations :: "session_registry \<Rightarrow> nat list" where
  "starting_creations r =
    List.map_filter (\<lambda>p. case snd p of SlotStarting creation _ \<Rightarrow> Some creation | SlotLive _ _ \<Rightarrow> None) (sr_by_name r)"

definition owned_entries :: "session_registry \<Rightarrow> session_registry \<times> session_entry list" where
  "owned_entries r =
    (cleanup_lock_state r, map snd (sr_by_id r) @ map snd (sr_provisional r) @ sr_cleanup_only r)"

definition busy_names :: "session_registry \<Rightarrow> session_name list" where
  "busy_names r = sort (remdups (map fst (sr_by_name r) @ map se_name (map snd (sr_by_id r) @ map snd (sr_provisional r) @ sr_cleanup_only r)))"

definition begin_shutdown :: "bool \<Rightarrow> session_registry \<Rightarrow> session_registry \<times> (nat list, session_name list) result" where
  "begin_shutdown approved r0 =
    (let r = cleanup_lock_state r0 in
     if approved then (r\<lparr>sr_accepting := False\<rparr>, Ok (starting_creations r))
     else if busy_names r \<noteq> [] then (r, Err (busy_names r))
     else
       let r' = cleanup_lock_reservations r in
       if sr_reservations r' \<noteq> [] then (r', Err (busy_names r'))
       else (r'\<lparr>sr_accepting := False\<rparr>, Ok (starting_creations r')))"

definition resume_after_failed_shutdown :: "session_registry \<Rightarrow> session_registry" where
  "resume_after_failed_shutdown r = (cleanup_lock_state r)\<lparr>sr_accepting := True\<rparr>"

definition mark_registry_owned :: "nat \<Rightarrow> session_registry \<Rightarrow> session_registry" where
  "mark_registry_owned actor r = r\<lparr>sr_actors := (sr_actors r)[actor := (sr_actors r ! actor)\<lparr>ac_registry_owned := True\<rparr>]\<rparr>"

definition set_worker :: "nat \<Rightarrow> worker_state \<Rightarrow> session_registry \<Rightarrow> session_registry" where
  "set_worker actor st r = r\<lparr>sr_actors := (sr_actors r)[actor := (sr_actors r ! actor)\<lparr>ac_worker := st\<rparr>]\<rparr>"

subsection \<open>The creation of a session\<close>

text \<open>
  \<open>create_reserved\<close> runs its sections in the order of the phases.  \<open>Retaining\<close>,
  \<open>Marking\<close> and \<open>Checking\<close> are reached from three places and carry where the creation goes
  on: the flag \<open>registry_owned\<close> is stored first, then the worker is looked at.
\<close>

datatype after_mark = ToPublish | ToFinish | ToWait

datatype creation_phase =
    Reserving
  | Spawning
  | Registering
  | Retaining after_mark
  | Marking after_mark
  | Checking after_mark
  | Publishing
  | Finishing
  | Waiting
  | Completing
  | Finished

record creation_owner =
  ow_name :: session_name
  ow_creation :: nat
  ow_session_id :: "session_id option"
  ow_actor :: "session_entry option"
  ow_phase :: creation_phase
  ow_result :: "(session_entry, domain_error_kind) result"

record session_world =
  sw_limits :: resource_limits
  sw_registry :: session_registry
  sw_owners :: "creation_owner list"
  sw_to_cancel :: "nat list"

definition session_world_new :: "resource_limits \<Rightarrow> session_world" where
  "session_world_new limits = \<lparr>sw_limits = limits, sw_registry = session_registry_default, sw_owners = [], sw_to_cancel = []\<rparr>"

definition creation_owner_new :: "session_name \<Rightarrow> nat \<Rightarrow> creation_owner" where
  "creation_owner_new name creation = \<lparr>ow_name = name, ow_creation = creation, ow_session_id = None, ow_actor = None,
     ow_phase = Reserving, ow_result = Err OperationOutcomeUnknown\<rparr>"

definition set_owner :: "nat \<Rightarrow> creation_owner \<Rightarrow> session_registry \<Rightarrow> session_world \<Rightarrow> session_world" where
  "set_owner k ow r w = w\<lparr>sw_registry := r, sw_owners := (sw_owners w)[k := ow]\<rparr>"

definition fail_owner :: "domain_error_kind \<Rightarrow> creation_owner \<Rightarrow> creation_owner" where
  "fail_owner e ow = ow\<lparr>ow_phase := Finishing, ow_result := Err e\<rparr>"

definition start_creation :: "session_name \<Rightarrow> nat \<Rightarrow> session_registry \<Rightarrow> session_world \<Rightarrow> session_world" where
  "start_creation name creation r w = w\<lparr>sw_registry := r, sw_owners := sw_owners w @ [creation_owner_new name creation]\<rparr>"

text \<open>The answer of a request: the actor, the creation cell to wait for, the creation the
  request now owns, or an error.\<close>

datatype session_answer =
    AnswerActor nat
  | AnswerWait nat
  | AnswerOwner nat
  | AnswerEntry session_entry
  | AnswerShutdown "(nat list, session_name list) result"
  | AnswerError domain_error_kind
  | AnswerNone

definition default_main :: "session_world \<Rightarrow> session_world \<times> session_answer" where
  "default_main w =
    (case reserve_name session_name_main True (sw_registry w) of
       (r, Ok (ReservationExisting entry)) \<Rightarrow> (w\<lparr>sw_registry := r\<rparr>, AnswerActor (se_actor entry))
     | (r, Ok (ReservationWaiting creation)) \<Rightarrow> (w\<lparr>sw_registry := r\<rparr>, AnswerWait creation)
     | (r, Ok (ReservationOwner creation)) \<Rightarrow> (start_creation session_name_main creation r w, AnswerOwner creation)
     | (r, Err e) \<Rightarrow> (w\<lparr>sw_registry := r\<rparr>, AnswerError e))"

definition create_inner :: "session_name \<Rightarrow> bool \<Rightarrow> session_world \<Rightarrow> session_world \<times> session_answer" where
  "create_inner name allow_main w =
    (if session_name_is_main name \<and> \<not> allow_main then (w, AnswerError ReservedSessionName)
     else case reserve_name name False (sw_registry w) of
       (r, Ok (ReservationOwner creation)) \<Rightarrow> (start_creation name creation r w, AnswerOwner creation)
     | (r, Ok _) \<Rightarrow> (w\<lparr>sw_registry := r\<rparr>, AnswerError SessionAlreadyExists)
     | (r, Err e) \<Rightarrow> (w\<lparr>sw_registry := r\<rparr>, AnswerError e))"

definition rename_inner :: "session_id \<Rightarrow> session_name \<Rightarrow> session_world \<Rightarrow> session_world \<times> session_answer" where
  "rename_inner session_id new_name w =
    (if session_name_is_main new_name then (w, AnswerError ReservedSessionName)
     else case registry_rename session_id new_name (sw_registry w) of
       (r, Ok entry) \<Rightarrow> (w\<lparr>sw_registry := r\<rparr>, AnswerEntry entry)
     | (r, Err e) \<Rightarrow> (w\<lparr>sw_registry := r\<rparr>, AnswerError e))"

text \<open>The sections of \<open>create_reserved_inner\<close>.  \<open>deadline\<close> and \<open>viewport\<close> are the outcomes of
  the checks before the identity is reserved; \<open>spawned\<close> is the outcome of building the
  terminal, spawning the process and starting the actor.\<close>

definition create_identity :: "nat \<Rightarrow> (unit, domain_error_kind) result \<Rightarrow> (unit, domain_error_kind) result \<Rightarrow>
    session_id list \<Rightarrow> session_world \<Rightarrow> session_world" where
  "create_identity k deadline viewport candidates w =
    (let r = sw_registry w; ow = sw_owners w ! k in
     case res_bind deadline (\<lambda>_. res_bind (ensure (\<not> is_cancelled r (ow_creation ow)) Cancelled) (\<lambda>_. viewport)) of
       Err e \<Rightarrow> set_owner k (fail_owner e ow) r w
     | Ok _ \<Rightarrow>
         (case reserve_creation_session (ow_name ow) (ow_creation ow) (sw_limits w) candidates r of
            (r', Err e) \<Rightarrow> set_owner k (fail_owner e ow) r' w
          | (r', Ok session_id) \<Rightarrow> set_owner k (ow\<lparr>ow_session_id := Some session_id, ow_phase := Spawning\<rparr>) r' w))"

definition create_actor :: "nat \<Rightarrow> (path, domain_error_kind) result \<Rightarrow> session_world \<Rightarrow> session_world" where
  "create_actor k spawned w =
    (let r = sw_registry w; ow = sw_owners w ! k in
     case (spawned, ow_session_id ow) of
       (Ok cwd, Some session_id) \<Rightarrow>
         (let actor = length (sr_actors r);
              entry = \<lparr>se_actor = actor, se_name = ow_name ow, se_working_directory = cwd,
                       se_ownership = cc_ownership (sr_creations r ! ow_creation ow)\<rparr>
          in set_owner k (ow\<lparr>ow_actor := Some entry, ow_phase := Registering\<rparr>)
              (r\<lparr>sr_actors := sr_actors r @ [\<lparr>ac_id = session_id, ac_worker = WorkerRunning, ac_registry_owned = False\<rparr>]\<rparr>) w)
     | (Ok _, None) \<Rightarrow> w
     | (Err e, _) \<Rightarrow> set_owner k (fail_owner e ow) r w)"

definition create_register :: "nat \<Rightarrow> session_world \<Rightarrow> session_world" where
  "create_register k w =
    (let ow = sw_owners w ! k in
     case (ow_session_id ow, ow_actor ow) of
       (Some session_id, Some entry) \<Rightarrow>
         (case register_provisional session_id entry (sw_registry w) of
            (r, Ok _) \<Rightarrow> set_owner k (ow\<lparr>ow_phase := Marking ToPublish\<rparr>) r w
          | (r, Err e) \<Rightarrow> set_owner k (ow\<lparr>ow_phase := Retaining ToFinish, ow_result := Err e\<rparr>) r w)
     | _ \<Rightarrow> w)"

definition create_retain :: "nat \<Rightarrow> after_mark \<Rightarrow> session_world \<Rightarrow> session_world" where
  "create_retain k after w =
    (let ow = sw_owners w ! k in
     case (ow_session_id ow, ow_actor ow) of
       (Some session_id, Some entry) \<Rightarrow>
         set_owner k (ow\<lparr>ow_phase := Marking after\<rparr>) (retain_provisional_for_cleanup session_id entry (sw_registry w)) w
     | _ \<Rightarrow> w)"

definition create_mark :: "nat \<Rightarrow> after_mark \<Rightarrow> session_world \<Rightarrow> session_world" where
  "create_mark k after w =
    (let ow = sw_owners w ! k in
     case ow_actor ow of
       Some entry \<Rightarrow> set_owner k (ow\<lparr>ow_phase := Checking after\<rparr>) (mark_registry_owned (se_actor entry) (sw_registry w)) w
     | None \<Rightarrow> w)"

primrec after_phase :: "after_mark \<Rightarrow> creation_phase" where
  "after_phase ToPublish = Publishing"
| "after_phase ToFinish = Finishing"
| "after_phase ToWait = Waiting"

definition create_check :: "nat \<Rightarrow> after_mark \<Rightarrow> session_world \<Rightarrow> session_world" where
  "create_check k after w =
    (let ow = sw_owners w ! k; r = sw_registry w in
     case ow_actor ow of
       Some entry \<Rightarrow>
         set_owner k (ow\<lparr>ow_phase := after_phase after\<rparr>)
           (if worker_done r (se_actor entry) then registry_complete (actor_id r (se_actor entry)) (se_actor entry) r else r) w
     | None \<Rightarrow> w)"

definition create_publish :: "nat \<Rightarrow> session_world \<Rightarrow> session_world" where
  "create_publish k w =
    (let ow = sw_owners w ! k in
     case (ow_session_id ow, ow_actor ow) of
       (Some session_id, Some entry) \<Rightarrow>
         (case publish_name (ow_name ow) (ow_creation ow) session_id (se_actor entry) (sw_registry w) of
            (r, Ok True) \<Rightarrow> set_owner k (ow\<lparr>ow_phase := Finishing, ow_result := Ok entry\<rparr>) r w
          | (r, Ok False) \<Rightarrow> set_owner k (fail_owner Cancelled ow) r w
          | (r, Err e) \<Rightarrow> set_owner k (fail_owner e ow) r w)
     | _ \<Rightarrow> w)"

text \<open>\<open>CreationOwner::finish\<close> with \<open>cleanup_owned\<close>: a failed creation either releases what it
  reserved, or keeps its actor in the registry, asks it to end and waits; \<open>ended\<close> is the
  outcome of this bounded wait.\<close>

definition create_finish :: "nat \<Rightarrow> session_world \<Rightarrow> session_world" where
  "create_finish k w =
    (let ow = sw_owners w ! k; r = sw_registry w in
     case (ow_result ow, ow_actor ow) of
       (Ok _, _) \<Rightarrow> set_owner k (ow\<lparr>ow_phase := Completing\<rparr>) r w
     | (Err _, Some _) \<Rightarrow> set_owner k (ow\<lparr>ow_phase := Retaining ToWait\<rparr>) r w
     | (Err _, None) \<Rightarrow>
         set_owner k (ow\<lparr>ow_session_id := None, ow_phase := Completing\<rparr>)
           (release_creation (ow_name ow) (ow_creation ow) (ow_session_id ow) r) w)"

definition create_await :: "nat \<Rightarrow> (unit, domain_error_kind) result \<Rightarrow> session_world \<Rightarrow> session_world" where
  "create_await k ended w =
    (let ow = sw_owners w ! k in
     case ended of
       Ok _ \<Rightarrow> set_owner k (ow\<lparr>ow_phase := Completing\<rparr>) (sw_registry w) w
     | Err e \<Rightarrow> set_owner k (ow\<lparr>ow_phase := Completing, ow_result := Err e\<rparr>) (sw_registry w) w)"

definition create_complete :: "nat \<Rightarrow> session_world \<Rightarrow> session_world" where
  "create_complete k w =
    (let ow = sw_owners w ! k in
     set_owner k (ow\<lparr>ow_phase := Finished\<rparr>) (creation_complete (ow_creation ow) (ow_result ow) (sw_registry w)) w)"

text \<open>The two halves of the finalizer of an actor's worker.\<close>

definition worker_exits :: "nat \<Rightarrow> session_world \<Rightarrow> session_world" where
  "worker_exits a w = w\<lparr>sw_registry := set_worker a WorkerDone (sw_registry w)\<rparr>"

definition worker_finalizes :: "nat \<Rightarrow> session_world \<Rightarrow> session_world" where
  "worker_finalizes a w =
    (let r = sw_registry w in
     w\<lparr>sw_registry := set_worker a WorkerFinalized
        (if ac_registry_owned (sr_actors r ! a) then registry_complete (actor_id r a) a r else r)\<rparr>)"

definition shutdown_begins :: "bool \<Rightarrow> session_world \<Rightarrow> session_world \<times> session_answer" where
  "shutdown_begins approved w =
    (case begin_shutdown approved (sw_registry w) of
       (r, Ok creations) \<Rightarrow> (w\<lparr>sw_registry := r, sw_to_cancel := sw_to_cancel w @ creations\<rparr>, AnswerShutdown (Ok creations))
     | (r, Err names) \<Rightarrow> (w\<lparr>sw_registry := r\<rparr>, AnswerShutdown (Err names)))"

definition shutdown_cancels :: "nat \<Rightarrow> session_world \<Rightarrow> session_world" where
  "shutdown_cancels c w = w\<lparr>sw_registry := creation_cancel c (sw_registry w), sw_to_cancel := remove1 c (sw_to_cancel w)\<rparr>"

definition shutdown_settled :: "session_registry \<Rightarrow> bool" where
  "shutdown_settled r \<longleftrightarrow> snd (owned_entries r) = [] \<and> snd (reservation_count r) = 0"

subsection \<open>Runs\<close>

datatype session_event =
    DefaultMain
  | CreateSession session_name bool
  | RenameSession session_id session_name
  | Identity nat "(unit, domain_error_kind) result" "(unit, domain_error_kind) result" "session_id list"
  | StartActor nat "(path, domain_error_kind) result"
  | OwnerStep nat
  | AwaitEnd nat "(unit, domain_error_kind) result"
  | WorkerExits nat
  | WorkerFinalizes nat
  | BeginShutdown bool
  | CancelCreation nat
  | ResumeAfterShutdown
  | PoisonState
  | PoisonReservations

fun owner_step :: "creation_phase \<Rightarrow> nat \<Rightarrow> session_world \<Rightarrow> session_world" where
  "owner_step Registering k w = create_register k w"
| "owner_step (Retaining after) k w = create_retain k after w"
| "owner_step (Marking after) k w = create_mark k after w"
| "owner_step (Checking after) k w = create_check k after w"
| "owner_step Publishing k w = create_publish k w"
| "owner_step Finishing k w = create_finish k w"
| "owner_step Completing k w = create_complete k w"
| "owner_step _ k w = w"

text \<open>\<open>event_enabled\<close> says which section may run: an owner runs the section of its phase, a
  bounded wait succeeds only for a worker that is done, workers exit once and finalize after
  that, and only the creations a shutdown collected are cancelled.\<close>

definition at_phase :: "session_world \<Rightarrow> nat \<Rightarrow> creation_phase \<Rightarrow> bool" where
  "at_phase w k phase \<longleftrightarrow> k < length (sw_owners w) \<and> ow_phase (sw_owners w ! k) = phase"

definition worker_is :: "session_registry \<Rightarrow> nat \<Rightarrow> worker_state \<Rightarrow> bool" where
  "worker_is r a st \<longleftrightarrow> a < length (sr_actors r) \<and> ac_worker (sr_actors r ! a) = st"

fun event_enabled :: "session_world \<Rightarrow> session_event \<Rightarrow> bool" where
  "event_enabled w (Identity k _ _ _) \<longleftrightarrow> at_phase w k Reserving"
| "event_enabled w (StartActor k _) \<longleftrightarrow> at_phase w k Spawning"
| "event_enabled w (OwnerStep k) \<longleftrightarrow> k < length (sw_owners w)"
| "event_enabled w (AwaitEnd k ended) \<longleftrightarrow> at_phase w k Waiting \<and>
     (is_ok ended \<longrightarrow> (case ow_actor (sw_owners w ! k) of Some e \<Rightarrow> worker_done (sw_registry w) (se_actor e) | None \<Rightarrow> False))"
| "event_enabled w (WorkerExits a) \<longleftrightarrow> worker_is (sw_registry w) a WorkerRunning"
| "event_enabled w (WorkerFinalizes a) \<longleftrightarrow> worker_is (sw_registry w) a WorkerDone"
| "event_enabled w (CancelCreation c) \<longleftrightarrow> c \<in> set (sw_to_cancel w)"
| "event_enabled w _ \<longleftrightarrow> True"

fun event_effect :: "session_world \<Rightarrow> session_event \<Rightarrow> session_world \<times> session_answer" where
  "event_effect w DefaultMain = default_main w"
| "event_effect w (CreateSession name allow_main) = create_inner name allow_main w"
| "event_effect w (RenameSession session_id new_name) = rename_inner session_id new_name w"
| "event_effect w (Identity k deadline viewport candidates) = (create_identity k deadline viewport candidates w, AnswerNone)"
| "event_effect w (StartActor k spawned) = (create_actor k spawned w, AnswerNone)"
| "event_effect w (OwnerStep k) = (owner_step (ow_phase (sw_owners w ! k)) k w, AnswerNone)"
| "event_effect w (AwaitEnd k ended) = (create_await k ended w, AnswerNone)"
| "event_effect w (WorkerExits a) = (worker_exits a w, AnswerNone)"
| "event_effect w (WorkerFinalizes a) = (worker_finalizes a w, AnswerNone)"
| "event_effect w (BeginShutdown approved) = shutdown_begins approved w"
| "event_effect w (CancelCreation c) = (shutdown_cancels c w, AnswerNone)"
| "event_effect w ResumeAfterShutdown = (w\<lparr>sw_registry := resume_after_failed_shutdown (sw_registry w)\<rparr>, AnswerNone)"
| "event_effect w PoisonState = (w\<lparr>sw_registry := (sw_registry w)\<lparr>sr_state_poisoned := True\<rparr>\<rparr>, AnswerNone)"
| "event_effect w PoisonReservations = (w\<lparr>sw_registry := (sw_registry w)\<lparr>sr_reservations_poisoned := True\<rparr>\<rparr>, AnswerNone)"

definition session_step :: "session_world \<Rightarrow> session_event \<Rightarrow> session_world \<times> session_answer" where
  "session_step w ev = (if event_enabled w ev then event_effect w ev else (w, AnswerNone))"

end
