(* ===== verification/Session_Places.thy ===== *)
theory Session_Places
  imports Session_Registry
begin

section \<open>Places of sessions in the registry\<close>

text \<open>
  Every session has a place: its name is reserved, its identity is reserved, it is registered
  provisionally, published, lingering in the list of cleanup owners, or released.  The maps of the
  registry are exactly what the places say (\<open>maps_ok\<close>), and each section of the registry
  moves one session from one place to another.
\<close>

subsection \<open>Maps that track owners\<close>

text \<open>A map of the registry holds what the owners contribute to it: \<open>f k\<close> is the key and the
  value of owner \<open>k\<close>, and the value says whose it is.\<close>

definition tracks :: "('v \<Rightarrow> nat) \<Rightarrow> nat \<Rightarrow> (nat \<Rightarrow> ('k \<times> 'v) option) \<Rightarrow> ('k::linorder, 'v) bmap \<Rightarrow> bool" where
  "tracks tag n f m \<longleftrightarrow> bt_wf m \<and> (\<forall>k<n. \<forall>x v. f k = Some (x, v) \<longrightarrow> tag v = k) \<and>
    (\<forall>x v. bt_get m x = Some v \<longleftrightarrow> (\<exists>k<n. f k = Some (x, v)))"

lemma tracks_Nil: "tracks tag n f [] \<longleftrightarrow> (\<forall>k<n. f k = None)"
  unfolding tracks_def by (auto simp: option.split) (metis not_Some_eq surj_pair)

lemma tracks_get: "tracks tag n f m \<Longrightarrow> k < n \<Longrightarrow> f k = Some (x, v) \<Longrightarrow> bt_get m x = Some v"
  unfolding tracks_def by blast

lemma tracks_wf: "tracks tag n f m \<Longrightarrow> bt_wf m"
  unfolding tracks_def by blast

lemma tracks_find:
  assumes "tracks tag n f m" "bt_get m x = Some v"
  shows "tag v < n \<and> f (tag v) = Some (x, v)"
  using assms unfolding tracks_def by blast

lemma tracks_None: "tracks tag n f m \<Longrightarrow> bt_get m x = None \<Longrightarrow> k < n \<Longrightarrow> f k \<noteq> Some (x, v)"
  unfolding tracks_def by force

lemma tracks_cong: "(\<And>k. k < n \<Longrightarrow> f k = g k) \<Longrightarrow> tracks tag n f m \<Longrightarrow> tracks tag n g m"
  unfolding tracks_def by fastforce

lemma tracks_keep:
  assumes "tracks tag n f m" "\<And>i. i < n \<Longrightarrow> i \<noteq> k \<Longrightarrow> g i = f i" "k < n \<Longrightarrow> g k = f k"
  shows "tracks tag n g m"
  by (rule tracks_cong[OF _ assms(1)]) (use assms(2,3) in metis)

lemma tracks_tag: "tracks tag n f m \<Longrightarrow> k < n \<Longrightarrow> f k = Some (x, v) \<Longrightarrow> tag v = k"
  unfolding tracks_def by blast

lemma tracksI:
  assumes "bt_wf m" "\<And>k x v. k < n \<Longrightarrow> f k = Some (x, v) \<Longrightarrow> tag v = k \<and> bt_get m x = Some v"
    and "\<And>x v. bt_get m x = Some v \<Longrightarrow> tag v < n \<and> f (tag v) = Some (x, v)"
  shows "tracks tag n f m"
  using assms unfolding tracks_def by blast

lemma tracks_inj:
  assumes "tracks tag n f m" "i < n" "f i = Some (x, u)" "k < n" "f k = Some (x, v)"
  shows "i = k"
  using tracks_get[OF assms(1-3)] tracks_get[OF assms(1,4,5)] tracks_tag[OF assms(1-3)] tracks_tag[OF assms(1,4,5)] by simp

lemma tracks_remove:
  assumes "tracks tag n f m" "k < n" "f k = Some (x, v)" "g k = None" "\<And>i. i < n \<Longrightarrow> i \<noteq> k \<Longrightarrow> g i = f i"
  shows "tracks tag n g (bt_remove x m)"
proof (rule tracksI)
  show "bt_wf (bt_remove x m)" using tracks_wf[OF assms(1)] by simp
next
  fix i y u assume i: "i < n" "g i = Some (y, u)"
  then have ik: "i \<noteq> k" using assms(4) by auto
  then have fi: "f i = Some (y, u)" using assms(5) i by simp
  then have "y \<noteq> x" using tracks_inj[OF assms(1) i(1) _ assms(2,3)] ik by auto
  then show "tag u = i \<and> bt_get (bt_remove x m) y = Some u"
    using tracks_get[OF assms(1) i(1) fi] tracks_tag[OF assms(1) i(1) fi] by simp
next
  fix y u assume "bt_get (bt_remove x m) y = Some u"
  then have y: "y \<noteq> x" "bt_get m y = Some u" by (auto split: if_splits)
  then have "tag u \<noteq> k" using tracks_find[OF assms(1) y(2)] assms(3) by auto
  then show "tag u < n \<and> g (tag u) = Some (y, u)" using tracks_find[OF assms(1) y(2)] assms(5) by simp
qed

lemma tracks_put:
  assumes "tracks tag n f m" "k < n" "tag v = k" "g k = Some (x, v)" "\<And>i. i < n \<Longrightarrow> i \<noteq> k \<Longrightarrow> g i = f i"
    and "f k = None \<and> bt_get m x = None \<or> (\<exists>u. f k = Some (x, u))"
  shows "tracks tag n g (bt_insert x v m)"
proof (rule tracksI)
  show "bt_wf (bt_insert x v m)" using tracks_wf[OF assms(1)] by simp
next
  fix i y u assume i: "i < n" "g i = Some (y, u)"
  show "tag u = i \<and> bt_get (bt_insert x v m) y = Some u"
  proof (cases "i = k")
    case False
    then have fi: "f i = Some (y, u)" using assms(5) i by simp
    have "y \<noteq> x" using assms(6)
    proof
      assume "\<exists>u. f k = Some (x, u)"
      then show ?thesis using tracks_inj[OF assms(1) i(1) fi] False assms(2) by auto
    qed (use tracks_get[OF assms(1) i(1) fi] in auto)
    then show ?thesis using tracks_get[OF assms(1) i(1) fi] tracks_tag[OF assms(1) i(1) fi] by simp
  qed (use i assms(3,4) in simp)
next
  fix y u assume y: "bt_get (bt_insert x v m) y = Some u"
  show "tag u < n \<and> g (tag u) = Some (y, u)"
  proof (cases "y = x")
    case False
    then have fy: "bt_get m y = Some u" using y by simp
    have "tag u \<noteq> k" using tracks_find[OF assms(1) fy] assms(6) False by auto
    then show ?thesis using tracks_find[OF assms(1) fy] assms(5) by simp
  qed (use y assms(2-4) in simp)
qed

lemma tracks_extend:
  assumes "tracks tag n f m" "g n = None" "\<And>i. i < n \<Longrightarrow> g i = f i"
  shows "tracks tag (Suc n) g m"
proof (rule tracksI[OF tracks_wf[OF assms(1)]])
  fix i x v assume "i < Suc n" "g i = Some (x, v)"
  then have "i < n" "f i = Some (x, v)" using assms(2,3) by (auto simp: less_Suc_eq)
  then show "tag v = i \<and> bt_get m x = Some v" using tracks_get[OF assms(1)] tracks_tag[OF assms(1)] by blast
next
  fix x v assume "bt_get m x = Some v"
  then show "tag v < Suc n \<and> g (tag v) = Some (x, v)" using tracks_find[OF assms(1)] assms(3) by fastforce
qed

subsection \<open>Where a session is\<close>

text \<open>The place of a session in the registry.  Every map of the registry follows from the places,
  the names and the entries of the owners.\<close>

datatype place =
    PlaceNamed
  | PlaceIdentified session_id
  | PlaceProvisional session_id
  | PlacePublished session_id session_name
  | PlaceLingering
  | PlaceReleased

type_synonym owner_view = "session_name \<times> session_entry option \<times> place"

fun v_slot :: "nat \<Rightarrow> owner_view \<Rightarrow> (session_name \<times> name_slot) option" where
  "v_slot k (nm, _, PlaceNamed) = Some (nm, SlotStarting k None)"
| "v_slot k (nm, _, PlaceIdentified i) = Some (nm, SlotStarting k (Some i))"
| "v_slot k (nm, _, PlaceProvisional i) = Some (nm, SlotStarting k (Some i))"
| "v_slot k (_, _, PlacePublished i nm) = Some (nm, SlotLive i k)"
| "v_slot k _ = None"

fun v_reservation :: "nat \<Rightarrow> owner_view \<Rightarrow> (session_id \<times> nat) option" where
  "v_reservation k (_, _, PlaceIdentified i) = Some (i, k)"
| "v_reservation k (_, _, PlaceProvisional i) = Some (i, k)"
| "v_reservation k (_, _, PlacePublished i _) = Some (i, k)"
| "v_reservation k _ = None"

fun v_provisional :: "nat \<Rightarrow> owner_view \<Rightarrow> (session_id \<times> session_entry) option" where
  "v_provisional k (_, Some e, PlaceProvisional i) = Some (i, e)"
| "v_provisional k _ = None"

fun v_live :: "nat \<Rightarrow> owner_view \<Rightarrow> (session_id \<times> session_entry) option" where
  "v_live k (_, Some e, PlacePublished i nm) = Some (i, e\<lparr>se_name := nm\<rparr>)"
| "v_live k _ = None"

fun v_lingering :: "owner_view \<Rightarrow> session_entry option" where
  "v_lingering (_, act, PlaceLingering) = act"
| "v_lingering _ = None"

primrec slot_tag :: "name_slot \<Rightarrow> nat" where
  "slot_tag (SlotStarting c _) = c"
| "slot_tag (SlotLive _ t) = t"

definition tracks_view :: "('v \<Rightarrow> nat) \<Rightarrow> nat \<Rightarrow> (nat \<Rightarrow> owner_view \<Rightarrow> ('k \<times> 'v) option) \<Rightarrow> (nat \<Rightarrow> owner_view) \<Rightarrow>
    ('k::linorder, 'v) bmap \<Rightarrow> bool" where
  "tracks_view tag n f view m \<longleftrightarrow> tracks tag n (\<lambda>k. f k (view k)) m"

definition entries_ok :: "nat \<Rightarrow> (nat \<Rightarrow> owner_view) \<Rightarrow> bool" where
  "entries_ok n view \<longleftrightarrow>
    (\<forall>k<n. \<forall>nm e p. view k = (nm, Some e, p) \<longrightarrow> se_ownership e = k \<and> se_name e = nm) \<and>
    (\<forall>i<n. \<forall>k<n. \<forall>nm nm' e e' p p'. view i = (nm, Some e, p) \<longrightarrow> view k = (nm', Some e', p') \<longrightarrow> se_actor e = se_actor e' \<longrightarrow> i = k)"

definition cleanup_ok :: "nat \<Rightarrow> (nat \<Rightarrow> owner_view) \<Rightarrow> session_entry list \<Rightarrow> bool" where
  "cleanup_ok n view es \<longleftrightarrow> distinct (map se_actor es) \<and> (\<forall>e. e \<in> set es \<longleftrightarrow> (\<exists>k<n. v_lingering (view k) = Some e))"

definition maps_ok :: "nat \<Rightarrow> (nat \<Rightarrow> owner_view) \<Rightarrow> session_registry \<Rightarrow> bool" where
  "maps_ok n view r \<longleftrightarrow> entries_ok n view \<and>
    tracks_view slot_tag n v_slot view (sr_by_name r) \<and>
    tracks_view (\<lambda>t. t) n v_reservation view (sr_reservations r) \<and>
    tracks_view se_ownership n v_provisional view (sr_provisional r) \<and>
    tracks_view se_ownership n v_live view (sr_by_id r) \<and>
    cleanup_ok n view (sr_cleanup_only r)"

lemma maps_okD:
  assumes "maps_ok n view r"
  shows "entries_ok n view" "tracks_view slot_tag n v_slot view (sr_by_name r)"
    "tracks_view (\<lambda>t. t) n v_reservation view (sr_reservations r)"
    "tracks_view se_ownership n v_provisional view (sr_provisional r)"
    "tracks_view se_ownership n v_live view (sr_by_id r)" "cleanup_ok n view (sr_cleanup_only r)"
  using assms unfolding maps_ok_def by blast+

lemma entries_owner: "entries_ok n view \<Longrightarrow> k < n \<Longrightarrow> view k = (nm, Some e, p) \<Longrightarrow> se_ownership e = k \<and> se_name e = nm"
  unfolding entries_ok_def by blast

lemma entries_inj:
  "entries_ok n view \<Longrightarrow> i < n \<Longrightarrow> k < n \<Longrightarrow> view i = (nm, Some e, p) \<Longrightarrow> view k = (nm', Some e', p') \<Longrightarrow>
   se_actor e = se_actor e' \<Longrightarrow> i = k"
  unfolding entries_ok_def by blast

lemma entries_place:
  assumes "entries_ok n view" "k < n" "view k = (nm, act, p)"
  shows "entries_ok n (view(k := (nm, act, p')))"
  unfolding entries_ok_def
proof (intro conjI allI impI)
  fix i nm' e q assume i: "i < n" "(view(k := (nm, act, p'))) i = (nm', Some e, q)"
  then show "se_ownership e = i" "se_name e = nm'"
    using entries_owner[OF assms(1) i(1)] entries_owner[OF assms(1,2)] assms(3) by (cases "i = k"; simp)+
next
  fix i j nm1 nm2 e1 e2 q1 q2
  assume a: "i < n" "j < n" "(view(k := (nm, act, p'))) i = (nm1, Some e1, q1)"
    "(view(k := (nm, act, p'))) j = (nm2, Some e2, q2)" "se_actor e1 = se_actor e2"
  obtain q1' where v1: "view i = (nm1, Some e1, q1')" using a(3) assms(3) by (cases "i = k") auto
  obtain q2' where v2: "view j = (nm2, Some e2, q2')" using a(4) assms(3) by (cases "j = k") auto
  show "i = j" using entries_inj[OF assms(1) a(1,2) v1 v2 a(5)] .
qed

lemma cleanup_keep:
  assumes "cleanup_ok n view es" "v_lingering v = v_lingering (view k)"
  shows "cleanup_ok n (view(k := v)) es"
proof -
  have "v_lingering ((view(k := v)) i) = v_lingering (view i)" for i using assms(2) by simp
  then show ?thesis using assms(1) unfolding cleanup_ok_def by presburger
qed

lemma view_keep:
  assumes "tracks_view tag n f view m" "f k v = f k (view k)"
  shows "tracks_view tag n f (view(k := v)) m"
  unfolding tracks_view_def by (rule tracks_cong[OF _ assms(1)[unfolded tracks_view_def]]) (simp add: assms(2))

lemma view_put:
  assumes "tracks_view tag n f view m" "k < n" "f k v = Some (x, y)" "tag y = k"
    and "f k (view k) = None \<and> bt_get m x = None \<or> (\<exists>u. f k (view k) = Some (x, u))"
  shows "tracks_view tag n f (view(k := v)) (bt_insert x y m)"
  unfolding tracks_view_def by (rule tracks_put[OF assms(1)[unfolded tracks_view_def] assms(2)]) (use assms in auto)

lemma view_remove:
  assumes "tracks_view tag n f view m" "k < n" "f k (view k) = Some (x, y)" "f k v = None"
  shows "tracks_view tag n f (view(k := v)) (bt_remove x m)"
  unfolding tracks_view_def by (rule tracks_remove[OF assms(1)[unfolded tracks_view_def] assms(2)]) (use assms in auto)

lemma view_drop:
  assumes "tracks_view tag n f view m" "k < n" "f k v = None"
  shows "tracks_view tag n f (view(k := v)) (case f k (view k) of Some (x, _) \<Rightarrow> bt_remove x m | None \<Rightarrow> m)"
proof (cases "f k (view k)")
  case None
  then show ?thesis using view_keep[OF assms(1)] assms(3) by simp
next
  case (Some q)
  then show ?thesis using view_remove[OF assms(1,2) _ assms(3)] by (cases q) simp
qed

text \<open>The ways a session moves between places.\<close>

lemma move_identified:
  assumes ok: "maps_ok n view r" and k: "k < n" "view k = (nm, act, PlaceNamed)" and free: "bt_get (sr_reservations r) i = None"
    and r': "sr_by_name r' = bt_insert nm (SlotStarting k (Some i)) (sr_by_name r)"
      "sr_reservations r' = bt_insert i k (sr_reservations r)" "sr_provisional r' = sr_provisional r"
      "sr_by_id r' = sr_by_id r" "sr_cleanup_only r' = sr_cleanup_only r"
  shows "maps_ok n (view(k := (nm, act, PlaceIdentified i))) r'"
  unfolding maps_ok_def r' using k free
  by (intro conjI entries_place[OF maps_okD(1)[OF ok] k] view_put[OF maps_okD(2)[OF ok]] view_put[OF maps_okD(3)[OF ok]]
      view_keep[OF maps_okD(4)[OF ok]] view_keep[OF maps_okD(5)[OF ok]] cleanup_keep[OF maps_okD(6)[OF ok]]) auto

lemma move_provisional:
  assumes ok: "maps_ok n view r" and k: "k < n" "view k = (nm, Some e, PlaceIdentified i)"
    and free: "bt_get (sr_provisional r) i = None"
    and r': "sr_by_name r' = sr_by_name r" "sr_reservations r' = sr_reservations r"
      "sr_provisional r' = bt_insert i e (sr_provisional r)" "sr_by_id r' = sr_by_id r" "sr_cleanup_only r' = sr_cleanup_only r"
  shows "maps_ok n (view(k := (nm, Some e, PlaceProvisional i))) r'"
  unfolding maps_ok_def r' using k free entries_owner[OF maps_okD(1)[OF ok] k]
  by (intro conjI entries_place[OF maps_okD(1)[OF ok] k] view_keep[OF maps_okD(2)[OF ok]] view_keep[OF maps_okD(3)[OF ok]]
      view_put[OF maps_okD(4)[OF ok]] view_keep[OF maps_okD(5)[OF ok]] cleanup_keep[OF maps_okD(6)[OF ok]]) auto

lemma move_published:
  assumes ok: "maps_ok n view r" and k: "k < n" "view k = (nm, Some e, PlaceProvisional i)"
    and free: "bt_get (sr_by_id r) i = None"
    and r': "sr_by_name r' = bt_insert nm (SlotLive i k) (sr_by_name r)" "sr_reservations r' = sr_reservations r"
      "sr_provisional r' = bt_remove i (sr_provisional r)" "sr_by_id r' = bt_insert i e (sr_by_id r)"
      "sr_cleanup_only r' = sr_cleanup_only r"
  shows "maps_ok n (view(k := (nm, Some e, PlacePublished i nm))) r'"
  unfolding maps_ok_def r' using k free entries_owner[OF maps_okD(1)[OF ok] k]
  by (intro conjI entries_place[OF maps_okD(1)[OF ok] k] view_put[OF maps_okD(2)[OF ok]] view_keep[OF maps_okD(3)[OF ok]]
      view_remove[OF maps_okD(4)[OF ok], where y = e] view_put[OF maps_okD(5)[OF ok]] cleanup_keep[OF maps_okD(6)[OF ok]]) auto

lemma move_renamed:
  assumes ok: "maps_ok n view r" and k: "k < n" "view k = (nm, Some e, PlacePublished i old)"
    and free: "bt_get (sr_by_name r) new = None"
    and r': "sr_by_name r' = bt_insert new (SlotLive i k) (bt_remove old (sr_by_name r))" "sr_reservations r' = sr_reservations r"
      "sr_provisional r' = sr_provisional r" "sr_by_id r' = bt_insert i (e\<lparr>se_name := new\<rparr>) (sr_by_id r)"
      "sr_cleanup_only r' = sr_cleanup_only r"
  shows "maps_ok n (view(k := (nm, Some e, PlacePublished i new))) r'"
proof -
  have "tracks_view slot_tag n v_slot (view(k := (nm, Some e, PlaceReleased))) (bt_remove old (sr_by_name r))"
    by (rule view_remove[OF maps_okD(2)[OF ok] k(1)]) (simp_all add: k)
  then have "tracks_view slot_tag n v_slot (view(k := (nm, Some e, PlaceReleased), k := (nm, Some e, PlacePublished i new)))
      (bt_insert new (SlotLive i k) (bt_remove old (sr_by_name r)))"
    by (rule view_put[OF _ k(1)]) (simp_all add: free)
  then have names: "tracks_view slot_tag n v_slot (view(k := (nm, Some e, PlacePublished i new)))
      (bt_insert new (SlotLive i k) (bt_remove old (sr_by_name r)))" by simp
  show ?thesis
    unfolding maps_ok_def r' using k entries_owner[OF maps_okD(1)[OF ok] k]
    by (intro conjI entries_place[OF maps_okD(1)[OF ok] k] names view_keep[OF maps_okD(3)[OF ok]]
        view_keep[OF maps_okD(4)[OF ok]] view_put[OF maps_okD(5)[OF ok]] cleanup_keep[OF maps_okD(6)[OF ok]]) auto
qed

lemma move_released:
  assumes ok: "maps_ok n view r" and k: "k < n" "view k = (nm, act, p)" and p: "p \<noteq> PlaceLingering"
    and r': "sr_by_name r' = (case v_slot k (view k) of Some (x, _) \<Rightarrow> bt_remove x (sr_by_name r) | None \<Rightarrow> sr_by_name r)"
      "sr_reservations r' = (case v_reservation k (view k) of Some (x, _) \<Rightarrow> bt_remove x (sr_reservations r) | None \<Rightarrow> sr_reservations r)"
      "sr_provisional r' = (case v_provisional k (view k) of Some (x, _) \<Rightarrow> bt_remove x (sr_provisional r) | None \<Rightarrow> sr_provisional r)"
      "sr_by_id r' = (case v_live k (view k) of Some (x, _) \<Rightarrow> bt_remove x (sr_by_id r) | None \<Rightarrow> sr_by_id r)"
      "sr_cleanup_only r' = sr_cleanup_only r"
  shows "maps_ok n (view(k := (nm, act, PlaceReleased))) r'"
proof -
  have linger: "v_lingering (nm, act, PlaceReleased) = v_lingering (view k)" using p k(2) by (cases p) auto
  show ?thesis
    unfolding maps_ok_def r'
    by (intro conjI entries_place[OF maps_okD(1)[OF ok] k] view_drop[OF maps_okD(2)[OF ok] k(1)] view_drop[OF maps_okD(3)[OF ok] k(1)]
        view_drop[OF maps_okD(4)[OF ok] k(1)] view_drop[OF maps_okD(5)[OF ok] k(1)] cleanup_keep[OF maps_okD(6)[OF ok] linger]) simp_all
qed

lemma v_lingering_iff: "v_lingering v = Some e \<longleftrightarrow> (\<exists>nm. v = (nm, Some e, PlaceLingering))"
  by (cases "(0::nat, v)" rule: v_slot.cases) auto

lemma v_provisional_iff: "v_provisional k v = Some (i, e) \<longleftrightarrow> (\<exists>nm. v = (nm, Some e, PlaceProvisional i))"
  by (cases "(k, v)" rule: v_provisional.cases) auto

lemma v_live_iff: "v_live k v = Some (i, e') \<longleftrightarrow> (\<exists>nm e nm'. v = (nm, Some e, PlacePublished i nm') \<and> e' = e\<lparr>se_name := nm'\<rparr>)"
  by (cases "(k, v)" rule: v_live.cases) auto

lemma cleanup_member:
  assumes "maps_ok n view r"
  shows "e \<in> set (sr_cleanup_only r) \<longleftrightarrow> (\<exists>k<n. \<exists>nm. view k = (nm, Some e, PlaceLingering))"
  using maps_okD(6)[OF assms] unfolding cleanup_ok_def v_lingering_iff by blast

lemma view_find:
  assumes "tracks_view tag n f view m" "bt_get m x = Some v"
  shows "tag v < n \<and> f (tag v) (view (tag v)) = Some (x, v)"
  using tracks_find[OF assms(1)[unfolded tracks_view_def] assms(2)] .

lemma view_get: "tracks_view tag n f view m \<Longrightarrow> k < n \<Longrightarrow> f k (view k) = Some (x, v) \<Longrightarrow> bt_get m x = Some v"
  unfolding tracks_view_def by (rule tracks_get)

lemma lingering_update:
  assumes "k < n"
  shows "(\<exists>j<n. v_lingering ((view(k := v)) j) = Some e) \<longleftrightarrow> v_lingering v = Some e \<or> (\<exists>j<n. j \<noteq> k \<and> v_lingering (view j) = Some e)"
  using assms by (metis fun_upd_other fun_upd_same)

lemma move_lingering:
  assumes ok: "maps_ok n view r" and k: "k < n" "view k = (nm, Some e, PlaceReleased)"
    and r': "sr_by_name r' = sr_by_name r" "sr_reservations r' = sr_reservations r" "sr_provisional r' = sr_provisional r"
      "sr_by_id r' = sr_by_id r" "sr_cleanup_only r' = sr_cleanup_only r @ [e]"
  shows "maps_ok n (view(k := (nm, Some e, PlaceLingering))) r'"
proof -
  have new: "se_actor e' \<noteq> se_actor e" if mem: "e' \<in> set (sr_cleanup_only r)" for e'
  proof
    assume same: "se_actor e' = se_actor e"
    obtain j nm' where j: "j < n" "view j = (nm', Some e', PlaceLingering)" using iffD1[OF cleanup_member[OF ok] mem] by blast
    have "j = k" by (rule entries_inj[OF maps_okD(1)[OF ok] j(1) k(1) j(2) k(2) same])
    then show False using j k by simp
  qed
  have "cleanup_ok n (view(k := (nm, Some e, PlaceLingering))) (sr_cleanup_only r @ [e])"
    unfolding cleanup_ok_def
  proof (intro conjI allI)
    show "distinct (map se_actor (sr_cleanup_only r @ [e]))"
    proof -
      have "distinct (map se_actor (sr_cleanup_only r))" using maps_okD(6)[OF ok] unfolding cleanup_ok_def by blast
      moreover have "se_actor e \<notin> se_actor ` set (sr_cleanup_only r)" using new by (metis imageE)
      ultimately show ?thesis by simp
    qed
    show "e' \<in> set (sr_cleanup_only r @ [e]) \<longleftrightarrow> (\<exists>j<n. v_lingering ((view(k := (nm, Some e, PlaceLingering))) j) = Some e')" for e'
    proof -
      have "e' \<in> set (sr_cleanup_only r) \<longleftrightarrow> (\<exists>j<n. j \<noteq> k \<and> v_lingering (view j) = Some e')"
        using maps_okD(6)[OF ok] k(2) unfolding cleanup_ok_def by (metis option.distinct(1) v_lingering.simps(6))
      then show ?thesis unfolding lingering_update[OF k(1)] by auto
    qed
  qed
  then show ?thesis
    unfolding maps_ok_def r' using k
    by (intro conjI entries_place[OF maps_okD(1)[OF ok] k] view_keep[OF maps_okD(2)[OF ok]] view_keep[OF maps_okD(3)[OF ok]]
        view_keep[OF maps_okD(4)[OF ok]] view_keep[OF maps_okD(5)[OF ok]]) auto
qed

lemma remove_first_unique:
  assumes "distinct (map f xs)"
  shows "distinct (map f (remove_first (\<lambda>x. f x = y) xs)) \<and> set (remove_first (\<lambda>x. f x = y) xs) = {x \<in> set xs. f x \<noteq> y}"
  using assms by (induction xs) (auto simp: image_iff)

lemma move_dropped:
  assumes ok: "maps_ok n view r" and k: "k < n" "view k = (nm, Some e, PlaceLingering)"
    and r': "sr_by_name r' = sr_by_name r" "sr_reservations r' = sr_reservations r" "sr_provisional r' = sr_provisional r"
      "sr_by_id r' = sr_by_id r" "sr_cleanup_only r' = remove_first (\<lambda>e'. se_actor e' = se_actor e) (sr_cleanup_only r)"
  shows "maps_ok n (view(k := (nm, Some e, PlaceReleased))) r'"
proof -
  have same: "j = k" if "j < n" "view j = (nm', Some e', p)" "se_actor e' = se_actor e" for j nm' e' p
    by (rule entries_inj[OF maps_okD(1)[OF ok] that(1) k(1) that(2) k(2) that(3)])
  have other: "se_actor e' \<noteq> se_actor e \<longleftrightarrow> j \<noteq> k" if "j < n" "view j = (nm', Some e', p)" for j nm' e' p
    using same[OF that] that k by auto
  have "cleanup_ok n (view(k := (nm, Some e, PlaceReleased))) (remove_first (\<lambda>e'. se_actor e' = se_actor e) (sr_cleanup_only r))"
    unfolding cleanup_ok_def
  proof (intro conjI allI)
    have dist: "distinct (map se_actor (sr_cleanup_only r))" using maps_okD(6)[OF ok] unfolding cleanup_ok_def by blast
    show "distinct (map se_actor (remove_first (\<lambda>e'. se_actor e' = se_actor e) (sr_cleanup_only r)))"
      using remove_first_unique[OF dist] by blast
    fix e'
    have "e' \<in> set (remove_first (\<lambda>e'. se_actor e' = se_actor e) (sr_cleanup_only r)) \<longleftrightarrow>
        (\<exists>j<n. (\<exists>nm. view j = (nm, Some e', PlaceLingering)) \<and> j \<noteq> k)"
      using remove_first_unique[OF dist] cleanup_member[OF ok, of e'] other by blast
    then show "e' \<in> set (remove_first (\<lambda>e'. se_actor e' = se_actor e) (sr_cleanup_only r)) \<longleftrightarrow>
        (\<exists>j<n. v_lingering ((view(k := (nm, Some e, PlaceReleased))) j) = Some e')"
      unfolding lingering_update[OF k(1)] v_lingering_iff by auto
  qed
  then show ?thesis
    unfolding maps_ok_def r' using k
    by (intro conjI entries_place[OF maps_okD(1)[OF ok] k] view_keep[OF maps_okD(2)[OF ok]] view_keep[OF maps_okD(3)[OF ok]]
        view_keep[OF maps_okD(4)[OF ok]] view_keep[OF maps_okD(5)[OF ok]]) auto
qed

lemma move_started:
  assumes ok: "maps_ok n view r" and k: "k < n" "view k = (nm, None, p)" "v_provisional k (nm, Some e, p) = None"
      "v_live k (nm, Some e, p) = None" "v_lingering (nm, Some e, p) = None"
    and e: "se_ownership e = k" "se_name e = nm"
    and fresh: "\<And>j nm' e' p'. j < n \<Longrightarrow> view j = (nm', Some e', p') \<Longrightarrow> se_actor e' \<noteq> se_actor e"
    and r': "sr_by_name r' = sr_by_name r" "sr_reservations r' = sr_reservations r" "sr_provisional r' = sr_provisional r"
      "sr_by_id r' = sr_by_id r" "sr_cleanup_only r' = sr_cleanup_only r"
  shows "maps_ok n (view(k := (nm, Some e, p))) r'"
proof -
  have "entries_ok n (view(k := (nm, Some e, p)))"
    unfolding entries_ok_def
  proof (intro conjI allI impI)
    fix i nm' e' q assume i: "i < n" "(view(k := (nm, Some e, p))) i = (nm', Some e', q)"
    then show "se_ownership e' = i" "se_name e' = nm'"
      using entries_owner[OF maps_okD(1)[OF ok] i(1)] e by (cases "i = k"; simp)+
  next
    fix i j nm1 nm2 e1 e2 q1 q2
    assume a: "i < n" "j < n" "(view(k := (nm, Some e, p))) i = (nm1, Some e1, q1)"
      "(view(k := (nm, Some e, p))) j = (nm2, Some e2, q2)" "se_actor e1 = se_actor e2"
    show "i = j"
    proof (cases "i = k"; cases "j = k")
      assume "i = k" "j \<noteq> k"
      then show ?thesis using fresh[OF a(2), of nm2 e2 q2] a(3-5) by simp
    next
      assume "i \<noteq> k" "j = k"
      then show ?thesis using fresh[OF a(1), of nm1 e1 q1] a(3-5) by simp
    next
      assume "i \<noteq> k" "j \<noteq> k"
      then show ?thesis using entries_inj[OF maps_okD(1)[OF ok] a(1,2), of nm1 e1 q1 nm2 e2 q2] a(3-5) by simp
    qed simp
  qed
  moreover have "v_slot k (nm, Some e, p) = v_slot k (view k)" "v_reservation k (nm, Some e, p) = v_reservation k (view k)"
    "v_provisional k (view k) = None" "v_live k (view k) = None" "v_lingering (view k) = None"
    using k(2) by (cases p; simp)+
  ultimately show ?thesis
    unfolding maps_ok_def r' using k
    by (intro conjI view_keep[OF maps_okD(2)[OF ok]] view_keep[OF maps_okD(3)[OF ok]]
        view_keep[OF maps_okD(4)[OF ok]] view_keep[OF maps_okD(5)[OF ok]] cleanup_keep[OF maps_okD(6)[OF ok]]) auto
qed

subsection \<open>What the sections do to the places\<close>

definition cells_ok :: "nat \<Rightarrow> session_registry \<Rightarrow> bool" where
  "cells_ok n r \<longleftrightarrow> length (sr_creations r) = n \<and> (\<forall>c<n. cc_ownership (sr_creations r ! c) = c)"

lemma actor_live:
  assumes ok: "maps_ok n view r" and k: "k < n" "view k = (nm, Some e, p)"
  shows "holds_actor (sr_by_id r) i (se_actor e) \<longleftrightarrow> (\<exists>nm'. p = PlacePublished i nm')"
proof
  assume "holds_actor (sr_by_id r) i (se_actor e)"
  then obtain e' where e': "bt_get (sr_by_id r) i = Some e'" "se_actor e' = se_actor e"
    by (auto simp: holds_actor_def split: option.splits)
  from view_find[OF maps_okD(5)[OF ok] e'(1)] obtain nm1 e1 nm2
    where v: "se_ownership e' < n" "view (se_ownership e') = (nm1, Some e1, PlacePublished i nm2)" "e' = e1\<lparr>se_name := nm2\<rparr>"
    unfolding v_live_iff by blast
  have "se_ownership e' = k" by (rule entries_inj[OF maps_okD(1)[OF ok] v(1) k(1) v(2) k(2)]) (use e' v in simp)
  then show "\<exists>nm'. p = PlacePublished i nm'" using v k by simp
next
  assume "\<exists>nm'. p = PlacePublished i nm'"
  then obtain nm' where "v_live k (view k) = Some (i, e\<lparr>se_name := nm'\<rparr>)" using k by auto
  from view_get[OF maps_okD(5)[OF ok] k(1) this] show "holds_actor (sr_by_id r) i (se_actor e)" by (simp add: holds_actor_def)
qed

lemma actor_provisional:
  assumes ok: "maps_ok n view r" and k: "k < n" "view k = (nm, Some e, p)"
  shows "holds_actor (sr_provisional r) i (se_actor e) \<longleftrightarrow> p = PlaceProvisional i"
proof
  assume "holds_actor (sr_provisional r) i (se_actor e)"
  then obtain e' where e': "bt_get (sr_provisional r) i = Some e'" "se_actor e' = se_actor e"
    by (auto simp: holds_actor_def split: option.splits)
  from view_find[OF maps_okD(4)[OF ok] e'(1)] obtain nm1
    where v: "se_ownership e' < n" "view (se_ownership e') = (nm1, Some e', PlaceProvisional i)"
    unfolding v_provisional_iff by blast
  have "se_ownership e' = k" by (rule entries_inj[OF maps_okD(1)[OF ok] v(1) k(1) v(2) k(2) e'(2)])
  then show "p = PlaceProvisional i" using v k by simp
next
  assume "p = PlaceProvisional i"
  then have "v_provisional k (view k) = Some (i, e)" using k by simp
  from view_get[OF maps_okD(4)[OF ok] k(1) this] show "holds_actor (sr_provisional r) i (se_actor e)" by (simp add: holds_actor_def)
qed

lemma actor_cleanup:
  assumes ok: "maps_ok n view r" and k: "k < n" "view k = (nm, Some e, p)"
  shows "(\<exists>e'\<in>set (sr_cleanup_only r). se_actor e' = se_actor e) \<longleftrightarrow> p = PlaceLingering"
    and "e' \<in> set (sr_cleanup_only r) \<Longrightarrow> se_actor e' = se_actor e \<Longrightarrow> e' = e"
proof -
  have same: "p = PlaceLingering \<and> e' = e" if mem: "e' \<in> set (sr_cleanup_only r)" "se_actor e' = se_actor e" for e'
  proof -
    obtain j nm' where j: "j < n" "view j = (nm', Some e', PlaceLingering)" using iffD1[OF cleanup_member[OF ok] mem(1)] by blast
    have "j = k" by (rule entries_inj[OF maps_okD(1)[OF ok] j(1) k(1) j(2) k(2) mem(2)])
    then show ?thesis using j k by simp
  qed
  show "(\<exists>e'\<in>set (sr_cleanup_only r). se_actor e' = se_actor e) \<longleftrightarrow> p = PlaceLingering"
    using same cleanup_member[OF ok, of e] k by blast
  show "e' \<in> set (sr_cleanup_only r) \<Longrightarrow> se_actor e' = se_actor e \<Longrightarrow> e' = e" using same by blast
qed

lemma slot_of_owner:
  assumes ok: "maps_ok n view r" and "bt_get (sr_by_name r) nm = Some s"
  shows "slot_tag s < n \<and> v_slot (slot_tag s) (view (slot_tag s)) = Some (nm, s)"
  using view_find[OF maps_okD(2)[OF ok] assms(2)] .

lemma reservation_of_owner:
  assumes ok: "maps_ok n view r" and "bt_get (sr_reservations r) i = Some t"
  shows "t < n \<and> v_reservation t (view t) = Some (i, t)"
  using view_find[OF maps_okD(3)[OF ok] assms(2)] .

lemma no_slot:
  assumes "maps_ok n view r" "k < n" "v_slot k (view k) = None" "cells_ok n r" "se_ownership e = k"
  shows "\<not> owns_slot r i e"
proof
  assume owns: "owns_slot r i e"
  then obtain s where s: "bt_get (sr_by_name r) (se_name e) = Some s" by (auto simp: owns_slot_def split: option.splits)
  have "slot_tag s = k"
    using owns s slot_of_owner[OF assms(1) s] assms(4,5) by (auto simp: owns_slot_def cells_ok_def split: name_slot.splits option.splits)
  then show False using slot_of_owner[OF assms(1) s] assms(3) by simp
qed

lemma no_reservation:
  assumes "maps_ok n view r" "v_reservation k (view k) = None"
  shows "\<not> reserved_by r i k"
  using reservation_of_owner[OF assms(1), of i k] assms(2) by (auto simp: reserved_by_def)

lemma lock_maps [simp]:
  "maps_ok n view (cleanup_lock_state r) = maps_ok n view r"
  "maps_ok n view (cleanup_lock_reservations r) = maps_ok n view r"
  "cells_ok n (cleanup_lock_state r) = cells_ok n r"
  "cells_ok n (cleanup_lock_reservations r) = cells_ok n r"
  by (simp_all add: maps_ok_def cells_ok_def cleanup_lock_state_def cleanup_lock_reservations_def)

lemma lock_fields [simp]:
  "sr_by_id (cleanup_lock_state r) = sr_by_id r" "sr_by_id (cleanup_lock_reservations r) = sr_by_id r"
  "sr_provisional (cleanup_lock_state r) = sr_provisional r" "sr_provisional (cleanup_lock_reservations r) = sr_provisional r"
  "sr_cleanup_only (cleanup_lock_state r) = sr_cleanup_only r" "sr_cleanup_only (cleanup_lock_reservations r) = sr_cleanup_only r"
  "sr_by_name (cleanup_lock_state r) = sr_by_name r" "sr_by_name (cleanup_lock_reservations r) = sr_by_name r"
  "sr_reservations (cleanup_lock_state r) = sr_reservations r" "sr_reservations (cleanup_lock_reservations r) = sr_reservations r"
  "sr_creations (cleanup_lock_state r) = sr_creations r" "sr_creations (cleanup_lock_reservations r) = sr_creations r"
  "sr_actors (cleanup_lock_state r) = sr_actors r" "sr_actors (cleanup_lock_reservations r) = sr_actors r"
  "sr_accepting (cleanup_lock_state r) = sr_accepting r" "sr_accepting (cleanup_lock_reservations r) = sr_accepting r"
  by (simp_all add: cleanup_lock_state_def cleanup_lock_reservations_def)

fun completed :: "place \<Rightarrow> place" where
  "completed (PlaceProvisional _) = PlaceReleased"
| "completed (PlacePublished _ _) = PlaceReleased"
| "completed PlaceLingering = PlaceReleased"
| "completed p = p"

lemma find_actor:
  assumes "maps_ok n view r" "k < n" "view k = (nm, Some e, p)"
  shows "List.find (\<lambda>e'. se_actor e' = se_actor e) (sr_cleanup_only r) = (if p = PlaceLingering then Some e else None)"
proof (cases "List.find (\<lambda>e'. se_actor e' = se_actor e) (sr_cleanup_only r)")
  case None
  then show ?thesis using actor_cleanup(1)[OF assms] by (auto simp: find_None_iff)
next
  case (Some e')
  then have "e' \<in> set (sr_cleanup_only r)" "se_actor e' = se_actor e" by (auto simp: find_Some_iff)
  then show ?thesis using actor_cleanup[OF assms] Some by auto
qed

lemma complete_published:
  assumes ok: "maps_ok n view r" and cells: "cells_ok n r" and k: "k < n" "view k = (nm, Some e, PlacePublished i nm')"
  shows "maps_ok n (view(k := (nm, Some e, PlaceReleased))) (registry_complete i (se_actor e) r)"
proof -
  have got: "bt_get (sr_by_id r) i = Some (e\<lparr>se_name := nm'\<rparr>)" "bt_get (sr_by_name r) nm' = Some (SlotLive i k)"
    "bt_get (sr_reservations r) i = Some k"
    using view_get[OF maps_okD(5)[OF ok] k(1)] view_get[OF maps_okD(2)[OF ok] k(1)] view_get[OF maps_okD(3)[OF ok] k(1)] k(2) by auto
  have own: "se_ownership e = k" using entries_owner[OF maps_okD(1)[OF ok] k] by simp
  show ?thesis
    by (rule move_released[OF ok k])
      (simp_all add: registry_complete_def holds_actor_def got own k owns_slot_def reserved_by_def Let_def)
qed

lemma complete_provisional:
  assumes ok: "maps_ok n view r" and cells: "cells_ok n r" and k: "k < n" "view k = (nm, Some e, PlaceProvisional i)"
  shows "maps_ok n (view(k := (nm, Some e, PlaceReleased))) (registry_complete i (se_actor e) r)"
proof -
  have got: "bt_get (sr_provisional r) i = Some e" "bt_get (sr_by_name r) nm = Some (SlotStarting k (Some i))"
    "bt_get (sr_reservations r) i = Some k"
    using view_get[OF maps_okD(4)[OF ok] k(1)] view_get[OF maps_okD(2)[OF ok] k(1)] view_get[OF maps_okD(3)[OF ok] k(1)] k(2) by auto
  have own: "se_ownership e = k" "se_name e = nm" using entries_owner[OF maps_okD(1)[OF ok] k] by simp_all
  have not_live: "\<not> holds_actor (sr_by_id r) i (se_actor e)" using actor_live[OF ok k] by simp
  have held: "holds_actor (sr_provisional r) i (se_actor e)" using actor_provisional[OF ok k] by simp
  have token: "cc_ownership (sr_creations r ! k) = k" using cells k(1) by (simp add: cells_ok_def)
  show ?thesis
    by (rule move_released[OF ok k])
      (simp_all add: registry_complete_def not_live held got own k owns_slot_def reserved_by_def Let_def token)
qed

lemma complete_lingering:
  assumes ok: "maps_ok n view r" and cells: "cells_ok n r" and k: "k < n" "view k = (nm, Some e, PlaceLingering)"
  shows "maps_ok n (view(k := (nm, Some e, PlaceReleased))) (registry_complete i (se_actor e) r)"
proof -
  have own: "se_ownership e = k" using entries_owner[OF maps_okD(1)[OF ok] k] by simp
  have not_held: "\<not> holds_actor (sr_by_id r) i (se_actor e)" "\<not> holds_actor (sr_provisional r) i (se_actor e)"
    using actor_live[OF ok k] actor_provisional[OF ok k] by simp_all
  have no: "\<not> owns_slot (cleanup_lock_state r) i e" "\<not> reserved_by (cleanup_lock_reservations (cleanup_lock_state r)) i (se_ownership e)"
    using no_slot[of n view "cleanup_lock_state r" k e i] no_reservation[of n view "cleanup_lock_reservations (cleanup_lock_state r)" k i]
      ok cells k own by simp_all
  show ?thesis
    by (rule move_dropped[OF ok k]) (simp_all add: registry_complete_def not_held find_actor[OF ok k] no Let_def)
qed

lemma complete_absent:
  assumes ok: "maps_ok n view r" and k: "k < n" "view k = (nm, Some e, p)" and p: "completed p = p"
  shows "registry_complete i (se_actor e) r = cleanup_lock_state r"
proof -
  have "p \<noteq> PlaceLingering" "p \<noteq> PlaceProvisional i" "\<nexists>nm'. p = PlacePublished i nm'" using p by auto
  then show ?thesis
    using actor_live[OF ok k] actor_provisional[OF ok k] find_actor[OF ok k] by (simp add: registry_complete_def Let_def)
qed

lemma complete_maps:
  assumes ok: "maps_ok n view r" and cells: "cells_ok n r" and k: "k < n" "view k = (nm, Some e, p)"
    and i: "\<And>j. p = PlaceProvisional j \<Longrightarrow> j = i" "\<And>j nm'. p = PlacePublished j nm' \<Longrightarrow> j = i"
  shows "maps_ok n (view(k := (nm, Some e, completed p))) (registry_complete i (se_actor e) r)"
proof (cases "completed p = p")
  case True
  then show ?thesis using complete_absent[OF ok k True] ok k by (simp add: fun_upd_idem)
next
  case False
  then show ?thesis
    using complete_published[OF ok cells k(1)] complete_provisional[OF ok cells k(1)] complete_lingering[OF ok cells k(1)] i k(2)
    by (cases p) auto
qed

lemma complete_frame:
  "sr_creations (registry_complete i a r) = sr_creations r" "sr_actors (registry_complete i a r) = sr_actors r"
  "sr_accepting (registry_complete i a r) = sr_accepting r"
  "length (sr_reservations (registry_complete i a r)) \<le> length (sr_reservations r)"
  by (auto simp: registry_complete_def Let_def length_bt_remove_le split: option.split)

text \<open>No two sessions have the same identity.\<close>

lemma identity_unique:
  assumes ok: "maps_ok n view r" and k: "k < n" "v_reservation k (view k) = Some (i, k)"
  shows "bt_get (sr_by_id r) i = (case v_live k (view k) of Some (_, e) \<Rightarrow> Some e | None \<Rightarrow> None)"
    and "bt_get (sr_provisional r) i = (case v_provisional k (view k) of Some (_, e) \<Rightarrow> Some e | None \<Rightarrow> None)"
proof -
  have res: "bt_get (sr_reservations r) i = Some k" using view_get[OF maps_okD(3)[OF ok] k] .
  show "bt_get (sr_by_id r) i = (case v_live k (view k) of Some (_, e) \<Rightarrow> Some e | None \<Rightarrow> None)"
  proof (cases "bt_get (sr_by_id r) i")
    case None
    then have "v_live k (view k) \<noteq> Some (i, e)" for e using view_get[OF maps_okD(5)[OF ok] k(1)] by fastforce
    moreover have "j = i" if "v_live k (view k) = Some (j, e)" for j e using that k(2) unfolding v_live_iff by auto
    ultimately show ?thesis using None by (auto split: option.split)
  next
    case (Some e)
    let ?j = "se_ownership e"
    have j: "?j < n" "v_live ?j (view ?j) = Some (i, e)" using view_find[OF maps_okD(5)[OF ok] Some] by auto
    then have "v_reservation ?j (view ?j) = Some (i, ?j)" unfolding v_live_iff by auto
    then have "?j = k" using view_get[OF maps_okD(3)[OF ok] j(1)] res by simp
    then show ?thesis using j Some by simp
  qed
  show "bt_get (sr_provisional r) i = (case v_provisional k (view k) of Some (_, e) \<Rightarrow> Some e | None \<Rightarrow> None)"
  proof (cases "bt_get (sr_provisional r) i")
    case None
    then have "v_provisional k (view k) \<noteq> Some (i, e)" for e using view_get[OF maps_okD(4)[OF ok] k(1)] by fastforce
    moreover have "j = i" if "v_provisional k (view k) = Some (j, e)" for j e using that k(2) unfolding v_provisional_iff by auto
    ultimately show ?thesis using None by (auto split: option.split)
  next
    case (Some e)
    let ?j = "se_ownership e"
    have j: "?j < n" "v_provisional ?j (view ?j) = Some (i, e)" using view_find[OF maps_okD(4)[OF ok] Some] by auto
    then have "v_reservation ?j (view ?j) = Some (i, ?j)" unfolding v_provisional_iff by auto
    then have "?j = k" using view_get[OF maps_okD(3)[OF ok] j(1)] res by simp
    then show ?thesis using j Some by simp
  qed
qed

primrec retained :: "place \<Rightarrow> place" where
  "retained PlaceNamed = PlaceNamed"
| "retained (PlaceIdentified i) = PlaceProvisional i"
| "retained (PlaceProvisional i) = PlaceProvisional i"
| "retained (PlacePublished i nm) = PlacePublished i nm"
| "retained PlaceLingering = PlaceLingering"
| "retained PlaceReleased = PlaceLingering"

lemma no_starting_token:
  assumes "maps_ok n view r" "k < n" "v_slot k (view k) = None" "cells_ok n r"
  shows "\<not> starting_token r nm i k"
proof
  assume token: "starting_token r nm i k"
  then obtain c where s: "bt_get (sr_by_name r) nm = Some (SlotStarting c (Some i))"
    by (auto simp: starting_token_def split: option.splits name_slot.splits)
  have "c = k" using token s slot_of_owner[OF assms(1) s] assms(4) by (auto simp: starting_token_def cells_ok_def)
  then show False using slot_of_owner[OF assms(1) s] assms(3) by simp
qed

lemma retain_maps:
  assumes ok: "maps_ok n view r" and cells: "cells_ok n r" and k: "k < n" "view k = (nm, Some e, p)"
    and p: "p = PlaceIdentified i \<or> p = PlaceProvisional i \<or> p = PlaceReleased"
  shows "maps_ok n (view(k := (nm, Some e, retained p))) (retain_provisional_for_cleanup i e r)"
proof -
  have own: "se_ownership e = k" "se_name e = nm" using entries_owner[OF maps_okD(1)[OF ok] k] by simp_all
  have absent: "holds_actor (sr_provisional r) i (se_actor e) \<longleftrightarrow> p = PlaceProvisional i" "\<not> holds_actor (sr_by_id r) i (se_actor e)"
    "\<not> list_ex (\<lambda>e'. se_actor e' = se_actor e) (sr_cleanup_only r)"
    using actor_provisional[OF ok k] actor_live[OF ok k] actor_cleanup(1)[OF ok k] p by (auto simp: list_ex_iff)
  from p show ?thesis
  proof (elim disjE)
    assume p: "p = PlaceProvisional i"
    then show ?thesis using absent ok k by (simp add: retain_provisional_for_cleanup_def fun_upd_idem)
  next
    assume p: "p = PlaceIdentified i"
    have got: "bt_get (sr_by_name r) nm = Some (SlotStarting k (Some i))" "bt_get (sr_reservations r) i = Some k"
      using view_get[OF maps_okD(2)[OF ok] k(1)] view_get[OF maps_okD(3)[OF ok] k(1)] k(2) p by auto
    have free: "bt_get (sr_by_id r) i = None" "bt_get (sr_provisional r) i = None"
      using identity_unique[OF ok k(1)] k(2) p by auto
    have token: "cc_ownership (sr_creations r ! k) = k" using cells k(1) by (simp add: cells_ok_def)
    have "maps_ok n (view(k := (nm, Some e, PlaceProvisional i))) (retain_provisional_for_cleanup i e r)"
      by (rule move_provisional[OF ok k(1) k(2)[unfolded p] free(2)])
        (simp_all add: retain_provisional_for_cleanup_def absent p own starting_token_def got reserved_by_def free token Let_def)
    then show ?thesis using p by simp
  next
    assume p: "p = PlaceReleased"
    have no: "\<not> starting_token (cleanup_lock_reservations (cleanup_lock_state r)) nm i k"
      using no_starting_token[of n view _ k nm i] ok cells k p by simp
    have "maps_ok n (view(k := (nm, Some e, PlaceLingering))) (retain_provisional_for_cleanup i e r)"
      by (rule move_lingering[OF ok k(1) k(2)[unfolded p]])
        (simp_all add: retain_provisional_for_cleanup_def absent p own no Let_def)
    then show ?thesis using p by simp
  qed
qed

lemma retain_frame:
  "sr_creations (retain_provisional_for_cleanup i e r) = sr_creations r" "sr_actors (retain_provisional_for_cleanup i e r) = sr_actors r"
  "sr_accepting (retain_provisional_for_cleanup i e r) = sr_accepting r"
  "sr_reservations (retain_provisional_for_cleanup i e r) = sr_reservations r"
  by (simp_all add: retain_provisional_for_cleanup_def Let_def)

lemma release_maps:
  assumes ok: "maps_ok n view r" and cells: "cells_ok n r" and k: "k < n" "view k = (nm, None, p)"
    and p: "p = (case sid of None \<Rightarrow> PlaceNamed | Some i \<Rightarrow> PlaceIdentified i)"
  shows "maps_ok n (view(k := (nm, None, PlaceReleased))) (release_creation nm k sid r)"
proof -
  have token: "cc_ownership (sr_creations r ! k) = k" using cells k(1) by (simp add: cells_ok_def)
  have slot: "bt_get (sr_by_name r) nm = Some (SlotStarting k sid)"
    using view_get[OF maps_okD(2)[OF ok] k(1)] k(2) p by (cases sid) auto
  have res: "bt_get (sr_reservations r) i = Some k" if "sid = Some i" for i
    using view_get[OF maps_okD(3)[OF ok] k(1)] k(2) p that by auto
  have "p \<noteq> PlaceLingering" using p by (cases sid) auto
  then show ?thesis
    by (rule move_released[OF ok k]; cases sid)
      (simp_all add: release_creation_def owns_starting_def slot reserved_by_def token res k p Let_def)
qed

lemma release_frame:
  "sr_creations (release_creation nm c sid r) = sr_creations r" "sr_actors (release_creation nm c sid r) = sr_actors r"
  "sr_accepting (release_creation nm c sid r) = sr_accepting r"
  "length (sr_reservations (release_creation nm c sid r)) \<le> length (sr_reservations r)"
  by (auto simp: release_creation_def Let_def length_bt_remove_le split: option.split)

end
