(* ===== verification/Session_Lifecycle.thy ===== *)
theory Session_Lifecycle
  imports Session_Places
begin

section \<open>Lifecycle of sessions\<close>

text \<open>
  The invariant of the creations, actors and maps of \<open>Session_Registry\<close>, kept by every section
  in every interleaving, and its consequences: names and identities of live sessions are unique
  and resolve to each other; every running actor holds a reservation and there are never more
  than the limit; a settled shutdown is final; nothing is left behind when everything has
  finished; and a creation reports what happened.
\<close>

subsection \<open>The invariant\<close>

definition unregistered_ok :: "session_id option \<Rightarrow> place \<Rightarrow> bool" where
  "unregistered_ok sid p \<longleftrightarrow> p = (case sid of None \<Rightarrow> PlaceNamed | Some i \<Rightarrow> PlaceIdentified i)"

definition kept_ok :: "session_id option \<Rightarrow> worker_state \<Rightarrow> place \<Rightarrow> bool" where
  "kept_ok sid wk p \<longleftrightarrow> (\<exists>i. sid = Some i \<and> p = PlaceProvisional i \<and> wk \<noteq> WorkerFinalized) \<or> p = PlaceReleased \<and> wk \<noteq> WorkerRunning"

definition published_ok :: "session_id option \<Rightarrow> worker_state \<Rightarrow> place \<Rightarrow> bool" where
  "published_ok sid wk p \<longleftrightarrow>
    (\<exists>i nm. sid = Some i \<and> p = PlacePublished i nm \<and> wk \<noteq> WorkerFinalized) \<or> p = PlaceReleased \<and> wk \<noteq> WorkerRunning"

text \<open>What a phase says about the place of the session and its actor, given whether the
  result so far is a success, and the state of the worker with the flag \<open>registry_owned\<close>.\<close>

fun phase_ok :: "creation_phase \<Rightarrow> bool \<Rightarrow> session_id option \<Rightarrow> (worker_state \<times> bool) option \<Rightarrow> place \<Rightarrow> bool" where
  "phase_ok Reserving okay sid act p \<longleftrightarrow> act = None \<and> sid = None \<and> p = PlaceNamed"
| "phase_ok Spawning okay sid act p \<longleftrightarrow> act = None \<and> (\<exists>i. sid = Some i \<and> p = PlaceIdentified i)"
| "phase_ok Registering okay sid act p \<longleftrightarrow> (\<exists>wk. act = Some (wk, False)) \<and> (\<exists>i. sid = Some i \<and> p = PlaceIdentified i)"
| "phase_ok (Retaining after) okay sid act p \<longleftrightarrow> \<not> okay \<and>
    (case after of
       ToPublish \<Rightarrow> False
     | ToFinish \<Rightarrow> (\<exists>wk. act = Some (wk, False)) \<and> (\<exists>i. sid = Some i \<and> p = PlaceIdentified i)
     | ToWait \<Rightarrow> (\<exists>wk. act = Some (wk, True) \<and> kept_ok sid wk p))"
| "phase_ok (Marking after) okay sid act p \<longleftrightarrow> (after \<noteq> ToPublish \<longrightarrow> \<not> okay) \<and>
    (if after = ToWait then (\<exists>wk. act = Some (wk, True) \<and> (kept_ok sid wk p \<or> p = PlaceLingering \<and> wk \<noteq> WorkerRunning))
     else (\<exists>wk. act = Some (wk, False)) \<and> (\<exists>i. sid = Some i \<and> p = PlaceProvisional i))"
| "phase_ok (Checking after) okay sid act p \<longleftrightarrow> (after \<noteq> ToPublish \<longrightarrow> \<not> okay) \<and>
    (\<exists>wk. act = Some (wk, True) \<and>
      (if after = ToWait then kept_ok sid wk p \<or> p = PlaceLingering \<and> wk \<noteq> WorkerRunning
       else (\<exists>i. sid = Some i \<and> p = PlaceProvisional i) \<or> p = PlaceReleased \<and> wk \<noteq> WorkerRunning))"
| "phase_ok Publishing okay sid act p \<longleftrightarrow> (\<exists>wk. act = Some (wk, True) \<and> kept_ok sid wk p)"
| "phase_ok Finishing okay sid act p \<longleftrightarrow>
    (case act of
       None \<Rightarrow> \<not> okay \<and> unregistered_ok sid p
     | Some (wk, marked) \<Rightarrow> marked \<and> (if okay then published_ok sid wk p else kept_ok sid wk p))"
| "phase_ok Waiting okay sid act p \<longleftrightarrow> \<not> okay \<and> (\<exists>wk. act = Some (wk, True) \<and> kept_ok sid wk p)"
| "phase_ok _ okay sid act p \<longleftrightarrow>
    (case act of
       None \<Rightarrow> \<not> okay \<and> p = PlaceReleased
     | Some (wk, marked) \<Rightarrow> marked \<and> (if okay then published_ok sid wk p else kept_ok sid wk p))"

definition actor_state :: "session_registry \<Rightarrow> session_entry option \<Rightarrow> (worker_state \<times> bool) option" where
  "actor_state r act = map_option (\<lambda>e. (ac_worker (sr_actors r ! se_actor e), ac_registry_owned (sr_actors r ! se_actor e))) act"

definition owner_ok :: "session_registry \<Rightarrow> nat \<Rightarrow> creation_owner \<Rightarrow> place \<Rightarrow> bool" where
  "owner_ok r k ow p \<longleftrightarrow> ow_creation ow = k \<and>
    (\<forall>e. ow_actor ow = Some e \<longrightarrow> se_actor e < length (sr_actors r) \<and> ow_session_id ow = Some (actor_id r (se_actor e))) \<and>
    phase_ok (ow_phase ow) (is_ok (ow_result ow)) (ow_session_id ow) (actor_state r (ow_actor ow)) p \<and>
    (ow_phase ow = Finished \<longrightarrow> cc_result (sr_creations r ! k) \<noteq> None) \<and>
    (\<forall>i nm. p = PlacePublished i nm \<longrightarrow> session_name_is_main nm = session_name_is_main (ow_name ow))"

definition view_of :: "creation_owner list \<Rightarrow> (nat \<Rightarrow> place) \<Rightarrow> nat \<Rightarrow> owner_view" where
  "view_of os pl k = (ow_name (os ! k), ow_actor (os ! k), pl k)"

definition registry_inv :: "(nat \<Rightarrow> place) \<Rightarrow> session_world \<Rightarrow> bool" where
  "registry_inv pl w \<longleftrightarrow>
    (let r = sw_registry w; os = sw_owners w; n = length os in
     cells_ok n r \<and> maps_ok n (view_of os pl) r \<and> (\<forall>k<n. owner_ok r k (os ! k) (pl k)) \<and>
     (\<forall>a<length (sr_actors r). \<exists>k<n. \<exists>e. ow_actor (os ! k) = Some e \<and> se_actor e = a) \<and>
     length (sr_reservations r) \<le> max_live_sessions (sw_limits w) \<and> (\<forall>c\<in>set (sw_to_cancel w). c < n))"

lemma registry_invD:
  assumes "registry_inv pl w"
  shows "cells_ok (length (sw_owners w)) (sw_registry w)" "maps_ok (length (sw_owners w)) (view_of (sw_owners w) pl) (sw_registry w)"
    "\<And>k. k < length (sw_owners w) \<Longrightarrow> owner_ok (sw_registry w) k (sw_owners w ! k) (pl k)"
    "\<And>a. a < length (sr_actors (sw_registry w)) \<Longrightarrow>
      \<exists>k<length (sw_owners w). \<exists>e. ow_actor (sw_owners w ! k) = Some e \<and> se_actor e = a"
    "length (sr_reservations (sw_registry w)) \<le> max_live_sessions (sw_limits w)"
    "\<And>c. c \<in> set (sw_to_cancel w) \<Longrightarrow> c < length (sw_owners w)"
  using assms unfolding registry_inv_def Let_def by auto

lemma owner_okD:
  assumes "owner_ok r k ow p"
  shows "ow_creation ow = k" "ow_actor ow = Some e \<Longrightarrow> se_actor e < length (sr_actors r)"
    "ow_actor ow = Some e \<Longrightarrow> ow_session_id ow = Some (actor_id r (se_actor e))"
    "phase_ok (ow_phase ow) (is_ok (ow_result ow)) (ow_session_id ow) (actor_state r (ow_actor ow)) p"
    "ow_phase ow = Finished \<Longrightarrow> cc_result (sr_creations r ! k) \<noteq> None"
    "p = PlacePublished i nm \<Longrightarrow> session_name_is_main nm = session_name_is_main (ow_name ow)"
  using assms unfolding owner_ok_def by blast+

lemma view_of_update:
  assumes "k < length os" "ow_name ow = ow_name (os ! k)"
  shows "view_of (os[k := ow]) (pl(k := p)) = (view_of os pl)(k := (ow_name (os ! k), ow_actor ow, p))"
  using assms by (auto simp: view_of_def fun_eq_iff)

lemma actors_distinct:
  assumes "registry_inv pl w" "i < length (sw_owners w)" "k < length (sw_owners w)"
    and "ow_actor (sw_owners w ! i) = Some e" "ow_actor (sw_owners w ! k) = Some e'" "se_actor e = se_actor e'"
  shows "i = k"
  by (rule entries_inj[OF maps_okD(1)[OF registry_invD(2)[OF assms(1)]] assms(2,3) _ _ assms(6)])
    (simp_all add: view_of_def assms)

text \<open>Another owner is untouched when its actor and the result of its cell are.\<close>

lemma owner_ok_frame:
  assumes "owner_ok r j ow p" "length (sr_actors r) \<le> length (sr_actors r')"
    and "\<And>e. ow_actor ow = Some e \<Longrightarrow> sr_actors r' ! se_actor e = sr_actors r ! se_actor e"
    and "cc_result (sr_creations r ! j) \<noteq> None \<Longrightarrow> cc_result (sr_creations r' ! j) \<noteq> None"
  shows "owner_ok r' j ow p"
proof -
  have "actor_state r' (ow_actor ow) = actor_state r (ow_actor ow)"
    using assms(3) by (cases "ow_actor ow") (auto simp: actor_state_def)
  then show ?thesis using assms unfolding owner_ok_def actor_id_def by fastforce
qed

lemma owner_update:
  assumes inv: "registry_inv pl w" and k: "k < length (sw_owners w)"
    and nm: "ow_name ow = ow_name (sw_owners w ! k)"
    and maps: "maps_ok (length (sw_owners w)) ((view_of (sw_owners w) pl)(k := (ow_name (sw_owners w ! k), ow_actor ow, p))) r"
    and cells: "cells_ok (length (sw_owners w)) r"
    and others: "\<And>j. j < length (sw_owners w) \<Longrightarrow> j \<noteq> k \<Longrightarrow> owner_ok r j (sw_owners w ! j) (pl j)"
    and own: "owner_ok r k ow p"
    and actors: "\<And>a. a < length (sr_actors r) \<Longrightarrow> a < length (sr_actors (sw_registry w)) \<or> (\<exists>e. ow_actor ow = Some e \<and> se_actor e = a)"
    and kept: "\<And>e. ow_actor (sw_owners w ! k) = Some e \<Longrightarrow> ow_actor ow = Some e"
    and bound: "length (sr_reservations r) \<le> max_live_sessions (sw_limits w)"
  shows "registry_inv (pl(k := p)) (set_owner k ow r w)"
proof -
  let ?n = "length (sw_owners w)" and ?os = "(sw_owners w)[k := ow]"
  have "owner_ok r j (?os ! j) ((pl(k := p)) j)" if "j < ?n" for j using others[OF that] own k by (cases "j = k") auto
  moreover have "\<exists>j<?n. \<exists>e. ow_actor (?os ! j) = Some e \<and> se_actor e = a" if a: "a < length (sr_actors r)" for a
  proof -
    consider "a < length (sr_actors (sw_registry w))" | e where "ow_actor ow = Some e" "se_actor e = a" using actors[OF a] by blast
    then show ?thesis
    proof cases
      case 1
      then obtain j e where j: "j < ?n" "ow_actor (sw_owners w ! j) = Some e" "se_actor e = a" using registry_invD(4)[OF inv] by blast
      then have "ow_actor (?os ! j) = Some e" using kept k by (cases "j = k") auto
      then show ?thesis using j by blast
    next
      case 2
      then show ?thesis using k by (intro exI[of _ k]) auto
    qed
  qed
  ultimately show ?thesis
    using maps cells bound registry_invD(6)[OF inv] view_of_update[OF k nm, of pl p]
    unfolding registry_inv_def set_owner_def Let_def by simp
qed

text \<open>The common case: the section leaves the actors and the cells alone.\<close>

lemma owner_section:
  assumes inv: "registry_inv pl w" and k: "k < length (sw_owners w)"
    and ow: "ow_name ow = ow_name (sw_owners w ! k)" "ow_actor ow = ow_actor (sw_owners w ! k)" "ow_creation ow = ow_creation (sw_owners w ! k)"
      "ow_actor ow \<noteq> None \<Longrightarrow> ow_session_id ow = ow_session_id (sw_owners w ! k)" "ow_phase ow \<noteq> Finished"
    and maps: "maps_ok (length (sw_owners w)) ((view_of (sw_owners w) pl)(k := (ow_name (sw_owners w ! k), ow_actor (sw_owners w ! k), p))) r"
    and heap: "sr_creations r = sr_creations (sw_registry w)" "sr_actors r = sr_actors (sw_registry w)"
    and phase: "phase_ok (ow_phase ow) (is_ok (ow_result ow)) (ow_session_id ow) (actor_state (sw_registry w) (ow_actor ow)) p"
    and main: "\<And>i nm. p = PlacePublished i nm \<Longrightarrow> session_name_is_main nm = session_name_is_main (ow_name ow)"
    and bound: "length (sr_reservations r) \<le> max_live_sessions (sw_limits w)"
  shows "registry_inv (pl(k := p)) (set_owner k ow r w)"
proof (rule owner_update[OF inv k ow(1) _ _ _ _ _ _ bound])
  show "maps_ok (length (sw_owners w)) ((view_of (sw_owners w) pl)(k := (ow_name (sw_owners w ! k), ow_actor ow, p))) r"
    using maps ow(2) by simp
  show "cells_ok (length (sw_owners w)) r" using registry_invD(1)[OF inv] heap by (simp add: cells_ok_def)
  show "owner_ok r j (sw_owners w ! j) (pl j)" if "j < length (sw_owners w)" "j \<noteq> k" for j
    by (rule owner_ok_frame[OF registry_invD(3)[OF inv that(1)]]) (simp_all add: heap)
  show "owner_ok r k ow p"
    using owner_okD(1-3)[OF registry_invD(3)[OF inv k]] ow phase main heap
    unfolding owner_ok_def actor_state_def actor_id_def by fastforce
qed (use heap ow in auto)

lemma view_of_owner: "view_of os pl k = (ow_name (os ! k), ow_actor (os ! k), pl k)"
  by (simp add: view_of_def)

lemma view_same: "(view_of os pl)(k := (ow_name (os ! k), ow_actor (os ! k), pl k)) = view_of os pl"
  by (auto simp: view_of_def)

text \<open>A section that changes nothing but the phase and the result.\<close>

lemma owner_phase:
  assumes inv: "registry_inv pl w" and k: "k < length (sw_owners w)"
    and ow: "ow_name ow = ow_name (sw_owners w ! k)" "ow_actor ow = ow_actor (sw_owners w ! k)" "ow_creation ow = ow_creation (sw_owners w ! k)"
      "ow_session_id ow = ow_session_id (sw_owners w ! k)" "ow_phase ow \<noteq> Finished"
    and phase: "phase_ok (ow_phase ow) (is_ok (ow_result ow)) (ow_session_id ow) (actor_state (sw_registry w) (ow_actor ow)) (pl k)"
  shows "registry_inv pl (set_owner k ow (sw_registry w) w)"
proof -
  have "registry_inv (pl(k := pl k)) (set_owner k ow (sw_registry w) w)"
    by (rule owner_section[OF inv k ow(1-3) _ ow(5) _ _ _ phase])
      (use ow registry_invD(2,5)[OF inv] owner_okD(6)[OF registry_invD(3)[OF inv k]] in \<open>simp_all add: view_same\<close>)
  then show ?thesis by simp
qed

subsection \<open>Every section keeps the invariant\<close>

lemma reserve_session_cases:
  "(\<exists>e. reserve_creation_session nm c limits cs r = (r, Err e)) \<or>
   (\<exists>i. candidate_free r i \<and> length (sr_reservations r) < max_live_sessions limits \<and> sr_accepting r \<and>
     reserve_creation_session nm c limits cs r =
       (r\<lparr>sr_reservations := bt_insert i (cc_ownership (sr_creations r ! c)) (sr_reservations r),
          sr_by_name := bt_insert nm (SlotStarting c (Some i)) (sr_by_name r)\<rparr>, Ok i))"
proof (cases "List.find (candidate_free r) (take SESSION_ID_CANDIDATES cs)")
  case None
  then show ?thesis unfolding reserve_creation_session_def by simp
next
  case (Some i)
  then have "candidate_free r i" by (auto simp: find_Some_iff)
  then show ?thesis unfolding reserve_creation_session_def Some by simp
qed

lemma identity_inv:
  assumes inv: "registry_inv pl w" and at: "at_phase w k Reserving"
  shows "\<exists>pl'. registry_inv pl' (create_identity k deadline viewport cs w)"
proof -
  let ?r = "sw_registry w" and ?ow = "sw_owners w ! k"
  have k: "k < length (sw_owners w)" "ow_phase ?ow = Reserving" using at by (simp_all add: at_phase_def)
  have st: "ow_actor ?ow = None" "ow_session_id ?ow = None" "pl k = PlaceNamed" "ow_creation ?ow = k"
    using owner_okD(1,4)[OF registry_invD(3)[OF inv k(1)]] k(2) by (simp_all add: actor_state_def)
  have fail: "registry_inv pl (set_owner k (fail_owner e ?ow) ?r w)" for e
    by (rule owner_phase[OF inv k(1)]) (use st in \<open>simp_all add: fail_owner_def actor_state_def unregistered_ok_def\<close>)
  consider e where "create_identity k deadline viewport cs w = set_owner k (fail_owner e ?ow) ?r w"
    | r i where "create_identity k deadline viewport cs w = set_owner k (?ow\<lparr>ow_session_id := Some i, ow_phase := Spawning\<rparr>) r w"
        "candidate_free ?r i" "length (sr_reservations ?r) < max_live_sessions (sw_limits w)"
        "r = ?r\<lparr>sr_reservations := bt_insert i (cc_ownership (sr_creations ?r ! ow_creation ?ow)) (sr_reservations ?r),
               sr_by_name := bt_insert (ow_name ?ow) (SlotStarting (ow_creation ?ow) (Some i)) (sr_by_name ?r)\<rparr>"
  proof (cases "res_bind deadline (\<lambda>_. res_bind (ensure (\<not> is_cancelled ?r (ow_creation ?ow)) Cancelled) (\<lambda>_. viewport))")
    case (Err e)
    then show ?thesis using that(1)[of e] by (simp add: create_identity_def Let_def)
  next
    case (Ok u)
    have "create_identity k deadline viewport cs w =
        (case reserve_creation_session (ow_name ?ow) (ow_creation ?ow) (sw_limits w) cs ?r of
           (r', Err e) \<Rightarrow> set_owner k (fail_owner e ?ow) r' w
         | (r', Ok i) \<Rightarrow> set_owner k (?ow\<lparr>ow_session_id := Some i, ow_phase := Spawning\<rparr>) r' w)"
      unfolding create_identity_def Let_def Ok by simp
    then show ?thesis
      using reserve_session_cases[of "ow_name ?ow" "ow_creation ?ow" "sw_limits w" cs ?r] that by (elim disjE exE conjE) simp_all
  qed
  then show ?thesis
  proof cases
    case (2 r i)
    have token: "cc_ownership (sr_creations ?r ! k) = k" using registry_invD(1)[OF inv] k by (simp add: cells_ok_def)
    have free: "bt_get (sr_reservations ?r) i = None" using 2(2) by (simp add: candidate_free_def)
    have "registry_inv (pl(k := PlaceIdentified i)) (set_owner k (?ow\<lparr>ow_session_id := Some i, ow_phase := Spawning\<rparr>) r w)"
    proof (rule owner_section[OF inv k(1)])
      show "maps_ok (length (sw_owners w)) ((view_of (sw_owners w) pl)(k := (ow_name ?ow, ow_actor ?ow, PlaceIdentified i))) r"
        by (rule move_identified[OF registry_invD(2)[OF inv] k(1) _ free]) (use 2(4) st token in \<open>simp_all add: view_of_owner\<close>)
      show "length (sr_reservations r) \<le> max_live_sessions (sw_limits w)"
        using 2(3,4) length_bt_insert_le[of i "cc_ownership (sr_creations ?r ! ow_creation ?ow)" "sr_reservations ?r"] by simp
    qed (use 2(4) st in \<open>simp_all add: actor_state_def\<close>)
    then show ?thesis using 2(1) by auto
  qed (use fail in auto)
qed

lemma start_actor_inv:
  assumes inv: "registry_inv pl w" and at: "at_phase w k Spawning"
  shows "\<exists>pl'. registry_inv pl' (create_actor k spawned w)"
proof -
  let ?r = "sw_registry w" and ?ow = "sw_owners w ! k"
  have k: "k < length (sw_owners w)" "ow_phase ?ow = Spawning" using at by (simp_all add: at_phase_def)
  obtain i where st: "ow_actor ?ow = None" "ow_session_id ?ow = Some i" "pl k = PlaceIdentified i" "ow_creation ?ow = k"
    using owner_okD(1,4)[OF registry_invD(3)[OF inv k(1)]] k(2) by (auto simp: actor_state_def)
  have token: "cc_ownership (sr_creations ?r ! k) = k" using registry_invD(1)[OF inv] k by (simp add: cells_ok_def)
  show ?thesis
  proof (cases spawned)
    case (Err e)
    have "registry_inv pl (set_owner k (fail_owner e ?ow) ?r w)"
      by (rule owner_phase[OF inv k(1)]) (use st in \<open>simp_all add: fail_owner_def actor_state_def unregistered_ok_def\<close>)
    then show ?thesis using Err by (auto simp: create_actor_def Let_def)
  next
    case (Ok cwd)
    let ?a = "length (sr_actors ?r)"
    define e where "e = \<lparr>se_actor = ?a, se_name = ow_name ?ow, se_working_directory = cwd, se_ownership = k\<rparr>"
    define r where "r = ?r\<lparr>sr_actors := sr_actors ?r @ [\<lparr>ac_id = i, ac_worker = WorkerRunning, ac_registry_owned = False\<rparr>]\<rparr>"
    have fresh: "se_actor e' \<noteq> se_actor e" if "j < length (sw_owners w)" "view_of (sw_owners w) pl j = (nm', Some e', p')" for j nm' e' p'
      using owner_okD(2)[OF registry_invD(3)[OF inv that(1)]] that(2) by (auto simp: view_of_def e_def)
    have "registry_inv (pl(k := PlaceIdentified i)) (set_owner k (?ow\<lparr>ow_actor := Some e, ow_phase := Registering\<rparr>) r w)"
    proof (rule owner_update[OF inv k(1)])
      have "maps_ok (length (sw_owners w)) ((view_of (sw_owners w) pl)(k := (ow_name ?ow, Some e, PlaceIdentified i))) r"
        by (rule move_started[OF registry_invD(2)[OF inv] k(1) _ _ _ _ _ _ fresh]) (use st in \<open>simp_all add: view_of_owner e_def r_def\<close>)
      then show "maps_ok (length (sw_owners w))
          ((view_of (sw_owners w) pl)(k := (ow_name ?ow, ow_actor (?ow\<lparr>ow_actor := Some e, ow_phase := Registering\<rparr>), PlaceIdentified i))) r"
        by simp
      show "cells_ok (length (sw_owners w)) r" using registry_invD(1)[OF inv] by (simp add: cells_ok_def r_def)
      show "owner_ok r j (sw_owners w ! j) (pl j)" if "j < length (sw_owners w)" "j \<noteq> k" for j
        by (rule owner_ok_frame[OF registry_invD(3)[OF inv that(1)]])
          (use owner_okD(2)[OF registry_invD(3)[OF inv that(1)]] in \<open>simp_all add: r_def nth_append\<close>)
      show "owner_ok r k (?ow\<lparr>ow_actor := Some e, ow_phase := Registering\<rparr>) (PlaceIdentified i)"
        using st by (simp add: owner_ok_def actor_state_def e_def r_def actor_id_def nth_append)
    qed (use st registry_invD(5)[OF inv] in \<open>auto simp: r_def e_def\<close>)
    moreover have "create_actor k spawned w = set_owner k (?ow\<lparr>ow_actor := Some e, ow_phase := Registering\<rparr>) r w"
      using Ok st token by (simp add: create_actor_def Let_def e_def r_def)
    ultimately show ?thesis by auto
  qed
qed

lemma provisional_cases:
  "(\<exists>err. register_provisional i e r = (r, Err err)) \<or>
   register_provisional i e r = (r\<lparr>sr_provisional := bt_insert i e (sr_provisional r)\<rparr>, Ok ())"
  by (simp add: register_provisional_def)

lemma register_inv:
  assumes inv: "registry_inv pl w" and at: "at_phase w k Registering"
  shows "\<exists>pl'. registry_inv pl' (create_register k w)"
proof -
  let ?r = "sw_registry w" and ?ow = "sw_owners w ! k"
  have k: "k < length (sw_owners w)" "ow_phase ?ow = Registering" using at by (simp_all add: at_phase_def)
  obtain e i wk where st: "ow_actor ?ow = Some e" "ow_session_id ?ow = Some i" "pl k = PlaceIdentified i"
      "actor_state ?r (Some e) = Some (wk, False)"
    using owner_okD(4)[OF registry_invD(3)[OF inv k(1)]] k(2) by (cases "ow_actor ?ow") (auto simp: actor_state_def)
  have free: "bt_get (sr_provisional ?r) i = None"
    using identity_unique(2)[OF registry_invD(2)[OF inv] k(1), of i] st by (simp add: view_of_owner)
  consider err where "create_register k w = set_owner k (?ow\<lparr>ow_phase := Retaining ToFinish, ow_result := Err err\<rparr>) ?r w"
    | "create_register k w = set_owner k (?ow\<lparr>ow_phase := Marking ToPublish\<rparr>) (?r\<lparr>sr_provisional := bt_insert i e (sr_provisional ?r)\<rparr>) w"
  proof -
    show ?thesis
      using provisional_cases[of i e ?r] st that by (elim disjE exE) (simp_all add: create_register_def Let_def)
  qed
  then show ?thesis
  proof cases
    case 1
    have "registry_inv pl (set_owner k (?ow\<lparr>ow_phase := Retaining ToFinish, ow_result := Err err\<rparr>) ?r w)"
      by (rule owner_phase[OF inv k(1)]) (use st in simp_all)
    then show ?thesis using 1 by auto
  next
    case 2
    have "registry_inv (pl(k := PlaceProvisional i))
        (set_owner k (?ow\<lparr>ow_phase := Marking ToPublish\<rparr>) (?r\<lparr>sr_provisional := bt_insert i e (sr_provisional ?r)\<rparr>) w)"
    proof (rule owner_section[OF inv k(1)])
      show "maps_ok (length (sw_owners w)) ((view_of (sw_owners w) pl)(k := (ow_name ?ow, ow_actor ?ow, PlaceProvisional i)))
          (?r\<lparr>sr_provisional := bt_insert i e (sr_provisional ?r)\<rparr>)"
        unfolding st(1) by (rule move_provisional[OF registry_invD(2)[OF inv] k(1) _ free]) (use st in \<open>simp_all add: view_of_owner\<close>)
    qed (use st registry_invD(5)[OF inv] in simp_all)
    then show ?thesis using 2 by auto
  qed
qed

lemma retain_inv:
  assumes inv: "registry_inv pl w" and at: "at_phase w k (Retaining after)"
  shows "\<exists>pl'. registry_inv pl' (create_retain k after w)"
proof -
  let ?r = "sw_registry w" and ?ow = "sw_owners w ! k"
  have k: "k < length (sw_owners w)" "ow_phase ?ow = Retaining after" using at by (simp_all add: at_phase_def)
  have ph: "phase_ok (Retaining after) (is_ok (ow_result ?ow)) (ow_session_id ?ow) (actor_state ?r (ow_actor ?ow)) (pl k)"
    using owner_okD(4)[OF registry_invD(3)[OF inv k(1)]] k(2) by simp
  then obtain e where e: "ow_actor ?ow = Some e" by (cases after; cases "ow_actor ?ow") (auto simp: actor_state_def)
  obtain i where i: "ow_session_id ?ow = Some i" using owner_okD(3)[OF registry_invD(3)[OF inv k(1)] e] by simp
  have p: "pl k = PlaceIdentified i \<or> pl k = PlaceProvisional i \<or> pl k = PlaceReleased"
    using ph i by (cases after) (auto simp: kept_ok_def)
  have ph': "phase_ok (Marking after) (is_ok (ow_result ?ow)) (ow_session_id ?ow) (actor_state ?r (ow_actor ?ow)) (retained (pl k))"
    using ph i by (cases after) (auto simp: kept_ok_def)
  have "registry_inv (pl(k := retained (pl k)))
      (set_owner k (?ow\<lparr>ow_phase := Marking after\<rparr>) (retain_provisional_for_cleanup i e ?r) w)"
  proof (rule owner_section[OF inv k(1)])
    show "maps_ok (length (sw_owners w)) ((view_of (sw_owners w) pl)(k := (ow_name ?ow, ow_actor ?ow, retained (pl k))))
        (retain_provisional_for_cleanup i e ?r)"
      unfolding e by (rule retain_maps[OF registry_invD(2,1)[OF inv] k(1) _ p]) (simp add: view_of_owner e)
    show "session_name_is_main nm = session_name_is_main (ow_name (?ow\<lparr>ow_phase := Marking after\<rparr>))"
      if "retained (pl k) = PlacePublished j nm" for j nm using p that by auto
  qed (use ph' registry_invD(5)[OF inv] in \<open>simp_all add: retain_frame\<close>)
  moreover have "create_retain k after w =
      set_owner k (?ow\<lparr>ow_phase := Marking after\<rparr>) (retain_provisional_for_cleanup i e ?r) w"
    by (simp add: create_retain_def Let_def e i)
  ultimately show ?thesis by auto
qed

lemma phase_mark:
  "phase_ok (Marking after) okay sid (Some (wk, m)) p \<Longrightarrow> phase_ok (Checking after) okay sid (Some (wk, True)) p"
  by (cases after) auto

lemma phase_marked_twice: "phase_ok (Marking after) okay sid act p \<Longrightarrow> \<exists>wk m. act = Some (wk, m)"
  by (cases after) auto

text \<open>Actor \<open>a\<close> of owner \<open>k\<close> changes its flags, and its creation goes on.\<close>

lemma actor_update:
  assumes inv: "registry_inv pl w" and k: "k < length (sw_owners w)" and e: "ow_actor (sw_owners w ! k) = Some e"
    and ow: "ow_name ow = ow_name (sw_owners w ! k)" "ow_actor ow = Some e" "ow_creation ow = ow_creation (sw_owners w ! k)"
      "ow_session_id ow = ow_session_id (sw_owners w ! k)" "ow_phase ow = Finished \<Longrightarrow> ow_phase (sw_owners w ! k) = Finished"
    and maps: "maps_ok (length (sw_owners w)) ((view_of (sw_owners w) pl)(k := (ow_name (sw_owners w ! k), Some e, p))) r"
    and heap: "sr_creations r = sr_creations (sw_registry w)"
      "sr_actors r = (sr_actors (sw_registry w))[se_actor e := c]" "ac_id c = actor_id (sw_registry w) (se_actor e)"
    and phase: "phase_ok (ow_phase ow) (is_ok (ow_result ow)) (ow_session_id ow) (Some (ac_worker c, ac_registry_owned c)) p"
    and main: "\<And>i nm. p = PlacePublished i nm \<Longrightarrow> session_name_is_main nm = session_name_is_main (ow_name ow)"
    and bound: "length (sr_reservations r) \<le> max_live_sessions (sw_limits w)"
  shows "registry_inv (pl(k := p)) (set_owner k ow r w)"
proof (rule owner_update[OF inv k ow(1) _ _ _ _ _ _ bound])
  show "maps_ok (length (sw_owners w)) ((view_of (sw_owners w) pl)(k := (ow_name (sw_owners w ! k), ow_actor ow, p))) r"
    using maps ow(2) by simp
  show "cells_ok (length (sw_owners w)) r" using registry_invD(1)[OF inv] heap by (simp add: cells_ok_def)
  have bound: "se_actor e < length (sr_actors (sw_registry w))" by (rule owner_okD(2)[OF registry_invD(3)[OF inv k] e])
  show "owner_ok r j (sw_owners w ! j) (pl j)" if j: "j < length (sw_owners w)" "j \<noteq> k" for j
  proof (rule owner_ok_frame[OF registry_invD(3)[OF inv j(1)]])
    fix e' assume "ow_actor (sw_owners w ! j) = Some e'"
    then have "se_actor e' \<noteq> se_actor e" using actors_distinct[OF inv j(1) k _ e] j(2) by blast
    then show "sr_actors r ! se_actor e' = sr_actors (sw_registry w) ! se_actor e'" by (simp add: heap)
  qed (simp_all add: heap)
  show "owner_ok r k ow p"
    using owner_okD(1-3,5)[OF registry_invD(3)[OF inv k]] ow phase main heap bound e
    unfolding owner_ok_def actor_state_def actor_id_def by simp
qed (use heap ow e in auto)

lemma mark_inv:
  assumes inv: "registry_inv pl w" and at: "at_phase w k (Marking after)"
  shows "\<exists>pl'. registry_inv pl' (create_mark k after w)"
proof -
  let ?r = "sw_registry w" and ?ow = "sw_owners w ! k"
  have k: "k < length (sw_owners w)" "ow_phase ?ow = Marking after" using at by (simp_all add: at_phase_def)
  have ph: "phase_ok (Marking after) (is_ok (ow_result ?ow)) (ow_session_id ?ow) (actor_state ?r (ow_actor ?ow)) (pl k)"
    using owner_okD(4)[OF registry_invD(3)[OF inv k(1)]] k(2) by simp
  obtain e where e: "ow_actor ?ow = Some e" using phase_marked_twice[OF ph] by (auto simp: actor_state_def)
  have "registry_inv (pl(k := pl k)) (set_owner k (?ow\<lparr>ow_phase := Checking after\<rparr>) (mark_registry_owned (se_actor e) ?r) w)"
  proof (rule actor_update[OF inv k(1) e])
    show "phase_ok (ow_phase (?ow\<lparr>ow_phase := Checking after\<rparr>)) (is_ok (ow_result (?ow\<lparr>ow_phase := Checking after\<rparr>)))
        (ow_session_id (?ow\<lparr>ow_phase := Checking after\<rparr>))
        (Some (ac_worker ((sr_actors ?r ! se_actor e)\<lparr>ac_registry_owned := True\<rparr>),
               ac_registry_owned ((sr_actors ?r ! se_actor e)\<lparr>ac_registry_owned := True\<rparr>))) (pl k)"
      using phase_mark ph e by (simp add: actor_state_def del: phase_ok.simps)
    show "maps_ok (length (sw_owners w)) ((view_of (sw_owners w) pl)(k := (ow_name ?ow, Some e, pl k))) (mark_registry_owned (se_actor e) ?r)"
      using registry_invD(2)[OF inv] view_same[of "sw_owners w" pl k] e by (simp add: mark_registry_owned_def maps_ok_def)
  qed (use e registry_invD(5)[OF inv] owner_okD(6)[OF registry_invD(3)[OF inv k(1)]] in \<open>simp_all add: mark_registry_owned_def actor_id_def\<close>)
  then show ?thesis using e by (auto simp: create_mark_def Let_def)
qed

lemma place_identity:
  assumes "phase_ok ph okay sid (Some (wk, m)) p"
  shows "p = PlaceProvisional i \<Longrightarrow> sid = Some i" "p = PlacePublished i nm \<Longrightarrow> sid = Some i" "p = PlaceNamed \<Longrightarrow> False"
  using assms by (cases ph; auto simp: kept_ok_def published_ok_def unregistered_ok_def split: after_mark.splits if_splits)+

lemma phase_check:
  assumes "phase_ok (Checking after) okay sid (Some (wk, m)) p"
  shows "phase_ok (after_phase after) okay sid (Some (wk, m)) (if wk \<noteq> WorkerRunning then completed p else p)"
  using assms by (cases after; cases wk) (auto simp: kept_ok_def split: if_splits)

lemma phase_exits:
  "phase_ok ph okay sid (Some (WorkerRunning, m)) p \<Longrightarrow> phase_ok ph okay sid (Some (WorkerDone, m)) p"
  by (cases ph) (auto simp: kept_ok_def published_ok_def split: after_mark.splits if_splits)

lemma phase_finalizes:
  "phase_ok ph okay sid (Some (WorkerDone, m)) p \<Longrightarrow>
   phase_ok ph okay sid (Some (WorkerFinalized, m)) (if m then completed p else p)"
  by (cases ph) (auto simp: kept_ok_def published_ok_def split: after_mark.splits if_splits)

text \<open>The actor of an owner, and what \<open>complete\<close> does for it.\<close>

lemma complete_owner:
  assumes inv: "registry_inv pl w" and k: "k < length (sw_owners w)" and e: "ow_actor (sw_owners w ! k) = Some e"
  shows "maps_ok (length (sw_owners w)) ((view_of (sw_owners w) pl)(k := (ow_name (sw_owners w ! k), Some e, completed (pl k))))
    (registry_complete (actor_id (sw_registry w) (se_actor e)) (se_actor e) (sw_registry w))"
proof (rule complete_maps[OF registry_invD(2,1)[OF inv] k])
  show "view_of (sw_owners w) pl k = (ow_name (sw_owners w ! k), Some e, pl k)" by (simp add: view_of_owner e)
  have sid: "ow_session_id (sw_owners w ! k) = Some (actor_id (sw_registry w) (se_actor e))"
    by (rule owner_okD(3)[OF registry_invD(3)[OF inv k] e])
  note ph = owner_okD(4)[OF registry_invD(3)[OF inv k], unfolded e actor_state_def option.map]
  show "pl k = PlaceProvisional j \<Longrightarrow> j = actor_id (sw_registry w) (se_actor e)" for j
    using place_identity(1)[OF ph] sid by simp
  show "pl k = PlacePublished j nm' \<Longrightarrow> j = actor_id (sw_registry w) (se_actor e)" for j nm'
    using place_identity(2)[OF ph] sid by simp
qed

lemma completed_published: "completed p \<noteq> PlacePublished i nm"
  by (cases p) auto

lemma maps_unchanged:
  assumes "registry_inv pl w" "ow_actor (sw_owners w ! k) = act"
  shows "maps_ok (length (sw_owners w)) ((view_of (sw_owners w) pl)(k := (ow_name (sw_owners w ! k), act, pl k))) (sw_registry w)"
  using registry_invD(2)[OF assms(1)] view_same[of "sw_owners w" pl k] assms(2) by simp

lemma check_inv:
  assumes inv: "registry_inv pl w" and at: "at_phase w k (Checking after)"
  shows "\<exists>pl'. registry_inv pl' (create_check k after w)"
proof -
  let ?r = "sw_registry w" and ?ow = "sw_owners w ! k"
  have k: "k < length (sw_owners w)" "ow_phase ?ow = Checking after" using at by (simp_all add: at_phase_def)
  have ph: "phase_ok (Checking after) (is_ok (ow_result ?ow)) (ow_session_id ?ow) (actor_state ?r (ow_actor ?ow)) (pl k)"
    using owner_okD(4)[OF registry_invD(3)[OF inv k(1)]] k(2) by simp
  then obtain e where e: "ow_actor ?ow = Some e" by (auto simp: actor_state_def)
  let ?c = "sr_actors ?r ! se_actor e"
  let ?p = "if ac_worker ?c \<noteq> WorkerRunning then completed (pl k) else pl k"
  let ?r' = "if worker_done ?r (se_actor e) then registry_complete (actor_id ?r (se_actor e)) (se_actor e) ?r else ?r"
  have ph': "phase_ok (after_phase after) (is_ok (ow_result ?ow)) (ow_session_id ?ow) (Some (ac_worker ?c, ac_registry_owned ?c)) ?p"
    by (rule phase_check) (use ph e in \<open>simp add: actor_state_def\<close>)
  have "registry_inv (pl(k := ?p)) (set_owner k (?ow\<lparr>ow_phase := after_phase after\<rparr>) ?r' w)"
  proof (rule owner_section[OF inv k(1)])
    show "maps_ok (length (sw_owners w)) ((view_of (sw_owners w) pl)(k := (ow_name ?ow, ow_actor ?ow, ?p))) ?r'"
      using complete_owner[OF inv k(1) e] maps_unchanged[OF inv e] e by (simp add: worker_done_def)
    show "session_name_is_main nm = session_name_is_main (ow_name (?ow\<lparr>ow_phase := after_phase after\<rparr>))"
      if "?p = PlacePublished i nm" for i nm
      using that completed_published owner_okD(6)[OF registry_invD(3)[OF inv k(1)]] by (simp split: if_splits)
    show "length (sr_reservations ?r') \<le> max_live_sessions (sw_limits w)"
      using registry_invD(5)[OF inv] complete_frame(4)[of "actor_id ?r (se_actor e)" "se_actor e" ?r] by simp
    show "phase_ok (ow_phase (?ow\<lparr>ow_phase := after_phase after\<rparr>)) (is_ok (ow_result (?ow\<lparr>ow_phase := after_phase after\<rparr>)))
        (ow_session_id (?ow\<lparr>ow_phase := after_phase after\<rparr>)) (actor_state ?r (ow_actor (?ow\<lparr>ow_phase := after_phase after\<rparr>))) ?p"
      using ph' e by (simp add: actor_state_def)
    show "ow_phase (?ow\<lparr>ow_phase := after_phase after\<rparr>) \<noteq> Finished" by (cases after) simp_all
  qed (simp_all add: complete_frame)
  then show ?thesis using e by (auto simp: create_check_def Let_def)
qed

lemma worker_exits_inv:
  assumes inv: "registry_inv pl w" and at: "worker_is (sw_registry w) a WorkerRunning"
  shows "\<exists>pl'. registry_inv pl' (worker_exits a w)"
proof -
  let ?r = "sw_registry w"
  have a: "a < length (sr_actors ?r)" "ac_worker (sr_actors ?r ! a) = WorkerRunning" using at by (simp_all add: worker_is_def)
  obtain k e where k: "k < length (sw_owners w)" "ow_actor (sw_owners w ! k) = Some e" "se_actor e = a"
    using registry_invD(4)[OF inv a(1)] by blast
  let ?ow = "sw_owners w ! k"
  have "registry_inv (pl(k := pl k)) (set_owner k ?ow (set_worker a WorkerDone ?r) w)"
  proof (rule actor_update[OF inv k(1,2)])
    show "phase_ok (ow_phase ?ow) (is_ok (ow_result ?ow)) (ow_session_id ?ow)
        (Some (ac_worker ((sr_actors ?r ! a)\<lparr>ac_worker := WorkerDone\<rparr>), ac_registry_owned ((sr_actors ?r ! a)\<lparr>ac_worker := WorkerDone\<rparr>))) (pl k)"
      using phase_exits[of "ow_phase ?ow" "is_ok (ow_result ?ow)" "ow_session_id ?ow" "ac_registry_owned (sr_actors ?r ! a)" "pl k"]
        owner_okD(4)[OF registry_invD(3)[OF inv k(1)]] k a by (simp add: actor_state_def del: phase_ok.simps)
    show "maps_ok (length (sw_owners w)) ((view_of (sw_owners w) pl)(k := (ow_name ?ow, Some e, pl k))) (set_worker a WorkerDone ?r)"
      using maps_unchanged[OF inv k(2)] by (simp add: set_worker_def maps_ok_def)
  qed (use k registry_invD(5)[OF inv] owner_okD(6)[OF registry_invD(3)[OF inv k(1)]] in \<open>simp_all add: set_worker_def actor_id_def\<close>)
  then show ?thesis by (auto simp: worker_exits_def set_owner_def)
qed

lemma worker_finalizes_inv:
  assumes inv: "registry_inv pl w" and at: "worker_is (sw_registry w) a WorkerDone"
  shows "\<exists>pl'. registry_inv pl' (worker_finalizes a w)"
proof -
  let ?r = "sw_registry w"
  have a: "a < length (sr_actors ?r)" "ac_worker (sr_actors ?r ! a) = WorkerDone" using at by (simp_all add: worker_is_def)
  obtain k e where k: "k < length (sw_owners w)" "ow_actor (sw_owners w ! k) = Some e" "se_actor e = a"
    using registry_invD(4)[OF inv a(1)] by blast
  let ?ow = "sw_owners w ! k" and ?m = "ac_registry_owned (sr_actors ?r ! a)"
  let ?p = "if ?m then completed (pl k) else pl k" and ?c = "(sr_actors ?r ! a)\<lparr>ac_worker := WorkerFinalized\<rparr>"
  define r where "r = (if ?m then registry_complete (actor_id ?r a) a ?r else ?r)"
  have frame: "sr_creations r = sr_creations ?r" "sr_actors r = sr_actors ?r" "length (sr_reservations r) \<le> length (sr_reservations ?r)"
    by (simp_all add: r_def complete_frame)
  have maps: "maps_ok (length (sw_owners w)) ((view_of (sw_owners w) pl)(k := (ow_name ?ow, Some e, ?p))) r"
    using complete_owner[OF inv k(1,2)] maps_unchanged[OF inv k(2)] k(3) by (simp add: r_def)
  have "registry_inv (pl(k := ?p)) (set_owner k ?ow (set_worker a WorkerFinalized r) w)"
  proof (rule actor_update[OF inv k(1,2), where c = ?c])
    show "phase_ok (ow_phase ?ow) (is_ok (ow_result ?ow)) (ow_session_id ?ow) (Some (ac_worker ?c, ac_registry_owned ?c)) ?p"
      using phase_finalizes[of "ow_phase ?ow" "is_ok (ow_result ?ow)" "ow_session_id ?ow" ?m "pl k"]
        owner_okD(4)[OF registry_invD(3)[OF inv k(1)]] k a by (simp add: actor_state_def del: phase_ok.simps)
    show "maps_ok (length (sw_owners w)) ((view_of (sw_owners w) pl)(k := (ow_name ?ow, Some e, ?p))) (set_worker a WorkerFinalized r)"
      using maps by (simp add: set_worker_def maps_ok_def)
    show "session_name_is_main nm = session_name_is_main (ow_name ?ow)" if "?p = PlacePublished i nm" for i nm
      using that completed_published owner_okD(6)[OF registry_invD(3)[OF inv k(1)]] by (simp split: if_splits)
  qed (use k frame registry_invD(5)[OF inv] in \<open>simp_all add: set_worker_def actor_id_def\<close>)
  then show ?thesis by (auto simp: worker_finalizes_def set_owner_def r_def Let_def)
qed

lemma publish_cases:
  "(\<exists>err. publish_name nm c i a r = (r, Err err)) \<or> publish_name nm c i a r = (r, Ok False) \<or>
   (\<exists>e. holds_actor (sr_provisional r) i a \<and> bt_get (sr_provisional r) i = Some e \<and>
     publish_name nm c i a r = (r\<lparr>sr_provisional := bt_remove i (sr_provisional r),
       sr_by_name := bt_insert nm (SlotLive i (se_ownership e)) (sr_by_name r), sr_by_id := bt_insert i e (sr_by_id r)\<rparr>, Ok True))"
  by (auto simp: publish_name_def split: option.split)

lemma publish_inv:
  assumes inv: "registry_inv pl w" and at: "at_phase w k Publishing"
  shows "\<exists>pl'. registry_inv pl' (create_publish k w)"
proof -
  let ?r = "sw_registry w" and ?ow = "sw_owners w ! k"
  have k: "k < length (sw_owners w)" "ow_phase ?ow = Publishing" using at by (simp_all add: at_phase_def)
  have ph: "phase_ok Publishing (is_ok (ow_result ?ow)) (ow_session_id ?ow) (actor_state ?r (ow_actor ?ow)) (pl k)"
    using owner_okD(4)[OF registry_invD(3)[OF inv k(1)]] k(2) by simp
  then obtain e where e: "ow_actor ?ow = Some e" by (auto simp: actor_state_def)
  obtain i where i: "ow_session_id ?ow = Some i" using owner_okD(3)[OF registry_invD(3)[OF inv k(1)] e] by simp
  have v: "view_of (sw_owners w) pl k = (ow_name ?ow, Some e, pl k)" by (simp add: view_of_owner e)
  have fail: "registry_inv pl (set_owner k (fail_owner err ?ow) ?r w)" for err
    by (rule owner_phase[OF inv k(1)]) (use ph in \<open>auto simp: fail_owner_def\<close>)
  from publish_cases[of "ow_name ?ow" "ow_creation ?ow" i "se_actor e" ?r] show ?thesis
  proof (elim disjE exE conjE)
    fix e' assume pub: "holds_actor (sr_provisional ?r) i (se_actor e)" "bt_get (sr_provisional ?r) i = Some e'"
      "publish_name (ow_name ?ow) (ow_creation ?ow) i (se_actor e) ?r =
        (?r\<lparr>sr_provisional := bt_remove i (sr_provisional ?r),
           sr_by_name := bt_insert (ow_name ?ow) (SlotLive i (se_ownership e')) (sr_by_name ?r), sr_by_id := bt_insert i e' (sr_by_id ?r)\<rparr>, Ok True)"
    have p: "pl k = PlaceProvisional i" using actor_provisional[OF registry_invD(2)[OF inv] k(1) v] pub(1) by simp
    have unique: "bt_get (sr_by_id ?r) i = None" "e' = e"
      using identity_unique[OF registry_invD(2)[OF inv] k(1), of i] pub(2) p v by simp_all
    have own: "se_ownership e = k" using entries_owner[OF maps_okD(1)[OF registry_invD(2)[OF inv]] k(1) v] by simp
    let ?r' = "?r\<lparr>sr_provisional := bt_remove i (sr_provisional ?r),
      sr_by_name := bt_insert (ow_name ?ow) (SlotLive i k) (sr_by_name ?r), sr_by_id := bt_insert i e (sr_by_id ?r)\<rparr>"
    have "registry_inv (pl(k := PlacePublished i (ow_name ?ow))) (set_owner k (?ow\<lparr>ow_phase := Finishing, ow_result := Ok e\<rparr>) ?r' w)"
    proof (rule owner_section[OF inv k(1)])
      show "maps_ok (length (sw_owners w)) ((view_of (sw_owners w) pl)(k := (ow_name ?ow, ow_actor ?ow, PlacePublished i (ow_name ?ow)))) ?r'"
        unfolding e by (rule move_published[OF registry_invD(2)[OF inv] k(1) _ unique(1)]) (use v p in simp_all)
    qed (use ph i e p registry_invD(5)[OF inv] in \<open>auto simp: kept_ok_def published_ok_def actor_state_def\<close>)
    moreover have "create_publish k w = set_owner k (?ow\<lparr>ow_phase := Finishing, ow_result := Ok e\<rparr>) ?r' w"
      using pub(3) unique(2) own by (simp add: create_publish_def Let_def e i)
    ultimately show ?thesis by auto
  qed (use fail in \<open>auto simp: create_publish_def Let_def e i\<close>)
qed

lemma finish_inv:
  assumes inv: "registry_inv pl w" and at: "at_phase w k Finishing"
  shows "\<exists>pl'. registry_inv pl' (create_finish k w)"
proof -
  let ?r = "sw_registry w" and ?ow = "sw_owners w ! k"
  have k: "k < length (sw_owners w)" "ow_phase ?ow = Finishing" using at by (simp_all add: at_phase_def)
  have ph: "phase_ok Finishing (is_ok (ow_result ?ow)) (ow_session_id ?ow) (actor_state ?r (ow_actor ?ow)) (pl k)"
    using owner_okD(4)[OF registry_invD(3)[OF inv k(1)]] k(2) by simp
  show ?thesis
  proof (cases "ow_result ?ow")
    case (Ok x)
    have "registry_inv pl (set_owner k (?ow\<lparr>ow_phase := Completing\<rparr>) ?r w)"
      by (rule owner_phase[OF inv k(1)]) (use ph Ok in \<open>auto split: option.splits\<close>)
    then show ?thesis using Ok by (auto simp: create_finish_def Let_def)
  next
    case (Err x)
    show ?thesis
    proof (cases "ow_actor ?ow")
      case (Some e)
      have "registry_inv pl (set_owner k (?ow\<lparr>ow_phase := Retaining ToWait\<rparr>) ?r w)"
        by (rule owner_phase[OF inv k(1)]) (use ph Err Some in \<open>auto simp: actor_state_def\<close>)
      then show ?thesis using Err Some by (auto simp: create_finish_def Let_def)
    next
      case None
      have p: "pl k = (case ow_session_id ?ow of None \<Rightarrow> PlaceNamed | Some i \<Rightarrow> PlaceIdentified i)"
        using ph Err None by (simp add: actor_state_def unregistered_ok_def)
      let ?r' = "release_creation (ow_name ?ow) k (ow_session_id ?ow) ?r"
      have "registry_inv (pl(k := PlaceReleased)) (set_owner k (?ow\<lparr>ow_session_id := None, ow_phase := Completing\<rparr>) ?r' w)"
      proof (rule owner_section[OF inv k(1)])
        show "maps_ok (length (sw_owners w)) ((view_of (sw_owners w) pl)(k := (ow_name ?ow, ow_actor ?ow, PlaceReleased))) ?r'"
          unfolding None by (rule release_maps[OF registry_invD(2,1)[OF inv] k(1) _ p]) (simp add: view_of_owner None)
        show "length (sr_reservations ?r') \<le> max_live_sessions (sw_limits w)"
          using registry_invD(5)[OF inv] release_frame(4)[of "ow_name ?ow" k "ow_session_id ?ow" ?r] by simp
      qed (use Err None in \<open>simp_all add: release_frame actor_state_def\<close>)
      then show ?thesis using Err None owner_okD(1)[OF registry_invD(3)[OF inv k(1)]] by (auto simp: create_finish_def Let_def)
    qed
  qed
qed

lemma await_inv:
  assumes inv: "registry_inv pl w" and at: "at_phase w k Waiting"
  shows "\<exists>pl'. registry_inv pl' (create_await k ended w)"
proof -
  have k: "k < length (sw_owners w)" "ow_phase (sw_owners w ! k) = Waiting" using at by (simp_all add: at_phase_def)
  note ph = owner_okD(4)[OF registry_invD(3)[OF inv k(1)], unfolded k(2)]
  show ?thesis
  proof (cases ended)
    case (Ok u)
    have "registry_inv pl (set_owner k ((sw_owners w ! k)\<lparr>ow_phase := Completing\<rparr>) (sw_registry w) w)"
      by (rule owner_phase[OF inv k(1)]) (use ph in auto)
    then show ?thesis using Ok by (auto simp: create_await_def Let_def)
  next
    case (Err e)
    have "registry_inv pl (set_owner k ((sw_owners w ! k)\<lparr>ow_phase := Completing, ow_result := Err e\<rparr>) (sw_registry w) w)"
      by (rule owner_phase[OF inv k(1)]) (use ph in auto)
    then show ?thesis using Err by (auto simp: create_await_def Let_def)
  qed
qed

lemma nth_update_field: "f x = f (xs ! c) \<Longrightarrow> f (xs[c := x] ! j) = f (xs ! j)"
  by (cases "c < length xs"; cases "j = c") (auto simp: list_update_beyond)

lemma creation_complete_frame:
  "sr_by_id (creation_complete c res r) = sr_by_id r" "sr_provisional (creation_complete c res r) = sr_provisional r"
  "sr_cleanup_only (creation_complete c res r) = sr_cleanup_only r" "sr_by_name (creation_complete c res r) = sr_by_name r"
  "sr_reservations (creation_complete c res r) = sr_reservations r" "sr_actors (creation_complete c res r) = sr_actors r"
  "sr_accepting (creation_complete c res r) = sr_accepting r"
  by (simp_all add: creation_complete_def split: option.split)

lemma creation_complete_ok:
  "cells_ok n (creation_complete c res r) = cells_ok n r" "maps_ok n view (creation_complete c res r) = maps_ok n view r"
proof -
  have "cc_ownership (sr_creations (creation_complete c res r) ! j) = cc_ownership (sr_creations r ! j)" for j
    by (simp add: creation_complete_def nth_update_field[where f = cc_ownership] split: option.split)
  moreover have "length (sr_creations (creation_complete c res r)) = length (sr_creations r)"
    by (simp add: creation_complete_def split: option.split)
  ultimately show "cells_ok n (creation_complete c res r) = cells_ok n r" by (simp add: cells_ok_def)
  show "maps_ok n view (creation_complete c res r) = maps_ok n view r" by (simp add: maps_ok_def creation_complete_frame)
qed

lemma creation_complete_result:
  "c < length (sr_creations r) \<Longrightarrow> cc_result (sr_creations (creation_complete c res r) ! c) \<noteq> None"
  "cc_result (sr_creations r ! j) \<noteq> None \<Longrightarrow> cc_result (sr_creations (creation_complete c res r) ! j) \<noteq> None"
proof -
  show "c < length (sr_creations r) \<Longrightarrow> cc_result (sr_creations (creation_complete c res r) ! c) \<noteq> None"
    by (simp add: creation_complete_def split: option.split)
  show "cc_result (sr_creations r ! j) \<noteq> None \<Longrightarrow> cc_result (sr_creations (creation_complete c res r) ! j) \<noteq> None"
    by (cases "j = c") (auto simp: creation_complete_def split: option.split)
qed

lemma complete_creation_inv:
  assumes inv: "registry_inv pl w" and at: "at_phase w k Completing"
  shows "\<exists>pl'. registry_inv pl' (create_complete k w)"
proof -
  let ?r = "sw_registry w" and ?ow = "sw_owners w ! k"
  have k: "k < length (sw_owners w)" "ow_phase ?ow = Completing" using at by (simp_all add: at_phase_def)
  have own: "ow_creation ?ow = k" by (rule owner_okD(1)[OF registry_invD(3)[OF inv k(1)]])
  let ?r' = "creation_complete k (ow_result ?ow) ?r"
  have cell: "cc_result (sr_creations ?r' ! k) \<noteq> None"
    by (rule creation_complete_result(1)) (use registry_invD(1)[OF inv] k in \<open>simp add: cells_ok_def\<close>)
  have "registry_inv (pl(k := pl k)) (set_owner k (?ow\<lparr>ow_phase := Finished\<rparr>) ?r' w)"
  proof (rule owner_update[OF inv k(1)])
    show "maps_ok (length (sw_owners w)) ((view_of (sw_owners w) pl)(k := (ow_name ?ow, ow_actor (?ow\<lparr>ow_phase := Finished\<rparr>), pl k))) ?r'"
      using maps_unchanged[OF inv refl] by (simp add: creation_complete_ok)
    show "cells_ok (length (sw_owners w)) ?r'" using registry_invD(1)[OF inv] by (simp add: creation_complete_ok)
    show "owner_ok ?r' j (sw_owners w ! j) (pl j)" if "j < length (sw_owners w)" "j \<noteq> k" for j
      by (rule owner_ok_frame[OF registry_invD(3)[OF inv that(1)]]) (use creation_complete_result(2) in \<open>simp_all add: creation_complete_frame\<close>)
    show "owner_ok ?r' k (?ow\<lparr>ow_phase := Finished\<rparr>) (pl k)"
      using registry_invD(3)[OF inv k(1)] k(2) cell by (simp add: owner_ok_def actor_state_def actor_id_def creation_complete_frame)
  qed (use registry_invD(5)[OF inv] in \<open>auto simp: creation_complete_frame\<close>)
  then show ?thesis using own by (auto simp: create_complete_def Let_def)
qed

lemma registry_change:
  assumes inv: "registry_inv pl w" and "maps_ok (length (sw_owners w)) (view_of (sw_owners w) pl) r" "cells_ok (length (sw_owners w)) r"
    and "sr_actors r = sr_actors (sw_registry w)" "length (sr_reservations r) \<le> max_live_sessions (sw_limits w)"
    and "\<And>j. cc_result (sr_creations (sw_registry w) ! j) \<noteq> None \<Longrightarrow> cc_result (sr_creations r ! j) \<noteq> None"
    and "\<And>c. c \<in> set tc \<Longrightarrow> c < length (sw_owners w)"
  shows "registry_inv pl (w\<lparr>sw_registry := r, sw_to_cancel := tc\<rparr>)"
proof -
  have "owner_ok r j (sw_owners w ! j) (pl j)" if "j < length (sw_owners w)" for j
    by (rule owner_ok_frame[OF registry_invD(3)[OF inv that]]) (use assms in simp_all)
  then show ?thesis using assms registry_invD(4)[OF inv] unfolding registry_inv_def Let_def by simp
qed

lemma registry_same:
  assumes inv: "registry_inv pl w"
    and r: "sr_by_id r = sr_by_id (sw_registry w)" "sr_provisional r = sr_provisional (sw_registry w)"
      "sr_cleanup_only r = sr_cleanup_only (sw_registry w)" "sr_by_name r = sr_by_name (sw_registry w)"
      "sr_reservations r = sr_reservations (sw_registry w)" "sr_creations r = sr_creations (sw_registry w)"
      "sr_actors r = sr_actors (sw_registry w)" and tc: "\<And>c. c \<in> set tc \<Longrightarrow> c < length (sw_owners w)"
  shows "registry_inv pl (w\<lparr>sw_registry := r, sw_to_cancel := tc\<rparr>)"
  by (rule registry_change[OF inv]) (use registry_invD(1,2,5)[OF inv] r tc in \<open>simp_all add: maps_ok_def cells_ok_def\<close>)

lemma cancel_inv:
  assumes inv: "registry_inv pl w"
  shows "registry_inv pl (shutdown_cancels c w)"
proof -
  let ?r = "(sw_registry w)\<lparr>sr_creations := (sr_creations (sw_registry w))[c := (sr_creations (sw_registry w) ! c)\<lparr>cc_cancelled := True\<rparr>]\<rparr>"
  have "cells_ok (length (sw_owners w)) ?r" "maps_ok (length (sw_owners w)) (view_of (sw_owners w) pl) ?r"
    using registry_invD(1,2)[OF inv] by (simp_all add: cells_ok_def maps_ok_def nth_update_field[where f = cc_ownership])
  moreover have "cc_result (sr_creations ?r ! j) = cc_result (sr_creations (sw_registry w) ! j)" for j
    by (simp add: nth_update_field[where f = cc_result])
  moreover have "x < length (sw_owners w)" if "x \<in> set (remove1 c (sw_to_cancel w))" for x
    using registry_invD(6)[OF inv] that set_remove1_subset by fastforce
  ultimately show ?thesis
    unfolding shutdown_cancels_def creation_cancel_def
    by (intro registry_change[OF inv])
      (use registry_invD(5)[OF inv] creation_complete_result(2)[of ?r] in \<open>simp_all add: creation_complete_ok creation_complete_frame\<close>)
qed

lemma starting_creations_owned:
  assumes "maps_ok n view r" "c \<in> set (starting_creations r)"
  shows "c < n"
proof -
  obtain nm sid where "(nm, SlotStarting c sid) \<in> set (sr_by_name r)"
    using assms(2) by (auto simp: starting_creations_def List.map_filter_def split: name_slot.splits)
  then have "bt_get (sr_by_name r) nm = Some (SlotStarting c sid)"
    using bt_get_in_set[OF tracks_wf[OF maps_okD(2)[OF assms(1), unfolded tracks_view_def]]] by simp
  from slot_of_owner[OF assms(1) this] show ?thesis by simp
qed

lemma begin_shutdown_cases:
  "\<exists>r'. sr_by_id r' = sr_by_id r \<and> sr_provisional r' = sr_provisional r \<and> sr_cleanup_only r' = sr_cleanup_only r \<and>
    sr_by_name r' = sr_by_name r \<and> sr_reservations r' = sr_reservations r \<and> sr_creations r' = sr_creations r \<and> sr_actors r' = sr_actors r \<and>
    ((\<exists>names. begin_shutdown approved r = (r', Err names)) \<or> begin_shutdown approved r = (r', Ok (starting_creations r)))"
  unfolding begin_shutdown_def Let_def by (auto simp: starting_creations_def)

lemma begin_shutdown_inv:
  assumes inv: "registry_inv pl w"
  shows "registry_inv pl (fst (shutdown_begins approved w))"
proof -
  obtain r' where r': "sr_by_id r' = sr_by_id (sw_registry w)" "sr_provisional r' = sr_provisional (sw_registry w)"
      "sr_cleanup_only r' = sr_cleanup_only (sw_registry w)" "sr_by_name r' = sr_by_name (sw_registry w)"
      "sr_reservations r' = sr_reservations (sw_registry w)" "sr_creations r' = sr_creations (sw_registry w)"
      "sr_actors r' = sr_actors (sw_registry w)"
    and res: "(\<exists>names. begin_shutdown approved (sw_registry w) = (r', Err names)) \<or>
      begin_shutdown approved (sw_registry w) = (r', Ok (starting_creations (sw_registry w)))"
    using begin_shutdown_cases[of "sw_registry w" approved] by blast
  have "registry_inv pl (w\<lparr>sw_registry := r', sw_to_cancel := tc\<rparr>)"
    if "tc = sw_to_cancel w \<or> tc = sw_to_cancel w @ starting_creations (sw_registry w)" for tc
    by (rule registry_same[OF inv r']) (use that registry_invD(6)[OF inv] starting_creations_owned[OF registry_invD(2)[OF inv]] in auto)
  from this[of "sw_to_cancel w"] this[of "sw_to_cancel w @ starting_creations (sw_registry w)"] res show ?thesis
    by (auto simp: shutdown_begins_def)
qed

lemma view_extend:
  assumes "tracks_view tag n f view m" "f n v = None"
  shows "tracks_view tag (Suc n) f (view(n := v)) m"
  unfolding tracks_view_def by (rule tracks_extend[OF assms(1)[unfolded tracks_view_def]]) (simp_all add: assms)

lemma move_new:
  assumes ok: "maps_ok n view r" and free: "bt_get (sr_by_name r) nm = None"
    and r': "sr_by_name r' = bt_insert nm (SlotStarting n None) (sr_by_name r)" "sr_reservations r' = sr_reservations r"
      "sr_provisional r' = sr_provisional r" "sr_by_id r' = sr_by_id r" "sr_cleanup_only r' = sr_cleanup_only r"
  shows "maps_ok (Suc n) (view(n := (nm, None, PlaceNamed))) r'"
proof -
  let ?v = "view(n := (nm, None, PlaceReleased))"
  have ent: "entries_ok (Suc n) (view(n := (nm, None, p)))" for p
    using maps_okD(1)[OF ok] unfolding entries_ok_def by (simp add: All_less_Suc fun_upd_apply)
  have ling: "cleanup_ok (Suc n) (view(n := (nm, None, p))) (sr_cleanup_only r)" for p
  proof -
    have "(\<exists>k<Suc n. v_lingering ((view(n := (nm, None, p))) k) = Some e) \<longleftrightarrow> (\<exists>k<n. v_lingering (view k) = Some e)" for e
      by (cases p) (auto simp: less_Suc_eq)
    then show ?thesis using maps_okD(6)[OF ok] unfolding cleanup_ok_def by presburger
  qed
  have "tracks_view slot_tag (Suc n) v_slot ?v (sr_by_name r)" by (rule view_extend[OF maps_okD(2)[OF ok]]) simp
  then have "tracks_view slot_tag (Suc n) v_slot (?v(n := (nm, None, PlaceNamed))) (sr_by_name r')"
    unfolding r' by (rule view_put) (simp_all add: free)
  then show ?thesis
    unfolding maps_ok_def r'(2-5) using ent ling
    by (intro conjI view_extend[OF maps_okD(3)[OF ok]] view_extend[OF maps_okD(4)[OF ok]] view_extend[OF maps_okD(5)[OF ok]]) simp_all
qed

lemma view_cong:
  assumes "\<And>j. j < n \<Longrightarrow> view' j = view j" "tracks_view tag n f view m"
  shows "tracks_view tag n f view' m"
  unfolding tracks_view_def by (rule tracks_cong[OF _ assms(2)[unfolded tracks_view_def]]) (simp add: assms(1))

lemma maps_cong:
  assumes same: "\<And>j. j < n \<Longrightarrow> view' j = view j" and ok: "maps_ok n view r"
  shows "maps_ok n view' r"
proof -
  have "entries_ok n view'"
    unfolding entries_ok_def using entries_owner[OF maps_okD(1)[OF ok]] entries_inj[OF maps_okD(1)[OF ok]] same
    by (intro conjI allI impI) (metis+)
  moreover have "(\<exists>k<n. v_lingering (view' k) = Some e) \<longleftrightarrow> (\<exists>k<n. v_lingering (view k) = Some e)" for e
    using same by metis
  then have "cleanup_ok n view' (sr_cleanup_only r)" using maps_okD(6)[OF ok] unfolding cleanup_ok_def by presburger
  ultimately show ?thesis
    using view_cong[OF same maps_okD(2)[OF ok]] view_cong[OF same maps_okD(3)[OF ok]] view_cong[OF same maps_okD(4)[OF ok]]
      view_cong[OF same maps_okD(5)[OF ok]] unfolding maps_ok_def by simp
qed

lemma start_creation_inv:
  assumes inv: "registry_inv pl w" and free: "bt_get (sr_by_name (sw_registry w)) nm = None"
    and r: "r = (sw_registry w)\<lparr>sr_creations := sr_creations (sw_registry w) @ [creation_cell_default (length (sr_creations (sw_registry w)))],
      sr_by_name := bt_insert nm (SlotStarting (length (sr_creations (sw_registry w))) None) (sr_by_name (sw_registry w))\<rparr>"
  shows "registry_inv (pl(length (sw_owners w) := PlaceNamed)) (start_creation nm (length (sr_creations (sw_registry w))) r w)"
proof -
  let ?n = "length (sw_owners w)" and ?os = "sw_owners w @ [creation_owner_new nm (length (sw_owners w))]"
  have len: "length (sr_creations (sw_registry w)) = ?n" using registry_invD(1)[OF inv] by (simp add: cells_ok_def)
  have maps: "maps_ok (Suc ?n) ((view_of (sw_owners w) pl)(?n := (nm, None, PlaceNamed))) r"
    by (rule move_new[OF registry_invD(2)[OF inv] free]) (simp_all add: r len)
  have view: "view_of ?os (pl(?n := PlaceNamed)) j = ((view_of (sw_owners w) pl)(?n := (nm, None, PlaceNamed))) j" if "j < Suc ?n" for j
    using that by (auto simp: view_of_def nth_append creation_owner_new_def)
  have "maps_ok (Suc ?n) (view_of ?os (pl(?n := PlaceNamed))) r"
    by (rule maps_cong[OF view maps])
  moreover have "owner_ok r j (?os ! j) ((pl(?n := PlaceNamed)) j)" if j: "j < Suc ?n" for j
  proof (cases "j = ?n")
    case False
    then have j: "j < ?n" using j by simp
    have "owner_ok r j (sw_owners w ! j) (pl j)"
      by (rule owner_ok_frame[OF registry_invD(3)[OF inv j]]) (use j len in \<open>simp_all add: r nth_append\<close>)
    then show ?thesis using j by (simp add: nth_append)
  qed (simp add: owner_ok_def creation_owner_new_def actor_state_def)
  moreover have "cells_ok (Suc ?n) r"
    using registry_invD(1)[OF inv] by (auto simp: cells_ok_def r nth_append creation_cell_default_def less_Suc_eq)
  moreover have "\<exists>j<Suc ?n. \<exists>e. ow_actor (?os ! j) = Some e \<and> se_actor e = a" if a: "a < length (sr_actors r)" for a
  proof -
    obtain j e where j: "j < ?n" "ow_actor (sw_owners w ! j) = Some e" "se_actor e = a" using registry_invD(4)[OF inv, of a] a r by auto
    then have "ow_actor (?os ! j) = Some e" by (simp add: nth_append)
    then show ?thesis using j by (intro exI[of _ j]) simp
  qed
  ultimately show ?thesis
    using registry_invD(5,6)[OF inv] unfolding registry_inv_def start_creation_def Let_def len
    by (auto simp: r less_SucI)
qed

lemma reserve_name_cases:
  "(\<exists>res. reserve_name nm wait r = (r, res) \<and> (\<forall>c. res \<noteq> Ok (ReservationOwner c))) \<or>
   (bt_get (sr_by_name r) nm = None \<and>
    reserve_name nm wait r =
      (r\<lparr>sr_creations := sr_creations r @ [creation_cell_default (length (sr_creations r))],
         sr_by_name := bt_insert nm (SlotStarting (length (sr_creations r)) None) (sr_by_name r)\<rparr>,
       Ok (ReservationOwner (length (sr_creations r)))))"
  by (auto simp: reserve_name_def Let_def split: option.split name_slot.split)

lemma world_same: "w\<lparr>sw_registry := sw_registry w\<rparr> = w" for w :: session_world
  by simp

lemma default_main_inv:
  assumes inv: "registry_inv pl w"
  shows "\<exists>pl'. registry_inv pl' (fst (default_main w))"
  using reserve_name_cases[of session_name_main True "sw_registry w"]
proof (elim disjE exE conjE)
  fix res assume "reserve_name session_name_main True (sw_registry w) = (sw_registry w, res)"
    "\<forall>c. res \<noteq> Ok (ReservationOwner c)"
  then have "fst (default_main w) = w" by (auto simp: default_main_def split: result.splits name_reservation.splits)
  then show ?thesis using inv by auto
next
  assume free: "bt_get (sr_by_name (sw_registry w)) session_name_main = None"
    and eq: "reserve_name session_name_main True (sw_registry w) =
      ((sw_registry w)\<lparr>sr_creations := sr_creations (sw_registry w) @ [creation_cell_default (length (sr_creations (sw_registry w)))],
         sr_by_name := bt_insert session_name_main (SlotStarting (length (sr_creations (sw_registry w))) None) (sr_by_name (sw_registry w))\<rparr>,
       Ok (ReservationOwner (length (sr_creations (sw_registry w)))))"
  from start_creation_inv[OF inv free refl] show ?thesis by (auto simp: default_main_def eq)
qed

lemma create_inner_inv:
  assumes inv: "registry_inv pl w"
  shows "\<exists>pl'. registry_inv pl' (fst (create_inner nm allow_main w))"
proof (cases "session_name_is_main nm \<and> \<not> allow_main")
  case False
  show ?thesis
    using reserve_name_cases[of nm False "sw_registry w"]
  proof (elim disjE exE conjE)
    fix res assume "reserve_name nm False (sw_registry w) = (sw_registry w, res)" "\<forall>c. res \<noteq> Ok (ReservationOwner c)"
    then have "fst (create_inner nm allow_main w) = w" by (auto simp: create_inner_def split: result.splits name_reservation.splits)
    then show ?thesis using inv by auto
  next
    assume free: "bt_get (sr_by_name (sw_registry w)) nm = None"
      and eq: "reserve_name nm False (sw_registry w) =
        ((sw_registry w)\<lparr>sr_creations := sr_creations (sw_registry w) @ [creation_cell_default (length (sr_creations (sw_registry w)))],
           sr_by_name := bt_insert nm (SlotStarting (length (sr_creations (sw_registry w))) None) (sr_by_name (sw_registry w))\<rparr>,
         Ok (ReservationOwner (length (sr_creations (sw_registry w)))))"
    from start_creation_inv[OF inv free refl] False show ?thesis by (auto simp: create_inner_def eq)
  qed
qed (use inv in \<open>auto simp: create_inner_def\<close>)

lemma rename_cases:
  "(\<exists>e. registry_rename i new r = (r, Err e)) \<or>
   (\<exists>e. bt_get (sr_by_id r) i = Some e \<and> \<not> session_name_is_main (se_name e) \<and> bt_get (sr_by_name r) new = None \<and>
     registry_rename i new r =
       (r\<lparr>sr_by_name := bt_insert new (SlotLive i (se_ownership e)) (bt_remove (se_name e) (sr_by_name r)),
          sr_by_id := bt_insert i (e\<lparr>se_name := new\<rparr>) (sr_by_id r)\<rparr>, Ok (e\<lparr>se_name := new\<rparr>)))"
  by (simp add: registry_rename_def Let_def split: option.split)

lemma rename_inv:
  assumes inv: "registry_inv pl w"
  shows "\<exists>pl'. registry_inv pl' (fst (rename_inner i new w))"
proof (cases "session_name_is_main new")
  case not_main: False
  let ?r = "sw_registry w"
  show ?thesis
    using rename_cases[of i new ?r]
  proof (elim disjE exE conjE)
    fix e' assume cur: "bt_get (sr_by_id ?r) i = Some e'" "\<not> session_name_is_main (se_name e')" "bt_get (sr_by_name ?r) new = None"
      "registry_rename i new ?r =
        (?r\<lparr>sr_by_name := bt_insert new (SlotLive i (se_ownership e')) (bt_remove (se_name e') (sr_by_name ?r)),
           sr_by_id := bt_insert i (e'\<lparr>se_name := new\<rparr>) (sr_by_id ?r)\<rparr>, Ok (e'\<lparr>se_name := new\<rparr>))"
    let ?k = "se_ownership e'"
    have k: "?k < length (sw_owners w)" using view_find[OF maps_okD(5)[OF registry_invD(2)[OF inv]] cur(1)] by simp
    let ?ow = "sw_owners w ! ?k"
    obtain e old where pub: "ow_actor ?ow = Some e" "pl ?k = PlacePublished i old" "e' = e\<lparr>se_name := old\<rparr>"
      using view_find[OF maps_okD(5)[OF registry_invD(2)[OF inv]] cur(1)] unfolding v_live_iff view_of_def by auto
    define r where "r = ?r\<lparr>sr_by_name := bt_insert new (SlotLive i ?k) (bt_remove old (sr_by_name ?r)),
        sr_by_id := bt_insert i (e\<lparr>se_name := new\<rparr>) (sr_by_id ?r)\<rparr>"
    have maps: "maps_ok (length (sw_owners w)) ((view_of (sw_owners w) pl)(?k := (ow_name ?ow, Some e, PlacePublished i new))) r"
      by (rule move_renamed[OF registry_invD(2)[OF inv] k _ cur(3)]) (use pub in \<open>simp_all add: view_of_owner r_def\<close>)
    have main: "session_name_is_main new = session_name_is_main (ow_name ?ow)"
      using owner_okD(6)[OF registry_invD(3)[OF inv k] pub(2)] cur(2) pub(3) not_main by simp
    note ph = owner_okD(4)[OF registry_invD(3)[OF inv k]]
    have ph': "phase_ok (ow_phase ?ow) (is_ok (ow_result ?ow)) (ow_session_id ?ow) (actor_state ?r (ow_actor ?ow)) (PlacePublished i new)"
      using ph pub(2) by (cases "ow_phase ?ow")
        (auto simp: published_ok_def kept_ok_def unregistered_ok_def split: after_mark.splits if_splits option.splits)
    have "registry_inv (pl(?k := PlacePublished i new)) (set_owner ?k ?ow r w)"
      by (rule actor_update[OF inv k pub(1), where c = "sr_actors ?r ! se_actor e"])
        (use maps main ph' pub registry_invD(5)[OF inv] in \<open>simp_all add: r_def actor_id_def actor_state_def\<close>)
    then show ?thesis using cur(4) pub(3) not_main by (auto simp: rename_inner_def set_owner_def r_def)
  qed (use inv not_main in \<open>auto simp: rename_inner_def\<close>)
qed (use inv in \<open>auto simp: rename_inner_def\<close>)

lemma owner_step_inv:
  assumes inv: "registry_inv pl w" and k: "k < length (sw_owners w)"
  shows "\<exists>pl'. registry_inv pl' (owner_step (ow_phase (sw_owners w ! k)) k w)"
proof -
  have at: "at_phase w k (ow_phase (sw_owners w ! k))" using k by (simp add: at_phase_def)
  show ?thesis
    using at inv register_inv[OF inv] retain_inv[OF inv] mark_inv[OF inv] check_inv[OF inv] publish_inv[OF inv] finish_inv[OF inv]
      complete_creation_inv[OF inv]
    by (cases "ow_phase (sw_owners w ! k)") auto
qed

lemma session_step_inv: "\<exists>pl. registry_inv pl w \<Longrightarrow> \<exists>pl. registry_inv pl (fst (session_step w ev))"
proof (elim exE)
  fix pl assume inv: "registry_inv pl w"
  have same: "\<exists>pl. registry_inv pl (w\<lparr>sw_registry := r\<rparr>)"
    if "r = resume_after_failed_shutdown (sw_registry w) \<or> r = (sw_registry w)\<lparr>sr_state_poisoned := True\<rparr> \<or>
      r = (sw_registry w)\<lparr>sr_reservations_poisoned := True\<rparr>" for r
    using registry_same[OF inv, of r "sw_to_cancel w"] that registry_invD(6)[OF inv] by (auto simp: resume_after_failed_shutdown_def)
  show ?thesis
  proof (cases "event_enabled w ev")
    case True
    then show ?thesis
      using inv default_main_inv[OF inv] create_inner_inv[OF inv] rename_inv[OF inv] identity_inv[OF inv] start_actor_inv[OF inv]
        owner_step_inv[OF inv] await_inv[OF inv] worker_exits_inv[OF inv] worker_finalizes_inv[OF inv] 
        exI[of "\<lambda>pl. registry_inv pl (fst (shutdown_begins _ w))" pl, OF begin_shutdown_inv[OF inv]]
        exI[of "\<lambda>pl. registry_inv pl (shutdown_cancels _ w)" pl, OF cancel_inv[OF inv]] same
      by (cases ev) (auto simp: session_step_def)
  qed (use inv in \<open>auto simp: session_step_def\<close>)
qed

interpretation sessions: invariant_machine session_step "\<lambda>w. \<exists>pl. registry_inv pl w" "\<lambda>_. True"
  by unfold_locales (rule session_step_inv)

subsection \<open>The results\<close>

definition session_run :: "resource_limits \<Rightarrow> session_event list \<Rightarrow> session_world" where
  "session_run limits evs = fst (trace_run session_step (session_world_new limits) evs)"

lemma registry_inv_new: "registry_inv pl (session_world_new limits)"
  by (simp add: registry_inv_def session_world_new_def session_registry_default_def cells_ok_def maps_ok_def entries_ok_def
      tracks_view_def tracks_Nil cleanup_ok_def)

lemma session_run_inv: "\<exists>pl. registry_inv pl (session_run limits evs)"
  unfolding session_run_def by (rule sessions.inv_trace) (use registry_inv_new in \<open>auto simp: list_all_iff\<close>)

lemma step_limits: "sw_limits (fst (session_step w ev)) = sw_limits w"
proof -
  have "sw_limits (owner_step ph k w) = sw_limits w" for ph k
    by (cases ph) (simp_all add: create_register_def create_retain_def create_mark_def create_check_def create_publish_def
        create_finish_def create_complete_def Let_def set_owner_def split: option.split result.split prod.split bool.split)
  then show ?thesis
    by (cases ev) (simp_all add: session_step_def default_main_def create_inner_def rename_inner_def create_identity_def create_actor_def
        create_await_def worker_exits_def worker_finalizes_def shutdown_begins_def shutdown_cancels_def Let_def set_owner_def
        start_creation_def split: option.split result.split prod.split name_reservation.split)
qed

lemma session_run_limits: "sw_limits (session_run limits evs) = limits"
proof -
  have "sw_limits (fst (trace_run session_step w evs)) = sw_limits w" for w
    by (induction evs arbitrary: w) (simp_all add: step_limits)
  then show ?thesis by (simp add: session_run_def session_world_new_def)
qed

text \<open>Facts about a live session, from the invariant.\<close>

lemma live_session:
  assumes inv: "registry_inv pl w" and e: "bt_get (sr_by_id (sw_registry w)) i = Some e"
  obtains k e0 where "k = se_ownership e" "k < length (sw_owners w)" "ow_actor (sw_owners w ! k) = Some e0" "se_actor e0 = se_actor e"
    "pl k = PlacePublished i (se_name e)" "actor_id (sw_registry w) (se_actor e) = i"
    "bt_get (sr_by_name (sw_registry w)) (se_name e) = Some (SlotLive i k)"
proof -
  let ?k = "se_ownership e"
  have k: "?k < length (sw_owners w)" "v_live ?k (view_of (sw_owners w) pl ?k) = Some (i, e)"
    using view_find[OF maps_okD(5)[OF registry_invD(2)[OF inv]] e] by simp_all
  obtain e0 where e0: "ow_actor (sw_owners w ! ?k) = Some e0" "pl ?k = PlacePublished i (se_name e)" "se_actor e0 = se_actor e"
    using k(2) unfolding v_live_iff view_of_def by auto
  have sid: "ow_session_id (sw_owners w ! ?k) = Some (actor_id (sw_registry w) (se_actor e0))"
    by (rule owner_okD(3)[OF registry_invD(3)[OF inv k(1)] e0(1)])
  have "ow_session_id (sw_owners w ! ?k) = Some i"
    using place_identity(2) owner_okD(4)[OF registry_invD(3)[OF inv k(1)]] e0 by (fastforce simp: actor_state_def)
  then have "actor_id (sw_registry w) (se_actor e) = i" using sid e0(3) by simp
  moreover have "bt_get (sr_by_name (sw_registry w)) (se_name e) = Some (SlotLive i ?k)"
    using view_get[OF maps_okD(2)[OF registry_invD(2)[OF inv]] k(1)] e0 by (simp add: view_of_owner)
  ultimately show ?thesis using that k(1) e0 by blast
qed

lemma live_slot:
  assumes inv: "registry_inv pl w" and s: "bt_get (sr_by_name (sw_registry w)) nm = Some (SlotLive i t)"
  shows "\<exists>e. bt_get (sr_by_id (sw_registry w)) i = Some e \<and> se_name e = nm"
proof -
  have t: "t < length (sw_owners w)" "v_slot t (view_of (sw_owners w) pl t) = Some (nm, SlotLive i t)"
    using slot_of_owner[OF registry_invD(2)[OF inv] s] by simp_all
  then have p: "pl t = PlacePublished i nm" by (cases "pl t") (simp_all add: view_of_def)
  then obtain e where "ow_actor (sw_owners w ! t) = Some e"
    using owner_okD(4)[OF registry_invD(3)[OF inv t(1)]]
    by (cases "ow_actor (sw_owners w ! t)"; cases "ow_phase (sw_owners w ! t)")
      (auto simp: actor_state_def unregistered_ok_def split: option.splits after_mark.splits if_splits)
  then have "v_live t (view_of (sw_owners w) pl t) = Some (i, e\<lparr>se_name := nm\<rparr>)" using p by (simp add: view_of_def)
  from view_get[OF maps_okD(5)[OF registry_invD(2)[OF inv]] t(1) this] show ?thesis by simp
qed

lemma live_wf: "registry_inv pl w \<Longrightarrow> bt_wf (sr_by_id (sw_registry w))"
  using tracks_wf[OF maps_okD(5)[OF registry_invD(2), unfolded tracks_view_def]] .

lemma live_member:
  assumes "registry_inv pl w"
  shows "e \<in> set (map snd (sr_by_id (sw_registry w))) \<longleftrightarrow> (\<exists>i. bt_get (sr_by_id (sw_registry w)) i = Some e)"
  using bt_get_in_set[OF live_wf[OF assms]] by (auto simp: image_iff) force

lemma distinct_values:
  assumes "bt_wf m" "\<And>i e j e'. bt_get m i = Some e \<Longrightarrow> bt_get m j = Some e' \<Longrightarrow> f e = f e' \<Longrightarrow> i = j"
  shows "distinct (map f (map snd m))"
proof -
  have "distinct m" using bt_wf_distinct[OF assms(1)] by (simp add: distinct_map)
  moreover have "inj_on (f \<circ> snd) (set m)"
  proof (rule inj_onI)
    fix p q assume pq: "p \<in> set m" "q \<in> set m" "(f \<circ> snd) p = (f \<circ> snd) q"
    then have "bt_get m (fst p) = Some (snd p)" "bt_get m (fst q) = Some (snd q)"
      using bt_get_in_set[OF assms(1)] by (metis prod.collapse)+
    moreover from this have "fst p = fst q" using assms(2) pq(3) by simp
    ultimately show "p = q" by (simp add: prod_eq_iff)
  qed
  ultimately show ?thesis by (simp add: distinct_map)
qed

lemma live_facts:
  assumes inv: "registry_inv pl w" and e: "bt_get (sr_by_id (sw_registry w)) i = Some e"
  shows "actor_id (sw_registry w) (se_actor e) = i" "bt_get (sr_by_name (sw_registry w)) (se_name e) = Some (SlotLive i (se_ownership e))"
    "session_name_is_main (se_name e) = session_name_is_main (ow_name (sw_owners w ! se_ownership e))"
proof -
  obtain k e0 where k: "k = se_ownership e" "k < length (sw_owners w)" "ow_actor (sw_owners w ! k) = Some e0" "se_actor e0 = se_actor e"
      "pl k = PlacePublished i (se_name e)" "actor_id (sw_registry w) (se_actor e) = i"
      "bt_get (sr_by_name (sw_registry w)) (se_name e) = Some (SlotLive i k)"
    by (rule live_session[OF inv e])
  show "actor_id (sw_registry w) (se_actor e) = i" by (rule k(6))
  show "bt_get (sr_by_name (sw_registry w)) (se_name e) = Some (SlotLive i (se_ownership e))" using k(1,7) by simp
  show "session_name_is_main (se_name e) = session_name_is_main (ow_name (sw_owners w ! se_ownership e))"
    using owner_okD(6)[OF registry_invD(3)[OF inv k(2)] k(5)] k(1) by simp
qed

lemma live_distinct:
  assumes inv: "registry_inv pl w"
  shows "distinct (map se_name (map snd (sr_by_id (sw_registry w))))" "distinct (map se_actor (map snd (sr_by_id (sw_registry w))))"
    "distinct (map (\<lambda>e. actor_id (sw_registry w) (se_actor e)) (map snd (sr_by_id (sw_registry w))))"
proof -
  show "distinct (map se_name (map snd (sr_by_id (sw_registry w))))"
  proof (rule distinct_values[OF live_wf[OF inv]])
    fix i e j e' assume a: "bt_get (sr_by_id (sw_registry w)) i = Some e" "bt_get (sr_by_id (sw_registry w)) j = Some e'" "se_name e = se_name e'"
    show "i = j" using live_facts(2)[OF inv a(1)] live_facts(2)[OF inv a(2)] a(3) by simp
  qed
  show "distinct (map se_actor (map snd (sr_by_id (sw_registry w))))"
  proof (rule distinct_values[OF live_wf[OF inv]])
    fix i e j e' assume a: "bt_get (sr_by_id (sw_registry w)) i = Some e" "bt_get (sr_by_id (sw_registry w)) j = Some e'" "se_actor e = se_actor e'"
    show "i = j" using live_facts(1)[OF inv a(1)] live_facts(1)[OF inv a(2)] a(3) by simp
  qed
  show "distinct (map (\<lambda>e. actor_id (sw_registry w) (se_actor e)) (map snd (sr_by_id (sw_registry w))))"
  proof (rule distinct_values[OF live_wf[OF inv]])
    fix i e j e' assume a: "bt_get (sr_by_id (sw_registry w)) i = Some e" "bt_get (sr_by_id (sw_registry w)) j = Some e'"
      "actor_id (sw_registry w) (se_actor e) = actor_id (sw_registry w) (se_actor e')"
    show "i = j" using live_facts(1)[OF inv a(1)] live_facts(1)[OF inv a(2)] a(3) by simp
  qed
qed

lemma resolve_name_iff:
  assumes inv: "registry_inv pl w" and "\<not> sr_state_poisoned (sw_registry w)"
  shows "resolve (SelectName nm) (sw_registry w) = Ok a \<longleftrightarrow>
    (\<exists>i e. bt_get (sr_by_id (sw_registry w)) i = Some e \<and> se_name e = nm \<and> se_actor e = a)"
proof
  assume "resolve (SelectName nm) (sw_registry w) = Ok a"
  then obtain i t e where e: "bt_get (sr_by_name (sw_registry w)) nm = Some (SlotLive i t)"
      "bt_get (sr_by_id (sw_registry w)) i = Some e" "se_actor e = a"
    using assms(2) by (auto simp: resolve_def split: option.splits name_slot.splits)
  have "se_name e = nm" using live_slot[OF inv e(1)] e(2) by auto
  then show "\<exists>i e. bt_get (sr_by_id (sw_registry w)) i = Some e \<and> se_name e = nm \<and> se_actor e = a" using e by blast
next
  assume "\<exists>i e. bt_get (sr_by_id (sw_registry w)) i = Some e \<and> se_name e = nm \<and> se_actor e = a"
  then obtain i e where e: "bt_get (sr_by_id (sw_registry w)) i = Some e" "se_name e = nm" "se_actor e = a" by blast
  have "bt_get (sr_by_name (sw_registry w)) nm = Some (SlotLive i (se_ownership e))" using live_facts(2)[OF inv e(1)] e(2) by simp
  then show "resolve (SelectName nm) (sw_registry w) = Ok a" using e assms(2) by (simp add: resolve_def)
qed

text \<open>C16: names and identities of live sessions resolve to each other.  In every run, whatever
  creations, renames, endings and shutdowns interleave, the live sessions have distinct names,
  identities and actors; a name resolves to exactly the live session that bears it, an
  identity to exactly the live session that has it; and the session called main is one that
  was created as main.\<close>

theorem live_sessions_resolve:
  assumes "w = session_run limits evs" "r = sw_registry w" "live_entries r = Ok es"
  shows "distinct (map se_name es) \<and> distinct (map se_actor es) \<and> distinct (map (\<lambda>e. actor_id r (se_actor e)) es) \<and>
    (\<forall>nm a. resolve (SelectName nm) r = Ok a \<longleftrightarrow> (\<exists>e\<in>set es. se_name e = nm \<and> se_actor e = a)) \<and>
    (\<forall>i a. resolve (SelectId i) r = Ok a \<longleftrightarrow> (\<exists>e\<in>set es. actor_id r (se_actor e) = i \<and> se_actor e = a)) \<and>
    (\<forall>e\<in>set es. session_name_is_main (se_name e) \<longleftrightarrow> session_name_is_main (ow_name (sw_owners w ! se_ownership e)))"
proof -
  obtain pl where inv: "registry_inv pl w" using session_run_inv assms(1) by blast
  have es: "es = map snd (sr_by_id r)" "\<not> sr_state_poisoned r" using assms(3) by (auto simp: live_entries_def split: if_splits)
  have mem: "e \<in> set es \<longleftrightarrow> (\<exists>i. bt_get (sr_by_id r) i = Some e)" for e using live_member[OF inv] es(1) assms(2) by simp
  have byname: "resolve (SelectName nm) r = Ok a \<longleftrightarrow> (\<exists>e\<in>set es. se_name e = nm \<and> se_actor e = a)" for nm a
    unfolding mem Bex_def assms(2) resolve_name_iff[OF inv es(2)[unfolded assms(2)]] by blast
  have byid: "resolve (SelectId i) r = Ok a \<longleftrightarrow> (\<exists>e\<in>set es. actor_id r (se_actor e) = i \<and> se_actor e = a)" for i a
  proof -
    have "resolve (SelectId i) r = Ok a \<longleftrightarrow> (\<exists>e. bt_get (sr_by_id r) i = Some e \<and> se_actor e = a)"
      using es(2) by (auto simp: resolve_def)
    also have "\<dots> \<longleftrightarrow> (\<exists>e j. bt_get (sr_by_id r) j = Some e \<and> actor_id r (se_actor e) = i \<and> se_actor e = a)"
      using live_facts(1)[OF inv] assms(2) by metis
    finally show ?thesis unfolding mem Bex_def by blast
  qed
  have main: "session_name_is_main (se_name e) = session_name_is_main (ow_name (sw_owners w ! se_ownership e))" if "e \<in> set es" for e
    using that live_facts(3)[OF inv] unfolding mem assms(2) by blast
  show ?thesis using live_distinct[OF inv] byname byid main unfolding es(1) assms(2) by blast
qed

text \<open>An owner whose actor runs holds a reservation.\<close>

definition running :: "session_registry \<Rightarrow> nat list" where
  "running r = filter (\<lambda>a. \<not> worker_done r a) [0..<length (sr_actors r)]"

lemma running_reserved:
  assumes inv: "registry_inv pl w" and a: "a \<in> set (running (sw_registry w))"
  shows "\<exists>k<length (sw_owners w). \<exists>e. ow_actor (sw_owners w ! k) = Some e \<and> se_actor e = a \<and>
    bt_get (sr_reservations (sw_registry w)) (actor_id (sw_registry w) a) = Some k"
proof -
  have a': "a < length (sr_actors (sw_registry w))" "ac_worker (sr_actors (sw_registry w) ! a) = WorkerRunning"
    using a by (auto simp: running_def worker_done_def)
  obtain k e where k: "k < length (sw_owners w)" "ow_actor (sw_owners w ! k) = Some e" "se_actor e = a"
    using registry_invD(4)[OF inv a'(1)] by blast
  have sid: "ow_session_id (sw_owners w ! k) = Some (actor_id (sw_registry w) a)"
    using owner_okD(3)[OF registry_invD(3)[OF inv k(1)] k(2)] k(3) by simp
  obtain m where ph: "phase_ok (ow_phase (sw_owners w ! k)) (is_ok (ow_result (sw_owners w ! k))) (Some (actor_id (sw_registry w) a))
      (Some (WorkerRunning, m)) (pl k)"
    using owner_okD(4)[OF registry_invD(3)[OF inv k(1)]] k a' sid by (simp add: actor_state_def)
  then have "v_reservation k (view_of (sw_owners w) pl k) = Some (actor_id (sw_registry w) a, k)"
    by (cases "ow_phase (sw_owners w ! k)")
      (auto simp: view_of_def kept_ok_def published_ok_def split: after_mark.splits if_splits)
  from view_get[OF maps_okD(3)[OF registry_invD(2)[OF inv]] k(1) this] show ?thesis using k by blast
qed

lemma running_bounded:
  assumes inv: "registry_inv pl w"
  shows "length (running (sw_registry w)) \<le> length (sr_reservations (sw_registry w))"
proof -
  let ?r = "sw_registry w"
  have inj: "inj_on (actor_id ?r) (set (running ?r))"
  proof (rule inj_onI)
    fix a b assume ab: "a \<in> set (running ?r)" "b \<in> set (running ?r)" "actor_id ?r a = actor_id ?r b"
    obtain k e where k: "k < length (sw_owners w)" "ow_actor (sw_owners w ! k) = Some e" "se_actor e = a"
        "bt_get (sr_reservations ?r) (actor_id ?r a) = Some k" using running_reserved[OF inv ab(1)] by blast
    obtain j e' where j: "j < length (sw_owners w)" "ow_actor (sw_owners w ! j) = Some e'" "se_actor e' = b"
        "bt_get (sr_reservations ?r) (actor_id ?r b) = Some j" using running_reserved[OF inv ab(2)] by blast
    have "k = j" using k(4) j(4) unfolding ab(3) by simp
    then have "e = e'" using k(2) j(2) by simp
    then show "a = b" using k(3) j(3) by simp
  qed
  have "actor_id ?r ` set (running ?r) \<subseteq> bt_keys (sr_reservations ?r)"
    using running_reserved[OF inv] by (blast intro: bt_get_SomeD)
  then have "card (set (running ?r)) \<le> card (bt_keys (sr_reservations ?r))"
    using card_inj_on_le[OF inj] by simp
  moreover have "distinct (running ?r)" by (simp add: running_def)
  ultimately show ?thesis
    using card_bt_keys[OF tracks_wf[OF maps_okD(3)[OF registry_invD(2)[OF inv], unfolded tracks_view_def]]] by (simp add: distinct_card)
qed

text \<open>C17: there are never more running sessions than the limit.  Every actor whose worker runs,
  registered or not, holds the reservation of its own identity, so that the actors, their
  processes and terminals never exceed \<open>max_live_sessions\<close>.\<close>

theorem running_sessions_bounded:
  "length (running (sw_registry (session_run limits evs))) \<le> max_live_sessions limits \<and>
   (\<forall>a. a \<in> set (running (sw_registry (session_run limits evs))) \<longrightarrow>
     bt_contains (sr_reservations (sw_registry (session_run limits evs))) (actor_id (sw_registry (session_run limits evs)) a))"
proof -
  obtain pl where inv: "registry_inv pl (session_run limits evs)" using session_run_inv by blast
  show ?thesis
    using running_bounded[OF inv] registry_invD(5)[OF inv, unfolded session_run_limits] running_reserved[OF inv]
    by (metis le_trans option.distinct(1))
qed

subsection \<open>Shutting down\<close>

text \<open>A registry that is closed and holds no reservation stays so until a failed shutdown
  reopens it.\<close>

definition closed :: "session_registry \<Rightarrow> bool" where
  "closed r \<longleftrightarrow> \<not> sr_accepting r \<and> sr_reservations r = []"

lemma closed_sections:
  assumes "closed r"
  shows "closed (registry_complete i a r)" "closed (retain_provisional_for_cleanup i e r)" "closed (release_creation nm c sid r)"
    "closed (creation_complete c res r)" "closed (mark_registry_owned a r)" "closed (set_worker a st r)"
    "closed (fst (register_provisional i e r))" "closed (fst (publish_name nm c i a r))"
    "closed (fst (begin_shutdown approved r))" "closed (creation_cancel c r)"
proof -
  have "sr_reservations r = []" using assms by (simp add: closed_def)
  then show "closed (registry_complete i a r)" "closed (release_creation nm c sid r)"
    using assms complete_frame(3,4)[of i a r] release_frame(3,4)[of nm c sid r] by (simp_all add: closed_def)
  show "closed (retain_provisional_for_cleanup i e r)" using assms by (simp add: closed_def retain_frame)
  show "closed (creation_complete c res r)" using assms by (simp add: closed_def creation_complete_frame)
  show "closed (mark_registry_owned a r)" "closed (set_worker a st r)"
    using assms by (simp_all add: closed_def mark_registry_owned_def set_worker_def)
  show "closed (fst (register_provisional i e r))"
    using assms provisional_cases[of i e r] by (elim disjE exE) (simp_all add: closed_def)
  show "closed (fst (publish_name nm c i a r))"
    using assms publish_cases[of nm c i a r] by (elim disjE exE conjE) (simp_all add: closed_def)
  show "closed (fst (begin_shutdown approved r))" using assms by (simp add: closed_def begin_shutdown_def Let_def)
  show "closed (creation_cancel c r)" using assms by (simp add: closed_def creation_cancel_def creation_complete_frame)
qed

lemma closed_owner_step: "closed (sw_registry w) \<Longrightarrow> closed (sw_registry (owner_step ph k w))"
  using closed_sections[of "sw_registry w"]
  by (cases ph)
    (auto simp: create_register_def create_retain_def create_mark_def create_check_def create_publish_def create_finish_def
      create_complete_def set_owner_def Let_def split: option.split result.split prod.split bool.split, (metis fst_conv)+)

lemma closed_requests:
  assumes "closed (sw_registry w)"
  shows "closed (sw_registry (fst (default_main w)))" "closed (sw_registry (fst (create_inner nm allow_main w)))"
    "closed (sw_registry (fst (rename_inner i nm w)))" "closed (sw_registry (create_identity k deadline viewport cs w))"
proof -
  have shut: "\<not> sr_accepting (sw_registry w)" using assms by (simp add: closed_def)
  then show "closed (sw_registry (fst (default_main w)))" "closed (sw_registry (fst (create_inner nm allow_main w)))"
    "closed (sw_registry (fst (rename_inner i nm w)))"
    using assms by (simp_all add: default_main_def create_inner_def rename_inner_def reserve_name_def registry_rename_def)
  have "\<exists>e. reserve_creation_session nm c limits cs (sw_registry w) = (sw_registry w, Err e)" for nm c limits
    using reserve_session_cases[of nm c limits cs "sw_registry w"] shut by blast
  then show "closed (sw_registry (create_identity k deadline viewport cs w))"
    using assms by (auto simp: create_identity_def set_owner_def Let_def split: result.split prod.split) (metis Pair_inject)+
qed

lemma closed_step:
  assumes "closed (sw_registry w)" "ev \<noteq> ResumeAfterShutdown"
  shows "closed (sw_registry (fst (session_step w ev)))"
proof (cases "event_enabled w ev")
  case True
  have "closed (sw_registry (create_actor k spawned w))" "closed (sw_registry (create_await k ended w))" for k spawned ended
    using assms(1) by (auto simp: create_actor_def create_await_def set_owner_def Let_def closed_def split: option.split result.split)
  moreover have "closed (sw_registry (worker_exits a w))" "closed (sw_registry (worker_finalizes a w))"
    "closed (sw_registry (shutdown_cancels a w))" for a
    using closed_sections[OF assms(1)] closed_sections(6)[of "registry_complete _ a (sw_registry w)"] assms(1)
    by (simp_all add: worker_exits_def worker_finalizes_def shutdown_cancels_def Let_def)
  moreover have "closed (sw_registry (fst (shutdown_begins approved w)))" for approved
    using closed_sections(9)[OF assms(1), of approved]
    by (cases "begin_shutdown approved (sw_registry w)"; cases "snd (begin_shutdown approved (sw_registry w))") (simp_all add: shutdown_begins_def)
  moreover have "closed ((sw_registry w)\<lparr>sr_state_poisoned := True\<rparr>)" "closed ((sw_registry w)\<lparr>sr_reservations_poisoned := True\<rparr>)"
    using assms(1) by (simp_all add: closed_def)
  ultimately show ?thesis
    using True assms(2) closed_owner_step[OF assms(1)] closed_requests[OF assms(1)] by (cases ev) (simp_all add: session_step_def)
qed (use assms in \<open>simp add: session_step_def\<close>)

lemma closed_trace:
  "closed (sw_registry w) \<Longrightarrow> ResumeAfterShutdown \<notin> set evs \<Longrightarrow> closed (sw_registry (fst (trace_run session_step w evs)))"
proof (induction evs arbitrary: w)
  case (Cons ev evs)
  have "closed (sw_registry (fst (session_step w ev)))" by (rule closed_step) (use Cons.prems in auto)
  then show ?case using Cons by simp
qed simp

lemma session_run_append: "session_run limits (evs @ evs') = fst (trace_run session_step (session_run limits evs) evs')"
  by (simp add: session_run_def trace_run_append split_beta Let_def)

text \<open>Without a reservation there is neither a session nor one on its way.\<close>

lemma unreserved:
  assumes inv: "registry_inv pl w" and none: "sr_reservations (sw_registry w) = []"
  shows "running (sw_registry w) = [] \<and> sr_by_id (sw_registry w) = [] \<and> sr_provisional (sw_registry w) = []"
proof -
  have no: "v_reservation k (view_of (sw_owners w) pl k) = None" if "k < length (sw_owners w)" for k
    using maps_okD(3)[OF registry_invD(2)[OF inv]] none that by (simp add: tracks_view_def tracks_Nil)
  have "v_live k (view_of (sw_owners w) pl k) = None" "v_provisional k (view_of (sw_owners w) pl k) = None" if "k < length (sw_owners w)" for k
    using no[OF that] by (cases "pl k"; cases "ow_actor (sw_owners w ! k)"; simp add: view_of_def)+
  then have "bt_get (sr_by_id (sw_registry w)) i = None" "bt_get (sr_provisional (sw_registry w)) i = None" for i
    using view_find[OF maps_okD(5)[OF registry_invD(2)[OF inv]]] view_find[OF maps_okD(4)[OF registry_invD(2)[OF inv]]]
    by (metis option.distinct(1) option.exhaust)+
  then show ?thesis
    using running_bounded[OF inv] none by (metis bt_ext bt_wf_Nil ext le_zero_eq length_0_conv list.size(3) map_of.simps(1)
        tracks_wf[OF maps_okD(5)[OF registry_invD(2)[OF inv], unfolded tracks_view_def]]
        tracks_wf[OF maps_okD(4)[OF registry_invD(2)[OF inv], unfolded tracks_view_def]])
qed

text \<open>C18: a shutdown that has settled is final.  Once the registry no longer accepts sessions
  and the shutdown finds no entry and no reservation, no worker runs, and none ever starts
  again, whatever the creations that were under way still do, until a failed shutdown reopens
  the registry.\<close>

theorem shutdown_is_final:
  assumes "w = session_run limits evs" "\<not> sr_accepting (sw_registry w)" "shutdown_settled (sw_registry w)"
    and "ResumeAfterShutdown \<notin> set evs'" "w' = session_run limits (evs @ evs')"
  shows "running (sw_registry w') = [] \<and> sr_by_id (sw_registry w') = [] \<and> sr_provisional (sw_registry w') = [] \<and>
    \<not> sr_accepting (sw_registry w') \<and> sr_reservations (sw_registry w') = []"
proof -
  have "closed (sw_registry w)" using assms(2,3) by (simp add: closed_def shutdown_settled_def reservation_count_def)
  from closed_trace[OF this assms(4)] have shut: "closed (sw_registry w')"
    unfolding assms(1,5) session_run_append .
  obtain pl where inv: "registry_inv pl w'" using session_run_inv assms(5) by blast
  show ?thesis using unreserved[OF inv] shut by (simp add: closed_def)
qed

subsection \<open>Nothing is left behind\<close>

lemma no_keys:
  assumes "\<And>x. bt_get m x = None"
  shows "m = []"
proof (cases m)
  case (Cons p m')
  then show ?thesis using assms[of "fst p"] by (cases p) simp
qed simp

lemma finished_place:
  assumes inv: "registry_inv pl w" and k: "k < length (sw_owners w)" "ow_phase (sw_owners w ! k) = Finished"
    and "\<And>e. ow_actor (sw_owners w ! k) = Some e \<Longrightarrow> ac_worker (sr_actors (sw_registry w) ! se_actor e) = WorkerFinalized"
  shows "pl k = PlaceReleased"
  using owner_okD(4)[OF registry_invD(3)[OF inv k(1)]] k(2) assms(4)
  by (cases "ow_actor (sw_owners w ! k)") (auto simp: actor_state_def kept_ok_def published_ok_def split: if_splits)

text \<open>C19: creations and endings leak nothing.  When every creation has finished and the worker of
  every actor has run its finalizer, every map of the registry is empty again: no name, identity
  or reservation stays behind, in whatever order registration, publication, cleanup and the two
  sides of the ownership flag ran.  Every creation has answered those who wait for it.\<close>

theorem sessions_released:
  assumes "w = session_run limits evs" "r = sw_registry w"
    and "list_all (\<lambda>ow. ow_phase ow = Finished) (sw_owners w)" "list_all (\<lambda>c. ac_worker c = WorkerFinalized) (sr_actors r)"
  shows "sr_by_name r = [] \<and> sr_by_id r = [] \<and> sr_provisional r = [] \<and> sr_cleanup_only r = [] \<and> sr_reservations r = [] \<and>
    (\<forall>c. c < length (sr_creations r) \<longrightarrow> cc_result (sr_creations r ! c) \<noteq> None)"
proof -
  obtain pl where inv: "registry_inv pl w" using session_run_inv assms(1) by blast
  let ?n = "length (sw_owners w)"
  note ok = registry_invD(2)[OF inv]
  have fin: "ow_phase (sw_owners w ! k) = Finished" if "k < ?n" for k using assms(3) that by (simp add: list_all_length)
  have gone: "pl k = PlaceReleased" if k: "k < ?n" for k
  proof (rule finished_place[OF inv k fin[OF k]])
    fix e assume "ow_actor (sw_owners w ! k) = Some e"
    then have "se_actor e < length (sr_actors (sw_registry w))" by (rule owner_okD(2)[OF registry_invD(3)[OF inv k]])
    then show "ac_worker (sr_actors (sw_registry w) ! se_actor e) = WorkerFinalized" using assms(2,4) by (simp add: list_all_length)
  qed
  have view: "view_of (sw_owners w) pl k = (ow_name (sw_owners w ! k), ow_actor (sw_owners w ! k), PlaceReleased)" if "k < ?n" for k
    using gone[OF that] by (simp add: view_of_def)
  have names: "sr_by_name (sw_registry w) = []"
  proof (rule no_keys)
    fix x show "bt_get (sr_by_name (sw_registry w)) x = None"
    proof (rule ccontr)
      assume "bt_get (sr_by_name (sw_registry w)) x \<noteq> None"
      then obtain s where "bt_get (sr_by_name (sw_registry w)) x = Some s" by blast
      from slot_of_owner[OF ok this] view[of "slot_tag s"] show False by simp
    qed
  qed
  have res: "sr_reservations (sw_registry w) = []"
  proof (rule no_keys)
    fix x show "bt_get (sr_reservations (sw_registry w)) x = None"
    proof (rule ccontr)
      assume "bt_get (sr_reservations (sw_registry w)) x \<noteq> None"
      then obtain t where "bt_get (sr_reservations (sw_registry w)) x = Some t" by blast
      from reservation_of_owner[OF ok this] view[of t] show False by simp
    qed
  qed
  have "sr_cleanup_only (sw_registry w) = []"
  proof (rule ccontr)
    assume "sr_cleanup_only (sw_registry w) \<noteq> []"
    then have "hd (sr_cleanup_only (sw_registry w)) \<in> set (sr_cleanup_only (sw_registry w))" by simp
    then obtain k nm where "k < ?n" "view_of (sw_owners w) pl k = (nm, Some (hd (sr_cleanup_only (sw_registry w))), PlaceLingering)"
      unfolding cleanup_member[OF ok] by blast
    then show False using view[of k] by simp
  qed
  moreover have "cc_result (sr_creations (sw_registry w) ! c) \<noteq> None" if "c < length (sr_creations (sw_registry w))" for c
    using that registry_invD(1)[OF inv] owner_okD(5)[OF registry_invD(3)[OF inv] fin] by (simp add: cells_ok_def)
  ultimately show ?thesis using names res unreserved[OF inv res] assms(2) by simp
qed

lemma finished_phase:
  assumes "phase_ok Finished okay (Some i) (Some (wk, m)) p"
  shows "if okay then wk \<noteq> WorkerRunning \<or> (\<exists>nm. p = PlacePublished i nm)
    else (wk \<noteq> WorkerRunning \<or> p = PlaceProvisional i) \<and> (\<forall>j. \<nexists>nm. p = PlacePublished j nm)"
  using assms by (cases okay) (auto simp: kept_ok_def published_ok_def)

text \<open>A creation tells the truth.  A creation that has finished successfully left its session
  live under its own identity, unless its worker has exited since; one that failed did not
  publish its session, and any actor it started has exited or is kept where the shutdown finds
  it.\<close>

theorem creation_outcome:
  assumes "w = session_run limits evs" "r = sw_registry w" "k < length (sw_owners w)" "ow = sw_owners w ! k" "ow_phase ow = Finished"
  shows "case ow_actor ow of
      None \<Rightarrow> \<not> is_ok (ow_result ow)
    | Some e \<Rightarrow>
        if is_ok (ow_result ow) then worker_done r (se_actor e) \<or> holds_actor (sr_by_id r) (actor_id r (se_actor e)) (se_actor e)
        else (worker_done r (se_actor e) \<or> holds_actor (sr_provisional r) (actor_id r (se_actor e)) (se_actor e)) \<and>
          (\<forall>i. \<not> holds_actor (sr_by_id r) i (se_actor e))"
proof -
  obtain pl where inv: "registry_inv pl w" using session_run_inv assms(1) by blast
  note own = registry_invD(3)[OF inv assms(3)] and ok = registry_invD(2)[OF inv]
  note ph = owner_okD(4)[OF own, unfolded assms(4)[symmetric] assms(5)]
  show ?thesis
  proof (cases "ow_actor ow")
    case (Some e)
    have v: "view_of (sw_owners w) pl k = (ow_name ow, Some e, pl k)" using Some assms(4) by (simp add: view_of_def)
    have sid: "ow_session_id ow = Some (actor_id r (se_actor e))" using owner_okD(3)[OF own] Some assms(2,4) by simp
    have "phase_ok Finished (is_ok (ow_result ow)) (Some (actor_id r (se_actor e)))
        (Some (ac_worker (sr_actors r ! se_actor e), ac_registry_owned (sr_actors r ! se_actor e))) (pl k)"
      using ph sid Some assms(2) by (simp add: actor_state_def del: phase_ok.simps)
    from finished_phase[OF this] show ?thesis
      unfolding Some option.case worker_done_def assms(2) actor_live[OF ok assms(3) v] actor_provisional[OF ok assms(3) v] .
  qed (use ph in \<open>simp add: actor_state_def\<close>)
qed

subsection \<open>An example run\<close>

text \<open>A session is created and published, its worker exits and is finalized, and the registry
  is shut down.\<close>

definition demo_created :: "session_event list" where
  "demo_created = [CreateSession [97] True, Identity 0 (Ok ()) (Ok ()) [[1]], StartActor 0 (Ok []),
     OwnerStep 0, OwnerStep 0, OwnerStep 0, OwnerStep 0, OwnerStep 0, OwnerStep 0]"

definition demo_ended :: "session_event list" where
  "demo_ended = demo_created @ [WorkerExits 0, WorkerFinalizes 0]"

definition demo_shutdown :: "session_event list" where
  "demo_shutdown = demo_ended @ [BeginShutdown False]"

definition demo_entry :: session_entry where
  "demo_entry = \<lparr>se_actor = 0, se_name = [97], se_working_directory = [], se_ownership = 0\<rparr>"

lemma demo_created_facts:
  "live_entries (sw_registry (session_run default_limits demo_created)) = Ok [demo_entry]"
  "map ow_phase (sw_owners (session_run default_limits demo_created)) = [Finished]"
  by code_simp+

lemma demo_ended_facts:
  "sr_actors (sw_registry (session_run default_limits demo_ended)) =
    [\<lparr>ac_id = [1], ac_worker = WorkerFinalized, ac_registry_owned = True\<rparr>]"
  "list_all (\<lambda>ow. ow_phase ow = Finished) (sw_owners (session_run default_limits demo_ended))"
  by code_simp+

lemma demo_shutdown_facts:
  "\<not> sr_accepting (sw_registry (session_run default_limits demo_shutdown))"
  "shutdown_settled (sw_registry (session_run default_limits demo_shutdown))"
  by code_simp+

theorem live_sessions_resolve_witness:
  "resolve (SelectName [97]) (sw_registry (session_run default_limits demo_created)) = Ok 0"
proof -
  have "\<exists>e\<in>set [demo_entry]. se_name e = [97] \<and> se_actor e = 0" by (simp add: demo_entry_def)
  then show ?thesis using live_sessions_resolve[OF refl refl demo_created_facts(1)] by blast
qed

theorem running_sessions_bounded_witness:
  "0 \<in> set (running (sw_registry (session_run default_limits demo_created))) \<and>
   length (running (sw_registry (session_run default_limits demo_created))) \<le> 8 \<and>
   bt_contains (sr_reservations (sw_registry (session_run default_limits demo_created)))
     (actor_id (sw_registry (session_run default_limits demo_created)) 0)"
proof -
  have "0 \<in> set (running (sw_registry (session_run default_limits demo_created)))" by code_simp
  then show ?thesis using running_sessions_bounded[of default_limits demo_created] by (simp add: default_limits_def)
qed

theorem shutdown_is_final_witness:
  "running (sw_registry (session_run default_limits (demo_shutdown @ [DefaultMain]))) = []"
  using shutdown_is_final[OF refl demo_shutdown_facts, of "[DefaultMain]"] by simp

theorem sessions_released_witness:
  "sr_by_name (sw_registry (session_run default_limits demo_ended)) = [] \<and>
   sr_reservations (sw_registry (session_run default_limits demo_ended)) = []"
  using sessions_released[OF refl refl demo_ended_facts(2)] by (simp add: demo_ended_facts(1))

theorem creation_outcome_witness:
  "holds_actor (sr_by_id (sw_registry (session_run default_limits demo_created))) [1] 0"
proof -
  have "0 < length (sw_owners (session_run default_limits demo_created))"
    "ow_phase (sw_owners (session_run default_limits demo_created) ! 0) = Finished"
    "ow_actor (sw_owners (session_run default_limits demo_created) ! 0) = Some demo_entry"
    "is_ok (ow_result (sw_owners (session_run default_limits demo_created) ! 0))"
    "\<not> worker_done (sw_registry (session_run default_limits demo_created)) 0"
    "actor_id (sw_registry (session_run default_limits demo_created)) 0 = [1]"
    by code_simp+
  with creation_outcome[OF refl refl this(1) refl this(2)] show ?thesis by (simp add: demo_entry_def)
qed

end
