(* ===== verification/Session_Actor.thy ===== *)
theory Session_Actor
  imports Session_Replay History_Window
begin

section \<open>The runtime of a session\<close>

text \<open>
  The actor of one live session in \<open>daemon/src/session.rs\<close>: the attachments of clients, the
  controller lease that decides who may type, resize and read history, takeover between clients,
  and the checkpoint a remote view resumes from.

  The terminal behind the session (\<open>TerminalDriver\<close> and \<open>TerminalAttachment\<close> of
  \<open>daemon/src/terminal_driver.rs\<close>) is the record \<open>terminal_ops\<close>, an argument of the definitions:
  \<open>'s\<close> is the state the driver and its attachments share, \<open>'t\<close> one attachment.  Its errors are given
  as the kinds \<open>map_driver_error\<close> makes of them.  Random identities are a list of candidates.

  A handler is a function from a runtime to the next runtime and a result, errors included:
  \<open>and_then\<close> is the \<open>?\<close> operator of a handler.  What a handler sends on the watch channel of an
  attachment is appended to \<open>rt_sent\<close>, also when the attachment has just been removed.
\<close>

subsection \<open>State\<close>

datatype delta_result = DeltaOf surface_delta | ResyncOf surface_snapshot

datatype attachment_update = UpdateSnapshot surface_snapshot | UpdateDelta surface_delta

datatype sync_target = TargetActive nat | TargetPrepared

datatype attachment_sync = SyncAwaiting revision sync_target | SyncActive nat | SyncPrepared

datatype attachment_lifecycle =
    LifecycleAwaiting revision
  | LifecycleActive nat
  | LifecyclePrepared
  | LifecycleLeaseLost nat
  | LifecycleEnded session_end_reason

record 't actor_attachment =
  aa_base_colors :: color_profile
  aa_color_sequence :: nat
  aa_pending_color_snapshot :: "surface_snapshot option"
  aa_principal :: attachment_principal
  aa_resume_view_id :: "resume_view_id option"
  aa_terminal :: 't
  aa_ever_active :: bool
  aa_prepared_snapshot_applied :: bool
  aa_applied_snapshot_revision :: "revision option"
  aa_sync :: attachment_sync
  aa_detached :: bool
  aa_final_update :: "(attachment_update option, domain_error_kind) result option"

record 't resume_checkpoint =
  rc_principal :: attachment_principal
  rc_session_id :: session_id
  rc_view_id :: resume_view_id
  rc_revision :: revision
  rc_terminal :: 't

record resume_request =
  rr_view_id :: resume_view_id
  rr_known_revision :: "revision option"

record runtime_summary =
  su_has_controller :: bool
  su_viewport :: terminal_size
  su_ended :: bool

type_synonym replay_operation_key = "replay_key \<times> operation_id"

record ('s, 't) session_runtime =
  rt_driver :: bool
  rt_shared :: 's
  rt_attachments :: "(attachment_id, 't actor_attachment) bmap"
  rt_resume :: "'t resume_checkpoint option"
  rt_controller :: "controller_lease option"
  rt_controller_operation :: "replay_operation_key option"
  rt_next_generation :: nat
  rt_viewport :: terminal_size
  rt_last_revision :: revision
  rt_cached :: runtime_summary
  rt_sent :: "(attachment_id \<times> attachment_lifecycle) list"

record ('s, 't) terminal_ops =
  to_update_base_colors :: "color_profile \<Rightarrow> 's \<Rightarrow> 's \<times> (bool, domain_error_kind) result"
  to_set_effect_target :: "attachment_id option \<Rightarrow> 's \<Rightarrow> 's \<times> (unit, domain_error_kind) result"
  to_write_input :: "byte list \<Rightarrow> 's \<Rightarrow> 's \<times> (unit, domain_error_kind) result"
  to_resize :: "terminal_size \<Rightarrow> 's \<Rightarrow> 's \<times> (revision, domain_error_kind) result"
  to_latest_revision :: "'s \<Rightarrow> revision"
  to_finalize :: "'s \<Rightarrow> 's \<times> (unit, domain_error_kind) result"
  to_attach :: "'s \<Rightarrow> 't"
  to_checkpoint_revision :: "'t \<Rightarrow> revision option"
  to_discard_checkpoint :: "'t \<Rightarrow> 't"
  to_sync_latest :: "'s \<Rightarrow> 't \<Rightarrow> 't \<times> (delta_result, domain_error_kind) result"
  to_sync_changed :: "'s \<Rightarrow> 't \<Rightarrow> 't \<times> (delta_result option, domain_error_kind) result"
  to_latest_snapshot :: "'s \<Rightarrow> 't \<Rightarrow> (surface_snapshot, domain_error_kind) result"
  to_begin_history :: "history_query \<Rightarrow> 's \<Rightarrow> 't \<Rightarrow> 't \<times> (unit, domain_error_kind) result"
  to_cancel_pending_history :: "'t \<Rightarrow> 't"

definition session_runtime_new :: "'s \<Rightarrow> terminal_size \<Rightarrow> ('s, 't) session_runtime" where
  "session_runtime_new shared viewport = \<lparr>rt_driver = True, rt_shared = shared, rt_attachments = [], rt_resume = None,
     rt_controller = None, rt_controller_operation = None, rt_next_generation = 0, rt_viewport = viewport, rt_last_revision = 0,
     rt_cached = \<lparr>su_has_controller = False, su_viewport = viewport, su_ended = False\<rparr>, rt_sent = []\<rparr>"

subsection \<open>Handlers as state transformers\<close>

type_synonym ('s, 't, 'a) handler = "('s, 't) session_runtime \<Rightarrow> ('s, 't) session_runtime \<times> ('a, domain_error_kind) result"

definition and_then :: "('s, 't, 'a) handler \<Rightarrow> ('a \<Rightarrow> ('s, 't, 'b) handler) \<Rightarrow> ('s, 't, 'b) handler" where
  "and_then m f rt = (case m rt of (rt', Ok x) \<Rightarrow> f x rt' | (rt', Err e) \<Rightarrow> (rt', Err e))"

text \<open>A call of the driver, which is absent once the session has been finished.\<close>

definition with_driver :: "('s \<Rightarrow> 's \<times> ('a, domain_error_kind) result) \<Rightarrow> ('s, 't, 'a) handler" where
  "with_driver call rt =
    (if rt_driver rt then case call (rt_shared rt) of (s, res) \<Rightarrow> (rt\<lparr>rt_shared := s\<rparr>, res) else (rt, Err SessionNotFound))"

definition put_attachment :: "attachment_id \<Rightarrow> 't actor_attachment \<Rightarrow> ('s, 't) session_runtime \<Rightarrow> ('s, 't) session_runtime" where
  "put_attachment i a rt = rt\<lparr>rt_attachments := bt_insert i a (rt_attachments rt)\<rparr>"

definition send_lifecycle :: "attachment_id \<Rightarrow> attachment_lifecycle \<Rightarrow> ('s, 't) session_runtime \<Rightarrow> ('s, 't) session_runtime" where
  "send_lifecycle i l rt = rt\<lparr>rt_sent := rt_sent rt @ [(i, l)]\<rparr>"

definition update_cached :: "bool \<Rightarrow> ('s, 't) session_runtime \<Rightarrow> ('s, 't) session_runtime" where
  "update_cached ended rt =
    rt\<lparr>rt_cached := \<lparr>su_has_controller = rt_controller rt \<noteq> None, su_viewport = rt_viewport rt, su_ended = ended\<rparr>\<rparr>"

definition validate_viewport :: "resource_limits \<Rightarrow> terminal_size \<Rightarrow> (unit, domain_error_kind) result" where
  "validate_viewport limits size' =
    ensure (\<not> (sz_rows size' = 0 \<or> sz_columns size' = 0 \<or> sz_rows size' > max_viewport_rows limits \<or>
      sz_columns size' > max_viewport_columns limits)) ResourceExhausted"

definition full_sync :: "('s, 't) terminal_ops \<Rightarrow> 's \<Rightarrow> 't \<Rightarrow> 't \<times> (surface_snapshot, domain_error_kind) result" where
  "full_sync ops s t =
    (case to_sync_latest ops s t of
       (t', Ok (ResyncOf snapshot)) \<Rightarrow> (t', Ok snapshot)
     | (t', Ok (DeltaOf _)) \<Rightarrow> (t', Err MalformedFrame)
     | (t', Err e) \<Rightarrow> (t', Err e))"

definition next_attachment_id :: "('s, 't) session_runtime \<Rightarrow> attachment_id list \<Rightarrow> (attachment_id, domain_error_kind) result" where
  "next_attachment_id rt candidates =
    ok_or (List.find (\<lambda>i. \<not> bt_contains (rt_attachments rt) i) (take 16 candidates)) ResourceExhausted"

subsection \<open>Who controls\<close>

text \<open>The generation an attachment is active with, or will be when it has applied its snapshot.\<close>

fun active_generation :: "attachment_sync \<Rightarrow> nat option" where
  "active_generation (SyncActive g) = Some g"
| "active_generation (SyncAwaiting _ (TargetActive g)) = Some g"
| "active_generation _ = None"

definition effect_target :: "('s, 't) session_runtime \<Rightarrow> attachment_id option" where
  "effect_target rt =
    (case rt_controller rt of
       None \<Rightarrow> None
     | Some c \<Rightarrow>
         (case bt_get (rt_attachments rt) (lease_attachment_id c) of
            None \<Rightarrow> None
          | Some a \<Rightarrow> if aa_ever_active a \<and> active_generation (aa_sync a) = Some (lease_generation c)
                      then Some (lease_attachment_id c) else None))"

definition cancel_histories :: "('s, 't) terminal_ops \<Rightarrow> attachment_id option \<Rightarrow> ('s, 't) session_runtime \<Rightarrow> ('s, 't) session_runtime" where
  "cancel_histories ops target rt =
    rt\<lparr>rt_attachments := map (\<lambda>(i, a). (i, if Some i \<noteq> target
      then a\<lparr>aa_terminal := to_cancel_pending_history ops (aa_terminal a)\<rparr> else a)) (rt_attachments rt)\<rparr>"

definition reconcile_effect_target :: "('s, 't) terminal_ops \<Rightarrow> ('s, 't, unit) handler" where
  "reconcile_effect_target ops rt =
    with_driver (to_set_effect_target ops (effect_target rt)) (cancel_histories ops (effect_target rt) rt)"

definition require_resize_controller :: "attachment_id \<Rightarrow> ('s, 't) session_runtime \<Rightarrow> (nat, domain_error_kind) result" where
  "require_resize_controller i rt =
    (case bt_get (rt_attachments rt) i of
       None \<Rightarrow> Err LeaseLost
     | Some a \<Rightarrow>
         (case active_generation (aa_sync a) of
            None \<Rightarrow> Err NotSynchronized
          | Some g \<Rightarrow>
              (case rt_controller rt of
                 Some c \<Rightarrow> if lease_attachment_id c = i \<and> lease_generation c = g then Ok g else Err LeaseLost
               | None \<Rightarrow> Err LeaseLost)))"

definition require_existing_visual_sync_controller :: "attachment_id \<Rightarrow> ('s, 't) session_runtime \<Rightarrow> (nat, domain_error_kind) result" where
  "require_existing_visual_sync_controller i rt =
    (case bt_get (rt_attachments rt) i of
       None \<Rightarrow> Err LeaseLost
     | Some a \<Rightarrow>
         (case aa_sync a of
            SyncAwaiting _ _ \<Rightarrow> if aa_ever_active a then require_resize_controller i rt else Err NotSynchronized
          | _ \<Rightarrow> require_resize_controller i rt))"

definition pending_sync :: "attachment_sync \<Rightarrow> bool" where
  "pending_sync s \<longleftrightarrow> (case s of SyncAwaiting _ TargetPrepared \<Rightarrow> True | SyncPrepared \<Rightarrow> True | _ \<Rightarrow> False)"

subsection \<open>Detaching\<close>

definition drop_attachment :: "attachment_id \<Rightarrow> ('s, 't) session_runtime \<Rightarrow> ('s, 't) session_runtime" where
  "drop_attachment i rt =
    (let rt' = rt\<lparr>rt_attachments := bt_remove i (rt_attachments rt)\<rparr> in
     if map_option lease_attachment_id (rt_controller rt) = Some i
     then rt'\<lparr>rt_controller := None, rt_controller_operation := None\<rparr> else rt')"

definition reap_detached :: "('s, 't) terminal_ops \<Rightarrow> ('s, 't, unit) handler" where
  "reap_detached ops rt =
    (let detached = map fst (filter (\<lambda>(i, a). aa_detached a) (rt_attachments rt)) in
     if detached = [] then (rt, Ok ())
     else and_then (reconcile_effect_target ops) (\<lambda>_ rt'. (update_cached False rt', Ok ())) (fold drop_attachment detached rt))"

fun is_remote_device :: "device_id \<Rightarrow> attachment_principal \<Rightarrow> bool" where
  "is_remote_device d (RemoteEndpoint remote _) \<longleftrightarrow> remote = d"
| "is_remote_device d (LocalSameUid _ _) \<longleftrightarrow> False"

text \<open>The outcome is the number of removed attachments and whether the controller was among them.\<close>

definition detach_remote_principal :: "('s, 't) terminal_ops \<Rightarrow> device_id \<Rightarrow> ('s, 't, nat \<times> bool) handler" where
  "detach_remote_principal ops d rt =
    (let resume_removed = (case rt_resume rt of Some c \<Rightarrow> is_remote_device d (rc_principal c) | None \<Rightarrow> False);
         rt1 = (if resume_removed then rt\<lparr>rt_resume := None\<rparr> else rt);
         removed = map fst (filter (\<lambda>(i, a). is_remote_device d (aa_principal a)) (rt_attachments rt1));
         released = (case rt_controller rt1 of Some c \<Rightarrow> lease_attachment_id c \<in> set removed | None \<Rightarrow> False);
         outcome = (length removed, released);
         rt2 = fold drop_attachment removed rt1
     in if removed \<noteq> [] \<or> resume_removed
        then and_then (reconcile_effect_target ops) (\<lambda>_ rt3. (update_cached False rt3, Ok outcome)) rt2
        else (rt2, Ok outcome))"

definition count_remote_attachments :: "device_id \<Rightarrow> ('s, 't) session_runtime \<Rightarrow> nat" where
  "count_remote_attachments d rt = length (filter (\<lambda>(i, a). \<not> aa_detached a \<and> is_remote_device d (aa_principal a)) (rt_attachments rt))"

definition detach_for_remote_resume :: "('s, 't) terminal_ops \<Rightarrow> session_id \<Rightarrow> attachment_id \<Rightarrow> ('s, 't, bool) handler" where
  "detach_for_remote_resume ops sid i rt =
    (case bt_get (rt_attachments rt) i of
       None \<Rightarrow> (rt, Err LeaseLost)
     | Some a \<Rightarrow>
         (let was_controller = (map_option lease_attachment_id (rt_controller rt) = Some i);
              active = (was_controller \<and> (case aa_sync a of SyncActive _ \<Rightarrow> True | _ \<Rightarrow> False));
              rt1 = drop_attachment i rt;
              checkpoint = (case (active, aa_principal a, aa_resume_view_id a, to_checkpoint_revision ops (aa_terminal a)) of
                 (True, RemoteEndpoint d g, Some view, Some rn) \<Rightarrow>
                   Some \<lparr>rc_principal = RemoteEndpoint d g, rc_session_id = sid, rc_view_id = view, rc_revision = rn,
                         rc_terminal = aa_terminal a\<rparr>
               | _ \<Rightarrow> None);
              rt2 = rt1\<lparr>rt_resume := checkpoint\<rparr>
          in and_then (reconcile_effect_target ops) (\<lambda>_ rt3. (update_cached False rt3, Ok (checkpoint \<noteq> None))) rt2))"

subsection \<open>Attaching\<close>

definition take_resume_terminal :: "session_id \<Rightarrow> attachment_principal \<Rightarrow> resume_request option \<Rightarrow> ('s, 't) session_runtime \<Rightarrow>
    ('s, 't) session_runtime \<times> 't option" where
  "take_resume_terminal sid who request rt =
    (rt\<lparr>rt_resume := None\<rparr>,
     case (request, rt_resume rt) of
       (Some req, Some c) \<Rightarrow>
         if rc_principal c = who \<and> rc_session_id c = sid \<and> rc_view_id c = rr_view_id req \<and> rr_known_revision req = Some (rc_revision c)
         then Some (rc_terminal c) else None
     | _ \<Rightarrow> None)"

text \<open>The checks before anything is prepared: is the session vacant or the takeover explicit, is
  there another takeover pending, is there a fresh identity.\<close>

definition attach_admission :: "attachment_principal \<Rightarrow> bool \<Rightarrow> resume_request option \<Rightarrow> attachment_id list \<Rightarrow>
    ('s, 't) session_runtime \<Rightarrow> (attachment_id, domain_error_kind) result" where
  "attach_admission who explicit resume candidates rt =
    (case rt_controller rt of
       None \<Rightarrow> next_attachment_id rt candidates
     | Some c \<Rightarrow>
         if \<not> explicit then
           (case (resume, bt_get (rt_attachments rt) (lease_attachment_id c)) of
              (Some req, Some a) \<Rightarrow>
                if aa_principal a = who \<and> aa_resume_view_id a = Some (rr_view_id req)
                then Err TransportUnavailable else Err SessionOccupied
            | _ \<Rightarrow> Err SessionOccupied)
         else if list_ex (\<lambda>(i, a). pending_sync (aa_sync a)) (rt_attachments rt) then Err SessionOccupied
         else next_attachment_id rt candidates)"

definition attach_colors :: "('s, 't) terminal_ops \<Rightarrow> color_profile \<Rightarrow> ('s, 't, unit) handler" where
  "attach_colors ops base_colors rt =
    (if \<not> rt_driver rt then (rt, Err SessionNotFound)
     else if rt_controller rt = None then
       (if checked_add U64_MAX (rt_next_generation rt) 1 = None then (rt, Err ResourceExhausted)
        else and_then (with_driver (to_update_base_colors ops base_colors)) (\<lambda>_ rt'. (rt', Ok ())) rt)
     else (rt, Ok ()))"

definition initial_state :: "('s, 't) terminal_ops \<Rightarrow> 's \<Rightarrow> bool \<Rightarrow> 't \<Rightarrow>
    't \<times> (surface_snapshot \<times> surface_delta option \<times> revision, domain_error_kind) result" where
  "initial_state ops s resuming t =
    (if resuming \<and> to_checkpoint_revision ops t \<noteq> None then
       (case to_sync_latest ops s t of
          (t', Ok (DeltaOf delta)) \<Rightarrow>
            (t', res_bind (to_latest_snapshot ops s t') (\<lambda>snapshot. Ok (snapshot, Some delta, sd_to_revision delta)))
        | (t', Ok (ResyncOf snapshot)) \<Rightarrow> (t', Ok (snapshot, None, ss_revision snapshot))
        | (t', Err e) \<Rightarrow> (t', Err e))
     else
       (case full_sync ops s (to_discard_checkpoint ops t) of
          (t', Ok snapshot) \<Rightarrow> (t', Ok (snapshot, None, ss_revision snapshot))
        | (t', Err e) \<Rightarrow> (t', Err e)))"

definition attach_target :: "attachment_id \<Rightarrow> ('s, 't, sync_target) handler" where
  "attach_target i rt =
    (if rt_controller rt = None then
       (case checked_add U64_MAX (rt_next_generation rt) 1 of
          None \<Rightarrow> (rt, Err ResourceExhausted)
        | Some g \<Rightarrow>
            (rt\<lparr>rt_next_generation := g, rt_controller := Some \<lparr>lease_attachment_id = i, lease_generation = g\<rparr>,
                rt_controller_operation := None\<rparr>, Ok (TargetActive g)))
     else (rt, Ok TargetPrepared))"

definition new_attachment :: "color_profile \<Rightarrow> attachment_principal \<Rightarrow> resume_view_id option \<Rightarrow> 't \<Rightarrow> revision \<Rightarrow> sync_target \<Rightarrow>
    't actor_attachment" where
  "new_attachment base_colors who view t rn target = \<lparr>aa_base_colors = base_colors, aa_color_sequence = 0,
     aa_pending_color_snapshot = None, aa_principal = who, aa_resume_view_id = view, aa_terminal = t, aa_ever_active = False,
     aa_prepared_snapshot_applied = False, aa_applied_snapshot_revision = None, aa_sync = SyncAwaiting rn target,
     aa_detached = False, aa_final_update = None\<rparr>"

text \<open>The result is the identity of the attachment with its first snapshot and, when a view is
  resumed, the delta from its checkpoint.\<close>

definition prepare_attach :: "('s, 't) terminal_ops \<Rightarrow> session_id \<Rightarrow> attachment_principal \<Rightarrow> bool \<Rightarrow> resume_request option \<Rightarrow>
    color_profile \<Rightarrow> attachment_id list \<Rightarrow> ('s, 't, attachment_id \<times> surface_snapshot \<times> surface_delta option) handler" where
  "prepare_attach ops sid who explicit resume base_colors candidates =
    and_then (reap_detached ops) (\<lambda>_ rt.
      case take_resume_terminal sid who resume rt of (rt1, resumed) \<Rightarrow>
      case attach_admission who explicit resume candidates rt1 of
        Err e \<Rightarrow> (rt1, Err e)
      | Ok i \<Rightarrow>
        and_then (attach_colors ops base_colors) (\<lambda>_ rt2.
          let t = (case resumed of Some t \<Rightarrow> t | None \<Rightarrow> to_attach ops (rt_shared rt2)) in
          case initial_state ops (rt_shared rt2) (resume \<noteq> None) t of
            (_, Err e) \<Rightarrow> (rt2, Err e)
          | (t', Ok (snapshot, delta, rn)) \<Rightarrow>
            and_then (attach_target i) (\<lambda>target rt3.
              let rt4 = put_attachment i (new_attachment base_colors who (map_option rr_view_id resume) t' rn target) rt3 in
              and_then (reconcile_effect_target ops) (\<lambda>_ rt5. (update_cached False rt5, Ok (i, snapshot, delta)))
                (send_lifecycle i (LifecycleAwaiting rn) rt4)) rt2) rt1)"

subsection \<open>Synchronization\<close>

definition snapshot_applied :: "('s, 't) terminal_ops \<Rightarrow> attachment_id \<Rightarrow> revision \<Rightarrow> ('s, 't, surface_snapshot option) handler" where
  "snapshot_applied ops i rn rt =
    (case bt_get (rt_attachments rt) i of
       None \<Rightarrow> (rt, Err LeaseLost)
     | Some a \<Rightarrow>
       (case aa_sync a of
          SyncAwaiting expected target \<Rightarrow>
            if rn \<noteq> expected \<and> aa_applied_snapshot_revision a = Some rn then (rt, Ok None)
            else if rn \<noteq> expected then
              (case full_sync ops (rt_shared rt) (to_discard_checkpoint ops (aa_terminal a)) of
                 (t, Err e) \<Rightarrow> (put_attachment i (a\<lparr>aa_pending_color_snapshot := None, aa_terminal := t\<rparr>) rt, Err e)
               | (t, Ok snapshot) \<Rightarrow>
                   and_then (reconcile_effect_target ops) (\<lambda>_ rt'. (rt', Ok (Some snapshot)))
                     (send_lifecycle i (LifecycleAwaiting (ss_revision snapshot))
                       (put_attachment i (a\<lparr>aa_pending_color_snapshot := None, aa_terminal := t,
                          aa_sync := SyncAwaiting (ss_revision snapshot) target\<rparr>) rt)))
            else
              (let a1 = a\<lparr>aa_pending_color_snapshot := None, aa_applied_snapshot_revision := Some rn\<rparr>;
                   (a2, l) = (case target of
                      TargetActive g \<Rightarrow> (a1\<lparr>aa_ever_active := True, aa_sync := SyncActive g\<rparr>, LifecycleActive g)
                    | TargetPrepared \<Rightarrow> (a1\<lparr>aa_prepared_snapshot_applied := True, aa_sync := SyncPrepared\<rparr>, LifecyclePrepared))
               in and_then (reconcile_effect_target ops) (\<lambda>_ rt'. (send_lifecycle i l rt', Ok None)) (put_attachment i a2 rt))
        | _ \<Rightarrow> (rt, if aa_applied_snapshot_revision a = Some rn then Ok None else Err NotSynchronized)))"

fun sync_target_of :: "attachment_sync \<Rightarrow> sync_target" where
  "sync_target_of (SyncActive g) = TargetActive g"
| "sync_target_of SyncPrepared = TargetPrepared"
| "sync_target_of (SyncAwaiting _ target) = target"

definition next_update :: "('s, 't) terminal_ops \<Rightarrow> attachment_id \<Rightarrow> ('s, 't, attachment_update option) handler" where
  "next_update ops i rt =
    (case bt_get (rt_attachments rt) i of
       None \<Rightarrow> (rt, Err LeaseLost)
     | Some a \<Rightarrow>
       (case (aa_pending_color_snapshot a, aa_sync a) of
          (Some snapshot, _) \<Rightarrow> (put_attachment i (a\<lparr>aa_pending_color_snapshot := None\<rparr>) rt, Ok (Some (UpdateSnapshot snapshot)))
        | (None, SyncAwaiting _ _) \<Rightarrow> (rt, Ok None)
        | (None, sync) \<Rightarrow>
            (case to_sync_changed ops (rt_shared rt) (aa_terminal a) of
               (t, Err e) \<Rightarrow> (put_attachment i (a\<lparr>aa_terminal := t\<rparr>) rt, Err e)
             | (t, Ok None) \<Rightarrow> (put_attachment i (a\<lparr>aa_terminal := t\<rparr>) rt, Ok None)
             | (t, Ok (Some (DeltaOf delta))) \<Rightarrow> (put_attachment i (a\<lparr>aa_terminal := t\<rparr>) rt, Ok (Some (UpdateDelta delta)))
             | (t, Ok (Some (ResyncOf snapshot))) \<Rightarrow>
                 and_then (reconcile_effect_target ops) (\<lambda>_ rt'. (rt', Ok (Some (UpdateSnapshot snapshot))))
                   (send_lifecycle i (LifecycleAwaiting (ss_revision snapshot))
                     (put_attachment i (a\<lparr>aa_terminal := t, aa_sync := SyncAwaiting (ss_revision snapshot) (sync_target_of sync)\<rparr>) rt)))))"

primrec semantic_update_value :: "delta_result \<Rightarrow> attachment_update" where
  "semantic_update_value (DeltaOf delta) = UpdateDelta delta"
| "semantic_update_value (ResyncOf snapshot) = UpdateSnapshot snapshot"

definition final_terminal_update :: "('s, 't) terminal_ops \<Rightarrow> 's \<Rightarrow> 't \<Rightarrow> 't \<times> (attachment_update option, domain_error_kind) result" where
  "final_terminal_update ops s t =
    (case to_sync_changed ops s t of
       (t', Ok update) \<Rightarrow> (t', Ok (map_option semantic_update_value update))
     | (t', Err e) \<Rightarrow> (t', Err e))"

definition final_update :: "('s, 't) terminal_ops \<Rightarrow> attachment_id \<Rightarrow> ('s, 't, attachment_update option) handler" where
  "final_update ops i rt =
    (case bt_get (rt_attachments rt) i of
       None \<Rightarrow> (rt, Err LeaseLost)
     | Some a \<Rightarrow> (case final_terminal_update ops (rt_shared rt) (aa_terminal a) of
         (t, res) \<Rightarrow> (put_attachment i (a\<lparr>aa_terminal := t\<rparr>) rt, res)))"

definition sync_latest :: "('s, 't) terminal_ops \<Rightarrow> attachment_id \<Rightarrow> ('s, 't, surface_snapshot) handler" where
  "sync_latest ops i rt =
    (case bt_get (rt_attachments rt) i of
       None \<Rightarrow> (rt, Err LeaseLost)
     | Some a \<Rightarrow>
       (case full_sync ops (rt_shared rt) (to_discard_checkpoint ops (aa_terminal a)) of
          (t, Err e) \<Rightarrow> (put_attachment i (a\<lparr>aa_pending_color_snapshot := None, aa_terminal := t\<rparr>) rt, Err e)
        | (t, Ok snapshot) \<Rightarrow>
            and_then (reconcile_effect_target ops) (\<lambda>_ rt'. (rt', Ok snapshot))
              (send_lifecycle i (LifecycleAwaiting (ss_revision snapshot))
                (put_attachment i (a\<lparr>aa_pending_color_snapshot := None, aa_terminal := t,
                   aa_sync := SyncAwaiting (ss_revision snapshot) (sync_target_of (aa_sync a))\<rparr>) rt))))"

subsection \<open>Operations of the controller\<close>

definition history_window :: "('s, 't) terminal_ops \<Rightarrow> attachment_id \<Rightarrow> history_query \<Rightarrow> ('s, 't, unit) handler" where
  "history_window ops i q rt =
    (case require_existing_visual_sync_controller i rt of
       Err e \<Rightarrow> (rt, Err e)
     | Ok _ \<Rightarrow>
       (case bt_get (rt_attachments rt) i of
          None \<Rightarrow> (rt, Err LeaseLost)
        | Some a \<Rightarrow> (case to_begin_history ops q (rt_shared rt) (aa_terminal a) of
            (t, res) \<Rightarrow> (put_attachment i (a\<lparr>aa_terminal := t\<rparr>) rt, res))))"

definition write_input :: "('s, 't) terminal_ops \<Rightarrow> attachment_id \<Rightarrow> byte list \<Rightarrow> ('s, 't, unit) handler" where
  "write_input ops i bytes rt =
    (case require_existing_visual_sync_controller i rt of
       Err e \<Rightarrow> (rt, Err e)
     | Ok _ \<Rightarrow> with_driver (to_write_input ops bytes) rt)"

definition resize :: "('s, 't) terminal_ops \<Rightarrow> resource_limits \<Rightarrow> attachment_id \<Rightarrow> terminal_size \<Rightarrow> ('s, 't, revision) handler" where
  "resize ops limits i size' rt =
    (case res_bind (validate_viewport limits size') (\<lambda>_. require_resize_controller i rt) of
       Err e \<Rightarrow> (rt, Err e)
     | Ok _ \<Rightarrow>
         and_then (with_driver (to_resize ops size')) (\<lambda>rn rt'.
           (update_cached False (rt'\<lparr>rt_viewport := size', rt_last_revision := rn\<rparr>), Ok rn)) rt)"

definition update_colors :: "('s, 't) terminal_ops \<Rightarrow> attachment_id \<Rightarrow> nat \<Rightarrow> color_profile \<Rightarrow> ('s, 't, unit) handler" where
  "update_colors ops i sequence' base_colors rt =
    (case require_resize_controller i rt of
       Err e \<Rightarrow> (rt, Err e)
     | Ok _ \<Rightarrow>
       (case bt_get (rt_attachments rt) i of
          None \<Rightarrow> (rt, Err LeaseLost)
        | Some a \<Rightarrow>
            if sequence' = 0 \<or> sequence' \<le> aa_color_sequence a then (rt, Err SessionNotFound)
            else and_then (with_driver (to_update_base_colors ops base_colors)) (\<lambda>_ rt'.
              (update_cached False (put_attachment i (a\<lparr>aa_base_colors := base_colors, aa_color_sequence := sequence'\<rparr>) rt'), Ok ())) rt))"

definition admit_upload :: "attachment_principal \<Rightarrow> attachment_id \<Rightarrow> ('s, 't) session_runtime \<Rightarrow> (nat, domain_error_kind) result" where
  "admit_upload who i rt =
    res_bind (require_existing_visual_sync_controller i rt) (\<lambda>g.
    res_bind (ok_or (bt_get (rt_attachments rt) i) LeaseLost) (\<lambda>a.
    if aa_principal a \<noteq> who \<or> aa_detached a then Err LeaseLost else Ok g))"

subsection \<open>Takeover\<close>

definition takeover_prepared :: "'t actor_attachment \<Rightarrow> bool" where
  "takeover_prepared a \<longleftrightarrow>
    (case aa_sync a of
       SyncPrepared \<Rightarrow> True
     | SyncAwaiting _ TargetPrepared \<Rightarrow> aa_prepared_snapshot_applied a
     | _ \<Rightarrow> False)"

text \<open>The attachment becomes active at once when it is synchronized, else when it applies the
  snapshot it awaits.\<close>

definition takeover_sync :: "nat \<Rightarrow> 't actor_attachment \<Rightarrow> 't actor_attachment" where
  "takeover_sync g a =
    (case aa_sync a of
       SyncPrepared \<Rightarrow> a\<lparr>aa_sync := SyncActive g, aa_ever_active := True\<rparr>
     | SyncAwaiting rn TargetPrepared \<Rightarrow> a\<lparr>aa_sync := SyncAwaiting rn (TargetActive g)\<rparr>
     | _ \<Rightarrow> a)"

definition drop_old_controller :: "attachment_id \<Rightarrow> ('s, 't) session_runtime \<Rightarrow> ('s, 't) session_runtime \<times> attachment_id option" where
  "drop_old_controller i rt =
    (case rt_controller rt of
       Some c \<Rightarrow>
         if lease_attachment_id c \<noteq> i \<and> bt_contains (rt_attachments rt) (lease_attachment_id c)
         then (rt\<lparr>rt_attachments := bt_remove (lease_attachment_id c) (rt_attachments rt)\<rparr>, Some (lease_attachment_id c))
         else (rt, None)
     | None \<Rightarrow> (rt, None))"

text \<open>The sections of \<open>takeover\<close> after its checks.  \<open>old\<close> is the replaced controller, \<open>active\<close> says
  whether the new one is active at once.\<close>

definition takeover_colors :: "('s, 't) terminal_ops \<Rightarrow> attachment_id \<Rightarrow> nat \<Rightarrow> bool \<Rightarrow> 't actor_attachment \<Rightarrow> ('s, 't, bool) handler" where
  "takeover_colors ops i g colors_changed a rt =
    (let a1 = takeover_sync g a in
     if \<not> colors_changed then (put_attachment i a1 rt, Ok (aa_sync a = SyncPrepared))
     else
       (case full_sync ops (rt_shared rt) (to_discard_checkpoint ops (aa_terminal a1)) of
          (t, Err e) \<Rightarrow> (put_attachment i (a1\<lparr>aa_ever_active := aa_ever_active a, aa_terminal := t\<rparr>) rt, Err e)
        | (t, Ok snapshot) \<Rightarrow>
            (send_lifecycle i (LifecycleAwaiting (ss_revision snapshot))
              (put_attachment i (a1\<lparr>aa_ever_active := aa_ever_active a, aa_terminal := t,
                 aa_sync := SyncAwaiting (ss_revision snapshot) (TargetActive g), aa_pending_color_snapshot := Some snapshot\<rparr>) rt),
             Ok False)))"

definition takeover_commit :: "('s, 't) terminal_ops \<Rightarrow> attachment_id \<Rightarrow> replay_operation_key \<Rightarrow> nat \<Rightarrow> bool \<Rightarrow> 't actor_attachment \<Rightarrow>
    ('s, 't, unit) handler" where
  "takeover_commit ops i key g colors_changed a rt =
    (case drop_old_controller i rt of (rt1, old) \<Rightarrow>
     and_then (takeover_colors ops i g colors_changed a) (\<lambda>active.
       and_then (reconcile_effect_target ops) (\<lambda>_ rt2.
         let rt3 = (case old of Some j \<Rightarrow> send_lifecycle j (LifecycleLeaseLost g) rt2 | None \<Rightarrow> rt2);
             rt4 = (if active then send_lifecycle i (LifecycleActive g) rt3 else rt3)
         in (update_cached False rt4, Ok ())))
       (rt1\<lparr>rt_controller := Some \<lparr>lease_attachment_id = i, lease_generation = g\<rparr>, rt_controller_operation := Some key\<rparr>))"

definition takeover :: "('s, 't) terminal_ops \<Rightarrow> attachment_principal \<Rightarrow> attachment_id \<Rightarrow> replay_operation_key \<Rightarrow> bool \<Rightarrow>
    ('s, 't, unit) handler" where
  "takeover ops who i key continuation rt =
    (case bt_get (rt_attachments rt) i of
       None \<Rightarrow> (rt, Err LeaseLost)
     | Some a \<Rightarrow>
       if aa_principal a \<noteq> who then (rt, Err LeaseLost)
       else if map_option lease_attachment_id (rt_controller rt) = Some i then
         (case require_existing_visual_sync_controller i rt of
            Err e \<Rightarrow> (rt, Err e)
          | Ok _ \<Rightarrow> (if continuation then rt else rt\<lparr>rt_controller_operation := Some key\<rparr>, Ok ()))
       else if \<not> takeover_prepared a then (rt, Err NotSynchronized)
       else if continuation \<and> rt_controller rt \<noteq> None \<and> rt_controller_operation rt \<noteq> Some key then (rt, Err OperationOutcomeUnknown)
       else
         (case checked_add U64_MAX (rt_next_generation rt) 1 of
            None \<Rightarrow> (rt, Err ResourceExhausted)
          | Some g \<Rightarrow>
              and_then (with_driver (to_update_base_colors ops (aa_base_colors a))) (\<lambda>colors_changed.
                takeover_commit ops i key g colors_changed a) (rt\<lparr>rt_next_generation := g\<rparr>)))"

subsection \<open>The end of a session\<close>

definition finish_attachment :: "('s, 't) terminal_ops \<Rightarrow> 's \<Rightarrow> 't actor_attachment \<Rightarrow> 't actor_attachment" where
  "finish_attachment ops s a =
    (case final_terminal_update ops s (aa_terminal a) of
       (t, update) \<Rightarrow> a\<lparr>aa_terminal := t, aa_final_update := Some update\<rparr>)"

definition finish_runtime :: "('s, 't) terminal_ops \<Rightarrow> session_end_reason \<Rightarrow> ('s, 't, unit) handler" where
  "finish_runtime ops reason rt =
    (let rt1 = (if rt_driver rt then rt\<lparr>rt_last_revision := to_latest_revision ops (rt_shared rt)\<rparr> else rt)
           \<lparr>rt_resume := None, rt_controller := None, rt_controller_operation := None\<rparr> in
     case (if rt_driver rt1 then with_driver (to_set_effect_target ops None) rt1 else (rt1, Ok ())) of
       (rt2, Err e) \<Rightarrow> (rt2, Err e)
     | (rt2, Ok _) \<Rightarrow>
         (case with_driver (to_finalize ops) rt2 of (rt3, finalization) \<Rightarrow>
            (let rt4 = rt3\<lparr>rt_driver := False,
                 rt_attachments := map (\<lambda>(i, a). (i, finish_attachment ops (rt_shared rt3) a)) (rt_attachments rt3),
                 rt_sent := rt_sent rt3 @ map (\<lambda>(i, a). (i, LifecycleEnded reason)) (rt_attachments rt3)\<rparr>
             in (update_cached True rt4, finalization))))"

subsection \<open>Commands\<close>

datatype session_command =
    CmdUpdateColors attachment_id nat color_profile
  | CmdPrepareAttach color_profile attachment_principal bool "resume_request option" "attachment_id list"
  | CmdDetachForRemoteResume attachment_id
  | CmdSnapshotApplied attachment_id revision
  | CmdNextUpdate attachment_id
  | CmdFinalUpdate attachment_id
  | CmdSyncLatest attachment_id
  | CmdHistoryWindow attachment_id history_query
  | CmdValidateHistoryController attachment_id
  | CmdAdmitUpload attachment_principal attachment_id
  | CmdWriteInput attachment_id "byte list"
  | CmdResize attachment_id terminal_size
  | CmdTakeover attachment_principal attachment_id replay_operation_key bool
  | CmdDetachRemotePrincipal device_id
  | CmdCountRemoteAttachments device_id
  | CmdWake

datatype command_reply =
    ReplyUnit
  | ReplyAttached attachment_id surface_snapshot "surface_delta option"
  | ReplySaved bool
  | ReplySnapshot "surface_snapshot option"
  | ReplyUpdate "attachment_update option"
  | ReplyGeneration nat
  | ReplyRevision revision
  | ReplyDetached nat bool
  | ReplyCount nat

definition replying :: "('a \<Rightarrow> command_reply) \<Rightarrow> ('s, 't, 'a) handler \<Rightarrow> ('s, 't, command_reply) handler" where
  "replying f m = and_then m (\<lambda>x rt. (rt, Ok (f x)))"

definition reading :: "(('s, 't) session_runtime \<Rightarrow> (command_reply, domain_error_kind) result) \<Rightarrow> ('s, 't, command_reply) handler" where
  "reading f rt = (rt, f rt)"

primrec dispatch_command :: "('s, 't) terminal_ops \<Rightarrow> resource_limits \<Rightarrow> session_id \<Rightarrow> session_command \<Rightarrow> ('s, 't, command_reply) handler" where
  "dispatch_command ops limits sid (CmdUpdateColors i n colors) = replying (\<lambda>_. ReplyUnit) (update_colors ops i n colors)"
| "dispatch_command ops limits sid (CmdPrepareAttach colors who explicit resume candidates) =
    replying (\<lambda>(i, snapshot, delta). ReplyAttached i snapshot delta) (prepare_attach ops sid who explicit resume colors candidates)"
| "dispatch_command ops limits sid (CmdDetachForRemoteResume i) = replying ReplySaved (detach_for_remote_resume ops sid i)"
| "dispatch_command ops limits sid (CmdSnapshotApplied i rn) = replying ReplySnapshot (snapshot_applied ops i rn)"
| "dispatch_command ops limits sid (CmdNextUpdate i) = replying ReplyUpdate (next_update ops i)"
| "dispatch_command ops limits sid (CmdFinalUpdate i) = replying ReplyUpdate (final_update ops i)"
| "dispatch_command ops limits sid (CmdSyncLatest i) = replying (\<lambda>s. ReplySnapshot (Some s)) (sync_latest ops i)"
| "dispatch_command ops limits sid (CmdHistoryWindow i q) = replying (\<lambda>_. ReplyUnit) (history_window ops i q)"
| "dispatch_command ops limits sid (CmdValidateHistoryController i) =
    reading (\<lambda>rt. res_bind (require_existing_visual_sync_controller i rt) (\<lambda>_. Ok ReplyUnit))"
| "dispatch_command ops limits sid (CmdAdmitUpload who i) = reading (\<lambda>rt. res_bind (admit_upload who i rt) (Ok \<circ> ReplyGeneration))"
| "dispatch_command ops limits sid (CmdWriteInput i bytes) = replying (\<lambda>_. ReplyUnit) (write_input ops i bytes)"
| "dispatch_command ops limits sid (CmdResize i size') = replying ReplyRevision (resize ops limits i size')"
| "dispatch_command ops limits sid (CmdTakeover who i key continuation) = replying (\<lambda>_. ReplyUnit) (takeover ops who i key continuation)"
| "dispatch_command ops limits sid (CmdDetachRemotePrincipal d) = replying (\<lambda>(n, b). ReplyDetached n b) (detach_remote_principal ops d)"
| "dispatch_command ops limits sid (CmdCountRemoteAttachments d) = reading (\<lambda>rt. Ok (ReplyCount (count_remote_attachments d rt)))"
| "dispatch_command ops limits sid CmdWake = reading (\<lambda>_. Ok ReplyUnit)"

subsection \<open>Starting commands and ending the session\<close>

datatype command_state = CommandQueued | CommandStarted | CommandExpired

text \<open>\<open>compare_exchange\<close> from the queued state.\<close>

definition leave_queue :: "command_state \<Rightarrow> command_state \<Rightarrow> command_state \<times> bool" where
  "leave_queue next_state gate = (if gate = CommandQueued then (next_state, True) else (gate, False))"

definition try_start :: "nat \<Rightarrow> nat \<Rightarrow> command_state \<Rightarrow> command_state \<times> bool" where
  "try_start now deadline gate =
    (if deadline \<le> now then (fst (leave_queue CommandExpired gate), False) else leave_queue CommandStarted gate)"

datatype interrupt_state = InterruptIdle | InterruptPending | InterruptReady "(unit, domain_error_kind) result"

record end_state =
  es_requested :: "session_end_reason option"
  es_interrupt :: interrupt_state
  es_result :: "(unit, domain_error_kind) result option"

definition end_state_default :: end_state where
  "end_state_default = \<lparr>es_requested = None, es_interrupt = InterruptIdle, es_result = None\<rparr>"

text \<open>The second component says whether a thread that interrupts the driver is spawned.\<close>

definition begin_end :: "session_end_reason \<Rightarrow> end_state \<Rightarrow> end_state \<times> bool" where
  "begin_end reason es =
    (if es_result es \<noteq> None then (es, False)
     else
       let es' = (if es_requested es = None then es\<lparr>es_requested := Some reason\<rparr> else es) in
       (case es_interrupt es' of
          InterruptIdle \<Rightarrow> (es'\<lparr>es_interrupt := InterruptPending\<rparr>, True)
        | InterruptReady (Err _) \<Rightarrow> (es'\<lparr>es_interrupt := InterruptPending\<rparr>, True)
        | _ \<Rightarrow> (es', False)))"

definition finish_interrupt :: "(unit, domain_error_kind) result \<Rightarrow> end_state \<Rightarrow> end_state" where
  "finish_interrupt res es = es\<lparr>es_interrupt := InterruptReady res\<rparr>"

definition ready_end_reason :: "end_state \<Rightarrow> session_end_reason option" where
  "ready_end_reason es = (if es_interrupt es = InterruptReady (Ok ()) then es_requested es else None)"

datatype command_start = StartStarted | StartExpired | StartEnding

definition try_start_command :: "end_state \<Rightarrow> nat \<Rightarrow> nat \<Rightarrow> command_state \<Rightarrow> command_state \<times> command_start" where
  "try_start_command es now deadline gate =
    (if es_requested es \<noteq> None \<or> es_result es \<noteq> None then (gate, StartEnding)
     else case try_start now deadline gate of (gate', won) \<Rightarrow> (gate', if won then StartStarted else StartExpired))"

text \<open>\<open>respond\<close>: the new gate, the runtime and the reply.\<close>

definition respond :: "end_state \<Rightarrow> nat \<Rightarrow> nat \<Rightarrow> command_state \<Rightarrow> ('s, 't, 'a) handler \<Rightarrow> ('s, 't) session_runtime \<Rightarrow>
    command_state \<times> ('s, 't) session_runtime \<times> ('a, domain_error_kind) result" where
  "respond es now deadline gate operation rt =
    (case try_start_command es now deadline gate of
       (gate', StartStarted) \<Rightarrow> (gate', operation rt)
     | (gate', StartExpired) \<Rightarrow> (gate', rt, Err DeadlineExceeded)
     | (gate', StartEnding) \<Rightarrow> (gate', rt, Err SessionNotFound))"

text \<open>What the waiting side does when its deadline passes without a reply: it answers itself if it
  takes the command out of the queue, and goes on waiting for a command that was started.\<close>

definition wait_timeout :: "command_state \<Rightarrow> command_state \<times> domain_error_kind option" where
  "wait_timeout gate =
    (case leave_queue CommandExpired gate of
       (gate', True) \<Rightarrow> (gate', Some DeadlineExceeded)
     | (gate', False) \<Rightarrow> (gate', if gate' = CommandStarted then None else Some DeadlineExceeded))"

subsection \<open>The loop of the worker\<close>

text \<open>The body of the loop in \<open>run_session_actor\<close> has three sections: reaping, looking for the end,
  receiving.  Between them other threads may act: a handle of an attachment is dropped, the session
  is asked to end, the thread that interrupts the driver returns.\<close>

datatype loop_point = AtReap | AtPoll | AtReceive | AtDone

record ('s, 't) actor_world =
  aw_runtime :: "('s, 't) session_runtime"
  aw_end :: end_state
  aw_at :: loop_point

definition actor_world_new :: "'s \<Rightarrow> terminal_size \<Rightarrow> ('s, 't) actor_world" where
  "actor_world_new shared viewport = \<lparr>aw_runtime = session_runtime_new shared viewport, aw_end = end_state_default, aw_at = AtReap\<rparr>"

datatype received = RecvCommand session_command nat nat command_state | RecvTimeout | RecvDisconnected

text \<open>What the driver and the channel answer during one turn.\<close>

record turn_input =
  ti_health :: "(unit, domain_error_kind) result"
  ti_child :: "(session_end_reason option, domain_error_kind) result"
  ti_close :: "(unit, domain_error_kind) result"
  ti_received :: received

definition poll_driver :: "turn_input \<Rightarrow> ('s, 't) session_runtime \<Rightarrow> (session_end_reason option, domain_error_kind) result" where
  "poll_driver input rt = (if \<not> rt_driver rt then Err SessionNotFound else res_bind (ti_health input) (\<lambda>_. ti_child input))"

definition finish_end :: "(unit, domain_error_kind) result \<Rightarrow> end_state \<Rightarrow> end_state" where
  "finish_end res es = es\<lparr>es_result := Some res\<rparr>"

definition worker_return :: "('s, 't) session_runtime \<times> (unit, domain_error_kind) result \<Rightarrow> ('s, 't) actor_world \<Rightarrow> ('s, 't) actor_world" where
  "worker_return out w = w\<lparr>aw_runtime := fst out, aw_end := finish_end (snd out) (aw_end w), aw_at := AtDone\<rparr>"

definition worker_poll :: "('s, 't) terminal_ops \<Rightarrow> turn_input \<Rightarrow> ('s, 't) actor_world \<Rightarrow> ('s, 't) actor_world" where
  "worker_poll ops input w =
    (let requested_or = (\<lambda>reason. case es_requested (aw_end w) of Some r \<Rightarrow> r | None \<Rightarrow> reason);
         finish = (\<lambda>reason. worker_return (finish_runtime ops reason (aw_runtime w)) w) in
     case ready_end_reason (aw_end w) of
       Some reason \<Rightarrow> finish reason
     | None \<Rightarrow>
         (case poll_driver input (aw_runtime w) of
            Ok (Some reason) \<Rightarrow> finish (requested_or reason)
          | Ok None \<Rightarrow> w\<lparr>aw_at := AtReceive\<rparr>
          | Err _ \<Rightarrow>
              if rt_driver (aw_runtime w) \<and> is_ok (ti_close input) then finish (requested_or DriverFailure)
              else w\<lparr>aw_at := AtReceive\<rparr>))"

definition worker_receive :: "('s, 't) terminal_ops \<Rightarrow> resource_limits \<Rightarrow> session_id \<Rightarrow> received \<Rightarrow> ('s, 't) actor_world \<Rightarrow>
    ('s, 't) actor_world \<times> (command_reply, domain_error_kind) result option" where
  "worker_receive ops limits sid message w =
    (case message of
       RecvCommand cmd now deadline gate \<Rightarrow>
         if cmd = CmdWake then (w\<lparr>aw_at := AtReap\<rparr>, None)
         else (case respond (aw_end w) now deadline gate (dispatch_command ops limits sid cmd) (aw_runtime w) of
                 (_, rt, res) \<Rightarrow> (w\<lparr>aw_runtime := rt, aw_at := AtReap\<rparr>, Some res))
     | RecvTimeout \<Rightarrow> (w\<lparr>aw_at := AtReap\<rparr>, None)
     | RecvDisconnected \<Rightarrow> (worker_return (finish_runtime ops DaemonStop (aw_runtime w)) w, None))"

definition run_session_actor :: "('s, 't) terminal_ops \<Rightarrow> resource_limits \<Rightarrow> session_id \<Rightarrow> turn_input \<Rightarrow> ('s, 't) actor_world \<Rightarrow>
    ('s, 't) actor_world \<times> (command_reply, domain_error_kind) result option" where
  "run_session_actor ops limits sid input w =
    (case aw_at w of
       AtReap \<Rightarrow>
         (case reap_detached ops (aw_runtime w) of
            (rt, Ok _) \<Rightarrow> (w\<lparr>aw_runtime := rt, aw_at := AtPoll\<rparr>, None)
          | (rt, Err e) \<Rightarrow> (worker_return (rt, Err e) w, None))
     | AtPoll \<Rightarrow> (worker_poll ops input w, None)
     | AtReceive \<Rightarrow> worker_receive ops limits sid (ti_received input) w
     | AtDone \<Rightarrow> (w, None))"

datatype actor_event =
    ActWorker turn_input
  | ActHandleDropped attachment_id
  | ActBeginEnd session_end_reason
  | ActInterrupted "(unit, domain_error_kind) result"

definition mark_detached :: "attachment_id \<Rightarrow> ('s, 't) session_runtime \<Rightarrow> ('s, 't) session_runtime" where
  "mark_detached i rt =
    (case bt_get (rt_attachments rt) i of
       None \<Rightarrow> rt
     | Some a \<Rightarrow> put_attachment i (a\<lparr>aa_detached := True\<rparr>) rt)"

text \<open>The thread that interrupts the driver exists while the interrupt is pending.\<close>

primrec actor_step :: "('s, 't) terminal_ops \<Rightarrow> resource_limits \<Rightarrow> session_id \<Rightarrow> ('s, 't) actor_world \<Rightarrow> actor_event \<Rightarrow>
    ('s, 't) actor_world \<times> (command_reply, domain_error_kind) result option" where
  "actor_step ops limits sid w (ActWorker input) = run_session_actor ops limits sid input w"
| "actor_step ops limits sid w (ActHandleDropped i) = (w\<lparr>aw_runtime := mark_detached i (aw_runtime w)\<rparr>, None)"
| "actor_step ops limits sid w (ActBeginEnd reason) = (w\<lparr>aw_end := fst (begin_end reason (aw_end w))\<rparr>, None)"
| "actor_step ops limits sid w (ActInterrupted res) =
    (if es_interrupt (aw_end w) = InterruptPending then w\<lparr>aw_end := finish_interrupt res (aw_end w)\<rparr> else w, None)"

end
