(* ===== verification/Session_Control.thy ===== *)
theory Session_Control
  imports Session_Actor Traces
begin

section \<open>The controller of a session\<close>

text \<open>
  What the runtime of a session guarantees to the clients attached to it, over every interleaving of
  the worker with dropped handles and requests to end the session, and for every behaviour of the
  terminal behind it; only the two progress results, about takeover and the end of a session, assume
  that the terminal answers.

    \<^item> \<open>control_inv\<close>: the driver is there, the controller lease names an attachment that is active with the generation of
      the lease, no other attachment is active, at most one takeover is pending, and an attachment is
      active only after it has applied a snapshot.
    \<^item> \<open>lease_step\<close>: a lease that was not held before has a generation that was never issued.
    \<^item> \<open>evolves\<close> joins the two.  It is reflexive and transitive, so a handler is shown to evolve the
      runtime section by section, and the worker handler by handler.
\<close>

subsection \<open>The invariant\<close>

text \<open>What an attachment has applied is what its state claims.\<close>

definition attachment_ok :: "'t actor_attachment \<Rightarrow> bool" where
  "attachment_ok a \<longleftrightarrow>
    ((\<exists>g. aa_sync a = SyncActive g) \<or> aa_sync a = SyncPrepared \<or> aa_ever_active a \<or> aa_prepared_snapshot_applied a \<longrightarrow>
      aa_applied_snapshot_revision a \<noteq> None)"

definition active_at :: "('s, 't) session_runtime \<Rightarrow> attachment_id \<Rightarrow> nat option" where
  "active_at rt i = (case bt_get (rt_attachments rt) i of None \<Rightarrow> None | Some a \<Rightarrow> active_generation (aa_sync a))"

definition pending_at :: "('s, 't) session_runtime \<Rightarrow> attachment_id \<Rightarrow> bool" where
  "pending_at rt i = (case bt_get (rt_attachments rt) i of None \<Rightarrow> False | Some a \<Rightarrow> pending_sync (aa_sync a))"

definition control_inv :: "('s, 't) session_runtime \<Rightarrow> bool" where
  "control_inv rt \<longleftrightarrow>
    rt_driver rt \<and>
    bt_wf (rt_attachments rt) \<and>
    (\<forall>i a. bt_get (rt_attachments rt) i = Some a \<longrightarrow> attachment_ok a) \<and>
    (\<forall>i g. active_at rt i = Some g \<longleftrightarrow> rt_controller rt = Some \<lparr>lease_attachment_id = i, lease_generation = g\<rparr>) \<and>
    (\<forall>c. rt_controller rt = Some c \<longrightarrow> lease_generation c \<le> rt_next_generation rt) \<and>
    rt_next_generation rt \<le> U64_MAX \<and>
    (\<forall>i j. pending_at rt i \<and> pending_at rt j \<longrightarrow> i = j)"

definition lease_step :: "('s, 't) session_runtime \<Rightarrow> ('s, 't) session_runtime \<Rightarrow> bool" where
  "lease_step rt rt' \<longleftrightarrow>
    rt_next_generation rt \<le> rt_next_generation rt' \<and>
    (\<forall>c. rt_controller rt' = Some c \<longrightarrow> rt_controller rt = Some c \<or> rt_next_generation rt < lease_generation c)"

definition evolves :: "('s, 't) session_runtime \<Rightarrow> ('s, 't) session_runtime \<Rightarrow> bool" where
  "evolves rt rt' \<longleftrightarrow> (control_inv rt \<longrightarrow> control_inv rt' \<and> lease_step rt rt')"

lemma evolves_refl [simp]: "evolves rt rt"
  by (simp add: evolves_def lease_step_def)

lemma lease_step_trans: "lease_step rt rt' \<Longrightarrow> lease_step rt' rt'' \<Longrightarrow> lease_step rt rt''"
  unfolding lease_step_def by (meson le_less_trans order_trans)

lemma evolves_trans: "evolves rt rt' \<Longrightarrow> evolves rt' rt'' \<Longrightarrow> evolves rt rt''"
  unfolding evolves_def by (blast intro: lease_step_trans)

lemma evolves_and_then:
  assumes "evolves rt (fst (m rt))"
    and "\<And>x rt'. m rt = (rt', Ok x) \<Longrightarrow> evolves rt' (fst (f x rt'))"
  shows "evolves rt (fst (and_then m f rt))"
proof (cases "m rt")
  case (Pair rt' res)
  show ?thesis
  proof (cases res)
    case (Ok x)
    show ?thesis using assms(1) assms(2)[of rt' x] evolves_trans by (auto simp: Pair Ok and_then_def)
  next
    case (Err e)
    show ?thesis using assms(1) by (simp add: Pair Err and_then_def)
  qed
qed

text \<open>Only the attachments and the lease matter.\<close>

lemma evolves_frame:
  assumes "rt_attachments rt' = rt_attachments rt" "rt_controller rt' = rt_controller rt"
    "rt_next_generation rt' = rt_next_generation rt" "rt_driver rt' = rt_driver rt"
  shows "evolves rt rt'"
  using assms by (simp add: evolves_def control_inv_def lease_step_def active_at_def pending_at_def)

lemma evolves_with_driver: "evolves rt (fst (with_driver call rt))"
  by (rule evolves_frame) (simp_all add: with_driver_def split: prod.split)

lemma evolves_update_cached: "evolves rt (update_cached b rt)"
  by (rule evolves_frame) (simp_all add: update_cached_def)

lemma evolves_send: "evolves rt (send_lifecycle i l rt)"
  by (rule evolves_frame) (simp_all add: send_lifecycle_def)

lemma evolves_views:
  assumes "bt_wf (rt_attachments rt) \<Longrightarrow> bt_wf (rt_attachments rt')"
    and "\<And>i. active_at rt' i = active_at rt i" "\<And>i. pending_at rt' i = pending_at rt i"
    and "(\<forall>i a. bt_get (rt_attachments rt) i = Some a \<longrightarrow> attachment_ok a) \<Longrightarrow>
      (\<forall>i a. bt_get (rt_attachments rt') i = Some a \<longrightarrow> attachment_ok a)"
    and "rt_controller rt' = rt_controller rt" "rt_next_generation rt' = rt_next_generation rt" "rt_driver rt' = rt_driver rt"
  shows "evolves rt rt'"
  unfolding evolves_def control_inv_def lease_step_def assms(2,3,5,6,7) using assms(1,4) by auto

text \<open>An attachment replaced by one with the same standing.\<close>

lemma evolves_put:
  assumes "bt_get (rt_attachments rt) i = Some a"
    and "active_generation (aa_sync a') = active_generation (aa_sync a)" "pending_sync (aa_sync a') = pending_sync (aa_sync a)"
    and "attachment_ok a \<Longrightarrow> attachment_ok a'"
  shows "evolves rt (put_attachment i a' rt)"
  by (rule evolves_views) (use assms in \<open>auto simp: put_attachment_def active_at_def pending_at_def\<close>)

lemma map_of_values: "map_of (map (\<lambda>(i, a). (i, f i a)) m) k = map_option (f k) (map_of m k)"
  by (induction m) auto

lemma bt_wf_values: "bt_wf (map (\<lambda>(i, a). (i, f i a)) m) = bt_wf m"
  by (simp add: bt_wf_def comp_def case_prod_beta)

lemma evolves_cancel_histories: "evolves rt (cancel_histories ops target rt)"
  by (rule evolves_views)
    (auto simp: cancel_histories_def bt_wf_values active_at_def pending_at_def map_of_values attachment_ok_def
      split: option.split)

lemma evolves_reconcile: "evolves rt (fst (reconcile_effect_target ops rt))"
  unfolding reconcile_effect_target_def by (rule evolves_trans[OF evolves_cancel_histories evolves_with_driver])

lemma evolves_reconciled:
  "(\<And>rt'. evolves rt' (fst (k rt'))) \<Longrightarrow> evolves rt (fst (and_then (reconcile_effect_target ops) (\<lambda>_. k) rt))"
  by (rule evolves_and_then[OF evolves_reconcile])

subsection \<open>Detaching\<close>

lemma control_invD:
  assumes "control_inv rt"
  shows "bt_wf (rt_attachments rt)" "bt_get (rt_attachments rt) i = Some a \<Longrightarrow> attachment_ok a"
    "active_at rt i = Some g \<longleftrightarrow> rt_controller rt = Some \<lparr>lease_attachment_id = i, lease_generation = g\<rparr>"
    "rt_controller rt = Some c \<Longrightarrow> lease_generation c \<le> rt_next_generation rt"
    "rt_next_generation rt \<le> U64_MAX" "pending_at rt i \<Longrightarrow> pending_at rt j \<Longrightarrow> i = j" "rt_driver rt"
  using assms unfolding control_inv_def by blast+

lemma active_is_controller:
  assumes "control_inv rt"
  shows "active_at rt i = (case rt_controller rt of None \<Rightarrow> None
    | Some c \<Rightarrow> if lease_attachment_id c = i then Some (lease_generation c) else None)"
proof (cases "active_at rt i")
  case None
  have "rt_controller rt \<noteq> Some c" if at: "lease_attachment_id c = i" for c
    using control_invD(3)[OF assms, of i "lease_generation c"] None at by (cases c) auto
  then show ?thesis using None by (auto split: option.split)
next
  case (Some g)
  then show ?thesis using control_invD(3)[OF assms, of i g] by simp
qed

lemma drop_views:
  "active_at (drop_attachment i rt) j = (if j = i then None else active_at rt j)"
  "pending_at (drop_attachment i rt) j = (j \<noteq> i \<and> pending_at rt j)"
  "rt_next_generation (drop_attachment i rt) = rt_next_generation rt" "rt_driver (drop_attachment i rt) = rt_driver rt"
  "rt_attachments (drop_attachment i rt) = bt_remove i (rt_attachments rt)"
  "rt_controller (drop_attachment i rt) = (if map_option lease_attachment_id (rt_controller rt) = Some i then None else rt_controller rt)"
  by (auto simp: drop_attachment_def active_at_def pending_at_def Let_def)

lemma evolves_drop: "evolves rt (drop_attachment i rt)"
  unfolding evolves_def
proof (intro impI conjI)
  assume inv: "control_inv rt"
  show "lease_step rt (drop_attachment i rt)" by (simp add: lease_step_def drop_views)
  have act: "active_at (drop_attachment i rt) j = Some g \<longleftrightarrow>
      rt_controller (drop_attachment i rt) = Some \<lparr>lease_attachment_id = j, lease_generation = g\<rparr>" for j g
    using control_invD(3)[OF inv, of j g] by (auto simp: drop_views)
  show "control_inv (drop_attachment i rt)"
    unfolding control_inv_def using act control_invD[OF inv] by (auto simp: drop_views split: if_splits)
qed

lemma evolves_fold_drop: "evolves rt (fold drop_attachment is rt)"
  by (induction "is" arbitrary: rt) (auto intro: evolves_trans[OF evolves_drop])

lemma evolves_published:
  "evolves rt rt' \<Longrightarrow> evolves rt (fst (and_then (reconcile_effect_target ops) (\<lambda>_ rt. (update_cached False rt, Ok x)) rt'))"
  by (rule evolves_trans, assumption, rule evolves_reconciled) (simp add: evolves_update_cached)

lemma evolves_reap: "evolves rt (fst (reap_detached ops rt))"
  by (simp add: reap_detached_def Let_def evolves_published evolves_fold_drop)

lemma evolves_resume: "evolves rt (rt\<lparr>rt_resume := c\<rparr>)"
  by (rule evolves_frame) simp_all

lemma evolves_detach_remote: "evolves rt (fst (detach_remote_principal ops d rt))"
proof -
  have "evolves rt (fold drop_attachment xs (if b then rt\<lparr>rt_resume := None\<rparr> else rt))" for xs b
    by (rule evolves_trans[OF _ evolves_fold_drop]) (simp add: evolves_resume)
  then show ?thesis
    unfolding detach_remote_principal_def Let_def
    by (cases "rt_resume rt") (simp_all add: evolves_published evolves_fold_drop)
qed

lemma evolves_detach_resume: "evolves rt (fst (detach_for_remote_resume ops sid i rt))"
  unfolding detach_for_remote_resume_def Let_def
  by (cases "bt_get (rt_attachments rt) i")
    (simp_all add: evolves_published evolves_trans[OF evolves_drop evolves_resume])

subsection \<open>Attaching\<close>

text \<open>A new attachment under a fresh identity, with the lease when nobody holds it.\<close>

lemma fresh_attachment_evolves:
  assumes fresh: "bt_get (rt_attachments rt) i = None" and ok: "attachment_ok a"
    and vacant: "rt_controller rt = None" and next_g: "checked_add U64_MAX (rt_next_generation rt) 1 = Some g"
    and sync: "active_generation (aa_sync a) = Some g" "\<not> pending_sync (aa_sync a)"
    and new: "rt_attachments rt' = bt_insert i a (rt_attachments rt)"
      "rt_controller rt' = Some \<lparr>lease_attachment_id = i, lease_generation = g\<rparr>" "rt_next_generation rt' = g" "rt_driver rt' = rt_driver rt"
  shows "evolves rt rt'"
  unfolding evolves_def
proof (intro impI conjI)
  assume inv: "control_inv rt"
  show "lease_step rt rt'" using next_g by (simp add: lease_step_def new)
  have none: "active_at rt j = None" for j using active_is_controller[OF inv] by (simp add: vacant)
  have act: "active_at rt' j = (if j = i then Some g else None)" for j
    using sync none[of j] by (auto simp: active_at_def new)
  have pend: "pending_at rt' j = pending_at rt j" for j
    using sync fresh by (auto simp: pending_at_def new)
  have oks: "bt_get (rt_attachments rt') j = Some b \<Longrightarrow> attachment_ok b" for j b
    using ok control_invD(2)[OF inv] by (auto simp: new split: if_splits)
  show "control_inv rt'"
    unfolding control_inv_def
    using act pend oks control_invD[OF inv] next_g by (auto simp: new)
qed

lemma pending_attachment_evolves:
  assumes ok: "attachment_ok a" and none: "\<And>j. \<not> pending_at rt j" and fresh: "bt_get (rt_attachments rt) i = None"
    and sync: "active_generation (aa_sync a) = None"
    and new: "rt_attachments rt' = bt_insert i a (rt_attachments rt)" "rt_controller rt' = rt_controller rt"
      "rt_next_generation rt' = rt_next_generation rt" "rt_driver rt' = rt_driver rt"
  shows "evolves rt rt'"
  unfolding evolves_def
proof (intro impI conjI)
  assume inv: "control_inv rt"
  show "lease_step rt rt'" by (simp add: lease_step_def new)
  have act: "active_at rt' j = active_at rt j" for j using sync fresh by (auto simp: active_at_def new)
  have pend: "pending_at rt' j \<Longrightarrow> j = i" for j using none[of j] by (auto simp: pending_at_def new split: if_splits)
  have oks: "bt_get (rt_attachments rt') j = Some b \<Longrightarrow> attachment_ok b" for j b
    using ok control_invD(2)[OF inv] by (auto simp: new split: if_splits)
  have one: "\<forall>j k. pending_at rt' j \<and> pending_at rt' k \<longrightarrow> j = k" using pend by blast
  show "control_inv rt'"
    unfolding control_inv_def act using one oks control_invD(1,3,4,5,7)[OF inv] by (auto simp: new)
qed

lemma next_attachment_id_fresh: "next_attachment_id rt candidates = Ok i \<Longrightarrow> bt_get (rt_attachments rt) i = None"
  by (auto simp: next_attachment_id_def find_Some_iff)

lemma attach_admission_fresh: "attach_admission who explicit resume candidates rt = Ok i \<Longrightarrow> bt_get (rt_attachments rt) i = None"
  by (auto simp: attach_admission_def next_attachment_id_fresh split: option.splits if_splits)

lemma attach_admission_exclusive:
  assumes "attach_admission who explicit resume candidates rt = Ok i" "rt_controller rt \<noteq> None"
  shows "\<not> pending_at rt j"
proof -
  have none: "\<not> list_ex (\<lambda>(i, a). pending_sync (aa_sync a)) (rt_attachments rt)"
    using assms by (auto simp: attach_admission_def split: option.splits if_splits)
  show ?thesis
  proof (cases "bt_get (rt_attachments rt) j")
    case (Some a)
    then have "(j, a) \<in> set (rt_attachments rt)" by (rule map_of_SomeD)
    then show ?thesis using none Some by (auto simp: list_ex_iff pending_at_def)
  qed (simp add: pending_at_def)
qed

lemma with_driver_frame:
  "rt_attachments (fst (with_driver call rt)) = rt_attachments rt" "rt_controller (fst (with_driver call rt)) = rt_controller rt"
  "rt_next_generation (fst (with_driver call rt)) = rt_next_generation rt" "rt_driver (fst (with_driver call rt)) = rt_driver rt"
  by (simp_all add: with_driver_def split: prod.split)

lemma with_driver_frame_eq:
  assumes "with_driver call rt = (rt', res)"
  shows "rt_attachments rt' = rt_attachments rt" "rt_controller rt' = rt_controller rt"
    "rt_next_generation rt' = rt_next_generation rt" "rt_driver rt' = rt_driver rt"
  using with_driver_frame[of call rt] by (simp_all add: assms)

lemma attach_colors_frame:
  "rt_attachments (fst (attach_colors ops colors rt)) = rt_attachments rt" "rt_controller (fst (attach_colors ops colors rt)) = rt_controller rt"
  "rt_next_generation (fst (attach_colors ops colors rt)) = rt_next_generation rt"
  "rt_driver (fst (attach_colors ops colors rt)) = rt_driver rt"
  by (auto simp: attach_colors_def and_then_def split: prod.split result.split dest: with_driver_frame_eq)

lemma new_attachment_ok: "attachment_ok (new_attachment colors who view t rn target)"
  by (simp add: attachment_ok_def new_attachment_def)

text \<open>The lease and the attachment are installed together.\<close>

lemma installed_evolves:
  assumes "attach_target i rt = (rt3, Ok target)"
    and fresh: "bt_get (rt_attachments rt) i = None" and excl: "rt_controller rt \<noteq> None \<Longrightarrow> (\<forall>j. \<not> pending_at rt j)"
  shows "evolves rt (put_attachment i (new_attachment colors who view t rn target) rt3)"
proof (cases "rt_controller rt")
  case None
  then obtain g where g: "checked_add U64_MAX (rt_next_generation rt) 1 = Some g" and target: "target = TargetActive g"
    and rt3: "rt3 = rt\<lparr>rt_next_generation := g, rt_controller := Some \<lparr>lease_attachment_id = i, lease_generation = g\<rparr>,
      rt_controller_operation := None\<rparr>"
    using assms(1) by (auto simp: attach_target_def split: option.splits)
  show ?thesis
    by (rule fresh_attachment_evolves[OF fresh new_attachment_ok None g])
      (simp_all add: new_attachment_def target pending_sync_def rt3 put_attachment_def)
next
  case (Some c)
  then have target: "target = TargetPrepared" and rt3: "rt3 = rt" using assms(1) by (auto simp: attach_target_def)
  show ?thesis
    by (rule pending_attachment_evolves[OF new_attachment_ok _ fresh])
      (use excl Some in \<open>simp_all add: new_attachment_def target rt3 put_attachment_def\<close>)
qed

lemma attach_target_Err: "attach_target i rt = (rt3, Err e) \<Longrightarrow> rt3 = rt"
  by (auto simp: attach_target_def split: if_splits option.splits)

lemma evolves_install:
  assumes "bt_get (rt_attachments rt) i = None" "rt_controller rt \<noteq> None \<Longrightarrow> (\<forall>j. \<not> pending_at rt j)"
  shows "evolves rt (fst (and_then (attach_target i) (\<lambda>target rt3.
    and_then (reconcile_effect_target ops) (\<lambda>_ rt5. (update_cached False rt5, Ok x))
      (send_lifecycle i l (put_attachment i (new_attachment colors who view t rn target) rt3))) rt))"
proof (cases "attach_target i rt")
  case (Pair rt3 res)
  show ?thesis
  proof (cases res)
    case (Ok target)
    have "evolves rt (send_lifecycle i l (put_attachment i (new_attachment colors who view t rn target) rt3))"
      by (rule evolves_trans[OF installed_evolves evolves_send]) (use assms Pair Ok in auto)
    then have "evolves rt (fst (and_then (reconcile_effect_target ops) (\<lambda>_ rt5. (update_cached False rt5, Ok x))
      (send_lifecycle i l (put_attachment i (new_attachment colors who view t rn target) rt3))))"
      by (rule evolves_published)
    then show ?thesis by (simp add: and_then_def[of "attach_target i"] Pair Ok)
  qed (use Pair in \<open>auto simp: and_then_def dest: attach_target_Err\<close>)
qed

lemma evolves_prepared:
  assumes adm: "attach_admission who explicit resume candidates rt1 = Ok i"
  shows "evolves rt1 (fst (and_then (attach_colors ops base_colors) (\<lambda>_ rt2.
          let t = (case resumed of Some t \<Rightarrow> t | None \<Rightarrow> to_attach ops (rt_shared rt2)) in
          case initial_state ops (rt_shared rt2) (resume \<noteq> None) t of
            (_, Err e) \<Rightarrow> (rt2, Err e)
          | (t', Ok (snapshot, delta, rn)) \<Rightarrow>
            and_then (attach_target i) (\<lambda>target rt3.
              let rt4 = put_attachment i (new_attachment base_colors who (map_option rr_view_id resume) t' rn target) rt3 in
              and_then (reconcile_effect_target ops) (\<lambda>_ rt5. (update_cached False rt5, Ok (i, snapshot, delta)))
                (send_lifecycle i (LifecycleAwaiting rn) rt4)) rt2) rt1))"
proof (rule evolves_and_then, goal_cases)
  case 1
  show ?case by (rule evolves_frame) (simp_all add: attach_colors_frame)
next
  case (2 x rt2)
  have same: "rt_attachments rt2 = rt_attachments rt1" "rt_controller rt2 = rt_controller rt1"
    using attach_colors_frame[of ops base_colors rt1] by (simp_all add: 2)
  have fresh: "bt_get (rt_attachments rt2) i = None" using attach_admission_fresh[OF adm] by (simp add: same)
  have excl: "rt_controller rt2 \<noteq> None \<Longrightarrow> (\<forall>j. \<not> pending_at rt2 j)"
    using attach_admission_exclusive[OF adm] by (simp add: same pending_at_def)
  show ?case
    unfolding Let_def by (auto split: prod.split result.split intro!: evolves_install fresh) (use excl in blast)
qed

lemma evolves_prepare_attach: "evolves rt (fst (prepare_attach ops sid who explicit resume base_colors candidates rt))"
  unfolding prepare_attach_def
proof (rule evolves_and_then[OF evolves_reap], goal_cases)
  case (1 x rt')
  show ?case
  proof (cases "attach_admission who explicit resume candidates (rt'\<lparr>rt_resume := None\<rparr>)")
    case (Ok i)
    then show ?thesis
      using evolves_trans[OF evolves_resume evolves_prepared[OF Ok]] by (simp add: take_resume_terminal_def)
  qed (simp add: take_resume_terminal_def evolves_resume)
qed

subsection \<open>Synchronization and the operations of the controller\<close>

lemma active_sync_target:
  "active_generation (SyncAwaiting rn (sync_target_of s)) = active_generation s"
  "pending_sync (SyncAwaiting rn (sync_target_of s)) = pending_sync s"
  by (cases s; simp add: pending_sync_def split: sync_target.split; cases "sync_target_of s"; simp)+

lemma evolves_awaiting:
  assumes at: "bt_get (rt_attachments rt) i = Some a"
    and sync: "aa_sync a' = SyncAwaiting rn (sync_target_of (aa_sync a))"
    and same: "aa_ever_active a' = aa_ever_active a" "aa_prepared_snapshot_applied a' = aa_prepared_snapshot_applied a"
      "aa_applied_snapshot_revision a' = aa_applied_snapshot_revision a"
    and k: "\<And>rt'. evolves rt' (fst (k rt'))"
  shows "evolves rt (fst (and_then (reconcile_effect_target ops) (\<lambda>_. k) (send_lifecycle i l (put_attachment i a' rt))))"
proof -
  have "evolves rt (put_attachment i a' rt)"
    by (rule evolves_put[OF at]) (simp_all only: sync active_sync_target, simp add: attachment_ok_def sync same)
  then show ?thesis using evolves_reconciled[OF k] evolves_send evolves_trans by blast
qed

lemma evolves_terminal:
  assumes "bt_get (rt_attachments rt) i = Some a" "aa_sync a' = aa_sync a" "aa_ever_active a' = aa_ever_active a"
    "aa_prepared_snapshot_applied a' = aa_prepared_snapshot_applied a"
    "aa_applied_snapshot_revision a' = aa_applied_snapshot_revision a"
  shows "evolves rt (put_attachment i a' rt)"
  by (rule evolves_put[OF assms(1)]) (simp_all add: assms(2-) attachment_ok_def)

lemma evolves_applied:
  assumes at: "bt_get (rt_attachments rt) i = Some a" and sync: "aa_sync a = SyncAwaiting rn target"
    and sync': "aa_sync a' = (case target of TargetActive g \<Rightarrow> SyncActive g | TargetPrepared \<Rightarrow> SyncPrepared)"
    and applied: "aa_applied_snapshot_revision a' \<noteq> None"
  shows "evolves rt (fst (and_then (reconcile_effect_target ops) (\<lambda>_ rt'. (send_lifecycle i l rt', Ok x)) (put_attachment i a' rt)))"
proof -
  have "evolves rt (put_attachment i a' rt)"
    by (rule evolves_put[OF at]) (use applied in \<open>auto simp: sync sync' pending_sync_def attachment_ok_def split: sync_target.split\<close>)
  then show ?thesis by (rule evolves_trans) (rule evolves_reconciled, simp add: evolves_send)
qed

lemma evolves_snapshot_applied: "evolves rt (fst (snapshot_applied ops i rn rt))"
proof (cases "bt_get (rt_attachments rt) i")
  case None
  then show ?thesis by (simp add: snapshot_applied_def)
next
  case (Some a)
  show ?thesis
  proof (cases "aa_sync a")
    case (SyncAwaiting expected target)
    show ?thesis
    proof (cases "rn = expected")
      case True
      show ?thesis
        by (cases target) (simp_all add: snapshot_applied_def Some SyncAwaiting True evolves_applied[OF Some SyncAwaiting])
    next
      case False
      have "evolves rt (put_attachment i (a\<lparr>aa_pending_color_snapshot := None, aa_terminal := t\<rparr>) rt)" for t
        by (rule evolves_terminal[OF Some]) simp_all
      moreover have "evolves rt (fst (and_then (reconcile_effect_target ops) (\<lambda>_ rt'. (rt', Ok (Some snapshot)))
        (send_lifecycle i (LifecycleAwaiting (ss_revision snapshot)) (put_attachment i (a\<lparr>aa_pending_color_snapshot := None, aa_terminal := t,
          aa_sync := SyncAwaiting (ss_revision snapshot) target\<rparr>) rt))))" for t and snapshot :: surface_snapshot
        by (rule evolves_awaiting[OF Some]) (simp_all add: SyncAwaiting)
      ultimately show ?thesis
        by (simp add: snapshot_applied_def Some SyncAwaiting False split: prod.split result.split)
    qed
  qed (simp_all add: snapshot_applied_def Some)
qed

lemma evolves_next_update: "evolves rt (fst (next_update ops i rt))"
proof (cases "bt_get (rt_attachments rt) i")
  case (Some a)
  have "evolves rt (put_attachment i (a\<lparr>aa_terminal := t\<rparr>) rt)" "evolves rt (put_attachment i (a\<lparr>aa_pending_color_snapshot := None\<rparr>) rt)" for t
    by (rule evolves_terminal[OF Some]; simp)+
  moreover have "evolves rt (fst (and_then (reconcile_effect_target ops) (\<lambda>_ rt'. (rt', Ok (Some (UpdateSnapshot snapshot))))
    (send_lifecycle i (LifecycleAwaiting (ss_revision snapshot)) (put_attachment i (a\<lparr>aa_terminal := t,
      aa_sync := SyncAwaiting (ss_revision snapshot) (sync_target_of (aa_sync a))\<rparr>) rt))))" for t and snapshot :: surface_snapshot
    by (rule evolves_awaiting[OF Some]) simp_all
  ultimately show ?thesis
    by (cases "aa_sync a"; cases "aa_pending_color_snapshot a")
      (auto simp: next_update_def Some split: option.split prod.split result.split delta_result.split)
qed (simp add: next_update_def)

lemma evolves_sync_latest: "evolves rt (fst (sync_latest ops i rt))"
proof (cases "bt_get (rt_attachments rt) i")
  case (Some a)
  have "evolves rt (put_attachment i (a\<lparr>aa_pending_color_snapshot := None, aa_terminal := t\<rparr>) rt)" for t
    by (rule evolves_terminal[OF Some]) simp_all
  moreover have "evolves rt (fst (and_then (reconcile_effect_target ops) (\<lambda>_ rt'. (rt', Ok snapshot))
    (send_lifecycle i (LifecycleAwaiting (ss_revision snapshot)) (put_attachment i (a\<lparr>aa_pending_color_snapshot := None, aa_terminal := t,
      aa_sync := SyncAwaiting (ss_revision snapshot) (sync_target_of (aa_sync a))\<rparr>) rt))))" for t and snapshot :: surface_snapshot
    by (rule evolves_awaiting[OF Some]) simp_all
  ultimately show ?thesis by (simp add: sync_latest_def Some split: prod.split result.split)
qed (simp add: sync_latest_def)

lemma evolves_final_update: "evolves rt (fst (final_update ops i rt))"
  by (auto simp: final_update_def split: option.split prod.split intro: evolves_terminal)

lemma evolves_history_window: "evolves rt (fst (history_window ops i q rt))"
  by (auto simp: history_window_def split: option.split prod.split result.split intro: evolves_terminal)

lemma evolves_write_input: "evolves rt (fst (write_input ops i bytes rt))"
  by (simp add: write_input_def evolves_with_driver split: result.split)

lemma evolves_resize: "evolves rt (fst (resize ops limits i size' rt))"
proof -
  have "evolves rt' (update_cached False (rt'\<lparr>rt_viewport := v, rt_last_revision := rn\<rparr>))" for rt' :: "('a, 'b) session_runtime" and v rn
    by (rule evolves_frame) (simp_all add: update_cached_def)
  then show ?thesis by (auto simp: resize_def split: result.split intro!: evolves_and_then evolves_with_driver)
qed

lemma evolves_update_colors: "evolves rt (fst (update_colors ops i n colors rt))"
proof -
  have "evolves rt' (update_cached False (put_attachment i (a\<lparr>aa_base_colors := colors, aa_color_sequence := n\<rparr>) rt'))"
    if at: "bt_get (rt_attachments rt) i = Some a" and call: "with_driver (to_update_base_colors ops colors) rt = (rt', Ok x)"
    for a rt' x
    by (rule evolves_trans[OF evolves_terminal evolves_update_cached]) (use at with_driver_frame_eq[OF call] in simp_all)
  then show ?thesis
    by (auto simp: update_colors_def split: option.split result.split intro!: evolves_and_then evolves_with_driver)
qed

subsection \<open>Takeover\<close>

text \<open>The lease moves to \<open>i\<close>: the old controller is removed and the new attachment is the only active
  one.\<close>

lemma moved_lease_evolves:
  assumes inv: "control_inv rt" and at: "bt_get (rt_attachments rt) i = Some a"
    and next_g: "checked_add U64_MAX (rt_next_generation rt) 1 = Some g"
    and sync: "active_generation (aa_sync a') = Some g" "\<not> pending_sync (aa_sync a')" and ok: "attachment_ok a'"
    and new: "rt_attachments rt' = bt_insert i a' (rt_attachments (fst (drop_old_controller i rt)))"
      "rt_controller rt' = Some \<lparr>lease_attachment_id = i, lease_generation = g\<rparr>" "rt_next_generation rt' = g" "rt_driver rt' = rt_driver rt"
  shows "control_inv rt' \<and> lease_step rt rt'"
proof (intro conjI)
  show "lease_step rt rt'" using next_g by (simp add: lease_step_def new)
  have get: "bt_get (rt_attachments rt') j = (if j = i then Some a' else
      if map_option lease_attachment_id (rt_controller rt) = Some j then None else bt_get (rt_attachments rt) j)" for j
    by (auto simp: new drop_old_controller_def split: option.split)
  have "active_at rt j = None" if "map_option lease_attachment_id (rt_controller rt) \<noteq> Some j" for j
    using that active_is_controller[OF inv, of j] by (auto split: option.splits)
  then have act: "active_at rt' j = (if j = i then Some g else None)" for j
    using sync by (auto simp: active_at_def get split: if_splits option.splits)
  have pend: "pending_at rt' j \<Longrightarrow> pending_at rt j" for j
    using sync by (auto simp: pending_at_def get split: if_splits option.splits)
  have oks: "bt_get (rt_attachments rt') j = Some b \<Longrightarrow> attachment_ok b" for j b
    using ok control_invD(2)[OF inv] by (auto simp: get split: if_splits)
  have one: "pending_at rt' j \<Longrightarrow> pending_at rt' k \<Longrightarrow> j = k" for j k
    using pend control_invD(6)[OF inv] by blast
  have wf: "bt_wf (rt_attachments rt')" using control_invD(1)[OF inv] by (simp add: new drop_old_controller_def split: option.split)
  show "control_inv rt'"
    unfolding control_inv_def using act oks one wf next_g control_invD(7)[OF inv] by (auto simp: new)
qed

lemma takeover_sync_views:
  assumes "takeover_prepared a" "attachment_ok a"
  shows "active_generation (aa_sync (takeover_sync g a)) = Some g" "\<not> pending_sync (aa_sync (takeover_sync g a))"
    "attachment_ok (takeover_sync g a)" "aa_applied_snapshot_revision (takeover_sync g a) = aa_applied_snapshot_revision a"
    "aa_applied_snapshot_revision a \<noteq> None"
  using assms
  by (auto simp: takeover_prepared_def takeover_sync_def attachment_ok_def pending_sync_def
      split: attachment_sync.splits sync_target.splits)

lemma takeover_colors_puts:
  assumes prep: "takeover_prepared a" "attachment_ok a" and run: "takeover_colors ops i g changed a rt = (rt', res)"
  obtains a' where "rt_attachments rt' = bt_insert i a' (rt_attachments rt)" "rt_controller rt' = rt_controller rt"
    "rt_next_generation rt' = rt_next_generation rt" "rt_driver rt' = rt_driver rt"
    "active_generation (aa_sync a') = Some g" "\<not> pending_sync (aa_sync a')" "attachment_ok a'"
proof -
  note views = takeover_sync_views[OF prep]
  have ok: "attachment_ok (takeover_sync g a\<lparr>aa_ever_active := aa_ever_active a, aa_terminal := t\<rparr>)"
    "attachment_ok (takeover_sync g a\<lparr>aa_ever_active := aa_ever_active a, aa_terminal := t, aa_sync := s, aa_pending_color_snapshot := p\<rparr>)" for t s p
    using views(4,5) by (simp_all add: attachment_ok_def)
  show ?thesis
    using run views(1-3) ok that
    by (auto simp: takeover_colors_def Let_def put_attachment_def send_lifecycle_def pending_sync_def
        split: if_splits prod.splits result.splits)
qed

lemma evolves_takeover_commit:
  assumes inv: "control_inv rt" and at: "bt_get (rt_attachments rt) i = Some a" and prep: "takeover_prepared a"
    and next_g: "checked_add U64_MAX (rt_next_generation rt) 1 = Some g"
    and frame: "rt_attachments rt1 = rt_attachments rt" "rt_controller rt1 = rt_controller rt" "rt_next_generation rt1 = g" "rt_driver rt1 = rt_driver rt"
  shows "control_inv (fst (takeover_commit ops i key g changed a rt1)) \<and> lease_step rt (fst (takeover_commit ops i key g changed a rt1))"
proof -
  obtain rt2 old where drop: "drop_old_controller i rt1 = (rt2, old)" by (cases "drop_old_controller i rt1")
  have rt2: "rt_attachments rt2 = rt_attachments (fst (drop_old_controller i rt))" "rt_next_generation rt2 = g" "rt_driver rt2 = rt_driver rt"
    using drop frame by (auto simp: drop_old_controller_def split: option.splits if_splits)
  let ?rt3 = "rt2\<lparr>rt_controller := Some \<lparr>lease_attachment_id = i, lease_generation = g\<rparr>, rt_controller_operation := Some key\<rparr>"
  obtain rt4 res where colors: "takeover_colors ops i g changed a ?rt3 = (rt4, res)" by (cases "takeover_colors ops i g changed a ?rt3")
  obtain a' where puts: "rt_attachments rt4 = bt_insert i a' (rt_attachments ?rt3)" "rt_controller rt4 = rt_controller ?rt3"
    "rt_next_generation rt4 = rt_next_generation ?rt3" "rt_driver rt4 = rt_driver ?rt3" and a': "active_generation (aa_sync a') = Some g"
    "\<not> pending_sync (aa_sync a')" "attachment_ok a'"
    using takeover_colors_puts[OF prep control_invD(2)[OF inv at] colors] .
  have "control_inv rt4 \<and> lease_step rt rt4"
    by (rule moved_lease_evolves[OF inv at next_g a']) (simp_all add: puts rt2)
  moreover have "evolves rt4 (fst (takeover_commit ops i key g changed a rt1))"
  proof (cases res)
    case (Ok active)
    have "evolves rt' (update_cached False (if active then send_lifecycle i (LifecycleActive g)
        (case old of Some j \<Rightarrow> send_lifecycle j (LifecycleLeaseLost g) rt' | None \<Rightarrow> rt')
        else (case old of Some j \<Rightarrow> send_lifecycle j (LifecycleLeaseLost g) rt' | None \<Rightarrow> rt')))" for rt' :: "('a, 'b) session_runtime"
      by (rule evolves_frame) (simp_all add: update_cached_def send_lifecycle_def split: option.split)
    then show ?thesis
      by (simp add: takeover_commit_def drop and_then_def[of "takeover_colors _ _ _ _ _"] colors Ok Let_def evolves_reconciled)
  qed (simp add: takeover_commit_def drop and_then_def colors)
  ultimately show ?thesis unfolding evolves_def using lease_step_trans by blast
qed

lemma evolves_takeover: "evolves rt (fst (takeover ops who i key continuation rt))"
  unfolding evolves_def
proof
  assume inv: "control_inv rt"
  have same: "control_inv rt' \<and> lease_step rt rt'" if "evolves rt rt'" for rt' using that inv by (simp add: evolves_def)
  have op: "evolves rt (rt\<lparr>rt_controller_operation := x\<rparr>)" for x by (rule evolves_frame) simp_all
  have gen: "control_inv rt' \<and> lease_step rt rt'"
    if "rt_attachments rt' = rt_attachments rt" "rt_controller rt' = rt_controller rt" "rt_next_generation rt' = g" "rt_driver rt' = rt_driver rt"
      "checked_add U64_MAX (rt_next_generation rt) 1 = Some g" for rt' g
    using that inv by (auto simp: control_inv_def lease_step_def active_at_def pending_at_def)
  show "control_inv (fst (takeover ops who i key continuation rt)) \<and> lease_step rt (fst (takeover ops who i key continuation rt))"
  proof (cases "bt_get (rt_attachments rt) i")
    case (Some a)
    note at = this
    show ?thesis
    proof (cases "takeover_prepared a")
      case prep: True
      show ?thesis
      proof (cases "checked_add U64_MAX (rt_next_generation rt) 1")
        case (Some g)
        obtain rt1 res where call: "with_driver (to_update_base_colors ops (aa_base_colors a)) (rt\<lparr>rt_next_generation := g\<rparr>) = (rt1, res)"
          by (cases "with_driver (to_update_base_colors ops (aa_base_colors a)) (rt\<lparr>rt_next_generation := g\<rparr>)")
        note frame = with_driver_frame_eq[OF call, simplified]
        have "control_inv (fst (and_then (with_driver (to_update_base_colors ops (aa_base_colors a)))
            (\<lambda>changed. takeover_commit ops i key g changed a) (rt\<lparr>rt_next_generation := g\<rparr>))) \<and>
          lease_step rt (fst (and_then (with_driver (to_update_base_colors ops (aa_base_colors a)))
            (\<lambda>changed. takeover_commit ops i key g changed a) (rt\<lparr>rt_next_generation := g\<rparr>)))"
          using evolves_takeover_commit[OF inv at prep Some frame] gen[OF frame Some]
          by (cases res) (simp_all add: and_then_def call)
        then show ?thesis using same[OF op] same[OF evolves_refl] by (auto simp: takeover_def at Some simp del: One_nat_def split: result.split)
      qed (use same[OF op] same[OF evolves_refl] in \<open>auto simp: takeover_def at simp del: One_nat_def split: result.split\<close>)
    qed (use same[OF op] same[OF evolves_refl] in \<open>auto simp: takeover_def at simp del: One_nat_def split: result.split\<close>)
  qed (use same[OF evolves_refl] in \<open>simp add: takeover_def\<close>)
qed

subsection \<open>Runs\<close>

lemma evolves_replying: "evolves rt (fst (m rt)) \<Longrightarrow> evolves rt (fst (replying f m rt))"
  unfolding replying_def by (rule evolves_and_then) simp_all

lemmas handlers_evolve = evolves_update_colors evolves_prepare_attach evolves_detach_resume evolves_snapshot_applied
  evolves_next_update evolves_final_update evolves_sync_latest evolves_history_window evolves_write_input evolves_resize
  evolves_takeover evolves_detach_remote

lemma evolves_dispatch: "evolves rt (fst (dispatch_command ops limits sid cmd rt))"
  by (cases cmd) (simp_all add: evolves_replying handlers_evolve reading_def)

lemma evolves_mark_detached: "evolves rt (mark_detached i rt)"
  by (auto simp: mark_detached_def split: option.split intro: evolves_terminal)

lemma evolves_respond: "respond es now deadline gate m rt = (gate', rt', res) \<Longrightarrow> evolves rt (fst (m rt)) \<Longrightarrow> evolves rt rt'"
  by (auto simp: respond_def split: prod.splits command_start.splits)

lemma finish_runtime_lease:
  "rt_controller (fst (finish_runtime ops reason rt)) = None"
  "rt_next_generation (fst (finish_runtime ops reason rt)) = rt_next_generation rt"
  by (auto simp: finish_runtime_def with_driver_def update_cached_def Let_def split: prod.split result.split)

lemma worker_return_frame [simp]:
  "aw_at (worker_return out w) = AtDone" "aw_runtime (worker_return out w) = fst out"
  "aw_end (worker_return out w) = finish_end (snd out) (aw_end w)"
  by (simp_all add: worker_return_def)

definition world_inv :: "('s, 't) actor_world \<Rightarrow> bool" where
  "world_inv w \<longleftrightarrow> (aw_at w \<noteq> AtDone \<longrightarrow> control_inv (aw_runtime w))"

definition world_evolves :: "('s, 't) actor_world \<Rightarrow> ('s, 't) actor_world \<Rightarrow> bool" where
  "world_evolves w w' \<longleftrightarrow> world_inv w' \<and> lease_step (aw_runtime w) (aw_runtime w')"

lemma world_evolves_running:
  "control_inv (aw_runtime w) \<Longrightarrow> evolves (aw_runtime w) (aw_runtime w') \<Longrightarrow> world_evolves w w'"
  by (simp add: world_evolves_def world_inv_def evolves_def)

lemma finish_lease_step: "lease_step rt (fst (finish_runtime ops reason rt))"
  by (simp add: lease_step_def finish_runtime_lease)

lemma world_evolves_finish: "world_evolves w (worker_return (finish_runtime ops reason (aw_runtime w)) w)"
  by (simp add: world_evolves_def world_inv_def finish_lease_step)

lemma worker_poll_evolves: "control_inv (aw_runtime w) \<Longrightarrow> world_evolves w (worker_poll ops input w)"
  unfolding worker_poll_def Let_def
  by (auto split: option.split result.split intro: world_evolves_finish world_evolves_running)

lemma worker_receive_evolves: "control_inv (aw_runtime w) \<Longrightarrow> world_evolves w (fst (worker_receive ops limits sid message w))"
proof (cases message)
  case (RecvCommand cmd now deadline gate)
  assume inv: "control_inv (aw_runtime w)"
  obtain gate' rt res where served: "respond (aw_end w) now deadline gate (dispatch_command ops limits sid cmd) (aw_runtime w) = (gate', rt, res)"
    by (cases "respond (aw_end w) now deadline gate (dispatch_command ops limits sid cmd) (aw_runtime w)")
  show ?thesis
    using evolves_respond[OF served evolves_dispatch]
    by (auto simp: worker_receive_def RecvCommand served intro: world_evolves_running[OF inv])
qed (auto simp: worker_receive_def intro: world_evolves_finish world_evolves_running)

lemma worker_evolves: "world_inv w \<Longrightarrow> world_evolves w (fst (run_session_actor ops limits sid input w))"
proof (cases "aw_at w")
  case AtReap
  assume "world_inv w"
  then have inv: "control_inv (aw_runtime w)" by (simp add: world_inv_def AtReap)
  obtain rt res where reap: "reap_detached ops (aw_runtime w) = (rt, res)" by (cases "reap_detached ops (aw_runtime w)")
  show ?thesis
    using evolves_reap[of "aw_runtime w" ops] world_evolves_running[OF inv]
    by (cases res) (auto simp: run_session_actor_def AtReap reap)
next
  case AtDone
  assume "world_inv w"
  then show ?thesis by (simp add: run_session_actor_def AtDone world_evolves_def lease_step_def)
qed (simp_all add: run_session_actor_def world_inv_def worker_poll_evolves worker_receive_evolves)

lemma world_evolves_other:
  assumes "world_inv w" "aw_at w' = aw_at w" "evolves (aw_runtime w) (aw_runtime w')"
    "aw_at w = AtDone \<Longrightarrow> lease_step (aw_runtime w) (aw_runtime w')"
  shows "world_evolves w w'"
  using assms by (cases "aw_at w = AtDone") (auto simp: world_evolves_def world_inv_def evolves_def)

lemma actor_step_evolves: "world_inv w \<Longrightarrow> world_evolves w (fst (actor_step ops limits sid w ev))"
proof (cases ev)
  case (ActHandleDropped i)
  assume inv: "world_inv w"
  have "lease_step rt (mark_detached i rt)" for rt :: "('a, 'b) session_runtime"
    by (simp add: lease_step_def mark_detached_def put_attachment_def split: option.split)
  then show ?thesis
    using world_evolves_other[OF inv] by (simp add: ActHandleDropped evolves_mark_detached)
qed (auto simp: worker_evolves lease_step_def intro: world_evolves_other)

text \<open>A lease that was issued and is no longer held.\<close>

definition lease_gone :: "controller_lease \<Rightarrow> ('s, 't) actor_world \<Rightarrow> bool" where
  "lease_gone c w \<longleftrightarrow> world_inv w \<and> lease_generation c \<le> rt_next_generation (aw_runtime w) \<and> rt_controller (aw_runtime w) \<noteq> Some c"

text \<open>A lower bound of the leases to come.\<close>

definition lease_from :: "controller_lease \<Rightarrow> ('s, 't) actor_world \<Rightarrow> bool" where
  "lease_from c w \<longleftrightarrow> world_inv w \<and> lease_generation c \<le> rt_next_generation (aw_runtime w) \<and>
    (\<forall>c'. rt_controller (aw_runtime w) = Some c' \<longrightarrow> c' = c \<or> lease_generation c < lease_generation c')"

interpretation actor: invariant_machine "actor_step ops limits sid" world_inv "\<lambda>_. True" for ops limits sid
  by unfold_locales (use actor_step_evolves world_evolves_def in blast)

interpretation fenced: invariant_machine "actor_step ops limits sid" "lease_gone c" "\<lambda>_. True" for ops limits sid c
proof unfold_locales
  fix w :: "('a, 'b) actor_world" and ev
  assume gone: "lease_gone c w"
  have "world_evolves w (fst (actor_step ops limits sid w ev))"
    using gone by (simp add: lease_gone_def actor_step_evolves)
  then show "lease_gone c (fst (actor_step ops limits sid w ev))"
    using gone by (auto simp: lease_gone_def world_evolves_def lease_step_def)
qed

interpretation later: invariant_machine "actor_step ops limits sid" "lease_from c" "\<lambda>_. True" for ops limits sid c
proof unfold_locales
  fix w :: "('a, 'b) actor_world" and ev
  assume le: "lease_from c w"
  have "world_evolves w (fst (actor_step ops limits sid w ev))"
    using le by (simp add: lease_from_def actor_step_evolves)
  then show "lease_from c (fst (actor_step ops limits sid w ev))"
    using le by (auto simp: lease_from_def world_evolves_def lease_step_def)
qed

definition actor_run :: "('s, 't) terminal_ops \<Rightarrow> resource_limits \<Rightarrow> session_id \<Rightarrow> 's \<Rightarrow> terminal_size \<Rightarrow> actor_event list \<Rightarrow> ('s, 't) actor_world" where
  "actor_run ops limits sid shared viewport evs = fst (trace_run (actor_step ops limits sid) (actor_world_new shared viewport) evs)"

lemma actor_run_append:
  "actor_run ops limits sid shared viewport (evs @ evs') =
    fst (trace_run (actor_step ops limits sid) (actor_run ops limits sid shared viewport evs) evs')"
  by (simp add: actor_run_def trace_run_append split_beta Let_def)

lemma actor_run_inv: "world_inv (actor_run ops limits sid shared viewport evs)"
proof -
  have "world_inv (actor_world_new shared viewport)"
    by (simp add: world_inv_def control_inv_def actor_world_new_def session_runtime_new_def active_at_def pending_at_def)
  then show ?thesis unfolding actor_run_def by (rule actor.inv_trace) (simp add: list_all_iff)
qed

subsection \<open>Who may act\<close>

lemma require_resize_controller_iff:
  assumes "control_inv rt"
  shows "require_resize_controller i rt = Ok g \<longleftrightarrow> rt_controller rt = Some \<lparr>lease_attachment_id = i, lease_generation = g\<rparr>"
  using control_invD(3)[OF assms, of i g]
  by (auto simp: require_resize_controller_def active_at_def split: option.splits if_splits)

lemma require_existing_controller:
  assumes inv: "control_inv rt" and ok: "require_existing_visual_sync_controller i rt = Ok g"
  shows "rt_controller rt = Some \<lparr>lease_attachment_id = i, lease_generation = g\<rparr> \<and>
    (\<exists>a. bt_get (rt_attachments rt) i = Some a \<and> aa_applied_snapshot_revision a \<noteq> None)"
proof -
  have resize: "require_resize_controller i rt = Ok g"
    using ok by (auto simp: require_existing_visual_sync_controller_def split: option.splits attachment_sync.splits if_splits)
  obtain a where a: "bt_get (rt_attachments rt) i = Some a"
    using ok by (auto simp: require_existing_visual_sync_controller_def split: option.splits)
  have "aa_ever_active a \<or> (\<exists>g. aa_sync a = SyncActive g) \<or> aa_sync a = SyncPrepared"
    using ok a by (auto simp: require_existing_visual_sync_controller_def split: attachment_sync.splits if_splits)
  then have "aa_applied_snapshot_revision a \<noteq> None"
    using control_invD(2)[OF inv a] by (auto simp: attachment_ok_def)
  then show ?thesis using a resize require_resize_controller_iff[OF inv] by blast
qed

lemma result_not_Ok: "(\<And>x. res \<noteq> Ok x) \<Longrightarrow> \<exists>e. res = Err e"
  by (cases res) auto

lemma refused_without_lease:
  assumes inv: "control_inv rt" and no: "\<And>g. rt_controller rt \<noteq> Some \<lparr>lease_attachment_id = i, lease_generation = g\<rparr>"
  shows "\<exists>e. resize ops limits i size' rt = (rt, Err e)" "\<exists>e. update_colors ops i n colors rt = (rt, Err e)"
proof -
  obtain e where e: "require_resize_controller i rt = Err e"
    using result_not_Ok[of "require_resize_controller i rt"] no require_resize_controller_iff[OF inv] by blast
  show "\<exists>e. resize ops limits i size' rt = (rt, Err e)"
    by (cases "validate_viewport limits size'") (simp_all add: resize_def e)
  show "\<exists>e. update_colors ops i n colors rt = (rt, Err e)" by (simp add: update_colors_def e)
qed

lemma refused_without_snapshot:
  assumes inv: "control_inv rt"
    and no: "\<And>g a. \<not> (rt_controller rt = Some \<lparr>lease_attachment_id = i, lease_generation = g\<rparr> \<and>
      bt_get (rt_attachments rt) i = Some a \<and> aa_applied_snapshot_revision a \<noteq> None)"
  shows "\<exists>e. write_input ops i bytes rt = (rt, Err e)" "\<exists>e. history_window ops i q rt = (rt, Err e)"
proof -
  obtain e where e: "require_existing_visual_sync_controller i rt = Err e"
    using result_not_Ok[of "require_existing_visual_sync_controller i rt"] no require_existing_controller[OF inv] by blast
  show "\<exists>e. write_input ops i bytes rt = (rt, Err e)" by (simp add: write_input_def e)
  show "\<exists>e. history_window ops i q rt = (rt, Err e)" by (simp add: history_window_def e)
qed

lemma active_controller_writes:
  assumes inv: "control_inv rt" and a: "bt_get (rt_attachments rt) i = Some a" "aa_sync a = SyncActive g"
  shows "write_input ops i bytes rt =
    (rt\<lparr>rt_shared := fst (to_write_input ops bytes (rt_shared rt))\<rparr>, snd (to_write_input ops bytes (rt_shared rt)))"
proof -
  have "require_resize_controller i rt = Ok g"
    using control_invD(3)[OF inv, of i g] a by (simp add: require_resize_controller_iff[OF inv] active_at_def)
  then show ?thesis
    using control_invD(7)[OF inv]
    by (simp add: write_input_def require_existing_visual_sync_controller_def a with_driver_def split_beta)
qed

text \<open>C11: In every run of a session, as long as its worker has not finished: an attachment passes the
  controller check exactly when the lease names it with its generation, and at most one takeover is
  pending.  Resizing and changing the colours without the lease are refused and change nothing at
  all; the holder of the lease passes this check even while its first snapshot is in flight.  Typing
  and reading history are refused, without any change, also for the holder of the lease as long as
  no snapshot has been applied.  What the active controller types reaches the terminal.\<close>

theorem only_controller_acts:
  assumes "rt = aw_runtime (actor_run ops limits sid shared viewport evs)"
    and "aw_at (actor_run ops limits sid shared viewport evs) \<noteq> AtDone"
  shows "(\<forall>i g. require_resize_controller i rt = Ok g \<longleftrightarrow> rt_controller rt = Some \<lparr>lease_attachment_id = i, lease_generation = g\<rparr>) \<and>
    (\<forall>i j a b. bt_get (rt_attachments rt) i = Some a \<and> pending_sync (aa_sync a) \<and>
      bt_get (rt_attachments rt) j = Some b \<and> pending_sync (aa_sync b) \<longrightarrow> i = j) \<and>
    (\<forall>i size' n colors. (\<forall>g. rt_controller rt \<noteq> Some \<lparr>lease_attachment_id = i, lease_generation = g\<rparr>) \<longrightarrow>
      (\<exists>e. resize ops limits i size' rt = (rt, Err e)) \<and> (\<exists>e. update_colors ops i n colors rt = (rt, Err e))) \<and>
    (\<forall>i bytes q. (\<forall>g a. \<not> (rt_controller rt = Some \<lparr>lease_attachment_id = i, lease_generation = g\<rparr> \<and>
        bt_get (rt_attachments rt) i = Some a \<and> aa_applied_snapshot_revision a \<noteq> None)) \<longrightarrow>
      (\<exists>e. write_input ops i bytes rt = (rt, Err e)) \<and> (\<exists>e. history_window ops i q rt = (rt, Err e))) \<and>
    (\<forall>i a g bytes. bt_get (rt_attachments rt) i = Some a \<and> aa_sync a = SyncActive g \<longrightarrow>
      write_input ops i bytes rt =
        (rt\<lparr>rt_shared := fst (to_write_input ops bytes (rt_shared rt))\<rparr>, snd (to_write_input ops bytes (rt_shared rt))))"
proof -
  have inv: "control_inv rt" using actor_run_inv[of ops limits sid shared viewport evs] assms by (simp add: world_inv_def)
  have "bt_get (rt_attachments rt) i = Some a \<Longrightarrow> pending_sync (aa_sync a) \<Longrightarrow> pending_at rt i" for i a
    by (simp add: pending_at_def)
  then have "\<forall>i j a b. bt_get (rt_attachments rt) i = Some a \<and> pending_sync (aa_sync a) \<and>
      bt_get (rt_attachments rt) j = Some b \<and> pending_sync (aa_sync b) \<longrightarrow> i = j"
    using control_invD(6)[OF inv] by blast
  then show ?thesis
    using require_resize_controller_iff[OF inv] refused_without_lease[OF inv] refused_without_snapshot[OF inv]
      active_controller_writes[OF inv] by simp
qed

text \<open>C12: In every run of a session the generations of the controller lease grow: a lease held later is
  the same or has a greater generation, and a lease that was lost once is never held again, so a
  client that was taken over stays fenced whatever happens later.\<close>

theorem lost_lease_never_returns:
  assumes "rt_controller (aw_runtime (actor_run ops limits sid shared viewport evs)) = Some c"
    and "aw_at (actor_run ops limits sid shared viewport evs) \<noteq> AtDone"
  shows "(\<forall>c'. rt_controller (aw_runtime (actor_run ops limits sid shared viewport (evs @ evs1))) = Some c' \<longrightarrow>
      c' = c \<or> lease_generation c < lease_generation c') \<and>
    (rt_controller (aw_runtime (actor_run ops limits sid shared viewport (evs @ evs1))) \<noteq> Some c \<longrightarrow>
      rt_controller (aw_runtime (actor_run ops limits sid shared viewport (evs @ evs1 @ evs2))) \<noteq> Some c)"
proof -
  let ?w = "actor_run ops limits sid shared viewport evs"
  let ?w1 = "actor_run ops limits sid shared viewport (evs @ evs1)"
  let ?w2 = "actor_run ops limits sid shared viewport (evs @ evs1 @ evs2)"
  have all: "list_all (\<lambda>_. True) xs" for xs :: "actor_event list" by (simp add: list_all_iff)
  have "lease_from c ?w"
    using actor_run_inv[of ops limits sid shared viewport evs] assms by (auto simp: lease_from_def world_inv_def control_inv_def)
  then have from1: "lease_from c ?w1"
    unfolding actor_run_append by (rule later.inv_trace) (rule all)
  have "rt_controller (aw_runtime ?w2) \<noteq> Some c" if lost: "rt_controller (aw_runtime ?w1) \<noteq> Some c"
  proof -
    have "lease_gone c ?w1" using from1 lost by (simp add: lease_from_def lease_gone_def)
    then have "lease_gone c (fst (trace_run (actor_step ops limits sid) ?w1 evs2))" by (rule fenced.inv_trace) (rule all)
    then show ?thesis using actor_run_append[of ops limits sid shared viewport "evs @ evs1" evs2] by (simp add: lease_gone_def)
  qed
  then show ?thesis using from1 by (simp add: lease_from_def)
qed

subsection \<open>Takeover commits\<close>

text \<open>A terminal whose driver accepts colours and effect targets and gives full snapshots.\<close>

definition terminal_answers :: "('s, 't) terminal_ops \<Rightarrow> bool" where
  "terminal_answers ops \<longleftrightarrow>
    (\<forall>c s. is_ok (snd (to_update_base_colors ops c s))) \<and> (\<forall>x s. is_ok (snd (to_set_effect_target ops x s))) \<and>
    (\<forall>s t. is_ok (snd (full_sync ops s (to_discard_checkpoint ops t))))"

lemma reconcile_answers:
  assumes "terminal_answers ops" "rt_driver rt"
  obtains rt' where "reconcile_effect_target ops rt = (rt', Ok ())" "rt_controller rt' = rt_controller rt"
    "\<forall>k. bt_get (rt_attachments rt') k = None \<longleftrightarrow> bt_get (rt_attachments rt) k = None"
proof -
  have "is_ok (snd (to_set_effect_target ops (effect_target rt) (rt_shared rt)))"
    using assms(1) by (simp add: terminal_answers_def)
  then obtain s where "to_set_effect_target ops (effect_target rt) (rt_shared rt) = (s, Ok ())"
    by (cases "to_set_effect_target ops (effect_target rt) (rt_shared rt)") (auto simp: is_ok_iff)
  then have "reconcile_effect_target ops rt = (cancel_histories ops (effect_target rt) rt\<lparr>rt_shared := s\<rparr>, Ok ())"
    using assms(2) by (simp add: reconcile_effect_target_def with_driver_def cancel_histories_def)
  then show ?thesis
    by (rule that) (simp_all add: assms(2) cancel_histories_def map_of_values)
qed

lemma takeover_colors_answers:
  assumes "terminal_answers ops"
  obtains rt' active where "takeover_colors ops i g changed a rt = (rt', Ok active)"
proof -
  have "is_ok (snd (full_sync ops (rt_shared rt) (to_discard_checkpoint ops (aa_terminal (takeover_sync g a)))))"
    using assms by (simp add: terminal_answers_def)
  then have "is_ok (snd (takeover_colors ops i g changed a rt))"
    by (auto simp: takeover_colors_def Let_def split: prod.split result.split)
  then show ?thesis using that by (metis is_ok_iff prod.collapse)
qed

lemma takeover_commit_answers:
  assumes ops: "terminal_answers ops" and prep: "takeover_prepared a" "attachment_ok a" and driver: "rt_driver rt"
    and old: "rt_controller rt = Some \<lparr>lease_attachment_id = j, lease_generation = h\<rparr>" "bt_contains (rt_attachments rt) j" "j \<noteq> i"
    and run: "takeover_commit ops i key g changed a rt = (rt', res)"
  shows "res = Ok () \<and> rt_controller rt' = Some \<lparr>lease_attachment_id = i, lease_generation = g\<rparr> \<and>
    bt_get (rt_attachments rt') j = None \<and> (j, LifecycleLeaseLost g) \<in> set (rt_sent rt')"
proof -
  let ?rt2 = "rt\<lparr>rt_attachments := bt_remove j (rt_attachments rt), rt_controller := Some \<lparr>lease_attachment_id = i, lease_generation = g\<rparr>,
    rt_controller_operation := Some key\<rparr>"
  have drop: "drop_old_controller i rt = (rt\<lparr>rt_attachments := bt_remove j (rt_attachments rt)\<rparr>, Some j)"
    using old by (simp add: drop_old_controller_def)
  obtain rt3 active where colors: "takeover_colors ops i g changed a ?rt2 = (rt3, Ok active)"
    by (rule takeover_colors_answers[OF ops])
  obtain a' where puts: "rt_attachments rt3 = bt_insert i a' (rt_attachments ?rt2)" "rt_controller rt3 = rt_controller ?rt2"
    "rt_driver rt3 = rt_driver ?rt2"
    by (rule takeover_colors_puts[OF prep colors])
  have up: "rt_driver rt3" using puts(3) driver by simp
  obtain rt4 where rec: "reconcile_effect_target ops rt3 = (rt4, Ok ())" "rt_controller rt4 = rt_controller rt3"
    "\<forall>k. bt_get (rt_attachments rt4) k = None \<longleftrightarrow> bt_get (rt_attachments rt3) k = None"
    by (rule reconcile_answers[OF ops up])
  have "takeover_commit ops i key g changed a rt = (update_cached False
      (if active then send_lifecycle i (LifecycleActive g) (send_lifecycle j (LifecycleLeaseLost g) rt4)
       else send_lifecycle j (LifecycleLeaseLost g) rt4), Ok ())"
    by (simp add: takeover_commit_def drop and_then_def colors rec(1))
  then show ?thesis
    using run rec(2,3) puts old(3) by (auto simp: update_cached_def send_lifecycle_def)
qed

text \<open>C13: A client that has applied the snapshot of its takeover gets the controller lease with a fresh
  generation whenever the terminal answers: the previous controller is removed and told that it lost
  the lease, whatever it types then is refused, and the new one passes the controller check.\<close>

theorem takeover_commits:
  assumes rt: "rt = aw_runtime (actor_run ops limits sid shared viewport evs)"
    and running: "aw_at (actor_run ops limits sid shared viewport evs) \<noteq> AtDone" and ops: "terminal_answers ops"
    and a: "bt_get (rt_attachments rt) i = Some a" "takeover_prepared a"
    and held: "rt_controller rt = Some \<lparr>lease_attachment_id = j, lease_generation = h\<rparr>"
    and left: "rt_next_generation rt < U64_MAX"
    and run: "takeover ops (aa_principal a) i key False rt = (rt', res)"
  shows "res = Ok () \<and> h < rt_next_generation rt + 1 \<and>
    require_resize_controller i rt' = Ok (rt_next_generation rt + 1) \<and>
    (j, LifecycleLeaseLost (rt_next_generation rt + 1)) \<in> set (rt_sent rt') \<and>
    write_input ops j bytes rt' = (rt', Err LeaseLost)"
proof -
  let ?g = "rt_next_generation rt + 1"
  have inv: "control_inv rt" using actor_run_inv[of ops limits sid shared viewport evs] rt running by (simp add: world_inv_def)
  have act: "active_at rt j = Some h" using held by (simp add: control_invD(3)[OF inv])
  have ji: "j \<noteq> i"
    using act a by (auto simp: active_at_def takeover_prepared_def split: attachment_sync.splits sync_target.splits)
  have at_j: "bt_contains (rt_attachments rt) j" using act by (auto simp: active_at_def split: option.splits)
  have "is_ok (snd (to_update_base_colors ops (aa_base_colors a) (rt_shared rt)))"
    using ops by (simp add: terminal_answers_def)
  then obtain s changed where call: "to_update_base_colors ops (aa_base_colors a) (rt_shared rt) = (s, Ok changed)"
    by (cases "to_update_base_colors ops (aa_base_colors a) (rt_shared rt)") (auto simp: is_ok_iff)
  let ?rt1 = "rt\<lparr>rt_next_generation := ?g, rt_shared := s\<rparr>"
  have commit: "takeover_commit ops i key ?g changed a ?rt1 = (rt', res)"
    using run a held ji left control_invD(7)[OF inv]
    by (simp add: takeover_def checked_add_def and_then_def with_driver_def call)
  have new: "res = Ok () \<and> rt_controller rt' = Some \<lparr>lease_attachment_id = i, lease_generation = ?g\<rparr> \<and>
    bt_get (rt_attachments rt') j = None \<and> (j, LifecycleLeaseLost ?g) \<in> set (rt_sent rt')"
    by (rule takeover_commit_answers[OF ops a(2) control_invD(2)[OF inv a(1)] _ _ _ ji commit])
      (use held at_j control_invD(7)[OF inv] in simp_all)
  have inv': "control_inv rt'"
    using evolves_takeover[of rt ops "aa_principal a" i key False] inv by (simp add: run evolves_def)
  show ?thesis
    using new control_invD(4)[OF inv held] require_resize_controller_iff[OF inv']
    by (simp add: write_input_def require_existing_visual_sync_controller_def)
qed

subsection \<open>Ending a session\<close>

primrec turns_left :: "loop_point \<Rightarrow> nat" where
  "turns_left AtDone = 0"
| "turns_left AtPoll = 1"
| "turns_left AtReap = 2"
| "turns_left AtReceive = 3"

definition ending :: "session_end_reason \<Rightarrow> ('s, 't) actor_world \<Rightarrow> bool" where
  "ending reason w \<longleftrightarrow> es_requested (aw_end w) = Some reason \<and> es_interrupt (aw_end w) = InterruptReady (Ok ())"

text \<open>Every attachment that is left has been told this reason.\<close>

definition notified :: "session_end_reason \<Rightarrow> ('s, 't) session_runtime \<Rightarrow> bool" where
  "notified reason rt \<longleftrightarrow> (\<forall>i \<in> bt_keys (rt_attachments rt). (i, LifecycleEnded reason) \<in> set (rt_sent rt))"

definition session_over :: "session_end_reason \<Rightarrow> ('s, 't) actor_world \<Rightarrow> bool" where
  "session_over reason w \<longleftrightarrow> es_result (aw_end w) \<noteq> None \<and> notified reason (aw_runtime w) \<and>
    su_ended (rt_cached (aw_runtime w)) \<and> rt_controller (aw_runtime w) = None"

text \<open>An attachment whose client is still there.\<close>

definition attached :: "attachment_id \<Rightarrow> ('s, 't) session_runtime \<Rightarrow> bool" where
  "attached i rt \<longleftrightarrow> (\<exists>a. bt_get (rt_attachments rt) i = Some a \<and> \<not> aa_detached a)"

lemma attached_key: "attached i rt \<Longrightarrow> i \<in> bt_keys (rt_attachments rt)"
  by (auto simp: attached_def bt_keys_dom)

lemma values_keys: "bt_keys (map (\<lambda>(i, a). (i, f i a)) m) = bt_keys m"
  by (force simp: bt_keys_def)

lemma finish_over:
  assumes ops: "terminal_answers ops" and driver: "rt_driver (aw_runtime w)"
  shows "session_over reason (worker_return (finish_runtime ops reason (aw_runtime w)) w)"
    and "bt_keys (rt_attachments (fst (finish_runtime ops reason (aw_runtime w)))) = bt_keys (rt_attachments (aw_runtime w))"
proof -
  let ?rt = "aw_runtime w"
  have "is_ok (snd (to_set_effect_target ops None (rt_shared ?rt)))" using ops by (simp add: terminal_answers_def)
  then obtain s where s: "to_set_effect_target ops None (rt_shared ?rt) = (s, Ok ())"
    by (cases "to_set_effect_target ops None (rt_shared ?rt)") (auto simp: is_ok_iff)
  obtain s' res where s': "to_finalize ops s = (s', res)" by (cases "to_finalize ops s")
  have sent: "i \<in> bt_keys m \<Longrightarrow> (i, l) \<in> (\<lambda>(i, a). (i, l)) ` set m" for i l and m :: "(attachment_id, 'b actor_attachment) bmap"
    by (force simp: bt_keys_def)
  note simps = finish_runtime_def with_driver_def s s' update_cached_def Let_def values_keys
  show keys: "bt_keys (rt_attachments (fst (finish_runtime ops reason ?rt))) = bt_keys (rt_attachments ?rt)"
    using driver by (simp add: simps)
  have "notified reason (fst (finish_runtime ops reason ?rt))" "su_ended (rt_cached (fst (finish_runtime ops reason ?rt)))"
    using driver by (simp_all add: notified_def simps sent)
  then show "session_over reason (worker_return (finish_runtime ops reason ?rt) w)"
    by (simp add: session_over_def finish_end_def finish_runtime_lease)
qed

lemma reap_answers:
  assumes "terminal_answers ops" "control_inv rt"
  obtains rt' where "reap_detached ops rt = (rt', Ok ())"
proof (cases "map fst (filter (\<lambda>(i, a). aa_detached a) (rt_attachments rt)) = []")
  case True
  then show ?thesis using that by (simp add: reap_detached_def Let_def)
next
  case False
  let ?rt = "fold drop_attachment (map fst (filter (\<lambda>(i, a). aa_detached a) (rt_attachments rt))) rt"
  have "rt_driver ?rt" using evolves_fold_drop[of rt] control_invD(7) assms(2) unfolding evolves_def by blast
  then obtain rt' where "reconcile_effect_target ops ?rt = (rt', Ok ())" by (rule reconcile_answers[OF assms(1)])
  then show ?thesis using that False by (simp add: reap_detached_def Let_def and_then_def)
qed

lemma fold_drop_get: "i \<notin> set is \<Longrightarrow> bt_get (rt_attachments (fold drop_attachment is rt)) i = bt_get (rt_attachments rt) i"
  by (induction "is" arbitrary: rt) (simp_all add: drop_attachment_def Let_def)

lemma reconcile_attached: "reconcile_effect_target ops rt = (rt', res) \<Longrightarrow> attached i rt \<Longrightarrow> attached i rt'"
  by (auto simp: reconcile_effect_target_def with_driver_def cancel_histories_def attached_def map_of_values split: prod.splits if_splits)

lemma reap_attached:
  assumes "control_inv rt" "reap_detached ops rt = (rt', Ok ())" "attached i rt"
  shows "attached i rt'"
proof -
  let ?is = "map fst (filter (\<lambda>(i, a). aa_detached a) (rt_attachments rt))"
  have "i \<notin> set ?is"
    using assms(3) bt_wf_distinct[OF control_invD(1)[OF assms(1)]] by (auto simp: attached_def dest: eq_key_imp_eq_value)
  then have "attached i (fold drop_attachment ?is rt)" using assms(3) fold_drop_get[of i ?is rt] by (simp add: attached_def)
  then have "attached i rt1" if "reconcile_effect_target ops (fold drop_attachment ?is rt) = (rt1, res)" for rt1 res
    using reconcile_attached[OF that] by simp
  moreover have "attached i (update_cached b rt1) = attached i rt1" for b rt1 by (simp add: attached_def update_cached_def)
  ultimately show ?thesis
    using assms(2,3) by (auto simp: reap_detached_def Let_def and_then_def split: prod.splits result.splits if_splits)
qed

text \<open>The reason the attachments are told: the requested one, unless the worker found that every
  sender of commands is gone.\<close>

definition told_reason :: "session_end_reason \<Rightarrow> actor_event list \<Rightarrow> session_end_reason \<Rightarrow> bool" where
  "told_reason reason evs told \<longleftrightarrow> told = reason \<or>
    told = DaemonStop \<and> (\<exists>input. ActWorker input \<in> set evs \<and> ti_received input = RecvDisconnected)"

lemma ending_turn:
  assumes ops: "terminal_answers ops" and inv: "world_inv w" and ends: "ending reason w" and at: "aw_at w \<noteq> AtDone"
    and run: "run_session_actor ops limits sid input w = (w', out)"
  shows "turns_left (aw_at w') < turns_left (aw_at w) \<and> ending reason w' \<and>
    (aw_at w' = AtDone \<longrightarrow> (\<exists>told. told_reason reason [ActWorker input] told \<and> session_over told w')) \<and>
    (out = None \<or> out = Some (Err SessionNotFound)) \<and>
    (\<forall>i. attached i (aw_runtime w) \<longrightarrow>
       (if aw_at w' = AtDone then i \<in> bt_keys (rt_attachments (aw_runtime w')) else attached i (aw_runtime w')))"
proof -
  have ctl: "control_inv (aw_runtime w)" using inv at by (simp add: world_inv_def)
  note over = finish_over[OF ops control_invD(7)[OF ctl]]
  show ?thesis
  proof (cases "aw_at w")
    case AtReap
    obtain rt where "reap_detached ops (aw_runtime w) = (rt, Ok ())" by (rule reap_answers[OF ops ctl])
    then show ?thesis using run ends reap_attached[OF ctl] by (auto simp: run_session_actor_def AtReap ending_def)
  next
    case AtPoll
    have ready: "ready_end_reason (aw_end w) = Some reason" using ends by (simp add: ending_def ready_end_reason_def)
    have w': "w' = worker_return (finish_runtime ops reason (aw_runtime w)) w" "out = None"
      using run by (simp_all add: run_session_actor_def AtPoll worker_poll_def ready)
    have "told_reason reason [ActWorker input] reason" by (simp add: told_reason_def)
    then show ?thesis
      using ends over attached_key by (auto simp: w' AtPoll worker_return_def ending_def finish_end_def)
  next
    case AtReceive
    have refused: "respond (aw_end w) now deadline gate m rt = (gate, rt, Err SessionNotFound)" for now deadline gate rt
      and m :: "('a, 'b, command_reply) handler"
      using ends by (simp add: respond_def try_start_command_def ending_def)
    show ?thesis
    proof (cases "ti_received input = RecvDisconnected")
      case True
      have w': "w' = worker_return (finish_runtime ops DaemonStop (aw_runtime w)) w" "out = None"
        using run True by (simp_all add: run_session_actor_def AtReceive worker_receive_def)
      have "told_reason reason [ActWorker input] DaemonStop" using True by (simp add: told_reason_def)
      then show ?thesis
        using ends over attached_key by (auto simp: w' AtReceive worker_return_def ending_def finish_end_def)
    next
      case False
      then show ?thesis
        using run ends refused
        by (auto simp: run_session_actor_def AtReceive worker_receive_def ending_def split: received.splits if_splits)
    qed
  qed (use at in simp)
qed

lemma worker_done: "aw_at w = AtDone \<Longrightarrow> run_session_actor ops limits sid input w = (w, None)"
  by (simp add: run_session_actor_def)

definition worker_turn :: "actor_event \<Rightarrow> bool" where
  "worker_turn ev = (case ev of ActWorker _ \<Rightarrow> True | _ \<Rightarrow> False)"

lemma mark_detached_keeps:
  "bt_keys (rt_attachments (mark_detached j rt)) = bt_keys (rt_attachments rt)"
  "rt_sent (mark_detached j rt) = rt_sent rt" "rt_cached (mark_detached j rt) = rt_cached rt"
  "rt_controller (mark_detached j rt) = rt_controller rt"
  "attached i rt \<Longrightarrow> i \<noteq> j \<Longrightarrow> attached i (mark_detached j rt)"
  by (auto simp: mark_detached_def put_attachment_def attached_def bt_keys_dom split: option.split)

text \<open>The other events leave the worker where it is and the end as it is requested.\<close>

lemma other_event:
  assumes "ending reason w" "\<not> worker_turn ev" "actor_step ops limits sid w ev = (w', out)"
  shows "aw_at w' = aw_at w \<and> ending reason w' \<and> out = None \<and> (session_over told w \<longrightarrow> session_over told w') \<and>
    bt_keys (rt_attachments (aw_runtime w')) = bt_keys (rt_attachments (aw_runtime w)) \<and>
    (\<forall>i. attached i (aw_runtime w) \<and> ev \<noteq> ActHandleDropped i \<longrightarrow> attached i (aw_runtime w'))"
proof (cases ev)
  case (ActHandleDropped j)
  with assms(1,3) mark_detached_keeps[where j = j and rt = "aw_runtime w"] show ?thesis
    by (auto simp: ending_def session_over_def notified_def)
qed (use assms in \<open>auto simp: worker_turn_def ending_def session_over_def begin_end_def Let_def\<close>)

lemma over_stays:
  assumes "aw_at w = AtDone" "session_over told w" "ending reason w"
  shows "let (w', outs) = trace_run (actor_step ops limits sid) w evs in aw_at w' = AtDone \<and> session_over told w' \<and>
    set outs \<subseteq> {None} \<and> bt_keys (rt_attachments (aw_runtime w')) = bt_keys (rt_attachments (aw_runtime w))"
  using assms
proof (induction evs arbitrary: w)
  case (Cons ev evs)
  obtain w1 out where step: "actor_step ops limits sid w ev = (w1, out)" by (cases "actor_step ops limits sid w ev")
  have "aw_at w1 = AtDone \<and> session_over told w1 \<and> ending reason w1 \<and> out = None \<and>
      bt_keys (rt_attachments (aw_runtime w1)) = bt_keys (rt_attachments (aw_runtime w))"
    using other_event[OF Cons.prems(3) _ step] Cons.prems step by (cases ev) (auto simp: worker_turn_def worker_done)
  then show ?case using Cons.IH[of w1] step by (simp add: Let_def split_beta)
qed simp

lemma told_reason_mono: "told_reason reason evs told \<Longrightarrow> set evs \<subseteq> set evs' \<Longrightarrow> told_reason reason evs' told"
  by (auto simp: told_reason_def)

lemma ending_events:
  assumes "terminal_answers ops" "world_inv w" "ending reason w" "aw_at w \<noteq> AtDone"
    "turns_left (aw_at w) \<le> length (filter worker_turn evs)"
  shows "let (w', outs) = trace_run (actor_step ops limits sid) w evs in
    aw_at w' = AtDone \<and> (\<exists>told. told_reason reason evs told \<and> session_over told w') \<and> set outs \<subseteq> {None, Some (Err SessionNotFound)} \<and>
    (\<forall>i. attached i (aw_runtime w) \<and> ActHandleDropped i \<notin> set evs \<longrightarrow> i \<in> bt_keys (rt_attachments (aw_runtime w')))"
  using assms(2-)
proof (induction evs arbitrary: w)
  case Nil
  then show ?case by (cases "aw_at w") simp_all
next
  case (Cons ev evs)
  obtain w1 out where step: "actor_step ops limits sid w ev = (w1, out)" by (cases "actor_step ops limits sid w ev")
  have inv: "world_inv w1" using actor_step_evolves[OF Cons.prems(1)] step by (metis fst_conv world_evolves_def)
  have turn: "ending reason w1 \<and> (out = None \<or> out = Some (Err SessionNotFound)) \<and>
      (aw_at w1 = AtDone \<longrightarrow> (\<exists>told. told_reason reason [ev] told \<and> session_over told w1)) \<and>
      (aw_at w1 \<noteq> AtDone \<longrightarrow> turns_left (aw_at w1) \<le> length (filter worker_turn evs)) \<and>
      (\<forall>i. attached i (aw_runtime w) \<and> ev \<noteq> ActHandleDropped i \<longrightarrow>
         (if aw_at w1 = AtDone then i \<in> bt_keys (rt_attachments (aw_runtime w1)) else attached i (aw_runtime w1)))"
  proof (cases "worker_turn ev")
    case True
    then obtain input where ev: "ev = ActWorker input" by (auto simp: worker_turn_def split: actor_event.splits)
    then have "run_session_actor ops limits sid input w = (w1, out)" using step by simp
    from ending_turn[OF assms(1) Cons.prems(1-3) this] show ?thesis using Cons.prems(4) True ev by auto
  next
    case False
    from other_event[OF Cons.prems(2) False step] show ?thesis using Cons.prems(3,4) False by auto
  qed
  show ?case
  proof (cases "aw_at w1 = AtDone")
    case True
    with turn obtain told where told: "told_reason reason [ev] told" "session_over told w1" by blast
    then have "told_reason reason (ev # evs) told" by (auto intro: told_reason_mono)
    with over_stays[OF True told(2), of reason ops limits sid evs] turn True step show ?thesis by (auto simp: Let_def split_beta)
  next
    case False
    with Cons.IH[OF inv _ False] turn have "let (w', outs) = trace_run (actor_step ops limits sid) w1 evs in
      aw_at w' = AtDone \<and> (\<exists>told. told_reason reason evs told \<and> session_over told w') \<and> set outs \<subseteq> {None, Some (Err SessionNotFound)} \<and>
      (\<forall>i. attached i (aw_runtime w1) \<and> ActHandleDropped i \<notin> set evs \<longrightarrow> i \<in> bt_keys (rt_attachments (aw_runtime w')))" by blast
    with turn False step told_reason_mono[of reason evs _ "ev # evs"] show ?thesis by (auto simp: Let_def split_beta)
  qed
qed

text \<open>C14: A session that has been asked to end and whose terminal has been interrupted is over once its
  worker has taken three more turns, provided that the terminal answers (if it refuses to give up its
  effect target, \<open>finish_runtime\<close> returns before anybody is notified).  This holds whatever messages the
  worker receives in these turns and however they interleave with dropped handles, further requests
  to end the session and further interrupts.  Then the session has a result, nobody controls it, every
  command in between was refused, no attachment was removed unless its client had dropped it, and
  every attachment that is left has been told why: with the requested reason, or with the stop of the
  daemon when the worker found that every sender of commands was gone.\<close>

theorem session_end_completes:
  assumes "terminal_answers ops" and w: "w = actor_run ops limits sid shared viewport evs" and at: "aw_at w \<noteq> AtDone"
    and "es_requested (aw_end w) = Some reason" "es_interrupt (aw_end w) = InterruptReady (Ok ())"
    and "3 \<le> length (filter worker_turn evs')"
    and run: "trace_run (actor_step ops limits sid) w evs' = (w', outs)"
  shows "aw_at w' = AtDone \<and> set outs \<subseteq> {None, Some (Err SessionNotFound)} \<and>
    (\<forall>i. attached i (aw_runtime w) \<and> ActHandleDropped i \<notin> set evs' \<longrightarrow> i \<in> bt_keys (rt_attachments (aw_runtime w'))) \<and>
    (\<exists>told. session_over told w' \<and> (told = reason \<or>
       told = DaemonStop \<and> (\<exists>input. ActWorker input \<in> set evs' \<and> ti_received input = RecvDisconnected)))"
proof -
  have "world_inv w" using w actor_run_inv by simp
  moreover have "ending reason w" using assms(4,5) by (simp add: ending_def)
  moreover have "turns_left (aw_at w) \<le> length (filter worker_turn evs')" using assms(6) by (cases "aw_at w") simp_all
  ultimately show ?thesis
    using ending_events[OF assms(1), of w reason evs' limits sid] at run by (auto simp: told_reason_def)
qed

subsection \<open>Expired commands\<close>

text \<open>The worker and the waiting client race for the gate of one command.\<close>

datatype gate_event = GateServe end_state nat | GateTimeout

datatype gate_outcome = GateServed command_start | GateWaited "domain_error_kind option"

primrec gate_step :: "nat \<Rightarrow> command_state \<Rightarrow> gate_event \<Rightarrow> command_state \<times> gate_outcome" where
  "gate_step deadline gate (GateServe es now) = map_prod (\<lambda>g. g) GateServed (try_start_command es now deadline gate)"
| "gate_step deadline gate GateTimeout = map_prod (\<lambda>g. g) GateWaited (wait_timeout gate)"

lemmas gate_defs = try_start_command_def try_start_def leave_queue_def wait_timeout_def

lemma gate_left:
  "gate_step deadline CommandStarted ev = (CommandStarted, out) \<Longrightarrow> out \<noteq> GateServed StartStarted \<and> (\<forall>e. out \<noteq> GateWaited (Some e))"
  "gate_step deadline CommandExpired ev = (CommandExpired, out) \<Longrightarrow> out \<noteq> GateServed StartStarted"
  "fst (gate_step deadline CommandStarted ev) = CommandStarted" "fst (gate_step deadline CommandExpired ev) = CommandExpired"
  by (cases ev; auto simp: gate_defs split: if_splits)+

lemma gate_started_run:
  "set (snd (trace_run (gate_step deadline) CommandStarted evs)) \<inter> ({GateServed StartStarted} \<union> range (GateWaited \<circ> Some)) = {}"
proof (induction evs)
  case (Cons ev evs)
  have step: "gate_step deadline CommandStarted ev = (CommandStarted, snd (gate_step deadline CommandStarted ev))"
    by (metis gate_left(3) prod.collapse)
  then show ?case using Cons gate_left(1)[OF step] gate_left(3) by auto
qed simp

lemma gate_expired_run: "GateServed StartStarted \<notin> set (snd (trace_run (gate_step deadline) CommandExpired evs))"
proof (induction evs)
  case (Cons ev evs)
  have step: "gate_step deadline CommandExpired ev = (CommandExpired, snd (gate_step deadline CommandExpired ev))"
    by (metis gate_left(4) prod.collapse)
  then show ?case using Cons gate_left(2)[OF step] gate_left(4) by auto
qed simp

lemma gate_queued:
  "gate_step deadline CommandQueued ev = (gate, out) \<Longrightarrow>
    (out = GateServed StartStarted \<longrightarrow> gate = CommandStarted \<and> (\<exists>es now. ev = GateServe es now \<and> now < deadline \<and> es_requested es = None)) \<and>
    (\<forall>e. out = GateWaited (Some e) \<longrightarrow> gate = CommandExpired) \<and>
    (gate = CommandStarted \<longrightarrow> out = GateServed StartStarted)"
  by (cases ev) (auto simp: gate_defs split: if_splits)

lemma gate_run_exclusive:
  "trace_run (gate_step deadline) CommandQueued evs = (gate, outs) \<Longrightarrow>
    \<not> (GateServed StartStarted \<in> set outs \<and> GateWaited (Some e) \<in> set outs) \<and>
    length (filter ((=) (GateServed StartStarted)) outs) \<le> 1"
proof (induction evs arbitrary: gate outs)
  case (Cons ev evs)
  obtain gate1 out where step: "gate_step deadline CommandQueued ev = (gate1, out)" by (cases "gate_step deadline CommandQueued ev")
  let ?rest = "snd (trace_run (gate_step deadline) gate1 evs)"
  have outs: "outs = out # ?rest" using Cons.prems step by simp
  have started: "gate1 = CommandStarted" if "out = GateServed StartStarted" using gate_queued[OF step] that by simp
  have waited: "gate1 = CommandExpired" if "out = GateWaited (Some e)" using gate_queued[OF step] that by simp
  have none: "filter ((=) x) xs = []" if "x \<notin> set xs" for x :: gate_outcome and xs using that by (induction xs) auto
  show ?case
  proof (cases gate1)
    case CommandQueued
    then have "out \<noteq> GateServed StartStarted" "out \<noteq> GateWaited (Some e)" using started waited by auto
    then show ?thesis
      using Cons.IH[of "fst (trace_run (gate_step deadline) gate1 evs)" ?rest] CommandQueued by (simp add: outs)
  next
    case CommandStarted
    then have "GateServed StartStarted \<notin> set ?rest" "GateWaited (Some e) \<notin> set ?rest" using gate_started_run[of deadline evs] by auto
    moreover have "out \<noteq> GateWaited (Some e)" using waited CommandStarted by auto
    ultimately show ?thesis by (auto simp: outs none)
  next
    case CommandExpired
    then have "GateServed StartStarted \<notin> set ?rest" using gate_expired_run[of deadline evs] by simp
    moreover have "out \<noteq> GateServed StartStarted" using started CommandExpired by auto
    ultimately show ?thesis by (simp add: outs none)
  qed
qed simp

text \<open>C15: However the worker and the waiting client interleave, a command is started at most once, and
  it is never started when its client has been told that it expired before starting, neither before
  nor after; a command that is not started leaves the runtime of the session as it was.\<close>

theorem expired_command_never_runs:
  assumes "trace_run (gate_step deadline) CommandQueued evs = (gate, outs)"
  shows "\<not> (GateServed StartStarted \<in> set outs \<and> GateWaited (Some DeadlineExceeded) \<in> set outs) \<and>
    length (filter ((=) (GateServed StartStarted)) outs) \<le> 1 \<and>
    (\<forall>es now g m rt. snd (try_start_command es now deadline g) \<noteq> StartStarted \<longrightarrow>
      (\<exists>g' e. respond es now deadline g m rt = (g', rt, Err e)))"
  using gate_run_exclusive[OF assms]
  by (auto simp: respond_def split: prod.split command_start.split)

subsection \<open>Examples\<close>

text \<open>A terminal that records what is typed; an attachment is the revision it has seen.\<close>

definition demo_snapshot :: surface_snapshot where
  "demo_snapshot = \<lparr>ss_revision = 0, ss_surface = \<lparr>su_application_title = [], su_colors = default_color_snapshot,
     su_size = \<lparr>sz_rows = 1, sz_columns = 1\<rparr>, su_active_screen = MainScreen, su_rows = [],
     su_cursor = \<lparr>cu_presentation = \<lparr>cp_shape = CursorBlock, cp_blinking = False\<rparr>, cu_row = 0, cu_column = 0, cu_visible = True,
       cu_style = default_style\<rparr>,
     su_modes = \<lparr>application_keypad = False, application_cursor = False, bracketed_paste = False, focus_reporting = False,
       alternate_scroll = False, tm_mouse_mode = MouseNone, tm_mouse_encoding = MouseEncodingDefault, keyboard_flags = 0\<rparr>,
     su_scroll_metrics = None\<rparr>\<rparr>"

definition demo_terminal :: "(byte list, revision option) terminal_ops" where
  "demo_terminal = \<lparr>to_update_base_colors = \<lambda>_ s. (s, Ok False), to_set_effect_target = \<lambda>_ s. (s, Ok ()),
     to_write_input = \<lambda>bytes s. (s @ bytes, Ok ()), to_resize = \<lambda>_ s. (s, Ok 1), to_latest_revision = \<lambda>_. 0,
     to_finalize = \<lambda>s. (s, Ok ()), to_attach = \<lambda>_. None, to_checkpoint_revision = \<lambda>t. t, to_discard_checkpoint = \<lambda>_. None,
     to_sync_latest = \<lambda>_ _. (Some 0, Ok (ResyncOf demo_snapshot)), to_sync_changed = \<lambda>_ t. (t, Ok None),
     to_latest_snapshot = \<lambda>_ _. Ok demo_snapshot, to_begin_history = \<lambda>_ _ t. (t, Ok ()), to_cancel_pending_history = \<lambda>t. t\<rparr>"

definition demo_input :: "session_command \<Rightarrow> turn_input" where
  "demo_input cmd = \<lparr>ti_health = Ok (), ti_child = Ok None, ti_close = Ok (), ti_received = RecvCommand cmd 0 1 CommandQueued\<rparr>"

definition demo_turn :: "session_command \<Rightarrow> actor_event list" where
  "demo_turn cmd = replicate 3 (ActWorker (demo_input cmd))"

text \<open>One client controls the session, a second one attaches to take over.\<close>

definition demo_attach :: "byte \<Rightarrow> bool \<Rightarrow> actor_event list" where
  "demo_attach b explicit = demo_turn (CmdPrepareAttach default_color_profile (RemoteEndpoint [b] 1) explicit None [[b]]) @
     demo_turn (CmdSnapshotApplied [b] 0)"

definition demo_takeover :: "actor_event list" where
  "demo_takeover = demo_turn (CmdTakeover (RemoteEndpoint [2] 1) [2] (replay_key_new (RemoteEndpoint [2] 1) 1, demo_operation) False)"

definition demo_world :: "actor_event list \<Rightarrow> (byte list, revision option) actor_world" where
  "demo_world evs = actor_run demo_terminal default_limits [] [] \<lparr>sz_rows = 1, sz_columns = 1\<rparr> evs"

text \<open>A turn that reaps nothing and finds the session running serves its command.\<close>

lemma demo_turn_serves:
  assumes "demo_world evs = \<lparr>aw_runtime = rt, aw_end = end_state_default, aw_at = AtReap\<rparr>"
    and "\<not> list_ex (\<lambda>(i, a). aa_detached a) (rt_attachments rt)" "rt_driver rt"
  shows "demo_world (evs @ demo_turn cmd) =
    \<lparr>aw_runtime = fst (dispatch_command demo_terminal default_limits [] cmd rt), aw_end = end_state_default, aw_at = AtReap\<rparr>"
proof -
  have none: "filter (\<lambda>(i, a). aa_detached a) (rt_attachments rt) = []"
    using assms(2) by (auto simp: list_ex_iff filter_empty_conv)
  have "actor_run demo_terminal default_limits [] [] \<lparr>sz_rows = 1, sz_columns = 1\<rparr> evs =
      \<lparr>aw_runtime = rt, aw_end = end_state_default, aw_at = AtReap\<rparr>"
    using assms(1) by (simp add: demo_world_def)
  then show ?thesis
    using assms(3) none
    by (simp add: reading_def demo_world_def actor_run_append demo_turn_def numeral_3_eq_3 run_session_actor_def reap_detached_def
        worker_poll_def ready_end_reason_def end_state_default_def poll_driver_def demo_input_def worker_receive_def respond_def
        gate_defs split_beta)
qed

definition demo_attachment :: "byte \<Rightarrow> attachment_sync \<Rightarrow> bool \<Rightarrow> bool \<Rightarrow> revision option \<Rightarrow> revision option actor_attachment" where
  "demo_attachment b sync ever applied_prepared applied = \<lparr>aa_base_colors = default_color_profile, aa_color_sequence = 0,
     aa_pending_color_snapshot = None, aa_principal = RemoteEndpoint [b] 1, aa_resume_view_id = None, aa_terminal = Some 0,
     aa_ever_active = ever, aa_prepared_snapshot_applied = applied_prepared, aa_applied_snapshot_revision = applied, aa_sync = sync,
     aa_detached = False, aa_final_update = None\<rparr>"

definition demo_runtime :: "(attachment_id \<times> revision option actor_attachment) list \<Rightarrow> attachment_id \<Rightarrow> nat \<Rightarrow> replay_operation_key option \<Rightarrow>
    (attachment_id \<times> attachment_lifecycle) list \<Rightarrow> (byte list, revision option) session_runtime" where
  "demo_runtime attachments i g op sent = \<lparr>rt_driver = True, rt_shared = [], rt_attachments = attachments, rt_resume = None,
     rt_controller = Some \<lparr>lease_attachment_id = i, lease_generation = g\<rparr>, rt_controller_operation = op, rt_next_generation = g,
     rt_viewport = \<lparr>sz_rows = 1, sz_columns = 1\<rparr>, rt_last_revision = 0,
     rt_cached = \<lparr>su_has_controller = True, su_viewport = \<lparr>sz_rows = 1, sz_columns = 1\<rparr>, su_ended = False\<rparr>, rt_sent = sent\<rparr>"

lemmas demo_handler_defs = prepare_attach_def take_resume_terminal_def attach_admission_def next_attachment_id_def attach_colors_def
  initial_state_def full_sync_def attach_target_def new_attachment_def put_attachment_def send_lifecycle_def
  reconcile_effect_target_def effect_target_def cancel_histories_def with_driver_def update_cached_def snapshot_applied_def
  takeover_def takeover_commit_def takeover_colors_def takeover_sync_def drop_old_controller_def takeover_prepared_def
  reap_detached_def replying_def and_then_def Let_def checked_add_def pending_sync_def
  demo_terminal_def demo_snapshot_def demo_attachment_def demo_runtime_def

definition demo_rt1 :: "(byte list, revision option) session_runtime" where
  "demo_rt1 = demo_runtime [([1], demo_attachment 1 (SyncActive 1) True False (Some 0))] [1] 1 None
     [([1], LifecycleAwaiting 0), ([1], LifecycleActive 1)]"

definition demo_rt2 :: "(byte list, revision option) session_runtime" where
  "demo_rt2 = demo_runtime [([1], demo_attachment 1 (SyncActive 1) True False (Some 0)), ([2], demo_attachment 2 SyncPrepared False True (Some 0))]
     [1] 1 None [([1], LifecycleAwaiting 0), ([1], LifecycleActive 1), ([2], LifecycleAwaiting 0), ([2], LifecyclePrepared)]"

lemma demo_attach1:
  "fst (dispatch_command demo_terminal default_limits [] (CmdPrepareAttach default_color_profile (RemoteEndpoint [1] 1) False None [[1]])
      (session_runtime_new [] \<lparr>sz_rows = 1, sz_columns = 1\<rparr>)) =
    demo_runtime [([1], demo_attachment 1 (SyncAwaiting 0 (TargetActive 1)) False False None)] [1] 1 None [([1], LifecycleAwaiting 0)]"
  by (simp add: session_runtime_new_def demo_handler_defs)

lemma demo_applied1:
  "fst (dispatch_command demo_terminal default_limits [] (CmdSnapshotApplied [1] 0)
      (demo_runtime [([1], demo_attachment 1 (SyncAwaiting 0 (TargetActive 1)) False False None)] [1] 1 None [([1], LifecycleAwaiting 0)])) =
    demo_rt1"
  by (simp add: demo_handler_defs demo_rt1_def)

lemma demo_attach2:
  "fst (dispatch_command demo_terminal default_limits [] (CmdPrepareAttach default_color_profile (RemoteEndpoint [2] 1) True None [[2]])
      demo_rt1) =
    demo_runtime [([1], demo_attachment 1 (SyncActive 1) True False (Some 0)), ([2], demo_attachment 2 (SyncAwaiting 0 TargetPrepared) False False None)]
      [1] 1 None [([1], LifecycleAwaiting 0), ([1], LifecycleActive 1), ([2], LifecycleAwaiting 0)]"
  by (simp add: demo_handler_defs demo_rt1_def)

lemma demo_applied2:
  "fst (dispatch_command demo_terminal default_limits [] (CmdSnapshotApplied [2] 0)
      (demo_runtime [([1], demo_attachment 1 (SyncActive 1) True False (Some 0)), ([2], demo_attachment 2 (SyncAwaiting 0 TargetPrepared) False False None)]
      [1] 1 None [([1], LifecycleAwaiting 0), ([1], LifecycleActive 1), ([2], LifecycleAwaiting 0)])) = demo_rt2"
  by (simp add: demo_handler_defs demo_rt2_def)

lemma demo_taken:
  "rt_controller (fst (dispatch_command demo_terminal default_limits []
      (CmdTakeover (RemoteEndpoint [2] 1) [2] (replay_key_new (RemoteEndpoint [2] 1) 1, demo_operation) False) demo_rt2)) =
    Some \<lparr>lease_attachment_id = [2], lease_generation = 2\<rparr>"
  by (simp add: demo_handler_defs demo_rt2_def)

lemma demo_world_new:
  "demo_world [] = \<lparr>aw_runtime = session_runtime_new [] \<lparr>sz_rows = 1, sz_columns = 1\<rparr>, aw_end = end_state_default, aw_at = AtReap\<rparr>"
  by (simp add: demo_world_def actor_run_def actor_world_new_def)

lemma demo_quiet:
  "\<not> list_ex (\<lambda>(i, a). aa_detached a) (rt_attachments (session_runtime_new s v))" "rt_driver (session_runtime_new s v)"
  "\<not> list_ex (\<lambda>(i, a). aa_detached a) (rt_attachments (demo_runtime [(i, demo_attachment b sync x y z)] c g op sent))"
  "\<not> list_ex (\<lambda>(i, a). aa_detached a)
    (rt_attachments (demo_runtime [(i, demo_attachment b sync x y z), (i', demo_attachment b' sync' x' y' z')] c g op sent))"
  "rt_driver (demo_runtime ats c g op sent)"
  by (simp_all add: session_runtime_new_def demo_runtime_def demo_attachment_def)

lemma demo_controlled: "demo_world (demo_attach 1 False) = \<lparr>aw_runtime = demo_rt1, aw_end = end_state_default, aw_at = AtReap\<rparr>"
proof -
  note attach = demo_turn_serves[OF demo_world_new demo_quiet(1,2), unfolded append_Nil,
    of "CmdPrepareAttach default_color_profile (RemoteEndpoint [1] 1) False None [[1]]", unfolded demo_attach1]
  show ?thesis
    unfolding demo_attach_def
    by (rule demo_turn_serves[OF attach demo_quiet(3,5), of "CmdSnapshotApplied [1] 0", unfolded demo_applied1])
qed

lemma demo_quiet_rt1: "\<not> list_ex (\<lambda>(i, a). aa_detached a) (rt_attachments demo_rt1)" "rt_driver demo_rt1"
  unfolding demo_rt1_def by (rule demo_quiet)+

lemma demo_contended:
  "demo_world (demo_attach 1 False @ demo_attach 2 True) = \<lparr>aw_runtime = demo_rt2, aw_end = end_state_default, aw_at = AtReap\<rparr>"
proof -
  note attach = demo_turn_serves[OF demo_controlled demo_quiet_rt1,
    of "CmdPrepareAttach default_color_profile (RemoteEndpoint [2] 1) True None [[2]]", unfolded demo_attach2]
  show ?thesis
    unfolding demo_attach_def[of 2] append_assoc[symmetric]
    by (rule demo_turn_serves[OF attach demo_quiet(4,5), of "CmdSnapshotApplied [2] 0", unfolded demo_applied2])
qed

lemma demo_quiet_rt2: "\<not> list_ex (\<lambda>(i, a). aa_detached a) (rt_attachments demo_rt2)" "rt_driver demo_rt2"
  unfolding demo_rt2_def by (rule demo_quiet)+

lemma demo_taken_over:
  "rt_controller (aw_runtime (demo_world (demo_attach 1 False @ demo_attach 2 True @ demo_takeover))) =
    Some \<lparr>lease_attachment_id = [2], lease_generation = 2\<rparr>"
  using demo_turn_serves[OF demo_contended demo_quiet_rt2] demo_taken by (simp add: demo_takeover_def)

theorem only_controller_acts_witness:
  "(\<exists>e. write_input demo_terminal [2] [65] demo_rt2 = (demo_rt2, Err e)) \<and>
    write_input demo_terminal [1] [65] demo_rt2 = (demo_rt2\<lparr>rt_shared := [65]\<rparr>, Ok ())"
proof -
  have w: "demo_rt2 = aw_runtime (actor_run demo_terminal default_limits [] [] \<lparr>sz_rows = 1, sz_columns = 1\<rparr> (demo_attach 1 False @ demo_attach 2 True))"
    "aw_at (actor_run demo_terminal default_limits [] [] \<lparr>sz_rows = 1, sz_columns = 1\<rparr> (demo_attach 1 False @ demo_attach 2 True)) \<noteq> AtDone"
    using demo_contended unfolding demo_world_def by simp_all
  note acts = only_controller_acts[OF w]
  have no: "\<forall>g a. \<not> (rt_controller demo_rt2 = Some \<lparr>lease_attachment_id = [2], lease_generation = g\<rparr> \<and>
      bt_get (rt_attachments demo_rt2) [2] = Some a \<and> aa_applied_snapshot_revision a \<noteq> None)"
    by (simp add: demo_rt2_def demo_runtime_def)
  have one: "bt_get (rt_attachments demo_rt2) [1] = Some (demo_attachment 1 (SyncActive 1) True False (Some 0)) \<and>
      aa_sync (demo_attachment 1 (SyncActive 1) True False (Some 0)) = SyncActive 1"
    by (simp add: demo_rt2_def demo_runtime_def demo_attachment_def)
  have "\<exists>e. write_input demo_terminal [2] [65] demo_rt2 = (demo_rt2, Err e)" using acts no by blast
  moreover have "write_input demo_terminal [1] [65] demo_rt2 = (demo_rt2\<lparr>rt_shared := fst (to_write_input demo_terminal [65] (rt_shared demo_rt2))\<rparr>,
      snd (to_write_input demo_terminal [65] (rt_shared demo_rt2)))" using acts one by blast
  ultimately show ?thesis by (simp add: demo_terminal_def demo_rt2_def demo_runtime_def)
qed

theorem lost_lease_never_returns_witness:
  "rt_controller (aw_runtime (demo_world (demo_attach 1 False @ (demo_attach 2 True @ demo_takeover) @ [ActHandleDropped [2]]))) \<noteq>
    Some \<lparr>lease_attachment_id = [1], lease_generation = 1\<rparr>"
proof -
  have held: "rt_controller (aw_runtime (demo_world (demo_attach 1 False))) = Some \<lparr>lease_attachment_id = [1], lease_generation = 1\<rparr>"
    "aw_at (demo_world (demo_attach 1 False)) \<noteq> AtDone"
    by (simp_all add: demo_controlled demo_rt1_def demo_runtime_def)
  show ?thesis
    using lost_lease_never_returns[OF held[unfolded demo_world_def], of "demo_attach 2 True @ demo_takeover" "[ActHandleDropped [2]]"]
      demo_taken_over
    by (simp add: demo_world_def)
qed

lemma demo_answers: "terminal_answers demo_terminal"
  by (simp add: terminal_answers_def demo_terminal_def full_sync_def)

theorem takeover_commits_witness:
  "let (rt', res) = takeover demo_terminal (RemoteEndpoint [2] 1) [2] (replay_key_new (RemoteEndpoint [2] 1) 1, demo_operation) False demo_rt2
   in res = Ok () \<and> require_resize_controller [2] rt' = Ok 2 \<and> write_input demo_terminal [1] [65] rt' = (rt', Err LeaseLost)"
proof -
  obtain rt' res where run: "takeover demo_terminal (aa_principal (demo_attachment 2 SyncPrepared False True (Some 0))) [2]
      (replay_key_new (RemoteEndpoint [2] 1) 1, demo_operation) False demo_rt2 = (rt', res)"
    by (cases "takeover demo_terminal (aa_principal (demo_attachment 2 SyncPrepared False True (Some 0))) [2]
      (replay_key_new (RemoteEndpoint [2] 1) 1, demo_operation) False demo_rt2")
  have w: "demo_rt2 = aw_runtime (actor_run demo_terminal default_limits [] [] \<lparr>sz_rows = 1, sz_columns = 1\<rparr> (demo_attach 1 False @ demo_attach 2 True))"
    "aw_at (actor_run demo_terminal default_limits [] [] \<lparr>sz_rows = 1, sz_columns = 1\<rparr> (demo_attach 1 False @ demo_attach 2 True)) \<noteq> AtDone"
    using demo_contended unfolding demo_world_def by simp_all
  have "res = Ok () \<and> (1::nat) < rt_next_generation demo_rt2 + 1 \<and>
      require_resize_controller [2] rt' = Ok (rt_next_generation demo_rt2 + 1) \<and>
      ([1], LifecycleLeaseLost (rt_next_generation demo_rt2 + 1)) \<in> set (rt_sent rt') \<and>
      write_input demo_terminal [1] [65] rt' = (rt', Err LeaseLost)"
    by (rule takeover_commits[OF w demo_answers _ _ _ _ run])
      (simp_all add: demo_rt2_def demo_runtime_def demo_attachment_def takeover_prepared_def)
  then show ?thesis using run by (simp add: demo_attachment_def demo_rt2_def demo_runtime_def)
qed

theorem session_end_completes_witness:
  "let (w, outs) = trace_run (actor_step demo_terminal default_limits [])
      (demo_world (demo_attach 1 False @ [ActBeginEnd ExplicitClose, ActInterrupted (Ok ())]))
      (ActBeginEnd DaemonStop # replicate 3 (ActWorker (demo_input CmdWake)))
   in aw_at w = AtDone \<and> session_over ExplicitClose w \<and> ([1], LifecycleEnded ExplicitClose) \<in> set (rt_sent (aw_runtime w))"
proof -
  let ?w = "demo_world (demo_attach 1 False @ [ActBeginEnd ExplicitClose, ActInterrupted (Ok ())])"
  let ?evs = "ActBeginEnd DaemonStop # replicate 3 (ActWorker (demo_input CmdWake))"
  have w: "?w = \<lparr>aw_runtime = demo_rt1, aw_end = \<lparr>es_requested = Some ExplicitClose, es_interrupt = InterruptReady (Ok ()), es_result = None\<rparr>, aw_at = AtReap\<rparr>"
    using demo_controlled
    by (simp add: demo_world_def actor_run_append begin_end_def finish_interrupt_def end_state_default_def)
  obtain w' outs where run: "trace_run (actor_step demo_terminal default_limits []) ?w ?evs = (w', outs)"
    by (cases "trace_run (actor_step demo_terminal default_limits []) ?w ?evs")
  have "attached [1] (aw_runtime ?w)" by (simp add: w attached_def demo_rt1_def demo_runtime_def demo_attachment_def)
  moreover have "ti_received (demo_input CmdWake) \<noteq> RecvDisconnected" by (simp add: demo_input_def)
  moreover note session_end_completes[OF demo_answers demo_world_def _ _ _ _ run, of ExplicitClose]
  ultimately have "aw_at w' = AtDone \<and> session_over ExplicitClose w' \<and> [1] \<in> bt_keys (rt_attachments (aw_runtime w'))"
    by (auto simp: w worker_turn_def)
  then show ?thesis unfolding run by (simp add: session_over_def notified_def)
qed

theorem expired_command_never_runs_witness:
  "GateServed StartStarted \<notin> set (snd (trace_run (gate_step 1) CommandQueued [GateTimeout, GateServe end_state_default 0]))"
proof -
  have run: "trace_run (gate_step 1) CommandQueued [GateTimeout, GateServe end_state_default 0] =
      (CommandExpired, [GateWaited (Some DeadlineExceeded), GateServed StartExpired])"
    by (simp add: gate_defs end_state_default_def)
  show ?thesis using expired_command_never_runs[OF run] unfolding run by simp
qed

end
