(* ===== verification/Std_Text.thy ===== *)
theory Std_Text
  imports Prelude
begin

section \<open>Text of the standard library\<close>

text \<open>
  The decoder of the standard library: \<open>utf8_scan\<close> looks at the front of a byte string the way
  \<open>str::from_utf8\<close> does and finds a character, a maximal invalid prefix, or the beginning of a
  character that goes on after the end.  \<open>from_utf8\<close> reports the length of the valid prefix and
  the \<open>error_len\<close> of the first error, \<open>from_utf8_lossy\<close> replaces every maximal invalid part by
  U+FFFD.  The lemmas relate them to the encoder \<open>utf8\<close> of the prelude.  Below them are the
  functions on strings that the terminal uses: splitting, parsing and printing of numbers.
\<close>

datatype utf8_scanned = ScanChar scalar nat | ScanInvalid nat | ScanIncomplete

text \<open>The number of continuation bytes a lead byte announces, and the range of the first one.\<close>

definition utf8_tail :: "byte \<Rightarrow> (nat \<times> nat \<times> nat) option" where
  "utf8_tail b = (let n = unat b in
     if 194 \<le> n \<and> n \<le> 223 then Some (1, 128, 191)
     else if n = 224 then Some (2, 160, 191)
     else if n = 237 then Some (2, 128, 159)
     else if 225 \<le> n \<and> n \<le> 239 then Some (2, 128, 191)
     else if n = 240 then Some (3, 144, 191)
     else if 241 \<le> n \<and> n \<le> 243 then Some (3, 128, 191)
     else if n = 244 then Some (3, 128, 143)
     else None)"

fun scan_tail :: "nat \<Rightarrow> nat \<Rightarrow> nat \<Rightarrow> nat \<Rightarrow> scalar \<Rightarrow> byte list \<Rightarrow> utf8_scanned" where
  "scan_tail 0 low high seen c bs = ScanChar c seen"
| "scan_tail (Suc n) low high seen c [] = ScanIncomplete"
| "scan_tail (Suc n) low high seen c (b # bs) =
    (if low \<le> unat b \<and> unat b \<le> high then scan_tail n 128 191 (Suc seen) (c * 64 + unat b mod 64) bs
     else ScanInvalid seen)"

fun utf8_scan :: "byte list \<Rightarrow> utf8_scanned" where
  "utf8_scan [] = ScanIncomplete"
| "utf8_scan (b # bs) =
    (if unat b < 128 then ScanChar (unat b) 1
     else case utf8_tail b of
       None \<Rightarrow> ScanInvalid 1
     | Some (n, low, high) \<Rightarrow> scan_tail n low high 1 (unat b mod 2 ^ (6 - n)) bs)"

lemma scan_tail_char:
  "scan_tail n low high seen c bs = ScanChar d k \<Longrightarrow> k = seen + n \<and> n \<le> length bs"
  by (induction n low high seen c bs rule: scan_tail.induct) (auto split: if_splits)

lemma scan_tail_invalid:
  "scan_tail n low high seen c bs = ScanInvalid k \<Longrightarrow> seen \<le> k \<and> k < seen + n \<and> k < seen + length bs"
  by (induction n low high seen c bs rule: scan_tail.induct) (auto split: if_splits)

lemma scan_tail_incomplete: "scan_tail n low high seen c bs = ScanIncomplete \<Longrightarrow> length bs < n"
  by (induction n low high seen c bs rule: scan_tail.induct) (auto split: if_splits)

lemma utf8_tail_length: "utf8_tail b = Some (n, low, high) \<Longrightarrow> 1 \<le> n \<and> n \<le> 3"
  by (auto simp: utf8_tail_def Let_def split: if_splits)

lemma utf8_scan_char: "utf8_scan bs = ScanChar c k \<Longrightarrow> 1 \<le> k \<and> k \<le> length bs \<and> k \<le> 4"
  by (cases bs) (auto split: if_splits option.splits dest!: scan_tail_char utf8_tail_length)

lemma utf8_scan_invalid: "utf8_scan bs = ScanInvalid k \<Longrightarrow> 1 \<le> k \<and> k \<le> length bs \<and> k \<le> 3"
  by (cases bs) (auto split: if_splits option.splits dest!: scan_tail_invalid utf8_tail_length)

lemma utf8_scan_incomplete: "utf8_scan bs = ScanIncomplete \<Longrightarrow> length bs \<le> 3"
  by (cases bs) (auto split: if_splits option.splits dest!: scan_tail_incomplete utf8_tail_length)

function from_utf8_loop :: "byte list \<Rightarrow> nat \<Rightarrow> rust_str \<Rightarrow> (rust_str, nat \<times> nat option) result" where
  "from_utf8_loop bs valid text' =
    (if bs = [] then Ok text'
     else case utf8_scan bs of
       ScanChar c k \<Rightarrow> from_utf8_loop (drop k bs) (valid + k) (text' @ [c])
     | ScanInvalid k \<Rightarrow> Err (valid, Some k)
     | ScanIncomplete \<Rightarrow> Err (valid, None))"
  by pat_completeness auto
termination
  by (relation "measure (\<lambda>(bs, _, _). length bs)") (auto dest: utf8_scan_char)

declare from_utf8_loop.simps [simp del]

definition from_utf8 :: "byte list \<Rightarrow> (rust_str, nat \<times> nat option) result" where
  "from_utf8 bs = from_utf8_loop bs 0 []"

function from_utf8_lossy :: "byte list \<Rightarrow> rust_str" where
  "from_utf8_lossy bs =
    (if bs = [] then []
     else case utf8_scan bs of
       ScanChar c k \<Rightarrow> c # from_utf8_lossy (drop k bs)
     | ScanInvalid k \<Rightarrow> 65533 # from_utf8_lossy (drop k bs)
     | ScanIncomplete \<Rightarrow> [65533])"
  by pat_completeness auto
termination
  by (relation "measure length") (auto dest: utf8_scan_char utf8_scan_invalid)

declare from_utf8_lossy.simps [simp del]

subsection \<open>Encoded text is decoded\<close>

lemma unat_byte_small: "n < 256 \<Longrightarrow> unat (word_of_nat n :: byte) = n"
  by (simp add: unat_of_nat)

lemma cont_unat: "unat (word_of_nat (128 + x mod 64) :: byte) = 128 + x mod 64"
proof -
  have "x mod 64 < 64" by simp
  then have "128 + x mod 64 < 256" by linarith
  then show ?thesis by (rule unat_byte_small)
qed

lemma cont_mod: "r < 64 \<Longrightarrow> (128 + r) mod 64 = (r::nat)"
  by (simp add: mod_if[of "128 + r"] mod_if[of "64 + r"])

text \<open>Bytes with given numbers: a lead byte and its continuations.\<close>

lemma scan_two:
  assumes b: "unat b0 = 192 + q" "unat b1 = 128 + r" and q: "2 \<le> q" "q < 32" and r: "r < 64"
  shows "utf8_scan (b0 # b1 # rest) = ScanChar (q * 64 + r) 2"
proof -
  have "utf8_tail b0 = Some (1, 128, 191)" using q by (simp add: utf8_tail_def b Let_def)
  moreover have "(192 + q) mod 32 = q" using q by (simp add: mod_if[of "192 + q"] le_mod_geq)
  ultimately show ?thesis using r by (simp add: b cont_mod)
qed

lemma scan_three:
  assumes b: "unat b0 = 224 + q" "unat b1 = 128 + r" "unat b2 = 128 + t" and q: "q < 16" and r: "r < 64" "t < 64"
    and ranges: "q = 0 \<Longrightarrow> 32 \<le> r" "q = 13 \<Longrightarrow> r \<le> 31"
  shows "utf8_scan (b0 # b1 # b2 # rest) = ScanChar ((q * 64 + r) * 64 + t) 3"
proof -
  have "utf8_tail b0 = Some (Suc (Suc 0), if q = 0 then 160 else 128, if q = 13 then 159 else 191)"
    using q by (auto simp: utf8_tail_def b Let_def)
  moreover have "(224 + q) mod 16 = q" using q by (simp add: mod_if[of "224 + q"] le_mod_geq)
  ultimately show ?thesis using r ranges by (simp add: b cont_mod)
qed

lemma scan_four:
  assumes b: "unat b0 = 240 + q" "unat b1 = 128 + r" "unat b2 = 128 + t" "unat b3 = 128 + u"
    and q: "q < 5" and r: "r < 64" "t < 64" "u < 64" and ranges: "q = 0 \<Longrightarrow> 16 \<le> r" "q = 4 \<Longrightarrow> r \<le> 15"
  shows "utf8_scan (b0 # b1 # b2 # b3 # rest) = ScanChar (((q * 64 + r) * 64 + t) * 64 + u) 4"
proof -
  have "utf8_tail b0 = Some (Suc (Suc (Suc 0)), if q = 0 then 144 else 128, if q = 4 then 143 else 191)"
    using q by (auto simp: utf8_tail_def b Let_def)
  moreover have "(240 + q) mod 8 = q" using q by (simp add: mod_if[of "240 + q"] le_mod_geq)
  ultimately show ?thesis using r ranges by (simp add: b cont_mod)
qed

lemma scalar_quotients:
  fixes c :: nat
  shows "c div 4096 * 64 + c div 64 mod 64 = c div 64" "c div 262144 * 64 + c div 4096 mod 64 = c div 4096"
proof -
  have step: "m div 64 * 64 + m mod 64 = m" for m :: nat by (simp add: mult.commute)
  have "c div 4096 = c div 64 div 64" "c div 262144 = c div 4096 div 64" by (simp_all add: div_mult2_eq[symmetric])
  then show "c div 4096 * 64 + c div 64 mod 64 = c div 64" "c div 262144 * 64 + c div 4096 mod 64 = c div 4096"
    by (simp_all only: step)
qed

lemma scalar_parts:
  fixes c :: nat
  shows "c div 64 * 64 + c mod 64 = c" "(c div 4096 * 64 + c div 64 mod 64) * 64 + c mod 64 = c"
    "((c div 262144 * 64 + c div 4096 mod 64) * 64 + c div 64 mod 64) * 64 + c mod 64 = c"
  by (simp_all only: scalar_quotients) (simp_all add: mult.commute)

lemma utf8_scan_encoded:
  assumes c: "is_scalar c"
  shows "utf8_scan (utf8_char c @ rest) = ScanChar c (len_utf8 c)"
proof -
  have m: "x mod 64 < 64" for x :: nat by simp
  have max: "c < 1114112" using c by (auto simp: is_scalar_def)
  consider "c < 128" | "128 \<le> c" "c < 2048" | "2048 \<le> c" "c < 65536" | "65536 \<le> c" by linarith
  then show ?thesis
  proof cases
    case 1
    then show ?thesis by (simp add: utf8_char_def len_utf8_def unat_byte_small)
  next
    case 2
    then have q: "2 \<le> c div 64" "c div 64 < 32" by auto
    have "utf8_scan ([word_of_nat (192 + c div 64), word_of_nat (128 + c mod 64)] @ rest) = ScanChar (c div 64 * 64 + c mod 64) 2"
      unfolding append_Cons append_Nil
      by (rule scan_two[OF unat_byte_small cont_unat q m]) (use q in linarith)
    then show ?thesis using 2 by (simp only: utf8_char_def len_utf8_def scalar_parts) simp
  next
    case 3
    then have q: "c div 4096 < 16" by auto
    have "c div 64 mod 64 = c div 64" if "c div 4096 = 0" using that 3 by simp
    then have low: "32 \<le> c div 64 mod 64" if "c div 4096 = 0" using that 3 by simp
    have high: "c div 64 mod 64 \<le> 31" if "c div 4096 = 13"
    proof -
      have "c < 864 * 64" using that c by (auto simp: is_scalar_def)
      then have "c div 64 < 864" by (simp add: less_mult_imp_div_less)
      moreover have "c div 4096 * 64 + c div 64 mod 64 = c div 64" by (rule scalar_quotients)
      ultimately show ?thesis using that by linarith
    qed
    have "utf8_scan ([word_of_nat (224 + c div 4096), word_of_nat (128 + c div 64 mod 64), word_of_nat (128 + c mod 64)] @ rest) =
        ScanChar ((c div 4096 * 64 + c div 64 mod 64) * 64 + c mod 64) 3"
      unfolding append_Cons append_Nil
      by (rule scan_three[OF unat_byte_small cont_unat cont_unat q m m low high]) (use q in linarith)
    then show ?thesis using 3 by (simp only: utf8_char_def len_utf8_def scalar_parts) simp
  next
    case 4
    then have q: "c div 262144 < 5" using max by auto
    have low: "16 \<le> c div 4096 mod 64" if "c div 262144 = 0" using that 4 by simp
    have high: "c div 4096 mod 64 \<le> 15" if "c div 262144 = 4"
    proof -
      have "c < 272 * 4096" using max by simp
      then have "c div 4096 < 272" by (rule less_mult_imp_div_less)
      moreover have "c div 262144 * 64 + c div 4096 mod 64 = c div 4096" by (rule scalar_quotients)
      ultimately show ?thesis using that by linarith
    qed
    have "utf8_scan ([word_of_nat (240 + c div 262144), word_of_nat (128 + c div 4096 mod 64), word_of_nat (128 + c div 64 mod 64),
        word_of_nat (128 + c mod 64)] @ rest) =
        ScanChar (((c div 262144 * 64 + c div 4096 mod 64) * 64 + c div 64 mod 64) * 64 + c mod 64) 4"
      unfolding append_Cons append_Nil
      by (rule scan_four[OF unat_byte_small cont_unat cont_unat cont_unat q m m m low high]) (use q in linarith)
    then show ?thesis using 4 by (simp only: utf8_char_def len_utf8_def scalar_parts) simp
  qed
qed

lemma from_utf8_loop_encoded: "is_str s \<Longrightarrow> from_utf8_loop (utf8 s) valid acc = Ok (acc @ s)"
proof (induction s arbitrary: valid acc)
  case Nil
  then show ?case by (simp add: from_utf8_loop.simps)
next
  case (Cons c s)
  then have "is_scalar c" "is_str s" by (simp_all add: is_str_def)
  then show ?case
    using Cons.IH by (simp add: from_utf8_loop.simps[of "utf8_char c @ utf8 s"] utf8_scan_encoded)
qed

lemma from_utf8_encoded: "is_str s \<Longrightarrow> from_utf8 (utf8 s) = Ok s"
  by (simp add: from_utf8_def from_utf8_loop_encoded)

lemma from_utf8_lossy_encoded: "is_str s \<Longrightarrow> from_utf8_lossy (utf8 s) = s"
proof (induction s)
  case Nil
  then show ?case by (simp add: from_utf8_lossy.simps)
next
  case (Cons c s)
  then have "is_scalar c" "is_str s" by (simp_all add: is_str_def)
  then show ?case
    using Cons.IH by (simp add: from_utf8_lossy.simps[of "utf8_char c @ utf8 s"] utf8_scan_encoded)
qed

subsection \<open>Beginnings of characters\<close>

lemma scan_tail_prefix:
  "scan_tail n low high seen c bs = ScanChar d m \<Longrightarrow> k < n \<Longrightarrow> scan_tail n low high seen c (take k bs) = ScanIncomplete"
proof (induction n low high seen c bs arbitrary: k rule: scan_tail.induct)
  case (3 n low high seen c b bs)
  then show ?case by (cases k) (auto split: if_splits)
qed auto

lemma utf8_scan_prefix:
  assumes "utf8_scan bs = ScanChar c (length bs)" "0 < k" "k < length bs"
  shows "utf8_scan (take k bs) = ScanIncomplete"
proof (cases bs)
  case (Cons b rest)
  obtain j where k: "k = Suc j" using assms(2) by (cases k) auto
  show ?thesis
  proof (cases "utf8_tail b")
    case (Some t)
    obtain n low high where t: "t = (n, low, high)" by (cases t)
    show ?thesis
    proof (cases "unat b < 128")
      case False
      then have tail: "scan_tail n low high 1 (unat b mod 2 ^ (6 - n)) rest = ScanChar c (length bs)"
        using assms(1) by (simp add: Cons Some t)
      then have "j < n" using scan_tail_char[OF tail] assms(3) k by (simp add: Cons)
      then show ?thesis using scan_tail_prefix[OF tail, of j] False by (simp add: Cons k Some t)
    qed (use assms k in \<open>simp add: Cons\<close>)
  qed (use assms k in \<open>auto simp: Cons split: if_splits\<close>)
qed (use assms in simp)

lemma encoded_prefix_incomplete:
  assumes "is_scalar c" "0 < k" "k < len_utf8 c"
  shows "utf8_scan (take k (utf8_char c)) = ScanIncomplete"
  using utf8_scan_encoded[OF assms(1), of "[]"] assms by (intro utf8_scan_prefix) simp_all

lemma from_utf8_prefix:
  assumes "is_scalar c" "0 < k" "k < len_utf8 c"
  shows "from_utf8 (take k (utf8_char c)) = Err (0, None)"
  using encoded_prefix_incomplete[OF assms] assms(2,3)
  by (auto simp: from_utf8_def from_utf8_loop.simps)

lemma from_utf8_char: "is_scalar c \<Longrightarrow> from_utf8 (utf8_char c) = Ok [c]"
  using from_utf8_encoded[of "[c]"] by (simp add: is_str_def)

subsection \<open>Splitting, parsing and printing\<close>

text \<open>\<open>str::split_once\<close>, \<open>strip_prefix\<close> and \<open>parse::<u16>\<close> of the standard library.\<close>

definition split_once :: "'a \<Rightarrow> 'a list \<Rightarrow> ('a list \<times> 'a list) option" where
  "split_once d s = (if d \<in> set s then Some (takeWhile (\<lambda>c. c \<noteq> d) s, tl (dropWhile (\<lambda>c. c \<noteq> d) s)) else None)"

definition strip_prefix :: "'a list \<Rightarrow> 'a list \<Rightarrow> 'a list option" where
  "strip_prefix p s = (if take (length p) s = p then Some (drop (length p) s) else None)"

definition digits_value :: "rust_str \<Rightarrow> nat option" where
  "digits_value s = (if s \<noteq> [] \<and> list_all is_ascii_digit s then Some (foldl (\<lambda>n c. n * 10 + (c - 48)) 0 s) else None)"

text \<open>\<open>parse\<close> at the given maximum; a single leading plus sign is accepted.\<close>

definition parse_uint :: "nat \<Rightarrow> rust_str \<Rightarrow> nat option" where
  "parse_uint limit s = Option.bind (digits_value (case s of c # cs \<Rightarrow> if c = 43 then cs else s | [] \<Rightarrow> []))
     (\<lambda>n. if n \<le> limit then Some n else None)"

fun split_on :: "'a \<Rightarrow> 'a list \<Rightarrow> 'a list list" where
  "split_on d [] = [[]]"
| "split_on d (c # cs) =
    (if c = d then [] # split_on d cs
     else case split_on d cs of f # fs \<Rightarrow> (c # f) # fs | [] \<Rightarrow> [[c]])"

fun decimal :: "nat \<Rightarrow> rust_str" where
  "decimal n = (if n < 10 then [48 + n] else decimal (n div 10) @ [48 + n mod 10])"

declare decimal.simps [simp del]

primrec join_with :: "'a list \<Rightarrow> 'a list list \<Rightarrow> 'a list" where
  "join_with d [] = []"
| "join_with d (s # ss) = s @ concat (map (\<lambda>t. d @ t) ss)"


end
