(* ===== verification/Host_Effects.thy ===== *)
theory Host_Effects
  imports Terminal_Surface Std_Text
begin

section \<open>Host effects of terminal output\<close>

text \<open>
  The validated values of \<open>core/src/terminal.rs\<close> and \<open>core/src/terminal/notifications.rs\<close> that
  terminal output may cause outside the screen: clipboard writes, notifications and side events.
  Strings are lists of Unicode scalars; \<open>str_len\<close> is the length of the UTF-8 form.
\<close>

subsection \<open>Clipboard writes\<close>

datatype clipboard_error = ClipboardEmpty | ClipboardTooLarge | ClipboardContainsNul

definition clipboard_write_new :: "rust_str \<Rightarrow> (rust_str, clipboard_error) result" where
  "clipboard_write_new txt =
    (if txt = [] then Err ClipboardEmpty
     else if str_len txt > MAX_TERMINAL_CLIPBOARD_BYTES then Err ClipboardTooLarge
     else if 0 \<in> set txt then Err ClipboardContainsNul
     else Ok txt)"

subsection \<open>Notifications\<close>

definition MAX_TERMINAL_NOTIFICATION_BYTES :: nat where "MAX_TERMINAL_NOTIFICATION_BYTES = 1024"
definition MAX_PENDING_TERMINAL_NOTIFICATIONS :: nat where "MAX_PENDING_TERMINAL_NOTIFICATIONS = 32"
definition MAX_SIDE_EVENTS_PER_UPDATE :: nat where "MAX_SIDE_EVENTS_PER_UPDATE = 32"

datatype notification_error = NotificationEmpty | NotificationTooLarge | NotificationControl | NotificationSubcommand
  | NotificationTitleDelimiter

record notification =
  nt_title :: "rust_str option"
  nt_body :: rust_str

definition notification_validated :: "rust_str option \<Rightarrow> rust_str \<Rightarrow> (notification, notification_error) result" where
  "notification_validated title body =
    (let title_text = (case title of Some t \<Rightarrow> t | None \<Rightarrow> []);
         overhead = (if title \<noteq> None then length ''777;notify;;'' else length ''9;'') in
     if title_text = [] \<and> body = [] then Err NotificationEmpty
     else if str_len title_text + str_len body + overhead > MAX_TERMINAL_NOTIFICATION_BYTES then Err NotificationTooLarge
     else if list_ex is_control (title_text @ body) then Err NotificationControl
     else Ok \<lparr>nt_title = title, nt_body = body\<rparr>)"

definition osc9 :: "rust_str \<Rightarrow> (notification, notification_error) result" where
  "osc9 message =
    (if message = lit ''4'' \<or> (case split_once 59 message of
          Some (pre, _) \<Rightarrow> pre \<noteq> [] \<and> list_all is_ascii_digit pre | None \<Rightarrow> False)
     then Err NotificationSubcommand
     else notification_validated None message)"

definition osc777 :: "rust_str \<Rightarrow> rust_str \<Rightarrow> (notification, notification_error) result" where
  "osc777 title body =
    (if 59 \<in> set title then Err NotificationTitleDelimiter else notification_validated (Some title) body)"

definition notification_push :: "notification \<Rightarrow> notification list \<Rightarrow> notification list" where
  "notification_push n queue =
    (if length queue = MAX_PENDING_TERMINAL_NOTIFICATIONS then tl queue @ [n] else queue @ [n])"

subsection \<open>Effects and side events\<close>

datatype host_effect = EffectClipboardWrite rust_str | EffectNotification notification

record host_effects =
  he_clipboard :: "rust_str option"
  he_notifications :: "notification list"

definition host_effects_default :: host_effects where
  "host_effects_default = \<lparr>he_clipboard = None, he_notifications = []\<rparr>"

primrec host_effects_push :: "host_effect \<Rightarrow> host_effects \<Rightarrow> host_effects" where
  "host_effects_push (EffectClipboardWrite w) he = he\<lparr>he_clipboard := Some w\<rparr>"
| "host_effects_push (EffectNotification n) he = he\<lparr>he_notifications := notification_push n (he_notifications he)\<rparr>"

definition host_effects_pop :: "host_effects \<Rightarrow> host_effects \<times> host_effect option" where
  "host_effects_pop he =
    (case he_clipboard he of
       Some w \<Rightarrow> (he\<lparr>he_clipboard := None\<rparr>, Some (EffectClipboardWrite w))
     | None \<Rightarrow>
         (case he_notifications he of
            n # rest \<Rightarrow> (he\<lparr>he_notifications := rest\<rparr>, Some (EffectNotification n))
          | [] \<Rightarrow> (he, None)))"

definition host_effects_clear :: "host_effects \<Rightarrow> host_effects" where
  "host_effects_clear he = he\<lparr>he_clipboard := None, he_notifications := []\<rparr>"

datatype rejected_effect = RejectedClipboardWrite | RejectedClipboardRead

datatype unsupported_kind = UnsupportedCharacter | UnsupportedControl | UnsupportedEscape | UnsupportedCsi | UnsupportedOsc

datatype side_event =
    AudibleBell
  | VisualBell
  | ResizeRequested terminal_size
  | TitleChanged rust_str bool
  | IconNameChanged rust_str bool
  | EffectRejected rejected_effect
  | UnsupportedSequence unsupported_kind
  | EventsDropped nat

text \<open>What the constructors promise.\<close>

definition effects_ok :: "host_effects \<Rightarrow> bool" where
  "effects_ok he \<longleftrightarrow>
    (\<forall>w. he_clipboard he = Some w \<longrightarrow> clipboard_write_new w = Ok w) \<and>
    length (he_notifications he) \<le> MAX_PENDING_TERMINAL_NOTIFICATIONS \<and>
    (\<forall>n \<in> set (he_notifications he). notification_validated (nt_title n) (nt_body n) = Ok n)"

lemma effects_ok_default: "effects_ok host_effects_default"
  by (simp add: effects_ok_def host_effects_default_def)

lemma clipboard_write_Ok: "clipboard_write_new txt = Ok w \<Longrightarrow> w = txt \<and> clipboard_write_new w = Ok w"
  by (auto simp: clipboard_write_new_def split: if_splits)

lemma notification_validated_Ok:
  "notification_validated title body = Ok n \<Longrightarrow> notification_validated (nt_title n) (nt_body n) = Ok n"
  by (auto simp: notification_validated_def Let_def split: if_splits option.splits)

lemma osc9_Ok: "osc9 m = Ok n \<Longrightarrow> notification_validated (nt_title n) (nt_body n) = Ok n"
  by (auto simp: osc9_def dest: notification_validated_Ok split: if_splits option.splits)

lemma osc777_Ok: "osc777 title body = Ok n \<Longrightarrow> notification_validated (nt_title n) (nt_body n) = Ok n"
  by (auto simp: osc777_def dest: notification_validated_Ok split: if_splits)

lemma effects_ok_push_clipboard: "effects_ok he \<Longrightarrow> clipboard_write_new w = Ok w \<Longrightarrow> effects_ok (host_effects_push (EffectClipboardWrite w) he)"
  by (simp add: effects_ok_def)

lemma effects_ok_push_notification:
  assumes "effects_ok he" "notification_validated (nt_title n) (nt_body n) = Ok n"
  shows "effects_ok (host_effects_push (EffectNotification n) he)"
proof -
  have "set (notification_push n q) \<subseteq> insert n (set q)" for q
    by (cases q) (auto simp: notification_push_def)
  moreover have "length (notification_push n q) \<le> MAX_PENDING_TERMINAL_NOTIFICATIONS"
    if "length q \<le> MAX_PENDING_TERMINAL_NOTIFICATIONS" for q
    using that by (auto simp: notification_push_def MAX_PENDING_TERMINAL_NOTIFICATIONS_def)
  ultimately show ?thesis using assms by (force simp: effects_ok_def)
qed

end
