(* ===== verification/Color_Names.thy ===== *)
theory Color_Names
  imports Std_Text
begin

section \<open>The table of colour names\<close>

text \<open>
  \<open>terminal/src/color_names.rs\<close>: the X11 colour names and the search in them.  \<open>binary_search\<close> is the
  search of the standard library over a slice; it relies on the table being sorted by name, which
  \<open>COLORS_sorted\<close> establishes for this table, so that the search agrees with a scan of it.
\<close>

text \<open>The order of \<open>&str\<close>.\<close>

fun str_less :: "rust_str \<Rightarrow> rust_str \<Rightarrow> bool" where
  "str_less _ [] = False"
| "str_less [] (d # ds) = True"
| "str_less (c # cs) (d # ds) = (c < d \<or> (c = d \<and> str_less cs ds))"

function binary_search :: "(rust_str \<times> 'v) list \<Rightarrow> rust_str \<Rightarrow> nat \<Rightarrow> nat \<Rightarrow> nat option" where
  "binary_search xs name lo hi =
    (if lo < hi then
       (let mid = (lo + hi) div 2; key = fst (xs ! mid) in
        if key = name then Some mid
        else if str_less key name then binary_search xs name (mid + 1) hi
        else binary_search xs name lo mid)
     else None)"
  by pat_completeness auto
termination by (relation "measure (\<lambda>(xs, name, lo, hi). hi - lo)") auto

declare binary_search.simps [simp del]

definition COLORS_A :: "(rust_str \<times> byte \<times> byte \<times> byte) list" where
  "COLORS_A = [
   (lit ''alice blue'', 240, 248, 255),
   (lit ''aliceblue'', 240, 248, 255),
   (lit ''antique white'', 250, 235, 215),
   (lit ''antiquewhite'', 250, 235, 215),
   (lit ''antiquewhite1'', 255, 239, 219),
   (lit ''antiquewhite2'', 238, 223, 204),
   (lit ''antiquewhite3'', 205, 192, 176),
   (lit ''antiquewhite4'', 139, 131, 120),
   (lit ''aqua'', 0, 255, 255),
   (lit ''aquamarine'', 127, 255, 212),
   (lit ''aquamarine1'', 127, 255, 212),
   (lit ''aquamarine2'', 118, 238, 198),
   (lit ''aquamarine3'', 102, 205, 170),
   (lit ''aquamarine4'', 69, 139, 116),
   (lit ''azure'', 240, 255, 255),
   (lit ''azure1'', 240, 255, 255),
   (lit ''azure2'', 224, 238, 238),
   (lit ''azure3'', 193, 205, 205),
   (lit ''azure4'', 131, 139, 139),
   (lit ''beige'', 245, 245, 220),
   (lit ''bisque'', 255, 228, 196),
   (lit ''bisque1'', 255, 228, 196),
   (lit ''bisque2'', 238, 213, 183),
   (lit ''bisque3'', 205, 183, 158),
   (lit ''bisque4'', 139, 125, 107),
   (lit ''black'', 0, 0, 0),
   (lit ''blanched almond'', 255, 235, 205),
   (lit ''blanchedalmond'', 255, 235, 205),
   (lit ''blue'', 0, 0, 255),
   (lit ''blue violet'', 138, 43, 226),
   (lit ''blue1'', 0, 0, 255),
   (lit ''blue2'', 0, 0, 238),
   (lit ''blue3'', 0, 0, 205),
   (lit ''blue4'', 0, 0, 139),
   (lit ''blueviolet'', 138, 43, 226),
   (lit ''brown'', 165, 42, 42),
   (lit ''brown1'', 255, 64, 64),
   (lit ''brown2'', 238, 59, 59),
   (lit ''brown3'', 205, 51, 51),
   (lit ''brown4'', 139, 35, 35),
   (lit ''burlywood'', 222, 184, 135),
   (lit ''burlywood1'', 255, 211, 155),
   (lit ''burlywood2'', 238, 197, 145),
   (lit ''burlywood3'', 205, 170, 125),
   (lit ''burlywood4'', 139, 115, 85),
   (lit ''cadet blue'', 95, 158, 160),
   (lit ''cadetblue'', 95, 158, 160),
   (lit ''cadetblue1'', 152, 245, 255),
   (lit ''cadetblue2'', 142, 229, 238),
   (lit ''cadetblue3'', 122, 197, 205),
   (lit ''cadetblue4'', 83, 134, 139),
   (lit ''chartreuse'', 127, 255, 0),
   (lit ''chartreuse1'', 127, 255, 0),
   (lit ''chartreuse2'', 118, 238, 0),
   (lit ''chartreuse3'', 102, 205, 0),
   (lit ''chartreuse4'', 69, 139, 0),
   (lit ''chocolate'', 210, 105, 30),
   (lit ''chocolate1'', 255, 127, 36),
   (lit ''chocolate2'', 238, 118, 33),
   (lit ''chocolate3'', 205, 102, 29),
   (lit ''chocolate4'', 139, 69, 19),
   (lit ''coral'', 255, 127, 80),
   (lit ''coral1'', 255, 114, 86),
   (lit ''coral2'', 238, 106, 80),
   (lit ''coral3'', 205, 91, 69),
   (lit ''coral4'', 139, 62, 47),
   (lit ''cornflower blue'', 100, 149, 237),
   (lit ''cornflowerblue'', 100, 149, 237),
   (lit ''cornsilk'', 255, 248, 220),
   (lit ''cornsilk1'', 255, 248, 220),
   (lit ''cornsilk2'', 238, 232, 205),
   (lit ''cornsilk3'', 205, 200, 177),
   (lit ''cornsilk4'', 139, 136, 120),
   (lit ''crimson'', 220, 20, 60),
   (lit ''cyan'', 0, 255, 255),
   (lit ''cyan1'', 0, 255, 255),
   (lit ''cyan2'', 0, 238, 238),
   (lit ''cyan3'', 0, 205, 205),
   (lit ''cyan4'', 0, 139, 139),
   (lit ''dark blue'', 0, 0, 139),
   (lit ''dark cyan'', 0, 139, 139),
   (lit ''dark goldenrod'', 184, 134, 11),
   (lit ''dark gray'', 169, 169, 169),
   (lit ''dark green'', 0, 100, 0),
   (lit ''dark grey'', 169, 169, 169),
   (lit ''dark khaki'', 189, 183, 107),
   (lit ''dark magenta'', 139, 0, 139),
   (lit ''dark olive green'', 85, 107, 47),
   (lit ''dark orange'', 255, 140, 0),
   (lit ''dark orchid'', 153, 50, 204),
   (lit ''dark red'', 139, 0, 0),
   (lit ''dark salmon'', 233, 150, 122),
   (lit ''dark sea green'', 143, 188, 143),
   (lit ''dark slate blue'', 72, 61, 139),
   (lit ''dark slate gray'', 47, 79, 79),
   (lit ''dark slate grey'', 47, 79, 79),
   (lit ''dark turquoise'', 0, 206, 209),
   (lit ''dark violet'', 148, 0, 211),
   (lit ''darkblue'', 0, 0, 139),
   (lit ''darkcyan'', 0, 139, 139),
   (lit ''darkgoldenrod'', 184, 134, 11),
   (lit ''darkgoldenrod1'', 255, 185, 15),
   (lit ''darkgoldenrod2'', 238, 173, 14),
   (lit ''darkgoldenrod3'', 205, 149, 12),
   (lit ''darkgoldenrod4'', 139, 101, 8),
   (lit ''darkgray'', 169, 169, 169),
   (lit ''darkgreen'', 0, 100, 0),
   (lit ''darkgrey'', 169, 169, 169),
   (lit ''darkkhaki'', 189, 183, 107),
   (lit ''darkmagenta'', 139, 0, 139),
   (lit ''darkolivegreen'', 85, 107, 47),
   (lit ''darkolivegreen1'', 202, 255, 112),
   (lit ''darkolivegreen2'', 188, 238, 104),
   (lit ''darkolivegreen3'', 162, 205, 90),
   (lit ''darkolivegreen4'', 110, 139, 61),
   (lit ''darkorange'', 255, 140, 0),
   (lit ''darkorange1'', 255, 127, 0),
   (lit ''darkorange2'', 238, 118, 0),
   (lit ''darkorange3'', 205, 102, 0),
   (lit ''darkorange4'', 139, 69, 0),
   (lit ''darkorchid'', 153, 50, 204),
   (lit ''darkorchid1'', 191, 62, 255),
   (lit ''darkorchid2'', 178, 58, 238),
   (lit ''darkorchid3'', 154, 50, 205),
   (lit ''darkorchid4'', 104, 34, 139),
   (lit ''darkred'', 139, 0, 0),
   (lit ''darksalmon'', 233, 150, 122),
   (lit ''darkseagreen'', 143, 188, 143),
   (lit ''darkseagreen1'', 193, 255, 193),
   (lit ''darkseagreen2'', 180, 238, 180),
   (lit ''darkseagreen3'', 155, 205, 155)]"

definition COLORS_B :: "(rust_str \<times> byte \<times> byte \<times> byte) list" where
  "COLORS_B = [
   (lit ''darkseagreen4'', 105, 139, 105),
   (lit ''darkslateblue'', 72, 61, 139),
   (lit ''darkslategray'', 47, 79, 79),
   (lit ''darkslategray1'', 151, 255, 255),
   (lit ''darkslategray2'', 141, 238, 238),
   (lit ''darkslategray3'', 121, 205, 205),
   (lit ''darkslategray4'', 82, 139, 139),
   (lit ''darkslategrey'', 47, 79, 79),
   (lit ''darkturquoise'', 0, 206, 209),
   (lit ''darkviolet'', 148, 0, 211),
   (lit ''deep pink'', 255, 20, 147),
   (lit ''deep sky blue'', 0, 191, 255),
   (lit ''deeppink'', 255, 20, 147),
   (lit ''deeppink1'', 255, 20, 147),
   (lit ''deeppink2'', 238, 18, 137),
   (lit ''deeppink3'', 205, 16, 118),
   (lit ''deeppink4'', 139, 10, 80),
   (lit ''deepskyblue'', 0, 191, 255),
   (lit ''deepskyblue1'', 0, 191, 255),
   (lit ''deepskyblue2'', 0, 178, 238),
   (lit ''deepskyblue3'', 0, 154, 205),
   (lit ''deepskyblue4'', 0, 104, 139),
   (lit ''dim gray'', 105, 105, 105),
   (lit ''dim grey'', 105, 105, 105),
   (lit ''dimgray'', 105, 105, 105),
   (lit ''dimgrey'', 105, 105, 105),
   (lit ''dodger blue'', 30, 144, 255),
   (lit ''dodgerblue'', 30, 144, 255),
   (lit ''dodgerblue1'', 30, 144, 255),
   (lit ''dodgerblue2'', 28, 134, 238),
   (lit ''dodgerblue3'', 24, 116, 205),
   (lit ''dodgerblue4'', 16, 78, 139),
   (lit ''firebrick'', 178, 34, 34),
   (lit ''firebrick1'', 255, 48, 48),
   (lit ''firebrick2'', 238, 44, 44),
   (lit ''firebrick3'', 205, 38, 38),
   (lit ''firebrick4'', 139, 26, 26),
   (lit ''floral white'', 255, 250, 240),
   (lit ''floralwhite'', 255, 250, 240),
   (lit ''forest green'', 34, 139, 34),
   (lit ''forestgreen'', 34, 139, 34),
   (lit ''fuchsia'', 255, 0, 255),
   (lit ''gainsboro'', 220, 220, 220),
   (lit ''ghost white'', 248, 248, 255),
   (lit ''ghostwhite'', 248, 248, 255),
   (lit ''gold'', 255, 215, 0),
   (lit ''gold1'', 255, 215, 0),
   (lit ''gold2'', 238, 201, 0),
   (lit ''gold3'', 205, 173, 0),
   (lit ''gold4'', 139, 117, 0),
   (lit ''goldenrod'', 218, 165, 32),
   (lit ''goldenrod1'', 255, 193, 37),
   (lit ''goldenrod2'', 238, 180, 34),
   (lit ''goldenrod3'', 205, 155, 29),
   (lit ''goldenrod4'', 139, 105, 20),
   (lit ''gray'', 190, 190, 190),
   (lit ''gray0'', 0, 0, 0),
   (lit ''gray1'', 3, 3, 3),
   (lit ''gray10'', 26, 26, 26),
   (lit ''gray100'', 255, 255, 255),
   (lit ''gray11'', 28, 28, 28),
   (lit ''gray12'', 31, 31, 31),
   (lit ''gray13'', 33, 33, 33),
   (lit ''gray14'', 36, 36, 36),
   (lit ''gray15'', 38, 38, 38),
   (lit ''gray16'', 41, 41, 41),
   (lit ''gray17'', 43, 43, 43),
   (lit ''gray18'', 46, 46, 46),
   (lit ''gray19'', 48, 48, 48),
   (lit ''gray2'', 5, 5, 5),
   (lit ''gray20'', 51, 51, 51),
   (lit ''gray21'', 54, 54, 54),
   (lit ''gray22'', 56, 56, 56),
   (lit ''gray23'', 59, 59, 59),
   (lit ''gray24'', 61, 61, 61),
   (lit ''gray25'', 64, 64, 64),
   (lit ''gray26'', 66, 66, 66),
   (lit ''gray27'', 69, 69, 69),
   (lit ''gray28'', 71, 71, 71),
   (lit ''gray29'', 74, 74, 74),
   (lit ''gray3'', 8, 8, 8),
   (lit ''gray30'', 77, 77, 77),
   (lit ''gray31'', 79, 79, 79),
   (lit ''gray32'', 82, 82, 82),
   (lit ''gray33'', 84, 84, 84),
   (lit ''gray34'', 87, 87, 87),
   (lit ''gray35'', 89, 89, 89),
   (lit ''gray36'', 92, 92, 92),
   (lit ''gray37'', 94, 94, 94),
   (lit ''gray38'', 97, 97, 97),
   (lit ''gray39'', 99, 99, 99),
   (lit ''gray4'', 10, 10, 10),
   (lit ''gray40'', 102, 102, 102),
   (lit ''gray41'', 105, 105, 105),
   (lit ''gray42'', 107, 107, 107),
   (lit ''gray43'', 110, 110, 110),
   (lit ''gray44'', 112, 112, 112),
   (lit ''gray45'', 115, 115, 115),
   (lit ''gray46'', 117, 117, 117),
   (lit ''gray47'', 120, 120, 120),
   (lit ''gray48'', 122, 122, 122),
   (lit ''gray49'', 125, 125, 125),
   (lit ''gray5'', 13, 13, 13),
   (lit ''gray50'', 127, 127, 127),
   (lit ''gray51'', 130, 130, 130),
   (lit ''gray52'', 133, 133, 133),
   (lit ''gray53'', 135, 135, 135),
   (lit ''gray54'', 138, 138, 138),
   (lit ''gray55'', 140, 140, 140),
   (lit ''gray56'', 143, 143, 143),
   (lit ''gray57'', 145, 145, 145),
   (lit ''gray58'', 148, 148, 148),
   (lit ''gray59'', 150, 150, 150),
   (lit ''gray6'', 15, 15, 15),
   (lit ''gray60'', 153, 153, 153),
   (lit ''gray61'', 156, 156, 156),
   (lit ''gray62'', 158, 158, 158),
   (lit ''gray63'', 161, 161, 161),
   (lit ''gray64'', 163, 163, 163),
   (lit ''gray65'', 166, 166, 166),
   (lit ''gray66'', 168, 168, 168),
   (lit ''gray67'', 171, 171, 171),
   (lit ''gray68'', 173, 173, 173),
   (lit ''gray69'', 176, 176, 176),
   (lit ''gray7'', 18, 18, 18),
   (lit ''gray70'', 179, 179, 179),
   (lit ''gray71'', 181, 181, 181),
   (lit ''gray72'', 184, 184, 184),
   (lit ''gray73'', 186, 186, 186),
   (lit ''gray74'', 189, 189, 189),
   (lit ''gray75'', 191, 191, 191)]"

definition COLORS_C :: "(rust_str \<times> byte \<times> byte \<times> byte) list" where
  "COLORS_C = [
   (lit ''gray76'', 194, 194, 194),
   (lit ''gray77'', 196, 196, 196),
   (lit ''gray78'', 199, 199, 199),
   (lit ''gray79'', 201, 201, 201),
   (lit ''gray8'', 20, 20, 20),
   (lit ''gray80'', 204, 204, 204),
   (lit ''gray81'', 207, 207, 207),
   (lit ''gray82'', 209, 209, 209),
   (lit ''gray83'', 212, 212, 212),
   (lit ''gray84'', 214, 214, 214),
   (lit ''gray85'', 217, 217, 217),
   (lit ''gray86'', 219, 219, 219),
   (lit ''gray87'', 222, 222, 222),
   (lit ''gray88'', 224, 224, 224),
   (lit ''gray89'', 227, 227, 227),
   (lit ''gray9'', 23, 23, 23),
   (lit ''gray90'', 229, 229, 229),
   (lit ''gray91'', 232, 232, 232),
   (lit ''gray92'', 235, 235, 235),
   (lit ''gray93'', 237, 237, 237),
   (lit ''gray94'', 240, 240, 240),
   (lit ''gray95'', 242, 242, 242),
   (lit ''gray96'', 245, 245, 245),
   (lit ''gray97'', 247, 247, 247),
   (lit ''gray98'', 250, 250, 250),
   (lit ''gray99'', 252, 252, 252),
   (lit ''green'', 0, 255, 0),
   (lit ''green yellow'', 173, 255, 47),
   (lit ''green1'', 0, 255, 0),
   (lit ''green2'', 0, 238, 0),
   (lit ''green3'', 0, 205, 0),
   (lit ''green4'', 0, 139, 0),
   (lit ''greenyellow'', 173, 255, 47),
   (lit ''grey'', 190, 190, 190),
   (lit ''grey0'', 0, 0, 0),
   (lit ''grey1'', 3, 3, 3),
   (lit ''grey10'', 26, 26, 26),
   (lit ''grey100'', 255, 255, 255),
   (lit ''grey11'', 28, 28, 28),
   (lit ''grey12'', 31, 31, 31),
   (lit ''grey13'', 33, 33, 33),
   (lit ''grey14'', 36, 36, 36),
   (lit ''grey15'', 38, 38, 38),
   (lit ''grey16'', 41, 41, 41),
   (lit ''grey17'', 43, 43, 43),
   (lit ''grey18'', 46, 46, 46),
   (lit ''grey19'', 48, 48, 48),
   (lit ''grey2'', 5, 5, 5),
   (lit ''grey20'', 51, 51, 51),
   (lit ''grey21'', 54, 54, 54),
   (lit ''grey22'', 56, 56, 56),
   (lit ''grey23'', 59, 59, 59),
   (lit ''grey24'', 61, 61, 61),
   (lit ''grey25'', 64, 64, 64),
   (lit ''grey26'', 66, 66, 66),
   (lit ''grey27'', 69, 69, 69),
   (lit ''grey28'', 71, 71, 71),
   (lit ''grey29'', 74, 74, 74),
   (lit ''grey3'', 8, 8, 8),
   (lit ''grey30'', 77, 77, 77),
   (lit ''grey31'', 79, 79, 79),
   (lit ''grey32'', 82, 82, 82),
   (lit ''grey33'', 84, 84, 84),
   (lit ''grey34'', 87, 87, 87),
   (lit ''grey35'', 89, 89, 89),
   (lit ''grey36'', 92, 92, 92),
   (lit ''grey37'', 94, 94, 94),
   (lit ''grey38'', 97, 97, 97),
   (lit ''grey39'', 99, 99, 99),
   (lit ''grey4'', 10, 10, 10),
   (lit ''grey40'', 102, 102, 102),
   (lit ''grey41'', 105, 105, 105),
   (lit ''grey42'', 107, 107, 107),
   (lit ''grey43'', 110, 110, 110),
   (lit ''grey44'', 112, 112, 112),
   (lit ''grey45'', 115, 115, 115),
   (lit ''grey46'', 117, 117, 117),
   (lit ''grey47'', 120, 120, 120),
   (lit ''grey48'', 122, 122, 122),
   (lit ''grey49'', 125, 125, 125),
   (lit ''grey5'', 13, 13, 13),
   (lit ''grey50'', 127, 127, 127),
   (lit ''grey51'', 130, 130, 130),
   (lit ''grey52'', 133, 133, 133),
   (lit ''grey53'', 135, 135, 135),
   (lit ''grey54'', 138, 138, 138),
   (lit ''grey55'', 140, 140, 140),
   (lit ''grey56'', 143, 143, 143),
   (lit ''grey57'', 145, 145, 145),
   (lit ''grey58'', 148, 148, 148),
   (lit ''grey59'', 150, 150, 150),
   (lit ''grey6'', 15, 15, 15),
   (lit ''grey60'', 153, 153, 153),
   (lit ''grey61'', 156, 156, 156),
   (lit ''grey62'', 158, 158, 158),
   (lit ''grey63'', 161, 161, 161),
   (lit ''grey64'', 163, 163, 163),
   (lit ''grey65'', 166, 166, 166),
   (lit ''grey66'', 168, 168, 168),
   (lit ''grey67'', 171, 171, 171),
   (lit ''grey68'', 173, 173, 173),
   (lit ''grey69'', 176, 176, 176),
   (lit ''grey7'', 18, 18, 18),
   (lit ''grey70'', 179, 179, 179),
   (lit ''grey71'', 181, 181, 181),
   (lit ''grey72'', 184, 184, 184),
   (lit ''grey73'', 186, 186, 186),
   (lit ''grey74'', 189, 189, 189),
   (lit ''grey75'', 191, 191, 191),
   (lit ''grey76'', 194, 194, 194),
   (lit ''grey77'', 196, 196, 196),
   (lit ''grey78'', 199, 199, 199),
   (lit ''grey79'', 201, 201, 201),
   (lit ''grey8'', 20, 20, 20),
   (lit ''grey80'', 204, 204, 204),
   (lit ''grey81'', 207, 207, 207),
   (lit ''grey82'', 209, 209, 209),
   (lit ''grey83'', 212, 212, 212),
   (lit ''grey84'', 214, 214, 214),
   (lit ''grey85'', 217, 217, 217),
   (lit ''grey86'', 219, 219, 219),
   (lit ''grey87'', 222, 222, 222),
   (lit ''grey88'', 224, 224, 224),
   (lit ''grey89'', 227, 227, 227),
   (lit ''grey9'', 23, 23, 23),
   (lit ''grey90'', 229, 229, 229),
   (lit ''grey91'', 232, 232, 232),
   (lit ''grey92'', 235, 235, 235),
   (lit ''grey93'', 237, 237, 237),
   (lit ''grey94'', 240, 240, 240),
   (lit ''grey95'', 242, 242, 242)]"

definition COLORS_D :: "(rust_str \<times> byte \<times> byte \<times> byte) list" where
  "COLORS_D = [
   (lit ''grey96'', 245, 245, 245),
   (lit ''grey97'', 247, 247, 247),
   (lit ''grey98'', 250, 250, 250),
   (lit ''grey99'', 252, 252, 252),
   (lit ''honeydew'', 240, 255, 240),
   (lit ''honeydew1'', 240, 255, 240),
   (lit ''honeydew2'', 224, 238, 224),
   (lit ''honeydew3'', 193, 205, 193),
   (lit ''honeydew4'', 131, 139, 131),
   (lit ''hot pink'', 255, 105, 180),
   (lit ''hotpink'', 255, 105, 180),
   (lit ''hotpink1'', 255, 110, 180),
   (lit ''hotpink2'', 238, 106, 167),
   (lit ''hotpink3'', 205, 96, 144),
   (lit ''hotpink4'', 139, 58, 98),
   (lit ''indian red'', 205, 92, 92),
   (lit ''indianred'', 205, 92, 92),
   (lit ''indianred1'', 255, 106, 106),
   (lit ''indianred2'', 238, 99, 99),
   (lit ''indianred3'', 205, 85, 85),
   (lit ''indianred4'', 139, 58, 58),
   (lit ''indigo'', 75, 0, 130),
   (lit ''ivory'', 255, 255, 240),
   (lit ''ivory1'', 255, 255, 240),
   (lit ''ivory2'', 238, 238, 224),
   (lit ''ivory3'', 205, 205, 193),
   (lit ''ivory4'', 139, 139, 131),
   (lit ''khaki'', 240, 230, 140),
   (lit ''khaki1'', 255, 246, 143),
   (lit ''khaki2'', 238, 230, 133),
   (lit ''khaki3'', 205, 198, 115),
   (lit ''khaki4'', 139, 134, 78),
   (lit ''lavender'', 230, 230, 250),
   (lit ''lavender blush'', 255, 240, 245),
   (lit ''lavenderblush'', 255, 240, 245),
   (lit ''lavenderblush1'', 255, 240, 245),
   (lit ''lavenderblush2'', 238, 224, 229),
   (lit ''lavenderblush3'', 205, 193, 197),
   (lit ''lavenderblush4'', 139, 131, 134),
   (lit ''lawn green'', 124, 252, 0),
   (lit ''lawngreen'', 124, 252, 0),
   (lit ''lemon chiffon'', 255, 250, 205),
   (lit ''lemonchiffon'', 255, 250, 205),
   (lit ''lemonchiffon1'', 255, 250, 205),
   (lit ''lemonchiffon2'', 238, 233, 191),
   (lit ''lemonchiffon3'', 205, 201, 165),
   (lit ''lemonchiffon4'', 139, 137, 112),
   (lit ''light blue'', 173, 216, 230),
   (lit ''light coral'', 240, 128, 128),
   (lit ''light cyan'', 224, 255, 255),
   (lit ''light goldenrod'', 238, 221, 130),
   (lit ''light goldenrod yellow'', 250, 250, 210),
   (lit ''light gray'', 211, 211, 211),
   (lit ''light green'', 144, 238, 144),
   (lit ''light grey'', 211, 211, 211),
   (lit ''light pink'', 255, 182, 193),
   (lit ''light salmon'', 255, 160, 122),
   (lit ''light sea green'', 32, 178, 170),
   (lit ''light sky blue'', 135, 206, 250),
   (lit ''light slate blue'', 132, 112, 255),
   (lit ''light slate gray'', 119, 136, 153),
   (lit ''light slate grey'', 119, 136, 153),
   (lit ''light steel blue'', 176, 196, 222),
   (lit ''light yellow'', 255, 255, 224),
   (lit ''lightblue'', 173, 216, 230),
   (lit ''lightblue1'', 191, 239, 255),
   (lit ''lightblue2'', 178, 223, 238),
   (lit ''lightblue3'', 154, 192, 205),
   (lit ''lightblue4'', 104, 131, 139),
   (lit ''lightcoral'', 240, 128, 128),
   (lit ''lightcyan'', 224, 255, 255),
   (lit ''lightcyan1'', 224, 255, 255),
   (lit ''lightcyan2'', 209, 238, 238),
   (lit ''lightcyan3'', 180, 205, 205),
   (lit ''lightcyan4'', 122, 139, 139),
   (lit ''lightgoldenrod'', 238, 221, 130),
   (lit ''lightgoldenrod1'', 255, 236, 139),
   (lit ''lightgoldenrod2'', 238, 220, 130),
   (lit ''lightgoldenrod3'', 205, 190, 112),
   (lit ''lightgoldenrod4'', 139, 129, 76),
   (lit ''lightgoldenrodyellow'', 250, 250, 210),
   (lit ''lightgray'', 211, 211, 211),
   (lit ''lightgreen'', 144, 238, 144),
   (lit ''lightgrey'', 211, 211, 211),
   (lit ''lightpink'', 255, 182, 193),
   (lit ''lightpink1'', 255, 174, 185),
   (lit ''lightpink2'', 238, 162, 173),
   (lit ''lightpink3'', 205, 140, 149),
   (lit ''lightpink4'', 139, 95, 101),
   (lit ''lightsalmon'', 255, 160, 122),
   (lit ''lightsalmon1'', 255, 160, 122),
   (lit ''lightsalmon2'', 238, 149, 114),
   (lit ''lightsalmon3'', 205, 129, 98),
   (lit ''lightsalmon4'', 139, 87, 66),
   (lit ''lightseagreen'', 32, 178, 170),
   (lit ''lightskyblue'', 135, 206, 250),
   (lit ''lightskyblue1'', 176, 226, 255),
   (lit ''lightskyblue2'', 164, 211, 238),
   (lit ''lightskyblue3'', 141, 182, 205),
   (lit ''lightskyblue4'', 96, 123, 139),
   (lit ''lightslateblue'', 132, 112, 255),
   (lit ''lightslategray'', 119, 136, 153),
   (lit ''lightslategrey'', 119, 136, 153),
   (lit ''lightsteelblue'', 176, 196, 222),
   (lit ''lightsteelblue1'', 202, 225, 255),
   (lit ''lightsteelblue2'', 188, 210, 238),
   (lit ''lightsteelblue3'', 162, 181, 205),
   (lit ''lightsteelblue4'', 110, 123, 139),
   (lit ''lightyellow'', 255, 255, 224),
   (lit ''lightyellow1'', 255, 255, 224),
   (lit ''lightyellow2'', 238, 238, 209),
   (lit ''lightyellow3'', 205, 205, 180),
   (lit ''lightyellow4'', 139, 139, 122),
   (lit ''lime'', 0, 255, 0),
   (lit ''lime green'', 50, 205, 50),
   (lit ''limegreen'', 50, 205, 50),
   (lit ''linen'', 250, 240, 230),
   (lit ''magenta'', 255, 0, 255),
   (lit ''magenta1'', 255, 0, 255),
   (lit ''magenta2'', 238, 0, 238),
   (lit ''magenta3'', 205, 0, 205),
   (lit ''magenta4'', 139, 0, 139),
   (lit ''maroon'', 176, 48, 96),
   (lit ''maroon1'', 255, 52, 179),
   (lit ''maroon2'', 238, 48, 167),
   (lit ''maroon3'', 205, 41, 144),
   (lit ''maroon4'', 139, 28, 98),
   (lit ''medium aquamarine'', 102, 205, 170),
   (lit ''medium blue'', 0, 0, 205),
   (lit ''medium orchid'', 186, 85, 211),
   (lit ''medium purple'', 147, 112, 219)]"

definition COLORS_E :: "(rust_str \<times> byte \<times> byte \<times> byte) list" where
  "COLORS_E = [
   (lit ''medium sea green'', 60, 179, 113),
   (lit ''medium slate blue'', 123, 104, 238),
   (lit ''medium spring green'', 0, 250, 154),
   (lit ''medium turquoise'', 72, 209, 204),
   (lit ''medium violet red'', 199, 21, 133),
   (lit ''mediumaquamarine'', 102, 205, 170),
   (lit ''mediumblue'', 0, 0, 205),
   (lit ''mediumorchid'', 186, 85, 211),
   (lit ''mediumorchid1'', 224, 102, 255),
   (lit ''mediumorchid2'', 209, 95, 238),
   (lit ''mediumorchid3'', 180, 82, 205),
   (lit ''mediumorchid4'', 122, 55, 139),
   (lit ''mediumpurple'', 147, 112, 219),
   (lit ''mediumpurple1'', 171, 130, 255),
   (lit ''mediumpurple2'', 159, 121, 238),
   (lit ''mediumpurple3'', 137, 104, 205),
   (lit ''mediumpurple4'', 93, 71, 139),
   (lit ''mediumseagreen'', 60, 179, 113),
   (lit ''mediumslateblue'', 123, 104, 238),
   (lit ''mediumspringgreen'', 0, 250, 154),
   (lit ''mediumturquoise'', 72, 209, 204),
   (lit ''mediumvioletred'', 199, 21, 133),
   (lit ''midnight blue'', 25, 25, 112),
   (lit ''midnightblue'', 25, 25, 112),
   (lit ''mint cream'', 245, 255, 250),
   (lit ''mintcream'', 245, 255, 250),
   (lit ''misty rose'', 255, 228, 225),
   (lit ''mistyrose'', 255, 228, 225),
   (lit ''mistyrose1'', 255, 228, 225),
   (lit ''mistyrose2'', 238, 213, 210),
   (lit ''mistyrose3'', 205, 183, 181),
   (lit ''mistyrose4'', 139, 125, 123),
   (lit ''moccasin'', 255, 228, 181),
   (lit ''navajo white'', 255, 222, 173),
   (lit ''navajowhite'', 255, 222, 173),
   (lit ''navajowhite1'', 255, 222, 173),
   (lit ''navajowhite2'', 238, 207, 161),
   (lit ''navajowhite3'', 205, 179, 139),
   (lit ''navajowhite4'', 139, 121, 94),
   (lit ''navy'', 0, 0, 128),
   (lit ''navy blue'', 0, 0, 128),
   (lit ''navyblue'', 0, 0, 128),
   (lit ''old lace'', 253, 245, 230),
   (lit ''oldlace'', 253, 245, 230),
   (lit ''olive'', 128, 128, 0),
   (lit ''olive drab'', 107, 142, 35),
   (lit ''olivedrab'', 107, 142, 35),
   (lit ''olivedrab1'', 192, 255, 62),
   (lit ''olivedrab2'', 179, 238, 58),
   (lit ''olivedrab3'', 154, 205, 50),
   (lit ''olivedrab4'', 105, 139, 34),
   (lit ''orange'', 255, 165, 0),
   (lit ''orange red'', 255, 69, 0),
   (lit ''orange1'', 255, 165, 0),
   (lit ''orange2'', 238, 154, 0),
   (lit ''orange3'', 205, 133, 0),
   (lit ''orange4'', 139, 90, 0),
   (lit ''orangered'', 255, 69, 0),
   (lit ''orangered1'', 255, 69, 0),
   (lit ''orangered2'', 238, 64, 0),
   (lit ''orangered3'', 205, 55, 0),
   (lit ''orangered4'', 139, 37, 0),
   (lit ''orchid'', 218, 112, 214),
   (lit ''orchid1'', 255, 131, 250),
   (lit ''orchid2'', 238, 122, 233),
   (lit ''orchid3'', 205, 105, 201),
   (lit ''orchid4'', 139, 71, 137),
   (lit ''pale goldenrod'', 238, 232, 170),
   (lit ''pale green'', 152, 251, 152),
   (lit ''pale turquoise'', 175, 238, 238),
   (lit ''pale violet red'', 219, 112, 147),
   (lit ''palegoldenrod'', 238, 232, 170),
   (lit ''palegreen'', 152, 251, 152),
   (lit ''palegreen1'', 154, 255, 154),
   (lit ''palegreen2'', 144, 238, 144),
   (lit ''palegreen3'', 124, 205, 124),
   (lit ''palegreen4'', 84, 139, 84),
   (lit ''paleturquoise'', 175, 238, 238),
   (lit ''paleturquoise1'', 187, 255, 255),
   (lit ''paleturquoise2'', 174, 238, 238),
   (lit ''paleturquoise3'', 150, 205, 205),
   (lit ''paleturquoise4'', 102, 139, 139),
   (lit ''palevioletred'', 219, 112, 147),
   (lit ''palevioletred1'', 255, 130, 171),
   (lit ''palevioletred2'', 238, 121, 159),
   (lit ''palevioletred3'', 205, 104, 137),
   (lit ''palevioletred4'', 139, 71, 93),
   (lit ''papaya whip'', 255, 239, 213),
   (lit ''papayawhip'', 255, 239, 213),
   (lit ''peach puff'', 255, 218, 185),
   (lit ''peachpuff'', 255, 218, 185),
   (lit ''peachpuff1'', 255, 218, 185),
   (lit ''peachpuff2'', 238, 203, 173),
   (lit ''peachpuff3'', 205, 175, 149),
   (lit ''peachpuff4'', 139, 119, 101),
   (lit ''peru'', 205, 133, 63),
   (lit ''pink'', 255, 192, 203),
   (lit ''pink1'', 255, 181, 197),
   (lit ''pink2'', 238, 169, 184),
   (lit ''pink3'', 205, 145, 158),
   (lit ''pink4'', 139, 99, 108),
   (lit ''plum'', 221, 160, 221),
   (lit ''plum1'', 255, 187, 255),
   (lit ''plum2'', 238, 174, 238),
   (lit ''plum3'', 205, 150, 205),
   (lit ''plum4'', 139, 102, 139),
   (lit ''powder blue'', 176, 224, 230),
   (lit ''powderblue'', 176, 224, 230),
   (lit ''purple'', 160, 32, 240),
   (lit ''purple1'', 155, 48, 255),
   (lit ''purple2'', 145, 44, 238),
   (lit ''purple3'', 125, 38, 205),
   (lit ''purple4'', 85, 26, 139),
   (lit ''rebecca purple'', 102, 51, 153),
   (lit ''rebeccapurple'', 102, 51, 153),
   (lit ''red'', 255, 0, 0),
   (lit ''red1'', 255, 0, 0),
   (lit ''red2'', 238, 0, 0),
   (lit ''red3'', 205, 0, 0),
   (lit ''red4'', 139, 0, 0),
   (lit ''rosy brown'', 188, 143, 143),
   (lit ''rosybrown'', 188, 143, 143),
   (lit ''rosybrown1'', 255, 193, 193),
   (lit ''rosybrown2'', 238, 180, 180),
   (lit ''rosybrown3'', 205, 155, 155),
   (lit ''rosybrown4'', 139, 105, 105),
   (lit ''royal blue'', 65, 105, 225),
   (lit ''royalblue'', 65, 105, 225),
   (lit ''royalblue1'', 72, 118, 255),
   (lit ''royalblue2'', 67, 110, 238),
   (lit ''royalblue3'', 58, 95, 205)]"

definition COLORS_F :: "(rust_str \<times> byte \<times> byte \<times> byte) list" where
  "COLORS_F = [
   (lit ''royalblue4'', 39, 64, 139),
   (lit ''saddle brown'', 139, 69, 19),
   (lit ''saddlebrown'', 139, 69, 19),
   (lit ''salmon'', 250, 128, 114),
   (lit ''salmon1'', 255, 140, 105),
   (lit ''salmon2'', 238, 130, 98),
   (lit ''salmon3'', 205, 112, 84),
   (lit ''salmon4'', 139, 76, 57),
   (lit ''sandy brown'', 244, 164, 96),
   (lit ''sandybrown'', 244, 164, 96),
   (lit ''sea green'', 46, 139, 87),
   (lit ''seagreen'', 46, 139, 87),
   (lit ''seagreen1'', 84, 255, 159),
   (lit ''seagreen2'', 78, 238, 148),
   (lit ''seagreen3'', 67, 205, 128),
   (lit ''seagreen4'', 46, 139, 87),
   (lit ''seashell'', 255, 245, 238),
   (lit ''seashell1'', 255, 245, 238),
   (lit ''seashell2'', 238, 229, 222),
   (lit ''seashell3'', 205, 197, 191),
   (lit ''seashell4'', 139, 134, 130),
   (lit ''sienna'', 160, 82, 45),
   (lit ''sienna1'', 255, 130, 71),
   (lit ''sienna2'', 238, 121, 66),
   (lit ''sienna3'', 205, 104, 57),
   (lit ''sienna4'', 139, 71, 38),
   (lit ''silver'', 192, 192, 192),
   (lit ''sky blue'', 135, 206, 235),
   (lit ''skyblue'', 135, 206, 235),
   (lit ''skyblue1'', 135, 206, 255),
   (lit ''skyblue2'', 126, 192, 238),
   (lit ''skyblue3'', 108, 166, 205),
   (lit ''skyblue4'', 74, 112, 139),
   (lit ''slate blue'', 106, 90, 205),
   (lit ''slate gray'', 112, 128, 144),
   (lit ''slate grey'', 112, 128, 144),
   (lit ''slateblue'', 106, 90, 205),
   (lit ''slateblue1'', 131, 111, 255),
   (lit ''slateblue2'', 122, 103, 238),
   (lit ''slateblue3'', 105, 89, 205),
   (lit ''slateblue4'', 71, 60, 139),
   (lit ''slategray'', 112, 128, 144),
   (lit ''slategray1'', 198, 226, 255),
   (lit ''slategray2'', 185, 211, 238),
   (lit ''slategray3'', 159, 182, 205),
   (lit ''slategray4'', 108, 123, 139),
   (lit ''slategrey'', 112, 128, 144),
   (lit ''snow'', 255, 250, 250),
   (lit ''snow1'', 255, 250, 250),
   (lit ''snow2'', 238, 233, 233),
   (lit ''snow3'', 205, 201, 201),
   (lit ''snow4'', 139, 137, 137),
   (lit ''spring green'', 0, 255, 127),
   (lit ''springgreen'', 0, 255, 127),
   (lit ''springgreen1'', 0, 255, 127),
   (lit ''springgreen2'', 0, 238, 118),
   (lit ''springgreen3'', 0, 205, 102),
   (lit ''springgreen4'', 0, 139, 69),
   (lit ''steel blue'', 70, 130, 180),
   (lit ''steelblue'', 70, 130, 180),
   (lit ''steelblue1'', 99, 184, 255),
   (lit ''steelblue2'', 92, 172, 238),
   (lit ''steelblue3'', 79, 148, 205),
   (lit ''steelblue4'', 54, 100, 139),
   (lit ''tan'', 210, 180, 140),
   (lit ''tan1'', 255, 165, 79),
   (lit ''tan2'', 238, 154, 73),
   (lit ''tan3'', 205, 133, 63),
   (lit ''tan4'', 139, 90, 43),
   (lit ''teal'', 0, 128, 128),
   (lit ''thistle'', 216, 191, 216),
   (lit ''thistle1'', 255, 225, 255),
   (lit ''thistle2'', 238, 210, 238),
   (lit ''thistle3'', 205, 181, 205),
   (lit ''thistle4'', 139, 123, 139),
   (lit ''tomato'', 255, 99, 71),
   (lit ''tomato1'', 255, 99, 71),
   (lit ''tomato2'', 238, 92, 66),
   (lit ''tomato3'', 205, 79, 57),
   (lit ''tomato4'', 139, 54, 38),
   (lit ''turquoise'', 64, 224, 208),
   (lit ''turquoise1'', 0, 245, 255),
   (lit ''turquoise2'', 0, 229, 238),
   (lit ''turquoise3'', 0, 197, 205),
   (lit ''turquoise4'', 0, 134, 139),
   (lit ''violet'', 238, 130, 238),
   (lit ''violet red'', 208, 32, 144),
   (lit ''violetred'', 208, 32, 144),
   (lit ''violetred1'', 255, 62, 150),
   (lit ''violetred2'', 238, 58, 140),
   (lit ''violetred3'', 205, 50, 120),
   (lit ''violetred4'', 139, 34, 82),
   (lit ''web gray'', 128, 128, 128),
   (lit ''web green'', 0, 128, 0),
   (lit ''web grey'', 128, 128, 128),
   (lit ''web maroon'', 128, 0, 0),
   (lit ''web purple'', 128, 0, 128),
   (lit ''webgray'', 128, 128, 128),
   (lit ''webgreen'', 0, 128, 0),
   (lit ''webgrey'', 128, 128, 128),
   (lit ''webmaroon'', 128, 0, 0),
   (lit ''webpurple'', 128, 0, 128),
   (lit ''wheat'', 245, 222, 179),
   (lit ''wheat1'', 255, 231, 186),
   (lit ''wheat2'', 238, 216, 174),
   (lit ''wheat3'', 205, 186, 150),
   (lit ''wheat4'', 139, 126, 102),
   (lit ''white'', 255, 255, 255),
   (lit ''white smoke'', 245, 245, 245),
   (lit ''whitesmoke'', 245, 245, 245),
   (lit ''x11 gray'', 190, 190, 190),
   (lit ''x11 green'', 0, 255, 0),
   (lit ''x11 grey'', 190, 190, 190),
   (lit ''x11 maroon'', 176, 48, 96),
   (lit ''x11 purple'', 160, 32, 240),
   (lit ''x11gray'', 190, 190, 190),
   (lit ''x11green'', 0, 255, 0),
   (lit ''x11grey'', 190, 190, 190),
   (lit ''x11maroon'', 176, 48, 96),
   (lit ''x11purple'', 160, 32, 240),
   (lit ''yellow'', 255, 255, 0),
   (lit ''yellow green'', 154, 205, 50),
   (lit ''yellow1'', 255, 255, 0),
   (lit ''yellow2'', 238, 238, 0),
   (lit ''yellow3'', 205, 205, 0),
   (lit ''yellow4'', 139, 139, 0),
   (lit ''yellowgreen'', 154, 205, 50)]"

definition COLORS :: "(rust_str \<times> byte \<times> byte \<times> byte) list" where
  "COLORS = COLORS_A @ COLORS_B @ COLORS_C @ COLORS_D @ COLORS_E @ COLORS_F"

definition lookup :: "rust_str \<Rightarrow> (byte \<times> byte \<times> byte) option" where
  "lookup name = map_option (\<lambda>i. snd (COLORS ! i)) (binary_search COLORS name 0 (length COLORS))"

subsection \<open>The search finds what a scan finds\<close>

fun ascending :: "rust_str list \<Rightarrow> bool" where
  "ascending (a # b # rest) = (str_less a b \<and> ascending (b # rest))"
| "ascending _ = True"

lemma str_less_irrefl [simp]: "\<not> str_less a a"
  by (induction a) auto

lemma str_less_trans: "str_less a b \<Longrightarrow> str_less b c \<Longrightarrow> str_less a c"
proof (induction a b arbitrary: c rule: str_less.induct)
  case (2 d ds)
  then show ?case by (cases c) auto
next
  case (3 a as b bs)
  then show ?case by (cases c) auto
qed simp

lemma str_less_linear: "a \<noteq> b \<Longrightarrow> \<not> str_less a b \<Longrightarrow> str_less b a"
  by (induction a b rule: str_less.induct) (auto simp: neq_Nil_conv)

lemma ascending_nth: "ascending ks \<Longrightarrow> i < j \<Longrightarrow> j < length ks \<Longrightarrow> str_less (ks ! i) (ks ! j)"
proof (induction ks arbitrary: i j rule: ascending.induct)
  case (1 a b rest)
  show ?case
  proof (cases i)
    case 0
    obtain j' where j: "j = Suc j'" using 1(3) by (cases j) auto
    show ?thesis
    proof (cases j')
      case 0
      then show ?thesis using 1 j \<open>i = 0\<close> by simp
    next
      case (Suc n)
      then have "str_less ((b # rest) ! 0) ((b # rest) ! j')" using 1(2,4) j by (intro 1(1)) auto
      then show ?thesis using 1(2) j \<open>i = 0\<close> str_less_trans by fastforce
    qed
  next
    case (Suc n)
    then show ?thesis using 1 by (cases j) auto
  qed
qed auto

lemma binary_search_sound: "binary_search xs name lo hi = Some i \<Longrightarrow> lo \<le> i \<and> i < hi \<and> fst (xs ! i) = name"
proof (induction xs name lo hi rule: binary_search.induct)
  case (1 xs name lo hi)
  show ?case using 1(3) 1(1,2)[OF _ refl refl]
    by (subst (asm) binary_search.simps) (fastforce simp: Let_def split: if_splits)
qed

lemma binary_search_complete:
  "ascending (map fst xs) \<Longrightarrow> lo \<le> i \<Longrightarrow> i < hi \<Longrightarrow> hi \<le> length xs \<Longrightarrow> fst (xs ! i) = name \<Longrightarrow> binary_search xs name lo hi = Some i"
proof (induction xs name lo hi rule: binary_search.induct)
  case (1 xs name lo hi)
  let ?mid = "(lo + hi) div 2"
  have less: "str_less (fst (xs ! a)) (fst (xs ! b))" if "a < b" "b < hi" for a b
    using ascending_nth[OF 1(3), of a b] that 1(6) by simp
  have "lo < hi" "?mid < hi" using 1(4,5) by auto
  consider "?mid < i" | "?mid = i" | "i < ?mid" by linarith
  then show ?case
  proof cases
    case 1
    then have "str_less (fst (xs ! ?mid)) name" using less \<open>i < hi\<close> \<open>fst (xs ! i) = name\<close> by blast
    moreover from this have "fst (xs ! ?mid) \<noteq> name" by auto
    ultimately show ?thesis
      using "1.IH"(1)[OF \<open>lo < hi\<close> refl refl] \<open>?mid < i\<close> "1.prems" \<open>lo < hi\<close> by (subst binary_search.simps) (simp add: Let_def)
  next
    case 2
    then show ?thesis using \<open>lo < hi\<close> "1.prems" by (subst binary_search.simps) (simp add: Let_def)
  next
    case 3
    then have above: "str_less name (fst (xs ! ?mid))" using less \<open>?mid < hi\<close> \<open>fst (xs ! i) = name\<close> by blast
    then have "fst (xs ! ?mid) \<noteq> name" "\<not> str_less (fst (xs ! ?mid)) name" using str_less_trans str_less_irrefl by blast+
    then show ?thesis
      using "1.IH"(2)[OF \<open>lo < hi\<close> refl refl] 3 "1.prems" \<open>lo < hi\<close> by (subst binary_search.simps) (simp add: Let_def)
  qed
qed

lemma ascending_Cons: "ascending (a # xs) \<longleftrightarrow> xs = [] \<or> (str_less a (hd xs) \<and> ascending xs)"
  by (cases xs) auto

lemma ascending_append:
  "ascending xs \<Longrightarrow> ascending ys \<Longrightarrow> str_less (last xs) (hd ys) \<Longrightarrow> ascending (xs @ ys)"
  by (induction xs) (auto simp: ascending_Cons hd_append)

lemma sorted_A: "ascending (map fst COLORS_A)"
  unfolding COLORS_A_def by code_simp

lemma sorted_B: "ascending (map fst COLORS_B)"
  unfolding COLORS_B_def by code_simp

lemma sorted_C: "ascending (map fst COLORS_C)"
  unfolding COLORS_C_def by code_simp

lemma sorted_D: "ascending (map fst COLORS_D)"
  unfolding COLORS_D_def by code_simp

lemma sorted_E: "ascending (map fst COLORS_E)"
  unfolding COLORS_E_def by code_simp

lemma sorted_F: "ascending (map fst COLORS_F)"
  unfolding COLORS_F_def by code_simp

lemma names_ends:
  "COLORS_A \<noteq> []" "fst (hd COLORS_A) = lit ''alice blue''" "fst (last COLORS_A) = lit ''darkseagreen3''"
  "COLORS_B \<noteq> []" "fst (hd COLORS_B) = lit ''darkseagreen4''" "fst (last COLORS_B) = lit ''gray75''"
  "COLORS_C \<noteq> []" "fst (hd COLORS_C) = lit ''gray76''" "fst (last COLORS_C) = lit ''grey95''"
  "COLORS_D \<noteq> []" "fst (hd COLORS_D) = lit ''grey96''" "fst (last COLORS_D) = lit ''medium purple''"
  "COLORS_E \<noteq> []" "fst (hd COLORS_E) = lit ''medium sea green''" "fst (last COLORS_E) = lit ''royalblue3''"
  "COLORS_F \<noteq> []" "fst (hd COLORS_F) = lit ''royalblue4''" "fst (last COLORS_F) = lit ''yellowgreen''"
  unfolding COLORS_A_def COLORS_B_def COLORS_C_def COLORS_D_def COLORS_E_def COLORS_F_def by simp_all

lemma names_last_hd: "xs \<noteq> [] \<Longrightarrow> last (map fst xs) = fst (last xs)" "xs \<noteq> [] \<Longrightarrow> hd (map fst xs @ ys) = fst (hd xs)"
  by (simp_all add: last_map hd_append hd_map)

lemma COLORS_sorted: "ascending (map fst COLORS)"
  unfolding COLORS_def map_append
  by (intro ascending_append sorted_A sorted_B sorted_C sorted_D sorted_E sorted_F)
    (simp_all add: names_ends names_last_hd hd_map)

text \<open>
  The lookup of a colour name by binary search agrees with a scan of the table: every name of the
  table is found with its own components, and no other name is.
\<close>

lemma lookup_exact: "lookup name = map_of COLORS name"
proof (cases "map_of COLORS name")
  case None
  then have "fst (COLORS ! i) \<noteq> name" if "i < length COLORS" for i
    using that by (auto simp: map_of_eq_None_iff dest: nth_mem)
  then have "binary_search COLORS name 0 (length COLORS) = None"
    using binary_search_sound[of COLORS name 0 "length COLORS"] by (cases "binary_search COLORS name 0 (length COLORS)") auto
  then show ?thesis using None by (simp add: lookup_def)
next
  case (Some v)
  then obtain i where i: "i < length COLORS" "COLORS ! i = (name, v)" using map_of_SomeD by (fastforce simp: in_set_conv_nth)
  then have "binary_search COLORS name 0 (length COLORS) = Some i"
    by (intro binary_search_complete COLORS_sorted) auto
  then show ?thesis using Some i by (simp add: lookup_def)
qed

end
