(* ===== verification/Color_Text.thy ===== *)
theory Color_Text
  imports Terminal_Surface Color_Names
begin

section \<open>Parsing colour text\<close>

text \<open>
  \<open>core/src/terminal/colors.rs\<close> and \<open>terminal/src/colors.rs\<close>: the numeric forms of a colour and the
  fall back to the table of names.  Floating-point text is read exactly: a number is a sign, a decimal
  mantissa and a power of ten, and the results of \<open>f64\<close> operations are the rounded ones (round to
  nearest, ties to even, with 53 bits of precision).
\<close>

subsection \<open>Floating-point text\<close>

record decimal_float =
  df_negative :: bool
  df_mantissa :: nat
  df_exponent :: int

text \<open>The grammar of \<open>f64::from_str\<close> without the names of the infinities and of NaN.\<close>

definition take_sign :: "rust_str \<Rightarrow> bool \<times> rust_str" where
  "take_sign s = (case s of c # cs \<Rightarrow> if c = 45 then (True, cs) else if c = 43 then (False, cs) else (False, s) | [] \<Rightarrow> (False, []))"

definition digits_number :: "rust_str \<Rightarrow> nat" where
  "digits_number s = foldl (\<lambda>n c. n * 10 + (c - 48)) 0 s"

definition parse_exponent :: "rust_str \<Rightarrow> int option" where
  "parse_exponent s =
    (if s = [] then Some 0
     else if hd s \<noteq> 101 \<and> hd s \<noteq> 69 then None
     else case take_sign (tl s) of (negative, digits) \<Rightarrow>
       map_option (\<lambda>n. if negative then - int n else int n) (digits_value digits))"

definition parse_decimal :: "rust_str \<Rightarrow> decimal_float option" where
  "parse_decimal s =
    (case take_sign s of (negative, s1) \<Rightarrow>
     let whole = takeWhile is_ascii_digit s1;
         s2 = dropWhile is_ascii_digit s1;
         (fraction, s3) = (case s2 of c # cs \<Rightarrow>
           if c = 46 then (takeWhile is_ascii_digit cs, dropWhile is_ascii_digit cs) else ([], s2) | [] \<Rightarrow> ([], []))
     in if whole = [] \<and> fraction = [] then None
        else map_option (\<lambda>e. \<lparr>df_negative = negative, df_mantissa = digits_number (whole @ fraction), df_exponent = e - int (length fraction)\<rparr>)
          (parse_exponent s3))"

text \<open>The magnitude as a fraction.\<close>

definition magnitude :: "decimal_float \<Rightarrow> nat \<times> nat" where
  "magnitude d = (if df_exponent d \<ge> 0 then (df_mantissa d * 10 ^ nat (df_exponent d), 1) else (df_mantissa d, 10 ^ nat (- df_exponent d)))"

text \<open>A value rounds to one from \<open>1 - 2^-54\<close> to \<open>1 + 2^-53\<close>, and to infinity from \<open>2^1024 - 2^970\<close>.\<close>

definition f64_is_one :: "decimal_float \<Rightarrow> bool" where
  "f64_is_one d = (case magnitude d of (n, m) \<Rightarrow> \<not> df_negative d \<and> (2 ^ 54 - 1) * m \<le> 2 ^ 54 * n \<and> 2 ^ 53 * n \<le> (2 ^ 53 + 1) * m)"

definition f64_finite :: "decimal_float \<Rightarrow> bool" where
  "f64_finite d = (case magnitude d of (n, m) \<Rightarrow> n < (2 ^ 1024 - 2 ^ 970) * m)"

definition round_even :: "nat \<Rightarrow> nat \<Rightarrow> nat" where
  "round_even n m = (let q = n div m; r = n mod m in if 2 * r < m \<or> (2 * r = m \<and> even q) then q else q + 1)"

text \<open>The fraction \<open>n / m\<close>, at most \<open>255\<close>, rounded to an \<open>f64\<close>: an integer over \<open>2^s\<close>; subnormals end at \<open>s = 1074\<close>.\<close>

definition f64_scale :: "nat \<Rightarrow> nat \<Rightarrow> nat" where
  "f64_scale n m = (case find (\<lambda>s. 2 ^ 52 * m \<le> n * 2 ^ s) [0..<1074] of Some s \<Rightarrow> s | None \<Rightarrow> 1074)"

definition f64_round :: "nat \<Rightarrow> nat \<Rightarrow> nat \<times> nat" where
  "f64_round n m = (let s = f64_scale n m in (round_even (n * 2 ^ s) m, 2 ^ s))"

text \<open>\<open>(v.clamp(0.0, 1.0) * 255.0) as u8\<close>: the factor and the product are rounded, the cast truncates.\<close>

definition intensity_byte :: "decimal_float \<Rightarrow> nat" where
  "intensity_byte d =
    (if df_negative d then 0
     else case magnitude d of (n, m) \<Rightarrow>
       case f64_round (min n m) m of (a, b) \<Rightarrow>
         case f64_round (255 * a) b of (c, e) \<Rightarrow> c div e)"

subsection \<open>Numeric colours\<close>

definition hex_digit_value :: "scalar \<Rightarrow> nat option" where
  "hex_digit_value c = (if 48 \<le> c \<and> c \<le> 57 then Some (c - 48) else if 97 \<le> c \<and> c \<le> 102 then Some (c - 87)
     else if 65 \<le> c \<and> c \<le> 70 then Some (c - 55) else None)"

fun hex_number :: "nat \<Rightarrow> rust_str \<Rightarrow> nat option" where
  "hex_number acc [] = Some acc"
| "hex_number acc (c # cs) = Option.bind (hex_digit_value c) (\<lambda>d. hex_number (16 * acc + d) cs)"

text \<open>\<open>from_str_radix(_, 16)\<close> of text that is too short to overflow; a leading plus sign is accepted.\<close>

definition parse_hex :: "rust_str \<Rightarrow> nat option" where
  "parse_hex s = (let t = (case s of c # cs \<Rightarrow> if c = 43 then cs else s | [] \<Rightarrow> []) in if t = [] then None else hex_number 0 t)"

definition three_channels :: "(rust_str \<Rightarrow> nat option) \<Rightarrow> rust_str list \<Rightarrow> color_value option" where
  "three_channels channel parts =
    (case parts of
       [p, q, r] \<Rightarrow> Option.bind (channel p) (\<lambda>x. Option.bind (channel q) (\<lambda>y. Option.bind (channel r) (\<lambda>z.
         Some (ColorKnown (word_of_nat x) (word_of_nat y) (word_of_nat z)))))
     | _ \<Rightarrow> None)"

definition scaled_channel :: "rust_str \<Rightarrow> nat option" where
  "scaled_channel p = (if p = [] \<or> str_len p > 4 then None
     else map_option (\<lambda>v. v * 255 div (2 ^ (str_len p * 4) - 1)) (parse_hex p))"

definition truncated_channel :: "rust_str \<Rightarrow> nat option" where
  "truncated_channel p = map_option (\<lambda>v. v * 2 ^ (16 - length p * 4) div 256) (parse_hex p)"

definition intensity_channel :: "rust_str \<Rightarrow> nat option" where
  "intensity_channel p = (if p = [] \<or> \<not> list_all (\<lambda>c. is_ascii_digit c \<or> c \<in> set (lit ''+-.eE'')) p then None
     else Option.bind (parse_decimal p) (\<lambda>d. if f64_finite d then Some (intensity_byte d) else None))"

definition without_alpha :: "rust_str \<Rightarrow> rust_str option" where
  "without_alpha s = (case split_once 64 s of
       None \<Rightarrow> Some s
     | Some (v, alpha) \<Rightarrow> (case parse_decimal alpha of Some d \<Rightarrow> if f64_is_one d then Some v else None | None \<Rightarrow> None))"

definition parse_terminal_rgb :: "rust_str \<Rightarrow> color_value option" where
  "parse_terminal_rgb s =
    Option.bind (without_alpha s) (\<lambda>v.
      case strip_prefix (lit ''rgb:'') v of
        Some t \<Rightarrow> three_channels scaled_channel (split_on 47 t)
      | None \<Rightarrow> (case strip_prefix (lit ''#'') v of
          Some t \<Rightarrow>
            (if str_len t \<notin> {3, 6, 9, 12} \<or> \<not> list_all (\<lambda>c. c < 128) t then None
             else let w = length t div 3 in
               three_channels truncated_channel [take w t, take w (drop w t), drop (2 * w) t])
        | None \<Rightarrow> Option.bind (strip_prefix (lit ''rgbi:'') v) (\<lambda>t. three_channels intensity_channel (split_on 47 t))))"

definition to_ascii_lowercase :: "rust_str \<Rightarrow> rust_str" where
  "to_ascii_lowercase s = map (\<lambda>c. if 65 \<le> c \<and> c \<le> 90 then c + 32 else c) s"

definition parse_color :: "rust_str \<Rightarrow> color_value option" where
  "parse_color s =
    Option.bind (without_alpha s) (\<lambda>v.
      case parse_terminal_rgb v of
        Some c \<Rightarrow> Some c
      | None \<Rightarrow> map_option (\<lambda>(r, g, b). ColorKnown r g b) (lookup (to_ascii_lowercase v)))"

subsection \<open>A parsed colour is a concrete one\<close>

lemma three_channels_known: "three_channels f parts = Some v \<Longrightarrow> \<exists>r g b. v = ColorKnown r g b"
  by (auto simp: three_channels_def bind_eq_Some_conv split: list.splits)

lemma parse_terminal_rgb_known: "parse_terminal_rgb s = Some v \<Longrightarrow> \<exists>r g b. v = ColorKnown r g b"
  by (auto simp: parse_terminal_rgb_def bind_eq_Some_conv Let_def split: option.splits if_splits dest: three_channels_known)

lemma parse_color_known: "parse_color s = Some v \<Longrightarrow> \<exists>r g b. v = ColorKnown r g b"
  by (auto simp: parse_color_def bind_eq_Some_conv split: option.splits dest: parse_terminal_rgb_known)

lemma parse_color_static [simp]: "parse_color s \<noteq> Some ColorDynamic"
  using parse_color_known by blast

end
