(* ===== verification/Terminal_Colors.thy ===== *)
theory Terminal_Colors
  imports Domain Host_Effects Color_Text
begin

section \<open>The palette of a session\<close>

text \<open>
  The colour state of the terminal engine (\<open>terminal/src/colors.rs\<close>): the observations of the
  controller, the overrides of the hosted application, the stack of saved palettes, and the
  snapshot that is published with the revision of its last change.

  The base64 encoder of an external package is the argument \<open>base64\<close>.  \<open>colors_ok\<close> is the invariant of the state; it gives that every
  published snapshot is valid.
\<close>

definition COLOR_CURSOR_TEXT :: nat where "COLOR_CURSOR_TEXT = 259"

record color_state =
  vc_base :: color_profile
  vc_overrides :: "color_value option list"
  vc_snapshot :: color_snapshot
  vc_subscribed :: bool
  vc_reverse :: bool
  vc_saved :: "color_snapshot option list"
  vc_inherited_sources :: "nat option list"
  vc_depth :: nat
  vc_stored :: nat

definition color_state_default :: color_state where
  "color_state_default = \<lparr>vc_base = default_color_profile, vc_overrides = [], vc_snapshot = default_color_snapshot,
     vc_subscribed = False, vc_reverse = False, vc_saved = replicate 10 None, vc_inherited_sources = [], vc_depth = 0, vc_stored = 0\<rparr>"

definition colors_reset :: "color_state \<Rightarrow> color_state" where
  "colors_reset vc = vc\<lparr>vc_overrides := [], vc_inherited_sources := [], vc_subscribed := False, vc_reverse := False,
     vc_saved := replicate 10 None, vc_depth := 0, vc_stored := 0\<rparr>"

definition color_source :: "color_state \<Rightarrow> nat \<Rightarrow> nat" where
  "color_source vc slot =
    (if \<not> vc_reverse vc then slot
     else if slot = 0 then 7 else if slot = 7 then 0 else if slot = 8 then 15 else if slot = 15 then 8
     else if slot = 256 then 257 else if slot = 257 then 256 else slot)"

text \<open>\<open>get(i).copied().flatten()\<close>.\<close>

definition get_flat :: "'a option list \<Rightarrow> nat \<Rightarrow> 'a option" where
  "get_flat xs i = (if i < length xs then xs ! i else None)"

definition color_value_at :: "color_state \<Rightarrow> nat \<Rightarrow> color_value" where
  "color_value_at vc slot =
    (case get_flat (vc_overrides vc) (color_source vc slot) of
       Some v \<Rightarrow> v | None \<Rightarrow> cpr_values (vc_base vc) ! color_source vc slot)"

definition color_set :: "nat \<Rightarrow> color_value option \<Rightarrow> color_state \<Rightarrow> color_state" where
  "color_set slot v vc =
    (let overrides = (if vc_overrides vc = [] then replicate TERMINAL_COLOR_SLOTS None else vc_overrides vc);
         source = color_source vc slot in
     vc\<lparr>vc_overrides := overrides[source := v], vc_inherited_sources := (vc_inherited_sources vc)[source := None]\<rparr>)"

definition color_effective :: "color_state \<Rightarrow> color_profile" where
  "color_effective vc = \<lparr>cpr_values = map (color_value_at vc) [0..<TERMINAL_COLOR_SLOTS], cpr_appearance = cpr_appearance (vc_base vc)\<rparr>"

definition effective_snapshot :: "color_state \<Rightarrow> color_snapshot" where
  "effective_snapshot vc = \<lparr>cs_profile = color_effective vc, cs_changed_at = cs_changed_at (vc_snapshot vc), cs_reverse = vc_reverse vc,
     cs_custom_cursor = list_ex (\<lambda>slot. get_flat (vc_overrides vc) slot \<noteq> None) [COLOR_CURSOR..<COLOR_CURSOR_TEXT + 1],
     cs_inherited_sources = map (\<lambda>slot. case get_flat (vc_inherited_sources vc) (color_source vc slot) of
       Some source \<Rightarrow> source | None \<Rightarrow> color_source vc slot) [0..<TERMINAL_COLOR_SLOTS]\<rparr>"

definition colors_commit :: "revision \<Rightarrow> color_state \<Rightarrow> color_state" where
  "colors_commit rv vc =
    (if effective_snapshot vc \<noteq> vc_snapshot vc then vc\<lparr>vc_snapshot := effective_snapshot vc\<lparr>cs_changed_at := rv\<rparr>\<rparr> else vc)"

definition ESC :: scalar where "ESC = 27"

definition appearance_reply :: "color_state \<Rightarrow> byte list" where
  "appearance_reply vc =
    (case cpr_appearance (vc_base vc) of
       AppearanceDark \<Rightarrow> utf8 (ESC # lit ''[?997;1n'')
     | AppearanceLight \<Rightarrow> utf8 (ESC # lit ''[?997;2n'')
     | AppearanceUnknown \<Rightarrow> [])"

definition resize_none :: "nat \<Rightarrow> 'a option list \<Rightarrow> 'a option list" where
  "resize_none n xs = take n xs @ replicate (n - length xs) None"

text \<open>One round of the loop that restores a saved palette.\<close>

definition restore_slot :: "color_snapshot \<Rightarrow> nat \<times> color_value \<Rightarrow> color_state \<Rightarrow> color_state" where
  "restore_slot saved entry vc =
    (case entry of (slot, v) \<Rightarrow>
     let vc' = color_set slot (Some v) vc in
     if v = ColorUnknown
     then vc'\<lparr>vc_inherited_sources := (vc_inherited_sources vc')[color_source vc' slot := Some (cs_inherited_sources saved ! slot)]\<rparr>
     else vc')"

definition colors_stack :: "bool \<Rightarrow> nat \<Rightarrow> color_state \<Rightarrow> color_state" where
  "colors_stack store index vc =
    (case (if index = 0 then if store then Some (vc_depth vc) else if vc_depth vc = 0 then None else Some (vc_depth vc - 1)
           else Some (index - 1)) of
       None \<Rightarrow> vc
     | Some slot \<Rightarrow>
         if slot \<ge> 10 then vc
         else if store then
           (let vc' = vc\<lparr>vc_saved := (vc_saved vc)[slot := Some (effective_snapshot vc)], vc_stored := max (vc_stored vc) (slot + 1)\<rparr> in
            if index = 0 then vc'\<lparr>vc_depth := vc_depth vc' + 1\<rparr> else vc')
         else
           (case vc_saved vc ! slot of
              None \<Rightarrow> vc
            | Some saved \<Rightarrow>
                (let vc' = fold (restore_slot saved) (enumerate 0 (cpr_values (cs_profile saved)))
                       (vc\<lparr>vc_inherited_sources := resize_none TERMINAL_COLOR_SLOTS (vc_inherited_sources vc)\<rparr>) in
                 if index = 0 then vc'\<lparr>vc_depth := vc_depth vc' - 1\<rparr> else vc')))"

definition stack_report :: "color_state \<Rightarrow> byte list" where
  "stack_report vc = utf8 (ESC # lit ''[?'' @ decimal (vc_depth vc) @ lit '';'' @ decimal (vc_stored vc) @ lit ''#Q'')"

subsection \<open>Colour commands\<close>

definition dynamic_slot :: "nat \<Rightarrow> nat option" where
  "dynamic_slot code' = (if code' = 10 then Some 256 else if code' = 11 then Some 257 else if code' = 12 then Some 258
     else if code' = 17 then Some 261 else if code' = 19 then Some 260 else None)"

definition key_slot :: "rust_str \<Rightarrow> nat option" where
  "key_slot key =
    (if key = lit ''foreground'' then Some 256 else if key = lit ''background'' then Some 257
     else if key = lit ''cursor'' then Some 258 else if key = lit ''cursor_text'' then Some 259
     else if key = lit ''selection_foreground'' then Some 260 else if key = lit ''selection_background'' then Some 261
     else Option.bind (parse_uint U64_MAX key) (\<lambda>slot. if slot < 256 then Some slot else None))"

definition fmt_04x :: "nat \<Rightarrow> rust_str" where
  "fmt_04x n = fmt_02x (word_of_nat (n div 256)) @ fmt_02x (word_of_nat (n mod 256))"

fun color_encoded :: "color_value \<Rightarrow> rust_str option" where
  "color_encoded (ColorKnown r g b) = Some (lit ''rgb:'' @ fmt_04x (unat r * 257) @ lit ''/'' @ fmt_04x (unat g * 257) @ lit ''/'' @
     fmt_04x (unat b * 257))"
| "color_encoded _ = None"

type_synonym color_step = "color_state \<times> rust_str \<Rightarrow> color_state \<times> rust_str"

text \<open>A query appends the encoded value to the reply, anything else that parses is an override.\<close>

definition osc_slot :: "rust_str \<Rightarrow> nat \<Rightarrow> rust_str \<Rightarrow> rust_str \<Rightarrow> color_step" where
  "osc_slot prefix' slot v end' = (\<lambda>(vc, reply).
    if v = lit ''?'' then
      (case color_encoded (color_value_at vc slot) of
         Some rgb \<Rightarrow> (vc, reply @ [ESC] @ lit '']'' @ prefix' @ lit '';'' @ rgb @ end') | None \<Rightarrow> (vc, reply))
    else case parse_color v of Some rgb \<Rightarrow> (color_set slot (Some rgb) vc, reply) | None \<Rightarrow> (vc, reply))"

fun osc_indexed :: "rust_str \<Rightarrow> rust_str list \<Rightarrow> color_step" where
  "osc_indexed end' (index # v # rest) acc =
    (case parse_uint U64_MAX index of
       Some slot \<Rightarrow> osc_indexed end' rest
         (if slot \<le> 255 then osc_slot (lit ''4;'' @ decimal slot) slot v end' acc else acc)
     | None \<Rightarrow> osc_indexed end' rest acc)"
| "osc_indexed end' _ acc = acc"

definition osc_dynamic :: "rust_str \<Rightarrow> nat \<Rightarrow> rust_str list \<Rightarrow> color_step" where
  "osc_dynamic end' command fields' acc =
    fold (\<lambda>(code', v) acc. case dynamic_slot code' of
       Some slot \<Rightarrow> osc_slot (decimal code') slot v end' acc | None \<Rightarrow> acc) (enumerate command fields') acc"

definition osc_key :: "(rust_str \<Rightarrow> rust_str) \<Rightarrow> rust_str \<Rightarrow>
    color_state \<times> rust_str list \<Rightarrow> color_state \<times> rust_str list" where
  "osc_key base64 item = (\<lambda>(vc, answers).
    let (key, v) = (case split_once 61 item of Some (k, v) \<Rightarrow> (k, Some v) | None \<Rightarrow> (item, None)) in
    if key = [] then (vc, answers)
    else if v = Some (lit ''?'') then
      (vc, answers @ [case key_slot key of
         Some slot \<Rightarrow> key @ lit ''='' @ (case color_encoded (color_value_at vc slot) of Some rgb \<Rightarrow> rgb | None \<Rightarrow> [])
       | None \<Rightarrow> lit ''unknown='' @ base64 key])
    else case key_slot key of
      None \<Rightarrow> (vc, answers)
    | Some slot \<Rightarrow>
        (case v of
           None \<Rightarrow> (color_set slot None vc, answers)
         | Some txt \<Rightarrow>
             if txt = [] \<and> slot \<ge> COLOR_CURSOR then (color_set slot (Some ColorDynamic) vc, answers)
             else case parse_color txt of Some rgb \<Rightarrow> (color_set slot (Some rgb) vc, answers) | None \<Rightarrow> (vc, answers)))"

definition colors_osc :: "(rust_str \<Rightarrow> rust_str) \<Rightarrow> nat \<Rightarrow> rust_str \<Rightarrow> rust_str \<Rightarrow>
    color_state \<Rightarrow> color_state \<times> byte list option" where
  "colors_osc base64 command payload end' vc =
    (let answered = (\<lambda>(vc', reply). (vc', Some (utf8 reply))) in
     if command = 4 then answered (osc_indexed end' (split_on 59 payload) (vc, []))
     else if 10 \<le> command \<and> command \<le> 19 then answered (osc_dynamic end' command (split_on 59 payload) (vc, []))
     else if command = 104 then
       answered (if payload = [] then fold (\<lambda>slot. color_set slot None) [0..<256] vc
         else fold (\<lambda>field vc. case parse_uint U64_MAX field of
           Some slot \<Rightarrow> if slot \<le> 255 then color_set slot None vc else vc | None \<Rightarrow> vc) (split_on 59 payload) vc, [])
     else if 110 \<le> command \<and> command \<le> 119 then
       answered (case dynamic_slot (command - 100) of Some slot \<Rightarrow> color_set slot None vc | None \<Rightarrow> vc, [])
     else if command = 21 then
       (case fold (osc_key base64) (split_on 59 payload) (vc, []) of (vc', answers) \<Rightarrow>
          answered (vc', if answers = [] then [] else [ESC] @ lit '']21;'' @ join_with (lit '';'') answers @ end'))
     else if (command = 30001 \<or> command = 30101) \<and> payload = [] then answered (colors_stack (command = 30001) 0 vc, [])
     else (vc, None))"

subsection \<open>Replies that depend only on the style and the query\<close>

definition sgr :: "terminal_style \<Rightarrow> rust_str" where
  "sgr style =
    lit ''0'' @
    concat (map (\<lambda>(active, n). if active then lit '';'' @ decimal n else [])
      [(bold style, 1), (dim style, 2), (italic style, 3), (inverse style, 7), (conceal style, 8), (strike style, 9)]) @
    (let n = (case underline style of UnderlineNone \<Rightarrow> 0 | UnderlineSingle \<Rightarrow> 1 | UnderlineDouble \<Rightarrow> 2 | UnderlineCurly \<Rightarrow> 3
        | UnderlineDotted \<Rightarrow> 4 | UnderlineDashed \<Rightarrow> 5) in if n \<noteq> 0 then lit '';4:'' @ decimal n else []) @
    concat (map (\<lambda>(color, n). case color of
        ColorDefault \<Rightarrow> []
      | ColorIndexed i \<Rightarrow> lit '';'' @ decimal n @ lit '';5;'' @ decimal (unat i)
      | ColorRgb r g b \<Rightarrow> lit '';'' @ decimal n @ lit '';2;'' @ decimal (unat r) @ lit '';'' @ decimal (unat g) @ lit '';'' @ decimal (unat b))
      [(foreground style, 38), (background style, 48), (underline_color style, 58)]) @
    lit ''m''"

definition upper_hex_digit :: "nat \<Rightarrow> scalar" where
  "upper_hex_digit n = (if n < 10 then 48 + n else 55 + n)"

definition upper_hex :: "rust_str \<Rightarrow> rust_str" where
  "upper_hex s = concat (map (\<lambda>b. [upper_hex_digit (unat b div 16), upper_hex_digit (unat b mod 16)]) (utf8 s))"

fun decode_hex_pairs :: "rust_str \<Rightarrow> byte list option" where
  "decode_hex_pairs (c # d # rest) = Option.bind (parse_hex [c, d]) (\<lambda>n. map_option ((#) (word_of_nat n)) (decode_hex_pairs rest))"
| "decode_hex_pairs [] = Some []"
| "decode_hex_pairs [c] = None"

definition decode_hex_text :: "rust_str \<Rightarrow> rust_str option" where
  "decode_hex_text s =
    (if odd (str_len s) \<or> list_ex (\<lambda>c. c \<ge> 128) s then None
     else Option.bind (decode_hex_pairs s) (\<lambda>bytes. case from_utf8 bytes of Ok t \<Rightarrow> Some t | Err _ \<Rightarrow> None))"

definition capability :: "rust_str \<Rightarrow> rust_str option" where
  "capability name =
    (if name = lit ''Co'' \<or> name = lit ''colors'' then Some (lit ''256'')
     else if name = lit ''RGB'' then Some (lit ''8'')
     else if name = lit ''TN'' \<or> name = lit ''name'' then Some (lit ''xterm-256color'')
     else if name = lit ''Tc'' \<or> name = lit ''Su'' then Some []
     else if name = lit ''Smulx'' then Some ([ESC] @ lit ''[4:%p1%dm'')
     else if name = lit ''Setulc'' then
       Some ([ESC] @ lit ''[58:2::%p1%{65536}%/%d:%p1%{256}%/%{255}%&%d:%p1%{255}%&%dm'')
     else None)"

definition string_terminator :: rust_str where "string_terminator = [ESC, 92]"

fun capability_answers :: "rust_str list \<Rightarrow> rust_str" where
  "capability_answers [] = []"
| "capability_answers (encoded_name # rest) =
    (case Option.bind (decode_hex_text encoded_name) (\<lambda>name. map_option (Pair name) (capability name)) of
       None \<Rightarrow> [ESC] @ lit ''P0+r'' @ string_terminator
     | Some (name, v) \<Rightarrow>
         [ESC] @ lit ''P1+r'' @ upper_hex name @ (if v = [] then [] else lit ''='' @ upper_hex v) @ string_terminator @
         capability_answers rest)"

definition capabilities :: "rust_str \<Rightarrow> byte list" where
  "capabilities payload = utf8 (capability_answers (split_on 59 payload))"

subsection \<open>The invariant\<close>

definition palette_ok :: "color_snapshot \<Rightarrow> bool" where
  "palette_ok c \<longleftrightarrow> length (cpr_values (cs_profile c)) = TERMINAL_COLOR_SLOTS \<and> profile_is_valid (cs_profile c) \<and>
    length (cs_inherited_sources c) = TERMINAL_COLOR_SLOTS \<and> list_all (\<lambda>source. source < TERMINAL_COLOR_SLOTS) (cs_inherited_sources c)"

definition profile_ok :: "color_profile \<Rightarrow> bool" where
  "profile_ok p \<longleftrightarrow> length (cpr_values p) = TERMINAL_COLOR_SLOTS \<and> profile_is_valid p"

definition overrides_ok :: "color_value option list \<Rightarrow> bool" where
  "overrides_ok xs \<longleftrightarrow> (xs = [] \<or> length xs = TERMINAL_COLOR_SLOTS) \<and> (\<forall>slot < COLOR_CURSOR. get_flat xs slot \<noteq> Some ColorDynamic)"

definition sources_ok :: "nat option list \<Rightarrow> bool" where
  "sources_ok xs \<longleftrightarrow> (\<forall>slot source. get_flat xs slot = Some source \<longrightarrow> source < TERMINAL_COLOR_SLOTS)"

definition colors_ok :: "color_state \<Rightarrow> bool" where
  "colors_ok vc \<longleftrightarrow> profile_ok (vc_base vc) \<and> overrides_ok (vc_overrides vc) \<and> palette_ok (vc_snapshot vc) \<and>
    sources_ok (vc_inherited_sources vc) \<and> length (vc_saved vc) = 10 \<and> (\<forall>c. Some c \<in> set (vc_saved vc) \<longrightarrow> palette_ok c)"

lemmas color_limits = TERMINAL_COLOR_SLOTS_def COLOR_CURSOR_def COLOR_CURSOR_TEXT_def

lemma color_source_range: "color_source vc slot < TERMINAL_COLOR_SLOTS \<longleftrightarrow> slot < TERMINAL_COLOR_SLOTS"
  "color_source vc slot < COLOR_CURSOR \<longleftrightarrow> slot < COLOR_CURSOR"
  by (auto simp: color_source_def color_limits)

lemma profile_is_valid_iff: "length (cpr_values p) = TERMINAL_COLOR_SLOTS \<Longrightarrow>
    profile_is_valid p \<longleftrightarrow> (\<forall>slot < COLOR_CURSOR. cpr_values p ! slot \<noteq> ColorDynamic)"
  by (auto simp: profile_is_valid_def in_set_conv_nth color_limits)

lemma color_value_static: "profile_ok (vc_base vc) \<Longrightarrow> overrides_ok (vc_overrides vc) \<Longrightarrow> slot < COLOR_CURSOR \<Longrightarrow>
    color_value_at vc slot \<noteq> ColorDynamic"
  by (auto simp: color_value_at_def overrides_ok_def profile_ok_def profile_is_valid_iff color_source_range split: option.split)

lemma effective_profile_ok: "profile_ok (vc_base vc) \<Longrightarrow> overrides_ok (vc_overrides vc) \<Longrightarrow> profile_ok (color_effective vc)"
proof -
  assume "profile_ok (vc_base vc)" "overrides_ok (vc_overrides vc)"
  note static = color_value_static[OF this]
  have len: "length (cpr_values (color_effective vc)) = TERMINAL_COLOR_SLOTS" by (simp add: color_effective_def)
  have "cpr_values (color_effective vc) ! slot \<noteq> ColorDynamic" if "slot < COLOR_CURSOR" for slot
  proof -
    have "slot < TERMINAL_COLOR_SLOTS" using that by (simp add: color_limits)
    then show ?thesis using static[OF that] by (simp add: color_effective_def)
  qed
  then show ?thesis using len by (simp add: profile_ok_def profile_is_valid_iff)
qed

lemma effective_palette_ok: "colors_ok vc \<Longrightarrow> palette_ok (effective_snapshot vc)"
  using effective_profile_ok[of vc]
  by (auto simp: colors_ok_def palette_ok_def effective_snapshot_def profile_ok_def list_all_iff color_source_range sources_ok_def
      split: option.split)

lemma palette_valid_at: "palette_ok c \<Longrightarrow> cs_changed_at c \<le> rv \<Longrightarrow> colors_valid_at c rv"
  by (simp add: palette_ok_def colors_valid_at_def)

lemma colors_ok_commit:
  assumes "colors_ok vc"
  shows "colors_ok (colors_commit rv vc)"
proof -
  have "palette_ok (effective_snapshot vc\<lparr>cs_changed_at := rv\<rparr>)"
    using effective_palette_ok[OF assms] by (simp add: palette_ok_def)
  then show ?thesis using assms by (simp add: colors_commit_def colors_ok_def)
qed

lemma commit_changed_at:
  "cs_changed_at (vc_snapshot vc) \<le> rv \<Longrightarrow> cs_changed_at (vc_snapshot (colors_commit rv vc)) \<le> rv"
  by (simp add: colors_commit_def)

lemma colors_ok_default: "colors_ok color_state_default"
  by (simp add: colors_ok_def color_state_default_def profile_ok_def default_color_profile_def profile_is_valid_def overrides_ok_def
      sources_ok_def get_flat_def palette_ok_def default_color_snapshot_def list_all_iff)

lemma colors_ok_reset: "colors_ok vc \<Longrightarrow> colors_ok (colors_reset vc)"
  by (simp add: colors_ok_def colors_reset_def overrides_ok_def sources_ok_def get_flat_def)

lemma colors_ok_base: "colors_ok vc \<Longrightarrow> profile_ok p \<Longrightarrow> colors_ok (vc\<lparr>vc_base := p\<rparr>)"
  by (simp add: colors_ok_def)

lemma colors_ok_flags: "colors_ok vc \<Longrightarrow> colors_ok (vc\<lparr>vc_reverse := b\<rparr>)" "colors_ok vc \<Longrightarrow> colors_ok (vc\<lparr>vc_subscribed := b\<rparr>)"
  by (simp_all add: colors_ok_def)

lemma get_flat_update: "get_flat (xs[i := v]) j = (if i = j \<and> i < length xs then v else get_flat xs j)"
  by (cases "i < length xs") (auto simp: get_flat_def nth_list_update)

lemma get_flat_none [simp]: "get_flat (replicate n None) i = None" "get_flat [] i = None"
  by (simp_all add: get_flat_def)

lemma overrides_ok_update:
  assumes "overrides_ok xs" "v = Some ColorDynamic \<Longrightarrow> COLOR_CURSOR \<le> slot"
  shows "overrides_ok ((if xs = [] then replicate TERMINAL_COLOR_SLOTS None else xs)[slot := v])"
  using assms by (auto simp: overrides_ok_def get_flat_update split: if_splits)

lemma sources_ok_update: "sources_ok xs \<Longrightarrow> (\<And>s. v = Some s \<Longrightarrow> s < TERMINAL_COLOR_SLOTS) \<Longrightarrow> sources_ok (xs[slot := v])"
  by (auto simp: sources_ok_def get_flat_update split: if_splits)

lemma colors_ok_set:
  assumes ok: "colors_ok vc" and v: "v = Some ColorDynamic \<Longrightarrow> COLOR_CURSOR \<le> slot"
  shows "colors_ok (color_set slot v vc)"
proof -
  have "COLOR_CURSOR \<le> color_source vc slot" if "v = Some ColorDynamic"
    using v[OF that] color_source_range(2)[of vc slot] by linarith
  then have "overrides_ok ((if vc_overrides vc = [] then replicate TERMINAL_COLOR_SLOTS None else vc_overrides vc)[color_source vc slot := v])"
    using ok by (intro overrides_ok_update) (simp_all add: colors_ok_def)
  moreover have "sources_ok ((vc_inherited_sources vc)[color_source vc slot := None])"
    using ok by (intro sources_ok_update) (simp_all add: colors_ok_def)
  ultimately show ?thesis using ok by (simp add: color_set_def colors_ok_def Let_def)
qed

lemma restore_slot_ok:
  assumes ok: "colors_ok vc" and saved: "palette_ok saved" and entry: "(slot, v) \<in> set (enumerate 0 (cpr_values (cs_profile saved)))"
  shows "colors_ok (restore_slot saved (slot, v) vc)"
proof -
  have slot: "slot < TERMINAL_COLOR_SLOTS" "v = cpr_values (cs_profile saved) ! slot"
    using entry saved by (auto simp: in_set_enumerate_eq palette_ok_def)
  have "COLOR_CURSOR \<le> slot" if "v = ColorDynamic"
    using that saved slot by (auto simp: palette_ok_def profile_is_valid_iff) (meson not_le)
  then have set: "colors_ok (color_set slot (Some v) vc)" using ok by (intro colors_ok_set) auto
  have "cs_inherited_sources saved ! slot < TERMINAL_COLOR_SLOTS"
    using saved slot by (auto simp: palette_ok_def list_all_length)
  then have "sources_ok ((vc_inherited_sources (color_set slot (Some v) vc))[x := Some (cs_inherited_sources saved ! slot)])" for x
    using set by (intro sources_ok_update) (auto simp: colors_ok_def)
  then show ?thesis using set by (auto simp: restore_slot_def Let_def colors_ok_def)
qed

lemma restore_ok:
  "colors_ok vc \<Longrightarrow> palette_ok saved \<Longrightarrow> set xs \<subseteq> set (enumerate 0 (cpr_values (cs_profile saved))) \<Longrightarrow> colors_ok (fold (restore_slot saved) xs vc)"
proof (induction xs arbitrary: vc)
  case (Cons x xs)
  then show ?case using restore_slot_ok[of vc saved "fst x" "snd x"] by (cases x) simp
qed simp

lemma sources_ok_resize: "sources_ok xs \<Longrightarrow> sources_ok (resize_none n xs)"
  by (auto simp: sources_ok_def get_flat_def resize_none_def nth_append split: if_splits)

lemma colors_ok_stack:
  assumes ok: "colors_ok vc"
  shows "colors_ok (colors_stack store index vc)"
proof -
  have saved: "palette_ok c" if "vc_saved vc ! slot = Some c" "slot < 10" for slot c
    using ok that by (auto simp: colors_ok_def in_set_conv_nth) (metis nth_mem)
  have stored: "colors_ok (vc\<lparr>vc_saved := (vc_saved vc)[slot := Some (effective_snapshot vc)], vc_stored := n\<rparr>)" for slot n
    using ok effective_palette_ok[OF ok] set_update_subset_insert[of "vc_saved vc" slot] by (fastforce simp: colors_ok_def)
  have "colors_ok (vc\<lparr>vc_inherited_sources := resize_none TERMINAL_COLOR_SLOTS (vc_inherited_sources vc)\<rparr>)"
    using ok by (simp add: colors_ok_def sources_ok_resize)
  then have restored: "colors_ok (fold (restore_slot c) (enumerate 0 (cpr_values (cs_profile c)))
      (vc\<lparr>vc_inherited_sources := resize_none TERMINAL_COLOR_SLOTS (vc_inherited_sources vc)\<rparr>))" if "palette_ok c" for c
    using that by (intro restore_ok) auto
  have depth: "colors_ok vc' \<Longrightarrow> colors_ok (vc'\<lparr>vc_depth := d\<rparr>)" for vc' d by (simp add: colors_ok_def)
  show ?thesis
    unfolding colors_stack_def Let_def using ok
    by (auto split: option.split intro!: depth stored restored dest: saved)
qed

text \<open>Colour commands keep the invariant: a parsed colour is a concrete one.\<close>

lemma osc_slot_ok: "colors_ok (fst acc) \<Longrightarrow> colors_ok (fst (osc_slot p slot v e acc))"
  by (auto simp: osc_slot_def split: option.split prod.split intro!: colors_ok_set)

lemma osc_indexed_ok: "colors_ok (fst acc) \<Longrightarrow> colors_ok (fst (osc_indexed e fs acc))"
  by (induction e fs acc rule: osc_indexed.induct) (auto split: option.split simp: osc_slot_ok)

lemma fold_keeps: "P a \<Longrightarrow> (\<And>x a. P a \<Longrightarrow> P (f x a)) \<Longrightarrow> P (fold f xs a)"
  by (induction xs arbitrary: a) auto

lemma osc_dynamic_ok: "colors_ok (fst acc) \<Longrightarrow> colors_ok (fst (osc_dynamic e n fs acc))"
  unfolding osc_dynamic_def
  by (rule fold_keeps[where P = "\<lambda>acc. colors_ok (fst acc)"]) (auto split: option.split prod.split simp: osc_slot_ok)

lemma osc_key_ok: "colors_ok (fst acc) \<Longrightarrow> colors_ok (fst (osc_key base64 item acc))"
  by (cases acc) (auto simp: osc_key_def Let_def split: option.split prod.split intro!: colors_ok_set)

lemma colors_ok_osc:
  assumes ok: "colors_ok vc"
  shows "colors_ok (fst (colors_osc base64 command payload e vc))"
proof -
  have clear: "colors_ok (color_set slot None vc')" if "colors_ok vc'" for slot vc' using that by (intro colors_ok_set) auto
  have keys: "colors_ok (fst (fold (osc_key base64) fs (vc, [])))" for fs
    by (rule fold_keeps[where P = "\<lambda>acc. colors_ok (fst acc)"]) (simp_all add: ok osc_key_ok)
  have all: "colors_ok (fold (\<lambda>slot. color_set slot None) xs vc)" for xs
    by (rule fold_keeps) (simp_all add: ok clear)
  have some: "colors_ok (fold (\<lambda>field vc. case parse_uint U64_MAX field of
      Some slot \<Rightarrow> if slot \<le> 255 then color_set slot None vc else vc | None \<Rightarrow> vc) fs vc)" for fs
    by (rule fold_keeps) (auto simp: ok clear split: option.split)
  have answered: "fst ((\<lambda>(vc', reply). (vc', Some (utf8 reply))) acc) = fst acc" for acc :: "color_state \<times> rust_str"
    by (cases acc) simp
  have keyed: "colors_ok (fst (case fold (osc_key base64) fs (vc, []) of (vc', answers) \<Rightarrow>
      (\<lambda>(vc', reply). (vc', Some (utf8 reply))) (vc', g answers)))" for fs g
    using keys[of fs] by (cases "fold (osc_key base64) fs (vc, [])") simp
  show ?thesis
    unfolding colors_osc_def Let_def
    by (simp only: if_distrib[of fst] answered keyed fst_conv split: if_split)
      (auto simp: osc_indexed_ok osc_dynamic_ok ok all some clear colors_ok_stack split: option.split)
qed

end
