(* ===== verification/Terminal_Engine.thy ===== *)
theory Terminal_Engine
  imports Terminal_Colors
begin

section \<open>The terminal engine\<close>

text \<open>
  \<open>terminal/src/engine.rs\<close> and \<open>terminal/src/hyperlinks.rs\<close>: the engine of a session owns the title,
  the palette, the budget of combining characters, the table of hyperlinks, the sink of upstream
  events and the grid.  The grid with its parser belongs to the external package \<open>alacritty_terminal\<close>: it
  is a value of the type \<open>'g\<close>, and the record \<open>grid_ops\<close> lists what the engine calls on it, next to the
  functions of the packages \<open>unicode_width\<close>, \<open>url\<close> and \<open>base64\<close>.

  \<open>engine_ok\<close> is the invariant: the palette is valid, the retained links are valid, distinct, accounted
  exactly and within their limits, and the sink is bounded.
\<close>

definition MAX_COMBINING_BYTES_PER_SESSION :: nat where "MAX_COMBINING_BYTES_PER_SESSION = 64 * 1024"
definition MAX_COMBINING_CELLS_PER_SESSION :: nat where "MAX_COMBINING_CELLS_PER_SESSION = 4096"
definition MAX_TERMINAL_HYPERLINKS :: nat where "MAX_TERMINAL_HYPERLINKS = 1024"
definition MAX_TERMINAL_HYPERLINK_BYTES :: nat where "MAX_TERMINAL_HYPERLINK_BYTES = 1024 * 1024"
definition MAX_TERMINAL_HYPERLINK_URI_BYTES :: nat where "MAX_TERMINAL_HYPERLINK_URI_BYTES = 1024"
definition MAX_TERMINAL_HYPERLINK_ID_BYTES :: nat where "MAX_TERMINAL_HYPERLINK_ID_BYTES = 128"

subsection \<open>The upstream grid\<close>

datatype term_flag = FlagAppCursor | FlagAppKeypad | FlagOrigin | FlagLineWrap | FlagShowCursor | FlagAltScreen
  | FlagMouseReportClick | FlagMouseDrag | FlagMouseMotion | FlagFocusInOut | FlagUtf8Mouse | FlagSgrMouse
  | FlagAlternateScroll | FlagBracketedPaste | FlagInsert | FlagLineFeedNewLine | FlagDisambiguateEscCodes
  | FlagReportEventTypes | FlagReportAlternateKeys | FlagReportAllKeysAsEsc | FlagReportAssociatedText

datatype cell_flag = CellWideChar | CellWideSpacer | CellWrapline | CellBold | CellDim | CellItalic | CellUnderline
  | CellDoubleUnderline | CellUndercurl | CellDottedUnderline | CellDashedUnderline | CellInverse | CellStrikeout | CellHidden

datatype named_color = NamedBlack | NamedRed | NamedGreen | NamedYellow | NamedBlue | NamedMagenta | NamedCyan | NamedWhite
  | NamedBrightBlack | NamedBrightRed | NamedBrightGreen | NamedBrightYellow | NamedBrightBlue | NamedBrightMagenta
  | NamedBrightCyan | NamedBrightWhite | NamedDimBlack | NamedDimRed | NamedDimGreen | NamedDimYellow | NamedDimBlue
  | NamedDimMagenta | NamedDimCyan | NamedDimWhite | NamedForeground | NamedBackground | NamedCursor
  | NamedBrightForeground | NamedDimForeground

datatype grid_color = GridNamed named_color | GridSpec byte byte byte | GridIndexed byte

datatype upstream_event = UpBell | UpClipboardStore | UpClipboardLoad | UpTitle | UpResetTitle | UpPtyWrite | UpColorRequest
  | UpTextAreaSizeRequest | UpMouseCursorDirty | UpCursorBlinkingChange | UpWakeup | UpExit | UpChildExit

datatype upstream_shape = ShapeBlock | ShapeUnderline | ShapeBeam | ShapeHollowBlock | ShapeHidden

type_synonym link_key = "rust_str \<times> rust_str"

record grid_cell =
  gc_char :: scalar
  gc_flags :: "cell_flag set"
  gc_fg :: grid_color
  gc_bg :: grid_color
  gc_underline_color :: "grid_color option"
  gc_zerowidth :: rust_str
  gc_hyperlink :: "link_key option"

record parsed_url =
  url_scheme :: rust_str
  url_host :: "rust_str option"
  url_text :: rust_str

record 'g grid_ops =
  gr_new :: "terminal_size \<Rightarrow> nat \<Rightarrow> 'g"
  gr_advance :: "byte list \<Rightarrow> 'g \<Rightarrow> 'g \<times> upstream_event list"
  gr_resize :: "terminal_size \<Rightarrow> 'g \<Rightarrow> 'g \<times> upstream_event list"
  gr_flag :: "term_flag \<Rightarrow> 'g \<Rightarrow> bool"
  gr_screen_lines :: "'g \<Rightarrow> nat"
  gr_columns :: "'g \<Rightarrow> nat"
  gr_history_size :: "'g \<Rightarrow> nat"
  gr_cell :: "'g \<Rightarrow> int \<Rightarrow> nat \<Rightarrow> grid_cell"
  gr_cursor_point :: "'g \<Rightarrow> int \<times> nat"
  gr_set_cursor_line :: "int \<Rightarrow> 'g \<Rightarrow> 'g"
  gr_input_needs_wrap :: "'g \<Rightarrow> bool"
  gr_cursor_style :: "'g \<Rightarrow> upstream_shape \<times> bool"
  gr_template :: "'g \<Rightarrow> grid_cell"
  gr_saved_template :: "'g \<Rightarrow> grid_cell"
  gr_set_template_hyperlink :: "link_key option \<Rightarrow> 'g \<Rightarrow> 'g"
  gr_width :: "scalar \<Rightarrow> nat option"
  gr_url_parse :: "rust_str \<Rightarrow> parsed_url option"
  gr_base64_encode :: "rust_str \<Rightarrow> rust_str"
  gr_base64_decode :: "byte list \<Rightarrow> byte list option"

subsection \<open>Styles\<close>

fun color_of_name :: "named_color \<Rightarrow> terminal_color" where
  "color_of_name NamedBlack = ColorIndexed 0"
| "color_of_name NamedRed = ColorIndexed 1"
| "color_of_name NamedGreen = ColorIndexed 2"
| "color_of_name NamedYellow = ColorIndexed 3"
| "color_of_name NamedBlue = ColorIndexed 4"
| "color_of_name NamedMagenta = ColorIndexed 5"
| "color_of_name NamedCyan = ColorIndexed 6"
| "color_of_name NamedWhite = ColorIndexed 7"
| "color_of_name NamedBrightBlack = ColorIndexed 8"
| "color_of_name NamedBrightRed = ColorIndexed 9"
| "color_of_name NamedBrightGreen = ColorIndexed 10"
| "color_of_name NamedBrightYellow = ColorIndexed 11"
| "color_of_name NamedBrightBlue = ColorIndexed 12"
| "color_of_name NamedBrightMagenta = ColorIndexed 13"
| "color_of_name NamedBrightCyan = ColorIndexed 14"
| "color_of_name NamedBrightWhite = ColorIndexed 15"
| "color_of_name NamedDimBlack = ColorIndexed 0"
| "color_of_name NamedDimRed = ColorIndexed 1"
| "color_of_name NamedDimGreen = ColorIndexed 2"
| "color_of_name NamedDimYellow = ColorIndexed 3"
| "color_of_name NamedDimBlue = ColorIndexed 4"
| "color_of_name NamedDimMagenta = ColorIndexed 5"
| "color_of_name NamedDimCyan = ColorIndexed 6"
| "color_of_name NamedDimWhite = ColorIndexed 7"
| "color_of_name _ = ColorDefault"

fun color_of_grid :: "grid_color \<Rightarrow> terminal_color" where
  "color_of_grid (GridIndexed i) = ColorIndexed i"
| "color_of_grid (GridSpec r g b) = ColorRgb r g b"
| "color_of_grid (GridNamed n) = color_of_name n"

definition cell_style :: "grid_cell \<Rightarrow> terminal_style" where
  "cell_style cell =
    (let flag = (\<lambda>f. f \<in> gc_flags cell) in
     \<lparr>foreground = color_of_grid (gc_fg cell), background = color_of_grid (gc_bg cell), bold = flag CellBold, dim = flag CellDim,
      italic = flag CellItalic,
      underline = (if flag CellDoubleUnderline then UnderlineDouble else if flag CellUndercurl then UnderlineCurly
        else if flag CellDottedUnderline then UnderlineDotted else if flag CellDashedUnderline then UnderlineDashed
        else if flag CellUnderline then UnderlineSingle else UnderlineNone),
      underline_color = (case gc_underline_color cell of Some c \<Rightarrow> color_of_grid c | None \<Rightarrow> ColorDefault),
      inverse = flag CellInverse, strike = flag CellStrikeout, conceal = flag CellHidden\<rparr>)"

subsection \<open>Hyperlink values\<close>

definition hyperlink_new :: "'g grid_ops \<Rightarrow> rust_str \<Rightarrow> rust_str \<Rightarrow> terminal_hyperlink option" where
  "hyperlink_new ops i uri =
    (if str_len i > MAX_TERMINAL_HYPERLINK_ID_BYTES \<or> list_ex (\<lambda>c. is_control c \<or> c = 58 \<or> c = 59) i \<or>
        str_len uri > MAX_TERMINAL_HYPERLINK_URI_BYTES \<or> list_ex is_control uri
     then None
     else case gr_url_parse ops uri of
       None \<Rightarrow> None
     | Some parsed \<Rightarrow>
         if (url_scheme parsed \<noteq> lit ''http'' \<and> url_scheme parsed \<noteq> lit ''https'') \<or> url_host parsed = None then None
         else if str_len (url_text parsed) > MAX_TERMINAL_HYPERLINK_URI_BYTES then None
         else Some \<lparr>link_id = i, link_uri = url_text parsed\<rparr>)"

definition payload_bytes :: "terminal_hyperlink \<Rightarrow> nat" where
  "payload_bytes h = str_len (link_id h) + str_len (link_uri h)"

subsection \<open>State\<close>

datatype engine_event = EngineBell | EngineEffectRejected rejected_effect | EngineUnsupported unsupported_kind

record event_buffer =
  eb_events :: "engine_event list"
  eb_dropped :: nat

record screen_combining_budget =
  sc_bytes :: nat
  sc_cells :: nat

record hyperlinks =
  hl_values :: "(link_key \<times> terminal_hyperlink) list"
  hl_main :: "link_key set"
  hl_alternate :: "link_key set"
  hl_bytes :: nat
  hl_next_id :: nat

record 'g engine =
  eg_application_title :: rust_str
  eg_colors :: color_state
  eg_grid_input :: bool
  eg_term :: 'g
  eg_sink :: event_buffer
  eg_legacy_x10_mouse :: bool
  eg_combining_main :: screen_combining_budget
  eg_combining_alternate :: screen_combining_budget
  eg_hyperlinks :: hyperlinks

definition budget_zero :: screen_combining_budget where
  "budget_zero = \<lparr>sc_bytes = 0, sc_cells = 0\<rparr>"

definition hyperlinks_default :: hyperlinks where
  "hyperlinks_default = \<lparr>hl_values = [], hl_main = {}, hl_alternate = {}, hl_bytes = 0, hl_next_id = 0\<rparr>"

subsection \<open>Upstream events\<close>

definition event_push :: "engine_event \<Rightarrow> event_buffer \<Rightarrow> event_buffer" where
  "event_push e eb =
    (if length (eb_events eb) < MAX_SIDE_EVENTS_PER_UPDATE then eb\<lparr>eb_events := eb_events eb @ [e]\<rparr>
     else eb\<lparr>eb_dropped := min U64_MAX (eb_dropped eb + 1)\<rparr>)"

fun mapped_event :: "upstream_event \<Rightarrow> engine_event option" where
  "mapped_event UpBell = Some EngineBell"
| "mapped_event UpClipboardStore = Some (EngineEffectRejected RejectedClipboardWrite)"
| "mapped_event UpClipboardLoad = Some (EngineEffectRejected RejectedClipboardRead)"
| "mapped_event UpTitle = Some (EngineUnsupported UnsupportedOsc)"
| "mapped_event UpResetTitle = Some (EngineUnsupported UnsupportedOsc)"
| "mapped_event UpPtyWrite = Some (EngineUnsupported UnsupportedCsi)"
| "mapped_event UpColorRequest = Some (EngineUnsupported UnsupportedCsi)"
| "mapped_event UpTextAreaSizeRequest = Some (EngineUnsupported UnsupportedCsi)"
| "mapped_event _ = None"

definition send_event :: "upstream_event \<Rightarrow> event_buffer \<Rightarrow> event_buffer" where
  "send_event e eb = (case mapped_event e of Some m \<Rightarrow> event_push m eb | None \<Rightarrow> eb)"

fun public_event :: "engine_event \<Rightarrow> side_event" where
  "public_event EngineBell = AudibleBell"
| "public_event (EngineEffectRejected e) = EffectRejected e"
| "public_event (EngineUnsupported k) = UnsupportedSequence k"

text \<open>The events retained and one note for the dropped ones, within the limit.\<close>

definition bounded_events :: "side_event list \<Rightarrow> nat \<Rightarrow> side_event list" where
  "bounded_events events dropped =
    (if dropped = 0 then events
     else if length events = MAX_SIDE_EVENTS_PER_UPDATE then butlast events @ [EventsDropped (min U64_MAX (dropped + 1))]
     else events @ [EventsDropped dropped])"

definition take_events :: "'g engine \<Rightarrow> 'g engine \<times> side_event list" where
  "take_events eg =
    (eg\<lparr>eg_sink := \<lparr>eb_events = [], eb_dropped = 0\<rparr>\<rparr>,
     bounded_events (map public_event (eb_events (eg_sink eg))) (eb_dropped (eg_sink eg)))"

subsection \<open>Screens and budgets\<close>

definition engine_active_screen :: "'g grid_ops \<Rightarrow> 'g engine \<Rightarrow> active_screen" where
  "engine_active_screen ops eg = (if gr_flag ops FlagAltScreen (eg_term eg) then AlternateScreen else MainScreen)"

definition engine_size :: "'g grid_ops \<Rightarrow> 'g engine \<Rightarrow> terminal_size" where
  "engine_size ops eg = \<lparr>sz_rows = min U16_MAX (gr_screen_lines ops (eg_term eg)), sz_columns = min U16_MAX (gr_columns ops (eg_term eg))\<rparr>"

definition set_budget :: "active_screen \<Rightarrow> screen_combining_budget \<Rightarrow> 'g engine \<Rightarrow> 'g engine" where
  "set_budget screen b eg = (case screen of MainScreen \<Rightarrow> eg\<lparr>eg_combining_main := b\<rparr> | AlternateScreen \<Rightarrow> eg\<lparr>eg_combining_alternate := b\<rparr>)"

definition get_budget :: "active_screen \<Rightarrow> 'g engine \<Rightarrow> screen_combining_budget" where
  "get_budget screen eg = (case screen of MainScreen \<Rightarrow> eg_combining_main eg | AlternateScreen \<Rightarrow> eg_combining_alternate eg)"

text \<open>The cells of the retained history and of the screen, in the order of the loops.\<close>

definition grid_cells :: "'g grid_ops \<Rightarrow> int \<Rightarrow> int \<Rightarrow> 'g \<Rightarrow> grid_cell list" where
  "grid_cells ops first past g = concat (map (\<lambda>line. map (gr_cell ops g line) [0..<gr_columns ops g]) [first..past - 1])"

definition combining_usage :: "'g grid_ops \<Rightarrow> 'g \<Rightarrow> screen_combining_budget" where
  "combining_usage ops g =
    (let cells = filter (\<lambda>cell. gc_zerowidth cell \<noteq> [])
       (grid_cells ops (- int (min (2 ^ 31 - 1) (gr_history_size ops g))) (int (min (2 ^ 31 - 1) (gr_screen_lines ops g))) g)
     in \<lparr>sc_bytes = sum_list (map (\<lambda>cell. str_len (gc_zerowidth cell)) cells), sc_cells = length cells\<rparr>)"

definition reconcile_active_combining_budget :: "'g grid_ops \<Rightarrow> 'g engine \<Rightarrow> 'g engine" where
  "reconcile_active_combining_budget ops eg = set_budget (engine_active_screen ops eg) (combining_usage ops (eg_term eg)) eg"

text \<open>\<open>as i32\<close>.\<close>

definition as_i32 :: "nat \<Rightarrow> int" where
  "as_i32 n = (int n + 2 ^ 31) mod 2 ^ 32 - 2 ^ 31"

definition links_in_use :: "'g grid_ops \<Rightarrow> 'g \<Rightarrow> link_key set" where
  "links_in_use ops g = \<Union> (set (map (\<lambda>cell. set_option (gc_hyperlink cell))
     (grid_cells ops (- as_i32 (gr_history_size ops g)) (as_i32 (gr_screen_lines ops g)) g @ [gr_template ops g, gr_saved_template ops g])))"

definition reconcile_hyperlinks :: "'g grid_ops \<Rightarrow> 'g engine \<Rightarrow> 'g engine" where
  "reconcile_hyperlinks ops eg =
    (let hl = eg_hyperlinks eg;
         hl1 = (case engine_active_screen ops eg of
            AlternateScreen \<Rightarrow> hl\<lparr>hl_alternate := links_in_use ops (eg_term eg)\<rparr>
          | MainScreen \<Rightarrow> hl\<lparr>hl_main := links_in_use ops (eg_term eg)\<rparr>);
         kept = filter (\<lambda>(key, _). key \<in> hl_main hl1 \<or> key \<in> hl_alternate hl1) (hl_values hl1)
     in eg\<lparr>eg_hyperlinks := hl1\<lparr>hl_values := kept, hl_bytes := sum_list (map (payload_bytes \<circ> snd) kept)\<rparr>\<rparr>)"

subsection \<open>Feeding the grid\<close>

definition advance :: "'g grid_ops \<Rightarrow> byte list \<Rightarrow> 'g engine \<Rightarrow> 'g engine" where
  "advance ops bytes eg = (case gr_advance ops bytes (eg_term eg) of (g, events) \<Rightarrow>
     eg\<lparr>eg_grid_input := True, eg_term := g, eg_sink := fold send_event events (eg_sink eg)\<rparr>)"

definition feed_raw :: "'g grid_ops \<Rightarrow> byte list \<Rightarrow> 'g engine \<Rightarrow> 'g engine" where
  "feed_raw ops bytes eg =
    (let eg' = advance ops bytes eg in
     if engine_active_screen ops eg' \<noteq> engine_active_screen ops eg then reconcile_active_combining_budget ops eg' else eg')"

definition feed_screen_transition :: "'g grid_ops \<Rightarrow> byte list \<Rightarrow> 'g engine \<Rightarrow> 'g engine" where
  "feed_screen_transition ops bytes eg =
    reconcile_hyperlinks ops (reconcile_active_combining_budget ops (advance ops bytes
      (reconcile_active_combining_budget ops (reconcile_hyperlinks ops eg))))"

definition feed_reset :: "'g grid_ops \<Rightarrow> byte list \<Rightarrow> 'g engine \<Rightarrow> 'g engine" where
  "feed_reset ops bytes eg =
    (let eg1 = advance ops bytes (eg\<lparr>eg_colors := colors_reset (eg_colors eg), eg_application_title := []\<rparr>)
     in reconcile_active_combining_budget ops
       (eg1\<lparr>eg_legacy_x10_mouse := False, eg_combining_main := budget_zero, eg_combining_alternate := budget_zero,
            eg_hyperlinks := hyperlinks_default\<rparr>))"

definition engine_resize :: "'g grid_ops \<Rightarrow> terminal_size \<Rightarrow> 'g engine \<Rightarrow> 'g engine" where
  "engine_resize ops size' eg =
    (let eg1 = reconcile_active_combining_budget ops eg;
         g1 = (if engine_active_screen ops eg1 = AlternateScreen \<and> sz_rows size' < gr_screen_lines ops (eg_term eg1)
               then gr_set_cursor_line ops (min (fst (gr_cursor_point ops (eg_term eg1))) (int (sz_rows size') - 1)) (eg_term eg1)
               else eg_term eg1)
     in case gr_resize ops size' g1 of (g2, events) \<Rightarrow>
       reconcile_hyperlinks ops (reconcile_active_combining_budget ops (eg1\<lparr>eg_term := g2, eg_sink := fold send_event events (eg_sink eg1)\<rparr>)))"

definition keyboard_mode_bits :: "'g grid_ops \<Rightarrow> 'g engine \<Rightarrow> nat" where
  "keyboard_mode_bits ops eg = (let flag = (\<lambda>f. of_bool (gr_flag ops f (eg_term eg))) in
     flag FlagDisambiguateEscCodes + 2 * flag FlagReportEventTypes + 4 * flag FlagReportAlternateKeys +
     8 * flag FlagReportAllKeysAsEsc + 16 * flag FlagReportAssociatedText)"

text \<open>A private mode is a flag of the grid or a setting of the engine.\<close>

definition private_mode :: "'g grid_ops \<Rightarrow> 'g engine \<Rightarrow> nat \<Rightarrow> bool option" where
  "private_mode ops eg mode =
    (let flag = (\<lambda>f. Some (gr_flag ops f (eg_term eg))) in
     if mode = 5 then Some (vc_reverse (eg_colors eg))
     else if mode = 2031 then Some (vc_subscribed (eg_colors eg))
     else if mode = 9 then Some (eg_legacy_x10_mouse eg)
     else if mode = 1 then flag FlagAppCursor
     else if mode = 6 then flag FlagOrigin
     else if mode = 7 then flag FlagLineWrap
     else if mode = 12 then Some (snd (gr_cursor_style ops (eg_term eg)))
     else if mode = 25 then flag FlagShowCursor
     else if mode = 47 \<or> mode = 1047 \<or> mode = 1049 then flag FlagAltScreen
     else if mode = 1000 then flag FlagMouseReportClick
     else if mode = 1002 then flag FlagMouseDrag
     else if mode = 1003 then flag FlagMouseMotion
     else if mode = 1004 then flag FlagFocusInOut
     else if mode = 1005 then flag FlagUtf8Mouse
     else if mode = 1006 then flag FlagSgrMouse
     else if mode = 1007 then flag FlagAlternateScroll
     else if mode = 2004 then flag FlagBracketedPaste
     else None)"

definition report_mode :: "'g grid_ops \<Rightarrow> nat \<Rightarrow> bool \<Rightarrow> 'g engine \<Rightarrow> nat" where
  "report_mode ops mode private eg =
    (case (if private then private_mode ops eg mode
           else if mode = 4 then Some (gr_flag ops FlagInsert (eg_term eg))
           else if mode = 20 then Some (gr_flag ops FlagLineFeedNewLine (eg_term eg)) else None) of
       None \<Rightarrow> 0 | Some enabled \<Rightarrow> if enabled then 1 else 2)"

definition cursor_report :: "'g grid_ops \<Rightarrow> bool \<Rightarrow> 'g engine \<Rightarrow> byte list" where
  "cursor_report ops private eg = (case gr_cursor_point ops (eg_term eg) of (line, column) \<Rightarrow>
     let row' = min (if line < 0 then 0 else nat line) (gr_screen_lines ops (eg_term eg) - 1) + 1;
         column' = min column (gr_columns ops (eg_term eg) - 1) + 1
     in utf8 ([ESC] @ lit ''['' @ (if private then lit ''?'' else []) @ decimal row' @ lit '';'' @ decimal column' @ lit ''R''))"

subsection \<open>Combining characters\<close>

definition combining_target :: "'g grid_ops \<Rightarrow> 'g engine \<Rightarrow> nat \<times> bool" where
  "combining_target ops eg =
    (let g = eg_term eg; (line, column) = gr_cursor_point ops g;
         column1 = (if gr_input_needs_wrap ops g then column else column - 1);
         column2 = (if CellWideSpacer \<in> gc_flags (gr_cell ops g line column1) then column1 - 1 else column1);
         cell = gr_cell ops g line column2
     in (len_utf8 (gc_char cell) + str_len (gc_zerowidth cell), gc_zerowidth cell = []))"

definition combining_limit_exceeded :: "nat \<Rightarrow> bool \<Rightarrow> 'g engine \<Rightarrow> bool" where
  "combining_limit_exceeded character_bytes creates_cell eg \<longleftrightarrow>
    sc_bytes (eg_combining_main eg) + sc_bytes (eg_combining_alternate eg) + character_bytes > MAX_COMBINING_BYTES_PER_SESSION \<or>
    (creates_cell \<and> sc_cells (eg_combining_main eg) + sc_cells (eg_combining_alternate eg) \<ge> MAX_COMBINING_CELLS_PER_SESSION)"

definition accept_character :: "'g grid_ops \<Rightarrow> scalar \<Rightarrow> 'g engine \<Rightarrow> 'g engine \<times> bool" where
  "accept_character ops c eg =
    (if gr_width ops c \<noteq> Some 0 then (eg, True)
     else case combining_target ops eg of (existing_bytes, creates_cell) \<Rightarrow>
       if existing_bytes + len_utf8 c > MAX_CELL_TEXT_BYTES then (eg, False)
       else
         let eg' = (if combining_limit_exceeded (len_utf8 c) creates_cell eg then reconcile_active_combining_budget ops eg else eg) in
         if combining_limit_exceeded (len_utf8 c) creates_cell eg' then (eg', False)
         else
           let screen = engine_active_screen ops eg'; b = get_budget screen eg' in
           (set_budget screen (b\<lparr>sc_bytes := sc_bytes b + len_utf8 c, sc_cells := sc_cells b + of_bool creates_cell\<rparr>) eg', True))"

subsection \<open>Hyperlinks\<close>

definition set_template_link :: "'g grid_ops \<Rightarrow> link_key option \<Rightarrow> 'g engine \<Rightarrow> 'g engine" where
  "set_template_link ops link eg = eg\<lparr>eg_term := gr_set_template_hyperlink ops link (eg_term eg)\<rparr>"

definition close_hyperlink :: "'g grid_ops \<Rightarrow> 'g engine \<Rightarrow> 'g engine" where
  "close_hyperlink ops eg = set_template_link ops None eg"

text \<open>The identity of a link: the first \<open>id=\<close> parameter when it is not empty, else a generated one.\<close>

definition explicit_id :: "rust_str \<Rightarrow> rust_str option" where
  "explicit_id params =
    (case List.map_filter (strip_prefix (lit ''id='')) (split_on 58 params) of
       i # _ \<Rightarrow> if i = [] then None else Some i | [] \<Rightarrow> None)"

definition link_identity :: "rust_str \<Rightarrow> 'g engine \<Rightarrow> ('g engine \<times> rust_str) option" where
  "link_identity params eg =
    (case explicit_id params of
       Some i \<Rightarrow> Some (eg, i)
     | None \<Rightarrow> map_option (\<lambda>n. (eg\<lparr>eg_hyperlinks := (eg_hyperlinks eg)\<lparr>hl_next_id := n\<rparr>\<rparr>, lit ''voytty-auto-'' @ decimal n))
         (checked_add U64_MAX (hl_next_id (eg_hyperlinks eg)) 1))"

definition links_full :: "terminal_hyperlink \<Rightarrow> 'g engine \<Rightarrow> bool" where
  "links_full v eg \<longleftrightarrow> length (hl_values (eg_hyperlinks eg)) \<ge> MAX_TERMINAL_HYPERLINKS \<or>
    hl_bytes (eg_hyperlinks eg) + payload_bytes v > MAX_TERMINAL_HYPERLINK_BYTES"

text \<open>An admitted link enters the table once; the table is swept before it refuses one.\<close>

definition admit_link :: "'g grid_ops \<Rightarrow> terminal_hyperlink \<Rightarrow> 'g engine \<Rightarrow> 'g engine \<times> bool" where
  "admit_link ops v eg =
    (let key = (link_id v, link_uri v) in
     if map_of (hl_values (eg_hyperlinks eg)) key \<noteq> None then (set_template_link ops (Some key) eg, True)
     else
       let eg1 = (if links_full v eg then reconcile_hyperlinks ops eg else eg) in
       if links_full v eg1 then (eg1, False)
       else
         let hl = eg_hyperlinks eg1 in
         (set_template_link ops (Some key)
            (eg1\<lparr>eg_hyperlinks := hl\<lparr>hl_bytes := hl_bytes hl + payload_bytes v, hl_values := (key, v) # hl_values hl\<rparr>\<rparr>), True))"

definition set_web_hyperlink :: "'g grid_ops \<Rightarrow> rust_str \<Rightarrow> 'g engine \<Rightarrow> 'g engine \<times> bool" where
  "set_web_hyperlink ops payload eg0 =
    (let eg = close_hyperlink ops eg0 in
     case split_once 59 payload of
       None \<Rightarrow> (eg, False)
     | Some (params, uri) \<Rightarrow>
         if uri = [] then (eg, True)
         else case link_identity params eg of
           None \<Rightarrow> (eg, False)
         | Some (eg1, i) \<Rightarrow> (case hyperlink_new ops i uri of None \<Rightarrow> (eg1, False) | Some v \<Rightarrow> admit_link ops v eg1))"

definition cell_hyperlink :: "'g engine \<Rightarrow> grid_cell \<Rightarrow> terminal_hyperlink option" where
  "cell_hyperlink eg cell = Option.bind (gc_hyperlink cell) (map_of (hl_values (eg_hyperlinks eg)))"

subsection \<open>A new engine\<close>

definition engine_new :: "'g grid_ops \<Rightarrow> terminal_size \<Rightarrow> nat \<Rightarrow> 'g engine" where
  "engine_new ops size' scrollback_rows =
    fst (take_events (feed_raw ops (utf8 (ESC # lit ''[?1007l''))
      \<lparr>eg_application_title = [], eg_colors = color_state_default, eg_grid_input = False, eg_term = gr_new ops size' scrollback_rows,
       eg_sink = \<lparr>eb_events = [], eb_dropped = 0\<rparr>, eg_legacy_x10_mouse = False, eg_combining_main = budget_zero,
       eg_combining_alternate = budget_zero, eg_hyperlinks = hyperlinks_default\<rparr>))"

subsection \<open>The invariant\<close>

definition link_valid :: "terminal_hyperlink \<Rightarrow> bool" where
  "link_valid h \<longleftrightarrow> str_len (link_id h) \<le> MAX_TERMINAL_HYPERLINK_ID_BYTES \<and> str_len (link_uri h) \<le> MAX_TERMINAL_HYPERLINK_URI_BYTES"

definition links_ok :: "hyperlinks \<Rightarrow> bool" where
  "links_ok hl \<longleftrightarrow> distinct (map fst (hl_values hl)) \<and>
    list_all (\<lambda>(key, v). key = (link_id v, link_uri v) \<and> link_valid v) (hl_values hl) \<and>
    hl_bytes hl = sum_list (map (payload_bytes \<circ> snd) (hl_values hl)) \<and>
    length (hl_values hl) \<le> MAX_TERMINAL_HYPERLINKS \<and> hl_bytes hl \<le> MAX_TERMINAL_HYPERLINK_BYTES"

definition engine_ok :: "'g engine \<Rightarrow> bool" where
  "engine_ok eg \<longleftrightarrow> colors_ok (eg_colors eg) \<and> links_ok (eg_hyperlinks eg) \<and>
    length (eb_events (eg_sink eg)) \<le> MAX_SIDE_EVENTS_PER_UPDATE \<and>
    str_len (eg_application_title eg) \<le> MAX_TITLE_BYTES \<and> \<not> list_ex is_control (eg_application_title eg)"

lemma send_event_bounded:
  "length (eb_events eb) \<le> MAX_SIDE_EVENTS_PER_UPDATE \<Longrightarrow> length (eb_events (send_event e eb)) \<le> MAX_SIDE_EVENTS_PER_UPDATE"
  by (simp add: send_event_def event_push_def split: option.split)

lemma send_events_bounded:
  "length (eb_events eb) \<le> MAX_SIDE_EVENTS_PER_UPDATE \<Longrightarrow> length (eb_events (fold send_event es eb)) \<le> MAX_SIDE_EVENTS_PER_UPDATE"
  by (rule fold_keeps[where P = "\<lambda>eb. length (eb_events eb) \<le> MAX_SIDE_EVENTS_PER_UPDATE"]) (simp_all add: send_event_bounded)

lemma bounded_events_length:
  "length es \<le> MAX_SIDE_EVENTS_PER_UPDATE \<Longrightarrow> length (bounded_events es n) \<le> MAX_SIDE_EVENTS_PER_UPDATE"
  by (simp add: bounded_events_def MAX_SIDE_EVENTS_PER_UPDATE_def)

lemma take_events_bounded: "engine_ok eg \<Longrightarrow> length (snd (take_events eg)) \<le> MAX_SIDE_EVENTS_PER_UPDATE"
  by (simp add: take_events_def bounded_events_length engine_ok_def)

lemma engine_ok_take_events: "engine_ok eg \<Longrightarrow> engine_ok (fst (take_events eg))"
  by (simp add: take_events_def engine_ok_def)

lemma engine_ok_set_budget: "engine_ok eg \<Longrightarrow> engine_ok (set_budget screen b eg)"
  by (simp add: set_budget_def engine_ok_def split: active_screen.split)

lemma engine_ok_reconcile_budget: "engine_ok eg \<Longrightarrow> engine_ok (reconcile_active_combining_budget ops eg)"
  by (simp add: reconcile_active_combining_budget_def engine_ok_set_budget)

text \<open>Sweeping the table keeps a part of it.\<close>

lemma sum_list_filter_le: "sum_list (map f (filter P xs)) \<le> (sum_list (map f xs) :: nat)"
  by (induction xs) auto

lemma distinct_fst_filter: "distinct (map fst xs) \<Longrightarrow> distinct (map fst (filter P xs))"
  by (induction xs) auto

lemma links_ok_sweep:
  assumes "links_ok hl"
  shows "links_ok (hl\<lparr>hl_values := filter P (hl_values hl), hl_bytes := sum_list (map (payload_bytes \<circ> snd) (filter P (hl_values hl)))\<rparr>)"
  using assms sum_list_filter_le[of "payload_bytes \<circ> snd" P "hl_values hl"] length_filter_le[of P "hl_values hl"]
  by (auto simp: links_ok_def distinct_fst_filter list_all_iff simp del: length_filter_le)

lemma links_ok_screens [simp]: "links_ok (hl\<lparr>hl_main := m\<rparr>) = links_ok hl" "links_ok (hl\<lparr>hl_alternate := m\<rparr>) = links_ok hl"
  "links_ok (hl\<lparr>hl_next_id := n\<rparr>) = links_ok hl"
  by (simp_all add: links_ok_def)

lemma engine_ok_reconcile_links:
  assumes "engine_ok eg"
  shows "engine_ok (reconcile_hyperlinks ops eg)"
proof -
  have "links_ok (eg_hyperlinks eg)" using assms by (simp add: engine_ok_def)
  then have sweep: "links_ok ((eg_hyperlinks eg)\<lparr>hl_values := filter P (hl_values (eg_hyperlinks eg)),
      hl_bytes := sum_list (map (payload_bytes \<circ> snd) (filter P (hl_values (eg_hyperlinks eg))))\<rparr>)" for P
    by (rule links_ok_sweep)
  show ?thesis
    using assms sweep[of "\<lambda>(key, _). key \<in> links_in_use ops (eg_term eg) \<or> key \<in> hl_alternate (eg_hyperlinks eg)"]
      sweep[of "\<lambda>(key, _). key \<in> hl_main (eg_hyperlinks eg) \<or> key \<in> links_in_use ops (eg_term eg)"]
    by (cases "engine_active_screen ops eg") (simp_all add: reconcile_hyperlinks_def engine_ok_def links_ok_def Let_def)
qed

lemma engine_ok_advance: "engine_ok eg \<Longrightarrow> engine_ok (advance ops bytes eg)"
  by (simp add: advance_def engine_ok_def send_events_bounded split: prod.split)

lemma engine_ok_feed_raw: "engine_ok eg \<Longrightarrow> engine_ok (feed_raw ops bytes eg)"
  by (simp add: feed_raw_def Let_def engine_ok_advance engine_ok_reconcile_budget)

lemma engine_ok_feed_screen_transition: "engine_ok eg \<Longrightarrow> engine_ok (feed_screen_transition ops bytes eg)"
  by (simp add: feed_screen_transition_def engine_ok_advance engine_ok_reconcile_budget engine_ok_reconcile_links)

lemma links_ok_default: "links_ok hyperlinks_default"
  by (simp add: links_ok_def hyperlinks_default_def)

lemma engine_ok_feed_reset:
  assumes "engine_ok eg"
  shows "engine_ok (feed_reset ops bytes eg)"
proof -
  have "engine_ok (eg\<lparr>eg_colors := colors_reset (eg_colors eg), eg_application_title := []\<rparr>)"
    using assms by (simp add: engine_ok_def colors_ok_reset)
  from engine_ok_advance[OF this, of ops bytes] show ?thesis
    unfolding feed_reset_def Let_def by (intro engine_ok_reconcile_budget) (simp add: engine_ok_def links_ok_default)
qed

lemma engine_ok_resize: "engine_ok eg \<Longrightarrow> engine_ok (engine_resize ops size' eg)"
proof -
  assume ok: "engine_ok eg"
  have "engine_ok ((reconcile_active_combining_budget ops eg)\<lparr>eg_term := g, eg_sink := fold send_event es (eg_sink (reconcile_active_combining_budget ops eg))\<rparr>)" for g es
    using engine_ok_reconcile_budget[OF ok, of ops] by (simp add: engine_ok_def send_events_bounded)
  then show ?thesis
    by (auto simp: engine_resize_def Let_def engine_ok_reconcile_budget engine_ok_reconcile_links split: prod.split)
qed

lemma engine_ok_accept_character: "engine_ok eg \<Longrightarrow> engine_ok (fst (accept_character ops c eg))"
  by (simp add: accept_character_def Let_def engine_ok_set_budget engine_ok_reconcile_budget split: prod.split)

lemma hyperlink_new_valid: "hyperlink_new ops i uri = Some v \<Longrightarrow> link_valid v"
  by (auto simp: hyperlink_new_def link_valid_def split: if_splits option.splits)

lemma engine_ok_template [simp]: "engine_ok (set_template_link ops link eg) = engine_ok eg"
  by (simp add: set_template_link_def engine_ok_def)

lemma engine_ok_close_hyperlink [simp]: "engine_ok (close_hyperlink ops eg) = engine_ok eg"
  by (simp add: close_hyperlink_def)

lemma engine_ok_link_identity: "engine_ok eg \<Longrightarrow> link_identity params eg = Some (eg', i) \<Longrightarrow> engine_ok eg'"
  by (auto simp: link_identity_def engine_ok_def split: option.splits)

lemma reconcile_keeps_absent:
  "map_of (hl_values (eg_hyperlinks eg)) key = None \<Longrightarrow> map_of (hl_values (eg_hyperlinks (reconcile_hyperlinks ops eg))) key = None"
  by (auto simp: reconcile_hyperlinks_def Let_def map_of_eq_None_iff split: active_screen.split)

lemma engine_ok_insert:
  assumes "engine_ok eg" "link_valid v" "\<not> links_full v eg" "map_of (hl_values (eg_hyperlinks eg)) (link_id v, link_uri v) = None"
  shows "engine_ok (eg\<lparr>eg_hyperlinks := (eg_hyperlinks eg)\<lparr>hl_bytes := hl_bytes (eg_hyperlinks eg) + payload_bytes v,
    hl_values := ((link_id v, link_uri v), v) # hl_values (eg_hyperlinks eg)\<rparr>\<rparr>)"
  using assms by (auto simp: engine_ok_def links_ok_def links_full_def map_of_eq_None_iff)

lemma engine_ok_admit_link:
  assumes ok: "engine_ok eg" and v: "link_valid v"
  shows "engine_ok (fst (admit_link ops v eg))"
proof -
  let ?eg1 = "if links_full v eg then reconcile_hyperlinks ops eg else eg"
  have "engine_ok ?eg1" using ok by (simp add: engine_ok_reconcile_links)
  moreover have "map_of (hl_values (eg_hyperlinks ?eg1)) (link_id v, link_uri v) = None"
    if "map_of (hl_values (eg_hyperlinks eg)) (link_id v, link_uri v) = None" using that reconcile_keeps_absent by auto
  ultimately show ?thesis
    unfolding admit_link_def Let_def using ok v engine_ok_insert[of ?eg1 v] by (auto simp del: map_of_eq_None_iff)
qed

lemma engine_ok_set_web_hyperlink: "engine_ok eg \<Longrightarrow> engine_ok (fst (set_web_hyperlink ops payload eg))"
  by (auto simp: set_web_hyperlink_def Let_def split: option.splits prod.splits
      dest: engine_ok_link_identity[rotated] hyperlink_new_valid intro!: engine_ok_admit_link)

lemma engine_ok_new: "engine_ok (engine_new ops size' scrollback_rows)"
  unfolding engine_new_def
  by (intro engine_ok_take_events engine_ok_feed_raw)
    (simp add: engine_ok_def colors_ok_default links_ok_default)

end
