(* ===== verification/Terminal_Ingress.thy ===== *)
theory Terminal_Ingress
  imports Terminal_Engine
begin

section \<open>Ingress policy\<close>

text \<open>
  \<open>terminal/src/ingress.rs\<close>: the bytes a hosted application writes are framed into text, control
  bytes, escape and control sequences and control strings before anything reaches the grid.
  Queries are answered here, host effects and side events are collected here, and what the policy does
  not admit is dropped.  The state of the policy, the engine and the collected update are one value,
  \<open>ingress\<close>; an operation that may fail returns the error next to the state it leaves behind.
\<close>

definition MAX_CONTROL_SEQUENCE_BYTES :: nat where "MAX_CONTROL_SEQUENCE_BYTES = 256"
definition MAX_REPEAT_COUNT :: nat where "MAX_REPEAT_COUNT = 4096"
definition MAX_CONTROL_STRING_BYTES :: nat where "MAX_CONTROL_STRING_BYTES = MAX_TERMINAL_NOTIFICATION_BYTES"
definition MAX_OSC52_BASE64_BYTES :: nat where "MAX_OSC52_BASE64_BYTES = 699052"
definition MAX_REPLY_BYTES_PER_UPDATE :: nat where "MAX_REPLY_BYTES_PER_UPDATE = 64 * 1024"

definition PRIMARY_DEVICE_ATTRIBUTES_REPLY :: "byte list" where "PRIMARY_DEVICE_ATTRIBUTES_REPLY = utf8 (ESC # lit ''[?1;2c'')"
definition DEVICE_STATUS_OK_REPLY :: "byte list" where "DEVICE_STATUS_OK_REPLY = utf8 (ESC # lit ''[0n'')"

text \<open>A byte string literal.\<close>

definition bytes :: "string \<Rightarrow> byte list" where
  [simp]: "bytes s = map of_char s"

subsection \<open>Framing state\<close>

datatype string_kind = StringOsc | StringDcs | StringApc | StringPm | StringSos

record ctl_sequence =
  sq_bytes :: "byte list"
  sq_input_bytes :: nat
  sq_overflowed :: bool

definition sequence_new :: "byte list \<Rightarrow> ctl_sequence" where
  "sequence_new p = \<lparr>sq_bytes = p, sq_input_bytes = length p, sq_overflowed = False\<rparr>"

definition note_input_byte :: "ctl_sequence \<Rightarrow> ctl_sequence \<times> bool" where
  "note_input_byte sq =
    (let retain = sq_input_bytes sq < MAX_CONTROL_SEQUENCE_BYTES \<and> \<not> sq_overflowed sq in
     (sq\<lparr>sq_input_bytes := min U64_MAX (sq_input_bytes sq + 1), sq_overflowed := sq_overflowed sq \<or> \<not> retain\<rparr>, retain))"

definition sequence_push :: "byte \<Rightarrow> ctl_sequence \<Rightarrow> ctl_sequence" where
  "sequence_push b sq = (case note_input_byte sq of (sq', retain) \<Rightarrow> if retain then sq'\<lparr>sq_bytes := sq_bytes sq' @ [b]\<rparr> else sq')"

record control_string =
  st_kind :: string_kind
  st_bytes :: "byte list"
  st_overflowed :: bool
  st_saw_escape :: bool
  st_clipboard :: bool
  st_utf8_remaining :: nat
  st_continuation_min :: byte
  st_continuation_max :: byte

definition string_new :: "string_kind \<Rightarrow> control_string" where
  "string_new k = \<lparr>st_kind = k, st_bytes = [], st_overflowed = False, st_saw_escape = False, st_clipboard = False,
     st_utf8_remaining = 0, st_continuation_min = 0x80, st_continuation_max = 0xbf\<rparr>"

definition is_utf8_continuation :: "control_string \<Rightarrow> byte \<Rightarrow> bool" where
  "is_utf8_continuation st b \<longleftrightarrow> st_utf8_remaining st > 0 \<and> st_continuation_min st \<le> b \<and> b \<le> st_continuation_max st"

definition utf8_expectation :: "byte \<Rightarrow> nat \<times> byte \<times> byte" where
  "utf8_expectation b =
    (if 0xc2 \<le> b \<and> b \<le> 0xdf then (1, 0x80, 0xbf)
     else if b = 0xe0 then (2, 0xa0, 0xbf)
     else if (0xe1 \<le> b \<and> b \<le> 0xec) \<or> (0xee \<le> b \<and> b \<le> 0xef) then (2, 0x80, 0xbf)
     else if b = 0xed then (2, 0x80, 0x9f)
     else if b = 0xf0 then (3, 0x90, 0xbf)
     else if 0xf1 \<le> b \<and> b \<le> 0xf3 then (3, 0x80, 0xbf)
     else if b = 0xf4 then (3, 0x80, 0x8f)
     else (0, 0x80, 0xbf))"

definition string_maximum :: "control_string \<Rightarrow> nat" where
  "string_maximum st = (if st_clipboard st then MAX_OSC52_BASE64_BYTES + length ''52;c;'' else MAX_CONTROL_STRING_BYTES)"

definition string_push :: "byte \<Rightarrow> control_string \<Rightarrow> control_string" where
  "string_push b st =
    (let (remaining, lo, hi) = (if is_utf8_continuation st b then (st_utf8_remaining st - 1, 0x80, 0xbf) else utf8_expectation b);
         st1 = st\<lparr>st_utf8_remaining := remaining, st_continuation_min := lo, st_continuation_max := hi\<rparr>
     in if length (st_bytes st1) < string_maximum st1
        then st1\<lparr>st_bytes := st_bytes st1 @ [b],
                 st_clipboard := st_clipboard st1 \<or> (st_kind st1 = StringOsc \<and> st_bytes st1 @ [b] = bytes ''52;'')\<rparr>
        else st1\<lparr>st_overflowed := True\<rparr>)"

datatype policy_state = Ground | Escape ctl_sequence | Csi ctl_sequence | ControlString control_string

subsection \<open>The collected update\<close>

datatype ingress_error = ReplyOverflow

record update_collector =
  uc_replies :: "byte list"
  uc_events :: "side_event list"
  uc_dropped_events :: nat
  uc_host_effects :: host_effects

definition collector_new :: update_collector where
  "collector_new = \<lparr>uc_replies = [], uc_events = [], uc_dropped_events = 0, uc_host_effects = host_effects_default\<rparr>"

definition push_event :: "side_event \<Rightarrow> update_collector \<Rightarrow> update_collector" where
  "push_event e uc =
    (if length (uc_events uc) < MAX_SIDE_EVENTS_PER_UPDATE then uc\<lparr>uc_events := uc_events uc @ [e]\<rparr>
     else uc\<lparr>uc_dropped_events := min U64_MAX (uc_dropped_events uc + 1)\<rparr>)"

definition collector_finish :: "update_collector \<Rightarrow> byte list \<times> side_event list \<times> host_effects" where
  "collector_finish uc = (uc_replies uc, bounded_events (uc_events uc) (uc_dropped_events uc), uc_host_effects uc)"

datatype presentation_boundary = SynchronizedOutput bool "nat list" | BoundaryReset

record ingress_policy =
  pl_state :: policy_state
  pl_utf8 :: "byte list"
  pl_preceding_character :: "scalar option"
  pl_boundary :: "presentation_boundary option"
  pl_synchronized_output :: bool

definition policy_default :: ingress_policy where
  "policy_default = \<lparr>pl_state = Ground, pl_utf8 = [], pl_preceding_character = None, pl_boundary = None, pl_synchronized_output = False\<rparr>"

record 'g ingress =
  ig_policy :: ingress_policy
  ig_engine :: "'g engine"
  ig_output :: update_collector

type_synonym 'g fallible = "'g ingress \<times> ingress_error option"

definition emit :: "side_event \<Rightarrow> 'g ingress \<Rightarrow> 'g ingress" where
  "emit e ig = ig\<lparr>ig_output := push_event e (ig_output ig)\<rparr>"

definition reply :: "byte list \<Rightarrow> 'g ingress \<Rightarrow> 'g fallible" where
  "reply r ig =
    (if length (uc_replies (ig_output ig)) + length r > MAX_REPLY_BYTES_PER_UPDATE then (ig, Some ReplyOverflow)
     else (ig\<lparr>ig_output := (ig_output ig)\<lparr>uc_replies := uc_replies (ig_output ig) @ r\<rparr>\<rparr>, None))"

definition set_host_effect :: "host_effect \<Rightarrow> 'g ingress \<Rightarrow> 'g ingress" where
  "set_host_effect e ig = ig\<lparr>ig_output := (ig_output ig)\<lparr>uc_host_effects := host_effects_push e (uc_host_effects (ig_output ig))\<rparr>\<rparr>"

definition with_engine :: "('g engine \<Rightarrow> 'g engine) \<Rightarrow> 'g ingress \<Rightarrow> 'g ingress" where
  "with_engine f ig = ig\<lparr>ig_engine := f (ig_engine ig)\<rparr>"

definition with_policy :: "(ingress_policy \<Rightarrow> ingress_policy) \<Rightarrow> 'g ingress \<Rightarrow> 'g ingress" where
  "with_policy f ig = ig\<lparr>ig_policy := f (ig_policy ig)\<rparr>"

subsection \<open>Classes of bytes and parameters\<close>

definition c1_introducer :: "byte \<Rightarrow> policy_state option" where
  "c1_introducer b =
    (if b = 0x9b then Some (Csi (sequence_new [0x1b, 0x5b]))
     else if b = 0x9d then Some (ControlString (string_new StringOsc))
     else if b = 0x90 then Some (ControlString (string_new StringDcs))
     else if b = 0x9f then Some (ControlString (string_new StringApc))
     else if b = 0x9e then Some (ControlString (string_new StringPm))
     else if b = 0x98 then Some (ControlString (string_new StringSos))
     else None)"

definition is_embedded_control :: "byte \<Rightarrow> bool" where
  "is_embedded_control b \<longleftrightarrow> b \<le> 0x17 \<or> b = 0x19 \<or> (0x1c \<le> b \<and> b \<le> 0x1f) \<or> b = 0x7f"

definition is_escape_final :: "byte \<Rightarrow> bool" where
  "is_escape_final b \<longleftrightarrow> 0x30 \<le> b \<and> b \<le> 0x7e"

definition is_csi_final :: "byte \<Rightarrow> bool" where
  "is_csi_final b \<longleftrightarrow> 0x40 \<le> b \<and> b \<le> 0x7e"

definition parse_number :: "byte list \<Rightarrow> nat option" where
  "parse_number v = (if v = [] then Some 0 else case from_utf8 v of Ok t \<Rightarrow> parse_uint U16_MAX t | Err _ \<Rightarrow> None)"

fun parse_numbers :: "byte list list \<Rightarrow> nat list option" where
  "parse_numbers [] = Some []"
| "parse_numbers (v # vs) = Option.bind (parse_number v) (\<lambda>n. map_option ((#) n) (parse_numbers vs))"

definition parse_parameters :: "byte list \<Rightarrow> byte option \<times> nat list option" where
  "parse_parameters body =
    (let (marker, parameters) =
       (case body of first # rest \<Rightarrow> if first \<in> set (bytes ''?><='') then (Some first, rest) else (None, body) | [] \<Rightarrow> (None, []))
     in (marker, if parameters = [] then Some [] else parse_numbers (split_on (of_char CHR '';'') parameters)))"

subsection \<open>Text\<close>

fun bounded_title :: "rust_str \<Rightarrow> rust_str \<Rightarrow> rust_str \<times> bool" where
  "bounded_title title [] = (title, False)"
| "bounded_title title (c # cs) =
    (if str_len title + len_utf8 c > MAX_TITLE_BYTES then (title, True) else bounded_title (title @ [c]) cs)"

definition bounded_application_title :: "byte list \<Rightarrow> rust_str \<times> bool" where
  "bounded_application_title bs = bounded_title [] (filter (\<lambda>c. \<not> is_control c) (from_utf8_lossy bs))"

definition bounded_text :: "byte list \<Rightarrow> rust_str \<times> bool" where
  "bounded_text bs = (from_utf8_lossy (take MAX_TITLE_BYTES bs), length bs > MAX_TITLE_BYTES)"

definition print_character :: "'g grid_ops \<Rightarrow> scalar \<Rightarrow> 'g ingress \<Rightarrow> 'g ingress" where
  "print_character ops c ig =
    (case accept_character ops c (ig_engine ig) of (eg, accepted) \<Rightarrow>
     if accepted then ig\<lparr>ig_engine := feed_raw ops (utf8_char c) eg, ig_policy := (ig_policy ig)\<lparr>pl_preceding_character := Some c\<rparr>\<rparr>
     else emit (UnsupportedSequence UnsupportedCharacter) (ig\<lparr>ig_engine := eg\<rparr>))"

lemma from_utf8_error_len: "from_utf8 bs = Err (v, Some k) \<Longrightarrow> 1 \<le> k"
proof -
  have "from_utf8_loop bs n t = Err (v, Some k) \<Longrightarrow> 1 \<le> k" for n t
  proof (induction bs n t rule: from_utf8_loop.induct)
    case (1 bs n t)
    then show ?case
      by (subst (asm) (2) from_utf8_loop.simps) (auto split: if_splits utf8_scanned.splits dest!: utf8_scan_invalid)
  qed
  then show "from_utf8 bs = Err (v, Some k) \<Longrightarrow> 1 \<le> k" by (simp add: from_utf8_def)
qed

text \<open>
  The loop over the bytes of an unfinished character: a complete character is printed, an
  incomplete one waits, and an invalid part is handed to the grid, which prints a replacement.
\<close>

function drain_utf8 :: "'g grid_ops \<Rightarrow> 'g ingress \<Rightarrow> 'g ingress" where
  "drain_utf8 ops ig =
    (case from_utf8 (pl_utf8 (ig_policy ig)) of
       Ok [] \<Rightarrow> ig
     | Ok (c # _) \<Rightarrow> print_character ops c (with_policy (\<lambda>p. p\<lparr>pl_utf8 := []\<rparr>) ig)
     | Err (_, error_len) \<Rightarrow>
         if error_len = None \<and> length (pl_utf8 (ig_policy ig)) < 4 then ig
         else
           let bs = pl_utf8 (ig_policy ig);
               invalid = min (case error_len of Some n \<Rightarrow> n | None \<Rightarrow> 1) (length bs);
               ig' = with_engine (feed_raw ops (take invalid bs))
                 (with_policy (\<lambda>p. p\<lparr>pl_preceding_character := None, pl_utf8 := drop invalid bs\<rparr>) ig)
           in if drop invalid bs = [] then ig' else drain_utf8 ops ig')"
  by pat_completeness auto
termination
proof (relation "measure (\<lambda>(ops, ig). length (pl_utf8 (ig_policy ig)))", goal_cases)
  case (2 ops ig e v error_len bs invalid ig')
  have "1 \<le> (case error_len of Some n \<Rightarrow> n | None \<Rightarrow> 1)"
    using 2(1) 2(2) from_utf8_error_len[of "pl_utf8 (ig_policy ig)" v] by (auto split: option.split)
  then show ?case using 2(4-) by (auto simp: with_engine_def with_policy_def)
qed simp

declare drain_utf8.simps [simp del]

definition flush_partial_utf8 :: "'g grid_ops \<Rightarrow> 'g ingress \<Rightarrow> 'g ingress" where
  "flush_partial_utf8 ops ig =
    (if pl_utf8 (ig_policy ig) = [] then ig
     else with_policy (\<lambda>p. p\<lparr>pl_preceding_character := None, pl_utf8 := []\<rparr>)
       (with_engine (feed_raw ops (pl_utf8 (ig_policy ig))) ig))"

definition process_ground :: "'g grid_ops \<Rightarrow> byte \<Rightarrow> 'g ingress \<Rightarrow> 'g ingress \<times> policy_state" where
  "process_ground ops b ig =
    (if b = 0x1b then (flush_partial_utf8 ops ig, Escape (sequence_new [0x1b]))
     else case (if pl_utf8 (ig_policy ig) = [] then c1_introducer b else None) of
       Some state \<Rightarrow> (ig, state)
     | None \<Rightarrow>
         if b < 0x20 \<or> b = 0x7f then
           (let ig' = flush_partial_utf8 ops ig in
            if b = 0x07 then (emit AudibleBell ig', Ground) else (with_engine (feed_raw ops [b]) ig', Ground))
         else if b < 0x80 \<and> pl_utf8 (ig_policy ig) = [] then (print_character ops (unat b) ig, Ground)
         else (drain_utf8 ops (with_policy (\<lambda>p. p\<lparr>pl_utf8 := pl_utf8 p @ [b]\<rparr>) ig), Ground))"

definition dispatch_embedded_control :: "'g grid_ops \<Rightarrow> byte \<Rightarrow> 'g ingress \<Rightarrow> 'g ingress" where
  "dispatch_embedded_control ops b ig =
    (if b = 0x07 then emit AudibleBell ig else if b = 0x7f then ig else with_engine (feed_raw ops [b]) ig)"

subsection \<open>Escape and control sequences\<close>

definition dispatch_escape :: "'g grid_ops \<Rightarrow> ctl_sequence \<Rightarrow> 'g ingress \<Rightarrow> 'g ingress" where
  "dispatch_escape ops sq ig =
    (if sq_overflowed sq then emit (UnsupportedSequence UnsupportedEscape) ig
     else if sq_bytes sq = [0x1b, of_char CHR ''g''] then emit VisualBell ig
     else if sq_bytes sq = [0x1b, of_char CHR ''c''] then
       with_policy (\<lambda>p. p\<lparr>pl_preceding_character := None, pl_synchronized_output := False, pl_boundary := Some BoundaryReset\<rparr>)
         (with_engine (feed_reset ops (sq_bytes sq)) ig)
     else with_engine (feed_raw ops (sq_bytes sq)) ig)"

definition mode_parameter :: "bool \<Rightarrow> nat \<Rightarrow> 'g engine \<Rightarrow> 'g engine" where
  "mode_parameter enabled parameter eg =
    (if parameter = 5 then eg\<lparr>eg_colors := (eg_colors eg)\<lparr>vc_reverse := enabled\<rparr>\<rparr>
     else if parameter = 2031 then eg\<lparr>eg_colors := (eg_colors eg)\<lparr>vc_subscribed := enabled\<rparr>\<rparr>
     else if parameter = 9 then eg\<lparr>eg_legacy_x10_mouse := enabled\<rparr>
     else eg)"

definition mode_sequence :: "nat list \<Rightarrow> bool \<Rightarrow> byte list" where
  "mode_sequence forwarded enabled =
    utf8 (ESC # lit ''[?'' @ join_with (lit '';'') (map decimal forwarded) @ (if enabled then lit ''h'' else lit ''l''))"

definition apply_private_modes :: "'g grid_ops \<Rightarrow> nat list \<Rightarrow> bool \<Rightarrow> 'g engine \<Rightarrow> 'g engine" where
  "apply_private_modes ops parameters enabled eg =
    (let eg1 = fold (mode_parameter enabled) parameters eg;
         forwarded = filter (\<lambda>v. v \<notin> {5, 2031, 9}) parameters
     in if forwarded = [] then eg1
        else if list_ex (\<lambda>v. v \<in> {47, 1047, 1049}) forwarded then feed_screen_transition ops (mode_sequence forwarded enabled) eg1
        else feed_raw ops (mode_sequence forwarded enabled) eg1)"

text \<open>Answers to mode requests, one reply per parameter.\<close>

fun report_modes :: "'g grid_ops \<Rightarrow> bool \<Rightarrow> nat list \<Rightarrow> 'g ingress \<Rightarrow> 'g fallible" where
  "report_modes ops private [] ig = (ig, None)"
| "report_modes ops private (v # vs) ig =
    (let state = (if private \<and> v = 2026 then if pl_synchronized_output (ig_policy ig) then 1 else 2
                  else report_mode ops v private (ig_engine ig))
     in case reply (utf8 (ESC # lit ''['' @ (if private then lit ''?'' else []) @ decimal v @ lit '';'' @ decimal state @ lit ''$y'')) ig of
          (ig', None) \<Rightarrow> report_modes ops private vs ig'
        | (ig', Some e) \<Rightarrow> (ig', Some e))"

definition dispatch_keyboard_mode :: "'g grid_ops \<Rightarrow> ctl_sequence \<Rightarrow> byte option \<Rightarrow> nat list option \<Rightarrow> 'g ingress \<Rightarrow> 'g fallible" where
  "dispatch_keyboard_mode ops sq marker parameters ig =
    (if marker = Some (of_char CHR ''?'') \<and> parameters = Some [] then
       reply (utf8 (ESC # lit ''[?'' @ decimal (keyboard_mode_bits ops (ig_engine ig)) @ lit ''u'')) ig
     else
       let admitted = (case (marker, parameters) of
           (Some m, Some ps) \<Rightarrow>
             if m = of_char CHR ''='' then
               (case ps of [] \<Rightarrow> True | [a] \<Rightarrow> a \<le> 0x1f | [a, b] \<Rightarrow> a \<le> 0x1f \<and> b \<le> 3 | _ \<Rightarrow> False)
             else if m = of_char CHR ''>'' then (case ps of [] \<Rightarrow> True | [a] \<Rightarrow> a \<le> 0x1f | _ \<Rightarrow> False)
             else if m = of_char CHR ''<'' then length ps \<le> 1
             else False
         | _ \<Rightarrow> False)
       in (if admitted then with_engine (feed_raw ops (sq_bytes sq)) ig else emit (UnsupportedSequence UnsupportedCsi) ig, None))"

definition repeat_count :: "byte option \<Rightarrow> nat list option \<Rightarrow> nat option" where
  "repeat_count marker parameters =
    (if marker \<noteq> None then None
     else case parameters of
       Some [] \<Rightarrow> Some 1
     | Some [n] \<Rightarrow> if n = 0 then Some 1 else if n \<le> MAX_REPEAT_COUNT then Some n else None
     | _ \<Rightarrow> None)"

definition dispatch_color_stack :: "'g grid_ops \<Rightarrow> byte list \<Rightarrow> byte \<Rightarrow> 'g ingress \<Rightarrow> 'g fallible" where
  "dispatch_color_stack ops body final_byte ig =
    (if final_byte = of_char CHR ''R'' then
       if body = bytes ''#'' then reply (stack_report (eg_colors (ig_engine ig))) ig else (ig, None)
     else
       let stack = (\<lambda>v eg. eg\<lparr>eg_colors := colors_stack (final_byte = of_char CHR ''P'') v (eg_colors eg)\<rparr>) in
       case parse_parameters (butlast body) of
         (None, Some []) \<Rightarrow> (with_engine (stack 0) ig, None)
       | (None, Some values) \<Rightarrow> (with_engine (fold stack values) ig, None)
       | _ \<Rightarrow> (ig, None))"

text \<open>The rest of \<open>dispatch_csi\<close>, after the queries about modes and colours.\<close>

definition dispatch_status :: "'g grid_ops \<Rightarrow> byte option \<Rightarrow> nat list option \<Rightarrow> 'g ingress \<Rightarrow> 'g fallible" where
  "dispatch_status ops marker parameters ig =
    (if marker = None \<and> parameters = Some [5] then reply DEVICE_STATUS_OK_REPLY ig
     else if marker = None \<and> parameters = Some [6] then reply (cursor_report ops False (ig_engine ig)) ig
     else if marker = Some (of_char CHR ''?'') \<and> parameters = Some [6] then reply (cursor_report ops True (ig_engine ig)) ig
     else (emit (UnsupportedSequence UnsupportedCsi) ig, None))"

definition dispatch_window :: "'g grid_ops \<Rightarrow> byte list \<Rightarrow> byte option \<Rightarrow> nat list option \<Rightarrow> 'g ingress \<Rightarrow> 'g fallible" where
  "dispatch_window ops body marker parameters ig =
    (if body = bytes ''18'' then
       let size' = engine_size ops (ig_engine ig) in
       reply (utf8 (ESC # lit ''[8;'' @ decimal (sz_rows size') @ lit '';'' @ decimal (sz_columns size') @ lit ''t'')) ig
     else case (marker, parameters) of
       (None, Some [n, rows, columns]) \<Rightarrow>
         if n = 8 \<and> rows > 0 \<and> columns > 0 then (emit (ResizeRequested \<lparr>sz_rows = rows, sz_columns = columns\<rparr>) ig, None)
         else (emit (UnsupportedSequence UnsupportedCsi) ig, None)
     | _ \<Rightarrow> (emit (UnsupportedSequence UnsupportedCsi) ig, None))"

definition dispatch_repeat :: "'g grid_ops \<Rightarrow> byte option \<Rightarrow> nat list option \<Rightarrow> 'g ingress \<Rightarrow> 'g ingress" where
  "dispatch_repeat ops marker parameters ig =
    (case (repeat_count marker parameters, pl_preceding_character (ig_policy ig)) of
       (Some n, Some c) \<Rightarrow> (print_character ops c ^^ n) ig
     | (None, _) \<Rightarrow> emit (UnsupportedSequence UnsupportedCsi) ig
     | _ \<Rightarrow> ig)"

definition dispatch_private_modes :: "'g grid_ops \<Rightarrow> bool \<Rightarrow> nat list option \<Rightarrow> 'g ingress \<Rightarrow> 'g ingress" where
  "dispatch_private_modes ops enabled parameters ig =
    (case parameters of
       None \<Rightarrow> emit (UnsupportedSequence UnsupportedCsi) ig
     | Some ps \<Rightarrow>
         if 2026 \<in> set ps then
           with_policy (\<lambda>p. p\<lparr>pl_synchronized_output := enabled,
             pl_boundary := Some (SynchronizedOutput enabled (filter (\<lambda>v. v \<noteq> 2026) ps))\<rparr>) ig
         else with_engine (apply_private_modes ops ps enabled) ig)"

definition dispatch_csi :: "'g grid_ops \<Rightarrow> ctl_sequence \<Rightarrow> 'g ingress \<Rightarrow> 'g fallible" where
  "dispatch_csi ops sq ig =
    (if sq_overflowed sq \<or> length (sq_bytes sq) < 3 then (emit (UnsupportedSequence UnsupportedCsi) ig, None)
     else
       let final_byte = last (sq_bytes sq);
           body = drop 2 (butlast (sq_bytes sq));
           (marker, parameters) = parse_parameters body;
           is = (\<lambda>c. final_byte = of_char c);
           ends = (\<lambda>c. body \<noteq> [] \<and> last body = of_char c)
       in
       if body = bytes ''?996'' \<and> is CHR ''n'' then reply (appearance_reply (eg_colors (ig_engine ig))) ig
       else if is CHR ''p'' \<and> ends CHR ''$'' then
         (case parse_parameters (butlast body) of (private, values) \<Rightarrow>
            if private \<noteq> None \<and> private \<noteq> Some (of_char CHR ''?'') then (ig, None)
            else case values of Some vs \<Rightarrow> report_modes ops (private = Some (of_char CHR ''?'')) vs ig | None \<Rightarrow> (ig, None))
       else if ends CHR ''#'' \<and> (is CHR ''P'' \<or> is CHR ''Q'' \<or> is CHR ''R'') then dispatch_color_stack ops body final_byte ig
       else if is CHR ''c'' \<and> marker = None \<and> (parameters = Some [] \<or> parameters = Some [0]) then reply PRIMARY_DEVICE_ATTRIBUTES_REPLY ig
       else if is CHR ''n'' then dispatch_status ops marker parameters ig
       else if is CHR ''t'' then dispatch_window ops body marker parameters ig
       else if is CHR ''u'' then
         (if body = [] then (with_engine (feed_raw ops (sq_bytes sq)) ig, None) else dispatch_keyboard_mode ops sq marker parameters ig)
       else if is CHR ''b'' then (dispatch_repeat ops marker parameters ig, None)
       else if (is CHR ''h'' \<or> is CHR ''l'') \<and> marker = Some (of_char CHR ''?'') then
         (dispatch_private_modes ops (is CHR ''h'') parameters ig, None)
       else if is CHR ''c'' \<or> of_char CHR ''$'' \<in> set body then (emit (UnsupportedSequence UnsupportedCsi) ig, None)
       else (with_engine (feed_raw ops (sq_bytes sq)) ig, None))"

subsection \<open>Control strings\<close>

definition split_field :: "byte list \<Rightarrow> byte list \<times> byte list" where
  "split_field bs = (case split_once (of_char CHR '';'') bs of Some p \<Rightarrow> p | None \<Rightarrow> (bs, []))"

definition dispatch_clipboard :: "'g grid_ops \<Rightarrow> byte list \<Rightarrow> 'g ingress \<Rightarrow> 'g ingress" where
  "dispatch_clipboard ops payload ig =
    (case split_field payload of (selector, data) \<Rightarrow>
     if data = bytes ''?'' then emit (EffectRejected RejectedClipboardRead) ig
     else case (if selector = bytes ''c'' \<and> data \<noteq> [] then gr_base64_decode ops data else None) of
       None \<Rightarrow> emit (EffectRejected RejectedClipboardWrite) ig
     | Some decoded \<Rightarrow> (case res_bind (map_err (\<lambda>_. ()) (from_utf8 decoded)) (\<lambda>t. map_err (\<lambda>_. ()) (clipboard_write_new t)) of
         Ok w \<Rightarrow> set_host_effect (EffectClipboardWrite w) ig
       | Err _ \<Rightarrow> emit (EffectRejected RejectedClipboardWrite) ig))"

definition notification_of :: "byte list \<Rightarrow> byte list \<Rightarrow> notification option" where
  "notification_of command payload =
    (case from_utf8 payload of
       Err _ \<Rightarrow> None
     | Ok t \<Rightarrow>
         if command = bytes ''9'' then (case osc9 t of Ok n \<Rightarrow> Some n | Err _ \<Rightarrow> None)
         else Option.bind (strip_prefix (lit ''notify;'') t) (\<lambda>r. Option.bind (split_once 59 r) (\<lambda>(title, body).
           case osc777 title body of Ok n \<Rightarrow> Some n | Err _ \<Rightarrow> None)))"

text \<open>The commands of an OSC string that are not about colours.\<close>

definition dispatch_osc :: "'g grid_ops \<Rightarrow> byte list \<Rightarrow> 'g ingress \<Rightarrow> 'g ingress" where
  "dispatch_osc ops bs ig =
    (case split_field bs of (command, payload) \<Rightarrow>
     let refused = emit (UnsupportedSequence UnsupportedOsc) in
     if command = bytes ''8'' then
       (case (case from_utf8 payload of Ok t \<Rightarrow> set_web_hyperlink ops t (ig_engine ig) | Err _ \<Rightarrow> (ig_engine ig, False)) of
          (eg, accepted) \<Rightarrow> if accepted then ig\<lparr>ig_engine := eg\<rparr> else refused (ig\<lparr>ig_engine := close_hyperlink ops eg\<rparr>))
     else if command = bytes ''0'' \<or> command = bytes ''2'' then
       (case bounded_application_title payload of (title, truncated) \<Rightarrow>
          emit (TitleChanged title truncated) (with_engine (\<lambda>eg. eg\<lparr>eg_application_title := title\<rparr>) ig))
     else if command = bytes ''1'' then (case bounded_text payload of (icon_name, truncated) \<Rightarrow> emit (IconNameChanged icon_name truncated) ig)
     else if command = bytes ''9'' \<or> command = bytes ''777'' then
       (case notification_of command payload of Some n \<Rightarrow> set_host_effect (EffectNotification n) ig | None \<Rightarrow> refused ig)
     else if command = bytes ''52'' then dispatch_clipboard ops payload ig
     else refused ig)"

text \<open>What the text of a complete string answers: capability and style queries, and colour commands.\<close>

definition string_query :: "'g grid_ops \<Rightarrow> control_string \<Rightarrow> rust_str \<Rightarrow> 'g ingress \<Rightarrow> ('g ingress \<times> byte list) option" where
  "string_query ops st end' ig =
    (case from_utf8 (st_bytes st) of
       Err _ \<Rightarrow> None
     | Ok t \<Rightarrow>
         if st_kind st = StringDcs then
           (case strip_prefix (lit ''+q'') t of
              Some payload \<Rightarrow> Some (ig, utf8 (capability_answers (split_on 59 payload)))
            | None \<Rightarrow> (case strip_prefix (lit ''$q'') t of
                Some request \<Rightarrow> Some (ig, utf8 (if request = lit ''m''
                  then ESC # lit ''P1$r'' @ sgr (cell_style (gr_template ops (eg_term (ig_engine ig)))) @ string_terminator
                  else ESC # lit ''P0$r'' @ string_terminator))
              | None \<Rightarrow> None))
         else if st_kind st = StringOsc then
           (let (command, payload) = (case split_once 59 t of Some p \<Rightarrow> p | None \<Rightarrow> (t, [])) in
            Option.bind (parse_uint U16_MAX command) (\<lambda>n.
              case colors_osc (gr_base64_encode ops) n payload end' (eg_colors (ig_engine ig)) of (vc, answer) \<Rightarrow>
                map_option (Pair (with_engine (\<lambda>eg. eg\<lparr>eg_colors := vc\<rparr>) ig)) answer))
         else None)"

definition dispatch_string :: "'g grid_ops \<Rightarrow> control_string \<Rightarrow> rust_str \<Rightarrow> 'g ingress \<Rightarrow> 'g fallible" where
  "dispatch_string ops st end' ig =
    (if st_overflowed st then
       (let ig1 = (if st_kind st = StringOsc \<and> take 2 (st_bytes st) = bytes ''8;'' then with_engine (close_hyperlink ops) ig else ig) in
        (emit (if st_clipboard st then EffectRejected RejectedClipboardWrite
               else UnsupportedSequence (if st_kind st = StringOsc then UnsupportedOsc else UnsupportedControl)) ig1, None))
     else case string_query ops st end' ig of
       Some (ig1, answer) \<Rightarrow> reply answer ig1
     | None \<Rightarrow>
         if st_kind st \<noteq> StringOsc then (emit (UnsupportedSequence UnsupportedControl) ig, None)
         else (dispatch_osc ops (st_bytes st) ig, None))"

subsection \<open>One byte, and a chunk of bytes\<close>

text \<open>What a byte does in an escape or control sequence before it can be part of it.\<close>

definition sequence_common :: "'g grid_ops \<Rightarrow> (ctl_sequence \<Rightarrow> policy_state) \<Rightarrow> byte \<Rightarrow> ctl_sequence \<Rightarrow> 'g ingress \<Rightarrow>
    ('g ingress \<times> policy_state) option" where
  "sequence_common ops again b sq ig =
    (if b = 0x18 \<or> b = 0x1a then Some (ig, Ground)
     else if b = 0x1b then Some (ig, Escape (sequence_new [0x1b]))
     else case c1_introducer b of
       Some state \<Rightarrow> Some (ig, state)
     | None \<Rightarrow>
         if is_embedded_control b then
           (case note_input_byte sq of (sq', retain) \<Rightarrow>
              Some (if retain then dispatch_embedded_control ops b ig else ig, again sq'))
         else if b \<ge> 0x80 then
           (case note_input_byte sq of (sq', retain) \<Rightarrow>
              Some (if retain then emit (UnsupportedSequence UnsupportedControl) ig else ig, again sq'))
         else None)"

definition string_introducer :: "byte \<Rightarrow> string_kind option" where
  "string_introducer b = (if b = of_char CHR '']'' then Some StringOsc else if b = of_char CHR ''P'' then Some StringDcs
     else if b = of_char CHR ''_'' then Some StringApc else if b = of_char CHR ''^'' then Some StringPm
     else if b = of_char CHR ''X'' then Some StringSos else None)"

definition process_escape :: "'g grid_ops \<Rightarrow> byte \<Rightarrow> ctl_sequence \<Rightarrow> 'g ingress \<Rightarrow> 'g ingress \<times> policy_state" where
  "process_escape ops b sq ig =
    (case sequence_common ops Escape b sq ig of
       Some r \<Rightarrow> r
     | None \<Rightarrow>
         let opening = length (sq_bytes sq) = 1 \<and> \<not> sq_overflowed sq in
         if b = of_char CHR ''['' \<and> opening then (ig, Csi (sequence_push b sq))
         else case (if opening then string_introducer b else None) of
           Some k \<Rightarrow> (ig, ControlString (string_new k))
         | None \<Rightarrow>
             let sq' = sequence_push b sq in
             if is_escape_final b then (dispatch_escape ops sq' ig, Ground) else (ig, Escape sq'))"

definition process_csi :: "'g grid_ops \<Rightarrow> byte \<Rightarrow> ctl_sequence \<Rightarrow> 'g ingress \<Rightarrow> 'g fallible \<times> policy_state" where
  "process_csi ops b sq ig =
    (case sequence_common ops Csi b sq ig of
       Some (ig', state) \<Rightarrow> ((ig', None), state)
     | None \<Rightarrow>
         let sq' = sequence_push b sq in
         if is_csi_final b then (dispatch_csi ops sq' ig, Ground) else ((ig, None), Csi sq'))"

definition process_string :: "'g grid_ops \<Rightarrow> byte \<Rightarrow> control_string \<Rightarrow> 'g ingress \<Rightarrow> 'g fallible \<times> policy_state" where
  "process_string ops b st ig =
    (if b = 0x18 \<or> b = 0x1a then ((ig, None), Ground)
     else if (b = 0x9c \<and> (st_saw_escape st \<or> \<not> is_utf8_continuation st b)) \<or> (st_kind st = StringOsc \<and> b = 0x07) then
       (dispatch_string ops st (if b = 7 then [7] else string_terminator) ig, Ground)
     else if st_saw_escape st \<and> b = of_char (CHR 0x5c) then
       (dispatch_string ops (st\<lparr>st_saw_escape := False\<rparr>) string_terminator ig, Ground)
     else
       let st1 = (if st_saw_escape st then (string_push 0x1b st)\<lparr>st_saw_escape := False\<rparr> else st) in
       ((ig, None), ControlString (if b = 0x1b then st1\<lparr>st_saw_escape := True\<rparr> else string_push b st1)))"

text \<open>The state is taken before a byte is processed and stored again unless an error returns early.\<close>

definition process_byte :: "'g grid_ops \<Rightarrow> byte \<Rightarrow> 'g ingress \<Rightarrow> 'g fallible" where
  "process_byte ops b ig0 =
    (let ig = with_policy (\<lambda>p. p\<lparr>pl_state := Ground\<rparr>) ig0;
         ok = (\<lambda>(ig', state). ((ig', None), state));
         (outcome, state) =
           (case pl_state (ig_policy ig0) of
              Ground \<Rightarrow> ok (process_ground ops b ig)
            | Escape sq \<Rightarrow> ok (process_escape ops b sq ig)
            | Csi sq \<Rightarrow> process_csi ops b sq ig
            | ControlString st \<Rightarrow> process_string ops b st ig)
     in case outcome of
          (ig', None) \<Rightarrow> (with_policy (\<lambda>p. p\<lparr>pl_state := state\<rparr>) ig', None)
        | (ig', Some e) \<Rightarrow> (ig', Some e))"

definition collect_events :: "'g ingress \<Rightarrow> 'g ingress" where
  "collect_events ig = (case take_events (ig_engine ig) of (eg, events) \<Rightarrow> fold emit events (ig\<lparr>ig_engine := eg\<rparr>))"

fun process_until_boundary :: "'g grid_ops \<Rightarrow> byte list \<Rightarrow> 'g ingress \<Rightarrow> 'g ingress \<times> (nat, ingress_error) result" where
  "process_until_boundary ops [] ig = (ig, Ok 0)"
| "process_until_boundary ops (b # bs) ig =
    (case process_byte ops b ig of
       (ig', Some e) \<Rightarrow> (ig', Err e)
     | (ig', None) \<Rightarrow>
         let ig'' = collect_events ig' in
         if pl_boundary (ig_policy ig'') \<noteq> None then (ig'', Ok 1)
         else case process_until_boundary ops bs ig'' of
           (final, Ok n) \<Rightarrow> (final, Ok (Suc n)) | (final, Err e) \<Rightarrow> (final, Err e))"

definition take_boundary :: "ingress_policy \<Rightarrow> ingress_policy \<times> presentation_boundary option" where
  "take_boundary p = (p\<lparr>pl_boundary := None\<rparr>, pl_boundary p)"

definition end_synchronized_output :: "ingress_policy \<Rightarrow> ingress_policy" where
  "end_synchronized_output p = p\<lparr>pl_synchronized_output := False\<rparr>"

end
