(* ===== verification/Ingress_Safety.thy ===== *)
theory Ingress_Safety
  imports Terminal_Ingress
begin

section \<open>What the ingress policy guarantees\<close>

text \<open>
  Whatever bytes an application writes, the memory of the policy and the collected update stay
  within their limits, and the grid only receives complete, admitted chunks: single control bytes,
  encoded characters, fragments of broken UTF-8 and escape sequences that do not open a control
  string.  Text is delivered exactly, one character at a time.
\<close>

subsection \<open>The pending bytes of a character\<close>

definition pending_ok :: "byte list \<Rightarrow> bool" where
  "pending_ok bs \<longleftrightarrow> bs = [] \<or> utf8_scan bs = ScanIncomplete"

lemma scan_tail_snoc:
  "scan_tail n low high seen c bs = ScanIncomplete \<Longrightarrow>
    (\<exists>d. scan_tail n low high seen c (bs @ [b]) = ScanChar d (Suc (seen + length bs))) \<or>
    scan_tail n low high seen c (bs @ [b]) = ScanInvalid (seen + length bs) \<or>
    scan_tail n low high seen c (bs @ [b]) = ScanIncomplete"
proof (induction n low high seen c bs rule: scan_tail.induct)
  case (2 n low high seen c)
  then show ?case by (cases n) auto
qed (auto split: if_splits)

lemma utf8_scan_snoc:
  assumes "utf8_scan bs = ScanIncomplete" "bs \<noteq> []"
  shows "(\<exists>d. utf8_scan (bs @ [b]) = ScanChar d (Suc (length bs))) \<or> utf8_scan (bs @ [b]) = ScanInvalid (length bs) \<or>
    utf8_scan (bs @ [b]) = ScanIncomplete"
proof (cases bs)
  case (Cons a as)
  then obtain n low high where tail: "unat a \<ge> 128" "utf8_tail a = Some (n, low, high)"
    "scan_tail n low high 1 (unat a mod 2 ^ (6 - n)) as = ScanIncomplete"
    using assms by (auto split: if_splits option.splits)
  from scan_tail_snoc[OF this(3), of b] show ?thesis using tail Cons by auto
qed (use assms in simp)

lemma scan_tail_bytes: "scan_tail n low high seen c bs = ScanIncomplete \<Longrightarrow> 128 \<le> low \<Longrightarrow> b \<in> set bs \<Longrightarrow> 128 \<le> unat b"
  by (induction n low high seen c bs rule: scan_tail.induct) (auto split: if_splits)

lemma utf8_tail_low: "utf8_tail b = Some (n, low, high) \<Longrightarrow> 128 \<le> low"
  by (auto simp: utf8_tail_def Let_def split: if_splits)

lemma pending_bytes: "pending_ok bs \<Longrightarrow> b \<in> set bs \<Longrightarrow> 128 \<le> unat b"
  by (cases bs) (auto simp: pending_ok_def split: if_splits option.splits dest: scan_tail_bytes utf8_tail_low)

lemma pending_length: "pending_ok bs \<Longrightarrow> length bs \<le> 3"
  by (auto simp: pending_ok_def dest: utf8_scan_incomplete)

text \<open>The decoder on the pending bytes.\<close>

lemma from_utf8_scanned:
  assumes "bs \<noteq> []"
  shows "utf8_scan bs = ScanChar c (length bs) \<Longrightarrow> from_utf8 bs = Ok [c]"
    "utf8_scan bs = ScanInvalid k \<Longrightarrow> from_utf8 bs = Err (0, Some k)"
    "utf8_scan bs = ScanIncomplete \<Longrightarrow> from_utf8 bs = Err (0, None)"
  using assms by (simp_all add: from_utf8_def from_utf8_loop.simps)

text \<open>A character of more than one byte is not ASCII.\<close>

lemma scan_tail_ge: "scan_tail n low high seen c bs = ScanChar d k \<Longrightarrow> c * 64 ^ n \<le> d"
proof (induction n low high seen c bs rule: scan_tail.induct)
  case (3 n low high seen c b bs)
  then have "(c * 64 + unat b mod 64) * 64 ^ n \<le> d" by (auto split: if_splits)
  moreover have "c * 64 ^ Suc n \<le> (c * 64 + unat b mod 64) * 64 ^ n" by (simp add: algebra_simps)
  ultimately show ?case by linarith
qed auto

lemma scan_tail_first:
  assumes "scan_tail (Suc n) (128 + l) 191 seen 0 bs = ScanChar d k"
  shows "l * 64 ^ n \<le> d"
proof (cases bs)
  case (Cons b rest)
  then have range: "128 + l \<le> unat b" "unat b \<le> 191" and tail: "scan_tail n 128 191 (Suc seen) (unat b mod 64) rest = ScanChar d k"
    using assms by (auto split: if_splits)
  define r where "r = unat b - 128"
  have "unat b = 128 + r" "r < 64" "l \<le> r" using range by (simp_all add: r_def)
  then have "l \<le> unat b mod 64" using cont_mod[of r] by simp
  then show ?thesis using scan_tail_ge[OF tail] mult_le_mono1[of l "unat b mod 64" "64 ^ n"] by linarith
qed (use assms in simp)

lemma lead_mod:
  "q < 32 \<Longrightarrow> (192 + q) mod 32 = (q::nat)" "q < 16 \<Longrightarrow> (224 + q) mod 16 = q" "q < 8 \<Longrightarrow> (240 + q) mod 8 = q"
  using mod_mult_self2[of q 32 6] mod_mult_self2[of q 16 14] mod_mult_self2[of q 8 30] by (simp_all add: add.commute)

lemma utf8_tail_cases:
  assumes "utf8_tail a = Some (n, low, high)"
  shows "(n = 1 \<and> 194 \<le> unat a \<and> unat a \<le> 223) \<or> (n = 2 \<and> unat a = 224 \<and> low = 160 \<and> high = 191) \<or>
    (n = 2 \<and> 225 \<le> unat a \<and> unat a \<le> 239) \<or> (n = 3 \<and> unat a = 240 \<and> low = 144 \<and> high = 191) \<or>
    (n = 3 \<and> 241 \<le> unat a \<and> unat a \<le> 244)"
proof -
  define m where "m = unat a"
  show ?thesis using assms unfolding utf8_tail_def Let_def m_def[symmetric]
    by (simp only: split: if_split_asm) auto
qed

lemma utf8_scan_ge_128:
  assumes scan: "utf8_scan (a # bs) = ScanChar d k" and a: "128 \<le> unat a"
  shows "128 \<le> d"
proof -
  obtain n low high where tail: "utf8_tail a = Some (n, low, high)"
    and rest: "scan_tail n low high 1 (unat a mod 2 ^ (6 - n)) bs = ScanChar d k"
    using scan a by (cases "utf8_tail a") (auto simp: not_less)
  note ge = scan_tail_ge[OF rest]
  consider (two) "n = 1" "194 \<le> unat a" "unat a \<le> 223" | (e0) "n = 2" "unat a = 224" "low = 160" "high = 191"
    | (three) "n = 2" "225 \<le> unat a" "unat a \<le> 239" | (f0) "n = 3" "unat a = 240" "low = 144" "high = 191"
    | (four) "n = 3" "241 \<le> unat a" "unat a \<le> 244"
    using utf8_tail_cases[OF tail] by blast
  then show ?thesis
  proof cases
    case two
    then obtain q where q: "unat a = 192 + q" "2 \<le> q" "q < 32" using le_Suc_ex[of 192 "unat a"] by force
    then show ?thesis using ge lead_mod(1)[of q] two(1) by simp
  next
    case e0
    then have "n = Suc 1" "low = 128 + 32" "unat a mod 2 ^ (6 - n) = 0" by simp_all
    then have "scan_tail (Suc 1) (128 + 32) 191 1 0 bs = ScanChar d k" using rest e0(4) by (simp only:)
    from scan_tail_first[OF this] show ?thesis by simp
  next
    case three
    then obtain q where q: "unat a = 224 + q" "1 \<le> q" "q < 16" using le_Suc_ex[of 224 "unat a"] by force
    then show ?thesis using ge lead_mod(2)[of q] three(1) by simp
  next
    case f0
    then have "n = Suc 2" "low = 128 + 16" "unat a mod 2 ^ (6 - n) = 0" by simp_all
    then have "scan_tail (Suc 2) (128 + 16) 191 1 0 bs = ScanChar d k" using rest f0(4) by (simp only:)
    from scan_tail_first[OF this] show ?thesis by simp
  next
    case four
    then obtain q where q: "unat a = 240 + q" "1 \<le> q" "q < 8" using le_Suc_ex[of 240 "unat a"] by force
    then show ?thesis using ge lead_mod(3)[of q] four(1) by simp
  qed
qed

subsection \<open>What the grid may receive\<close>

definition is_printable :: "byte \<Rightarrow> bool" where
  "is_printable b \<longleftrightarrow> 0x20 \<le> b \<and> b \<le> 0x7e"

definition escape_frame :: "byte list \<Rightarrow> bool" where
  "escape_frame bs \<longleftrightarrow> (\<exists>rest. bs = 0x1b # rest \<and> list_all is_printable rest \<and> (rest \<noteq> [] \<longrightarrow> string_introducer (hd rest) = None))"

definition admitted :: "byte list \<Rightarrow> bool" where
  "admitted bs \<longleftrightarrow>
    (\<exists>b. bs = [b] \<and> (b < 0x20 \<or> b = 0x7f) \<and> b \<noteq> 0x1b \<and> b \<noteq> 0x07) \<or>
    (\<exists>c. bs = utf8_char c \<and> 32 \<le> c \<and> c \<noteq> 127) \<or>
    (bs \<noteq> [] \<and> length bs \<le> 3 \<and> list_all (\<lambda>b. 128 \<le> unat b) bs) \<or>
    (escape_frame bs \<and> 2 \<le> length bs)"

inductive grid_reaches :: "'g grid_ops \<Rightarrow> 'g \<Rightarrow> 'g \<Rightarrow> bool" for ops where
  unchanged: "grid_reaches ops g g"
| received: "grid_reaches ops g g' \<Longrightarrow> admitted bs \<Longrightarrow> grid_reaches ops g (fst (gr_advance ops bs g'))"
| linked: "grid_reaches ops g g' \<Longrightarrow> grid_reaches ops g (gr_set_template_hyperlink ops l g')"

lemma grid_reaches_trans: "grid_reaches ops g' g'' \<Longrightarrow> grid_reaches ops g g' \<Longrightarrow> grid_reaches ops g g''"
  by (induction rule: grid_reaches.induct) (auto intro: grid_reaches.intros)

subsection \<open>The invariant\<close>

definition sequence_ok :: "ctl_sequence \<Rightarrow> bool" where
  "sequence_ok sq \<longleftrightarrow> escape_frame (sq_bytes sq) \<and> length (sq_bytes sq) \<le> sq_input_bytes sq \<and> length (sq_bytes sq) \<le> MAX_CONTROL_SEQUENCE_BYTES"

definition string_ok :: "control_string \<Rightarrow> bool" where
  "string_ok st \<longleftrightarrow> length (st_bytes st) \<le> string_maximum st"

primrec state_ok :: "policy_state \<Rightarrow> bool" where
  "state_ok Ground = True"
| "state_ok (Escape sq) = sequence_ok sq"
| "state_ok (Csi sq) = (sequence_ok sq \<and> (sq_overflowed sq \<or> 2 \<le> length (sq_bytes sq)))"
| "state_ok (ControlString st) = string_ok st"

definition collector_ok :: "update_collector \<Rightarrow> bool" where
  "collector_ok uc \<longleftrightarrow> length (uc_replies uc) \<le> MAX_REPLY_BYTES_PER_UPDATE \<and> length (uc_events uc) \<le> MAX_SIDE_EVENTS_PER_UPDATE \<and>
    effects_ok (uc_host_effects uc)"

text \<open>A character that may be repeated is one that was printed.\<close>

definition preceding_ok :: "scalar option \<Rightarrow> bool" where
  "preceding_ok c \<longleftrightarrow> (case c of Some d \<Rightarrow> 32 \<le> d \<and> d \<noteq> 127 | None \<Rightarrow> True)"

lemma preceding_ok_simps [simp]: "preceding_ok None" "preceding_ok (Some d) \<longleftrightarrow> 32 \<le> d \<and> d \<noteq> 127"
  by (simp_all add: preceding_ok_def)

definition ingress_ok :: "'g ingress \<Rightarrow> bool" where
  "ingress_ok ig \<longleftrightarrow> state_ok (pl_state (ig_policy ig)) \<and> pending_ok (pl_utf8 (ig_policy ig)) \<and>
    preceding_ok (pl_preceding_character (ig_policy ig)) \<and> engine_ok (ig_engine ig) \<and>
    collector_ok (ig_output ig)"

abbreviation grid_of :: "'g ingress \<Rightarrow> 'g" where
  "grid_of ig \<equiv> eg_term (ig_engine ig)"

text \<open>An operation keeps the invariant and gives the grid admitted chunks only.\<close>

definition step_ok :: "'g grid_ops \<Rightarrow> 'g ingress \<Rightarrow> 'g ingress \<Rightarrow> bool" where
  "step_ok ops ig ig' \<longleftrightarrow> ingress_ok ig' \<and> grid_reaches ops (grid_of ig) (grid_of ig')"

lemma step_ok_refl: "ingress_ok ig \<Longrightarrow> step_ok ops ig ig"
  by (simp add: step_ok_def unchanged)

lemma step_ok_trans: "step_ok ops ig ig' \<Longrightarrow> step_ok ops ig' ig'' \<Longrightarrow> step_ok ops ig ig''"
  by (auto simp: step_ok_def intro: grid_reaches_trans)

lemma step_ok_then: "step_ok ops ig ig' \<Longrightarrow> (ingress_ok ig' \<Longrightarrow> step_ok ops ig' ig'') \<Longrightarrow> step_ok ops ig ig''"
  using step_ok_trans by (fastforce simp: step_ok_def)

subsection \<open>Collecting\<close>

lemma collector_ok_push_event: "collector_ok uc \<Longrightarrow> collector_ok (push_event e uc)"
  by (simp add: collector_ok_def push_event_def)

lemma step_ok_emit: "ingress_ok ig \<Longrightarrow> step_ok ops ig (emit e ig)"
  by (simp add: step_ok_def ingress_ok_def emit_def collector_ok_push_event unchanged)

lemma step_ok_reply: "ingress_ok ig \<Longrightarrow> step_ok ops ig (fst (reply r ig))"
  by (simp add: step_ok_def ingress_ok_def reply_def collector_ok_def unchanged)

lemma step_ok_emit_all: "ingress_ok ig \<Longrightarrow> step_ok ops ig (fold emit es ig)"
proof (induction es arbitrary: ig)
  case (Cons e es)
  have "step_ok ops ig (emit e ig)" by (rule step_ok_emit[OF Cons.prems])
  then show ?case using Cons.IH by (auto intro: step_ok_then)
qed (simp add: step_ok_refl)

lemma step_ok_collect_events: "ingress_ok ig \<Longrightarrow> step_ok ops ig (collect_events ig)"
proof -
  assume ok: "ingress_ok ig"
  have "step_ok ops ig (ig\<lparr>ig_engine := fst (take_events (ig_engine ig))\<rparr>)"
    using ok engine_ok_take_events[of "ig_engine ig"] by (simp add: step_ok_def ingress_ok_def take_events_def unchanged)
  then show ?thesis unfolding collect_events_def
    by (auto split: prod.split intro: step_ok_then step_ok_emit_all)
qed

subsection \<open>Feeding\<close>

lemma reconcile_term [simp]: "eg_term (reconcile_active_combining_budget ops eg) = eg_term eg" "eg_term (reconcile_hyperlinks ops eg) = eg_term eg"
  by (simp_all add: reconcile_active_combining_budget_def set_budget_def reconcile_hyperlinks_def Let_def split: active_screen.split)

lemma advance_term [simp]: "eg_term (advance ops bs eg) = fst (gr_advance ops bs (eg_term eg))"
  by (simp add: advance_def split: prod.split)

lemma feed_term [simp]: "eg_term (feed_raw ops bs eg) = fst (gr_advance ops bs (eg_term eg))"
  "eg_term (feed_screen_transition ops bs eg) = fst (gr_advance ops bs (eg_term eg))"
  "eg_term (feed_reset ops bs eg) = fst (gr_advance ops bs (eg_term eg))"
  by (simp_all add: feed_raw_def feed_screen_transition_def feed_reset_def Let_def)

lemma step_ok_engine:
  assumes "ingress_ok ig" "engine_ok (f (ig_engine ig))" "grid_reaches ops (grid_of ig) (eg_term (f (ig_engine ig)))"
  shows "step_ok ops ig (with_engine f ig)"
  using assms by (simp add: step_ok_def ingress_ok_def with_engine_def)

lemma step_ok_feed:
  assumes "ingress_ok ig" "admitted bs"
  shows "step_ok ops ig (with_engine (feed_raw ops bs) ig)"
  using assms by (intro step_ok_engine) (auto simp: ingress_ok_def engine_ok_feed_raw intro: grid_reaches.intros)

lemma accept_term [simp]: "eg_term (fst (accept_character ops c eg)) = eg_term eg"
  by (simp add: accept_character_def set_budget_def Let_def split: prod.split active_screen.split)

lemma step_ok_print:
  assumes ok: "ingress_ok ig" and c: "32 \<le> c" "c \<noteq> 127"
  shows "step_ok ops ig (print_character ops c ig)"
proof -
  obtain eg accepted where acc: "accept_character ops c (ig_engine ig) = (eg, accepted)" by (cases "accept_character ops c (ig_engine ig)")
  have eg: "engine_ok eg" "eg_term eg = grid_of ig"
    using ok engine_ok_accept_character[of "ig_engine ig" ops c] accept_term[of ops c "ig_engine ig"] by (simp_all add: ingress_ok_def acc)
  have chunk: "admitted (utf8_char c)" using c by (auto simp: admitted_def)
  have "step_ok ops ig (ig\<lparr>ig_engine := eg\<rparr>)" using ok eg by (simp add: step_ok_def ingress_ok_def unchanged)
  moreover have "ingress_ok (ig\<lparr>ig_engine := eg\<rparr>)" using ok eg by (simp add: ingress_ok_def)
  moreover have "step_ok ops ig (ig\<lparr>ig_engine := feed_raw ops (utf8_char c) eg, ig_policy := (ig_policy ig)\<lparr>pl_preceding_character := Some c\<rparr>\<rparr>)"
    using ok eg c chunk received[OF unchanged, of "utf8_char c" ops "grid_of ig"] by (simp add: step_ok_def ingress_ok_def engine_ok_feed_raw)
  ultimately show ?thesis by (simp add: print_character_def acc step_ok_emit step_ok_trans[OF _ step_ok_emit])
qed

subsection \<open>Text and controls\<close>

lemma byte_ranges:
  "(0x20::byte) \<le> b \<longleftrightarrow> 32 \<le> unat b" "(0x80::byte) \<le> b \<longleftrightarrow> 128 \<le> unat b" "b < (0x80::byte) \<longleftrightarrow> unat b < 128"
  "b = (0x7f::byte) \<longleftrightarrow> unat b = 127"
  by (simp_all add: word_le_nat_alt word_less_nat_alt word_unat_eq_iff)

abbreviation with_utf8 :: "byte list \<Rightarrow> 'g ingress \<Rightarrow> 'g ingress" where
  "with_utf8 bs \<equiv> with_policy (\<lambda>p. p\<lparr>pl_utf8 := bs\<rparr>)"

lemma with_utf8_simps [simp]: "pl_utf8 (ig_policy (with_utf8 bs ig)) = bs" "with_utf8 x (with_utf8 y ig) = with_utf8 x ig"
  "ig_engine (with_policy f ig) = ig_engine ig" "ig_output (with_policy f ig) = ig_output ig" "ig_policy (with_policy f ig) = f (ig_policy ig)"
  by (simp_all add: with_policy_def)

lemma step_ok_policy:
  "ingress_ok ig \<Longrightarrow> pending_ok (pl_utf8 (f (ig_policy ig))) \<Longrightarrow> state_ok (pl_state (f (ig_policy ig))) \<Longrightarrow>
    preceding_ok (pl_preceding_character (f (ig_policy ig))) \<Longrightarrow> step_ok ops ig (with_policy f ig)"
  by (simp add: step_ok_def ingress_ok_def unchanged)

lemma pending_ok_Nil [simp]: "pending_ok []"
  by (simp add: pending_ok_def)

lemma ok_state: "ingress_ok ig \<Longrightarrow> state_ok (pl_state (ig_policy ig))" "ingress_ok ig \<Longrightarrow> preceding_ok (pl_preceding_character (ig_policy ig))"
  by (simp_all add: ingress_ok_def)

text \<open>Draining: one character, a wait, or a fragment and the byte after it.\<close>

lemma drain_char: "bs \<noteq> [] \<Longrightarrow> utf8_scan bs = ScanChar c (length bs) \<Longrightarrow>
    drain_utf8 ops (with_utf8 bs ig) = print_character ops c (with_utf8 [] ig)"
  by (subst drain_utf8.simps) (simp add: from_utf8_scanned)

lemma drain_wait: "bs \<noteq> [] \<Longrightarrow> utf8_scan bs = ScanIncomplete \<Longrightarrow> drain_utf8 ops (with_utf8 bs ig) = with_utf8 bs ig"
  using utf8_scan_incomplete[of bs] by (subst drain_utf8.simps) (simp add: from_utf8_scanned)

definition fragment_fed :: "'g grid_ops \<Rightarrow> byte list \<Rightarrow> byte list \<Rightarrow> 'g ingress \<Rightarrow> 'g ingress" where
  "fragment_fed ops bs rest ig = with_engine (feed_raw ops bs) (with_policy (\<lambda>p. p\<lparr>pl_preceding_character := None, pl_utf8 := rest\<rparr>) ig)"

lemma drain_invalid:
  assumes "bs \<noteq> []" "utf8_scan bs = ScanInvalid k"
  shows "drain_utf8 ops (with_utf8 bs ig) =
    (if drop k bs = [] then fragment_fed ops (take k bs) [] ig else drain_utf8 ops (fragment_fed ops (take k bs) (drop k bs) ig))"
proof -
  have "min k (length bs) = k" using utf8_scan_invalid[OF assms(2)] by simp
  then show ?thesis
    using assms by (subst drain_utf8.simps) (simp add: from_utf8_scanned Let_def fragment_fed_def with_policy_def)
qed

lemma step_ok_fragment:
  assumes "ingress_ok ig" "bs \<noteq> []" "length bs \<le> 3" "\<And>b. b \<in> set bs \<Longrightarrow> 128 \<le> unat b"
  shows "step_ok ops ig (fragment_fed ops bs [] ig)"
proof -
  let ?ig = "with_policy (\<lambda>p. p\<lparr>pl_preceding_character := None, pl_utf8 := []\<rparr>) ig"
  have "admitted bs" using assms by (simp add: admitted_def list_all_iff)
  moreover have "step_ok ops ig ?ig" using assms(1) by (intro step_ok_policy) (simp_all add: ok_state)
  ultimately show ?thesis unfolding fragment_fed_def by (auto intro: step_ok_then step_ok_feed)
qed

lemma step_ok_print_with:
  "ingress_ok ig \<Longrightarrow> 32 \<le> c \<Longrightarrow> c \<noteq> 127 \<Longrightarrow> step_ok ops ig (print_character ops c (with_utf8 [] ig))"
  by (rule step_ok_then[OF step_ok_policy[where f = "\<lambda>p. p\<lparr>pl_utf8 := []\<rparr>"]]) (simp_all add: ok_state step_ok_print)

lemma step_ok_drain_one:
  assumes ok: "ingress_ok ig" and b: "32 \<le> unat b" "unat b \<noteq> 127"
  shows "step_ok ops ig (drain_utf8 ops (with_utf8 [b] ig))"
proof (cases "utf8_scan [b]")
  case (ScanChar c k)
  then have k: "k = 1" using utf8_scan_char[of "[b]"] by simp
  have "32 \<le> c \<and> c \<noteq> 127" using utf8_scan_ge_128[OF ScanChar] ScanChar b by (cases "unat b < 128") auto
  then show ?thesis using drain_char[of "[b]" c ops ig] ScanChar k ok by (simp add: step_ok_print_with)
next
  case (ScanInvalid k)
  then have "k = 1" "128 \<le> unat b" using utf8_scan_invalid[of "[b]" k] by (auto split: if_splits)
  then show ?thesis using drain_invalid[of "[b]" k ops ig] ScanInvalid ok by (auto intro!: step_ok_fragment)
next
  case ScanIncomplete
  then show ?thesis using drain_wait[of "[b]" ops ig] ok by (simp del: utf8_scan.simps add: step_ok_policy pending_ok_def ok_state)
qed

lemma step_ok_drain:
  assumes ok: "ingress_ok ig" and pending: "pending_ok bs" "bs \<noteq> []" and b: "32 \<le> unat b" "unat b \<noteq> 127"
  shows "step_ok ops ig (drain_utf8 ops (with_utf8 (bs @ [b]) ig))"
proof -
  obtain a as where bs: "bs = a # as" using pending(2) by (cases bs) auto
  have a: "128 \<le> unat a" using pending_bytes[OF pending(1)] by (simp add: bs)
  have incomplete: "utf8_scan bs = ScanIncomplete" using pending by (simp add: pending_ok_def)
  consider (char) d where "utf8_scan (bs @ [b]) = ScanChar d (length (bs @ [b]))" | (invalid) "utf8_scan (bs @ [b]) = ScanInvalid (length bs)"
    | (wait) "utf8_scan (bs @ [b]) = ScanIncomplete"
    using utf8_scan_snoc[OF incomplete pending(2), of b] by auto
  then show ?thesis
  proof cases
    case char
    then have "128 \<le> d" using utf8_scan_ge_128[of a "as @ [b]" d] a by (simp add: bs)
    then show ?thesis using drain_char[OF _ char, of ops ig] ok by (simp add: step_ok_print_with)
  next
    case invalid
    have one: "fragment_fed ops bs [b] ig = with_utf8 [b] (fragment_fed ops bs [] ig)"
      by (simp add: fragment_fed_def with_engine_def with_policy_def)
    have "step_ok ops ig (fragment_fed ops bs [] ig)"
      using ok pending pending_length[OF pending(1)] pending_bytes[OF pending(1)] by (intro step_ok_fragment)
    then show ?thesis using drain_invalid[OF _ invalid, of ops ig] b by (auto simp: one intro: step_ok_then step_ok_drain_one)
  next
    case wait
    then show ?thesis using drain_wait[of "bs @ [b]" ops ig] ok by (simp add: step_ok_policy pending_ok_def ok_state)
  qed
qed

lemma step_ok_flush: "ingress_ok ig \<Longrightarrow> step_ok ops ig (flush_partial_utf8 ops ig)"
proof -
  assume ok: "ingress_ok ig"
  let ?bs = "pl_utf8 (ig_policy ig)"
  have pending: "pending_ok ?bs" using ok by (simp add: ingress_ok_def)
  have "flush_partial_utf8 ops ig = (if ?bs = [] then ig else fragment_fed ops ?bs [] ig)"
    by (simp add: flush_partial_utf8_def fragment_fed_def with_engine_def with_policy_def)
  then show ?thesis
    using ok pending_length[OF pending] pending_bytes[OF pending] by (auto intro: step_ok_refl step_ok_fragment)
qed

subsection \<open>Sequences\<close>

lemma escape_frame_new: "escape_frame [0x1b]" "escape_frame [0x1b, 0x5b]"
  by (simp_all add: escape_frame_def is_printable_def string_introducer_def)

lemma state_ok_introduced: "c1_introducer b = Some state \<Longrightarrow> state_ok state"
  by (auto simp: c1_introducer_def sequence_ok_def sequence_new_def escape_frame_new MAX_CONTROL_SEQUENCE_BYTES_def string_ok_def string_new_def
      split: if_splits)

lemma state_ok_escape: "state_ok (Escape (sequence_new [0x1b]))"
  by (simp add: sequence_ok_def sequence_new_def escape_frame_new MAX_CONTROL_SEQUENCE_BYTES_def)

lemma process_ground_ok:
  assumes ok: "ingress_ok ig" and ground: "process_ground ops b ig = (ig', state)"
  shows "step_ok ops ig ig' \<and> state_ok state"
proof -
  have pending: "pending_ok (pl_utf8 (ig_policy ig))" using ok by (simp add: ingress_ok_def)
  have control: "step_ok ops ig (with_engine (feed_raw ops [b]) (flush_partial_utf8 ops ig))"
    if "b < 0x20 \<or> b = 0x7f" "b \<noteq> 0x1b" "b \<noteq> 0x07"
  proof (rule step_ok_then[OF step_ok_flush[OF ok]], rule step_ok_feed)
    show "admitted [b]" using that by (simp add: admitted_def)
  qed
  have bell: "step_ok ops ig (emit AudibleBell (flush_partial_utf8 ops ig))"
    using step_ok_flush[OF ok] by (auto intro: step_ok_then step_ok_emit)
  have drained: "step_ok ops ig (drain_utf8 ops (with_policy (\<lambda>p. p\<lparr>pl_utf8 := pl_utf8 p @ [b]\<rparr>) ig))"
    if "\<not> (b < 0x20 \<or> b = 0x7f)"
  proof -
    have b: "32 \<le> unat b" "unat b \<noteq> 127" using that by (auto simp: not_less byte_ranges)
    have same: "with_policy (\<lambda>p. p\<lparr>pl_utf8 := pl_utf8 p @ [b]\<rparr>) ig = with_utf8 (pl_utf8 (ig_policy ig) @ [b]) ig" by (simp add: with_policy_def)
    show ?thesis unfolding same
      using step_ok_drain[OF ok pending _ b] step_ok_drain_one[OF ok b] by (cases "pl_utf8 (ig_policy ig) = []") simp_all
  qed
  have ascii: "step_ok ops ig (print_character ops (unat b) ig)" if "\<not> (b < 0x20 \<or> b = 0x7f)"
    using that ok by (intro step_ok_print) (auto simp: not_less byte_ranges)
  show ?thesis
    using ground control bell drained ascii step_ok_flush[OF ok] step_ok_refl[OF ok] state_ok_escape state_ok_introduced[of b]
    by (auto simp: process_ground_def Let_def split: if_splits option.splits)
qed

lemma note_input_ok:
  assumes "sequence_ok sq" "note_input_byte sq = (sq', retain)"
  shows "sequence_ok sq'" "sq_bytes sq' = sq_bytes sq"
    "retain \<Longrightarrow> length (sq_bytes sq) < MAX_CONTROL_SEQUENCE_BYTES \<and> length (sq_bytes sq) < sq_input_bytes sq' \<and> \<not> sq_overflowed sq"
    "\<not> retain \<Longrightarrow> sq_overflowed sq'" "sq_overflowed sq \<Longrightarrow> sq_overflowed sq'"
  using assms by (auto simp: note_input_byte_def sequence_ok_def Let_def MAX_CONTROL_SEQUENCE_BYTES_def)

lemma escape_frame_snoc:
  "escape_frame bs \<Longrightarrow> is_printable b \<Longrightarrow> (length bs = 1 \<Longrightarrow> string_introducer b = None) \<Longrightarrow> escape_frame (bs @ [b])"
  unfolding escape_frame_def by (auto simp: hd_append)

lemma sequence_push_ok:
  assumes ok: "sequence_ok sq" and b: "is_printable b" "length (sq_bytes sq) = 1 \<Longrightarrow> \<not> sq_overflowed sq \<Longrightarrow> string_introducer b = None"
  shows "sequence_ok (sequence_push b sq) \<and>
    (sq_overflowed (sequence_push b sq) \<or> length (sq_bytes (sequence_push b sq)) = Suc (length (sq_bytes sq))) \<and>
    length (sq_bytes sq) \<le> length (sq_bytes (sequence_push b sq))"
proof -
  obtain sq' retain where noted: "note_input_byte sq = (sq', retain)" by (cases "note_input_byte sq")
  note kept = note_input_ok[OF ok noted]
  show ?thesis
  proof (cases retain)
    case True
    have "escape_frame (sq_bytes sq @ [b])" using ok b kept(3)[OF True] by (intro escape_frame_snoc) (auto simp: sequence_ok_def)
    then show ?thesis using True kept(3)[OF True] kept(2) by (simp add: sequence_push_def noted sequence_ok_def)
  next
    case False
    then show ?thesis using kept by (simp add: sequence_push_def noted)
  qed
qed

lemma sequence_common_None: "sequence_common ops again b sq ig = None \<Longrightarrow> is_printable b"
proof -
  assume "sequence_common ops again b sq ig = None"
  then have "b \<noteq> 0x18" "b \<noteq> 0x1a" "b \<noteq> 0x1b" "\<not> is_embedded_control b" "b < 0x80"
    by (auto simp: sequence_common_def not_le split: if_splits option.splits prod.splits)
  then have "unat b \<noteq> 24" "unat b \<noteq> 26" "unat b \<noteq> 27" "\<not> unat b \<le> 23" "unat b \<noteq> 25" "\<not> (28 \<le> unat b \<and> unat b \<le> 31)"
    "unat b \<noteq> 127" "unat b < 128"
    by (simp_all add: is_embedded_control_def word_le_nat_alt word_less_nat_alt word_unat_eq_iff)
  then have "32 \<le> unat b" "unat b \<le> 126" by linarith+
  then show "is_printable b" by (simp add: is_printable_def word_le_nat_alt)
qed

lemma step_ok_embedded: "ingress_ok ig \<Longrightarrow> is_embedded_control b \<Longrightarrow> step_ok ops ig (dispatch_embedded_control ops b ig)"
proof -
  assume ok: "ingress_ok ig" and b: "is_embedded_control b"
  have "admitted [b]" if "b \<noteq> 0x07" "b \<noteq> 0x7f"
  proof -
    have "b < 0x20" "b \<noteq> 0x1b" using b that by (auto simp: is_embedded_control_def word_le_nat_alt word_less_nat_alt word_unat_eq_iff)
    then show ?thesis using that by (simp add: admitted_def)
  qed
  then show ?thesis using ok by (auto simp: dispatch_embedded_control_def intro: step_ok_refl step_ok_emit step_ok_feed)
qed

lemma sequence_common_ok:
  assumes ok: "ingress_ok ig" "sequence_ok sq" and common: "sequence_common ops again b sq ig = Some (ig', state)"
    and again: "\<And>sq'. sequence_ok sq' \<Longrightarrow> sq_bytes sq' = sq_bytes sq \<Longrightarrow> (sq_overflowed sq \<Longrightarrow> sq_overflowed sq') \<Longrightarrow> state_ok (again sq')"
  shows "step_ok ops ig ig' \<and> state_ok state"
proof -
  obtain sq' retain where noted: "note_input_byte sq = (sq', retain)" by (cases "note_input_byte sq")
  have "state_ok (again sq')" using again note_input_ok(1,2,5)[OF ok(2) noted] by blast
  then show ?thesis
    using common step_ok_refl[OF ok(1)] step_ok_embedded[OF ok(1), of b] step_ok_emit[OF ok(1)] state_ok_escape state_ok_introduced[of b]
    by (auto simp: sequence_common_def noted split: if_splits option.splits)
qed

lemma admitted_sequence: "sequence_ok sq \<Longrightarrow> 2 \<le> length (sq_bytes sq) \<Longrightarrow> admitted (sq_bytes sq)"
  by (simp add: admitted_def sequence_ok_def)

subsection \<open>Dispatching sequences\<close>

lemma step_ok_dispatch_escape:
  assumes ok: "ingress_ok ig" "sequence_ok sq" and len: "sq_overflowed sq \<or> 2 \<le> length (sq_bytes sq)"
  shows "step_ok ops ig (dispatch_escape ops sq ig)"
proof -
  have chunk: "admitted (sq_bytes sq)" if "\<not> sq_overflowed sq" using admitted_sequence ok(2) len that by blast
  have reset: "step_ok ops ig (with_policy (\<lambda>p. p\<lparr>pl_preceding_character := None, pl_synchronized_output := False, pl_boundary := Some BoundaryReset\<rparr>)
      (with_engine (feed_reset ops (sq_bytes sq)) ig))" if "\<not> sq_overflowed sq"
  proof -
    have "step_ok ops ig (with_engine (feed_reset ops (sq_bytes sq)) ig)"
      using ok(1) chunk[OF that] by (intro step_ok_engine) (auto simp: ingress_ok_def engine_ok_feed_reset intro: grid_reaches.intros)
    then show ?thesis by (rule step_ok_then) (auto intro!: step_ok_policy simp: ingress_ok_def)
  qed
  show ?thesis
    unfolding dispatch_escape_def using ok(1) chunk reset by (auto intro: step_ok_emit step_ok_feed)
qed

lemma decimal_digits: "c \<in> set (decimal n) \<Longrightarrow> 48 \<le> c \<and> c \<le> 57"
  by (induction n rule: decimal.induct) (subst (asm) (2) decimal.simps, auto split: if_splits)

lemma join_with_set: "c \<in> set (join_with d ss) \<Longrightarrow> c \<in> set d \<or> (\<exists>s \<in> set ss. c \<in> set s)"
  by (cases ss) (auto split: if_splits)

lemma printable_utf8: "\<forall>c \<in> set s. 32 \<le> c \<and> c \<le> 126 \<Longrightarrow> list_all is_printable (utf8 s)"
  by (subst utf8_ascii) (auto simp: list_all_iff is_printable_def word_le_nat_alt unat_byte_small)

lemma admitted_mode_sequence: "admitted (mode_sequence forwarded enabled)"
proof -
  let ?body = "lit ''[?'' @ join_with (lit '';'') (map decimal forwarded) @ (if enabled then lit ''h'' else lit ''l'')"
  have "\<forall>c \<in> set ?body. 32 \<le> c \<and> c \<le> 126"
    by (auto dest!: join_with_set decimal_digits)
  then have "list_all is_printable (utf8 ?body)" by (rule printable_utf8)
  moreover have "utf8 (ESC # ?body) = 0x1b # utf8 ?body" "hd (utf8 ?body) = 0x5b" "utf8 ?body \<noteq> []"
    by (simp_all add: utf8_char_def ESC_def)
  ultimately have "escape_frame (mode_sequence forwarded enabled)" "2 \<le> length (mode_sequence forwarded enabled)"
    unfolding mode_sequence_def escape_frame_def by (simp_all add: string_introducer_def Suc_le_eq del: utf8_simps)
  then show ?thesis by (simp add: admitted_def)
qed

lemma mode_parameter_ok: "engine_ok eg \<Longrightarrow> engine_ok (mode_parameter enabled v eg) \<and> eg_term (mode_parameter enabled v eg) = eg_term eg"
  by (simp add: mode_parameter_def engine_ok_def colors_ok_flags)

lemma mode_parameters_ok:
  "engine_ok eg \<Longrightarrow> engine_ok (fold (mode_parameter enabled) vs eg) \<and> eg_term (fold (mode_parameter enabled) vs eg) = eg_term eg"
  by (induction vs arbitrary: eg) (simp_all add: mode_parameter_ok)

lemma step_ok_private_modes:
  assumes "ingress_ok ig"
  shows "step_ok ops ig (with_engine (apply_private_modes ops vs enabled) ig)"
proof (rule step_ok_engine[OF assms])
  note kept = mode_parameters_ok[of "ig_engine ig" enabled vs]
  have ok: "engine_ok (ig_engine ig)" using assms by (simp add: ingress_ok_def)
  show "engine_ok (apply_private_modes ops vs enabled (ig_engine ig))"
    using kept ok by (simp add: apply_private_modes_def Let_def engine_ok_feed_raw engine_ok_feed_screen_transition)
  show "grid_reaches ops (grid_of ig) (eg_term (apply_private_modes ops vs enabled (ig_engine ig)))"
    using kept ok by (auto simp: apply_private_modes_def Let_def intro: grid_reaches.intros admitted_mode_sequence)
qed

lemma step_ok_report_modes: "ingress_ok ig \<Longrightarrow> step_ok ops ig (fst (report_modes ops private vs ig))"
proof (induction vs arbitrary: ig)
  case (Cons v vs)
  let ?r = "utf8 (ESC # lit ''['' @ (if private then lit ''?'' else []) @ decimal v @ lit '';'' @
      decimal (if private \<and> v = 2026 then if pl_synchronized_output (ig_policy ig) then 1 else 2 else report_mode ops v private (ig_engine ig)) @ lit ''$y'')"
  obtain ig' e where r: "reply ?r ig = (ig', e)" by (cases "reply ?r ig")
  have "step_ok ops ig ig'" using step_ok_reply[OF Cons.prems, of ops ?r] by (simp only: r fst_conv)
  moreover have "fst (report_modes ops private (v # vs) ig) = (if e = None then fst (report_modes ops private vs ig') else ig')"
    unfolding report_modes.simps Let_def r by (cases e) simp_all
  ultimately show ?case using Cons.IH by (auto intro: step_ok_then)
qed (simp add: step_ok_refl)

lemma step_ok_stack:
  assumes "ingress_ok ig"
  shows "step_ok ops ig (with_engine (fold (\<lambda>v eg. eg\<lparr>eg_colors := colors_stack store v (eg_colors eg)\<rparr>) vs) ig)"
proof -
  have "engine_ok (fold (\<lambda>v eg. eg\<lparr>eg_colors := colors_stack store v (eg_colors eg)\<rparr>) vs eg) \<and>
      eg_term (fold (\<lambda>v eg. eg\<lparr>eg_colors := colors_stack store v (eg_colors eg)\<rparr>) vs eg) = eg_term eg" if "engine_ok eg" for eg :: "'a engine"
    using that by (induction vs arbitrary: eg) (simp_all add: engine_ok_def colors_ok_stack)
  then show ?thesis using assms by (intro step_ok_engine) (auto simp: ingress_ok_def unchanged)
qed

lemma step_ok_color_stack:
  assumes "ingress_ok ig"
  shows "step_ok ops ig (fst (dispatch_color_stack ops body final_byte ig))"
proof -
  note stack = step_ok_stack[OF assms, of ops "final_byte = of_char CHR ''P''"]
  have one: "step_ok ops ig (with_engine (\<lambda>eg. eg\<lparr>eg_colors := colors_stack (final_byte = of_char CHR ''P'') 0 (eg_colors eg)\<rparr>) ig)"
    using stack[of "[0]"] by simp
  obtain marker parsed where parsed: "parse_parameters (butlast body) = (marker, parsed)" by (cases "parse_parameters (butlast body)")
  show ?thesis
    using assms stack one unfolding dispatch_color_stack_def parsed Let_def
    by (cases marker; cases parsed; cases "the parsed") (simp_all add: step_ok_reply step_ok_refl del: fold_simps fold.simps)
qed

lemma step_ok_repeat:
  assumes ok: "ingress_ok ig"
  shows "step_ok ops ig (dispatch_repeat ops marker parameters ig)"
proof -
  have "step_ok ops ig' ((print_character ops c ^^ n) ig')" if "32 \<le> c" "c \<noteq> 127" "ingress_ok ig'" for c n and ig' :: "'a ingress"
    using that
  proof (induction n)
    case (Suc n)
    then show ?case using step_ok_print[of _ c ops] by (auto intro: step_ok_then)
  qed (simp add: step_ok_refl)
  then show ?thesis
    using ok ok_state(2)[OF ok] by (auto simp: dispatch_repeat_def step_ok_emit step_ok_refl split: option.split)
qed

lemma step_ok_dispatch_private_modes:
  assumes ok: "ingress_ok ig"
  shows "step_ok ops ig (dispatch_private_modes ops enabled parameters ig)"
  using ok step_ok_private_modes[OF ok] ok_state[OF ok]
  by (auto simp: dispatch_private_modes_def step_ok_emit ingress_ok_def[of ig] split: option.split intro!: step_ok_policy)

lemma step_ok_keyboard_mode:
  "ingress_ok ig \<Longrightarrow> admitted (sq_bytes sq) \<Longrightarrow> step_ok ops ig (fst (dispatch_keyboard_mode ops sq marker parameters ig))"
  by (simp add: dispatch_keyboard_mode_def step_ok_reply step_ok_emit step_ok_feed Let_def)

lemma step_ok_status: "ingress_ok ig \<Longrightarrow> step_ok ops ig (fst (dispatch_status ops marker parameters ig))"
  by (simp add: dispatch_status_def step_ok_reply step_ok_emit)

lemma step_ok_window: "ingress_ok ig \<Longrightarrow> step_ok ops ig (fst (dispatch_window ops body marker parameters ig))"
  by (simp add: dispatch_window_def step_ok_reply step_ok_emit Let_def split: option.split list.split)

lemma step_ok_dispatch_csi:
  assumes ok: "ingress_ok ig" "sequence_ok sq"
  shows "step_ok ops ig (fst (dispatch_csi ops sq ig))"
proof (cases "sq_overflowed sq \<or> length (sq_bytes sq) < 3")
  case False
  then have chunk: "admitted (sq_bytes sq)" using admitted_sequence[OF ok(2)] by simp
  have modes: "step_ok ops ig (fst (case parsed of Some vs \<Rightarrow> report_modes ops p vs ig | None \<Rightarrow> (ig, None)))" for parsed p
    using ok by (simp add: step_ok_report_modes step_ok_refl split: option.split)
  show ?thesis
    using False ok(1) chunk unfolding dispatch_csi_def Let_def
    by (simp add: split_beta if_distrib[of fst] modes step_ok_reply step_ok_refl step_ok_emit step_ok_feed step_ok_color_stack step_ok_status
        step_ok_window step_ok_keyboard_mode step_ok_repeat step_ok_dispatch_private_modes)
qed (use ok in \<open>simp add: dispatch_csi_def step_ok_emit\<close>)

subsection \<open>Control strings\<close>

lemma template_term [simp]: "eg_term (set_template_link ops l eg) = gr_set_template_hyperlink ops l (eg_term eg)"
  by (simp add: set_template_link_def)

lemma close_reaches: "grid_reaches ops (eg_term eg) (eg_term (close_hyperlink ops eg))"
  by (simp add: close_hyperlink_def linked unchanged)

lemma admit_reaches: "grid_reaches ops (eg_term eg) (eg_term (fst (admit_link ops v eg)))"
  by (auto simp: admit_link_def Let_def intro: linked unchanged)

lemma identity_term: "link_identity params eg = Some (eg', i) \<Longrightarrow> eg_term eg' = eg_term eg"
  by (auto simp: link_identity_def split: option.splits)

lemma set_web_reaches: "grid_reaches ops (eg_term eg) (eg_term (fst (set_web_hyperlink ops payload eg)))"
proof -
  have "grid_reaches ops (eg_term eg) (eg_term (fst (admit_link ops v eg1)))"
    if "link_identity params (close_hyperlink ops eg) = Some (eg1, i)" for params eg1 i v
    using admit_reaches[of ops eg1 v] close_reaches[of ops eg] identity_term[OF that] by (auto intro: grid_reaches_trans)
  then show ?thesis
    by (auto simp: set_web_hyperlink_def Let_def close_reaches identity_term split: option.split prod.split)
qed

lemma bounded_title_ok:
  assumes "str_len title \<le> MAX_TITLE_BYTES" "\<not> list_ex is_control (title @ cs)"
  shows "str_len (fst (bounded_title title cs)) \<le> MAX_TITLE_BYTES \<and> \<not> list_ex is_control (fst (bounded_title title cs))"
  using assms by (induction title cs rule: bounded_title.induct) auto

lemma application_title_ok:
  "str_len (fst (bounded_application_title bs)) \<le> MAX_TITLE_BYTES \<and> \<not> list_ex is_control (fst (bounded_application_title bs))"
  unfolding bounded_application_title_def by (rule bounded_title_ok) (auto simp: list_ex_iff)

lemma step_ok_clipboard: "ingress_ok ig \<Longrightarrow> step_ok ops ig (dispatch_clipboard ops payload ig)"
proof -
  assume ok: "ingress_ok ig"
  have "step_ok ops ig (set_host_effect (EffectClipboardWrite w) ig)" if "clipboard_write_new t = Ok w" for t w
    using ok effects_ok_push_clipboard[OF _ conjunct2[OF clipboard_write_Ok[OF that]], of "uc_host_effects (ig_output ig)"]
    by (simp add: step_ok_def ingress_ok_def set_host_effect_def collector_ok_def unchanged)
  then show ?thesis
    using ok by (auto simp: dispatch_clipboard_def step_ok_emit res_bind_Ok_iff map_err_Ok_iff split: prod.split option.split result.split)
qed

lemma ok_result_Some: "(case r of Ok v \<Rightarrow> Some v | Err _ \<Rightarrow> None) = Some n \<longleftrightarrow> r = Ok n"
  by (cases r) auto

lemma answered_Some: "(case p of (vc, answer) \<Rightarrow> map_option (Pair (g vc)) answer) = Some (x, r) \<longleftrightarrow> x = g (fst p) \<and> snd p = Some r"
  by (cases p) auto

lemma notification_of_ok: "notification_of command payload = Some n \<Longrightarrow> notification_validated (nt_title n) (nt_body n) = Ok n"
  by (cases "from_utf8 payload") (auto simp: notification_of_def bind_eq_Some_conv ok_result_Some split: if_split_asm dest: osc9_Ok osc777_Ok)

lemma step_ok_notification:
  assumes ok: "ingress_ok ig" and n: "notification_of command payload = Some n"
  shows "step_ok ops ig (set_host_effect (EffectNotification n) ig)"
  using ok effects_ok_push_notification[OF _ notification_of_ok[OF n], of "uc_host_effects (ig_output ig)"]
  by (simp add: step_ok_def ingress_ok_def set_host_effect_def collector_ok_def unchanged)

lemma step_ok_hyperlink:
  assumes ok: "ingress_ok ig" and eg: "engine_ok eg" "grid_reaches ops (grid_of ig) (eg_term eg)"
  shows "step_ok ops ig (ig\<lparr>ig_engine := eg\<rparr>)" "step_ok ops ig (emit e (ig\<lparr>ig_engine := close_hyperlink ops eg\<rparr>))"
proof -
  show "step_ok ops ig (ig\<lparr>ig_engine := eg\<rparr>)" using assms by (simp add: step_ok_def ingress_ok_def)
  have "step_ok ops ig (ig\<lparr>ig_engine := close_hyperlink ops eg\<rparr>)"
    using assms close_reaches[of ops eg] by (auto simp: step_ok_def ingress_ok_def intro: grid_reaches_trans)
  then show "step_ok ops ig (emit e (ig\<lparr>ig_engine := close_hyperlink ops eg\<rparr>))" by (auto intro: step_ok_then step_ok_emit)
qed

lemma step_ok_title:
  assumes ok: "ingress_ok ig" and title: "bounded_application_title bs = (title, truncated)"
  shows "step_ok ops ig (emit e (with_engine (\<lambda>eg. eg\<lparr>eg_application_title := title\<rparr>) ig))"
proof (rule step_ok_then)
  show "step_ok ops ig (with_engine (\<lambda>eg. eg\<lparr>eg_application_title := title\<rparr>) ig)"
    using ok application_title_ok[of bs] title by (intro step_ok_engine) (auto simp: ingress_ok_def engine_ok_def unchanged)
qed (rule step_ok_emit)

lemma step_ok_dispatch_osc:
  assumes ok: "ingress_ok ig"
  shows "step_ok ops ig (dispatch_osc ops bs ig)"
proof -
  have eg: "engine_ok (ig_engine ig)" using ok by (simp add: ingress_ok_def)
  have link: "step_ok ops ig (case (case from_utf8 payload of Ok t \<Rightarrow> set_web_hyperlink ops t (ig_engine ig) | Err _ \<Rightarrow> (ig_engine ig, False)) of
      (eg, accepted) \<Rightarrow> if accepted then ig\<lparr>ig_engine := eg\<rparr> else emit e (ig\<lparr>ig_engine := close_hyperlink ops eg\<rparr>))" for payload e
  proof (cases "from_utf8 payload")
    case (Ok t)
    obtain eg' accepted where set: "set_web_hyperlink ops t (ig_engine ig) = (eg', accepted)" by (cases "set_web_hyperlink ops t (ig_engine ig)")
    show ?thesis
      using step_ok_hyperlink[OF ok, of eg'] engine_ok_set_web_hyperlink[OF eg, of ops t] set_web_reaches[of ops "ig_engine ig" t]
      by (simp add: Ok set)
  qed (simp add: step_ok_hyperlink(2)[OF ok eg unchanged])
  obtain command payload where field: "split_field bs = (command, payload)" by (cases "split_field bs")
  show ?thesis
    unfolding dispatch_osc_def field Let_def prod.case
    using link[of _ payload] step_ok_title[OF ok, of payload] step_ok_emit[OF ok] step_ok_notification[OF ok, of command payload]
      step_ok_clipboard[OF ok, of ops payload]
    by (auto split: prod.split option.split simp del: bytes_def)
qed

lemma string_query_ok:
  assumes ok: "ingress_ok ig" and query: "string_query ops st e ig = Some (ig', answer)"
  shows "step_ok ops ig ig'"
proof -
  have "step_ok ops ig (with_engine (\<lambda>eg. eg\<lparr>eg_colors := fst (colors_osc b64 n payload e (eg_colors (ig_engine ig)))\<rparr>) ig)" for b64 n payload
    using ok by (intro step_ok_engine) (auto simp: ingress_ok_def engine_ok_def colors_ok_osc unchanged)
  then show ?thesis
    using query step_ok_refl[OF ok] unfolding string_query_def
    by (cases "from_utf8 (st_bytes st)") (auto simp: Let_def bind_eq_Some_conv answered_Some split: if_split_asm option.split_asm)
qed

lemma step_ok_dispatch_string:
  assumes ok: "ingress_ok ig"
  shows "step_ok ops ig (fst (dispatch_string ops st e ig))"
proof -
  have closed: "step_ok ops ig (with_engine (close_hyperlink ops) ig)"
    using ok by (intro step_ok_engine) (simp_all add: ingress_ok_def close_reaches)
  have answered: "step_ok ops ig (fst (reply answer ig'))" if "string_query ops st e ig = Some (ig', answer)" for ig' answer
    using string_query_ok[OF ok that] by (auto intro: step_ok_then step_ok_reply)
  show ?thesis
    unfolding dispatch_string_def Let_def
    using step_ok_emit[OF ok] step_ok_then[OF closed step_ok_emit] answered step_ok_dispatch_osc[OF ok]
    by (auto split: option.split)
qed

lemma string_push_ok: "string_ok st \<Longrightarrow> string_ok (string_push b st)"
  by (auto simp: string_ok_def string_push_def string_maximum_def Let_def MAX_OSC52_BASE64_BYTES_def MAX_CONTROL_STRING_BYTES_def
      MAX_TERMINAL_NOTIFICATION_BYTES_def split: prod.split if_splits)

lemma string_ok_escape [simp]: "string_ok (st\<lparr>st_saw_escape := x\<rparr>) = string_ok st"
  by (simp add: string_ok_def string_maximum_def)

subsection \<open>One byte, and a chunk of bytes\<close>

lemma process_escape_ok:
  assumes ok: "ingress_ok ig" "sequence_ok sq" and step: "process_escape ops b sq ig = (ig', state)"
  shows "step_ok ops ig ig' \<and> state_ok state"
proof (cases "sequence_common ops Escape b sq ig")
  case None
  let ?opening = "length (sq_bytes sq) = 1 \<and> \<not> sq_overflowed sq"
  let ?sq = "sequence_push b sq"
  have b: "is_printable b" using None by (rule sequence_common_None)
  have bracket: "string_introducer (of_char CHR ''['') = None" by (simp add: string_introducer_def)
  have "sq_bytes sq \<noteq> []" using ok(2) by (auto simp: sequence_ok_def escape_frame_def)
  then have "1 \<le> length (sq_bytes sq)" by (cases "sq_bytes sq") auto
  then have pushed: "sequence_ok ?sq \<and> (sq_overflowed ?sq \<or> 2 \<le> length (sq_bytes ?sq))" if "?opening \<Longrightarrow> string_introducer b = None"
    using sequence_push_ok[OF ok(2) b] that by auto
  have strings: "string_ok (string_new k)" for k by (simp add: string_ok_def string_new_def)
  consider (csi) "b = of_char CHR ''['' \<and> ?opening" "ig' = ig" "state = Csi ?sq"
    | (string) k where "ig' = ig" "state = ControlString (string_new k)"
    | (final) "?opening \<Longrightarrow> string_introducer b = None" "ig' = dispatch_escape ops ?sq ig" "state = Ground"
    | (wait) "?opening \<Longrightarrow> string_introducer b = None" "ig' = ig" "state = Escape ?sq"
    using step unfolding process_escape_def None Let_def by (auto split: if_splits option.splits)
  then show ?thesis
  proof cases
    case csi
    then show ?thesis using pushed bracket step_ok_refl[OF ok(1)] by auto
  next
    case string
    then show ?thesis using strings step_ok_refl[OF ok(1)] by simp
  next
    case final
    then show ?thesis using pushed step_ok_dispatch_escape[OF ok(1)] by simp
  next
    case wait
    then show ?thesis using pushed step_ok_refl[OF ok(1)] by simp
  qed
next
  case (Some r)
  then show ?thesis using step sequence_common_ok[OF ok, of ops Escape b ig' state] by (simp add: process_escape_def)
qed

lemma process_csi_ok:
  assumes ok: "ingress_ok ig" "state_ok (Csi sq)" and step: "process_csi ops b sq ig = ((ig', e), state)"
  shows "step_ok ops ig ig' \<and> state_ok state"
proof (cases "sequence_common ops Csi b sq ig")
  case None
  have sq: "sequence_ok sq" using ok(2) by simp
  have "sequence_ok (sequence_push b sq) \<and> (sq_overflowed (sequence_push b sq) \<or> 2 \<le> length (sq_bytes (sequence_push b sq)))"
  proof -
    have over: "sq_overflowed sq \<Longrightarrow> sq_overflowed (sequence_push b sq)"
      by (simp add: sequence_push_def note_input_byte_def Let_def)
    show ?thesis using sequence_push_ok[OF sq sequence_common_None[OF None]] ok(2) over by auto
  qed
  then show ?thesis
    using step step_ok_refl[OF ok(1)] step_ok_dispatch_csi[OF ok(1), of "sequence_push b sq" ops]
    by (auto simp: process_csi_def None Let_def split: if_splits)
next
  case (Some r)
  then show ?thesis
    using step ok(2) sequence_common_ok[OF ok(1), of sq ops Csi b ig' state] by (cases r) (auto simp: process_csi_def)
qed

lemma process_string_ok:
  assumes ok: "ingress_ok ig" "string_ok st" and step: "process_string ops b st ig = ((ig', e), state)"
  shows "step_ok ops ig ig' \<and> state_ok state"
proof -
  have "step_ok ops ig ig'" if "dispatch_string ops st' end' ig = (ig', e)" for st' end'
    using step_ok_dispatch_string[OF ok(1), of ops st' end'] by (simp add: that)
  then show ?thesis
    using step step_ok_refl[OF ok(1)] ok(2)
    by (auto simp: process_string_def Let_def string_push_ok split: if_splits)
qed

lemma process_byte_ok:
  assumes ok: "ingress_ok ig"
  shows "step_ok ops ig (fst (process_byte ops b ig))"
proof -
  let ?ig = "with_policy (\<lambda>p. p\<lparr>pl_state := Ground\<rparr>) ig"
  let ?done = "case pl_state (ig_policy ig) of
      Ground \<Rightarrow> (\<lambda>(ig', state). ((ig', None), state)) (process_ground ops b ?ig)
    | Escape sq \<Rightarrow> (\<lambda>(ig', state). ((ig', None), state)) (process_escape ops b sq ?ig)
    | Csi sq \<Rightarrow> process_csi ops b sq ?ig
    | ControlString st \<Rightarrow> process_string ops b st ?ig"
  obtain ig' e state where step: "?done = ((ig', e), state)" by (metis surj_pair)
  have taken: "step_ok ops ig ?ig" using ok by (intro step_ok_policy) (auto simp: ingress_ok_def)
  then have ground: "ingress_ok ?ig" by (simp add: step_ok_def)
  have "step_ok ops ?ig ig' \<and> state_ok state"
    using step ok_state(1)[OF ok] process_ground_ok[OF ground, of ops b ig' state] process_escape_ok[OF ground, of _ ops b ig' state]
      process_csi_ok[OF ground, of _ ops b ig' e state] process_string_ok[OF ground, of _ ops b ig' e state]
    by (cases "pl_state (ig_policy ig)") (auto split: prod.splits)
  then have all: "step_ok ops ig ig'" "state_ok state" using taken by (auto intro: step_ok_trans)
  then have "step_ok ops ig (with_policy (\<lambda>p. p\<lparr>pl_state := state\<rparr>) ig')"
    by (intro step_ok_then[OF all(1)] step_ok_policy) (auto simp: ingress_ok_def)
  moreover have "fst (process_byte ops b ig) = (if e = None then with_policy (\<lambda>p. p\<lparr>pl_state := state\<rparr>) ig' else ig')"
    unfolding process_byte_def Let_def step by (cases e) simp_all
  ultimately show ?thesis using all by simp
qed

lemma process_until_boundary_ok:
  "ingress_ok ig \<Longrightarrow> step_ok ops ig (fst (process_until_boundary ops bs ig)) \<and>
    (case snd (process_until_boundary ops bs ig) of Ok n \<Rightarrow> n \<le> length bs | Err _ \<Rightarrow> True)"
proof (induction bs arbitrary: ig)
  case (Cons b bs)
  obtain ig' e where byte: "process_byte ops b ig = (ig', e)" by (cases "process_byte ops b ig")
  have one: "step_ok ops ig ig'" using process_byte_ok[OF Cons.prems, of ops b] by (simp add: byte)
  then have collected: "step_ok ops ig (collect_events ig')" by (auto intro: step_ok_then step_ok_collect_events)
  obtain final r where rest: "process_until_boundary ops bs (collect_events ig') = (final, r)"
    by (cases "process_until_boundary ops bs (collect_events ig')")
  have "step_ok ops ig final" "case r of Ok n \<Rightarrow> n \<le> length bs | Err _ \<Rightarrow> True"
    using Cons.IH[of "collect_events ig'"] collected rest by (auto simp: step_ok_def intro: grid_reaches_trans)
  then show ?case using one collected by (cases e; cases r) (auto simp: byte rest Let_def)
qed (simp add: step_ok_refl)

subsection \<open>Guarantees\<close>

text \<open>The bytes the policy holds between two bytes of input.\<close>

definition retained_bytes :: "ingress_policy \<Rightarrow> nat" where
  "retained_bytes p = length (pl_utf8 p) + (case pl_state p of Ground \<Rightarrow> 0 | Escape sq \<Rightarrow> length (sq_bytes sq) | Csi sq \<Rightarrow> length (sq_bytes sq)
     | ControlString st \<Rightarrow> length (st_bytes st))"

lemma ingress_ok_new: "ingress_ok \<lparr>ig_policy = policy_default, ig_engine = engine_new ops size' rows, ig_output = collector_new\<rparr>"
  by (simp add: ingress_ok_def policy_default_def engine_ok_new collector_ok_def collector_new_def effects_ok_default)

lemma state_bound: "state_ok state \<Longrightarrow>
    (case state of Ground \<Rightarrow> 0 | Escape sq \<Rightarrow> length (sq_bytes sq) | Csi sq \<Rightarrow> length (sq_bytes sq) | ControlString st \<Rightarrow> length (st_bytes st))
      \<le> MAX_OSC52_BASE64_BYTES + 5"
  by (cases state) (auto simp: sequence_ok_def string_ok_def string_maximum_def MAX_CONTROL_SEQUENCE_BYTES_def MAX_OSC52_BASE64_BYTES_def
      MAX_CONTROL_STRING_BYTES_def MAX_TERMINAL_NOTIFICATION_BYTES_def split: if_splits)

text \<open>C21: Whatever bytes an application writes, processing them keeps every buffer within its limit: the policy retains at
  most one unfinished character and one unfinished sequence or string, the engine stays well formed, and the finished update
  has at most 64 KiB of replies, at most 32 events and only validated effects.  No more bytes are consumed than were given.\<close>

theorem ingress_bounded:
  assumes "ingress_ok ig" "process_until_boundary ops bs ig = (ig', r)" "collector_finish (ig_output ig') = (replies, events, effects)"
  shows "retained_bytes (ig_policy ig') \<le> 3 + (MAX_OSC52_BASE64_BYTES + 5) \<and> engine_ok (ig_engine ig') \<and>
    length replies \<le> MAX_REPLY_BYTES_PER_UPDATE \<and> length events \<le> MAX_SIDE_EVENTS_PER_UPDATE \<and> effects_ok effects \<and>
    (\<forall>n. r = Ok n \<longrightarrow> n \<le> length bs) \<and> ingress_ok ig'"
proof -
  have ok: "ingress_ok ig'" and consumed: "\<forall>n. r = Ok n \<longrightarrow> n \<le> length bs"
    using process_until_boundary_ok[OF assms(1), of ops bs] by (auto simp: assms(2) step_ok_def)
  have "retained_bytes (ig_policy ig') \<le> 3 + (MAX_OSC52_BASE64_BYTES + 5)"
    unfolding retained_bytes_def using ok pending_length[of "pl_utf8 (ig_policy ig')"] state_bound[of "pl_state (ig_policy ig')"]
    by (intro add_mono) (auto simp: ingress_ok_def)
  then show ?thesis
    using ok consumed assms(3) bounded_events_length[of "uc_events (ig_output ig')"]
    by (auto simp: ingress_ok_def collector_ok_def collector_finish_def)
qed

text \<open>A grid that records what it receives.\<close>

definition plain_cell :: grid_cell where
  "plain_cell = \<lparr>gc_char = 32, gc_flags = {}, gc_fg = GridNamed NamedForeground, gc_bg = GridNamed NamedBackground,
     gc_underline_color = None, gc_zerowidth = [], gc_hyperlink = None\<rparr>"

definition recording_grid :: "byte list list grid_ops" where
  "recording_grid = \<lparr>gr_new = (\<lambda>_ _. []), gr_advance = (\<lambda>bs g. (g @ [bs], [])), gr_resize = (\<lambda>_ g. (g, [])), gr_flag = (\<lambda>_ _. False),
     gr_screen_lines = (\<lambda>_. 1), gr_columns = (\<lambda>_. 1), gr_history_size = (\<lambda>_. 0), gr_cell = (\<lambda>_ _ _. plain_cell),
     gr_cursor_point = (\<lambda>_. (0, 0)), gr_set_cursor_line = (\<lambda>_ g. g), gr_input_needs_wrap = (\<lambda>_. False),
     gr_cursor_style = (\<lambda>_. (ShapeBlock, False)), gr_template = (\<lambda>_. plain_cell), gr_saved_template = (\<lambda>_. plain_cell),
     gr_set_template_hyperlink = (\<lambda>_ g. g), gr_width = (\<lambda>_. Some 1), gr_url_parse = (\<lambda>_. None), gr_base64_encode = (\<lambda>s. s),
     gr_base64_decode = (\<lambda>_. None)\<rparr>"

definition recording_ingress :: "byte list list ingress" where
  "recording_ingress = \<lparr>ig_policy = policy_default, ig_engine = engine_new recording_grid \<lparr>sz_rows = 1, sz_columns = 1\<rparr> 0, ig_output = collector_new\<rparr>"

lemma recording_ok: "ingress_ok recording_ingress"
  by (simp add: recording_ingress_def ingress_ok_new)

theorem ingress_bounded_witness:
  "ingress_ok (fst (process_until_boundary recording_grid [0x1b, 0x5d, 0x30] recording_ingress))"
proof -
  obtain ig' r where run: "process_until_boundary recording_grid [0x1b, 0x5d, 0x30] recording_ingress = (ig', r)"
    by (cases "process_until_boundary recording_grid [0x1b, 0x5d, 0x30] recording_ingress")
  obtain replies events effects where fin: "collector_finish (ig_output ig') = (replies, events, effects)"
    by (cases "collector_finish (ig_output ig')")
  show ?thesis unfolding run fst_conv using ingress_bounded[OF recording_ok run fin] by blast
qed

text \<open>C20: Whatever bytes an application writes, the grid receives only admitted chunks: a single control byte other than BEL
  and ESC, the encoding of one printable character, at most three bytes of broken UTF-8, or a complete escape sequence
  of printable bytes that does not open a control string.  The payload of control strings never reaches it.\<close>

theorem grid_input_admitted:
  assumes "ingress_ok ig"
  shows "grid_reaches ops (eg_term (ig_engine ig)) (eg_term (ig_engine (fst (process_until_boundary ops bs ig))))"
  using process_until_boundary_ok[OF assms, of ops bs] by (simp add: step_ok_def)

theorem grid_input_admitted_witness:
  "grid_reaches recording_grid (eg_term (ig_engine recording_ingress))
    (eg_term (ig_engine (fst (process_until_boundary recording_grid [0x41, 0x1b, 0x5b, 0x41] recording_ingress))))"
  by (rule grid_input_admitted[OF recording_ok])

subsection \<open>Text is delivered exactly\<close>

text \<open>A policy between two characters, with no events waiting in the engine.\<close>

definition at_rest :: "'g ingress \<Rightarrow> bool" where
  "at_rest ig \<longleftrightarrow> pl_state (ig_policy ig) = Ground \<and> pl_utf8 (ig_policy ig) = [] \<and> pl_boundary (ig_policy ig) = None \<and>
    eg_sink (ig_engine ig) = \<lparr>eb_events = [], eb_dropped = 0\<rparr>"

definition deliver :: "'g grid_ops \<Rightarrow> scalar \<Rightarrow> 'g ingress \<Rightarrow> 'g ingress" where
  "deliver ops c ig = collect_events (print_character ops c ig)"

lemma collect_events_rest: "eg_sink (ig_engine ig) = \<lparr>eb_events = [], eb_dropped = 0\<rparr> \<Longrightarrow> collect_events ig = ig"
  by (simp add: collect_events_def take_events_def bounded_events_def)

lemma fold_emit_policy: "ig_policy (fold emit es ig) = ig_policy ig" "ig_engine (fold emit es ig) = ig_engine ig"
  by (induction es arbitrary: ig) (simp_all add: emit_def)

lemma deliver_rest: "at_rest ig \<Longrightarrow> at_rest (deliver ops c ig)"
  by (simp add: at_rest_def deliver_def collect_events_def take_events_def fold_emit_policy print_character_def emit_def split: prod.split)

lemma with_state_same: "pl_state (ig_policy ig) = s \<Longrightarrow> with_policy (\<lambda>p. p\<lparr>pl_state := s\<rparr>) ig = ig"
  by (simp add: with_policy_def)

lemma printed_state: "pl_state (ig_policy (print_character ops c ig)) = pl_state (ig_policy ig)"
  by (simp add: print_character_def emit_def split: prod.split)

lemma ground_byte:
  assumes "pl_state (ig_policy ig) = Ground" "process_ground ops b ig = (ig', Ground)" "pl_state (ig_policy ig') = Ground"
  shows "process_byte ops b ig = (ig', None)"
  using assms by (simp add: process_byte_def with_state_same)

text \<open>A byte that begins or continues a character only waits; the last one prints it.\<close>

lemma text_byte_not_control: "128 \<le> unat (b :: byte) \<Longrightarrow> b \<noteq> 0x1b \<and> \<not> (b < 0x20 \<or> b = 0x7f) \<and> \<not> b < 0x80"
  by (auto simp: word_less_nat_alt word_unat_eq_iff)

lemma lead_not_introducer: "utf8_tail b = Some t \<Longrightarrow> c1_introducer b = None"
  by (auto simp: c1_introducer_def utf8_tail_def)

lemma process_ground_text:
  assumes "128 \<le> unat b" "pl_utf8 (ig_policy ig) \<noteq> [] \<or> c1_introducer b = None"
  shows "process_ground ops b ig = (drain_utf8 ops (with_utf8 (pl_utf8 (ig_policy ig) @ [b]) ig), Ground)"
  using text_byte_not_control[OF assms(1)] assms(2) by (auto simp: process_ground_def with_policy_def)

lemma pending_run:
  assumes rest: "at_rest ig" and pre: "utf8_scan pre = ScanIncomplete" "pre \<noteq> []" and bs: "bs \<noteq> []"
    and whole: "utf8_scan (pre @ bs) = ScanChar c (length (pre @ bs))" "\<And>k. 0 < k \<Longrightarrow> k < length (pre @ bs) \<Longrightarrow> utf8_scan (take k (pre @ bs)) = ScanIncomplete"
    and high: "\<forall>b \<in> set bs. 128 \<le> unat b"
  shows "process_until_boundary ops (bs @ later) (with_utf8 pre ig) =
    (case process_until_boundary ops later (deliver ops c ig) of (ig', Ok n) \<Rightarrow> (ig', Ok (length bs + n)) | (ig', Err e) \<Rightarrow> (ig', Err e))"
  using pre bs whole high
proof (induction bs arbitrary: pre)
  case (Cons b bs)
  let ?ig = "with_utf8 pre ig"
  have state: "pl_state (ig_policy ?ig) = Ground" using rest by (simp add: at_rest_def)
  have ground: "process_ground ops b ?ig = (drain_utf8 ops (with_utf8 (pre @ [b]) ig), Ground)"
    using process_ground_text[of b ?ig ops] Cons.prems by simp
  show ?case
  proof (cases "bs = []")
    case True
    have drained: "drain_utf8 ops (with_utf8 (pre @ [b]) ig) = print_character ops c (with_utf8 [] ig)"
      using drain_char[of "pre @ [b]" c ops ig] Cons.prems True by simp
    have same: "with_utf8 [] ig = ig" using rest by (simp add: at_rest_def with_policy_def)
    have "process_byte ops b ?ig = (print_character ops c ig, None)"
      using ground drained same rest by (intro ground_byte[OF state]) (simp_all add: printed_state at_rest_def)
    moreover have "pl_boundary (ig_policy (deliver ops c ig)) = None" using deliver_rest[OF rest] by (simp add: at_rest_def)
    ultimately show ?thesis
      by (simp add: True deliver_def Let_def split: prod.split result.split)
  next
    case False
    have inc: "utf8_scan (pre @ [b]) = ScanIncomplete"
      using Cons.prems(5)[of "Suc (length pre)"] False by simp
    have "process_byte ops b ?ig = (with_utf8 (pre @ [b]) ig, None)"
      using ground drain_wait[OF _ inc, of ops ig] rest by (intro ground_byte[OF state]) (simp_all add: at_rest_def)
    moreover have "collect_events (with_utf8 (pre @ [b]) ig) = with_utf8 (pre @ [b]) ig"
      using rest by (intro collect_events_rest) (simp add: at_rest_def)
    moreover have "pl_boundary (ig_policy (with_utf8 (pre @ [b]) ig)) = None" using rest by (simp add: at_rest_def)
    moreover note Cons.IH[OF inc _ False] Cons.prems
    ultimately show ?thesis by (simp add: Let_def split: prod.split result.split)
  qed
qed simp

lemma scan_tail_high: "scan_tail n low high seen c bs = ScanChar d k \<Longrightarrow> length bs = n \<Longrightarrow> 128 \<le> low \<Longrightarrow> \<forall>b \<in> set bs. 128 \<le> unat b"
  by (induction n low high seen c bs rule: scan_tail.induct) (auto split: if_splits)

text \<open>The bytes of a character beyond ASCII.\<close>

lemma wide_character:
  assumes c: "is_scalar c" "128 \<le> c"
  obtains lead rest where "utf8_char c = lead # rest" "rest \<noteq> []" "128 \<le> unat lead" "c1_introducer lead = None" "\<forall>b \<in> set rest. 128 \<le> unat b"
proof -
  have scan: "utf8_scan (utf8_char c) = ScanChar c (length (utf8_char c))" using utf8_scan_encoded[OF c(1), of "[]"] by simp
  obtain lead rest where char: "utf8_char c = lead # rest" using utf8_char_nonempty[of c] by (cases "utf8_char c") auto
  have lead: "128 \<le> unat lead" using scan c(2) by (auto simp: char split: if_splits)
  then obtain n low high where tail: "utf8_tail lead = Some (n, low, high)"
      "scan_tail n low high 1 (unat lead mod 2 ^ (6 - n)) rest = ScanChar c (Suc (length rest))"
    using scan by (auto simp: char split: option.splits)
  have n: "length rest = n" "1 \<le> n" using scan_tail_char[OF tail(2)] utf8_tail_length[OF tail(1)] by auto
  then have "rest \<noteq> []" by auto
  moreover have "\<forall>b \<in> set rest. 128 \<le> unat b" using scan_tail_high[OF tail(2) n(1) utf8_tail_low[OF tail(1)]] .
  ultimately show ?thesis using that[OF char] lead lead_not_introducer[OF tail(1)] by blast
qed

lemma char_run:
  assumes rest: "at_rest ig" and c: "is_scalar c" "32 \<le> c" "c \<noteq> 127"
  shows "process_until_boundary ops (utf8_char c @ later) ig =
    (case process_until_boundary ops later (deliver ops c ig) of (ig', Ok n) \<Rightarrow> (ig', Ok (length (utf8_char c) + n)) | (ig', Err e) \<Rightarrow> (ig', Err e))"
proof (cases "c < 128")
  case True
  let ?b = "word_of_nat c :: byte"
  have b: "unat ?b = c" using True by (intro unat_byte_small) simp
  have "\<not> (?b < 0x20 \<or> ?b = 0x7f)" "?b \<noteq> 0x1b" "?b < 0x80" "c1_introducer ?b = None"
    using b c True by (auto simp: word_less_nat_alt word_unat_eq_iff c1_introducer_def)
  then have "process_ground ops ?b ig = (print_character ops c ig, Ground)"
    using rest b by (simp add: process_ground_def at_rest_def)
  then have "process_byte ops ?b ig = (print_character ops c ig, None)"
    using rest by (intro ground_byte) (simp_all add: printed_state at_rest_def)
  moreover have "pl_boundary (ig_policy (deliver ops c ig)) = None" using deliver_rest[OF rest] by (simp add: at_rest_def)
  moreover have "utf8_char c = [?b]" using True by (simp add: utf8_char_def)
  ultimately show ?thesis by (simp add: deliver_def Let_def split: prod.split result.split)
next
  case False
  then obtain lead tail where char: "utf8_char c = lead # tail" "tail \<noteq> []" "128 \<le> unat lead" "c1_introducer lead = None"
      "\<forall>b \<in> set tail. 128 \<le> unat b" using wide_character[OF c(1)] by (metis not_less)
  have scan: "utf8_scan (utf8_char c) = ScanChar c (length (utf8_char c))" using utf8_scan_encoded[OF c(1), of "[]"] by simp
  have prefixes: "utf8_scan (take k (utf8_char c)) = ScanIncomplete" if "0 < k" "k < length (utf8_char c)" for k
    using encoded_prefix_incomplete[OF c(1) that(1)] that(2) by simp
  have inc: "utf8_scan [lead] = ScanIncomplete" using prefixes[of 1] char(1,2) by (cases tail) simp_all
  have "process_ground ops lead ig = (drain_utf8 ops (with_utf8 [lead] ig), Ground)"
    using process_ground_text[OF char(3), of ig ops] char(4) rest by (simp add: at_rest_def)
  then have "process_byte ops lead ig = (with_utf8 [lead] ig, None)"
    using drain_wait[OF _ inc, of ops ig] rest by (intro ground_byte) (simp_all add: at_rest_def)
  moreover have "collect_events (with_utf8 [lead] ig) = with_utf8 [lead] ig" using rest by (intro collect_events_rest) (simp add: at_rest_def)
  moreover have "pl_boundary (ig_policy (with_utf8 [lead] ig)) = None" using rest by (simp add: at_rest_def)
  moreover have "process_until_boundary ops (tail @ later) (with_utf8 [lead] ig) =
      (case process_until_boundary ops later (deliver ops c ig) of (ig', Ok n) \<Rightarrow> (ig', Ok (length tail + n)) | (ig', Err e) \<Rightarrow> (ig', Err e))"
    using scan prefixes char inc by (intro pending_run[OF rest]) simp_all
  ultimately show ?thesis by (simp add: char(1) Let_def split: prod.split result.split)
qed

text \<open>C22: Printable text written by an application in UTF-8 is consumed completely and delivered exactly, one character after
  the other, whatever bytes its encoding contains.\<close>

theorem text_delivered:
  assumes "at_rest ig" "\<forall>c \<in> set str. is_scalar c \<and> 32 \<le> c \<and> c \<noteq> 127"
  shows "process_until_boundary ops (utf8 str) ig = (fold (deliver ops) str ig, Ok (length (utf8 str)))"
  using assms
proof (induction str arbitrary: ig)
  case (Cons c cs)
  then have "process_until_boundary ops (utf8 cs) (deliver ops c ig) = (fold (deliver ops) cs (deliver ops c ig), Ok (length (utf8 cs)))"
    by (simp add: deliver_rest)
  then show ?case using char_run[of ig c ops "utf8 cs"] Cons.prems by simp
qed simp

lemma recording_rest: "at_rest recording_ingress"
  by (simp add: at_rest_def recording_ingress_def policy_default_def engine_new_def take_events_def)

theorem text_delivered_witness:
  "process_until_boundary recording_grid (utf8 [0x48, 0x11d, 0x20ac]) recording_ingress =
    (fold (deliver recording_grid) [0x48, 0x11d, 0x20ac] recording_ingress, Ok 6)"
proof -
  have "\<forall>c \<in> set [0x48, 0x11d, 0x20ac]. is_scalar c \<and> 32 \<le> c \<and> c \<noteq> (127::nat)" by (simp add: is_scalar_def)
  moreover have "length (utf8 [0x48, 0x11d, 0x20ac]) = 6" by (simp add: len_utf8_def)
  ultimately show ?thesis using text_delivered[OF recording_rest, of "[0x48, 0x11d, 0x20ac]" recording_grid] by (simp only:)
qed

end
