(* ===== verification/Ingress_Strings.thy ===== *)
theory Ingress_Strings
  imports Ingress_Safety
begin

section \<open>Text inside control strings\<close>

text \<open>
  A control string ends at BEL or at a string terminator, whose 8-bit form \<open>0x9c\<close> is also a
  continuation byte of UTF-8.  The policy tracks the encoding so that text inside a string is
  never cut; the theorem follows a title from the bytes of the application to the engine.
\<close>

subsection \<open>Tracking the encoding\<close>

lemma expectation_of_tail:
  assumes "utf8_tail b = Some (n, low, high)"
  shows "utf8_expectation b = (n, word_of_nat low, word_of_nat high)" "low < 256" "high < 256"
  using assms by (auto simp: utf8_tail_def utf8_expectation_def Let_def word_le_nat_alt word_unat_eq_iff split: if_splits)

lemma expectation_ascii: "unat b < 128 \<Longrightarrow> fst (utf8_expectation b) = 0"
  by (auto simp: utf8_expectation_def word_le_nat_alt word_unat_eq_iff)

lemma string_push_fields:
  "st_utf8_remaining (string_push b st) = (if is_utf8_continuation st b then st_utf8_remaining st - 1 else fst (utf8_expectation b))"
  "st_continuation_min (string_push b st) = (if is_utf8_continuation st b then 0x80 else fst (snd (utf8_expectation b)))"
  "st_continuation_max (string_push b st) = (if is_utf8_continuation st b then 0xbf else snd (snd (utf8_expectation b)))"
  "st_kind (string_push b st) = st_kind st" "st_saw_escape (string_push b st) = st_saw_escape st"
  by (simp_all add: string_push_def Let_def split: prod.split)

lemma string_push_bytes:
  assumes "length (st_bytes st) < MAX_CONTROL_STRING_BYTES"
  shows "st_bytes (string_push b st) = st_bytes st @ [b]" "st_overflowed (string_push b st) = st_overflowed st"
  using assms by (auto simp: string_push_def Let_def string_maximum_def MAX_CONTROL_STRING_BYTES_def MAX_TERMINAL_NOTIFICATION_BYTES_def
      MAX_OSC52_BASE64_BYTES_def split: prod.split)

lemma string_pushes:
  "length (st_bytes st) + length bs \<le> MAX_CONTROL_STRING_BYTES \<Longrightarrow>
    st_bytes (fold string_push bs st) = st_bytes st @ bs \<and> st_overflowed (fold string_push bs st) = st_overflowed st \<and>
    st_kind (fold string_push bs st) = st_kind st \<and> st_saw_escape (fold string_push bs st) = st_saw_escape st"
  by (induction bs arbitrary: st) (simp_all add: string_push_bytes string_push_fields)

text \<open>A byte the string takes as text.\<close>

definition string_text :: "control_string \<Rightarrow> byte \<Rightarrow> bool" where
  "string_text st b \<longleftrightarrow> \<not> st_saw_escape st \<and> 32 \<le> unat b \<and> (unat b < 128 \<or> is_utf8_continuation st b \<or> b \<noteq> 0x9c)"

fun all_text :: "control_string \<Rightarrow> byte list \<Rightarrow> bool" where
  "all_text st [] = True"
| "all_text st (b # bs) = (string_text st b \<and> all_text (string_push b st) bs)"

lemma all_text_append: "all_text st (xs @ ys) \<longleftrightarrow> all_text st xs \<and> all_text (fold string_push xs st) ys"
  by (induction xs arbitrary: st) auto

lemma continuation_text:
  "scan_tail n low high seen c bs = ScanChar d k \<Longrightarrow> length bs = n \<Longrightarrow> 128 \<le> low \<Longrightarrow> low < 256 \<Longrightarrow> high < 256 \<Longrightarrow> \<not> st_saw_escape st \<Longrightarrow>
    st_utf8_remaining st = n \<Longrightarrow> st_continuation_min st = word_of_nat low \<Longrightarrow> st_continuation_max st = word_of_nat high \<Longrightarrow>
    all_text st bs \<and> st_utf8_remaining (fold string_push bs st) = 0"
proof (induction n low high seen c bs arbitrary: st rule: scan_tail.induct)
  case (3 n low high seen c b bs)
  then have b: "low \<le> unat b" "unat b \<le> high" by (auto split: if_splits)
  then have cont: "is_utf8_continuation st b"
    using 3 by (simp add: is_utf8_continuation_def word_le_nat_alt unat_byte_small)
  have "all_text (string_push b st) bs \<and> st_utf8_remaining (fold string_push bs (string_push b st)) = 0"
    using 3 b cont by (intro "3.IH") (simp_all add: string_push_fields)
  then show ?case using cont 3 b by (simp add: string_text_def)
qed auto

lemma char_text:
  assumes st: "st_utf8_remaining st = 0" "\<not> st_saw_escape st" and c: "is_scalar c" "32 \<le> c"
  shows "all_text st (utf8_char c) \<and> st_utf8_remaining (fold string_push (utf8_char c) st) = 0"
proof -
  have scan: "utf8_scan (utf8_char c) = ScanChar c (length (utf8_char c))" using utf8_scan_encoded[OF c(1), of "[]"] by simp
  obtain lead rest where char: "utf8_char c = lead # rest" using utf8_char_nonempty[of c] by (cases "utf8_char c") auto
  have cont: "\<not> is_utf8_continuation st lead" using st by (simp add: is_utf8_continuation_def)
  show ?thesis
  proof (cases "unat lead < 128")
    case True
    then have "rest = []" "c = unat lead" using scan by (auto simp: char)
    then have "32 \<le> unat lead" "utf8_char c = [lead]" using c char by simp_all
    then show ?thesis using True st cont by (simp add: string_text_def string_push_fields expectation_ascii)
  next
    case False
    then obtain n low high where tail: "utf8_tail lead = Some (n, low, high)"
        "scan_tail n low high 1 (unat lead mod 2 ^ (6 - n)) rest = ScanChar c (Suc (length rest))"
      using scan by (auto simp: char split: option.splits)
    have "lead \<noteq> 0x9c" using tail(1) by (auto simp: utf8_tail_def)
    moreover have "length rest = n" using scan_tail_char[OF tail(2)] by simp
    moreover have "all_text (string_push lead st) rest \<and> st_utf8_remaining (fold string_push rest (string_push lead st)) = 0"
      using calculation st cont expectation_of_tail[OF tail(1)] utf8_tail_low[OF tail(1)]
      by (intro continuation_text[OF tail(2)]) (simp_all add: string_push_fields)
    ultimately show ?thesis using False st by (simp add: char string_text_def)
  qed
qed

lemma utf8_text:
  "st_utf8_remaining st = 0 \<Longrightarrow> \<not> st_saw_escape st \<Longrightarrow> \<forall>c \<in> set s. is_scalar c \<and> 32 \<le> c \<Longrightarrow> all_text st (utf8 s)"
proof (induction s arbitrary: st)
  case (Cons c cs)
  have esc: "st_saw_escape (fold string_push bs st') = st_saw_escape st'" for bs st'
    by (induction bs arbitrary: st') (simp_all add: string_push_fields)
  show ?case using Cons char_text[of st c] by (simp add: all_text_append esc)
qed simp

subsection \<open>From the bytes to the string\<close>

abbreviation in_string :: "control_string \<Rightarrow> 'g ingress \<Rightarrow> 'g ingress" where
  "in_string st \<equiv> with_policy (\<lambda>p. p\<lparr>pl_state := ControlString st\<rparr>)"

definition shifted :: "nat \<Rightarrow> 'g ingress \<times> (nat, ingress_error) result \<Rightarrow> 'g ingress \<times> (nat, ingress_error) result" where
  "shifted n r = (case r of (ig, Ok m) \<Rightarrow> (ig, Ok (n + m)) | (ig, Err e) \<Rightarrow> (ig, Err e))"

lemma shifted_simps [simp]: "shifted n (ig, Ok m) = (ig, Ok (n + m))" "shifted n (ig, Err e) = (ig, Err e)"
  by (simp_all add: shifted_def)

lemma shifted_shifted: "shifted m (shifted n r) = shifted (m + n) r"
  by (cases r; cases "snd r") auto

text \<open>One byte that leaves the engine at rest and raises no boundary.\<close>

lemma step_shifted:
  assumes "process_byte ops b ig = (ig', None)" "eg_sink (ig_engine ig') = \<lparr>eb_events = [], eb_dropped = 0\<rparr>" "pl_boundary (ig_policy ig') = None"
  shows "process_until_boundary ops (b # bs) ig = shifted 1 (process_until_boundary ops bs ig')"
  using assms(1,3) collect_events_rest[OF assms(2)] by (simp add: Let_def shifted_def split: prod.split result.split)

lemma rest_taken: "at_rest ig \<Longrightarrow> with_policy (\<lambda>p. p\<lparr>pl_state := Ground\<rparr>) (with_policy (\<lambda>p. p\<lparr>pl_state := s\<rparr>) ig) = ig"
  by (simp add: at_rest_def with_policy_def)

lemma string_byte:
  assumes rest: "at_rest ig" and b: "string_text st b"
  shows "process_byte ops b (in_string st ig) = (in_string (string_push b st) ig, None)"
proof -
  have "b \<noteq> 0x18" "b \<noteq> 0x1a" "b \<noteq> 0x1b" "b \<noteq> 0x07" "\<not> (b = 0x9c \<and> \<not> is_utf8_continuation st b)" "\<not> st_saw_escape st"
    using b by (auto simp: string_text_def word_unat_eq_iff)
  then have "process_string ops b st ig = ((ig, None), ControlString (string_push b st))"
    by (auto simp: process_string_def Let_def)
  then show ?thesis using rest_taken[OF rest] by (simp add: process_byte_def Let_def)
qed

lemma string_run:
  "at_rest ig \<Longrightarrow> all_text st bs \<Longrightarrow>
    process_until_boundary ops (bs @ later) (in_string st ig) = shifted (length bs) (process_until_boundary ops later (in_string (fold string_push bs st) ig))"
proof (induction bs arbitrary: st)
  case Nil
  then show ?case by (simp add: shifted_def split: prod.split result.split)
next
  case (Cons b bs)
  have "process_until_boundary ops ((b # bs) @ later) (in_string st ig) = shifted 1 (process_until_boundary ops (bs @ later) (in_string (string_push b st) ig))"
    using Cons.prems string_byte[of ig st b ops] by (simp del: process_until_boundary.simps add: step_shifted at_rest_def)
  then show ?case using Cons by (simp del: process_until_boundary.simps add: shifted_shifted)
qed

subsection \<open>A title\<close>

definition title_bytes :: "rust_str \<Rightarrow> byte list" where
  "title_bytes s = [0x1b, 0x5d] @ utf8 (lit ''0;'' @ s) @ [0x07]"

lemma string_opens:
  assumes rest: "at_rest ig"
  shows "process_until_boundary ops (0x1b # 0x5d # bs) ig = shifted 2 (process_until_boundary ops bs (in_string (string_new StringOsc) ig))"
proof -
  let ?esc = "with_policy (\<lambda>p. p\<lparr>pl_state := Escape (sequence_new [0x1b])\<rparr>) ig"
  have taken: "with_policy (\<lambda>p. p\<lparr>pl_state := Ground\<rparr>) ig = ig" using rest by (simp add: at_rest_def with_policy_def)
  have "process_ground ops 0x1b ig = (ig, Escape (sequence_new [0x1b]))" using rest by (simp add: process_ground_def flush_partial_utf8_def at_rest_def)
  then have first: "process_byte ops 0x1b ig = (?esc, None)" using rest by (simp add: process_byte_def at_rest_def taken)
  have "process_escape ops 0x5d (sequence_new [0x1b]) ig = (ig, ControlString (string_new StringOsc))"
    by (simp add: process_escape_def sequence_common_def c1_introducer_def is_embedded_control_def sequence_new_def string_introducer_def)
  then have second: "process_byte ops 0x5d ?esc = (in_string (string_new StringOsc) ig, None)"
    using rest_taken[OF rest] by (simp add: process_byte_def)
  have "process_until_boundary ops (0x1b # 0x5d # bs) ig = shifted 1 (process_until_boundary ops (0x5d # bs) ?esc)"
    using first rest by (intro step_shifted) (simp_all add: at_rest_def)
  moreover have "process_until_boundary ops (0x5d # bs) ?esc = shifted 1 (process_until_boundary ops bs (in_string (string_new StringOsc) ig))"
    using second rest by (intro step_shifted) (simp_all add: at_rest_def)
  ultimately show ?thesis by (simp only: shifted_shifted one_add_one)
qed

lemma bounded_title_exact: "str_len t + str_len s \<le> MAX_TITLE_BYTES \<Longrightarrow> bounded_title t s = (t @ s, False)"
  by (induction t s rule: bounded_title.induct) auto

lemma application_title_exact:
  assumes "is_str s" "\<not> list_ex is_control s" "str_len s \<le> MAX_TITLE_BYTES"
  shows "bounded_application_title (utf8 s) = (s, False)"
proof -
  have "filter (\<lambda>c. \<not> is_control c) s = s" using assms(2) by (simp add: list_ex_iff filter_id_conv)
  then show ?thesis using assms bounded_title_exact[of "[]" s] by (simp add: bounded_application_title_def from_utf8_lossy_encoded)
qed

lemma dispatch_title:
  assumes s: "is_str s" "\<not> list_ex is_control s" "str_len s \<le> MAX_TITLE_BYTES"
    and st: "st_bytes st = utf8 (lit ''0;'' @ s)" "st_kind st = StringOsc" "\<not> st_overflowed st"
  shows "dispatch_string ops st e ig = (emit (TitleChanged s False) (with_engine (\<lambda>eg. eg\<lparr>eg_application_title := s\<rparr>) ig), None)"
proof -
  have bytes: "st_bytes st = [0x30, 0x3b] @ utf8 s" using st(1) by (simp add: utf8_char_def)
  have "is_str (lit ''0;'' @ s)" using s(1) by (simp add: is_str_def is_scalar_def)
  then have decoded: "from_utf8 (st_bytes st) = Ok (lit ''0;'' @ s)" using from_utf8_encoded st(1) by metis
  have none: "string_query ops st e ig = None"
    unfolding string_query_def decoded using st(2)
    by (simp add: split_once_def parse_uint_def digits_value_def is_ascii_digit_def colors_osc_def Let_def)
  have "split_field (st_bytes st) = ([0x30], utf8 s)" by (simp add: split_field_def split_once_def bytes)
  then have "dispatch_osc ops (st_bytes st) ig = emit (TitleChanged s False) (with_engine (\<lambda>eg. eg\<lparr>eg_application_title := s\<rparr>) ig)"
    by (simp add: dispatch_osc_def application_title_exact[OF s])
  then show ?thesis using none st by (simp add: dispatch_string_def)
qed

text \<open>C23: A title written as an OSC 0 string reaches the engine exactly: any text without control characters that fits the
  limit becomes the title, is reported once as not truncated, and every byte is consumed, even where an encoded
  character contains the byte that ends a control string on its own.\<close>

theorem title_set_exactly:
  assumes rest: "at_rest ig" and s: "is_str s" "\<not> list_ex is_control s" "str_len s \<le> MAX_TITLE_BYTES"
  shows "process_until_boundary ops (title_bytes s) ig =
    (emit (TitleChanged s False) (with_engine (\<lambda>eg. eg\<lparr>eg_application_title := s\<rparr>) ig), Ok (length (title_bytes s)))"
proof -
  let ?text = "utf8 (lit ''0;'' @ s)"
  let ?st = "fold string_push ?text (string_new StringOsc)"
  let ?final = "emit (TitleChanged s False) (with_engine (\<lambda>eg. eg\<lparr>eg_application_title := s\<rparr>) ig)"
  have "\<forall>c \<in> set (lit ''0;'' @ s). is_scalar c \<and> 32 \<le> c"
    using s(1,2) by (auto simp: is_str_def list_ex_iff list_all_iff is_control_def is_scalar_def not_le)
  then have "all_text (string_new StringOsc) ?text" by (intro utf8_text) (simp_all add: string_new_def)
  note text_run = string_run[OF rest this]
  have "length ?text \<le> MAX_CONTROL_STRING_BYTES"
    using s(3) by (simp add: length_utf8 MAX_TITLE_BYTES_def MAX_CONTROL_STRING_BYTES_def MAX_TERMINAL_NOTIFICATION_BYTES_def)
  then have st: "st_bytes ?st = ?text" "st_kind ?st = StringOsc" "\<not> st_overflowed ?st"
    using string_pushes[of "string_new StringOsc" ?text] by (simp_all add: string_new_def)
  have "process_string ops 0x07 ?st ig = ((?final, None), Ground)"
    using dispatch_title[OF s st, of ops "[7]" ig] st(2) by (simp add: process_string_def)
  then have "process_byte ops 0x07 (in_string ?st ig) = (with_policy (\<lambda>p. p\<lparr>pl_state := Ground\<rparr>) ?final, None)"
    by (simp add: process_byte_def rest_taken[OF rest] Let_def)
  moreover have "with_policy (\<lambda>p. p\<lparr>pl_state := Ground\<rparr>) ?final = ?final"
    using rest by (intro with_state_same) (simp add: at_rest_def emit_def with_engine_def)
  ultimately have last: "process_until_boundary ops [0x07] (in_string ?st ig) = shifted 1 (process_until_boundary ops [] ?final)"
    using rest by (intro step_shifted) (simp_all add: at_rest_def emit_def with_engine_def)
  have "process_until_boundary ops (title_bytes s) ig = shifted 2 (shifted (length ?text) (shifted 1 (?final, Ok 0)))"
    unfolding title_bytes_def append.simps string_opens[OF rest] text_run last by simp
  then show ?thesis by (simp add: title_bytes_def)
qed

text \<open>The title consists of U+015C, whose encoding ends in the byte \<open>0x9c\<close>.\<close>

theorem title_set_exactly_witness:
  "process_until_boundary recording_grid (title_bytes [0x15c]) recording_ingress =
    (emit (TitleChanged [0x15c] False) (with_engine (\<lambda>eg. eg\<lparr>eg_application_title := [0x15c]\<rparr>) recording_ingress), Ok 7) \<and>
   0x9c \<in> set (title_bytes [0x15c])"
proof -
  have "is_str [0x15c]" "\<not> list_ex is_control [0x15c]" "str_len [0x15c] \<le> MAX_TITLE_BYTES"
    by (simp_all add: is_str_def is_scalar_def is_control_def len_utf8_def MAX_TITLE_BYTES_def)
  note run = title_set_exactly[OF recording_rest this, of recording_grid]
  have "length (title_bytes [0x15c]) = 7" "0x9c \<in> set (title_bytes [0x15c])"
    by (simp_all add: title_bytes_def len_utf8_def utf8_char_def)
  then show ?thesis using run by (simp only: simp_thms)
qed

end
