(* ===== verification/Spec2Isabelle.thy ===== *)
theory Spec2Isabelle
  imports Operation_Window Authorization Pairing_Runs Viewport_Cache Session_Lifecycle Session_Control Ingress_Strings
begin

section \<open>voytty: verification development\<close>

text \<open>
  \<^bold>\<open>The program.\<close>  voytty keeps terminal sessions alive in a per-user daemon and lets the
  local user and paired devices attach to them.  A host creates a one-time ticket; a controller
  that knows it runs a short handshake (\<open>client/src/pairing.rs\<close>) with the pairing manager of the
  host (\<open>daemon/src/pairing.rs\<close>), which commits an authorization with a generation
  (\<open>core/src/authorization.rs\<close>, \<open>daemon/src/authorization.rs\<close>).  Authorized devices connect
  (\<open>core/src/transport.rs\<close>, \<open>daemon/src/connection_broker.rs\<close>) and exchange frames
  (\<open>proto/src/lib.rs\<close>).  The daemon creates, names, ends and replays operations on sessions
  (\<open>daemon/src/session.rs\<close>).  What an application writes in a session passes the ingress policy and the
  engine (\<open>terminal/src/\<close>) on its way to the grid; what a session shows travels as surfaces, deltas and history windows
  (\<open>core/src/terminal.rs\<close>), which a controller keeps in a bounded cache
  (\<open>core/src/viewport_cache.rs\<close>).  All paths are below \<open>src/crates/\<close>.

  \<^bold>\<open>The theories.\<close>  Every definition keeps the name of the Rust item it translates where it can;
  a method takes its receiver as the last argument and returns the changed receiver first.

    \<^item> \<open>Prelude\<close>, \<open>Ordered_Map\<close>, \<open>Traces\<close>: Rust's results, checked integers, strings and
      \<open>BTreeMap\<close>; runs of a component, with the locales \<open>invariant_machine\<close> and \<open>exactly_once\<close>.
    \<^item> \<open>Domain\<close>, \<open>Domain_Errors\<close>, \<open>Device\<close>: the value types of \<open>core/src/domain.rs\<close> and
      \<open>core/src/device.rs\<close> with their text codecs and validation.
    \<^item> \<open>Operation_Window\<close>: the bounded replay window of \<open>core/src/domain.rs\<close>.
    \<^item> \<open>Authorization\<close>: generations, snapshots and the registry with its permits as explicit
      state.
    \<^item> \<open>Pair_Ticket\<close>, \<open>Pair_Framing\<close>, \<open>Pair_Protocol\<close>: tickets, proofs, the framed stream and the
      controller's side of the handshake.
    \<^item> \<open>Pairing_Manager\<close>, \<open>Pairing_Runs\<close>: the host's side; the sections under its lock, the handlers
      composed of them, and their interleavings.
    \<^item> \<open>Transport\<close>: connection limits, hello and welcome, duplicate connections and routes.
    \<^item> \<open>Wire_Kinds\<close>, \<open>Wire_Framing\<close>, \<open>Wire_Values\<close>: message kinds, the stream decoder and encoder,
      and the conversions between wire messages and validated values.
    \<^item> \<open>Terminal_Surface\<close>, \<open>History_Window\<close>: surfaces, deltas and history requests.
    \<^item> \<open>Viewport_Pages\<close>, \<open>Viewport_Cache\<close>: the accounted page store and the client's cache.
    \<^item> \<open>Session_Replay\<close>: leases, epochs and result cells of session operations.
    \<^item> \<open>Session_Registry\<close>, \<open>Session_Places\<close>, \<open>Session_Lifecycle\<close>: names, identities, reservations,
      the creation of sessions and shutdown as interleaved sections.
    \<^item> \<open>Session_Actor\<close>, \<open>Session_Control\<close>: the runtime of one session: attachments, the controller
      lease, takeover, the command gate, the worker loop and the end of the session.
    \<^item> \<open>Std_Text\<close>, \<open>Host_Effects\<close>: UTF-8 and text functions of the standard library; clipboard
      writes, notifications and side events.
    \<^item> \<open>Color_Names\<close>, \<open>Color_Text\<close>, \<open>Terminal_Colors\<close>: the table of colour names, the parsing of colours
      with exact floating-point rounding, and the palette of a session.
    \<^item> \<open>Terminal_Engine\<close>, \<open>Terminal_Ingress\<close>: the engine around the upstream grid, and the framing and
      dispatch of application output; \<open>Ingress_Safety\<close>, \<open>Ingress_Strings\<close>: what they guarantee.

  \<^bold>\<open>What is shown.\<close>

    \<^item> Exactly-once execution: of operations in a window (\<open>Operation_Window\<close>), of session operations
      under retries, evictions and retired leases (\<open>Session_Replay\<close>), and of offers
      (\<open>Pairing_Runs\<close>).
    \<^item> Security of pairing: proofs bind the whole transcript, a generation the controller accepts
      was received in its own handshake with a tag over that handshake, a definite failure means
      that no proof was sent, and a permit commits only at the generation that was authorized.
    \<^item> Codecs: streams survive arbitrary chunking, decoders are bounded and detect truncation,
      validated values, tickets and identifiers round-trip.
    \<^item> Views: deltas apply exactly when they are valid, valid history requests always have an exact
      answer, and the cache shows what the host has, within its memory budget.  Its requests are
      valid, except that prefetching from too far beyond the history asks for rows that do not exist.
    \<^item> Sessions: names and identities are unique and resolve to each other, running sessions are
      bounded, shutdown is final, nothing leaks, and creations report what happened.
    \<^item> Control of a session: only the holder of the lease acts, a lost lease never returns, a prepared
      takeover commits, an ending session ends, and an expired command never runs.
    \<^item> Application output: the grid receives only admitted chunks, buffers, replies, events and effects
      are bounded, and text and titles are delivered exactly.  The search in the table of colour
      names agrees with a scan of it.
    \<^item> Progress: an honest handshake completes, duplicate connections converge, the honest answer to a
      valid request is accepted and shown when it fits, and a lease is issued whenever no operation
      is in flight.

  \<^bold>\<open>Code that is not modelled but called.\<close>  Hashes and message authentication (\<open>ring\<close>), protobuf codecs
  (\<open>prost\<close>), inflation (\<open>flate2\<close>), base64, the terminal grid and its parser
  (\<open>alacritty_terminal\<close>), character widths, URL parsing, streams, clocks and random numbers are arguments of the
  definitions.  What is assumed of them is a named predicate (\<open>mac_verifies\<close>, \<open>codec_roundtrip\<close>,
  \<open>ticket_codec_ok\<close>, \<dots>), and the examples instantiate them.

  \<^bold>\<open>Concurrency.\<close>  A section of the code that holds a lock is one function; a run interleaves the
  sections of any number of threads in any order, and memory is sequentially consistent.  Waiting
  is a step that is not enabled yet.

  \<^bold>\<open>Bounds and fuel.\<close>  No definition uses fuel.  The loops that are not structural
  (\<open>evict\<close>, \<open>retire_until_room\<close>, \<open>make_room\<close>, \<open>drain_utf8\<close>, \<open>binary_search\<close>, the varint and frame loops) have termination proofs by
  the measure that shrinks.  Integer widths are written out as bounds on natural numbers.

  \<^bold>\<open>Not modelled.\<close>  The asynchronous plumbing between the components (services, local sockets,
  tunnels, the client runtime), SQL, the operating system
  layer, the user interface, diagnostics and release tooling: their behaviour is input and output.
  The terminal model (\<open>terminal/src/model.rs\<close>) and the projection of the grid into surfaces, which publish
  revisions of the engine, text selection, release manifests, upload metadata and the encoding of
  keys and mouse events are not covered.  Debug and serde implementations, error message texts and plain accessors are left out
  throughout.
\<close>

end
